(* ===== verification/GoBase.thy ===== *)
theory GoBase
  imports Main "HOL-Library.Word" "HOL-Library.Sublist" "HOL-Library.Char_ord"
    "HOL-Library.List_Lexorder"
begin

text \<open>
  The part of the Go language and its standard library that the modelled packages use.
  A Go string or byte slice is a \<^typ>\<open>string\<close>, that is a list of 8-bit characters: one
  list element is one byte, so \<^term>\<open>length\<close> is Go's \<open>len\<close>. A Go \<open>int\<close>/\<open>int64\<close> is an
  \<^typ>\<open>int\<close>, with \<open>wrap64\<close> written where the code can overflow. A \<open>time.Time\<close> and a
  \<open>time.Duration\<close> are a number of nanoseconds. An error is a value (\<open>option\<close> or sum).

  Case mapping is modelled on ASCII letters and on the non-ASCII letters whose image is
  an ASCII letter (so that a comparison with an ASCII keyword is decided as Go decides
  it); every other byte is left alone. White space is modelled exactly: the code points
  of \<open>unicode.IsSpace\<close> in their UTF-8 encoding.
\<close>

section \<open>Hint collections\<close>

named_theorems go_defs \<open>definitions of small helpers that proofs unfold together\<close>
named_theorems go_split \<open>split rules for results of the model\<close>

section \<open>Results\<close>

text \<open>A result \<open>(T, error)\<close> of a Go function: \<open>Inl\<close> is a non-nil error, with its text.\<close>

type_synonym 'a res = "string + 'a"

section \<open>Lists and maps\<close>

lemma takeWhile_eq_self_iff: "takeWhile P xs = xs \<longleftrightarrow> (\<forall>x\<in>set xs. P x)"
  by (metis takeWhile_eq_all_conv)

lemma sum_list_filter_le_length:
  "length (filter P xs) \<le> length xs"
  by (rule length_filter_le)

lemma length_filter_neq:
  "distinct xs \<Longrightarrow> x \<in> set xs \<Longrightarrow> Suc (length (filter (\<lambda>y. y \<noteq> x) xs)) = length xs"
proof (induction xs)
  case (Cons a xs)
  have "filter (\<lambda>y. y \<noteq> x) xs = xs" if "x \<notin> set xs"
    using that by (intro filter_True) auto
  with Cons show ?case by (cases "a = x") auto
qed simp

text \<open>Skipping a run and then the word that follows it makes progress: the termination of
  the word-splitting loops.\<close>

lemma skip_word_shrinks:
  assumes "dropWhile P xs \<noteq> []"
  shows "length (dropWhile (\<lambda>c. \<not> P c) (dropWhile P xs)) < length xs"
proof -
  obtain c t where c: "dropWhile P xs = c # t"
    using assms by (cases "dropWhile P xs") auto
  then have "\<not> P c" by (metis assms hd_dropWhile list.sel(1))
  with c have "length (dropWhile (\<lambda>c. \<not> P c) (dropWhile P xs)) \<le> length t"
    by (simp add: length_dropWhile_le)
  also have "length t < length xs"
    using length_dropWhile_le [of P xs] c by simp
  finally show ?thesis .
qed

text \<open>\<open>dedup_first\<close> keeps the first occurrence of every element, in order: the shape of
  every \<open>seen\<close>-map loop of the code.\<close>

fun dedup_from :: "'a set \<Rightarrow> 'a list \<Rightarrow> 'a list" where
  "dedup_from seen [] = []"
| "dedup_from seen (x # xs) =
     (if x \<in> seen then dedup_from seen xs else x # dedup_from (insert x seen) xs)"

abbreviation dedup_first :: "'a list \<Rightarrow> 'a list" where
  "dedup_first xs \<equiv> dedup_from {} xs"

lemma set_dedup_from [simp]: "set (dedup_from seen xs) = set xs - seen"
  by (induction seen xs rule: dedup_from.induct) auto

lemma distinct_dedup_from [simp]: "distinct (dedup_from seen xs)"
  by (induction seen xs rule: dedup_from.induct) auto

lemma dedup_from_distinct: "distinct xs \<Longrightarrow> set xs \<inter> seen = {} \<Longrightarrow> dedup_from seen xs = xs"
  by (induction seen xs rule: dedup_from.induct) auto

lemma length_dedup_from: "length (dedup_from seen xs) \<le> length xs"
  by (induction seen xs rule: dedup_from.induct) (auto simp: le_SucI)

lemma dedup_first_idem [simp]: "dedup_first (dedup_first xs) = dedup_first xs"
  by (simp add: dedup_from_distinct)

text \<open>The first result along a list.\<close>

fun first_some :: "('a \<Rightarrow> 'b option) \<Rightarrow> 'a list \<Rightarrow> 'b option" where
  "first_some f [] = None"
| "first_some f (x # xs) = (case f x of Some y \<Rightarrow> Some y | None \<Rightarrow> first_some f xs)"

lemma first_some_cong [fundef_cong]:
  "xs = ys \<Longrightarrow> (\<And>x. x \<in> set ys \<Longrightarrow> f x = g x) \<Longrightarrow> first_some f xs = first_some g ys"
  by (induction xs arbitrary: ys) (auto split: option.splits)

lemma first_some_SomeD: "first_some f xs = Some y \<Longrightarrow> \<exists>x\<in>set xs. f x = Some y"
  by (induction xs) (auto split: option.splits)

lemma first_some_None_iff: "first_some f xs = None \<longleftrightarrow> (\<forall>x\<in>set xs. f x = None)"
  by (induction xs) (auto split: option.splits)

section \<open>64-bit signed wrap-around\<close>

definition wrap64 :: "int \<Rightarrow> int" where
  "wrap64 x = (x + 2 ^ 63) mod 2 ^ 64 - 2 ^ 63"

definition max_int64 :: int where
  "max_int64 = 2 ^ 63 - 1"

lemma wrap64_range: "- (2 ^ 63) \<le> wrap64 x \<and> wrap64 x \<le> max_int64"
proof -
  have "0 \<le> (x + 2 ^ 63) mod 2 ^ 64" and "(x + 2 ^ 63) mod 2 ^ 64 < (2 ^ 64 :: int)"
    by simp_all
  then show ?thesis by (simp add: wrap64_def max_int64_def)
qed

lemma wrap64_id: "- (2 ^ 63) \<le> x \<Longrightarrow> x \<le> max_int64 \<Longrightarrow> wrap64 x = x"
  by (simp add: wrap64_def max_int64_def)

lemma wrap64_id_nonneg: "0 \<le> x \<Longrightarrow> x \<le> max_int64 \<Longrightarrow> wrap64 x = x"
  by (rule wrap64_id) (simp_all add: max_int64_def)

lemma wrap64_add_left: "wrap64 (wrap64 a + b) = wrap64 (a + b)"
proof -
  have "((a + 2 ^ 63) mod 2 ^ 64 + b) mod 2 ^ 64 = (a + 2 ^ 63 + b) mod (2 ^ 64 :: int)"
    by (simp add: mod_simps)
  then show ?thesis by (simp add: wrap64_def algebra_simps)
qed

lemma wrap64_0 [simp]: "wrap64 0 = 0"
  by (simp add: wrap64_def)

section \<open>Bytes\<close>

abbreviation byte_val :: "char \<Rightarrow> nat" where
  "byte_val c \<equiv> of_char c"

lemma byte_val_char_of: "n < 256 \<Longrightarrow> byte_val (char_of n) = n"
  by simp

lemma byte_val_inject: "byte_val c = byte_val d \<longleftrightarrow> c = d"
  by simp

definition is_digit :: "char \<Rightarrow> bool" where
  "is_digit c \<longleftrightarrow> 48 \<le> byte_val c \<and> byte_val c \<le> 57"

definition is_lower :: "char \<Rightarrow> bool" where
  "is_lower c \<longleftrightarrow> 97 \<le> byte_val c \<and> byte_val c \<le> 122"

definition is_upper :: "char \<Rightarrow> bool" where
  "is_upper c \<longleftrightarrow> 65 \<le> byte_val c \<and> byte_val c \<le> 90"

definition upper_byte :: "char \<Rightarrow> char" where
  "upper_byte c = (if is_lower c then char_of (byte_val c - 32) else c)"

definition lower_byte :: "char \<Rightarrow> char" where
  "lower_byte c = (if is_upper c then char_of (byte_val c + 32) else c)"

lemma is_lower_lower_byte [simp]: "\<not> is_upper (lower_byte c)"
  by (auto simp: lower_byte_def is_upper_def byte_val_char_of)

lemma is_upper_upper_byte [simp]: "\<not> is_lower (upper_byte c)"
  by (auto simp: upper_byte_def is_lower_def byte_val_char_of)

lemma lower_byte_id: "\<not> is_upper c \<Longrightarrow> lower_byte c = c"
  by (simp add: lower_byte_def)

lemma upper_byte_id: "\<not> is_lower c \<Longrightarrow> upper_byte c = c"
  by (simp add: upper_byte_def)

section \<open>Package strings\<close>

text \<open>\<open>HasPrefix\<close>/\<open>HasSuffix\<close> are \<^const>\<open>prefix\<close>/\<^const>\<open>suffix\<close>.\<close>

definition go_TrimPrefix :: "string \<Rightarrow> string \<Rightarrow> string" where
  "go_TrimPrefix s p = (if prefix p s then drop (length p) s else s)"

definition go_TrimSuffix :: "string \<Rightarrow> string \<Rightarrow> string" where
  "go_TrimSuffix s p = (if suffix p s then take (length s - length p) s else s)"

definition go_CutPrefix :: "string \<Rightarrow> string \<Rightarrow> string option" where
  "go_CutPrefix s p = (if prefix p s then Some (drop (length p) s) else None)"

text \<open>\<open>strings.Cut(s, sep)\<close>: the text before and after the first occurrence, if any.\<close>

fun go_Cut :: "string \<Rightarrow> string \<Rightarrow> (string \<times> string) option" where
  "go_Cut sep [] = (if sep = [] then Some ([], []) else None)"
| "go_Cut sep (c # cs) =
     (if prefix sep (c # cs) then Some ([], drop (length sep) (c # cs))
      else map_option (\<lambda>(a, b). (c # a, b)) (go_Cut sep cs))"

lemma go_Cut_append: "go_Cut sep s = Some (a, b) \<Longrightarrow> s = a @ sep @ b"
proof (induction sep s arbitrary: a b rule: go_Cut.induct)
  case (1 sep)
  then show ?case by (simp split: if_splits)
next
  case (2 sep c cs)
  show ?case
  proof (cases "prefix sep (c # cs)")
    case True
    with "2.prems" show ?thesis by (auto elim: prefixE)
  next
    case False
    with "2.prems" obtain a' where "go_Cut sep cs = Some (a', b)" and "a = c # a'"
      by auto
    with "2.IH" [OF False] show ?thesis by simp
  qed
qed

text \<open>Cutting at a one-byte separator.\<close>

lemma go_Cut_single:
  "go_Cut [d] s = (if d \<in> set s
     then Some (takeWhile (\<lambda>x. x \<noteq> d) s, tl (dropWhile (\<lambda>x. x \<noteq> d) s)) else None)"
  by (induction s) auto

lemma go_Cut_single_append: "d \<notin> set a \<Longrightarrow> go_Cut [d] (a @ d # b) = Some (a, b)"
  by (induction a) auto

definition go_Contains :: "string \<Rightarrow> string \<Rightarrow> bool" where
  "go_Contains s sub \<longleftrightarrow> go_Cut sub s \<noteq> None"

definition go_ContainsAny :: "string \<Rightarrow> string \<Rightarrow> bool" where
  "go_ContainsAny s cs \<longleftrightarrow> list_ex (\<lambda>c. c \<in> set cs) s"

lemma go_ContainsAny_iff: "go_ContainsAny s cs \<longleftrightarrow> set s \<inter> set cs \<noteq> {}"
  by (auto simp: go_ContainsAny_def list_ex_iff)

definition go_TrimLeft :: "string \<Rightarrow> string \<Rightarrow> string" where
  "go_TrimLeft s cs = dropWhile (\<lambda>c. c \<in> set cs) s"

definition go_TrimRight :: "string \<Rightarrow> string \<Rightarrow> string" where
  "go_TrimRight s cs = rev (dropWhile (\<lambda>c. c \<in> set cs) (rev s))"

definition go_Trim :: "string \<Rightarrow> string \<Rightarrow> string" where
  "go_Trim s cs = go_TrimRight (go_TrimLeft s cs) cs"

lemma go_TrimRight_prefix: "prefix (go_TrimRight s cs) s"
proof -
  have "suffix (dropWhile (\<lambda>c. c \<in> set cs) (rev s)) (rev s)"
    by (rule suffix_dropWhile)
  then show ?thesis by (simp add: go_TrimRight_def suffix_to_prefix)
qed

lemma length_go_TrimRight: "length (go_TrimRight s cs) \<le> length s"
  using go_TrimRight_prefix by (rule prefix_length_le)

fun go_Split1 :: "char \<Rightarrow> string \<Rightarrow> string list" where
  "go_Split1 d [] = [[]]"
| "go_Split1 d (c # cs) =
     (if c = d then [] # go_Split1 d cs
      else (case go_Split1 d cs of [] \<Rightarrow> [[c]] | w # ws \<Rightarrow> (c # w) # ws))"

fun go_Join :: "string list \<Rightarrow> string \<Rightarrow> string" where
  "go_Join [] sep = []"
| "go_Join [w] sep = w"
| "go_Join (w # v # ws) sep = w @ sep @ go_Join (v # ws) sep"

lemma go_Split1_nonempty [simp]: "go_Split1 d s \<noteq> []"
  by (induction s) (auto split: list.splits)

lemma go_Join_Cons: "ws \<noteq> [] \<Longrightarrow> go_Join (w # ws) sep = w @ sep @ go_Join ws sep"
  by (cases ws) auto

lemma go_Join_Split1: "go_Join (go_Split1 d s) [d] = s"
proof (induction s)
  case Nil
  then show ?case by simp
next
  case (Cons c s)
  obtain w ws where w: "go_Split1 d s = w # ws"
    by (cases "go_Split1 d s") auto
  with Cons show ?case
    by (cases ws) (auto simp: go_Join_Cons)
qed

lemma go_Split1_no_sep: "w \<in> set (go_Split1 d s) \<Longrightarrow> d \<notin> set w"
  by (induction s arbitrary: w) (auto split: list.splits if_splits)

section \<open>Case mapping\<close>

text \<open>
  \<open>strings.ToUpper\<close>/\<open>ToLower\<close>. The two-byte sequences C5 BF and C4 B1 are the code points
  U+017F and U+0131, the only non-ASCII ones whose upper case is ASCII (S and I);
  C4 B0 and E2 84 AA are U+0130 and U+212A, whose lower case in Go is ASCII (i and k).
\<close>

fun go_ToUpper :: "string \<Rightarrow> string" where
  "go_ToUpper [] = []"
| "go_ToUpper [c] = [upper_byte c]"
| "go_ToUpper (c # d # s) =
     (if c = CHR 0xC5 \<and> d = CHR 0xBF then CHR ''S'' # go_ToUpper s
      else if c = CHR 0xC4 \<and> d = CHR 0xB1 then CHR ''I'' # go_ToUpper s
      else upper_byte c # go_ToUpper (d # s))"

fun go_ToLower :: "string \<Rightarrow> string" where
  "go_ToLower [] = []"
| "go_ToLower [c] = [lower_byte c]"
| "go_ToLower [c, d] =
     (if c = CHR 0xC4 \<and> d = CHR 0xB0 then ''i'' else [lower_byte c, lower_byte d])"
| "go_ToLower (c # d # e # s) =
     (if c = CHR 0xC4 \<and> d = CHR 0xB0 then CHR ''i'' # go_ToLower (e # s)
      else if c = CHR 0xE2 \<and> d = CHR 0x84 \<and> e = CHR 0xAA then CHR ''k'' # go_ToLower s
      else lower_byte c # go_ToLower (d # e # s))"

text \<open>\<open>strings.EqualFold\<close>: simple folding puts U+017F with S and U+212A with K.\<close>

fun go_fold :: "string \<Rightarrow> string" where
  "go_fold [] = []"
| "go_fold [c] = [lower_byte c]"
| "go_fold [c, d] =
     (if c = CHR 0xC5 \<and> d = CHR 0xBF then ''s'' else [lower_byte c, lower_byte d])"
| "go_fold (c # d # e # s) =
     (if c = CHR 0xC5 \<and> d = CHR 0xBF then CHR ''s'' # go_fold (e # s)
      else if c = CHR 0xE2 \<and> d = CHR 0x84 \<and> e = CHR 0xAA then CHR ''k'' # go_fold s
      else lower_byte c # go_fold (d # e # s))"

definition go_EqualFold :: "string \<Rightarrow> string \<Rightarrow> bool" where
  "go_EqualFold s t \<longleftrightarrow> go_fold s = go_fold t"

definition all_ascii :: "string \<Rightarrow> bool" where
  "all_ascii s \<longleftrightarrow> list_all (\<lambda>c. byte_val c < 128) s"

lemma go_ToUpper_ascii: "all_ascii s \<Longrightarrow> go_ToUpper s = map upper_byte s"
  by (induction s rule: go_ToUpper.induct) (auto simp: all_ascii_def)

lemma go_ToLower_ascii: "all_ascii s \<Longrightarrow> go_ToLower s = map lower_byte s"
  by (induction s rule: go_ToLower.induct) (auto simp: all_ascii_def)

lemma letter_literals [simp]:
  "\<not> is_upper (CHR ''i'')" "\<not> is_upper (CHR ''k'')"
  "\<not> is_lower (CHR ''S'')" "\<not> is_lower (CHR ''I'')"
  by (simp_all add: is_upper_def is_lower_def)

lemma go_ToLower_no_upper: "c \<in> set (go_ToLower s) \<Longrightarrow> \<not> is_upper c"
  by (induction s rule: go_ToLower.induct) (auto split: if_splits)

lemma go_ToLower_Nil_iff [simp]: "go_ToLower s = [] \<longleftrightarrow> s = []"
  by (cases s rule: go_ToLower.cases) simp_all

lemma go_ToUpper_no_lower: "c \<in> set (go_ToUpper s) \<Longrightarrow> \<not> is_lower c"
  by (induction s rule: go_ToUpper.induct) (auto split: if_splits)

lemma map_lower_byte_id: "\<forall>c\<in>set s. \<not> is_upper c \<Longrightarrow> map lower_byte s = s"
  by (induction s) (auto simp: lower_byte_id)

section \<open>White space\<close>

definition ascii_space :: "char \<Rightarrow> bool" where
  "ascii_space c \<longleftrightarrow> byte_val c = 32 \<or> (9 \<le> byte_val c \<and> byte_val c \<le> 13)"

text \<open>U+0085, U+00A0 in two bytes; U+1680, U+2000 to U+200A, U+2028, U+2029, U+202F,
  U+205F and U+3000 in three.\<close>

definition space2 :: "char \<Rightarrow> char \<Rightarrow> bool" where
  "space2 c d \<longleftrightarrow> c = CHR 0xC2 \<and> (d = CHR 0x85 \<or> d = CHR 0xA0)"

definition space3 :: "char \<Rightarrow> char \<Rightarrow> char \<Rightarrow> bool" where
  "space3 c d e \<longleftrightarrow>
     (c = CHR 0xE1 \<and> d = CHR 0x9A \<and> e = CHR 0x80) \<or>
     (c = CHR 0xE2 \<and> d = CHR 0x80 \<and>
        ((0x80 \<le> byte_val e \<and> byte_val e \<le> 0x8A)
         \<or> e = CHR 0xA8 \<or> e = CHR 0xA9 \<or> e = CHR 0xAF)) \<or>
     (c = CHR 0xE2 \<and> d = CHR 0x81 \<and> e = CHR 0x9F) \<or>
     (c = CHR 0xE3 \<and> d = CHR 0x80 \<and> e = CHR 0x80)"

fun trim_run :: "(char \<Rightarrow> char \<Rightarrow> bool) \<Rightarrow> (char \<Rightarrow> char \<Rightarrow> char \<Rightarrow> bool) \<Rightarrow> string \<Rightarrow> string" where
  "trim_run p2 p3 [] = []"
| "trim_run p2 p3 [c] = (if ascii_space c then [] else [c])"
| "trim_run p2 p3 [c, d] =
     (if ascii_space c then trim_run p2 p3 [d] else if p2 c d then [] else [c, d])"
| "trim_run p2 p3 (c # d # e # s) =
     (if ascii_space c then trim_run p2 p3 (d # e # s)
      else if p2 c d then trim_run p2 p3 (e # s)
      else if p3 c d e then trim_run p2 p3 s
      else c # d # e # s)"

definition trim_left_space :: "string \<Rightarrow> string" where
  "trim_left_space s = trim_run space2 space3 s"

definition trim_right_space :: "string \<Rightarrow> string" where
  "trim_right_space s = rev (trim_run (\<lambda>d c. space2 c d) (\<lambda>e d c. space3 c d e) (rev s))"

definition go_TrimSpace :: "string \<Rightarrow> string" where
  "go_TrimSpace s = trim_right_space (trim_left_space s)"

lemma trim_run_suffix: "suffix (trim_run p2 p3 s) s"
  by (induction p2 p3 s rule: trim_run.induct) (auto intro: suffix_ConsI)

lemma length_trim_run: "length (trim_run p2 p3 s) \<le> length s"
  by (rule suffix_length_le [OF trim_run_suffix])

lemma trim_run_idem [simp]: "trim_run p2 p3 (trim_run p2 p3 s) = trim_run p2 p3 s"
  by (induction p2 p3 s rule: trim_run.induct) auto

lemma trim_run_fixed_prefix:
  assumes "trim_run p2 p3 s = s" and "prefix t s"
  shows "trim_run p2 p3 t = t"
proof (cases "(p2, p3, s)" rule: trim_run.cases)
  case (4 _ _ c d e u)
  have len: "length (trim_run p2 p3 v) \<le> length v" for v
    by (rule length_trim_run)
  have ne: "\<not> ascii_space c" "\<not> p2 c d" "\<not> p3 c d e"
    using assms(1) 4 len [of "d # e # u"] len [of "e # u"] len [of u]
    by (auto split: if_splits)
  with assms(2) 4 show ?thesis
    by (cases "(p2, p3, t)" rule: trim_run.cases) auto
qed (use assms in \<open>auto simp: prefix_Cons split: if_splits\<close>)

lemma trim_right_space_prefix: "prefix (trim_right_space s) s"
  using trim_run_suffix [of "\<lambda>d c. space2 c d" "\<lambda>e d c. space3 c d e" "rev s"]
  by (simp add: trim_right_space_def suffix_to_prefix)

lemma go_TrimSpace_idem [simp]: "go_TrimSpace (go_TrimSpace s) = go_TrimSpace s"
proof -
  have "trim_left_space (go_TrimSpace s) = go_TrimSpace s"
    unfolding go_TrimSpace_def trim_left_space_def
    by (rule trim_run_fixed_prefix [OF _ trim_right_space_prefix]) simp
  then show ?thesis by (simp add: go_TrimSpace_def trim_right_space_def)
qed

lemma set_go_TrimSpace: "set (go_TrimSpace s) \<subseteq> set s"
proof -
  have "set (go_TrimSpace s) \<subseteq> set (trim_left_space s)"
    unfolding go_TrimSpace_def by (rule set_mono_prefix [OF trim_right_space_prefix])
  also have "\<dots> \<subseteq> set s"
    unfolding trim_left_space_def by (rule set_mono_suffix [OF trim_run_suffix])
  finally show ?thesis .
qed

lemma length_go_TrimSpace: "length (go_TrimSpace s) \<le> length s"
  unfolding go_TrimSpace_def
  by (metis length_trim_run le_trans prefix_length_le trim_left_space_def trim_right_space_prefix)

text \<open>Printable ASCII without the space is never trimmed.\<close>

definition graphic :: "char \<Rightarrow> bool" where
  "graphic c \<longleftrightarrow> 33 \<le> byte_val c \<and> byte_val c \<le> 126"

lemma graphic_not_space:
  assumes "graphic c"
  shows "\<not> ascii_space c" and "\<not> space2 c d" and "\<not> space3 c d e"
    and "\<not> space2 d c" and "\<not> space3 e d c"
  using assms by (auto simp: graphic_def ascii_space_def space2_def space3_def)

lemma trim_run_graphic:
  assumes "\<And>c d. graphic c \<Longrightarrow> \<not> p2 c d" and "\<And>c d e. graphic c \<Longrightarrow> \<not> p3 c d e"
    and "\<forall>c\<in>set s. graphic c"
  shows "trim_run p2 p3 s = s"
  using assms by (cases "(p2, p3, s)" rule: trim_run.cases) (auto simp: graphic_not_space)

lemma go_TrimSpace_graphic: "\<forall>c\<in>set s. graphic c \<Longrightarrow> go_TrimSpace s = s"
  by (simp add: go_TrimSpace_def trim_left_space_def trim_right_space_def trim_run_graphic
      graphic_not_space)

lemma go_TrimSpace_graphic_ends:
  assumes "s \<noteq> []" and "graphic (hd s)" and "graphic (last s)"
  shows "go_TrimSpace s = s"
proof -
  have run: "trim_run p2 p3 t = t"
    if "\<And>c d. graphic c \<Longrightarrow> \<not> p2 c d" and "\<And>c d e. graphic c \<Longrightarrow> \<not> p3 c d e"
      and "t \<noteq> []" "graphic (hd t)" for p2 p3 t
    using that by (cases "(p2, p3, t)" rule: trim_run.cases) (auto simp: graphic_not_space)
  have "trim_left_space s = s"
    unfolding trim_left_space_def by (rule run) (use assms in \<open>auto simp: graphic_not_space\<close>)
  moreover have "trim_right_space s = s"
    unfolding trim_right_space_def
    by (subst run) (use assms in \<open>auto simp: graphic_not_space hd_rev\<close>)
  ultimately show ?thesis by (simp add: go_TrimSpace_def)
qed

lemma go_TrimSpace_Nil [simp]: "go_TrimSpace [] = []"
  by (simp add: go_TrimSpace_def trim_left_space_def trim_right_space_def)

section \<open>Decimal numbers\<close>

definition digit_char :: "nat \<Rightarrow> char" where
  "digit_char n = char_of (48 + n)"

fun itoa_nat :: "nat \<Rightarrow> string" where
  "itoa_nat n = (if n < 10 then [digit_char n] else itoa_nat (n div 10) @ [digit_char (n mod 10)])"

declare itoa_nat.simps [simp del]

text \<open>\<open>strconv.Itoa\<close> and \<open>strconv.AppendInt(_, i, 10)\<close>.\<close>

definition go_Itoa :: "int \<Rightarrow> string" where
  "go_Itoa i = (if i < 0 then CHR ''-'' # itoa_nat (nat (- i)) else itoa_nat (nat i))"

definition digits_val :: "string \<Rightarrow> nat" where
  "digits_val ds = foldl (\<lambda>a c. 10 * a + (byte_val c - 48)) 0 ds"

text \<open>\<open>strconv.Atoi\<close>: an optional sign, then at least one digit, and nothing else; a value
  outside \<open>int64\<close> is an error.\<close>

definition atoi_digits :: "bool \<Rightarrow> string \<Rightarrow> int option" where
  "atoi_digits neg ds =
     (if ds = [] \<or> \<not> list_all is_digit ds then None
      else let v = (if neg then - int (digits_val ds) else int (digits_val ds))
           in if - (2 ^ 63) \<le> v \<and> v \<le> max_int64 then Some v else None)"

definition go_Atoi :: "string \<Rightarrow> int option" where
  "go_Atoi s = (case s of
       [] \<Rightarrow> None
     | c # r \<Rightarrow> if c = CHR ''-'' then atoi_digits True r
               else if c = CHR ''+'' then atoi_digits False r
               else atoi_digits False s)"

lemma is_digit_digit_char [simp]: "n < 10 \<Longrightarrow> is_digit (digit_char n)"
  by (simp add: is_digit_def digit_char_def)

lemma byte_val_digit_char [simp]: "n < 10 \<Longrightarrow> byte_val (digit_char n) = 48 + n"
  by (simp add: digit_char_def)

lemma itoa_nat_digits: "list_all is_digit (itoa_nat n)"
  by (induction n rule: itoa_nat.induct) (subst itoa_nat.simps, auto)

lemma itoa_nat_nonempty [simp]: "itoa_nat n \<noteq> []"
  by (subst itoa_nat.simps) simp

lemma digits_val_itoa_nat [simp]: "digits_val (itoa_nat n) = n"
proof (induction n rule: itoa_nat.induct)
  case (1 n)
  show ?case
  proof (cases "n < 10")
    case True
    then show ?thesis by (subst itoa_nat.simps) (simp add: digits_val_def)
  next
    case False
    with 1 have "foldl (\<lambda>a c. 10 * a + (byte_val c - 48)) 0 (itoa_nat (n div 10)) = n div 10"
      by (simp add: digits_val_def)
    with False show ?thesis
      by (subst itoa_nat.simps) (simp add: digits_val_def)
  qed
qed

lemma is_digit_not_sign: "is_digit c \<Longrightarrow> c \<noteq> CHR ''-'' \<and> c \<noteq> CHR ''+''"
  by (auto simp: is_digit_def)

lemma go_Atoi_Itoa: "0 \<le> i \<Longrightarrow> i \<le> max_int64 \<Longrightarrow> go_Atoi (go_Itoa i) = Some i"
proof -
  assume i: "0 \<le> i" "i \<le> max_int64"
  obtain c r where cr: "itoa_nat (nat i) = c # r"
    using itoa_nat_nonempty [of "nat i"] by (cases "itoa_nat (nat i)") auto
  have "is_digit c"
    using itoa_nat_digits [of "nat i"] cr by simp
  then have "go_Atoi (go_Itoa i) = atoi_digits False (itoa_nat (nat i))"
    using i cr is_digit_not_sign by (simp add: go_Itoa_def go_Atoi_def)
  also have "\<dots> = Some i"
    using i itoa_nat_digits [of "nat i"] by (simp add: atoi_digits_def)
  finally show ?thesis .
qed

lemma go_Atoi_range: "go_Atoi s = Some i \<Longrightarrow> - (2 ^ 63) \<le> i \<and> i \<le> max_int64"
  by (auto simp: go_Atoi_def atoi_digits_def Let_def split: list.splits if_splits)

section \<open>Package encoding/base64\<close>

definition b64_std :: string where
  "b64_std = ''ABCDEFGHIJKLMNOPQRSTUVWXYZabcdefghijklmnopqrstuvwxyz0123456789+/''"

definition b64_url :: string where
  "b64_url = ''ABCDEFGHIJKLMNOPQRSTUVWXYZabcdefghijklmnopqrstuvwxyz0123456789-_''"

fun index_of :: "'a \<Rightarrow> 'a list \<Rightarrow> nat option" where
  "index_of x [] = None"
| "index_of x (y # ys) = (if x = y then Some 0 else map_option Suc (index_of x ys))"

lemma index_of_nth: "distinct xs \<Longrightarrow> i < length xs \<Longrightarrow> index_of (xs ! i) xs = Some i"
proof (induction xs arbitrary: i)
  case (Cons x xs)
  then show ?case by (cases i) auto
qed simp

lemma index_of_less: "index_of x xs = Some i \<Longrightarrow> i < length xs"
  by (induction xs arbitrary: i) (auto split: if_splits)

lemma index_of_notin: "x \<notin> set xs \<Longrightarrow> index_of x xs = None"
  by (induction xs) auto

text \<open>\<open>EncodeToString\<close>; \<open>pad\<close> is the padding character, None for a raw encoding.\<close>

fun b64_encode :: "string \<Rightarrow> char option \<Rightarrow> string \<Rightarrow> string" where
  "b64_encode al pad [] = []"
| "b64_encode al pad [a] =
     [al ! (byte_val a div 4), al ! (byte_val a mod 4 * 16)]
       @ (case pad of None \<Rightarrow> [] | Some p \<Rightarrow> [p, p])"
| "b64_encode al pad [a, b] =
     [al ! (byte_val a div 4), al ! (byte_val a mod 4 * 16 + byte_val b div 16),
      al ! (byte_val b mod 16 * 4)]
       @ (case pad of None \<Rightarrow> [] | Some p \<Rightarrow> [p])"
| "b64_encode al pad (a # b # c # s) =
     [al ! (byte_val a div 4), al ! (byte_val a mod 4 * 16 + byte_val b div 16),
      al ! (byte_val b mod 16 * 4 + byte_val c div 64), al ! (byte_val c mod 64)]
       @ b64_encode al pad s"

definition b64_byte1 :: "nat \<Rightarrow> nat \<Rightarrow> char" where
  "b64_byte1 e0 e1 = char_of (e0 * 4 + e1 div 16)"

definition b64_byte2 :: "nat \<Rightarrow> nat \<Rightarrow> char" where
  "b64_byte2 e1 e2 = char_of (e1 mod 16 * 16 + e2 div 4)"

definition b64_byte3 :: "nat \<Rightarrow> nat \<Rightarrow> char" where
  "b64_byte3 e2 e3 = char_of (e2 mod 4 * 64 + e3)"

text \<open>
  \<open>DecodeString\<close>: carriage returns and newlines are skipped; the input is read in groups of
  four characters; with padding the last group may end in one or two padding characters
  and nothing may follow; without padding it may have two or three characters. The unused
  low bits of the last character are not checked (the encoding is not \<open>Strict\<close>).
\<close>

fun b64_groups :: "string \<Rightarrow> char option \<Rightarrow> string \<Rightarrow> string option" where
  "b64_groups al pad [] = Some []"
| "b64_groups al pad [a] = None"
| "b64_groups al pad [a, b] =
     (case (pad, index_of a al, index_of b al) of
        (None, Some e0, Some e1) \<Rightarrow> Some [b64_byte1 e0 e1]
      | _ \<Rightarrow> None)"
| "b64_groups al pad [a, b, c] =
     (case (pad, index_of a al, index_of b al, index_of c al) of
        (None, Some e0, Some e1, Some e2) \<Rightarrow> Some [b64_byte1 e0 e1, b64_byte2 e1 e2]
      | _ \<Rightarrow> None)"
| "b64_groups al pad (a # b # c # d # s) =
     (case (index_of a al, index_of b al) of
        (Some e0, Some e1) \<Rightarrow>
          (case index_of c al of
             Some e2 \<Rightarrow>
               (case index_of d al of
                  Some e3 \<Rightarrow>
                    map_option (\<lambda>r. [b64_byte1 e0 e1, b64_byte2 e1 e2, b64_byte3 e2 e3] @ r)
                      (b64_groups al pad s)
                | None \<Rightarrow> if pad = Some d \<and> s = [] then Some [b64_byte1 e0 e1, b64_byte2 e1 e2]
                          else None)
           | None \<Rightarrow> if pad = Some c \<and> d = c \<and> s = [] then Some [b64_byte1 e0 e1] else None)
      | _ \<Rightarrow> None)"

definition b64_decode :: "string \<Rightarrow> char option \<Rightarrow> string \<Rightarrow> string option" where
  "b64_decode al pad s = b64_groups al pad (filter (\<lambda>c. c \<noteq> CHR 0x0D \<and> c \<noteq> CHR 0x0A) s)"

abbreviation b64_StdEncode :: "string \<Rightarrow> string" where
  "b64_StdEncode \<equiv> b64_encode b64_std (Some (CHR ''=''))"
abbreviation b64_StdDecode :: "string \<Rightarrow> string option" where
  "b64_StdDecode \<equiv> b64_decode b64_std (Some (CHR ''=''))"
abbreviation b64_RawURLEncode :: "string \<Rightarrow> string" where
  "b64_RawURLEncode \<equiv> b64_encode b64_url None"
abbreviation b64_RawURLDecode :: "string \<Rightarrow> string option" where
  "b64_RawURLDecode \<equiv> b64_decode b64_url None"

text \<open>The round trip, for any alphabet of 64 distinct characters without the padding.\<close>

lemma b64_bytes:
  fixes a b c :: char
  shows "b64_byte1 (byte_val a div 4) (byte_val a mod 4 * 16 + byte_val b div 16) = a"
    and "b64_byte1 (byte_val a div 4) (byte_val a mod 4 * 16) = a"
    and "b64_byte2 (byte_val a mod 4 * 16 + byte_val b div 16)
           (byte_val b mod 16 * 4 + byte_val c div 64) = b"
    and "b64_byte2 (byte_val a mod 4 * 16 + byte_val b div 16) (byte_val b mod 16 * 4) = b"
    and "b64_byte3 (byte_val b mod 16 * 4 + byte_val c div 64) (byte_val c mod 64) = c"
proof -
  have b: "byte_val b div 16 < 16" and c: "byte_val c div 64 < 4"
    by (simp_all add: less_mult_imp_div_less)
  have "byte_val a div 4 * 4 + (byte_val a mod 4 * 16 + byte_val b div 16) div 16 = byte_val a"
    using b by simp
  then show "b64_byte1 (byte_val a div 4) (byte_val a mod 4 * 16 + byte_val b div 16) = a"
    by (simp only: b64_byte1_def) simp
  have "byte_val a div 4 * 4 + (byte_val a mod 4 * 16) div 16 = byte_val a" by simp
  then show "b64_byte1 (byte_val a div 4) (byte_val a mod 4 * 16) = a"
    by (simp only: b64_byte1_def) simp
  have "(byte_val a mod 4 * 16 + byte_val b div 16) mod 16 * 16
          + (byte_val b mod 16 * 4 + byte_val c div 64) div 4 = byte_val b"
    using b c by simp
  then show "b64_byte2 (byte_val a mod 4 * 16 + byte_val b div 16)
           (byte_val b mod 16 * 4 + byte_val c div 64) = b"
    by (simp only: b64_byte2_def) simp
  have "(byte_val a mod 4 * 16 + byte_val b div 16) mod 16 * 16
          + (byte_val b mod 16 * 4) div 4 = byte_val b"
    using b by simp
  then show "b64_byte2 (byte_val a mod 4 * 16 + byte_val b div 16) (byte_val b mod 16 * 4) = b"
    by (simp only: b64_byte2_def) simp
  have "(byte_val b mod 16 * 4 + byte_val c div 64) mod 4 * 64 + byte_val c mod 64 = byte_val c"
    using c by simp
  then show "b64_byte3 (byte_val b mod 16 * 4 + byte_val c div 64) (byte_val c mod 64) = c"
    by (simp only: b64_byte3_def) simp
qed

lemma b64_index_bounds:
  fixes a b :: char
  shows "byte_val a div 4 < 64" and "byte_val a mod 4 * 16 < 64"
    and "byte_val a mod 4 * 16 + byte_val b div 16 < 64"
    and "byte_val a mod 16 * 4 < 64" and "byte_val a mod 16 * 4 + byte_val b div 64 < 64"
    and "byte_val a mod 64 < 64"
proof -
  have a: "byte_val a < 64 * 4" and b: "byte_val b < 16 * 16" "byte_val b < 4 * 64" by simp_all
  have m: "byte_val a mod 4 < 4" "byte_val a mod 16 < 16" by simp_all
  from b have d: "byte_val b div 16 < 16" "byte_val b div 64 < 4"
    by (simp_all only: less_mult_imp_div_less)
  from a show "byte_val a div 4 < 64" by (rule less_mult_imp_div_less)
  from m show "byte_val a mod 4 * 16 < 64" by linarith
  from m d show "byte_val a mod 4 * 16 + byte_val b div 16 < 64" by linarith
  from m show "byte_val a mod 16 * 4 < 64" by linarith
  from m d show "byte_val a mod 16 * 4 + byte_val b div 64 < 64" by linarith
  show "byte_val a mod 64 < 64" by simp
qed

lemma b64_groups_encode:
  assumes "distinct al" and "length al = 64" and "\<And>p. pad = Some p \<Longrightarrow> p \<notin> set al"
  shows "b64_groups al pad (b64_encode al pad s) = Some s"
  using assms
proof (induction al pad s rule: b64_encode.induct)
  case (4 al pad a b c s)
  then show ?case
    by (simp add: index_of_nth b64_index_bounds b64_bytes)
qed (auto simp: index_of_nth index_of_notin b64_index_bounds b64_bytes split: option.splits)

lemma b64_encode_chars:
  assumes "length al = 64"
  shows "set (b64_encode al pad s) \<subseteq> set al \<union> set_option pad"
  using assms
  by (induction al pad s rule: b64_encode.induct)
     (auto simp: b64_index_bounds split: option.splits)

lemma b64_decode_encode:
  assumes "distinct al" and "length al = 64" and "\<And>p. pad = Some p \<Longrightarrow> p \<notin> set al"
    and "set al \<union> set_option pad \<subseteq> {c. c \<noteq> CHR 0x0D \<and> c \<noteq> CHR 0x0A}"
  shows "b64_decode al pad (b64_encode al pad s) = Some s"
proof -
  have "filter (\<lambda>c. c \<noteq> CHR 0x0D \<and> c \<noteq> CHR 0x0A) (b64_encode al pad s) = b64_encode al pad s"
    using b64_encode_chars [OF assms(2), of pad s] assms(4) by (intro filter_True) blast
  then show ?thesis
    using b64_groups_encode [OF assms(1-3)] by (simp add: b64_decode_def)
qed

lemma b64_std_facts:
  "distinct b64_std" "length b64_std = 64" "CHR ''='' \<notin> set b64_std"
  "set b64_std \<union> {CHR ''=''} \<subseteq> {c. c \<noteq> CHR 0x0D \<and> c \<noteq> CHR 0x0A}"
  by (simp_all add: b64_std_def)

lemma b64_url_facts:
  "distinct b64_url" "length b64_url = 64"
  "set b64_url \<subseteq> {c. c \<noteq> CHR 0x0D \<and> c \<noteq> CHR 0x0A}"
  by (simp_all add: b64_url_def)

lemma b64_Std_roundtrip [simp]: "b64_StdDecode (b64_StdEncode s) = Some s"
  by (rule b64_decode_encode) (use b64_std_facts in auto)

lemma b64_RawURL_roundtrip [simp]: "b64_RawURLDecode (b64_RawURLEncode s) = Some s"
  by (rule b64_decode_encode) (use b64_url_facts in auto)

section \<open>Package unicode/utf8\<close>

definition utf8_cont :: "char \<Rightarrow> bool" where
  "utf8_cont c \<longleftrightarrow> 0x80 \<le> byte_val c \<and> byte_val c \<le> 0xBF"

definition utf8_second3 :: "nat \<Rightarrow> char \<Rightarrow> bool" where
  "utf8_second3 n d \<longleftrightarrow> utf8_cont d \<and> (n = 0xE0 \<longrightarrow> 0xA0 \<le> byte_val d) \<and> (n = 0xED \<longrightarrow> byte_val d \<le> 0x9F)"

definition utf8_second4 :: "nat \<Rightarrow> char \<Rightarrow> bool" where
  "utf8_second4 n d \<longleftrightarrow> utf8_cont d \<and> (n = 0xF0 \<longrightarrow> 0x90 \<le> byte_val d) \<and> (n = 0xF4 \<longrightarrow> byte_val d \<le> 0x8F)"

text \<open>\<open>utf8.ValidString\<close>: no overlong forms, no surrogates, nothing above U+10FFFF.\<close>

fun utf8_valid :: "string \<Rightarrow> bool" where
  "utf8_valid [] = True"
| "utf8_valid (c # s) =
     (let n = byte_val c in
      if n < 0x80 then utf8_valid s
      else if 0xC2 \<le> n \<and> n \<le> 0xDF then
        (case s of d # t \<Rightarrow> utf8_cont d \<and> utf8_valid t | _ \<Rightarrow> False)
      else if 0xE0 \<le> n \<and> n \<le> 0xEF then
        (case s of d # e # t \<Rightarrow> utf8_second3 n d \<and> utf8_cont e \<and> utf8_valid t | _ \<Rightarrow> False)
      else if 0xF0 \<le> n \<and> n \<le> 0xF4 then
        (case s of d # e # f # t \<Rightarrow>
           utf8_second4 n d \<and> utf8_cont e \<and> utf8_cont f \<and> utf8_valid t | _ \<Rightarrow> False)
      else False)"

lemma utf8_valid_ascii: "all_ascii s \<Longrightarrow> utf8_valid s"
  by (induction s) (auto simp: all_ascii_def)

text \<open>The length of the character that a string starts with; 0 when its bytes are not valid UTF-8.\<close>

definition rune_len :: "string \<Rightarrow> nat" where
  "rune_len v =
     (case v of [] \<Rightarrow> 0
      | c # s \<Rightarrow>
        let n = byte_val c in
        if n < 0x80 then 1
        else if 0xC2 \<le> n \<and> n \<le> 0xDF then (case s of d # _ \<Rightarrow> if utf8_cont d then 2 else 0 | _ \<Rightarrow> 0)
        else if 0xE0 \<le> n \<and> n \<le> 0xEF then
          (case s of d # e # _ \<Rightarrow> if utf8_second3 n d \<and> utf8_cont e then 3 else 0 | _ \<Rightarrow> 0)
        else if 0xF0 \<le> n \<and> n \<le> 0xF4 then
          (case s of d # e # f # _ \<Rightarrow> if utf8_second4 n d \<and> utf8_cont e \<and> utf8_cont f then 4 else 0 | _ \<Rightarrow> 0)
        else 0)"

text \<open>An invalid byte is read as the replacement character.\<close>

definition next_rune :: "string \<Rightarrow> string" where
  "next_rune v = (if rune_len v = 0 then [CHR 0xEF, CHR 0xBF, CHR 0xBD] else take (rune_len v) v)"

lemma rune_len_le: "rune_len v \<le> length v"
  by (auto simp: rune_len_def Let_def split: list.splits)

lemma rune_len_le_4: "rune_len v \<le> 4"
  by (auto simp: rune_len_def Let_def split: list.splits)

lemma rune_len_ascii: "byte_val c < 0x80 \<Longrightarrow> rune_len (c # s) = 1"
  by (simp add: rune_len_def)

lemma next_rune_ascii: "byte_val c < 0x80 \<Longrightarrow> next_rune (c # s) = [c]"
  by (simp add: next_rune_def rune_len_ascii)

lemma rune_len_cases:
  assumes "128 \<le> byte_val c"
  shows "rune_len (c # s) = 0 \<or> (\<exists>d t. s = d # t \<and> rune_len (c # s) = 2 \<and> utf8_cont d) \<or>
    (\<exists>d e t. s = d # e # t \<and> rune_len (c # s) = 3 \<and> utf8_cont d \<and> utf8_cont e) \<or>
    (\<exists>d e f t. s = d # e # f # t \<and> rune_len (c # s) = 4 \<and> utf8_cont d \<and> utf8_cont e \<and> utf8_cont f)"
proof -
  define n where "n = byte_val c"
  have n: "\<not> n < 0x80" using assms by (simp add: n_def)
  have e: "rune_len (c # s) =
     (if 0xC2 \<le> n \<and> n \<le> 0xDF then (case s of d # _ \<Rightarrow> if utf8_cont d then 2 else 0 | _ \<Rightarrow> 0)
      else if 0xE0 \<le> n \<and> n \<le> 0xEF then
        (case s of d # e # _ \<Rightarrow> if utf8_second3 n d \<and> utf8_cont e then 3 else 0 | _ \<Rightarrow> 0)
      else if 0xF0 \<le> n \<and> n \<le> 0xF4 then
        (case s of d # e # f # _ \<Rightarrow> if utf8_second4 n d \<and> utf8_cont e \<and> utf8_cont f then 4 else 0 | _ \<Rightarrow> 0)
      else 0)"
    using n unfolding rune_len_def n_def Let_def by simp
  show ?thesis
    unfolding e by (auto simp: utf8_second3_def utf8_second4_def split: list.splits simp del: One_nat_def)
qed

lemma next_rune_high:
  assumes "128 \<le> byte_val c" and "x \<in> set (next_rune (c # s))"
  shows "128 \<le> byte_val x"
proof (cases "rune_len (c # s) = 0")
  case True
  then show ?thesis using assms(2) by (auto simp: next_rune_def)
next
  case False
  then have "x = c \<or> utf8_cont x"
    using assms rune_len_cases [OF assms(1), of s] by (auto simp: next_rune_def numeral_eq_Suc)
  then show ?thesis using assms(1) by (auto simp: utf8_cont_def)
qed

text \<open>A valid string is a sequence of valid characters.\<close>

lemma utf8_valid_rune:
  assumes "utf8_valid v" and "v \<noteq> []"
  shows "0 < rune_len v \<and> utf8_valid (drop (rune_len v) v) \<and> next_rune v = take (rune_len v) v"
proof -
  obtain c s where v: "v = c # s" using assms(2) by (cases v) auto
  define n where "n = byte_val c"
  have "0 < rune_len v \<and> utf8_valid (drop (rune_len v) v)"
  proof (cases "n < 0x80")
    case True
    then show ?thesis using assms(1) v by (simp add: n_def rune_len_ascii)
  next
    case False
    have val: "if 0xC2 \<le> n \<and> n \<le> 0xDF then (case s of d # t \<Rightarrow> utf8_cont d \<and> utf8_valid t | _ \<Rightarrow> False)
      else if 0xE0 \<le> n \<and> n \<le> 0xEF then
        (case s of d # e # t \<Rightarrow> utf8_second3 n d \<and> utf8_cont e \<and> utf8_valid t | _ \<Rightarrow> False)
      else if 0xF0 \<le> n \<and> n \<le> 0xF4 then
        (case s of d # e # f # t \<Rightarrow> utf8_second4 n d \<and> utf8_cont e \<and> utf8_cont f \<and> utf8_valid t | _ \<Rightarrow> False)
      else False"
      using assms(1) False unfolding v utf8_valid.simps(2) Let_def n_def by presburger
    have len: "rune_len v =
     (if 0xC2 \<le> n \<and> n \<le> 0xDF then (case s of d # _ \<Rightarrow> if utf8_cont d then 2 else 0 | _ \<Rightarrow> 0)
      else if 0xE0 \<le> n \<and> n \<le> 0xEF then
        (case s of d # e # _ \<Rightarrow> if utf8_second3 n d \<and> utf8_cont e then 3 else 0 | _ \<Rightarrow> 0)
      else if 0xF0 \<le> n \<and> n \<le> 0xF4 then
        (case s of d # e # f # _ \<Rightarrow> if utf8_second4 n d \<and> utf8_cont e \<and> utf8_cont f then 4 else 0 | _ \<Rightarrow> 0)
      else 0)"
      using False unfolding v rune_len_def n_def Let_def by simp
    consider (two) "0xC2 \<le> n \<and> n \<le> 0xDF" | (three) "0xE0 \<le> n \<and> n \<le> 0xEF" | (four) "0xF0 \<le> n \<and> n \<le> 0xF4"
      using val by argo
    then show ?thesis
    proof cases
      case two
      then show ?thesis using val len by (auto simp: v numeral_eq_Suc split: list.splits)
    next
      case three
      then show ?thesis using val len by (auto simp: v numeral_eq_Suc split: list.splits)
    next
      case four
      then show ?thesis using val len by (auto simp: v numeral_eq_Suc split: list.splits)
    qed
  qed
  then show ?thesis by (simp add: next_rune_def)
qed

text \<open>\<open>strings.Fields\<close>: the words between runs of white space. No character has a byte of a white-space
  character after its first, so that the bytes can be scanned one by one.\<close>

fun field_word :: "string \<Rightarrow> string" where
  "field_word [] = []"
| "field_word (c # s) = (if trim_left_space (c # s) = c # s then c # field_word s else [])"

lemma field_word_prefix: "prefix (field_word s) s"
  by (induction s rule: field_word.induct) auto

lemma field_word_progress: "s \<noteq> [] \<Longrightarrow> trim_left_space s = s \<Longrightarrow> field_word s \<noteq> []"
  by (cases s) auto

function go_Fields :: "string \<Rightarrow> string list" where
  "go_Fields s =
     (let t = trim_left_space s in
      if t = [] then [] else field_word t # go_Fields (drop (length (field_word t)) t))"
  by pat_completeness auto
termination
proof (relation "measure length", simp)
  fix s t :: string
  assume t: "t = trim_left_space s" "t \<noteq> []"
  have "field_word t \<noteq> []" using field_word_progress [of t] t by (simp add: trim_left_space_def)
  then have "length (drop (length (field_word t)) t) < length t" using t(2) by auto
  also have "length t \<le> length s" by (simp add: t(1) trim_left_space_def length_trim_run)
  finally show "(drop (length (field_word t)) t, s) \<in> measure length" by simp
qed

declare go_Fields.simps [simp del]

section \<open>Package net\<close>

text \<open>\<open>net.SplitHostPort\<close>; \<open>last_index\<close> is \<open>strings.LastIndexByte\<close>.\<close>

definition last_index :: "char \<Rightarrow> string \<Rightarrow> nat option" where
  "last_index c s = map_option (\<lambda>i. length s - 1 - i) (index_of c (rev s))"

definition net_SplitHostPort :: "string \<Rightarrow> (string \<times> string) option" where
  "net_SplitHostPort hp =
     (case last_index (CHR '':'') hp of
        None \<Rightarrow> None
      | Some i \<Rightarrow>
          let rest = (\<lambda>host j k.
                if CHR ''['' \<in> set (drop j hp) \<or> CHR '']'' \<in> set (drop k hp) then None
                else Some (host, drop (i + 1) hp))
          in if hd hp = CHR ''['' then
               (case index_of (CHR '']'') hp of
                  None \<Rightarrow> None
                | Some e \<Rightarrow> if e + 1 = i then rest (take (e - 1) (drop 1 hp)) 1 (e + 1) else None)
             else if CHR '':'' \<in> set (take i hp) then None
             else rest (take i hp) 0 0)"

end
