(* ===== verification/Pop3Wire.thy ===== *)
theory Pop3Wire
  imports GoBase
begin

text \<open>
  The wire level of the POP3 server (\<open>internal/pop3d/pop3d.go\<close>): reading a command line
  from a buffered connection, splitting it into words, the decoding of SASL PLAIN, and
  the dot-stuffed multi-line response. \<open>read_slice\<close> is \<open>bufio.Reader.ReadSlice('\n')\<close> over
  a buffer and the chunks that the connection's reads will return.
\<close>

section \<open>Buffered reading\<close>

abbreviation LF :: char where "LF \<equiv> CHR 0x0A"
abbreviation CR :: char where "CR \<equiv> CHR 0x0D"

datatype slice_end = SliceLine | SliceFull | SliceErr

definition bufio_size :: nat where
  "bufio_size = 4096"

text \<open>The bytes up to the first newline, with it; the rest.\<close>

definition upto_lf :: "string \<Rightarrow> string" where
  "upto_lf s = takeWhile (\<lambda>c. c \<noteq> LF) s @ [LF]"

definition after_lf :: "string \<Rightarrow> string" where
  "after_lf s = tl (dropWhile (\<lambda>c. c \<noteq> LF) s)"

function read_slice :: "string \<Rightarrow> string list \<Rightarrow> string \<times> slice_end \<times> string \<times> string list" where
  "read_slice buf net =
     (if LF \<in> set buf then (upto_lf buf, SliceLine, after_lf buf, net)
      else if bufio_size \<le> length buf then (buf, SliceFull, [], net)
      else (case net of
              [] \<Rightarrow> (buf, SliceErr, [], [])
            | chunk # net' \<Rightarrow>
                let room = bufio_size - length buf in
                read_slice (buf @ take room chunk)
                  (if drop room chunk = [] then net' else drop room chunk # net')))"
  by pat_completeness auto
termination
  by (relation "measure (\<lambda>(buf, net). sum_list (map (\<lambda>c. Suc (length c)) net))") auto

declare read_slice.simps [simp del]

definition maxPOP3LineOctets :: nat where
  "maxPOP3LineOctets = 512"

datatype line_result = LineOk string | LineTooLong | LineReadErr

lemma read_slice_full_length:
  "read_slice buf net = (frag, SliceFull, buf', net') \<Longrightarrow> bufio_size \<le> length frag"
proof (induction buf net rule: read_slice.induct)
  case (1 buf net)
  from "1.prems" show ?case
    by (subst (asm) read_slice.simps)
       (auto simp: Let_def split: if_splits list.splits intro: "1.IH")
qed

text \<open>
  \<open>readPOP3Line\<close>. The loop of the code goes round again only on a full buffer, whose
  4096 bytes are already too long.
\<close>

function readPOP3Line_loop :: "string \<Rightarrow> string \<Rightarrow> string list \<Rightarrow> line_result \<times> string \<times> string list" where
  "readPOP3Line_loop line buf net =
     (case read_slice buf net of (fragment, e, buf', net') \<Rightarrow>
        if maxPOP3LineOctets < length line + length fragment then (LineTooLong, buf', net')
        else (case e of
                SliceLine \<Rightarrow> (LineOk (go_TrimRight (line @ fragment) [CR, LF]), buf', net')
              | SliceFull \<Rightarrow> readPOP3Line_loop (line @ fragment) buf' net'
              | SliceErr \<Rightarrow> (LineReadErr, buf', net')))"
  by pat_completeness auto
termination
  by (relation "measure (\<lambda>_. 0)")
     (auto simp: bufio_size_def maxPOP3LineOctets_def dest!: read_slice_full_length [OF sym])

declare readPOP3Line_loop.simps [simp del]

definition readPOP3Line :: "string \<Rightarrow> string list \<Rightarrow> line_result \<times> string \<times> string list" where
  "readPOP3Line buf net = readPOP3Line_loop [] buf net"

section \<open>Command lines\<close>

definition isPOP3Space :: "char \<Rightarrow> bool" where
  "isPOP3Space b \<longleftrightarrow> b = CHR '' '' \<or> b = CHR 0x09 \<or> b = CHR 0x0B \<or> b = CHR 0x0C"

definition pop3UpperASCII :: "string \<Rightarrow> string" where
  "pop3UpperASCII s = (if list_ex is_lower s then go_ToUpper s else s)"

text \<open>The argument loop: the first two words are kept, all of them are counted.\<close>

function pop3_arg_loop :: "string \<Rightarrow> string \<Rightarrow> string \<Rightarrow> nat \<Rightarrow> string \<times> string \<times> nat" where
  "pop3_arg_loop rest arg1 arg2 argc =
     (let s = dropWhile isPOP3Space rest in
      if s = [] then (arg1, arg2, argc)
      else let w = takeWhile (\<lambda>c. \<not> isPOP3Space c) s in
           pop3_arg_loop (dropWhile (\<lambda>c. \<not> isPOP3Space c) s)
             (if argc = 0 then w else arg1) (if argc = 1 then w else arg2) (Suc argc))"
  by pat_completeness simp_all
termination
  by (relation "measure (\<lambda>(rest, _). length rest)") (simp_all add: skip_word_shrinks)

declare pop3_arg_loop.simps [simp del]

definition parsePOP3Command :: "string \<Rightarrow> string \<times> string \<times> string \<times> nat" where
  "parsePOP3Command line =
     (let s = rev (dropWhile isPOP3Space (rev (dropWhile isPOP3Space line))) in
      if s = [] then ([], [], [], 0)
      else let cmd = pop3UpperASCII (takeWhile (\<lambda>c. \<not> isPOP3Space c) s);
               args = pop3_arg_loop (dropWhile (\<lambda>c. \<not> isPOP3Space c) s) [] [] 0
           in (cmd, args))"

section \<open>SASL PLAIN\<close>

text \<open>\<open>authzid NUL user NUL password\<close>; the authorisation identity is ignored.\<close>

definition pop3AuthPlainCredentials :: "string \<Rightarrow> (string \<times> string) option" where
  "pop3AuthPlainCredentials decoded =
     (case go_Cut [CHR 0x00] decoded of
        None \<Rightarrow> None
      | Some (_, rest) \<Rightarrow> go_Cut [CHR 0x00] rest)"

section \<open>Multi-line responses\<close>

fun pop3NextLine :: "string \<Rightarrow> string \<times> string" where
  "pop3NextLine [] = ([], [])"
| "pop3NextLine (c # cs) =
     (if c = CR then (if take 1 cs = [LF] then ([], drop 1 cs) else ([], cs))
      else if c = LF then ([], cs)
      else (case pop3NextLine cs of (l, r) \<Rightarrow> (c # l, r)))"

definition writeNormalizedPOP3Line :: "string \<Rightarrow> string" where
  "writeNormalizedPOP3Line line = (if prefix ''.'' line then ''.'' else []) @ line @ [CR, LF]"

lemma pop3NextLine_rest_le: "length (snd (pop3NextLine s)) \<le> length s"
  by (induction s rule: pop3NextLine.induct) (auto split: prod.splits)

lemma pop3NextLine_rest_less: "s \<noteq> [] \<Longrightarrow> length (snd (pop3NextLine s)) < length s"
proof (cases s)
  case (Cons c cs)
  then show ?thesis
    using pop3NextLine_rest_le [of cs] by (auto split: prod.splits)
qed simp

lemma pop3NextLine_rest_length: "pop3NextLine s = (l, r) \<Longrightarrow> s \<noteq> [] \<Longrightarrow> length r < length s"
  using pop3NextLine_rest_less [of s] by simp

function writePOP3Multiline_loop :: "bool \<Rightarrow> int \<Rightarrow> bool \<Rightarrow> int \<Rightarrow> string \<Rightarrow> string" where
  "writePOP3Multiline_loop topMode topLimit sawSeparator bodyLines content =
     (if content = [] then
        (if topMode \<and> \<not> sawSeparator then writeNormalizedPOP3Line [] else [])
      else (case pop3NextLine content of (line, rest) \<Rightarrow>
        if topMode \<and> \<not> sawSeparator then
          writeNormalizedPOP3Line line
            @ writePOP3Multiline_loop topMode topLimit (line = []) bodyLines rest
        else if topMode \<and> 0 \<le> topLimit \<and> sawSeparator then
          (if topLimit \<le> bodyLines then
             writePOP3Multiline_loop topMode topLimit sawSeparator bodyLines rest
           else writeNormalizedPOP3Line line
             @ writePOP3Multiline_loop topMode topLimit sawSeparator (bodyLines + 1) rest)
        else writeNormalizedPOP3Line line
          @ writePOP3Multiline_loop topMode topLimit sawSeparator bodyLines rest))"
  by pat_completeness auto
termination
  by (relation "measure (\<lambda>(_, _, _, _, content). length content)")
     (auto dest!: pop3NextLine_rest_length [OF sym])

declare writePOP3Multiline_loop.simps [simp del]

definition writePOP3Multiline :: "string \<Rightarrow> bool \<Rightarrow> int \<Rightarrow> string" where
  "writePOP3Multiline content topMode topLimit =
     writePOP3Multiline_loop topMode topLimit False 0 content"

definition writeDotStuffedMultiline :: "string \<Rightarrow> string" where
  "writeDotStuffedMultiline content = writePOP3Multiline content False 0"

definition writeTopDotStuffedMultiline :: "string \<Rightarrow> int \<Rightarrow> string" where
  "writeTopDotStuffedMultiline content n = writePOP3Multiline content True n"

section \<open>The line reader does not depend on how the bytes arrive\<close>

lemma upto_after_lf: "LF \<in> set s \<Longrightarrow> upto_lf s @ after_lf s = s"
  by (induction s) (auto simp: upto_lf_def after_lf_def)

lemma upto_lf_append: "LF \<in> set s \<Longrightarrow> upto_lf (s @ t) = upto_lf s"
  by (simp add: upto_lf_def)

lemma after_lf_append: "LF \<in> set s \<Longrightarrow> after_lf (s @ t) = after_lf s @ t"
  by (induction s) (auto simp: after_lf_def)

lemma read_slice_cases:
  assumes "read_slice buf net = (frag, e, buf', net')"
  shows "case e of
      SliceLine \<Rightarrow> LF \<in> set (buf @ concat net) \<and> frag = upto_lf (buf @ concat net)
        \<and> buf' @ concat net' = after_lf (buf @ concat net)
    | SliceFull \<Rightarrow> LF \<notin> set frag \<and> bufio_size \<le> length frag \<and> prefix frag (buf @ concat net)
    | SliceErr \<Rightarrow> frag = buf @ concat net \<and> LF \<notin> set frag"
  using assms
proof (induction buf net rule: read_slice.induct)
  case (1 buf net)
  consider (line) "LF \<in> set buf" | (full) "LF \<notin> set buf" "bufio_size \<le> length buf"
    | (eof) "LF \<notin> set buf" "\<not> bufio_size \<le> length buf" "net = []"
    | (more) chunk rest where "LF \<notin> set buf" "\<not> bufio_size \<le> length buf" "net = chunk # rest"
    by (cases net) auto
  then show ?case
  proof cases
    case line
    with "1.prems" show ?thesis
      by (subst (asm) read_slice.simps) (auto simp: upto_lf_append after_lf_append)
  next
    case full
    with "1.prems" show ?thesis by (subst (asm) read_slice.simps) auto
  next
    case eof
    with "1.prems" show ?thesis by (subst (asm) read_slice.simps) auto
  next
    case more
    define room where "room = bufio_size - length buf"
    define net1 where "net1 = (if drop room chunk = [] then rest else drop room chunk # rest)"
    have same: "(buf @ take room chunk) @ concat net1 = buf @ concat net"
      using more by (auto simp: net1_def)
    have "read_slice (buf @ take room chunk) net1 = (frag, e, buf', net')"
      using "1.prems" more by (subst (asm) read_slice.simps) (simp add: Let_def room_def net1_def split: if_splits)
    from "1.IH" [OF more refl, folded room_def, folded net1_def, OF this] show ?thesis
      by (simp only: same)
  qed
qed

text \<open>What reading a line means for a byte stream, however it is split into reads.\<close>

definition line_of_stream :: "string \<Rightarrow> line_result" where
  "line_of_stream s =
     (if LF \<in> set s then
        (if length (upto_lf s) \<le> maxPOP3LineOctets then LineOk (go_TrimRight (upto_lf s) [CR, LF])
         else LineTooLong)
      else if length s \<le> maxPOP3LineOctets then LineReadErr else LineTooLong)"

lemma readPOP3Line_stream:
  assumes "readPOP3Line buf net = (r, buf', net')"
  shows "r = line_of_stream (buf @ concat net)"
    and "r = LineOk l \<Longrightarrow> buf' @ concat net' = after_lf (buf @ concat net)"
proof -
  obtain frag e b n where rs: "read_slice buf net = (frag, e, b, n)"
    by (cases "read_slice buf net") auto
  note c = read_slice_cases [OF rs]
  have loop: "readPOP3Line buf net =
      (if maxPOP3LineOctets < length frag then (LineTooLong, b, n)
       else (case e of SliceLine \<Rightarrow> (LineOk (go_TrimRight frag [CR, LF]), b, n)
             | SliceFull \<Rightarrow> readPOP3Line_loop frag b n | SliceErr \<Rightarrow> (LineReadErr, b, n)))"
    unfolding readPOP3Line_def by (subst readPOP3Line_loop.simps) (simp add: rs split: slice_end.split)
  have full: "LineTooLong = line_of_stream (buf @ concat net)" if "e = SliceFull"
  proof -
    from c that have f: "LF \<notin> set frag" "4096 \<le> length frag" "prefix frag (buf @ concat net)"
      by (auto simp: bufio_size_def)
    define s where "s = buf @ concat net"
    from f obtain t where t: "s = frag @ t" by (auto simp: s_def elim: prefixE)
    have "takeWhile (\<lambda>c. c \<noteq> LF) s = frag @ takeWhile (\<lambda>c. c \<noteq> LF) t"
      unfolding t by (rule takeWhile_append2) (use f(1) in auto)
    with t f(2) have "4096 \<le> length s" and "4096 < length (upto_lf s)"
      by (simp_all add: upto_lf_def)
    then have "LineTooLong = line_of_stream s"
      by (simp add: line_of_stream_def maxPOP3LineOctets_def)
    then show ?thesis by (simp add: s_def)
  qed
  show "r = line_of_stream (buf @ concat net)"
  proof (cases e)
    case SliceFull
    with c have "maxPOP3LineOctets < length frag"
      by (simp add: bufio_size_def maxPOP3LineOctets_def)
    with loop assms full [OF SliceFull] show ?thesis by simp
  qed (use loop assms c in \<open>auto simp: line_of_stream_def split: if_splits\<close>)
  show "buf' @ concat net' = after_lf (buf @ concat net)" if "r = LineOk l"
  proof (cases e)
    case SliceFull
    with c have "maxPOP3LineOctets < length frag"
      by (simp add: bufio_size_def maxPOP3LineOctets_def)
    with loop assms that show ?thesis by simp
  qed (use loop assms c that in \<open>auto split: if_splits\<close>)
qed

lemma read_slice_conserve:
  "read_slice buf net = (frag, e, buf', net') \<Longrightarrow> frag @ buf' @ concat net' = buf @ concat net"
proof (induction buf net rule: read_slice.induct)
  case (1 buf net)
  show ?case
  proof (cases "LF \<in> set buf \<or> bufio_size \<le> length buf \<or> net = []")
    case True
    have "upto_lf buf @ after_lf buf @ t = buf @ t" if "LF \<in> set buf" for t
      by (metis append.assoc that upto_after_lf)
    with True "1.prems" show ?thesis
      by (subst (asm) read_slice.simps) (auto split: if_splits)
  next
    case False
    then obtain chunk rest where more: "LF \<notin> set buf" "\<not> bufio_size \<le> length buf" "net = chunk # rest"
      by (cases net) auto
    define room where "room = bufio_size - length buf"
    define net1 where "net1 = (if drop room chunk = [] then rest else drop room chunk # rest)"
    have "(buf @ take room chunk) @ concat net1 = buf @ concat net"
      using more by (auto simp: net1_def)
    moreover have "read_slice (buf @ take room chunk) net1 = (frag, e, buf', net')"
      using "1.prems" more
      by (subst (asm) read_slice.simps) (simp add: Let_def room_def net1_def split: if_splits)
    ultimately show ?thesis
      using "1.IH" [OF more refl, folded room_def, folded net1_def] by simp
  qed
qed

lemma readPOP3Line_length:
  assumes "readPOP3Line buf net = (r, buf', net')"
  shows "length (buf' @ concat net') \<le> length (buf @ concat net)"
proof -
  obtain frag e b n where rs: "read_slice buf net = (frag, e, b, n)"
    by (cases "read_slice buf net") auto
  note len = read_slice_conserve [OF rs, THEN arg_cong, of length]
  have full: "maxPOP3LineOctets < length frag" if "e = SliceFull"
    using read_slice_cases [OF rs] that by (simp add: bufio_size_def maxPOP3LineOctets_def)
  from assms have "buf' = b \<and> net' = n"
    unfolding readPOP3Line_def
    by (subst (asm) readPOP3Line_loop.simps)
       (use full in \<open>auto simp: rs split: if_splits slice_end.splits\<close>)
  with len show ?thesis by simp
qed

section \<open>Dot stuffing: what a client reads back\<close>

text \<open>The lines of a message, whatever mixture of CR LF, CR and LF ends them.\<close>

function pop3_lines :: "string \<Rightarrow> string list" where
  "pop3_lines content =
     (if content = [] then []
      else (case pop3NextLine content of (line, rest) \<Rightarrow> line # pop3_lines rest))"
  by pat_completeness auto
termination
  by (relation "measure length") (auto dest!: pop3NextLine_rest_length [OF sym])

declare pop3_lines.simps [simp del]

lemma pop3_lines_Nil [simp]: "pop3_lines [] = []"
  by (subst pop3_lines.simps) simp

lemma pop3_lines_step:
  "content \<noteq> [] \<Longrightarrow> pop3_lines content = fst (pop3NextLine content) # pop3_lines (snd (pop3NextLine content))"
  by (subst pop3_lines.simps) (simp split: prod.splits)

lemma pop3NextLine_line_chars: "CR \<notin> set (fst (pop3NextLine s)) \<and> LF \<notin> set (fst (pop3NextLine s))"
  by (induction s rule: pop3NextLine.induct) (auto split: prod.splits)

lemma pop3_lines_chars: "l \<in> set (pop3_lines content) \<Longrightarrow> CR \<notin> set l \<and> LF \<notin> set l"
proof (induction content rule: pop3_lines.induct)
  case (1 content)
  show ?case
  proof (cases "content = []")
    case False
    obtain a b where ab: "pop3NextLine content = (a, b)" by fastforce
    with "1.prems" False have "l = a \<or> l \<in> set (pop3_lines b)"
      by (simp add: pop3_lines_step)
    then show ?thesis
      using "1.IH" [OF False ab [symmetric]] pop3NextLine_line_chars [of content] ab by auto
  qed (use "1.prems" in simp)
qed

abbreviation norm_lines :: "string list \<Rightarrow> string" where
  "norm_lines ls \<equiv> concat (map writeNormalizedPOP3Line ls)"

lemma writePOP3Multiline_loop_body:
  "writePOP3Multiline_loop False topLimit sawSeparator k content = norm_lines (pop3_lines content)"
proof (induction content rule: pop3_lines.induct)
  case (1 content)
  show ?case
  proof (cases "content = []")
    case False
    obtain a b where ab: "pop3NextLine content = (a, b)" by fastforce
    have "writePOP3Multiline_loop False topLimit sawSeparator k b = norm_lines (pop3_lines b)"
      using "1.IH" [OF False ab [symmetric]] .
    moreover have "pop3_lines content = a # pop3_lines b"
      using pop3_lines_step [OF False] ab by simp
    ultimately show ?thesis
      using False ab
      by (simp add: writePOP3Multiline_loop.simps [of _ _ _ _ content])
  qed (simp add: writePOP3Multiline_loop.simps [of _ _ _ _ "[]"])
qed

lemma writeDotStuffedMultiline_lines:
  "writeDotStuffedMultiline content = norm_lines (pop3_lines content)"
  by (simp add: writeDotStuffedMultiline_def writePOP3Multiline_def writePOP3Multiline_loop_body)

text \<open>After the separator, TOP sends at most the requested number of lines.\<close>

lemma writePOP3Multiline_loop_after_sep:
  "0 \<le> topLimit \<Longrightarrow> writePOP3Multiline_loop True topLimit True k content
     = norm_lines (take (nat (topLimit - k)) (pop3_lines content))"
proof (induction content arbitrary: k rule: pop3_lines.induct)
  case (1 content)
  show ?case
  proof (cases "content = []")
    case False
    obtain a b where ab: "pop3NextLine content = (a, b)" by fastforce
    have IH: "writePOP3Multiline_loop True topLimit True j b
        = norm_lines (take (nat (topLimit - j)) (pop3_lines b))" for j
      using "1.IH" [OF False ab [symmetric] "1.prems"] .
    show ?thesis
    proof (cases "topLimit \<le> k")
      case True
      with False ab "1.prems" IH [of k] show ?thesis
        by (subst writePOP3Multiline_loop.simps) simp
    next
      case less: False
      then have "nat (topLimit - k) = Suc (nat (topLimit - (k + 1)))" by simp
      with less False ab "1.prems" IH [of "k + 1"] show ?thesis
        by (subst writePOP3Multiline_loop.simps) (simp add: pop3_lines_step)
    qed
  qed (use "1.prems" in \<open>simp add: writePOP3Multiline_loop.simps [of _ _ _ _ "[]"]\<close>)
qed

definition top_lines :: "nat \<Rightarrow> string list \<Rightarrow> string list" where
  "top_lines n ls =
     takeWhile (\<lambda>l. l \<noteq> []) ls @ [[]] @ take n (tl (dropWhile (\<lambda>l. l \<noteq> []) ls))"

lemma set_top_lines: "set (top_lines n ls) \<subseteq> insert [] (set ls)"
proof -
  have "set (take n (tl (dropWhile (\<lambda>l. l \<noteq> []) ls))) \<subseteq> set (tl (dropWhile (\<lambda>l. l \<noteq> []) ls))"
    by (rule set_take_subset)
  also have "\<dots> \<subseteq> set (dropWhile (\<lambda>l. l \<noteq> []) ls)"
    by (rule set_mono_suffix [OF suffix_tl])
  also have "\<dots> \<subseteq> set ls"
    by (rule set_mono_suffix [OF suffix_dropWhile])
  finally show ?thesis by (auto simp: top_lines_def dest: set_takeWhileD)
qed

lemma writePOP3Multiline_loop_header:
  "0 \<le> n \<Longrightarrow> writePOP3Multiline_loop True n False 0 content
     = norm_lines (top_lines (nat n) (pop3_lines content))"
proof (induction content rule: pop3_lines.induct)
  case (1 content)
  show ?case
  proof (cases "content = []")
    case True
    then show ?thesis by (subst writePOP3Multiline_loop.simps) (simp add: top_lines_def)
  next
    case False
    obtain a b where ab: "pop3NextLine content = (a, b)" by fastforce
    have IH: "writePOP3Multiline_loop True n False 0 b
        = norm_lines (top_lines (nat n) (pop3_lines b))"
      using "1.IH" [OF False ab [symmetric] "1.prems"] .
    show ?thesis
    proof (cases "a = []")
      case True
      with False ab writePOP3Multiline_loop_after_sep [OF "1.prems", of 0 b] show ?thesis
        by (subst writePOP3Multiline_loop.simps) (simp add: pop3_lines_step top_lines_def)
    next
      case ne: False
      with False ab IH show ?thesis
        by (subst writePOP3Multiline_loop.simps) (simp add: pop3_lines_step top_lines_def)
    qed
  qed
qed

text \<open>
  An RFC 1939 client reading a multi-line response: lines end in CR LF, a lone dot ends the
  response, a leading dot of any other line is removed. None: the response is cut short.
\<close>

lemma go_Cut_length: "sep \<noteq> [] \<Longrightarrow> go_Cut sep s = Some (a, b) \<Longrightarrow> length b < length s"
  by (drule go_Cut_append) auto

function pop3_client :: "string \<Rightarrow> (string list \<times> string) option" where
  "pop3_client s =
     (case go_Cut [CR, LF] s of
        None \<Rightarrow> None
      | Some (l, r) \<Rightarrow>
          if l = ''.'' then Some ([], r)
          else map_option (\<lambda>(ls, r'). ((if prefix ''.'' l then tl l else l) # ls, r'))
                 (pop3_client r))"
  by pat_completeness auto
termination
  by (relation "measure length") (auto dest: go_Cut_length [rotated])

declare pop3_client.simps [simp del]

lemma go_Cut_crlf: "CR \<notin> set l \<Longrightarrow> go_Cut [CR, LF] (l @ CR # LF # r) = Some (l, r)"
  by (induction l) auto

lemma pop3_client_line:
  assumes "CR \<notin> set l"
  shows "pop3_client (writeNormalizedPOP3Line l @ s) =
    map_option (\<lambda>(ls, r). (l # ls, r)) (pop3_client s)"
proof (cases "prefix ''.'' l")
  case True
  then obtain t where t: "l = CHR ''.'' # t" by (auto elim: prefixE)
  with assms have "go_Cut [CR, LF] (writeNormalizedPOP3Line l @ s) = Some (CHR ''.'' # l, s)"
    using go_Cut_crlf [of "CHR ''.'' # l" s] True by (simp add: writeNormalizedPOP3Line_def)
  with t show ?thesis by (subst pop3_client.simps) simp
next
  case False
  with assms have "go_Cut [CR, LF] (writeNormalizedPOP3Line l @ s) = Some (l, s)"
    using go_Cut_crlf [of l s] by (simp add: writeNormalizedPOP3Line_def)
  with False show ?thesis by (subst pop3_client.simps) auto
qed

lemma pop3_client_end: "pop3_client (''.'' @ [CR, LF] @ rest) = Some ([], rest)"
  using go_Cut_crlf [of "''.''" rest] by (subst pop3_client.simps) simp

lemma pop3_client_lines:
  "\<forall>l\<in>set ls. CR \<notin> set l \<Longrightarrow>
   pop3_client (norm_lines ls @ ''.'' @ [CR, LF] @ rest) = Some (ls, rest)"
proof (induction ls)
  case Nil
  then show ?case using pop3_client_end by simp
next
  case (Cons l ls)
  then show ?case using pop3_client_line [of l] by simp
qed

section \<open>Properties\<close>

text \<open>C24. A message sent by RETR and closed by the terminating dot is read back by a client as
  exactly the lines of the message, and the client stops exactly at the end of the response:
  no line of a message, whatever its bytes, can end the response early or leak into the next
  one.\<close>

theorem retr_dot_stuffing_roundtrip:
  "pop3_client (writeDotStuffedMultiline content @ ''.'' @ [CR, LF] @ rest)
     = Some (pop3_lines content, rest)"
  unfolding writeDotStuffedMultiline_lines
  by (rule pop3_client_lines) (use pop3_lines_chars in blast)

text \<open>TOP with a limit of n lines is read back as the header lines, the empty separator
  line (supplied when the message has none) and at most n lines after it.\<close>

theorem top_dot_stuffing_roundtrip:
  "pop3_client (writeTopDotStuffedMultiline content (int n) @ ''.'' @ [CR, LF] @ rest)
     = Some (top_lines n (pop3_lines content), rest)"
proof -
  have "writeTopDotStuffedMultiline content (int n) = norm_lines (top_lines n (pop3_lines content))"
    by (simp add: writeTopDotStuffedMultiline_def writePOP3Multiline_def
        writePOP3Multiline_loop_header)
  moreover have "\<forall>l\<in>set (top_lines n (pop3_lines content)). CR \<notin> set l"
    using pop3_lines_chars
set_top_lines [of n "pop3_lines content"] by fastforce
  ultimately show ?thesis by (simp only: pop3_client_lines)
qed

text \<open>Whatever pieces the network delivers the bytes in, the result of reading a command
  line is a function of the byte stream alone: the first line if it has at most 512 octets,
  else "line too long", and a read error when the stream ends before a newline; and after a
  successful read exactly the bytes behind the newline are left.\<close>

theorem readPOP3Line_chunking:
  "\<exists>buf' net'. readPOP3Line buf net = (line_of_stream (buf @ concat net), buf', net')
     \<and> ((\<exists>l. line_of_stream (buf @ concat net) = LineOk l) \<longrightarrow>
          buf' @ concat net' = after_lf (buf @ concat net))"
proof -
  obtain r b n where r: "readPOP3Line buf net = (r, b, n)"
    by (cases "readPOP3Line buf net") auto
  with readPOP3Line_stream(1) [OF r] readPOP3Line_stream(2) [OF r] show ?thesis by auto
qed

theorem readPOP3Line_chunking_witness:
  "fst (readPOP3Line ''NO'' [''O'', ''P'' @ [CR], [LF] @ ''QUIT'']) = LineOk ''NOOP''
   \<and> snd (snd (readPOP3Line ''NO'' [''O'', ''P'' @ [CR], [LF] @ ''QUIT''])) = []"
proof -
  let ?b = "''NO''" and ?n = "[''O'', ''P'' @ [CR], [LF] @ ''QUIT'']"
  have ok: "line_of_stream (?b @ concat ?n) = LineOk ''NOOP''"
    by (simp add: line_of_stream_def upto_lf_def maxPOP3LineOctets_def go_TrimRight_def)
  have "readPOP3Line ?b ?n = (LineOk ''NOOP'', ''QUIT'', [])"
    by (simp add: readPOP3Line_def readPOP3Line_loop.simps read_slice.simps upto_lf_def
        after_lf_def bufio_size_def maxPOP3LineOctets_def go_TrimRight_def Let_def)
  with readPOP3Line_chunking [of ?b ?n] ok show ?thesis by auto
qed

text \<open>SASL PLAIN: the base64 text a client builds from an authorisation identity, a user
  name and a password (the first two without NUL bytes) is decoded to exactly that user name
  and password.\<close>

theorem auth_plain_roundtrip:
  assumes "CHR 0x00 \<notin> set authzid" and "CHR 0x00 \<notin> set user"
  shows "(case b64_StdDecode (b64_StdEncode (authzid @ CHR 0x00 # user @ CHR 0x00 # pass)) of
      None \<Rightarrow> None | Some decoded \<Rightarrow> pop3AuthPlainCredentials decoded) = Some (user, pass)"
  using assms by (simp add: pop3AuthPlainCredentials_def go_Cut_single_append)

theorem auth_plain_roundtrip_witness:
  "(case b64_StdDecode ''AGJvYgBzM2NyZXQ='' of
      None \<Rightarrow> None | Some decoded \<Rightarrow> pop3AuthPlainCredentials decoded) = Some (''bob'', ''s3cret'')"
proof -
  have "b64_StdEncode ([] @ CHR 0x00 # ''bob'' @ CHR 0x00 # ''s3cret'') = ''AGJvYgBzM2NyZXQ=''"
    by (simp add: b64_std_def)
  with auth_plain_roundtrip [of "[]" "''bob''" "''s3cret''"] show ?thesis by simp
qed

end
