(* ===== verification/Pop3Mailbox.thy ===== *)
theory Pop3Mailbox
  imports GoBase
begin

text \<open>
  The mailbox behind the POP3 server. \<open>mailbox_iface\<close> is the Go interface \<open>pop3d.Mailbox\<close>
  with the optional interfaces the server probes for (\<open>internal/pop3d/pop3d.go\<close>), the locale
  \<open>maildrop\<close> is what the server relies on, and \<open>pop3Mailbox\<close> is the provider
  (\<open>internal/mailservice/pop3_adapter.go\<close>), for which the locale is interpreted. The mail
  service the adapter calls (raw bodies, bulk deletion, folder and message listing) is a
  record of functions over a service state: those are methods of interfaces and of the
  SQL-backed service, which stay parameters.
\<close>

section \<open>The interface\<close>

record 'm mailbox_iface =
  MessageCount :: "'m \<Rightarrow> int"
  MessageSize :: "'m \<Rightarrow> int \<Rightarrow> int"
  MessageUIDL :: "'m \<Rightarrow> int \<Rightarrow> string"
  MessageContent :: "'m \<Rightarrow> int \<Rightarrow> string \<times> 'm"
  MarkDeleted :: "'m \<Rightarrow> int \<Rightarrow> string option \<times> 'm"
  ResetDeleted :: "'m \<Rightarrow> 'm"
  Deleted :: "'m \<Rightarrow> int \<Rightarrow> bool"
  MessageContentWithError :: "('m \<Rightarrow> int \<Rightarrow> string res \<times> 'm) option"
  MaildropLockKey :: "('m \<Rightarrow> string) option"
  CommitDeletes :: "('m \<Rightarrow> string option \<times> 'm) option"

text \<open>The messages a session still shows, as 0-based indices.\<close>

definition live_indices :: "'m mailbox_iface \<Rightarrow> 'm \<Rightarrow> int list" where
  "live_indices M m = filter (\<lambda>i. \<not> Deleted M m i) (map int [0..<nat (MessageCount M m)])"

definition in_range :: "'m mailbox_iface \<Rightarrow> 'm \<Rightarrow> int \<Rightarrow> bool" where
  "in_range M m i \<longleftrightarrow> 0 \<le> i \<and> i < MessageCount M m"

locale maildrop =
  fixes M :: "'m mailbox_iface" and wf :: "'m \<Rightarrow> bool"
  assumes count_nonneg: "wf m \<Longrightarrow> 0 \<le> MessageCount M m"
    and mark_ok: "wf m \<Longrightarrow> in_range M m i \<Longrightarrow> \<exists>m'. MarkDeleted M m i = (None, m')"
    and mark_wf: "wf m \<Longrightarrow> wf (snd (MarkDeleted M m i))"
    and mark_count: "wf m \<Longrightarrow> MessageCount M (snd (MarkDeleted M m i)) = MessageCount M m"
    and mark_deleted: "wf m \<Longrightarrow> in_range M m i \<Longrightarrow>
      Deleted M (snd (MarkDeleted M m i)) j \<longleftrightarrow> j = i \<or> Deleted M m j"
    and reset_wf: "wf m \<Longrightarrow> wf (ResetDeleted M m)"
    and reset_count: "wf m \<Longrightarrow> MessageCount M (ResetDeleted M m) = MessageCount M m"
    and reset_deleted: "wf m \<Longrightarrow> \<not> Deleted M (ResetDeleted M m) j"
begin

lemma live_after_mark:
  assumes "wf m" and "in_range M m i"
  shows "live_indices M (snd (MarkDeleted M m i)) = filter (\<lambda>j. j \<noteq> i) (live_indices M m)"
  using assms by (simp add: live_indices_def mark_count mark_deleted conj_commute)

lemma live_after_reset:
  assumes "wf m"
  shows "live_indices M (ResetDeleted M m) = map int [0..<nat (MessageCount M m)]"
  using assms by (simp add: live_indices_def reset_count reset_deleted)

lemma live_count_after_mark:
  assumes "wf m" and "in_range M m i" and "\<not> Deleted M m i"
  shows "length (live_indices M (snd (MarkDeleted M m i))) + 1 = length (live_indices M m)"
proof -
  have "distinct (live_indices M m)"
    by (simp add: live_indices_def distinct_map)
  moreover have "i \<in> set (live_indices M m)"
    using assms nat_0_le [of i]
    by (auto simp: live_indices_def in_range_def image_iff intro!: bexI [of _ "nat i"])
  ultimately show ?thesis
    using assms by (simp add: live_after_mark length_filter_neq)
qed

end

text \<open>A maildrop that names its lock key, which no operation changes.\<close>

locale keyed_maildrop = maildrop +
  fixes key :: "'a \<Rightarrow> string"
  assumes key_iface: "MaildropLockKey M = Some key"
    and mark_key: "key (snd (MarkDeleted M m i)) = key m"
    and reset_key: "key (ResetDeleted M m) = key m"
    and content_key: "key (snd (MessageContent M m i)) = key m"
    and content_err_key: "MessageContentWithError M = Some f \<Longrightarrow> key (snd (f m i)) = key m"
    and commit_key: "CommitDeletes M = Some g \<Longrightarrow> key (snd (g m)) = key m"

section \<open>The adapter\<close>

text \<open>The mail service the adapter is built on.\<close>

record 'svc mail_service =
  FetchRawMessageBody :: "'svc \<Rightarrow> string \<Rightarrow> string \<Rightarrow> string res"
  BulkDeleteMessages :: "'svc \<Rightarrow> string \<Rightarrow> string list \<Rightarrow> 'svc res"

record pop3InboxMsg =
  im_id :: string
  im_size :: int

record 'svc pop3Mailbox =
  mb_service :: 'svc
  mb_userID :: string
  mb_msgs :: "pop3InboxMsg list"
  mb_deleted :: "bool list"
  mb_content :: "string list"
  mb_loaded :: "bool list"
  mb_pending :: "string list"

definition mb_MessageCount :: "'svc pop3Mailbox \<Rightarrow> int" where
  "mb_MessageCount m = int (length (mb_msgs m))"

definition mb_MaildropLockKey :: "'svc pop3Mailbox \<Rightarrow> string" where
  "mb_MaildropLockKey m = mb_userID m"

definition out_of_range :: "int \<Rightarrow> 'svc pop3Mailbox \<Rightarrow> bool" where
  "out_of_range i m \<longleftrightarrow> i < 0 \<or> int (length (mb_msgs m)) \<le> i"

definition mb_MessageSize :: "'svc pop3Mailbox \<Rightarrow> int \<Rightarrow> int" where
  "mb_MessageSize m i =
     (if out_of_range i m \<or> mb_deleted m ! nat i then 0 else im_size (mb_msgs m ! nat i))"

definition mb_MessageUIDL :: "'svc pop3Mailbox \<Rightarrow> int \<Rightarrow> string" where
  "mb_MessageUIDL m i = (if out_of_range i m then [] else im_id (mb_msgs m ! nat i))"

definition mb_MessageContentWithError ::
    "'svc mail_service \<Rightarrow> 'svc pop3Mailbox \<Rightarrow> int \<Rightarrow> string res \<times> 'svc pop3Mailbox" where
  "mb_MessageContentWithError S m i =
     (if out_of_range i m \<or> mb_deleted m ! nat i then (Inl ''invalid message index'', m)
      else if \<not> mb_loaded m ! nat i then
        (case FetchRawMessageBody S (mb_service m) (mb_userID m) (im_id (mb_msgs m ! nat i)) of
           Inl e \<Rightarrow> (Inl (''fetch raw message body: '' @ e), m)
         | Inr body \<Rightarrow>
             (Inr body, m\<lparr>mb_content := (mb_content m)[nat i := body],
                          mb_loaded := (mb_loaded m)[nat i := True]\<rparr>))
      else (Inr (mb_content m ! nat i), m))"

definition mb_MessageContent ::
    "'svc mail_service \<Rightarrow> 'svc pop3Mailbox \<Rightarrow> int \<Rightarrow> string \<times> 'svc pop3Mailbox" where
  "mb_MessageContent S m i =
     (case mb_MessageContentWithError S m i of
        (Inl _, m') \<Rightarrow> ([], m') | (Inr content, m') \<Rightarrow> (content, m'))"

definition mb_MarkDeleted :: "'svc pop3Mailbox \<Rightarrow> int \<Rightarrow> string option \<times> 'svc pop3Mailbox" where
  "mb_MarkDeleted m i =
     (if out_of_range i m then (Some ''invalid message index'', m)
      else if \<not> mb_deleted m ! nat i then
        (None, m\<lparr>mb_deleted := (mb_deleted m)[nat i := True],
                 mb_pending := mb_pending m @ [im_id (mb_msgs m ! nat i)]\<rparr>)
      else (None, m))"

definition mb_ResetDeleted :: "'svc pop3Mailbox \<Rightarrow> 'svc pop3Mailbox" where
  "mb_ResetDeleted m =
     m\<lparr>mb_deleted := map (\<lambda>_. False) (mb_deleted m), mb_pending := []\<rparr>"

definition mb_Deleted :: "'svc pop3Mailbox \<Rightarrow> int \<Rightarrow> bool" where
  "mb_Deleted m i = (if out_of_range i m then False else mb_deleted m ! nat i)"

fun unique_pending_from :: "string set \<Rightarrow> string list \<Rightarrow> string list" where
  "unique_pending_from seen [] = []"
| "unique_pending_from seen (i # ids) =
     (let id = go_TrimSpace i in
      if id = [] then unique_pending_from seen ids
      else if id \<in> seen then unique_pending_from seen ids
      else id # unique_pending_from (insert id seen) ids)"

definition uniquePOP3PendingIDs :: "string list \<Rightarrow> string list" where
  "uniquePOP3PendingIDs ids = unique_pending_from {} ids"

definition mb_CommitDeletes ::
    "'svc mail_service \<Rightarrow> 'svc pop3Mailbox \<Rightarrow> string option \<times> 'svc pop3Mailbox" where
  "mb_CommitDeletes S m =
     (if mb_pending m = [] then (None, m)
      else let ids = uniquePOP3PendingIDs (mb_pending m) in
        if ids = [] then (None, m\<lparr>mb_pending := []\<rparr>)
        else (case BulkDeleteMessages S (mb_service m) (mb_userID m) ids of
                Inl e \<Rightarrow> (Some e, m)
              | Inr svc \<Rightarrow> (None, m\<lparr>mb_service := svc, mb_pending := []\<rparr>)))"

text \<open>The adapter as a value of the interface: it implements all the optional methods.\<close>

definition pop3_adapter_iface :: "'svc mail_service \<Rightarrow> 'svc pop3Mailbox mailbox_iface" where
  "pop3_adapter_iface S =
     \<lparr>MessageCount = mb_MessageCount, MessageSize = mb_MessageSize,
      MessageUIDL = mb_MessageUIDL, MessageContent = mb_MessageContent S,
      MarkDeleted = mb_MarkDeleted, ResetDeleted = mb_ResetDeleted, Deleted = mb_Deleted,
      MessageContentWithError = Some (mb_MessageContentWithError S),
      MaildropLockKey = Some mb_MaildropLockKey,
      CommitDeletes = Some (mb_CommitDeletes S)\<rparr>"

section \<open>The adapter keeps its lists and its pending deletions in step\<close>

definition mb_wf :: "'svc pop3Mailbox \<Rightarrow> bool" where
  "mb_wf m \<longleftrightarrow>
     length (mb_deleted m) = length (mb_msgs m) \<and>
     length (mb_content m) = length (mb_msgs m) \<and>
     length (mb_loaded m) = length (mb_msgs m) \<and>
     set (mb_pending m) = {im_id (mb_msgs m ! i) | i. i < length (mb_msgs m) \<and> mb_deleted m ! i}"

lemma mb_wf_lengths:
  "mb_wf m \<Longrightarrow> length (mb_deleted m) = length (mb_msgs m)"
  "mb_wf m \<Longrightarrow> length (mb_content m) = length (mb_msgs m)"
  "mb_wf m \<Longrightarrow> length (mb_loaded m) = length (mb_msgs m)"
  by (simp_all add: mb_wf_def)

lemma mb_MarkDeleted_wf:
  assumes "mb_wf m"
  shows "mb_wf (snd (mb_MarkDeleted m i))"
proof (cases "out_of_range i m \<or> mb_deleted m ! nat i")
  case True
  with assms show ?thesis by (auto simp: mb_MarkDeleted_def)
next
  case False
  define k where "k = nat i"
  have k: "k < length (mb_msgs m)"
    using False by (auto simp: out_of_range_def k_def)
  have "{im_id (mb_msgs m ! j) | j. j < length (mb_msgs m) \<and> (mb_deleted m)[k := True] ! j}
      = insert (im_id (mb_msgs m ! k)) {im_id (mb_msgs m ! j) | j. j < length (mb_msgs m) \<and> mb_deleted m ! j}"
    using k assms by (auto simp: mb_wf_def nth_list_update split: if_splits)
  with False assms show ?thesis
    by (simp add: mb_MarkDeleted_def mb_wf_def k_def)
qed

lemma mb_ResetDeleted_wf: "mb_wf m \<Longrightarrow> mb_wf (mb_ResetDeleted m)"
  by (auto simp: mb_wf_def mb_ResetDeleted_def)

lemma mb_MessageContentWithError_wf: "mb_wf m \<Longrightarrow> mb_wf (snd (mb_MessageContentWithError S m i))"
  by (auto simp: mb_wf_def mb_MessageContentWithError_def split: sum.splits)

lemma mb_MessageContentWithError_frame [simp]:
  "mb_msgs (snd (mb_MessageContentWithError S m i)) = mb_msgs m"
  "mb_deleted (snd (mb_MessageContentWithError S m i)) = mb_deleted m"
  "mb_pending (snd (mb_MessageContentWithError S m i)) = mb_pending m"
  "mb_userID (snd (mb_MessageContentWithError S m i)) = mb_userID m"
  "mb_service (snd (mb_MessageContentWithError S m i)) = mb_service m"
  by (auto simp: mb_MessageContentWithError_def split: sum.splits)

lemma mb_MarkDeleted_Deleted:
  assumes "mb_wf m" and "\<not> out_of_range i m"
  shows "mb_Deleted (snd (mb_MarkDeleted m i)) j \<longleftrightarrow> j = i \<or> mb_Deleted m j"
proof (cases "out_of_range j m")
  case True
  with assms show ?thesis
    by (auto simp: mb_Deleted_def mb_MarkDeleted_def out_of_range_def)
next
  case False
  with assms show ?thesis
    by (auto simp: mb_Deleted_def mb_MarkDeleted_def out_of_range_def mb_wf_def
        nth_list_update eq_nat_nat_iff split: if_splits)
qed

lemma mb_ResetDeleted_Deleted: "mb_wf m \<Longrightarrow> \<not> mb_Deleted (mb_ResetDeleted m) j"
  by (auto simp: mb_Deleted_def mb_ResetDeleted_def out_of_range_def mb_wf_def)

interpretation adapter: maildrop "pop3_adapter_iface S" mb_wf for S
proof unfold_locales
  fix m :: "'a pop3Mailbox" and i j :: int
  let ?M = "pop3_adapter_iface S"
  assume wf: "mb_wf m"
  show "0 \<le> MessageCount ?M m"
    by (simp add: pop3_adapter_iface_def mb_MessageCount_def)
  show "\<exists>m'. MarkDeleted ?M m i = (None, m')" if "in_range ?M m i"
    using that by (simp add: in_range_def pop3_adapter_iface_def mb_MessageCount_def
        mb_MarkDeleted_def out_of_range_def)
  show "mb_wf (snd (MarkDeleted ?M m i))"
    using wf by (simp add: pop3_adapter_iface_def mb_MarkDeleted_wf)
  show "MessageCount ?M (snd (MarkDeleted ?M m i)) = MessageCount ?M m"
    by (simp add: pop3_adapter_iface_def mb_MessageCount_def mb_MarkDeleted_def)
  show "Deleted ?M (snd (MarkDeleted ?M m i)) j \<longleftrightarrow> j = i \<or> Deleted ?M m j" if "in_range ?M m i"
    using wf that by (simp add: in_range_def pop3_adapter_iface_def mb_MessageCount_def
        mb_MarkDeleted_Deleted out_of_range_def)
  show "mb_wf (ResetDeleted ?M m)"
    using wf by (simp add: pop3_adapter_iface_def mb_ResetDeleted_wf)
  show "MessageCount ?M (ResetDeleted ?M m) = MessageCount ?M m"
    by (simp add: pop3_adapter_iface_def mb_MessageCount_def mb_ResetDeleted_def)
  show "\<not> Deleted ?M (ResetDeleted ?M m) j"
    using wf by (simp add: pop3_adapter_iface_def mb_ResetDeleted_Deleted)
qed

interpretation keyed: keyed_maildrop "pop3_adapter_iface S" mb_wf mb_MaildropLockKey for S
proof unfold_locales
  fix m :: "'a pop3Mailbox" and i :: int
  let ?M = "pop3_adapter_iface S"
  show "MaildropLockKey ?M = Some mb_MaildropLockKey"
    by (simp add: pop3_adapter_iface_def)
  show "mb_MaildropLockKey (snd (MarkDeleted ?M m i)) = mb_MaildropLockKey m"
    by (simp add: pop3_adapter_iface_def mb_MarkDeleted_def mb_MaildropLockKey_def)
  show "mb_MaildropLockKey (ResetDeleted ?M m) = mb_MaildropLockKey m"
    by (simp add: pop3_adapter_iface_def mb_ResetDeleted_def mb_MaildropLockKey_def)
  have c: "mb_MaildropLockKey (snd (mb_MessageContentWithError S m i)) = mb_MaildropLockKey m"
    by (simp add: mb_MaildropLockKey_def)
  then show "mb_MaildropLockKey (snd (MessageContent ?M m i)) = mb_MaildropLockKey m"
    by (auto simp: pop3_adapter_iface_def mb_MessageContent_def split: prod.splits sum.splits)
  show "mb_MaildropLockKey (snd (f m i)) = mb_MaildropLockKey m"
    if "MessageContentWithError ?M = Some f" for f
    using that c by (auto simp: pop3_adapter_iface_def)
  show "mb_MaildropLockKey (snd (g m)) = mb_MaildropLockKey m"
    if "CommitDeletes ?M = Some g" for g
    using that by (auto simp: pop3_adapter_iface_def mb_CommitDeletes_def mb_MaildropLockKey_def
        Let_def split: sum.splits)
qed

lemma unique_pending_dedup:
  "unique_pending_from seen ids = dedup_from seen (filter (\<lambda>i. i \<noteq> []) (map go_TrimSpace ids))"
  by (induction seen ids rule: unique_pending_from.induct) (auto simp: Let_def)

section \<open>Opening a mailbox: authentication and the inbox listing\<close>

definition normalizePOP3Username :: "string \<Rightarrow> string res" where
  "normalizePOP3Username u =
     (let user = go_TrimSpace u in
      if user = [] \<or> go_ContainsAny user [CHR 0x0D, CHR 0x0A] then Inl ''invalid username''
      else Inr user)"

definition validatePOP3Password :: "string \<Rightarrow> string option" where
  "validatePOP3Password pass =
     (if go_ContainsAny pass [CHR 0x0D, CHR 0x0A] then Some ''invalid password'' else None)"

definition normalizePOP3AuthenticatedUserID :: "string \<Rightarrow> string res" where
  "normalizePOP3AuthenticatedUserID u =
     (if go_ContainsAny u [CHR 0x0D, CHR 0x0A] then Inl ''invalid authenticated user id''
      else let userID = go_TrimSpace u in
        if userID = [] then Inl ''authenticated user id is required'' else Inr userID)"

definition normalizePOP3MessageSizeForInt :: "int \<Rightarrow> int \<Rightarrow> int" where
  "normalizePOP3MessageSizeForInt sz maxInt =
     (if sz \<le> 0 then 0 else if maxInt < sz then maxInt else sz)"

definition normalizePOP3MessageSize :: "int \<Rightarrow> int" where
  "normalizePOP3MessageSize sz = normalizePOP3MessageSizeForInt sz max_int64"

record message_summary =
  ms_id :: string
  ms_received :: "int option" \<comment> \<open>None is the zero time\<close>
  ms_size :: int

record list_cursor =
  cur_at :: "int option"
  cur_id :: string

record message_page =
  pg_messages :: "message_summary list"
  pg_limit :: nat
  pg_hasMore :: bool
  pg_next :: string

definition MessageListMaxLimit :: nat where
  "MessageListMaxLimit = 200"

definition NormalizeMessageListLimit :: "int \<Rightarrow> nat" where
  "NormalizeMessageListLimit limit =
     (if limit \<le> 0 then 50 else if int MessageListMaxLimit < limit then MessageListMaxLimit
      else nat limit)"

text \<open>\<open>maildb.NewMessageListPage\<close>; \<open>enc\<close> is \<open>EncodeMessageListCursor\<close> (JSON in base64).\<close>

definition NewMessageListPage ::
    "(list_cursor \<Rightarrow> string res) \<Rightarrow> message_summary list \<Rightarrow> int \<Rightarrow> message_page res" where
  "NewMessageListPage enc messages requestedLimit =
     (let limit = NormalizeMessageListLimit requestedLimit;
          hasMore = limit < length messages;
          msgs = (if hasMore then take limit messages else messages);
          page = \<lparr>pg_messages = msgs, pg_limit = limit, pg_hasMore = hasMore, pg_next = []\<rparr>
      in if msgs = [] then Inr page
         else if ms_id (last msgs) = [] \<or> ms_received (last msgs) = None then Inr page
         else (case enc \<lparr>cur_at = ms_received (last msgs), cur_id = ms_id (last msgs)\<rparr> of
                 Inl e \<Rightarrow> Inl e
               | Inr next_cursor \<Rightarrow> Inr (page\<lparr>pg_next := next_cursor\<rparr>)))"

definition inbox_msg :: "message_summary \<Rightarrow> pop3InboxMsg" where
  "inbox_msg s = \<lparr>im_id = ms_id s, im_size = normalizePOP3MessageSize (ms_size s)\<rparr>"

text \<open>
  The listing loop of \<open>listInboxMessages\<close>: it ends only when a page says there is no more, so
  its value is an option (None: it never returns).
\<close>

partial_function (option) listInboxMessages_loop ::
    "(list_cursor \<Rightarrow> message_summary list res) \<Rightarrow> (list_cursor \<Rightarrow> string res) \<Rightarrow>
     (string \<Rightarrow> list_cursor res) \<Rightarrow> pop3InboxMsg list \<Rightarrow> list_cursor \<Rightarrow>
     pop3InboxMsg list res option" where
  "listInboxMessages_loop list_page enc dec all cursor =
     (case list_page cursor of
        Inl e \<Rightarrow> Some (Inl e)
      | Inr summaries \<Rightarrow>
        (case NewMessageListPage enc summaries (int MessageListMaxLimit) of
           Inl e \<Rightarrow> Some (Inl e)
         | Inr page \<Rightarrow>
           (if \<not> pg_hasMore page then Some (Inr (all @ map inbox_msg (pg_messages page)))
            else if go_TrimSpace (pg_next page) = [] then Some (Inl ''missing inbox cursor'')
            else (case dec (pg_next page) of
                    Inl e \<Rightarrow> Some (Inl (''decode inbox cursor: '' @ e))
                  | Inr cursor' \<Rightarrow>
                      listInboxMessages_loop list_page enc dec
                        (all @ map inbox_msg (pg_messages page)) cursor'))))"

definition zero_cursor :: list_cursor where
  "zero_cursor = \<lparr>cur_at = None, cur_id = []\<rparr>"

record folder =
  fld_id :: string
  fld_systemType :: string

text \<open>What \<open>Authenticate\<close> calls: the authenticator (which yields a user id and whether the
  password must be changed), the folder list, the inbox pages, the cursor codec.\<close>

record 'svc pop3_backend =
  be_authenticator :: "(string \<Rightarrow> string \<Rightarrow> (string \<times> bool) res) option"
  be_service :: 'svc
  be_ListFolders :: "string \<Rightarrow> folder list res"
  be_listPage :: "string \<Rightarrow> string \<Rightarrow> list_cursor \<Rightarrow> message_summary list res"
  be_encodeCursor :: "list_cursor \<Rightarrow> string res"
  be_decodeCursor :: "string \<Rightarrow> list_cursor res"

definition find_inbox :: "folder list \<Rightarrow> string" where
  "find_inbox folders =
     (case find (\<lambda>f. go_EqualFold (fld_systemType f) ''inbox'') folders of
        None \<Rightarrow> [] | Some f \<Rightarrow> fld_id f)"

definition adapter_Authenticate ::
    "'svc pop3_backend \<Rightarrow> string \<Rightarrow> string \<Rightarrow> 'svc pop3Mailbox res option" where
  "adapter_Authenticate B u pass =
     (case be_authenticator B of
        None \<Rightarrow> Some (Inl ''pop3 authenticator is required'')
      | Some authenticate \<Rightarrow>
     (case normalizePOP3Username u of
        Inl e \<Rightarrow> Some (Inl e)
      | Inr user \<Rightarrow>
     (case validatePOP3Password pass of
        Some e \<Rightarrow> Some (Inl e)
      | None \<Rightarrow>
     (case authenticate user pass of
        Inl _ \<Rightarrow> Some (Inl ''authentication failed'')
      | Inr (authUserID, mustChangePassword) \<Rightarrow>
          if mustChangePassword then Some (Inl ''password change required'')
          else
     (case normalizePOP3AuthenticatedUserID authUserID of
        Inl e \<Rightarrow> Some (Inl e)
      | Inr userID \<Rightarrow>
     (case be_ListFolders B userID of
        Inl e \<Rightarrow> Some (Inl (''list folders: '' @ e))
      | Inr folders \<Rightarrow>
          let inboxID = find_inbox folders in
          if inboxID = [] then Some (Inl ''inbox not found'')
          else
     (case listInboxMessages_loop (be_listPage B userID inboxID) (be_encodeCursor B)
             (be_decodeCursor B) [] zero_cursor of
        None \<Rightarrow> None
      | Some (Inl e) \<Rightarrow> Some (Inl (''list inbox messages: '' @ e))
      | Some (Inr msgs) \<Rightarrow>
          Some (Inr \<lparr>mb_service = be_service B, mb_userID = userID, mb_msgs = msgs,
                     mb_deleted = replicate (length msgs) False,
                     mb_content = replicate (length msgs) [],
                     mb_loaded = replicate (length msgs) False,
                     mb_pending = []\<rparr>))))))))"

section \<open>Properties\<close>

lemma unique_pending_ids:
  assumes "\<forall>i\<in>set ids. go_TrimSpace i = i \<and> i \<noteq> []"
  shows "uniquePOP3PendingIDs ids = dedup_first ids"
proof -
  have "map go_TrimSpace ids = ids" using assms by (simp add: map_idI)
  moreover have "filter (\<lambda>i. i \<noteq> []) ids = ids" using assms by (simp add: filter_id_conv)
  ultimately show ?thesis by (simp add: uniquePOP3PendingIDs_def unique_pending_dedup)
qed

text \<open>QUIT deletes exactly what the session marked: for message ids without surrounding
  blanks, CommitDeletes calls the service once, with every id of a message marked deleted and
  no other, each once; the pending list is cleared when the service succeeds, and the mailbox
  is unchanged when it fails.\<close>

theorem commit_deletes_exactly_marked:
  assumes wf: "mb_wf m"
    and ids: "\<forall>x\<in>set (mb_msgs m). go_TrimSpace (im_id x) = im_id x \<and> im_id x \<noteq> []"
    and some: "mb_Deleted m k"
  shows "\<exists>ids. distinct ids \<and> set ids = {mb_MessageUIDL m i | i. mb_Deleted m i} \<and>
      mb_CommitDeletes S m =
        (case BulkDeleteMessages S (mb_service m) (mb_userID m) ids of
           Inl e \<Rightarrow> (Some e, m)
         | Inr svc \<Rightarrow> (None, m\<lparr>mb_service := svc, mb_pending := []\<rparr>))"
proof -
  let ?D = "{im_id (mb_msgs m ! i) | i. i < length (mb_msgs m) \<and> mb_deleted m ! i}"
  have pending: "set (mb_pending m) = ?D" using wf by (simp add: mb_wf_def)
  have D: "{mb_MessageUIDL m i | i. mb_Deleted m i} = ?D"
  proof (intro equalityI subsetI)
    fix x assume "x \<in> ?D"
    then obtain i where "i < length (mb_msgs m)" "mb_deleted m ! i" "x = im_id (mb_msgs m ! i)"
      by blast
    then have "mb_Deleted m (int i)" and "x = mb_MessageUIDL m (int i)"
      by (simp_all add: mb_Deleted_def mb_MessageUIDL_def out_of_range_def)
    then show "x \<in> {mb_MessageUIDL m i | i. mb_Deleted m i}" by blast
  next
    fix x assume "x \<in> {mb_MessageUIDL m i | i. mb_Deleted m i}"
    then obtain i where "mb_Deleted m i" "x = mb_MessageUIDL m i" by blast
    then show "x \<in> ?D"
      by (auto simp: mb_Deleted_def mb_MessageUIDL_def out_of_range_def split: if_splits
          intro!: exI [of _ "nat i"])
  qed
  have "\<forall>i\<in>set (mb_pending m). go_TrimSpace i = i \<and> i \<noteq> []"
    using ids pending by auto
  then have u: "uniquePOP3PendingIDs (mb_pending m) = dedup_first (mb_pending m)"
    by (rule unique_pending_ids)
  have ne: "mb_pending m \<noteq> []"
    using some D pending by (metis (mono_tags, lifting) empty_iff empty_set mem_Collect_eq)
  then have "dedup_first (mb_pending m) \<noteq> []"
    by (metis Diff_empty set_dedup_from set_empty)
  with ne u pending D show ?thesis
    by (intro exI [of _ "dedup_first (mb_pending m)"]) (simp add: mb_CommitDeletes_def Let_def)
qed

definition sample_mailbox :: "string list pop3Mailbox" where
  "sample_mailbox =
     \<lparr>mb_service = [], mb_userID = ''u1'',
      mb_msgs = [\<lparr>im_id = ''m1'', im_size = 10\<rparr>, \<lparr>im_id = ''m2'', im_size = 20\<rparr>,
                 \<lparr>im_id = ''m3'', im_size = 5\<rparr>],
      mb_deleted = [True, False, True], mb_content = [[], [], []],
      mb_loaded = [False, False, False], mb_pending = [''m3'', ''m1'']\<rparr>"

lemma sample_mailbox_wf: "mb_wf sample_mailbox"
  by (auto simp: mb_wf_def sample_mailbox_def nth_Cons' less_Suc_eq numeral_3_eq_3
      intro: exI [of _ 0] exI [of _ 2])

theorem commit_deletes_exactly_marked_witness:
  "\<exists>ids. distinct ids \<and> set ids = {mb_MessageUIDL sample_mailbox i | i. mb_Deleted sample_mailbox i}
     \<and> mb_CommitDeletes \<lparr>FetchRawMessageBody = (\<lambda>_ _ _. Inr ''body''),
          BulkDeleteMessages = (\<lambda>_ _ ids. Inr ids)\<rparr> sample_mailbox
       = (None, sample_mailbox\<lparr>mb_service := ids, mb_pending := []\<rparr>)"
proof -
  have "\<forall>x\<in>set (mb_msgs sample_mailbox). go_TrimSpace (im_id x) = im_id x \<and> im_id x \<noteq> []"
    by (auto simp: sample_mailbox_def graphic_def intro!: go_TrimSpace_graphic)
  moreover have "mb_Deleted sample_mailbox 0"
    by (simp add: mb_Deleted_def out_of_range_def sample_mailbox_def)
  ultimately show ?thesis
    using commit_deletes_exactly_marked [OF sample_mailbox_wf, of 0
        "\<lparr>FetchRawMessageBody = (\<lambda>_ _ _. Inr ''body''), BulkDeleteMessages = (\<lambda>_ _ ids. Inr ids)\<rparr>"]
    by simp
qed

end
