(* ===== verification/Pop3Server.thy ===== *)
theory Pop3Server
  imports Pop3Wire Pop3Mailbox
begin

text \<open>
  The POP3 server of \<open>internal/pop3d/pop3d.go\<close>: the session state machine
  (\<open>handleConn\<close>, \<open>handleCommand\<close>, \<open>handleAuth\<close>, \<open>handleTransaction\<close>), the maildrop locks
  and the tracker of failed logins. A session holds its buffered input, the reads the
  connection will still return, and what was written to the peer; closing the connection
  drops the reads and ignores further writes, while buffered bytes stay readable, as with
  \<open>bufio\<close>. The TLS handshake, the store and the mailbox are parameters; deadlines and metrics
  are not modelled. A nil dereference sets \<open>ss_panicked\<close>.
\<close>

section \<open>The tracker of failed logins\<close>

record pop3AuthFailureTracker =
  tr_failures :: "string \<rightharpoonup> int list"
  tr_window :: int
  tr_maxFails :: int

definition newPOP3AuthFailureTracker :: pop3AuthFailureTracker where
  "newPOP3AuthFailureTracker =
     \<lparr>tr_failures = Map.empty, tr_window = 10 * 60 * 1000000000, tr_maxFails = 10\<rparr>"

definition tracker_get :: "pop3AuthFailureTracker \<Rightarrow> string \<Rightarrow> int list" where
  "tracker_get t ip = (case tr_failures t ip of None \<Rightarrow> [] | Some l \<Rightarrow> l)"

definition tracker_record ::
    "int \<Rightarrow> string \<Rightarrow> pop3AuthFailureTracker \<Rightarrow> bool \<times> pop3AuthFailureTracker" where
  "tracker_record now ip t =
     (let cutoff = now - tr_window t;
          prev = tracker_get t ip;
          fresh = filter (\<lambda>ts. cutoff < ts) prev @ [now]
      in (tr_maxFails t < int (length fresh),
          if prev \<noteq> [] \<and> length fresh = 1
          then t\<lparr>tr_failures := (tr_failures t)(ip \<mapsto> [now])\<rparr>
          else t\<lparr>tr_failures := (tr_failures t)(ip \<mapsto> fresh)\<rparr>))"

definition tracker_isLocked ::
    "int \<Rightarrow> string \<Rightarrow> pop3AuthFailureTracker \<Rightarrow> bool \<times> pop3AuthFailureTracker" where
  "tracker_isLocked now ip t =
     (let cutoff = now - tr_window t;
          count = length (filter (\<lambda>ts. cutoff < ts) (tracker_get t ip))
      in (tr_maxFails t \<le> int count,
          if count = 0 then t\<lparr>tr_failures := (tr_failures t)(ip := None)\<rparr> else t))"

text \<open>\<open>net.SplitHostPort\<close> is a parameter: it returns the host or fails.\<close>

definition pop3RemoteAddrIP :: "(string \<Rightarrow> string option) \<Rightarrow> string option \<Rightarrow> string" where
  "pop3RemoteAddrIP splitHostPort addr =
     (case addr of None \<Rightarrow> []
      | Some a \<Rightarrow> (case splitHostPort a of None \<Rightarrow> a | Some host \<Rightarrow> host))"

section \<open>Server and session\<close>

text \<open>What does not change while the server runs.\<close>

record 'm pop3_config =
  cf_Authenticate :: "(string \<Rightarrow> string \<Rightarrow> 'm res) option" \<comment> \<open>None: no store\<close>
  cf_Mailbox :: "'m mailbox_iface"
  cf_TLSConfig :: bool
  cf_Handshake :: "string list \<Rightarrow> string list option"
  cf_Greeting :: string

record pop3_server =
  sv_maildrops :: "string set"
  sv_authTracker :: "pop3AuthFailureTracker option"

definition getAuthTracker :: "pop3_server \<Rightarrow> pop3AuthFailureTracker" where
  "getAuthTracker sv =
     (case sv_authTracker sv of None \<Rightarrow> newPOP3AuthFailureTracker | Some t \<Rightarrow> t)"

datatype sess_state = stateAuthorization | stateTransaction

text \<open>The \<open>release\<close> closure: nil, the one that does nothing, or the one that unlocks a key.\<close>

datatype release_fn = NoRelease | ReleaseNothing | ReleaseKey string

record 'm session =
  ss_state :: sess_state
  ss_mailbox :: "'m option"
  ss_user :: string
  ss_ip :: string
  ss_rbuf :: string
  ss_net :: "string list"
  ss_out :: string
  ss_tlsActive :: bool
  ss_release :: release_fn
  ss_closed :: bool
  ss_panicked :: bool

section \<open>Writing\<close>

definition emit :: "string \<Rightarrow> 'm session \<Rightarrow> 'm session" where
  "emit x s = (if ss_closed s then s else s\<lparr>ss_out := ss_out s @ x\<rparr>)"

definition crlf :: string where
  "crlf = [CR, LF]"

definition writeLine :: "string \<Rightarrow> 'm session \<Rightarrow> 'm session" where
  "writeLine line s = emit (line @ crlf) s"

definition writeStatusLine :: "string \<Rightarrow> string \<Rightarrow> 'm session \<Rightarrow> 'm session" where
  "writeStatusLine pre msg s = emit (pre @ (if msg \<noteq> [] then '' '' @ msg else []) @ crlf) s"

definition writeOK :: "string \<Rightarrow> 'm session \<Rightarrow> 'm session" where
  "writeOK msg s = writeStatusLine ''+OK'' msg s"

definition writeERR :: "string \<Rightarrow> 'm session \<Rightarrow> 'm session" where
  "writeERR msg s = writeStatusLine ''-ERR'' msg s"

definition writeNumberPairLine :: "int \<Rightarrow> int \<Rightarrow> string" where
  "writeNumberPairLine index sz = go_Itoa index @ '' '' @ go_Itoa sz @ crlf"

definition writeNumberStringLine :: "int \<Rightarrow> string \<Rightarrow> string" where
  "writeNumberStringLine index uidl = go_Itoa index @ '' '' @ uidl @ crlf"

definition writeOKIntPair :: "int \<Rightarrow> int \<Rightarrow> 'm session \<Rightarrow> 'm session" where
  "writeOKIntPair left right s = emit (''+OK '' @ go_Itoa left @ '' '' @ go_Itoa right @ crlf) s"

definition writeOKIntString :: "int \<Rightarrow> string \<Rightarrow> 'm session \<Rightarrow> 'm session" where
  "writeOKIntString left right s = emit (''+OK '' @ go_Itoa left @ '' '' @ right @ crlf) s"

definition writeOKIntSuffix :: "int \<Rightarrow> string \<Rightarrow> 'm session \<Rightarrow> 'm session" where
  "writeOKIntSuffix num suf s = emit (''+OK '' @ go_Itoa num @ suf @ crlf) s"

definition closeConn :: "'m session \<Rightarrow> 'm session" where
  "closeConn s = s\<lparr>ss_closed := True, ss_net := []\<rparr>"

definition sess_readLine :: "'m session \<Rightarrow> line_result \<times> 'm session" where
  "sess_readLine s =
     (case readPOP3Line (ss_rbuf s) (ss_net s) of
        (r, buf, net) \<Rightarrow> (r, s\<lparr>ss_rbuf := buf, ss_net := net\<rparr>))"

section \<open>Maildrop locks\<close>

definition mailboxLockKey :: "'m mailbox_iface \<Rightarrow> 'm \<Rightarrow> string \<Rightarrow> string" where
  "mailboxLockKey M m fallback =
     (case MaildropLockKey M of
        None \<Rightarrow> fallback
      | Some keyed \<Rightarrow> (let key = go_TrimSpace (keyed m) in if key \<noteq> [] then key else fallback))"

definition normalizeMaildropLockKey :: "string \<Rightarrow> string" where
  "normalizeMaildropLockKey key = go_ToLower (go_TrimSpace key)"

definition acquireMaildropLock :: "string \<Rightarrow> pop3_server \<Rightarrow> release_fn option \<times> pop3_server" where
  "acquireMaildropLock key0 sv =
     (let key = normalizeMaildropLockKey key0 in
      if key = [] then (Some ReleaseNothing, sv)
      else if key \<in> sv_maildrops sv then (None, sv)
      else (Some (ReleaseKey key), sv\<lparr>sv_maildrops := insert key (sv_maildrops sv)\<rparr>))"

definition releaseMaildropLock :: "'m session \<Rightarrow> pop3_server \<Rightarrow> 'm session \<times> pop3_server" where
  "releaseMaildropLock s sv =
     (s\<lparr>ss_release := NoRelease\<rparr>,
      case ss_release s of
        ReleaseKey key \<Rightarrow> sv\<lparr>sv_maildrops := sv_maildrops sv - {key}\<rparr>
      | _ \<Rightarrow> sv)"

section \<open>The authorization state\<close>

text \<open>\<open>now\<close> and \<open>later\<close> are the two clock readings of an attempt that fails.\<close>

definition authenticate ::
    "'m pop3_config \<Rightarrow> int \<times> int \<Rightarrow> string \<Rightarrow> string \<Rightarrow>
     'm session \<Rightarrow> pop3_server \<Rightarrow> 'm session \<times> pop3_server" where
  "authenticate C clock user pass s sv =
     (case cf_Authenticate C of
        None \<Rightarrow> (writeERR ''authentication failed'' s, sv)
      | Some auth \<Rightarrow>
        (case tracker_isLocked (fst clock) (ss_ip s) (getAuthTracker sv) of (locked, tracker) \<Rightarrow>
           let sv = sv\<lparr>sv_authTracker := Some tracker\<rparr> in
           if locked then (writeERR ''authentication failed'' s, sv)
           else
             (case auth user pass of
                Inl _ \<Rightarrow>
                  (writeERR ''authentication failed'' s,
                   sv\<lparr>sv_authTracker := Some (snd (tracker_record (snd clock) (ss_ip s) tracker))\<rparr>)
              | Inr mb \<Rightarrow>
                  (case acquireMaildropLock (mailboxLockKey (cf_Mailbox C) mb user) sv of
                     (None, sv) \<Rightarrow> (writeERR ''maildrop already locked'' s, sv)
                   | (Some release, sv) \<Rightarrow>
                       (writeOK ''mailbox ready''
                          (s\<lparr>ss_mailbox := Some mb, ss_release := release, ss_user := user,
                             ss_state := stateTransaction\<rparr>), sv)))))"

definition canUseSTLS :: "'m pop3_config \<Rightarrow> 'm session \<Rightarrow> bool" where
  "canUseSTLS C s \<longleftrightarrow> ss_state s = stateAuthorization \<and> cf_TLSConfig C \<and> \<not> ss_tlsActive s"

definition writeCapabilities :: "'m pop3_config \<Rightarrow> 'm session \<Rightarrow> 'm session" where
  "writeCapabilities C s =
     emit (''IMPLEMENTATION gogomail'' @ crlf @ ''LOGIN-DELAY 0'' @ crlf @ ''UIDL'' @ crlf @
           ''TOP'' @ crlf @
           (if ss_state s = stateAuthorization
            then ''USER'' @ crlf @ ''SASL PLAIN LOGIN'' @ crlf @
                 (if canUseSTLS C s then ''STLS'' @ crlf else [])
            else []) @
           ''.'' @ crlf)
       (writeOK ''Capability list follows'' s)"

definition handleSTLS :: "'m pop3_config \<Rightarrow> 'm session \<Rightarrow> 'm session" where
  "handleSTLS C s =
     (if \<not> canUseSTLS C s then writeERR ''STLS not available'' s
      else let s = writeOK ''Begin TLS negotiation'' s in
        (case cf_Handshake C (ss_net s) of
           None \<Rightarrow> closeConn (writeERR ''TLS handshake failed'' s)
         | Some net \<Rightarrow>
             s\<lparr>ss_net := net, ss_rbuf := [], ss_tlsActive := True, ss_user := []\<rparr>))"

text \<open>A failed read of a SASL continuation closes the connection.\<close>

definition sasl_readErr :: "line_result \<Rightarrow> 'm session \<Rightarrow> 'm session" where
  "sasl_readErr r s =
     closeConn (if r = LineTooLong then writeERR ''line too long'' s else s)"

definition authPlainEncoded ::
    "'m pop3_config \<Rightarrow> int \<times> int \<Rightarrow> string \<Rightarrow> 'm session \<Rightarrow> pop3_server \<Rightarrow>
     'm session \<times> pop3_server" where
  "authPlainEncoded C clock encoded s sv =
     (case b64_StdDecode encoded of
        None \<Rightarrow> (writeERR ''invalid base64'' s, sv)
      | Some decoded \<Rightarrow>
        (case pop3AuthPlainCredentials decoded of
           None \<Rightarrow> (writeERR ''invalid credentials format'' s, sv)
         | Some (user, pass) \<Rightarrow> authenticate C clock user pass s sv))"

definition handleAuthPlain ::
    "'m pop3_config \<Rightarrow> int \<times> int \<Rightarrow> string \<Rightarrow> nat \<Rightarrow> 'm session \<Rightarrow> pop3_server \<Rightarrow>
     'm session \<times> pop3_server" where
  "handleAuthPlain C clock arg2 argc s sv =
     (if 2 < argc then (writeERR ''syntax error'' s, sv)
      else if 2 \<le> argc then authPlainEncoded C clock arg2 s sv
      else (case sess_readLine (writeLine ''+ '' s) of
              (LineOk encoded, s) \<Rightarrow>
                if encoded = ''*'' then (writeERR ''authentication cancelled'' s, sv)
                else authPlainEncoded C clock encoded s sv
            | (r, s) \<Rightarrow> (sasl_readErr r s, sv)))"

definition handleAuthLogin ::
    "'m pop3_config \<Rightarrow> int \<times> int \<Rightarrow> nat \<Rightarrow> 'm session \<Rightarrow> pop3_server \<Rightarrow>
     'm session \<times> pop3_server" where
  "handleAuthLogin C clock argc s sv =
     (if argc \<noteq> 1 then (writeERR ''syntax error'' s, sv)
      else (case sess_readLine (writeLine (''+ '' @ b64_StdEncode ''Username:'') s) of
        (LineOk userEncoded, s) \<Rightarrow>
          if userEncoded = ''*'' then (writeERR ''authentication cancelled'' s, sv)
          else (case b64_StdDecode userEncoded of
            None \<Rightarrow> (writeERR ''invalid base64'' s, sv)
          | Some userDecoded \<Rightarrow>
              (case sess_readLine (writeLine (''+ '' @ b64_StdEncode ''Password:'') s) of
                (LineOk passEncoded, s) \<Rightarrow>
                  if passEncoded = ''*'' then (writeERR ''authentication cancelled'' s, sv)
                  else (case b64_StdDecode passEncoded of
                    None \<Rightarrow> (writeERR ''invalid base64'' s, sv)
                  | Some passDecoded \<Rightarrow> authenticate C clock userDecoded passDecoded s sv)
              | (r, s) \<Rightarrow> (sasl_readErr r s, sv)))
      | (r, s) \<Rightarrow> (sasl_readErr r s, sv)))"

definition handleAuth ::
    "'m pop3_config \<Rightarrow> int \<times> int \<Rightarrow> string \<Rightarrow> string \<Rightarrow> string \<Rightarrow> nat \<Rightarrow>
     'm session \<Rightarrow> pop3_server \<Rightarrow> 'm session \<times> pop3_server" where
  "handleAuth C clock cmd arg1 arg2 argc s sv =
     (if cmd = ''USER'' then
        (if argc \<noteq> 1 then (writeERR ''syntax error'' s, sv)
         else (writeOK [] (s\<lparr>ss_user := arg1\<rparr>), sv))
      else if cmd = ''PASS'' then
        (if argc \<noteq> 1 then (writeERR ''syntax error'' s, sv)
         else if ss_user s = [] then (writeERR ''authentication failed'' s, sv)
         else authenticate C clock (ss_user s) arg1 s sv)
      else if cmd = ''QUIT'' then (closeConn (writeOK ''bye'' s), sv)
      else if cmd = ''CAPA'' then (writeCapabilities C s, sv)
      else if cmd = ''STLS'' then (handleSTLS C s, sv)
      else if cmd = ''NOOP'' then (writeOK [] s, sv)
      else if cmd = ''AUTH'' then
        (if argc = 0 then (writeERR ''syntax error'' s, sv)
         else let mechanism = pop3UpperASCII arg1 in
           if mechanism = ''PLAIN'' then handleAuthPlain C clock arg2 argc s sv
           else if mechanism = ''LOGIN'' then handleAuthLogin C clock argc s sv
           else (writeERR ''unsupported authentication mechanism'' s, sv))
      else (writeERR ''unknown command'' s, sv))"

section \<open>The transaction state\<close>

definition msg_indices :: "'m mailbox_iface \<Rightarrow> 'm \<Rightarrow> int list" where
  "msg_indices M m = map int [0..<nat (MessageCount M m)]"

definition hasDeletedMessages :: "'m mailbox_iface \<Rightarrow> 'm \<Rightarrow> bool" where
  "hasDeletedMessages M m = list_ex (Deleted M m) (msg_indices M m)"

definition msgCountAndSize :: "'m mailbox_iface \<Rightarrow> 'm \<Rightarrow> int \<times> int" where
  "msgCountAndSize M m =
     foldl (\<lambda>(count, sz) i. if \<not> Deleted M m i
              then (count + 1, wrap64 (sz + MessageSize M m i)) else (count, sz))
       (0, 0) (msg_indices M m)"

definition messageContent :: "'m mailbox_iface \<Rightarrow> 'm \<Rightarrow> int \<Rightarrow> string res \<times> 'm" where
  "messageContent M m i =
     (case MessageContentWithError M of
        Some f \<Rightarrow> f m i
      | None \<Rightarrow> (case MessageContent M m i of (content, m') \<Rightarrow> (Inr content, m')))"

text \<open>The check every command with a message number makes.\<close>

definition msg_arg :: "'m mailbox_iface \<Rightarrow> 'm \<Rightarrow> string \<Rightarrow> int option" where
  "msg_arg M m arg =
     (case go_Atoi arg of
        None \<Rightarrow> None
      | Some idx \<Rightarrow>
          if idx < 1 \<or> MessageCount M m < idx \<or> Deleted M m (idx - 1) then None else Some idx)"

definition listing :: "'m mailbox_iface \<Rightarrow> 'm \<Rightarrow> (int \<Rightarrow> string) \<Rightarrow> string" where
  "listing M m line =
     concat (map (\<lambda>i. if \<not> Deleted M m i then line i else []) (msg_indices M m))"

definition handleLIST :: "'m mailbox_iface \<Rightarrow> 'm \<Rightarrow> string \<Rightarrow> nat \<Rightarrow> 'm session \<Rightarrow> 'm session" where
  "handleLIST M m arg1 argc s =
     (if argc = 0 then
        writeLine ''.'' (emit (listing M m (\<lambda>i. writeNumberPairLine (i + 1) (MessageSize M m i)))
          (writeOK [] s))
      else (case msg_arg M m arg1 of
              None \<Rightarrow> writeERR ''no such message'' s
            | Some idx \<Rightarrow> writeOKIntPair idx (MessageSize M m (idx - 1)) s))"

definition handleUIDL :: "'m mailbox_iface \<Rightarrow> 'm \<Rightarrow> string \<Rightarrow> nat \<Rightarrow> 'm session \<Rightarrow> 'm session" where
  "handleUIDL M m arg1 argc s =
     (if argc = 0 then
        writeLine ''.'' (emit (listing M m (\<lambda>i. writeNumberStringLine (i + 1) (MessageUIDL M m i)))
          (writeOK [] s))
      else (case msg_arg M m arg1 of
              None \<Rightarrow> writeERR ''no such message'' s
            | Some idx \<Rightarrow> writeOKIntString idx (MessageUIDL M m (idx - 1)) s))"

definition handleRETR :: "'m mailbox_iface \<Rightarrow> 'm \<Rightarrow> string \<Rightarrow> nat \<Rightarrow> 'm session \<Rightarrow> 'm session" where
  "handleRETR M m arg1 argc s =
     (if argc \<noteq> 1 then writeERR ''syntax error'' s
      else (case msg_arg M m arg1 of
        None \<Rightarrow> writeERR ''no such message'' s
      | Some idx \<Rightarrow>
        (case messageContent M m (idx - 1) of
           (Inl _, m') \<Rightarrow> writeERR ''message content unavailable'' (s\<lparr>ss_mailbox := Some m'\<rparr>)
         | (Inr content, m') \<Rightarrow>
             writeLine ''.'' (emit (writeDotStuffedMultiline content)
               (writeOKIntSuffix (MessageSize M m' (idx - 1)) '' octets''
                 (s\<lparr>ss_mailbox := Some m'\<rparr>))))))"

definition handleDELE :: "'m mailbox_iface \<Rightarrow> 'm \<Rightarrow> string \<Rightarrow> nat \<Rightarrow> 'm session \<Rightarrow> 'm session" where
  "handleDELE M m arg1 argc s =
     (if argc \<noteq> 1 then writeERR ''syntax error'' s
      else (case msg_arg M m arg1 of
        None \<Rightarrow> writeERR ''no such message'' s
      | Some idx \<Rightarrow>
        (case MarkDeleted M m (idx - 1) of
           (Some _, m') \<Rightarrow> writeERR ''delete failed'' (s\<lparr>ss_mailbox := Some m'\<rparr>)
         | (None, m') \<Rightarrow> writeOK ''message deleted'' (s\<lparr>ss_mailbox := Some m'\<rparr>))))"

definition handleTOP ::
    "'m mailbox_iface \<Rightarrow> 'm \<Rightarrow> string \<Rightarrow> string \<Rightarrow> nat \<Rightarrow> 'm session \<Rightarrow> 'm session" where
  "handleTOP M m arg1 arg2 argc s =
     (if argc \<noteq> 2 then writeERR ''syntax error'' s
      else (case msg_arg M m arg1 of
        None \<Rightarrow> writeERR ''no such message'' s
      | Some idx \<Rightarrow>
        (case go_Atoi arg2 of
           None \<Rightarrow> writeERR ''syntax error'' s
         | Some n \<Rightarrow>
           if n < 0 then writeERR ''syntax error'' s
           else (case messageContent M m (idx - 1) of
             (Inl _, m') \<Rightarrow> writeERR ''message content unavailable'' (s\<lparr>ss_mailbox := Some m'\<rparr>)
           | (Inr content, m') \<Rightarrow>
               writeLine ''.'' (emit (writeTopDotStuffedMultiline content n)
                 (writeOK [] (s\<lparr>ss_mailbox := Some m'\<rparr>)))))))"

definition handleQUIT ::
    "'m mailbox_iface \<Rightarrow> 'm \<Rightarrow> 'm session \<Rightarrow> pop3_server \<Rightarrow> 'm session \<times> pop3_server" where
  "handleQUIT M m s sv =
     (case (case CommitDeletes M of
              Some commit \<Rightarrow> if hasDeletedMessages M m then commit m else (None, m)
            | None \<Rightarrow> (None, m)) of
        (Some _, m') \<Rightarrow> (writeERR ''commit failed'' (s\<lparr>ss_mailbox := Some (ResetDeleted M m')\<rparr>), sv)
      | (None, m') \<Rightarrow>
          (case releaseMaildropLock (writeOK ''bye'' (s\<lparr>ss_mailbox := Some m'\<rparr>)) sv of
             (s, sv) \<Rightarrow> (closeConn s, sv)))"

definition handleTransaction ::
    "'m pop3_config \<Rightarrow> string \<Rightarrow> string \<Rightarrow> string \<Rightarrow> nat \<Rightarrow>
     'm session \<Rightarrow> pop3_server \<Rightarrow> 'm session \<times> pop3_server" where
  "handleTransaction C cmd arg1 arg2 argc s sv =
     (let M = cf_Mailbox C in
      case ss_mailbox s of
        None \<Rightarrow> (s\<lparr>ss_panicked := True\<rparr>, sv)
      | Some m \<Rightarrow>
         if cmd = ''STAT'' then
           (case msgCountAndSize M m of (count, sz) \<Rightarrow> (writeOKIntPair count sz s, sv))
         else if cmd = ''LIST'' then (handleLIST M m arg1 argc s, sv)
         else if cmd = ''RETR'' then (handleRETR M m arg1 argc s, sv)
         else if cmd = ''DELE'' then (handleDELE M m arg1 argc s, sv)
         else if cmd = ''NOOP'' then (writeOK [] s, sv)
         else if cmd = ''RSET'' then (writeOK [] (s\<lparr>ss_mailbox := Some (ResetDeleted M m)\<rparr>), sv)
         else if cmd = ''UIDL'' then (handleUIDL M m arg1 argc s, sv)
         else if cmd = ''TOP'' then (handleTOP M m arg1 arg2 argc s, sv)
         else if cmd = ''QUIT'' then handleQUIT M m s sv
         else if cmd = ''CAPA'' then (writeCapabilities C s, sv)
         else if cmd = ''STLS'' then
           (writeERR ''STLS not available in transaction state'' s, sv)
         else (writeERR ''unknown command'' s, sv))"

definition handleCommand ::
    "'m pop3_config \<Rightarrow> int \<times> int \<Rightarrow> string \<Rightarrow> 'm session \<Rightarrow> pop3_server \<Rightarrow>
     'm session \<times> pop3_server" where
  "handleCommand C clock line s sv =
     (case parsePOP3Command line of (cmd, arg1, arg2, argc) \<Rightarrow>
        if cmd = [] then (writeERR ''syntax error'' s, sv)
        else (case ss_state s of
                stateAuthorization \<Rightarrow> handleAuth C clock cmd arg1 arg2 argc s sv
              | stateTransaction \<Rightarrow> handleTransaction C cmd arg1 arg2 argc s sv))"

section \<open>Connections\<close>

definition newSession :: "string \<Rightarrow> bool \<Rightarrow> string list \<Rightarrow> 'm session" where
  "newSession ip isTLS net =
     \<lparr>ss_state = stateAuthorization, ss_mailbox = None, ss_user = [], ss_ip = ip, ss_rbuf = [],
      ss_net = net, ss_out = [], ss_tlsActive = isTLS, ss_release = NoRelease,
      ss_closed = False, ss_panicked = False\<rparr>"

definition greet :: "'m pop3_config \<Rightarrow> 'm session \<Rightarrow> 'm session" where
  "greet C s =
     writeLine (''+OK '' @ (if cf_Greeting C = [] then ''POP3 server ready'' else cf_Greeting C)) s"

lemma emit_fields [simp]:
  "ss_state (emit x s) = ss_state s" "ss_mailbox (emit x s) = ss_mailbox s"
  "ss_user (emit x s) = ss_user s" "ss_ip (emit x s) = ss_ip s" "ss_rbuf (emit x s) = ss_rbuf s"
  "ss_net (emit x s) = ss_net s" "ss_tlsActive (emit x s) = ss_tlsActive s"
  "ss_release (emit x s) = ss_release s" "ss_closed (emit x s) = ss_closed s"
  "ss_panicked (emit x s) = ss_panicked s"
  by (simp_all add: emit_def)

lemmas write_defs = writeLine_def writeStatusLine_def writeOK_def writeERR_def
  writeOKIntPair_def writeOKIntString_def writeOKIntSuffix_def writeCapabilities_def

text \<open>The bytes a session can still read.\<close>

definition pending_input :: "'m session \<Rightarrow> string" where
  "pending_input s = ss_rbuf s @ concat (ss_net s)"

lemma sess_readLine_fields:
  assumes "sess_readLine s = (r, s')"
  shows "s' = s\<lparr>ss_rbuf := ss_rbuf s', ss_net := ss_net s'\<rparr>"
  using assms by (auto simp: sess_readLine_def split: prod.splits)

lemma after_lf_shorter: "LF \<in> set s \<Longrightarrow> length (after_lf s) < length s"
  by (metis append_Nil length_append length_greater_0_conv less_add_same_cancel2 upto_after_lf
      snoc_eq_iff_butlast upto_lf_def)

lemma sess_readLine_progress:
  assumes "sess_readLine s = (LineOk line, s')"
  shows "length (pending_input s') < length (pending_input s)"
proof -
  obtain r b n where r: "readPOP3Line (ss_rbuf s) (ss_net s) = (r, b, n)"
    by (cases "readPOP3Line (ss_rbuf s) (ss_net s)") auto
  with assms have "r = LineOk line" and s': "s' = s\<lparr>ss_rbuf := b, ss_net := n\<rparr>"
    by (auto simp: sess_readLine_def)
  with readPOP3Line_stream [OF r] have "LF \<in> set (pending_input s)"
    and "b @ concat n = after_lf (pending_input s)"
    by (auto simp: line_of_stream_def pending_input_def split: if_splits)
  then show ?thesis
    using after_lf_shorter [of "pending_input s"] s' by (simp add: pending_input_def)
qed

text \<open>
  What a command may do to the input: consume some of it, or switch to TLS, which happens at
  most once.
\<close>

definition sess_le :: "'m session \<Rightarrow> 'm session \<Rightarrow> bool" where
  "sess_le s' s \<longleftrightarrow>
     (ss_tlsActive s' \<and> \<not> ss_tlsActive s) \<or>
     (ss_tlsActive s' = ss_tlsActive s \<and> length (pending_input s') \<le> length (pending_input s))"

lemma sess_le_refl [simp]: "sess_le s s"
  by (simp add: sess_le_def)

lemma sess_le_trans: "sess_le s2 s1 \<Longrightarrow> sess_le s1 s0 \<Longrightarrow> sess_le s2 s0"
  by (auto simp: sess_le_def)

lemma sess_le_same_input:
  "ss_tlsActive s' = ss_tlsActive s \<Longrightarrow> ss_rbuf s' = ss_rbuf s \<Longrightarrow> ss_net s' = ss_net s \<Longrightarrow>
   sess_le s' s"
  by (simp add: sess_le_def pending_input_def)

lemma sess_le_closeConn: "sess_le s' s \<Longrightarrow> sess_le (closeConn s') s"
  by (auto simp: sess_le_def closeConn_def pending_input_def)

lemma sess_le_emit: "sess_le (emit x s') s = sess_le s' s"
  by (simp add: sess_le_def pending_input_def)

lemma sess_le_readLine:
  assumes "sess_readLine s = (r, s')"
  shows "sess_le s' s"
proof -
  obtain r1 b n where r: "readPOP3Line (ss_rbuf s) (ss_net s) = (r1, b, n)"
    by (cases "readPOP3Line (ss_rbuf s) (ss_net s)") auto
  with assms have "s' = s\<lparr>ss_rbuf := b, ss_net := n\<rparr>"
    by (simp add: sess_readLine_def)
  with readPOP3Line_length [OF r] show ?thesis
    by (simp add: sess_le_def pending_input_def)
qed

lemmas sess_le_intros = sess_le_closeConn sess_le_same_input

lemma authenticate_same_input:
  assumes "authenticate C clock user pass s sv = (s', sv')"
  shows "ss_rbuf s' = ss_rbuf s \<and> ss_net s' = ss_net s \<and> ss_tlsActive s' = ss_tlsActive s"
  using assms
  by (auto simp: authenticate_def write_defs Let_def split: option.splits prod.splits sum.splits
      if_splits)

lemma authenticate_le: "authenticate C clock user pass s sv = (s', sv') \<Longrightarrow> sess_le s' s"
  by (rule sess_le_same_input) (use authenticate_same_input in blast)+

lemma authPlainEncoded_le: "authPlainEncoded C clock enc s sv = (s', sv') \<Longrightarrow> sess_le s' s"
  by (auto simp: authPlainEncoded_def write_defs sess_le_emit split: option.splits prod.splits
      intro: authenticate_le)

lemma sasl_readErr_le: "sess_le (sasl_readErr r s) s"
  by (simp add: sasl_readErr_def sess_le_closeConn write_defs sess_le_emit)

lemma sess_readLine_after_emit:
  "sess_readLine (emit x s) = (r, s') \<Longrightarrow> sess_le s' s"
  by (metis sess_le_emit sess_le_readLine sess_le_refl sess_le_trans)

lemma handleAuthPlain_le:
  assumes "handleAuthPlain C clock arg2 argc s sv = (s', sv')"
  shows "sess_le s' s"
proof (cases "argc < 2")
  case False
  with assms show ?thesis
    by (auto simp: handleAuthPlain_def write_defs sess_le_emit split: if_splits
        intro: authPlainEncoded_le)
next
  case True
  obtain r s1 where rl: "sess_readLine (writeLine ''+ '' s) = (r, s1)" by fastforce
  then have le: "sess_le s1 s" by (auto simp: writeLine_def intro: sess_readLine_after_emit)
  from True assms rl have "sess_le s' s1"
    by (auto simp: handleAuthPlain_def write_defs sess_le_emit sasl_readErr_le
        split: line_result.splits if_splits intro: authPlainEncoded_le sess_le_closeConn)
  with le show ?thesis by (blast intro: sess_le_trans)
qed

lemma handleAuthLogin_le:
  assumes "handleAuthLogin C clock argc s sv = (s', sv')"
  shows "sess_le s' s"
proof (cases "argc = 1")
  case False
  with assms show ?thesis by (auto simp: handleAuthLogin_def write_defs sess_le_emit)
next
  case True
  define user_prompt :: string where "user_prompt = ''+ '' @ b64_StdEncode ''Username:''"
  define pass_prompt :: string where "pass_prompt = ''+ '' @ b64_StdEncode ''Password:''"
  obtain r s1 where rl: "sess_readLine (writeLine user_prompt s) = (r, s1)" by fastforce
  then have le: "sess_le s1 s" by (auto simp: writeLine_def intro: sess_readLine_after_emit)
  obtain r2 s2 where rl2: "sess_readLine (writeLine pass_prompt s1) = (r2, s2)" by fastforce
  then have le2: "sess_le s2 s1" by (auto simp: writeLine_def intro: sess_readLine_after_emit)
  have fin: "sess_le s' s1 \<or> sess_le s' s2"
    using True assms
    unfolding handleAuthLogin_def user_prompt_def [symmetric] pass_prompt_def [symmetric] rl
    by (auto simp: writeERR_def writeStatusLine_def sess_le_emit sasl_readErr_le rl2
        split: line_result.splits if_splits option.splits
        intro: authenticate_le)
  with le le2 show ?thesis by (blast intro: sess_le_trans)
qed

lemma handleAuth_le:
  assumes "handleAuth C clock cmd arg1 arg2 argc s sv = (s', sv')"
  shows "sess_le s' s"
proof -
  have "sess_le (handleSTLS C s) s"
    by (auto simp: handleSTLS_def write_defs sess_le_emit sess_le_closeConn canUseSTLS_def Let_def
        split: option.splits) (simp add: sess_le_def)
  with assms show ?thesis
    by (auto simp: handleAuth_def Let_def write_defs sess_le_emit split: if_splits
        intro: sess_le_intros authenticate_le handleAuthPlain_le handleAuthLogin_le)
qed

lemma handleTransaction_same_input:
  assumes "handleTransaction C cmd arg1 arg2 argc s sv = (s', sv')"
  shows "sess_le s' s"
proof -
  have "sess_le (fst (handleQUIT M m s sv)) s" for M :: "'a mailbox_iface" and m
    by (auto simp: handleQUIT_def releaseMaildropLock_def write_defs
        split: prod.splits option.splits intro!: sess_le_intros)
  moreover have "sess_le (handleLIST M m arg1 argc s) s" "sess_le (handleUIDL M m arg1 argc s) s"
    "sess_le (handleRETR M m arg1 argc s) s" "sess_le (handleDELE M m arg1 argc s) s"
    "sess_le (handleTOP M m arg1 arg2 argc s) s" for M :: "'a mailbox_iface" and m
    by (auto simp: handleLIST_def handleUIDL_def handleRETR_def handleDELE_def handleTOP_def
        write_defs split: prod.splits option.splits sum.splits intro!: sess_le_same_input)
  ultimately show ?thesis
    using assms
    by (auto simp: handleTransaction_def Let_def write_defs sess_le_emit
        split: option.splits prod.splits if_splits intro: sess_le_same_input)
      (metis fst_conv)+
qed

lemma handleCommand_le:
  assumes "handleCommand C clock line s sv = (s', sv')"
  shows "sess_le s' s"
  using assms
  by (auto simp: handleCommand_def write_defs sess_le_emit
      split: prod.splits if_splits sess_state.splits
      intro: handleAuth_le handleTransaction_same_input)

lemma command_decreases:
  assumes r: "sess_readLine s = (LineOk line, s1)" and h: "handleCommand C clock line s1 sv = (s2, sv2)"
  shows "(ss_tlsActive s2 \<and> \<not> ss_tlsActive s) \<or>
    (ss_tlsActive s2 = ss_tlsActive s \<and> length (pending_input s2) < length (pending_input s))"
proof -
  have "ss_tlsActive s1 = ss_tlsActive s"
    using r by (auto simp: sess_readLine_def split: prod.splits)
  with sess_readLine_progress [OF r] handleCommand_le [OF h] show ?thesis
    by (auto simp: sess_le_def)
qed

text \<open>
  The loop of \<open>handleConn\<close>. \<open>down n\<close> says whether the server is shutting down after the n-th
  line, \<open>clock n\<close> what its command reads from the clock. It ends for every input: each command
  consumes a line, and the only command that brings new input, STLS, succeeds at most once.
\<close>

function handleConn_loop ::
    "'m pop3_config \<Rightarrow> (nat \<Rightarrow> bool) \<Rightarrow> (nat \<Rightarrow> int \<times> int) \<Rightarrow> nat \<Rightarrow>
     'm session \<Rightarrow> pop3_server \<Rightarrow> 'm session \<times> pop3_server" where
  "handleConn_loop C down clock n s sv =
     (case sess_readLine s of
        (LineOk line, s1) \<Rightarrow>
          if down n then (s1, sv)
          else (case handleCommand C (clock n) line s1 sv of
                  (s2, sv2) \<Rightarrow> if ss_panicked s2 then (s2, sv2)
                              else handleConn_loop C down clock (Suc n) s2 sv2)
      | (LineTooLong, s1) \<Rightarrow> (writeERR ''line too long'' s1, sv)
      | (LineReadErr, s1) \<Rightarrow> (s1, sv))"
  by pat_completeness auto
termination
  by (relation "inv_image (less_than <*lex*> less_than)
    (\<lambda>(C, down, clock, n, s, sv). (if ss_tlsActive s then 0 else 1 :: nat, length (pending_input s)))")
    (auto dest!: command_decreases [OF sym sym] split: prod.splits)

declare handleConn_loop.simps [simp del]

definition handleConn ::
    "'m pop3_config \<Rightarrow> (nat \<Rightarrow> bool) \<Rightarrow> (nat \<Rightarrow> int \<times> int) \<Rightarrow> string \<Rightarrow> bool \<Rightarrow> string list \<Rightarrow>
     pop3_server \<Rightarrow> 'm session \<times> pop3_server" where
  "handleConn C down clock ip isTLS net sv =
     (case handleConn_loop C down clock 0 (greet C (newSession ip isTLS net)) sv of
        (s, sv) \<Rightarrow> (case releaseMaildropLock s sv of (s, sv) \<Rightarrow> (closeConn s, sv)))"

section \<open>What a command does to the lock\<close>

text \<open>The specification: a key is held by at most one holder at a time.\<close>

fun held :: "release_fn \<Rightarrow> string set" where
  "held (ReleaseKey k) = {k}"
| "held _ = {}"

inductive lock_step :: "release_fn \<times> string set \<Rightarrow> release_fn \<times> string set \<Rightarrow> bool" where
  stutter: "lock_step (r, L) (r, L)"
| acquire: "k \<notin> L \<Longrightarrow> lock_step (NoRelease, L) (ReleaseKey k, insert k L)"
| acquire_anonymous: "lock_step (NoRelease, L) (ReleaseNothing, L)"
| release: "lock_step (r, L) (NoRelease, L - held r)"

inductive_cases lock_stepE: "lock_step (r, L) (r', L')"

definition lock_view :: "'m session \<Rightarrow> pop3_server \<Rightarrow> release_fn \<times> string set" where
  "lock_view s sv = (ss_release s, sv_maildrops sv)"

text \<open>The control part of a session: well-formed, and an open session in the transaction state
  holds the lock of its mailbox.\<close>

definition maildrop_release :: "'m mailbox_iface \<Rightarrow> 'm \<Rightarrow> string \<Rightarrow> release_fn" where
  "maildrop_release M m user =
     (let k = normalizeMaildropLockKey (mailboxLockKey M m user) in
      if k = [] then ReleaseNothing else ReleaseKey k)"

definition sess_wf :: "'m mailbox_iface \<Rightarrow> 'm session \<Rightarrow> bool" where
  "sess_wf M s \<longleftrightarrow> \<not> ss_panicked s \<and>
     (ss_state s = stateAuthorization \<longrightarrow> ss_mailbox s = None \<and> ss_release s = NoRelease) \<and>
     (ss_state s = stateTransaction \<longrightarrow>
        (\<exists>m. ss_mailbox s = Some m \<and>
           (\<not> ss_closed s \<longrightarrow> ss_release s = maildrop_release M m (ss_user s))))"

definition sess_step_ok :: "'m mailbox_iface \<Rightarrow> 'm session \<times> pop3_server \<Rightarrow>
    'm session \<times> pop3_server \<Rightarrow> bool" where
  "sess_step_ok M x y \<longleftrightarrow> sess_wf M (fst y) \<and>
     lock_step (lock_view (fst x) (snd x)) (lock_view (fst y) (snd y))"

lemma sess_wf_emit [simp]: "sess_wf M (emit x s) = sess_wf M s"
  by (simp add: sess_wf_def)

lemma closeConn_fields [simp]:
  "ss_state (closeConn s) = ss_state s" "ss_mailbox (closeConn s) = ss_mailbox s"
  "ss_user (closeConn s) = ss_user s" "ss_release (closeConn s) = ss_release s"
  "ss_closed (closeConn s)" "ss_panicked (closeConn s) = ss_panicked s"
  by (simp_all add: closeConn_def)

lemma sess_wf_closeConn: "sess_wf M s \<Longrightarrow> sess_wf M (closeConn s)"
  by (auto simp: sess_wf_def split: sess_state.splits)

lemma lock_view_emit [simp]: "lock_view (emit x s) sv = lock_view s sv"
  by (simp add: lock_view_def)

lemma lock_view_closeConn [simp]: "lock_view (closeConn s) sv = lock_view s sv"
  by (simp add: lock_view_def)

lemma sess_readLine_ctl:
  assumes "sess_readLine s = (r, s1)"
  shows "ss_state s1 = ss_state s" "sess_wf M s1 = sess_wf M s" "lock_view s1 sv = lock_view s sv"
    "ss_closed s1 = ss_closed s"
  using assms by (auto simp: sess_readLine_def sess_wf_def lock_view_def split: prod.splits)

lemma sess_step_ok_stutter:
  "sess_wf M s' \<Longrightarrow> lock_view s' sv' = lock_view s sv \<Longrightarrow> sess_step_ok M (s, sv) (s', sv')"
  by (cases "lock_view s sv") (simp add: sess_step_ok_def lock_step.stutter)

lemma acquire_cases:
  assumes "acquireMaildropLock key0 sv = (r, sv')"
  shows "case r of
      None \<Rightarrow> sv' = sv \<and> normalizeMaildropLockKey key0 \<in> sv_maildrops sv
    | Some f \<Rightarrow> lock_step (NoRelease, sv_maildrops sv) (f, sv_maildrops sv') \<and>
        f = (let k = normalizeMaildropLockKey key0 in if k = [] then ReleaseNothing else ReleaseKey k)"
  using assms
  by (auto simp: acquireMaildropLock_def Let_def split: if_splits
      intro: lock_step.acquire lock_step.acquire_anonymous)

lemma authenticate_step_ok:
  assumes "authenticate C clock user pass s sv = (s', sv')"
    and "sess_wf (cf_Mailbox C) s" and "ss_state s = stateAuthorization"
  shows "sess_step_ok (cf_Mailbox C) (s, sv) (s', sv')"
proof (cases "cf_Authenticate C")
  case None
  with assms show ?thesis
    by (auto simp: authenticate_def write_defs intro!: sess_step_ok_stutter)
next
  case (Some auth)
  obtain locked tr where tr: "tracker_isLocked (fst clock) (ss_ip s) (getAuthTracker sv) = (locked, tr)"
    by fastforce
  define sv1 where "sv1 = sv\<lparr>sv_authTracker := Some tr\<rparr>"
  have view: "lock_view x (sv1\<lparr>sv_authTracker := t\<rparr>) = lock_view x sv" "lock_view x sv1 = lock_view x sv"
    for x :: "'a session" and t
    by (simp_all add: lock_view_def sv1_def)
  note A = assms(1) [unfolded authenticate_def Some, simplified tr, simplified, folded sv1_def]
  show ?thesis
  proof (cases "locked")
    case True
    with A assms(2) view show ?thesis
      by (auto simp: Let_def write_defs sv1_def intro!: sess_step_ok_stutter)
  next
    case False
    show ?thesis
    proof (cases "auth user pass")
      case (Inl e)
      with A False assms(2) view show ?thesis
        by (auto simp: Let_def write_defs sv1_def intro!: sess_step_ok_stutter)
    next
      case (Inr mb)
      obtain r sv2 where acq:
        "acquireMaildropLock (mailboxLockKey (cf_Mailbox C) mb user) sv1 = (r, sv2)" by fastforce
      note ac = acquire_cases [OF acq]
      have A': "(case acquireMaildropLock (mailboxLockKey (cf_Mailbox C) mb user) sv1 of
            (None, sv) \<Rightarrow> (writeERR ''maildrop already locked'' s, sv)
          | (Some release, sv) \<Rightarrow> (writeOK ''mailbox ready''
              (s\<lparr>ss_mailbox := Some mb, ss_release := release, ss_user := user,
                 ss_state := stateTransaction\<rparr>), sv)) = (s', sv')"
        using assms(1) Some tr False Inr by (simp add: authenticate_def Let_def sv1_def)
      show ?thesis
      proof (cases r)
        case None
        with A' acq ac assms(2) view show ?thesis
          by (auto simp: write_defs intro!: sess_step_ok_stutter)
      next
        case (Some f)
        then have f: "f = maildrop_release (cf_Mailbox C) mb user"
          using ac by (simp add: maildrop_release_def)
        have s': "s' = writeOK ''mailbox ready'' (s\<lparr>ss_mailbox := Some mb, ss_release := f,
            ss_user := user, ss_state := stateTransaction\<rparr>)" "sv' = sv2"
          using A' acq Some by auto
        have "lock_view s sv = (NoRelease, sv_maildrops sv1)"
          using assms(2,3) by (simp add: lock_view_def sess_wf_def sv1_def)
        with s' ac Some f assms(2,3) show ?thesis
          by (auto simp: sess_step_ok_def sess_wf_def write_defs lock_view_def)
      qed
    qed
  qed
qed

lemma authPlainEncoded_step_ok:
  assumes "authPlainEncoded C clock enc s sv = (s', sv')"
    and "sess_wf (cf_Mailbox C) s" and "ss_state s = stateAuthorization"
  shows "sess_step_ok (cf_Mailbox C) (s, sv) (s', sv')"
  using assms
  by (auto simp: authPlainEncoded_def write_defs split: option.splits prod.splits
      intro: authenticate_step_ok sess_step_ok_stutter)

text \<open>Reading a continuation line changes nothing of the control part.\<close>

lemma sess_step_ok_via:
  assumes "sess_step_ok M (s1, sv) y" and "lock_view s1 sv = lock_view s sv"
  shows "sess_step_ok M (s, sv) y"
  using assms by (simp add: sess_step_ok_def)

lemma sasl_readErr_step_ok:
  "sess_wf M s1 \<Longrightarrow> lock_view s1 sv = lock_view s sv \<Longrightarrow>
   sess_step_ok M (s, sv) (sasl_readErr r s1, sv)"
  by (auto simp: sasl_readErr_def write_defs intro!: sess_step_ok_stutter sess_wf_closeConn)

lemma sess_readLine_emit_ctl:
  assumes "sess_readLine (emit x s) = (r, s1)"
  shows "ss_state s1 = ss_state s" "sess_wf M s1 = sess_wf M s" "lock_view s1 sv = lock_view s sv"
    "ss_closed s1 = ss_closed s"
  using sess_readLine_ctl [OF assms] by simp_all

lemma handleAuthPlain_step_ok:
  assumes h: "handleAuthPlain C clock arg2 argc s sv = (s', sv')"
    and wf: "sess_wf (cf_Mailbox C) s" and st: "ss_state s = stateAuthorization"
  shows "sess_step_ok (cf_Mailbox C) (s, sv) (s', sv')"
proof (cases "argc < 2")
  case False
  with assms show ?thesis
    by (auto simp: handleAuthPlain_def write_defs split: if_splits
        intro: authPlainEncoded_step_ok sess_step_ok_stutter)
next
  case True
  obtain r s1 where rl: "sess_readLine (writeLine ''+ '' s) = (r, s1)" by fastforce
  note ctl = sess_readLine_emit_ctl [OF rl [unfolded writeLine_def]]
  from True h rl ctl wf st have "sess_step_ok (cf_Mailbox C) (s1, sv) (s', sv')"
    by (auto simp: handleAuthPlain_def write_defs
        split: line_result.splits if_splits
        intro: authPlainEncoded_step_ok sess_step_ok_stutter sasl_readErr_step_ok)
  then show ?thesis using ctl(3) by (rule sess_step_ok_via)
qed

lemma handleAuthLogin_step_ok:
  assumes h: "handleAuthLogin C clock argc s sv = (s', sv')"
    and wf: "sess_wf (cf_Mailbox C) s" and st: "ss_state s = stateAuthorization"
  shows "sess_step_ok (cf_Mailbox C) (s, sv) (s', sv')"
proof (cases "argc = 1")
  case False
  with assms show ?thesis
    by (auto simp: handleAuthLogin_def write_defs intro: sess_step_ok_stutter)
next
  case True
  define user_prompt :: string where "user_prompt = ''+ '' @ b64_StdEncode ''Username:''"
  define pass_prompt :: string where "pass_prompt = ''+ '' @ b64_StdEncode ''Password:''"
  obtain r s1 where rl: "sess_readLine (writeLine user_prompt s) = (r, s1)" by fastforce
  note c1 = sess_readLine_emit_ctl [OF rl [unfolded writeLine_def]]
  obtain r2 s2 where rl2: "sess_readLine (writeLine pass_prompt s1) = (r2, s2)" by fastforce
  note c2 = sess_readLine_emit_ctl [OF rl2 [unfolded writeLine_def]]
  have "sess_step_ok (cf_Mailbox C) (s1, sv) (s', sv') \<or> sess_step_ok (cf_Mailbox C) (s2, sv) (s', sv')"
    using True h c1 c2 wf st
    unfolding handleAuthLogin_def user_prompt_def [symmetric] pass_prompt_def [symmetric] rl
    by (auto simp: writeERR_def writeStatusLine_def rl2
        split: line_result.splits if_splits option.splits
        intro: authenticate_step_ok sess_step_ok_stutter sasl_readErr_step_ok)
  with c1(3) c2(3) show ?thesis by (metis sess_step_ok_via)
qed

lemma handleSTLS_step_ok:
  assumes "sess_wf M s" and "ss_state s = stateAuthorization"
  shows "sess_step_ok M (s, sv) (handleSTLS C s, sv)"
  using assms
  by (auto simp: handleSTLS_def Let_def write_defs sess_wf_def lock_view_def split: option.splits
      intro!: sess_step_ok_stutter)

lemma handleAuth_step_ok:
  assumes "handleAuth C clock cmd arg1 arg2 argc s sv = (s', sv')"
    and wf: "sess_wf (cf_Mailbox C) s" and st: "ss_state s = stateAuthorization"
  shows "sess_step_ok (cf_Mailbox C) (s, sv) (s', sv')"
proof -
  have user: "sess_wf (cf_Mailbox C) (s\<lparr>ss_user := u\<rparr>)" for u
    using wf st by (simp add: sess_wf_def)
  have view: "lock_view (s\<lparr>ss_user := u\<rparr>) sv = lock_view s sv" for u
    by (simp add: lock_view_def)
  moreover have "sess_step_ok (cf_Mailbox C) (s, sv) (closeConn (emit x s), sv)" for x
    using wf by (simp add: sess_step_ok_stutter sess_wf_closeConn)
  ultimately show ?thesis using assms user
    by (auto simp: handleAuth_def Let_def write_defs split: if_splits
        intro: authenticate_step_ok handleAuthPlain_step_ok handleAuthLogin_step_ok
          handleSTLS_step_ok sess_step_ok_stutter)
qed

context keyed_maildrop
begin

lemma maildrop_release_key: "key m' = key m \<Longrightarrow> maildrop_release M m' u = maildrop_release M m u"
  by (simp add: maildrop_release_def mailboxLockKey_def key_iface)

lemma messageContent_key: "messageContent M m i = (r, m') \<Longrightarrow> key m' = key m"
  using content_key [of m i] content_err_key [of _ m i]
  by (auto simp: messageContent_def split: option.splits prod.splits)

lemma sess_wf_mailbox:
  assumes "sess_wf M s" and "ss_mailbox s = Some m" and "key m' = key m"
  shows "sess_wf M (s\<lparr>ss_mailbox := Some m'\<rparr>)"
proof (cases "ss_state s")
  case stateAuthorization
  with assms show ?thesis by (simp add: sess_wf_def)
next
  case stateTransaction
  with assms maildrop_release_key [OF assms(3)] show ?thesis by (simp add: sess_wf_def)
qed

lemma transaction_writers_ok:
  assumes wf: "sess_wf M s" and m: "ss_mailbox s = Some m"
  shows "sess_step_ok M (s, sv) (handleLIST M m arg1 argc s, sv)"
    and "sess_step_ok M (s, sv) (handleUIDL M m arg1 argc s, sv)"
    and "sess_step_ok M (s, sv) (handleRETR M m arg1 argc s, sv)"
    and "sess_step_ok M (s, sv) (handleTOP M m arg1 arg2 argc s, sv)"
    and "sess_step_ok M (s, sv) (handleDELE M m arg1 argc s, sv)"
proof -
  have view: "lock_view (s\<lparr>ss_mailbox := m'\<rparr>) sv = lock_view s sv" for m'
    by (simp add: lock_view_def)
  note upd = sess_wf_mailbox [OF wf m]
  show "sess_step_ok M (s, sv) (handleLIST M m arg1 argc s, sv)"
    and "sess_step_ok M (s, sv) (handleUIDL M m arg1 argc s, sv)"
    by (auto simp: handleLIST_def handleUIDL_def write_defs wf split: option.splits
        intro!: sess_step_ok_stutter)
  show "sess_step_ok M (s, sv) (handleRETR M m arg1 argc s, sv)"
    and "sess_step_ok M (s, sv) (handleTOP M m arg1 arg2 argc s, sv)"
    by (auto simp: handleRETR_def handleTOP_def write_defs wf view
        split: option.splits prod.splits sum.splits
        intro!: sess_step_ok_stutter upd dest: messageContent_key)
  show "sess_step_ok M (s, sv) (handleDELE M m arg1 argc s, sv)"
    using mark_key [of m]
    by (auto simp: handleDELE_def write_defs wf view split: option.splits prod.splits
        intro!: sess_step_ok_stutter upd) (metis snd_conv)+
qed

lemma handleQUIT_ok:
  assumes wf: "sess_wf M s" and m: "ss_mailbox s = Some m" and st: "ss_state s = stateTransaction"
    and h: "handleQUIT M m s sv = (s', sv')"
  shows "sess_step_ok M (s, sv) (s', sv')"
proof -
  obtain r m' where c: "(case CommitDeletes M of
      Some commit \<Rightarrow> if hasDeletedMessages M m then commit m else (None, m)
    | None \<Rightarrow> (None, m)) = (r, m')" by fastforce
  then have k: "key m' = key m"
    using commit_key [of _ m] by (auto split: option.splits if_splits)
  show ?thesis
  proof (cases r)
    case None
    define L' where "L' = sv_maildrops sv - held (ss_release s)"
    from None h c have s': "s' = closeConn ((writeOK ''bye'' (s\<lparr>ss_mailbox := Some m'\<rparr>))\<lparr>ss_release := NoRelease\<rparr>)"
      and L: "sv_maildrops sv' = L'"
      by (auto simp: handleQUIT_def releaseMaildropLock_def write_defs L'_def
          split: release_fn.splits)
    have "lock_step (lock_view s sv) (NoRelease, L')"
      unfolding lock_view_def L'_def by (rule lock_step.release)
    with s' L wf st show ?thesis
      by (simp add: sess_step_ok_def sess_wf_def lock_view_def write_defs)
  next
    case (Some e)
    have "lock_view (s\<lparr>ss_mailbox := x\<rparr>) sv = lock_view s sv" for x
      by (simp add: lock_view_def)
    with Some h c k sess_wf_mailbox [OF wf m, of "ResetDeleted M m'"] show ?thesis
      by (auto simp: handleQUIT_def write_defs reset_key intro!: sess_step_ok_stutter)
  qed
qed

lemma handleTransaction_ok:
  assumes wf: "sess_wf (cf_Mailbox C) s" and st: "ss_state s = stateTransaction"
    and C: "cf_Mailbox C = M"
    and h: "handleTransaction C cmd arg1 arg2 argc s sv = (s', sv')"
  shows "sess_step_ok M (s, sv) (s', sv')"
proof -
  from wf st C obtain m where m: "ss_mailbox s = Some m" and wf': "sess_wf M s"
    by (auto simp: sess_wf_def)
  have "lock_view (s\<lparr>ss_mailbox := x\<rparr>) sv = lock_view s sv" for x
    by (simp add: lock_view_def)
  moreover have "sess_wf M (s\<lparr>ss_mailbox := Some (ResetDeleted M m)\<rparr>)"
    using sess_wf_mailbox [OF wf' m] by (simp add: reset_key)
  ultimately show ?thesis
    using h m C wf' transaction_writers_ok [OF wf' m, of sv] handleQUIT_ok [OF wf' m st]
    by (auto simp: handleTransaction_def Let_def write_defs split: prod.splits if_splits
        intro: sess_step_ok_stutter)
qed

lemma handleCommand_ok:
  assumes "handleCommand C clock line s sv = (s', sv')"
    and "sess_wf M s" and "cf_Mailbox C = M"
  shows "sess_step_ok M (s, sv) (s', sv')"
  using assms handleAuth_step_ok [of C clock _ _ _ _ s sv s' sv'] handleTransaction_ok [of C s]
  by (auto simp: handleCommand_def write_defs split: prod.splits if_splits sess_state.splits
      intro: sess_step_ok_stutter)

end

section \<open>Many connections\<close>

text \<open>
  One goroutine per connection. The only state they share is guarded by the server's mutex,
  and a command takes the maildrop lock at most once and gives it back at most once, so the
  interleavings of the goroutines are covered by interleavings of commands. \<open>hangup\<close> is the
  deferred release, after any command.
\<close>

record 'm pop3_system =
  sy_server :: pop3_server
  sy_sessions :: "nat \<rightharpoonup> 'm session"

inductive pop3_step :: "'m pop3_config \<Rightarrow> 'm pop3_system \<Rightarrow> 'm pop3_system \<Rightarrow> bool"
  for C :: "'m pop3_config" where
  accept: "sy_sessions y i = None \<Longrightarrow>
    pop3_step C y (y\<lparr>sy_sessions := (sy_sessions y)(i \<mapsto> greet C (newSession ip isTLS net))\<rparr>)"
| command: "sy_sessions y i = Some s \<Longrightarrow> sess_readLine s = (LineOk line, s1) \<Longrightarrow>
    handleCommand C clock line s1 (sy_server y) = (s2, sv2) \<Longrightarrow>
    pop3_step C y \<lparr>sy_server = sv2, sy_sessions = (sy_sessions y)(i \<mapsto> s2)\<rparr>"
| hangup: "sy_sessions y i = Some s \<Longrightarrow> releaseMaildropLock s (sy_server y) = (s1, sv1) \<Longrightarrow>
    pop3_step C y \<lparr>sy_server = sv1, sy_sessions = (sy_sessions y)(i := None)\<rparr>"

definition pop3_initial :: "'m pop3_system" where
  "pop3_initial =
     \<lparr>sy_server = \<lparr>sv_maildrops = {}, sv_authTracker = None\<rparr>, sy_sessions = Map.empty\<rparr>"

definition pop3_reachable :: "'m pop3_config \<Rightarrow> 'm pop3_system \<Rightarrow> bool" where
  "pop3_reachable C y \<longleftrightarrow> (pop3_step C)\<^sup>*\<^sup>* pop3_initial y"

definition holds :: "'m pop3_system \<Rightarrow> nat \<Rightarrow> string \<Rightarrow> bool" where
  "holds y i k \<longleftrightarrow> (\<exists>s. sy_sessions y i = Some s \<and> k \<in> held (ss_release s))"

definition pop3_inv :: "'m pop3_config \<Rightarrow> 'm pop3_system \<Rightarrow> bool" where
  "pop3_inv C y \<longleftrightarrow>
     (\<forall>i s. sy_sessions y i = Some s \<longrightarrow> sess_wf (cf_Mailbox C) s) \<and>
     (\<forall>k. k \<in> sv_maildrops (sy_server y) \<longleftrightarrow> (\<exists>i. holds y i k)) \<and>
     (\<forall>i j k. holds y i k \<longrightarrow> holds y j k \<longrightarrow> i = j)"

lemma held_one: "k \<in> held r \<Longrightarrow> k' \<in> held r \<Longrightarrow> k = k'"
  by (cases r) auto

text \<open>Replacing the session \<open>i\<close> by the result of a lock step keeps the locks and the
  holders in correspondence.\<close>

lemma holders_after_step:
  assumes keys: "\<And>k. k \<in> L \<longleftrightarrow> (\<exists>i. k \<in> H i)"
    and one: "\<And>i j k. k \<in> H i \<Longrightarrow> k \<in> H j \<Longrightarrow> i = j"
    and Hi: "H i = held r" and step: "lock_step (r, L) (r', L')"
  shows "(\<forall>k. k \<in> L' \<longleftrightarrow> (\<exists>j. k \<in> (H(i := held r')) j)) \<and>
    (\<forall>a b k. k \<in> (H(i := held r')) a \<longrightarrow> k \<in> (H(i := held r')) b \<longrightarrow> a = b)"
proof -
  consider (same) "held r' = H i" "L' = L"
    | (acq) k where "H i = {}" "k \<notin> L" "held r' = {k}" "L' = insert k L"
    | (rel) "held r' = {}" "L' = L - H i"
    using step Hi by (cases rule: lock_stepE) auto
  then show ?thesis
  proof cases
    case same
    then have "H(i := held r') = H" by (intro fun_upd_idem) simp
    with same show ?thesis using keys one by (simp only:) blast
  next
    case (acq k)
    have new: "x \<in> (H(i := held r')) j \<longleftrightarrow> (if j = i then x = k else x \<in> H j)" for x j
      using acq by simp
    have free: "k \<notin> H j" for j using acq keys by blast
    show ?thesis
      unfolding new unfolding acq(4) using keys one acq(1) free by (metis empty_iff insert_iff)
  next
    case rel
    have new: "x \<in> (H(i := held r')) j \<longleftrightarrow> j \<noteq> i \<and> x \<in> H j" for x j
      using rel by simp
    show ?thesis
      unfolding new unfolding rel(2) using keys one by (metis Diff_iff)
  qed
qed

lemma lock_step_release:
  "releaseMaildropLock s sv = (s', sv') \<Longrightarrow> lock_step (lock_view s sv) (NoRelease, sv_maildrops sv')"
  using lock_step.release [of "ss_release s" "sv_maildrops sv"]
  by (auto simp: releaseMaildropLock_def lock_view_def split: release_fn.splits)

lemma sess_wf_new: "sess_wf M (greet C (newSession ip isTLS net))"
  by (simp add: greet_def writeLine_def newSession_def sess_wf_def)

lemma release_new [simp]: "ss_release (greet C (newSession ip isTLS net)) = NoRelease"
  by (simp add: greet_def writeLine_def newSession_def)

definition holds_fun :: "'m pop3_system \<Rightarrow> nat \<Rightarrow> string set" where
  "holds_fun y i = (case sy_sessions y i of None \<Rightarrow> {} | Some s \<Rightarrow> held (ss_release s))"

lemma holds_iff: "holds y i k \<longleftrightarrow> k \<in> holds_fun y i"
  by (simp add: holds_def holds_fun_def split: option.splits)

lemma pop3_inv_update:
  assumes inv: "pop3_inv C y"
    and step: "lock_step (r, sv_maildrops (sy_server y)) (r', L')"
    and r: "holds_fun y i = held r"
    and new: "sv_maildrops sv' = L'" "ss' i = s'" "\<And>j. j \<noteq> i \<Longrightarrow> ss' j = sy_sessions y j"
    and s': "case s' of None \<Rightarrow> held r' = {}
      | Some s \<Rightarrow> sess_wf (cf_Mailbox C) s \<and> ss_release s = r'"
  shows "pop3_inv C \<lparr>sy_server = sv', sy_sessions = ss'\<rparr>"
proof -
  let ?y' = "\<lparr>sy_server = sv', sy_sessions = ss'\<rparr>"
  have H: "holds_fun ?y' = (holds_fun y)(i := held r')"
    using new s' by (auto simp: holds_fun_def fun_eq_iff split: option.splits)
  have keys: "\<And>k. k \<in> sv_maildrops (sy_server y) \<longleftrightarrow> (\<exists>i. k \<in> holds_fun y i)"
    and one: "\<And>i j k. k \<in> holds_fun y i \<Longrightarrow> k \<in> holds_fun y j \<Longrightarrow> i = j"
    using inv by (simp_all add: pop3_inv_def holds_iff)
  note A = holders_after_step [where H = "holds_fun y" and i = i, OF keys one r step,
      folded H, folded new(1)]
  have "sess_wf (cf_Mailbox C) s" if "ss' j = Some s" for j s
    using that new s' inv by (cases "j = i") (auto simp: pop3_inv_def)
  then show ?thesis
    unfolding pop3_inv_def holds_iff using A by simp
qed

context keyed_maildrop
begin

lemma pop3_step_inv:
  assumes step: "pop3_step C y y'" and inv: "pop3_inv C y" and C: "cf_Mailbox C = M"
  shows "pop3_inv C y'"
  using step
proof cases
  case (accept i ip isTLS net)
  have "pop3_inv C \<lparr>sy_server = sy_server y,
      sy_sessions = (sy_sessions y)(i \<mapsto> greet C (newSession ip isTLS net))\<rparr>"
    by (rule pop3_inv_update [OF inv lock_step.stutter [of NoRelease], where i = i])
       (use accept in \<open>auto simp: holds_fun_def sess_wf_new\<close>)
  with accept show ?thesis by (cases y) simp
next
  case (command i s line s1 clock s2 sv2)
  have wf: "sess_wf M s" using inv command C by (auto simp: pop3_inv_def)
  note ctl = sess_readLine_ctl [OF command(3)]
  have ok: "sess_step_ok M (s1, sy_server y) (s2, sv2)"
    using handleCommand_ok [OF command(4)] wf ctl C by simp
  then have "lock_step (lock_view s (sy_server y)) (lock_view s2 sv2)" and wf2: "sess_wf M s2"
    using ctl by (auto simp: sess_step_ok_def)
  then have "lock_step (ss_release s, sv_maildrops (sy_server y)) (ss_release s2, sv_maildrops sv2)"
    by (simp add: lock_view_def)
  from pop3_inv_update [OF inv this, where i = i and s' = "Some s2" and sv' = sv2
      and ss' = "(sy_sessions y)(i \<mapsto> s2)"]
  show ?thesis using command wf2 C by (simp add: holds_fun_def)
next
  case (hangup i s s1 sv1)
  have "lock_step (ss_release s, sv_maildrops (sy_server y)) (NoRelease, sv_maildrops sv1)"
    using lock_step_release [OF hangup(3)] by (simp add: lock_view_def)
  from pop3_inv_update [OF inv this, where i = i and s' = None and sv' = sv1
      and ss' = "(sy_sessions y)(i := None)"]
  show ?thesis using hangup by (simp add: holds_fun_def)
qed

lemma pop3_reachable_inv:
  assumes "pop3_reachable C y" and "cf_Mailbox C = M"
  shows "pop3_inv C y"
proof -
  have "pop3_inv C pop3_initial"
    by (simp add: pop3_inv_def pop3_initial_def holds_def)
  with assms(1) show ?thesis
    unfolding pop3_reachable_def
    by (induction rule: rtranclp_induct) (auto intro: pop3_step_inv assms(2))
qed

lemma handleConn_loop_ok:
  assumes "handleConn_loop C down clock n s sv = (s', sv')"
    and "sess_wf M s" and "cf_Mailbox C = M"
  shows "sess_wf M s'"
    and "lock_view s sv = (r, L) \<Longrightarrow> held r \<subseteq> L \<Longrightarrow>
      held (ss_release s') \<subseteq> sv_maildrops sv' \<and>
      sv_maildrops sv' - held (ss_release s') = L - held r"
proof -
  have "sess_wf M s' \<and> (held (ss_release s) \<subseteq> sv_maildrops sv \<longrightarrow>
      held (ss_release s') \<subseteq> sv_maildrops sv' \<and>
      sv_maildrops sv' - held (ss_release s') = sv_maildrops sv - held (ss_release s))"
    using assms
  proof (induction C down clock n s sv rule: handleConn_loop.induct)
    case (1 C down clock n s sv)
    obtain r s1 where rl: "sess_readLine s = (r, s1)" by fastforce
    note ctl = sess_readLine_ctl [OF rl]
    from ctl(3) have view: "ss_release s1 = ss_release s" by (simp add: lock_view_def)
    note eq = "1.prems"(1) [unfolded handleConn_loop.simps [of C down clock n s sv] rl, simplified]
    show ?case
    proof (cases "\<exists>line. r = LineOk line \<and> \<not> down n")
      case False
      with eq "1.prems" ctl view show ?thesis
        by (auto simp: write_defs split: line_result.splits)
    next
      case True
      then obtain line where line: "r = LineOk line" "\<not> down n" by blast
      obtain s2 sv2 where hc: "handleCommand C (clock n) line s1 sv = (s2, sv2)" by fastforce
      have ok: "sess_step_ok M (s1, sv) (s2, sv2)"
        using handleCommand_ok [OF hc] "1.prems" ctl by simp
      then have wf2: "sess_wf M s2" by (simp add: sess_step_ok_def)
      then have np: "\<not> ss_panicked s2" by (simp add: sess_wf_def)
      have loop: "handleConn_loop C down clock (Suc n) s2 sv2 = (s', sv')"
        using eq line hc np by simp
      have "lock_step (ss_release s, sv_maildrops sv) (ss_release s2, sv_maildrops sv2)"
        using ok view by (simp add: sess_step_ok_def lock_view_def)
      then have "held (ss_release s) \<subseteq> sv_maildrops sv \<longrightarrow>
          held (ss_release s2) \<subseteq> sv_maildrops sv2 \<and>
          sv_maildrops sv2 - held (ss_release s2) = sv_maildrops sv - held (ss_release s)"
        by (cases rule: lock_stepE) auto
      with "1.IH" [OF rl [symmetric] line hc [symmetric] np loop wf2
          "1.prems"(3)] show ?thesis by simp
    qed
  qed
  then show "sess_wf M s'" and "lock_view s sv = (r, L) \<Longrightarrow> held r \<subseteq> L \<Longrightarrow>
      held (ss_release s') \<subseteq> sv_maildrops sv' \<and>
      sv_maildrops sv' - held (ss_release s') = L - held r"
    by (auto simp: lock_view_def)
qed

end

section \<open>The count and the size of a maildrop\<close>

lemma live_indices_filter: "live_indices M m = filter (\<lambda>i. \<not> Deleted M m i) (msg_indices M m)"
  by (simp add: live_indices_def msg_indices_def)

lemma count_and_size_fold:
  "foldl (\<lambda>(count, sz) i. if \<not> D i then (count + 1, wrap64 (sz + f i)) else (count, sz))
     (c, wrap64 z) xs
   = (c + int (length (filter (\<lambda>i. \<not> D i) xs)),
      wrap64 (z + sum_list (map f (filter (\<lambda>i. \<not> D i) xs))))"
proof (induction xs arbitrary: c z)
  case (Cons x xs)
  show ?case
    using Cons [of "c + 1" "z + f x"] Cons [of c z]
    by (simp add: wrap64_add_left algebra_simps)
qed simp

lemma msgCountAndSize_live:
  "msgCountAndSize M m =
     (int (length (live_indices M m)), wrap64 (sum_list (map (MessageSize M m) (live_indices M m))))"
  using count_and_size_fold [of "Deleted M m" "MessageSize M m" 0 0 "msg_indices M m"]
  by (simp add: msgCountAndSize_def live_indices_filter)

lemma sum_list_filter_neq:
  "distinct xs \<Longrightarrow> x \<in> set xs \<Longrightarrow>
   sum_list (map f (filter (\<lambda>y. y \<noteq> x) xs)) = sum_list (map f xs) - (f x :: int)"
proof (induction xs)
  case (Cons a xs)
  have "filter (\<lambda>y. y \<noteq> x) xs = xs" if "x \<notin> set xs"
    using that by (intro filter_True) auto
  with Cons show ?case by (cases "a = x") auto
qed simp

lemma live_indices_distinct: "distinct (live_indices M m)"
  by (simp add: live_indices_def distinct_map)

lemma msg_arg_live:
  assumes "msg_arg M m arg = Some idx"
  shows "idx - 1 \<in> set (live_indices M m)" "in_range M m (idx - 1)" "\<not> Deleted M m (idx - 1)"
proof -
  from assms have r: "1 \<le> idx" "idx \<le> MessageCount M m" and d: "\<not> Deleted M m (idx - 1)"
    by (auto simp: msg_arg_def split: option.splits if_splits)
  then have "idx - 1 = int (nat (idx - 1))" and "nat (idx - 1) < nat (MessageCount M m)"
    by linarith+
  then have "idx - 1 \<in> int ` {..<nat (MessageCount M m)}" by blast
  with d show "idx - 1 \<in> set (live_indices M m)" "\<not> Deleted M m (idx - 1)"
    by (simp_all add: live_indices_def atLeast0LessThan)
  show "in_range M m (idx - 1)" using r by (simp add: in_range_def)
qed

section \<open>The tracker keeps what matters of the history of failures\<close>

datatype tracker_event = Fail string int | Check string int

fun event_time :: "tracker_event \<Rightarrow> int" where
  "event_time (Fail _ t) = t"
| "event_time (Check _ t) = t"

fun tracker_apply :: "tracker_event \<Rightarrow> pop3AuthFailureTracker \<Rightarrow> pop3AuthFailureTracker" where
  "tracker_apply (Fail ip t) tr = snd (tracker_record t ip tr)"
| "tracker_apply (Check ip t) tr = snd (tracker_isLocked t ip tr)"

text \<open>Every failure of an address, never forgotten.\<close>

definition failures_of :: "string \<Rightarrow> tracker_event list \<Rightarrow> int list" where
  "failures_of ip es =
     concat (map (\<lambda>e. case e of Fail ip' t \<Rightarrow> if ip' = ip then [t] else [] | Check _ _ \<Rightarrow> []) es)"

abbreviation recent :: "int \<Rightarrow> int list \<Rightarrow> int list" where
  "recent now ts \<equiv> filter (\<lambda>t. now - 600000000000 < t) ts"

definition tracks :: "pop3AuthFailureTracker \<Rightarrow> tracker_event list \<Rightarrow> int \<Rightarrow> bool" where
  "tracks tr es T \<longleftrightarrow> tr_window tr = 600000000000 \<and> tr_maxFails tr = 10 \<and>
     (\<forall>ip now. T \<le> now \<longrightarrow> recent now (tracker_get tr ip) = recent now (failures_of ip es))"

lemma tracksD:
  "tracks tr es T \<Longrightarrow> T \<le> now \<Longrightarrow> recent now (tracker_get tr ip) = recent now (failures_of ip es)"
  by (simp only: tracks_def)

lemma tracker_record_eq:
  "snd (tracker_record t ip tr) = tr\<lparr>tr_failures := (tr_failures tr)
     (ip \<mapsto> filter (\<lambda>ts. t - tr_window tr < ts) (tracker_get tr ip) @ [t])\<rparr>"
  by (auto simp: tracker_record_def Let_def length_Suc_conv)

lemma tracks_mono: "tracks tr es T \<Longrightarrow> T \<le> T' \<Longrightarrow> tracks tr es T'"
  by (auto simp: tracks_def)

lemma recent_recent: "t \<le> now \<Longrightarrow> recent now (recent t xs) = recent now xs"
  by (auto simp: filter_filter intro: filter_cong)

lemma tracks_step:
  assumes tr: "tracks tr es T" and T: "T \<le> event_time e"
  shows "tracks (tracker_apply e tr) (es @ [e]) (event_time e)"
proof -
  have w: "tr_window tr = 600000000000" "tr_maxFails tr = 10"
    using tr by (simp_all add: tracks_def)
  have "recent now (tracker_get (tracker_apply e tr) i) = recent now (failures_of i (es @ [e]))"
    if now: "event_time e \<le> now" for i now
  proof (cases e)
    case (Fail ip t)
    have "recent now (tracker_get tr i) = recent now (failures_of i es)"
      using tracksD [OF tr order_trans [OF T now]] .
    moreover have "tracker_get (tracker_apply e tr) i =
        (if i = ip then recent t (tracker_get tr ip) @ [t] else tracker_get tr i)"
      by (simp add: Fail tracker_record_eq tracker_get_def w)
    moreover have "failures_of i (es @ [e]) = failures_of i es @ (if i = ip then [t] else [])"
      by (simp add: failures_of_def Fail)
    ultimately show ?thesis
      using now Fail recent_recent [of t now] by (auto simp del: filter_filter)
  next
    case (Check ip t)
    have same: "recent now (tracker_get tr i) = recent now (failures_of i es)"
      using tracksD [OF tr order_trans [OF T now]] .
    have "recent now (tracker_get tr ip) = []" if "recent t (tracker_get tr ip) = []"
      using recent_recent [of t now "tracker_get tr ip"] that now Check by simp
    moreover have "tracker_get (tracker_apply e tr) i =
        (if i = ip \<and> recent t (tracker_get tr ip) = [] then [] else tracker_get tr i)"
      by (simp add: Check tracker_isLocked_def Let_def w tracker_get_def)
    moreover have "failures_of i (es @ [e]) = failures_of i es"
      by (simp add: failures_of_def Check)
    ultimately show ?thesis using same by auto
  qed
  moreover have "tr_window (tracker_apply e tr) = 600000000000" "tr_maxFails (tracker_apply e tr) = 10"
    using w by (cases e; simp add: tracker_record_eq tracker_isLocked_def Let_def)+
  ultimately show ?thesis unfolding tracks_def by blast
qed

lemma tracks_run:
  assumes "sorted (map event_time es)" and "\<forall>e\<in>set es. event_time e \<le> T"
  shows "tracks (fold tracker_apply es newPOP3AuthFailureTracker) es T"
  using assms
proof (induction es arbitrary: T rule: rev_induct)
  case Nil
  show ?case
    by (simp add: tracks_def newPOP3AuthFailureTracker_def tracker_get_def failures_of_def)
next
  case (snoc e es)
  have "tracks (fold tracker_apply es newPOP3AuthFailureTracker) es (event_time e)"
    using snoc by (auto simp: sorted_append)
  from tracks_step [OF this order_refl] snoc.prems(2) show ?case
    by (auto intro: tracks_mono)
qed

section \<open>Who gets in\<close>

lemma authenticate_transaction:
  assumes "authenticate C clock user pass s sv = (s', sv')"
    and "ss_state s = stateAuthorization" and "ss_state s' = stateTransaction"
  shows "\<exists>auth m. cf_Authenticate C = Some auth \<and> auth user pass = Inr m \<and> ss_mailbox s' = Some m \<and>
    ss_user s' = user \<and> \<not> fst (tracker_isLocked (fst clock) (ss_ip s) (getAuthTracker sv))"
  using assms
  by (auto simp: authenticate_def Let_def write_defs
      split: option.splits prod.splits sum.splits if_splits)

definition let_in :: "'m pop3_config \<Rightarrow> int \<Rightarrow> string \<Rightarrow> pop3_server \<Rightarrow> 'm session \<Rightarrow> bool" where
  "let_in C now ip sv s' \<longleftrightarrow>
     (\<exists>auth pass m. cf_Authenticate C = Some auth \<and> auth (ss_user s') pass = Inr m \<and>
        ss_mailbox s' = Some m) \<and>
     \<not> fst (tracker_isLocked now ip (getAuthTracker sv))"

lemma authenticate_let_in:
  assumes "authenticate C clock user pass s sv = (s', sv')"
    and "ss_state s = stateAuthorization" and "ss_state s' = stateTransaction"
  shows "let_in C (fst clock) (ss_ip s) sv s'"
  using authenticate_transaction [OF assms] by (auto simp: let_in_def)

lemma sess_readLine_ip: "sess_readLine s = (r, s1) \<Longrightarrow> ss_ip s1 = ss_ip s"
  by (auto simp: sess_readLine_def split: prod.splits)

lemma authPlainEncoded_let_in:
  assumes "authPlainEncoded C clock enc s sv = (s', sv')"
    and "ss_state s = stateAuthorization" and "ss_state s' = stateTransaction"
  shows "let_in C (fst clock) (ss_ip s) sv s'"
  using assms
  by (auto simp: authPlainEncoded_def write_defs split: option.splits prod.splits
      intro: authenticate_let_in)

lemma sasl_readErr_state [simp]: "ss_state (sasl_readErr r s) = ss_state s"
  by (simp add: sasl_readErr_def write_defs)

lemma handleAuthPlain_let_in:
  assumes "handleAuthPlain C clock arg2 argc s sv = (s', sv')"
    and "ss_state s = stateAuthorization" and "ss_state s' = stateTransaction"
  shows "let_in C (fst clock) (ss_ip s) sv s'"
proof -
  obtain r s1 where rl: "sess_readLine (writeLine ''+ '' s) = (r, s1)" by fastforce
  have ip: "ss_ip s1 = ss_ip s" "ss_state s1 = ss_state s"
    using sess_readLine_ip [OF rl] sess_readLine_ctl(1) [OF rl] by (simp_all add: writeLine_def)
  from assms rl ip authPlainEncoded_let_in [of C clock _ s1 sv s' sv']
    authPlainEncoded_let_in [of C clock _ s sv s' sv']
  show ?thesis
    by (auto simp: handleAuthPlain_def writeERR_def writeStatusLine_def
        split: line_result.splits if_splits)
qed

lemma handleAuthLogin_let_in:
  assumes "handleAuthLogin C clock argc s sv = (s', sv')"
    and "ss_state s = stateAuthorization" and "ss_state s' = stateTransaction"
  shows "let_in C (fst clock) (ss_ip s) sv s'"
proof -
  define user_prompt :: string where "user_prompt = ''+ '' @ b64_StdEncode ''Username:''"
  define pass_prompt :: string where "pass_prompt = ''+ '' @ b64_StdEncode ''Password:''"
  obtain r s1 where rl: "sess_readLine (writeLine user_prompt s) = (r, s1)" by fastforce
  obtain r2 s2 where rl2: "sess_readLine (writeLine pass_prompt s1) = (r2, s2)" by fastforce
  have ip: "ss_ip s1 = ss_ip s" "ss_state s1 = ss_state s" "ss_ip s2 = ss_ip s" "ss_state s2 = ss_state s"
    using sess_readLine_ip [OF rl] sess_readLine_ctl(1) [OF rl]
      sess_readLine_ip [OF rl2] sess_readLine_ctl(1) [OF rl2] by (simp_all add: writeLine_def)
  from assms rl rl2 ip authenticate_let_in [of C clock _ _ s2 sv s' sv'] show ?thesis
    unfolding handleAuthLogin_def user_prompt_def [symmetric] pass_prompt_def [symmetric] rl
    by (auto simp: writeERR_def writeStatusLine_def
        split: line_result.splits if_splits option.splits)
qed

lemma handleAuth_let_in:
  assumes "handleAuth C clock cmd arg1 arg2 argc s sv = (s', sv')"
    and "ss_state s = stateAuthorization" and "ss_state s' = stateTransaction"
  shows "let_in C (fst clock) (ss_ip s) sv s'"
proof -
  have "ss_state (handleSTLS C s) = stateAuthorization"
    using assms(2)
    by (auto simp: handleSTLS_def write_defs Let_def split: option.splits)
  with assms show ?thesis
    by (auto simp: handleAuth_def Let_def write_defs split: if_splits
        intro: authenticate_let_in handleAuthPlain_let_in handleAuthLogin_let_in)
qed

section \<open>Properties\<close>

text \<open>C13. Maildrop exclusivity: in every state the server can reach, with any number of
  connections in any interleaving, two different open sessions in the transaction state have
  mailboxes with different lock keys (the user id, trimmed and lower-cased).\<close>

theorem maildrop_exclusive:
  assumes "pop3_reachable C y" and "cf_Mailbox C = pop3_adapter_iface S" and "i \<noteq> j"
    and "sy_sessions y i = Some s" "ss_state s = stateTransaction" "\<not> ss_closed s" "ss_mailbox s = Some m"
    and "sy_sessions y j = Some t" "ss_state t = stateTransaction" "\<not> ss_closed t" "ss_mailbox t = Some n"
    and "normalizeMaildropLockKey (mb_userID m) \<noteq> []"
  shows "normalizeMaildropLockKey (mb_userID m) \<noteq> normalizeMaildropLockKey (mb_userID n)"
proof
  assume eq: "normalizeMaildropLockKey (mb_userID m) = normalizeMaildropLockKey (mb_userID n)"
  have inv: "pop3_inv C y"
    using keyed.pop3_reachable_inv [OF assms(1,2)] .
  have key: "maildrop_release (pop3_adapter_iface S) x u = ReleaseKey (normalizeMaildropLockKey (mb_userID x))"
    if "normalizeMaildropLockKey (mb_userID x) \<noteq> []" for x u
    using that by (auto simp: maildrop_release_def mailboxLockKey_def pop3_adapter_iface_def
        mb_MaildropLockKey_def normalizeMaildropLockKey_def Let_def)
  define k where "k = normalizeMaildropLockKey (mb_userID m)"
  have wf: "sess_wf (pop3_adapter_iface S) s" "sess_wf (pop3_adapter_iface S) t"
    using inv assms(2,4,8) by (auto simp: pop3_inv_def)
  have "ss_release s = ReleaseKey k"
    using wf(1) assms(5,6,7,12) key [of m] by (simp add: sess_wf_def k_def)
  moreover have "ss_release t = ReleaseKey k"
    using wf(2) assms(9,10,11,12) eq key [of n] by (simp add: sess_wf_def k_def)
  ultimately have "holds y i k" and "holds y j k"
    using assms(4,8) by (simp_all add: holds_def)
  with inv \<open>i \<noteq> j\<close> show False by (auto simp: pop3_inv_def)
qed

text \<open>No lock outlives its connection: whatever bytes a client sends, and however the server
  started, \<open>handleConn\<close> ends with the connection closed, without a nil dereference, and with the
  set of locked maildrops it began with.\<close>

theorem handleConn_gives_lock_back:
  assumes "cf_Mailbox C = pop3_adapter_iface S"
    and "handleConn C down clock ip isTLS net sv = (s', sv')"
  shows "sv_maildrops sv' = sv_maildrops sv \<and> ss_closed s' \<and> \<not> ss_panicked s' \<and> ss_release s' = NoRelease"
proof -
  let ?s0 = "greet C (newSession ip isTLS net)"
  obtain s1 sv1 where l: "handleConn_loop C down clock 0 ?s0 sv = (s1, sv1)" by fastforce
  have wf: "sess_wf (pop3_adapter_iface S) s1"
    using keyed.handleConn_loop_ok(1) [OF l sess_wf_new assms(1)] .
  have "lock_view ?s0 sv = (NoRelease, sv_maildrops sv)" by (simp add: lock_view_def)
  from keyed.handleConn_loop_ok(2) [OF l sess_wf_new assms(1) this]
  have locks: "sv_maildrops sv = sv_maildrops sv1 - held (ss_release s1)" by simp
  have "s' = closeConn (s1\<lparr>ss_release := NoRelease\<rparr>)"
    and "sv_maildrops sv' = sv_maildrops sv1 - held (ss_release s1)"
    using assms(2) l
    by (auto simp: handleConn_def releaseMaildropLock_def split: release_fn.splits)
  with wf show ?thesis
    unfolding locks by (simp add: sess_wf_def)
qed

text \<open>STLS drops plaintext: after a successful handshake nothing the client sent before it can
  be read, the user name given before it is forgotten, and the session is the same whatever
  was buffered.\<close>

theorem stls_discards_plaintext:
  assumes "canUseSTLS C s" and "cf_Handshake C (ss_net s) = Some net"
  shows "pending_input (handleSTLS C s) = concat net \<and> ss_user (handleSTLS C s) = [] \<and>
    ss_tlsActive (handleSTLS C s) \<and> ss_state (handleSTLS C s) = stateAuthorization \<and>
    handleSTLS C (s\<lparr>ss_rbuf := x, ss_user := u\<rparr>) = handleSTLS C s"
  using assms
  by (simp add: handleSTLS_def canUseSTLS_def pending_input_def write_defs emit_def)

text \<open>A session reaches the transaction state only by a command for which the store
  authenticated the session's user name with some password and returned the session's mailbox,
  while the client's address was not locked out.\<close>

theorem transaction_needs_authentication:
  assumes "handleCommand C clock line s sv = (s', sv')"
    and "ss_state s = stateAuthorization" and "ss_state s' = stateTransaction"
  shows "(\<exists>auth pass m. cf_Authenticate C = Some auth \<and> auth (ss_user s') pass = Inr m \<and>
        ss_mailbox s' = Some m) \<and>
     \<not> fst (tracker_isLocked (fst clock) (ss_ip s) (getAuthTracker sv))"
  using assms handleAuth_let_in [of C clock _ _ _ _ s sv s' sv']
  by (auto simp: handleCommand_def write_defs let_in_def split: prod.splits if_splits)

text \<open>C25. The tracker forgets nothing that matters: after any sequence of failures and checks in
  time order, an address is locked out at a later time exactly if at least ten of all its
  failures lie within the ten minutes before.\<close>

theorem lockout_is_ten_in_ten_minutes:
  assumes "sorted (map event_time es)" and "\<forall>e\<in>set es. event_time e \<le> now"
  shows "fst (tracker_isLocked now ip (fold tracker_apply es newPOP3AuthFailureTracker)) \<longleftrightarrow>
    10 \<le> length (filter (\<lambda>t. now - 600000000000 < t) (failures_of ip es))"
  using tracks_run [OF assms] by (auto simp: tracks_def tracker_isLocked_def Let_def)

text \<open>DELE and STAT: when DELE accepts a message number, the message count STAT reports drops
  by one and the total by that message's size (modulo the wrap-around of a 64-bit int), and
  the number is refused from then on.\<close>

theorem dele_then_stat:
  assumes wf: "mb_wf m" and arg: "msg_arg (pop3_adapter_iface S) m arg = Some idx"
    and m: "ss_mailbox s = Some m"
  shows "\<exists>m'. ss_mailbox (handleDELE (pop3_adapter_iface S) m arg 1 s) = Some m' \<and> mb_wf m' \<and>
    msg_arg (pop3_adapter_iface S) m' arg = None \<and>
    msgCountAndSize (pop3_adapter_iface S) m' =
      (fst (msgCountAndSize (pop3_adapter_iface S) m) - 1,
       wrap64 (snd (msgCountAndSize (pop3_adapter_iface S) m) - mb_MessageSize m (idx - 1)))"
proof -
  let ?M = "pop3_adapter_iface S"
  let ?i = "idx - 1"
  let ?m = "snd (MarkDeleted ?M m ?i)"
  note live = msg_arg_live [OF arg]
  have ok: "MarkDeleted ?M m ?i = (None, ?m)"
    using adapter.mark_ok [OF wf live(2)] by auto
  have box: "ss_mailbox (handleDELE ?M m arg 1 s) = Some ?m"
    using ok by (cases "MarkDeleted ?M m ?i") (simp add: handleDELE_def arg write_defs)
  have ind: "live_indices ?M ?m = filter (\<lambda>j. j \<noteq> ?i) (live_indices ?M m)"
    using adapter.live_after_mark [OF wf live(2)] .
  have count: "length (live_indices ?M ?m) + 1 = length (live_indices ?M m)"
    using adapter.live_count_after_mark [OF wf live(2,3)] .
  have sz: "MessageSize ?M ?m j = MessageSize ?M m j" if "j \<noteq> ?i" "j \<in> set (live_indices ?M m)" for j
  proof -
    have "nat j \<noteq> nat ?i"
      using that live(2) by (auto simp: live_indices_def in_range_def)
    then show ?thesis
      by (simp add: pop3_adapter_iface_def mb_MessageSize_def mb_MarkDeleted_def out_of_range_def)
  qed
  have "sum_list (map (MessageSize ?M ?m) (live_indices ?M ?m)) =
      sum_list (map (MessageSize ?M m) (filter (\<lambda>j. j \<noteq> ?i) (live_indices ?M m)))"
    unfolding ind using sz by (intro arg_cong [where f = sum_list] map_cong) auto
  also have "\<dots> = sum_list (map (MessageSize ?M m) (live_indices ?M m)) - MessageSize ?M m ?i"
    using live(1) live_indices_distinct by (rule sum_list_filter_neq [rotated])
  finally have sum: "sum_list (map (MessageSize ?M ?m) (live_indices ?M ?m)) =
      sum_list (map (MessageSize ?M m) (live_indices ?M m)) - mb_MessageSize m ?i"
    by (simp add: pop3_adapter_iface_def)
  have "Deleted ?M ?m ?i"
    using adapter.mark_deleted [OF wf live(2)] by simp
  then have "msg_arg ?M ?m arg = None"
    using arg by (auto simp: msg_arg_def split: option.splits if_splits)
  moreover have "mb_wf ?m" using adapter.mark_wf [OF wf] .
  ultimately show ?thesis
    using box count sum wrap64_add_left [of _ "- mb_MessageSize m ?i"]
    by (auto simp: msgCountAndSize_live)
qed

section \<open>Concrete runs\<close>

definition demo_mailbox :: "string \<Rightarrow> string list pop3Mailbox" where
  "demo_mailbox u =
     \<lparr>mb_service = [], mb_userID = u,
      mb_msgs = [\<lparr>im_id = ''m1'', im_size = 10\<rparr>, \<lparr>im_id = ''m2'', im_size = 20\<rparr>],
      mb_deleted = [False, False], mb_content = [[], []],
      mb_loaded = [False, False], mb_pending = []\<rparr>"

definition demo_service :: "string list mail_service" where
  "demo_service = \<lparr>FetchRawMessageBody = (\<lambda>_ _ _. Inr ''body''),
     BulkDeleteMessages = (\<lambda>deleted _ ids. Inr (deleted @ ids))\<rparr>"

text \<open>Every user whose password is \<open>pw\<close> is let in.\<close>

definition demo_config :: "string list pop3Mailbox pop3_config" where
  "demo_config =
     \<lparr>cf_Authenticate = Some (\<lambda>user pass. if pass = ''pw'' then Inr (demo_mailbox user) else Inl ''no''),
      cf_Mailbox = pop3_adapter_iface demo_service, cf_TLSConfig = True,
      cf_Handshake = (\<lambda>_. Some [''QUIT'' @ crlf]), cf_Greeting = []\<rparr>"

definition demo_server :: pop3_server where
  "demo_server = \<lparr>sv_maildrops = {}, sv_authTracker = None\<rparr>"

lemma demo_mailbox_wf: "mb_wf (demo_mailbox u)"
  by (auto simp: mb_wf_def demo_mailbox_def nth_Cons' less_Suc_eq)

definition demo_accept :: "nat \<Rightarrow> string \<Rightarrow> 'm pop3_config \<Rightarrow> 'm pop3_system \<Rightarrow> 'm pop3_system option" where
  "demo_accept i input C y =
     (case sy_sessions y i of
        Some _ \<Rightarrow> None
      | None \<Rightarrow> Some (y\<lparr>sy_sessions := (sy_sessions y)(i \<mapsto> greet C (newSession ''ip'' False [input]))\<rparr>))"

definition demo_command :: "nat \<Rightarrow> 'm pop3_config \<Rightarrow> 'm pop3_system \<Rightarrow> 'm pop3_system option" where
  "demo_command i C y =
     (case sy_sessions y i of
        None \<Rightarrow> None
      | Some s \<Rightarrow>
        (case sess_readLine s of
           (LineOk line, s1) \<Rightarrow>
             (case handleCommand C (0, 0) line s1 (sy_server y) of
                (s2, sv2) \<Rightarrow> Some \<lparr>sy_server = sv2, sy_sessions = (sy_sessions y)(i \<mapsto> s2)\<rparr>)
         | _ \<Rightarrow> None))"

lemma demo_accept_reachable:
  assumes "demo_accept i input C y = Some y'" and "pop3_reachable C y"
  shows "pop3_reachable C y'"
proof -
  have "pop3_step C y y'"
    using assms(1) by (auto simp: demo_accept_def split: option.splits intro: pop3_step.accept)
  with assms(2) show ?thesis
    unfolding pop3_reachable_def by (rule rtranclp.rtrancl_into_rtrancl)
qed

lemma demo_command_reachable:
  assumes "demo_command i C y = Some y'" and "pop3_reachable C y"
  shows "pop3_reachable C y'"
proof -
  have "pop3_step C y y'"
    using assms(1)
    by (auto simp: demo_command_def split: option.splits prod.splits line_result.splits
        intro: pop3_step.command)
  with assms(2) show ?thesis
    unfolding pop3_reachable_def by (rule rtranclp.rtrancl_into_rtrancl)
qed

definition demo_run :: "string list pop3Mailbox pop3_system option" where
  "demo_run =
     Option.bind (demo_accept 0 (''USER u'' @ crlf @ ''PASS pw'' @ crlf) demo_config pop3_initial) (\<lambda>y.
     Option.bind (demo_accept 1 (''USER v'' @ crlf @ ''PASS pw'' @ crlf) demo_config y) (\<lambda>y.
     Option.bind (demo_command 0 demo_config y) (\<lambda>y.
     Option.bind (demo_command 1 demo_config y) (\<lambda>y.
     Option.bind (demo_command 0 demo_config y) (\<lambda>y.
     demo_command 1 demo_config y)))))"

definition in_transaction :: "string \<Rightarrow> nat \<Rightarrow> string list pop3Mailbox pop3_system \<Rightarrow> bool" where
  "in_transaction u i y =
     (case sy_sessions y i of None \<Rightarrow> False
      | Some s \<Rightarrow> ss_state s = stateTransaction \<and> \<not> ss_closed s \<and>
          map_option mb_userID (ss_mailbox s) = Some u)"

lemma demo_run_eval:
  "(case demo_run of None \<Rightarrow> False | Some y \<Rightarrow> in_transaction ''u'' 0 y \<and> in_transaction ''v'' 1 y)"
  by code_simp

lemma demo_run_reachable: "demo_run = Some y \<Longrightarrow> pop3_reachable demo_config y"
proof -
  assume "demo_run = Some y"
  moreover have "pop3_reachable demo_config pop3_initial"
    by (simp add: pop3_reachable_def)
  ultimately show ?thesis
    by (auto simp: demo_run_def bind_eq_Some_conv
        elim!: demo_command_reachable demo_accept_reachable)
qed

theorem maildrop_exclusive_witness:
  "\<exists>y s t m n. pop3_reachable demo_config y \<and> sy_sessions y 0 = Some s \<and> sy_sessions y 1 = Some t \<and>
     ss_mailbox s = Some m \<and> ss_mailbox t = Some n \<and>
     normalizeMaildropLockKey (mb_userID m) \<noteq> normalizeMaildropLockKey (mb_userID n)"
proof -
  obtain y where y: "demo_run = Some y" "in_transaction ''u'' 0 y" "in_transaction ''v'' 1 y"
    using demo_run_eval by (auto split: option.splits)
  then obtain s m t n where s: "sy_sessions y 0 = Some s" "ss_state s = stateTransaction"
      "\<not> ss_closed s" "ss_mailbox s = Some m" "mb_userID m = ''u''"
    and t: "sy_sessions y 1 = Some t" "ss_state t = stateTransaction" "\<not> ss_closed t"
      "ss_mailbox t = Some n"
    by (auto simp: in_transaction_def split: option.splits)
  have C: "cf_Mailbox demo_config = pop3_adapter_iface demo_service"
    by (simp add: demo_config_def)
  have "normalizeMaildropLockKey (mb_userID m) \<noteq> []"
    unfolding s(5) by code_simp
  with maildrop_exclusive [OF demo_run_reachable [OF y(1)] C zero_neq_one s(1-4) t] s t
    demo_run_reachable [OF y(1)]
  show ?thesis by blast
qed

theorem handleConn_gives_lock_back_witness:
  "sv_maildrops (snd (handleConn demo_config (\<lambda>_. False) (\<lambda>_. (0, 0)) ''ip'' False
      [''USER u'' @ crlf @ ''PASS pw'' @ crlf @ ''DELE 1'' @ crlf] demo_server)) = {}"
  using handleConn_gives_lock_back [of demo_config demo_service "\<lambda>_. False" "\<lambda>_. (0, 0)" "''ip''" False
      "[''USER u'' @ crlf @ ''PASS pw'' @ crlf @ ''DELE 1'' @ crlf]" demo_server, OF _ prod.collapse [symmetric]]
  by (simp add: demo_config_def demo_server_def)

theorem stls_discards_plaintext_witness:
  "pending_input (handleSTLS demo_config ((newSession ''ip'' False [])\<lparr>ss_rbuf := ''USER x'' @ crlf\<rparr>))
     = ''QUIT'' @ crlf"
proof -
  let ?s = "(newSession ''ip'' False [])\<lparr>ss_rbuf := ''USER x'' @ crlf\<rparr> :: string list pop3Mailbox session"
  have "canUseSTLS demo_config ?s" and "cf_Handshake demo_config (ss_net ?s) = Some [''QUIT'' @ crlf]"
    by (simp_all add: canUseSTLS_def newSession_def demo_config_def)
  from stls_discards_plaintext [OF this] show ?thesis by simp
qed

theorem transaction_needs_authentication_witness:
  "let s' = fst (handleCommand demo_config (0, 0) ''PASS pw''
      ((newSession ''ip'' False [])\<lparr>ss_user := ''u''\<rparr>) demo_server)
   in \<exists>auth pass m. cf_Authenticate demo_config = Some auth \<and> auth (ss_user s') pass = Inr m"
proof -
  let ?s = "(newSession ''ip'' False [])\<lparr>ss_user := ''u''\<rparr> :: string list pop3Mailbox session"
  let ?r = "handleCommand demo_config (0, 0) ''PASS pw'' ?s demo_server"
  have "ss_state ?s = stateAuthorization" by (simp add: newSession_def)
  moreover have "ss_state (fst ?r) = stateTransaction" by code_simp
  ultimately show ?thesis
    using transaction_needs_authentication [of demo_config "(0, 0)" "''PASS pw''" ?s demo_server
        "fst ?r" "snd ?r"] by (auto simp: Let_def)
qed

theorem lockout_is_ten_in_ten_minutes_witness:
  "fst (tracker_isLocked 9 ''ip'' (fold tracker_apply (map (Fail ''ip'') [0..9]) newPOP3AuthFailureTracker))"
proof -
  let ?es = "map (Fail ''ip'') [0..9]"
  have "sorted (map event_time ?es)" by code_simp
  moreover have "\<forall>e\<in>set ?es. event_time e \<le> 9" by auto
  ultimately have "fst (tracker_isLocked 9 ''ip'' (fold tracker_apply ?es newPOP3AuthFailureTracker)) \<longleftrightarrow>
      10 \<le> length (recent 9 (failures_of ''ip'' ?es))"
    by (rule lockout_is_ten_in_ten_minutes)
  moreover have "10 \<le> length (recent 9 (failures_of ''ip'' ?es))" by code_simp
  ultimately show ?thesis by blast
qed

theorem dele_then_stat_witness:
  "\<exists>m'. ss_mailbox (handleDELE (pop3_adapter_iface demo_service) (demo_mailbox ''u'') ''1'' 1
       ((newSession ''ip'' False [])\<lparr>ss_mailbox := Some (demo_mailbox ''u'')\<rparr>)) = Some m' \<and>
     msgCountAndSize (pop3_adapter_iface demo_service) m' = (1, 20)"
proof -
  let ?s = "(newSession ''ip'' False [])\<lparr>ss_mailbox := Some (demo_mailbox ''u'')\<rparr>"
  have arg: "msg_arg (pop3_adapter_iface demo_service) (demo_mailbox ''u'') ''1'' = Some 1"
    by code_simp
  have "(fst (msgCountAndSize (pop3_adapter_iface demo_service) (demo_mailbox ''u'')) - 1,
      wrap64 (snd (msgCountAndSize (pop3_adapter_iface demo_service) (demo_mailbox ''u''))
        - mb_MessageSize (demo_mailbox ''u'') (1 - 1))) = (1, 20)"
    by code_simp
  with dele_then_stat [OF demo_mailbox_wf arg, of ?s] show ?thesis by auto
qed

text \<open>QUIT does not end the session: commands a client pipelined behind QUIT are still executed,
  on the mailbox, after the maildrop lock was given back and without a reply. In this run the
  bytes behind QUIT delete a message; the client sees the same output with and without them.\<close>

theorem commands_after_quit_are_executed:
  "let run = (\<lambda>rest. fst (handleConn demo_config (\<lambda>_. False) (\<lambda>_. (0, 0)) ''ip'' False
       [''USER u'' @ crlf @ ''PASS pw'' @ crlf @ ''QUIT'' @ crlf @ rest] demo_server));
       rest = ''DELE 1'' @ crlf @ ''QUIT'' @ crlf
   in map_option mb_service (ss_mailbox (run [])) = Some [] \<and>
      map_option mb_service (ss_mailbox (run rest)) = Some [''m1''] \<and>
      ss_out (run rest) = ss_out (run [])"
  by code_simp

end
