(* ===== verification/DeliveryJob.thy ===== *)
theory DeliveryJob
  imports GoBase
begin

text \<open>
  The delivery job: the queued message and its decoding and normalisation
  (\<open>internal/delivery/handler.go\<close>), the farms (\<open>internal/outbound/farm.go\<close>), the errors of a
  delivery and what is read off them (\<open>errors.go\<close>), and the attempt records (\<open>record.go\<close>).
  The JSON decoder of the payload and \<open>net/mail.ParseAddress\<close> are parameters: the first
  enters as its result, the second as \<open>parse\<close>, which gives the address part of what it parsed.
\<close>

section \<open>Farms\<close>

type_synonym farm = string

definition FarmTransactional :: farm where "FarmTransactional = ''transactional''"
definition FarmGeneral :: farm where "FarmGeneral = ''general''"
definition FarmBulk :: farm where "FarmBulk = ''bulk''"
definition FarmBatch :: farm where "FarmBatch = ''batch''"

lemmas farm_defs = FarmTransactional_def FarmGeneral_def FarmBulk_def FarmBatch_def

definition Classify :: "bool \<Rightarrow> int \<Rightarrow> int \<Rightarrow> farm" where
  "Classify transactional recipientCount scheduledAt =
     (if transactional then FarmTransactional
      else if scheduledAt \<noteq> 0 then FarmBatch
      else if 500 \<le> recipientCount then FarmBulk
      else FarmGeneral)"

definition NormalizeFarm :: "farm \<Rightarrow> farm" where
  "NormalizeFarm f =
     (let l = go_ToLower (go_TrimSpace f) in
      if l = FarmTransactional then FarmTransactional
      else if l = FarmGeneral \<or> l = [] then FarmGeneral
      else if l = FarmBulk then FarmBulk
      else if l = FarmBatch then FarmBatch
      else FarmGeneral)"

section \<open>Data\<close>

record address =
  Name :: string
  Email :: string

record dsn_recipient =
  dr_Address :: string
  dr_Notify :: "string list"
  dr_OriginalRecipient :: string

record dsn_options =
  dsn_Return :: string
  dsn_EnvelopeID :: string
  dsn_Recipients :: "dsn_recipient list"

record queued_message =
  qm_Event :: string
  qm_MessageID :: string
  qm_RFCMessageID :: string
  qm_CompanyID :: string
  qm_DomainID :: string
  qm_UserID :: string
  qm_Farm :: farm
  qm_From :: address
  qm_To :: "address list"
  qm_Cc :: "address list"
  qm_Bcc :: "address list"
  qm_DSN :: dsn_options
  qm_Subject :: string
  qm_StoragePath :: string
  qm_Size :: int
  qm_RetryAttempt :: int

definition maxQueuedMessageIDBytes :: nat where "maxQueuedMessageIDBytes = 200"
definition maxQueuedRFCMessageIDBytes :: nat where "maxQueuedRFCMessageIDBytes = 500"
definition maxQueuedStoragePathBytes :: nat where "maxQueuedStoragePathBytes = 2048"
definition maxQueuedDSNOriginalRecipientBytes :: nat where "maxQueuedDSNOriginalRecipientBytes = 500"
definition maxQueuedRecipientCount :: nat where "maxQueuedRecipientCount = 100"

lemmas queued_limits = maxQueuedMessageIDBytes_def maxQueuedRFCMessageIDBytes_def
  maxQueuedStoragePathBytes_def maxQueuedDSNOriginalRecipientBytes_def maxQueuedRecipientCount_def

section \<open>Addresses\<close>

type_synonym addr_parser = "string \<Rightarrow> string option"

definition NormalizeAddress :: "addr_parser \<Rightarrow> string \<Rightarrow> string res" where
  "NormalizeAddress parse raw =
     (case parse (go_TrimSpace raw) of
        None \<Rightarrow> Inl ''invalid email address''
      | Some parsed \<Rightarrow>
        (case go_Cut ''@'' (go_TrimSpace parsed) of
           None \<Rightarrow> Inl ''invalid email address''
         | Some (local, domain) \<Rightarrow>
             if local = [] \<or> domain = [] then Inl ''invalid email address''
             else Inr (go_ToLower local @ ''@'' @ go_ToLower domain)))"

fun recipients_from :: "addr_parser \<Rightarrow> string set \<Rightarrow> address list \<Rightarrow> address list" where
  "recipients_from parse seen [] = []"
| "recipients_from parse seen (r # rs) =
     (case NormalizeAddress parse (Email r) of
        Inl _ \<Rightarrow> recipients_from parse seen rs
      | Inr n \<Rightarrow> if n \<in> seen then recipients_from parse seen rs
                 else r\<lparr>Email := n\<rparr> # recipients_from parse (insert n seen) rs)"

definition qm_Recipients :: "addr_parser \<Rightarrow> queued_message \<Rightarrow> address list" where
  "qm_Recipients parse m = recipients_from parse {} (qm_To m @ qm_Cc m @ qm_Bcc m)"

definition queuedRawRecipientCount :: "queued_message \<Rightarrow> nat" where
  "queuedRawRecipientCount q = length (qm_To q) + length (qm_Cc q) + length (qm_Bcc q)"

fun normalizeAddressList :: "addr_parser \<Rightarrow> string \<Rightarrow> address list \<Rightarrow> address list res" where
  "normalizeAddressList parse fld [] = Inr []"
| "normalizeAddressList parse fld (a # as) =
     (case NormalizeAddress parse (Email a) of
        Inl e \<Rightarrow> Inl (''mail.queued payload has invalid '' @ fld @ '' recipient'')
      | Inr email \<Rightarrow>
        (case normalizeAddressList parse fld as of
           Inl e \<Rightarrow> Inl e
         | Inr rest \<Rightarrow> Inr (a\<lparr>Email := email\<rparr> # rest)))"

definition normalizeQueuedRecipients :: "addr_parser \<Rightarrow> queued_message \<Rightarrow> queued_message res" where
  "normalizeQueuedRecipients parse q =
     (case normalizeAddressList parse ''to'' (qm_To q) of
        Inl e \<Rightarrow> Inl e
      | Inr tos \<Rightarrow>
     (case normalizeAddressList parse ''cc'' (qm_Cc q) of
        Inl e \<Rightarrow> Inl e
      | Inr ccs \<Rightarrow>
     (case normalizeAddressList parse ''bcc'' (qm_Bcc q) of
        Inl e \<Rightarrow> Inl e
      | Inr bccs \<Rightarrow> Inr (q\<lparr>qm_To := tos, qm_Cc := ccs, qm_Bcc := bccs\<rparr>))))"

section \<open>Delivery status notification options\<close>

definition containsLineBreak :: "string \<Rightarrow> bool" where
  "containsLineBreak v = go_ContainsAny v [CHR 0x0D, CHR 0x0A]"

definition isQueuedHexDigit :: "char \<Rightarrow> bool" where
  "isQueuedHexDigit c \<longleftrightarrow> is_digit c \<or> (65 \<le> byte_val c \<and> byte_val c \<le> 70)
     \<or> (97 \<le> byte_val c \<and> byte_val c \<le> 102)"

function validQueuedDSNXText :: "string \<Rightarrow> bool" where
  "validQueuedDSNXText v =
     (if v = [] then True
      else let c = hd v in
        if byte_val c < 33 \<or> 126 < byte_val c \<or> c = CHR ''='' then False
        else if c \<noteq> CHR ''+'' then validQueuedDSNXText (tl v)
        else if length v < 3 \<or> \<not> isQueuedHexDigit (v ! 1) \<or> \<not> isQueuedHexDigit (v ! 2) then False
        else validQueuedDSNXText (drop 3 v))"
  by pat_completeness auto
termination
  by (relation "measure length") auto

declare validQueuedDSNXText.simps [simp del]

definition validQueuedDSNOriginalRecipient :: "string \<Rightarrow> bool" where
  "validQueuedDSNOriginalRecipient v =
     (case go_Cut '';'' (go_TrimSpace v) of
        None \<Rightarrow> False
      | Some (addrType, encodedAddress) \<Rightarrow>
          addrType \<noteq> [] \<and> encodedAddress \<noteq> [] \<and>
          list_all (\<lambda>c. is_lower c \<or> is_upper c \<or> is_digit c \<or> c = CHR ''-'') addrType \<and>
          validQueuedDSNXText encodedAddress)"

definition validQueuedDSNEnvelopeID :: "string \<Rightarrow> bool" where
  "validQueuedDSNEnvelopeID value0 =
     (let v = go_TrimSpace value0 in
      if v = [] \<or> 100 < length v then False else validQueuedDSNXText v)"

definition dsn_notify_order :: "string list" where
  "dsn_notify_order = [''NEVER'', ''SUCCESS'', ''FAILURE'', ''DELAY'']"

definition orderDSNNotify :: "string list \<Rightarrow> string list" where
  "orderDSNNotify vs =
     (if length vs \<le> 1 then vs else filter (\<lambda>v. v \<in> set vs) dsn_notify_order)"

text \<open>The loop of \<open>normalizeDSNNotify\<close>: \<open>acc\<close> is the normalised list so far (its set is \<open>seen\<close>).\<close>

fun dsn_notify_loop :: "string list \<Rightarrow> bool \<Rightarrow> string list \<Rightarrow> (string list \<times> bool) res" where
  "dsn_notify_loop acc hasNever [] = Inr (acc, hasNever)"
| "dsn_notify_loop acc hasNever (v0 # vs) =
     (let v = go_ToUpper (go_TrimSpace v0) in
      if v = [] then dsn_notify_loop acc hasNever vs
      else if v \<notin> set dsn_notify_order then Inl ''mail.queued payload has invalid dsn.notify''
      else let hasNever = (hasNever \<or> v = ''NEVER'') in
        if v \<in> set acc then dsn_notify_loop acc hasNever vs
        else dsn_notify_loop (acc @ [v]) hasNever vs)"

definition normalizeDSNNotify :: "string list \<Rightarrow> string list res" where
  "normalizeDSNNotify vs =
     (if vs = [] then Inr []
      else (case dsn_notify_loop [] False vs of
              Inl e \<Rightarrow> Inl e
            | Inr (normalized, hasNever) \<Rightarrow>
                if hasNever \<and> 1 < length normalized
                then Inl ''mail.queued payload has invalid dsn.notify: NEVER cannot be combined''
                else Inr (orderDSNNotify normalized)))"

definition mergeDSNNotify :: "string list \<Rightarrow> string list \<Rightarrow> string list res" where
  "mergeDSNNotify left right =
     (if left = [] then Inr right
      else if right = [] then Inr left
      else let merged = dedup_first (left @ right) in
        if ''NEVER'' \<in> set (left @ right) \<and> 1 < length merged
        then Inl ''mail.queued payload has invalid dsn.notify: NEVER cannot be combined''
        else Inr (orderDSNNotify merged))"

text \<open>One recipient of the options, and its place in the list normalised so far.\<close>

definition normalize_dsn_recipient :: "addr_parser \<Rightarrow> dsn_recipient \<Rightarrow> dsn_recipient res" where
  "normalize_dsn_recipient parse r =
     (case NormalizeAddress parse (dr_Address r) of
        Inl e \<Rightarrow> Inl ''mail.queued payload has invalid dsn recipient''
      | Inr addr \<Rightarrow>
     (case normalizeDSNNotify (dr_Notify r) of
        Inl e \<Rightarrow> Inl e
      | Inr notify \<Rightarrow>
          let orig = go_TrimSpace (dr_OriginalRecipient r) in
          if containsLineBreak orig
          then Inl ''mail.queued payload has invalid dsn original_recipient''
          else if maxQueuedDSNOriginalRecipientBytes < length orig
          then Inl ''mail.queued payload has oversized dsn original_recipient''
          else if orig \<noteq> [] \<and> \<not> validQueuedDSNOriginalRecipient orig
          then Inl ''mail.queued payload has invalid dsn original_recipient''
          else Inr \<lparr>dr_Address = addr, dr_Notify = notify, dr_OriginalRecipient = orig\<rparr>))"

fun merge_dsn_recipient :: "dsn_recipient \<Rightarrow> dsn_recipient list \<Rightarrow> dsn_recipient list res" where
  "merge_dsn_recipient r [] = Inr [r]"
| "merge_dsn_recipient r (x # xs) =
     (if dr_Address x = dr_Address r then
        (case mergeDSNNotify (dr_Notify x) (dr_Notify r) of
           Inl e \<Rightarrow> Inl e
         | Inr notify \<Rightarrow>
             Inr (x\<lparr>dr_Notify := notify,
                    dr_OriginalRecipient := (if dr_OriginalRecipient x = []
                      then dr_OriginalRecipient r else dr_OriginalRecipient x)\<rparr> # xs))
      else (case merge_dsn_recipient r xs of
              Inl e \<Rightarrow> Inl e
            | Inr ys \<Rightarrow> Inr (x # ys)))"

fun dsn_recipients_loop ::
    "addr_parser \<Rightarrow> dsn_recipient list \<Rightarrow> dsn_recipient list \<Rightarrow> dsn_recipient list res" where
  "dsn_recipients_loop parse acc [] = Inr acc"
| "dsn_recipients_loop parse acc (r # rs) =
     (case normalize_dsn_recipient parse r of
        Inl e \<Rightarrow> Inl e
      | Inr n \<Rightarrow>
        (case merge_dsn_recipient n acc of
           Inl e \<Rightarrow> Inl e
         | Inr acc' \<Rightarrow> dsn_recipients_loop parse acc' rs))"

definition normalizeQueuedDSNOptions :: "addr_parser \<Rightarrow> dsn_options \<Rightarrow> dsn_options res" where
  "normalizeQueuedDSNOptions parse d =
     (let ret = go_ToUpper (go_TrimSpace (dsn_Return d)) in
      if ret \<notin> {[], ''FULL'', ''HDRS''} then Inl ''mail.queued payload has invalid dsn.return''
      else let env = go_TrimSpace (dsn_EnvelopeID d) in
        if containsLineBreak env then Inl ''mail.queued payload has invalid dsn.envelope_id''
        else if env \<noteq> [] \<and> \<not> validQueuedDSNEnvelopeID env
        then Inl ''mail.queued payload has invalid dsn.envelope_id''
        else let d = d\<lparr>dsn_Return := ret, dsn_EnvelopeID := env\<rparr> in
          if dsn_Recipients d = [] then Inr d
          else if maxQueuedRecipientCount < length (dsn_Recipients d)
          then Inl ''mail.queued payload has too many dsn recipients''
          else (case dsn_recipients_loop parse [] (dsn_Recipients d) of
                  Inl e \<Rightarrow> Inl e
                | Inr rs \<Rightarrow> Inr (d\<lparr>dsn_Recipients := rs\<rparr>)))"

section \<open>The storage path\<close>

text \<open>\<open>path.Clean\<close>, on the segments of the path.\<close>

fun clean_segments :: "bool \<Rightarrow> string list \<Rightarrow> string list \<Rightarrow> string list" where
  "clean_segments rooted out [] = rev out"
| "clean_segments rooted out (w # ws) =
     (if w = [] \<or> w = ''.'' then clean_segments rooted out ws
      else if w = ''..'' then
        (if out \<noteq> [] \<and> hd out \<noteq> ''..'' then clean_segments rooted (tl out) ws
         else if rooted then clean_segments rooted out ws
         else clean_segments rooted (w # out) ws)
      else clean_segments rooted (w # out) ws)"

definition path_Clean :: "string \<Rightarrow> string" where
  "path_Clean p =
     (let rooted = prefix ''/'' p;
          out = (if rooted then ''/'' else []) @
                go_Join (clean_segments rooted [] (go_Split1 (CHR ''/'') p)) ''/''
      in if out = [] then ''.'' else out)"

definition hasParentPathSegment :: "string \<Rightarrow> bool" where
  "hasParentPathSegment v = list_ex (\<lambda>w. w = ''..'') (go_Split1 (CHR ''/'') v)"

definition normalizeQueuedStoragePath :: "string \<Rightarrow> string res" where
  "normalizeQueuedStoragePath value0 =
     (let v = go_TrimSpace value0 in
      if v = [] then Inr []
      else if containsLineBreak v \<or> go_Contains v [CHR 0x5C]
      then Inl ''mail.queued payload has invalid storage_path''
      else if maxQueuedStoragePathBytes < length v
      then Inl ''mail.queued payload has oversized storage_path''
      else let cleaned = path_Clean v in
        if cleaned = ''.'' \<or> cleaned \<noteq> v \<or> prefix ''/'' cleaned \<or> hasParentPathSegment cleaned
        then Inl ''mail.queued payload has invalid storage_path''
        else if \<not> suffix ''.eml'' (go_ToLower cleaned)
        then Inl ''mail.queued payload storage_path must reference an .eml object''
        else Inr cleaned)"

section \<open>Decoding\<close>

text \<open>\<open>DecodeQueuedMessage\<close> after the JSON decoder, whose result is the first argument.\<close>

definition DecodeQueuedMessage :: "addr_parser \<Rightarrow> queued_message res \<Rightarrow> queued_message res" where
  "DecodeQueuedMessage parse decoded =
     (case decoded of
        Inl e \<Rightarrow> Inl (''decode mail.queued payload: '' @ e)
      | Inr q \<Rightarrow>
        if qm_Event q \<noteq> ''mail.queued'' then Inl ''unexpected delivery event''
        else let q = q\<lparr>qm_MessageID := go_TrimSpace (qm_MessageID q),
                       qm_RFCMessageID := go_TrimSpace (qm_RFCMessageID q)\<rparr> in
          if qm_MessageID q = [] then Inl ''mail.queued payload is missing message_id''
          else if containsLineBreak (qm_MessageID q) \<or> containsLineBreak (qm_RFCMessageID q)
          then Inl ''mail.queued payload has invalid message identity''
          else if maxQueuedMessageIDBytes < length (qm_MessageID q)
            \<or> maxQueuedRFCMessageIDBytes < length (qm_RFCMessageID q)
          then Inl ''mail.queued payload has oversized message identity''
          else let from = go_TrimSpace (Email (qm_From q)) in
          (case (if from = [] then Inr [] else NormalizeAddress parse from) of
             Inl e \<Rightarrow> Inl ''mail.queued payload has invalid from.email''
           | Inr from' \<Rightarrow>
             let q = q\<lparr>qm_From := (qm_From q)\<lparr>Email := from'\<rparr>\<rparr> in
             if maxQueuedRecipientCount < queuedRawRecipientCount q
             then Inl ''mail.queued payload has too many recipients''
             else (case normalizeQueuedRecipients parse q of
               Inl e \<Rightarrow> Inl e
             | Inr q \<Rightarrow>
               let q = q\<lparr>qm_Farm := NormalizeFarm (qm_Farm q)\<rparr> in
               (case normalizeQueuedDSNOptions parse (qm_DSN q) of
                  Inl e \<Rightarrow> Inl e
                | Inr d \<Rightarrow>
                  (case normalizeQueuedStoragePath (qm_StoragePath q) of
                     Inl e \<Rightarrow> Inl e
                   | Inr p \<Rightarrow>
                     let q = q\<lparr>qm_DSN := d, qm_StoragePath := p\<rparr> in
                     if queuedRawRecipientCount q = 0
                     then Inl ''mail.queued payload has no recipients''
                     else Inr q)))))"

text \<open>A retry for some of the recipients.\<close>

definition wanted_addresses :: "addr_parser \<Rightarrow> address list \<Rightarrow> string list" where
  "wanted_addresses parse rs =
     concat (map (\<lambda>r. case NormalizeAddress parse (Email r) of Inl _ \<Rightarrow> [] | Inr n \<Rightarrow> [n]) rs)"

definition filterDSNRecipients ::
    "addr_parser \<Rightarrow> dsn_recipient list \<Rightarrow> address list \<Rightarrow> dsn_recipient list" where
  "filterDSNRecipients parse ds rs =
     (if ds = [] \<or> rs = [] then []
      else let wanted = set (wanted_addresses parse rs) in
        if wanted = {} then []
        else concat (map (\<lambda>d. case NormalizeAddress parse (dr_Address d) of
                 Inl _ \<Rightarrow> []
               | Inr n \<Rightarrow> if n \<in> wanted then [d\<lparr>dr_Address := n\<rparr>] else []) ds))"

definition queuedMessageForRecipients ::
    "addr_parser \<Rightarrow> queued_message \<Rightarrow> address list \<Rightarrow> queued_message" where
  "queuedMessageForRecipients parse q rs =
     q\<lparr>qm_To := rs, qm_Cc := [], qm_Bcc := [],
       qm_DSN := (qm_DSN q)\<lparr>dsn_Recipients := filterDSNRecipients parse (dsn_Recipients (qm_DSN q)) rs\<rparr>\<rparr>"

section \<open>Jobs\<close>

text \<open>\<open>Job\<close>: the message opener is the store's \<open>Get\<close> on the storage path and is left out; a nil
  recipient cache is \<open>None\<close>.\<close>

record job =
  jb_queued :: queued_message
  jb_recipientCache :: "address list option"
  jb_rawPayload :: string

definition job_Recipients :: "addr_parser \<Rightarrow> job \<Rightarrow> address list" where
  "job_Recipients parse j =
     (case jb_recipientCache j of Some rs \<Rightarrow> rs | None \<Rightarrow> qm_Recipients parse (jb_queued j))"

definition domainFromAddress :: "string \<Rightarrow> string" where
  "domainFromAddress addr =
     (case go_Cut ''@'' (go_TrimSpace addr) of None \<Rightarrow> [] | Some (_, domain) \<Rightarrow> go_ToLower domain)"

text \<open>The distinct non-empty domains of a list of recipients, in order of appearance:
  \<open>domainsForRecipients\<close>, and the loop of \<open>recipientDomainsForJob\<close>.\<close>

definition domainsForRecipients :: "address list \<Rightarrow> string list" where
  "domainsForRecipients rs =
     dedup_first (filter (\<lambda>d. d \<noteq> []) (map (\<lambda>r. domainFromAddress (Email r)) rs))"

definition recipientDomainsForJob :: "addr_parser \<Rightarrow> job \<Rightarrow> string list" where
  "recipientDomainsForJob parse j = domainsForRecipients (job_Recipients parse j)"

section \<open>Errors of a delivery\<close>

text \<open>The error values that the delivery code distinguishes. \<open>ErrWrap\<close> is an error made by
  \<open>fmt.Errorf\<close> with \<open>%w\<close>: its text and the error it wraps; \<open>ErrJoin\<close> is made by \<open>errors.Join\<close>.\<close>

datatype derr =
    ErrText string
  | ErrTextproto int string
  | ErrSMTP string int string "derr option"
  | ErrRecipient address "derr option"
  | ErrPartial "address list" "(address \<times> derr option) list"
  | ErrWrap string derr
  | ErrJoin "derr list"
  | ErrRetryExhausted

text \<open>The format \<open>%03d\<close> of a status code.\<close>

definition go_pad3 :: "int \<Rightarrow> string" where
  "go_pad3 n =
     (if n < 0 then let d = go_Itoa (- n) in ''-'' @ replicate (2 - length d) (CHR ''0'') @ d
      else let d = go_Itoa n in replicate (3 - length d) (CHR ''0'') @ d)"

fun smtp_error_text :: "string \<Rightarrow> int \<Rightarrow> string \<Rightarrow> string option \<Rightarrow> string" where
  "smtp_error_text op code msg cause =
     (if 0 < code then ''smtp '' @ op @ '' failed with '' @ go_Itoa code @ '': '' @ msg
      else (case cause of
              Some t \<Rightarrow> ''smtp '' @ op @ '' failed: '' @ t
            | None \<Rightarrow> ''smtp '' @ op @ '' failed''))"

fun recipient_error_text :: "address \<Rightarrow> string option \<Rightarrow> string" where
  "recipient_error_text r None = ''recipient '' @ Email r @ '' failed''"
| "recipient_error_text r (Some t) = ''recipient '' @ Email r @ '': '' @ t"

primrec err_Error :: "derr \<Rightarrow> string" where
  "err_Error (ErrText t) = t"
| "err_Error (ErrTextproto code msg) = go_pad3 code @ '' '' @ msg"
| "err_Error (ErrSMTP op code msg e) = smtp_error_text op code msg (map_option err_Error e)"
| "err_Error (ErrRecipient r e) = recipient_error_text r (map_option err_Error e)"
| "err_Error (ErrPartial ds fs) =
     ''partial delivery: '' @ go_Itoa (int (length ds)) @ '' delivered, '' @
     go_Itoa (int (length fs)) @ '' failed: '' @
     go_Join (map (\<lambda>(r, t). recipient_error_text r t)
                (map (map_prod id (map_option err_Error)) fs)) ''; ''"
| "err_Error (ErrWrap t _) = t"
| "err_Error (ErrJoin es) = go_Join (map err_Error es) [CHR 0x0A]"
| "err_Error ErrRetryExhausted = ''delivery retry attempts exhausted''"

text \<open>\<open>errors.As\<close>: the first error of the wanted type along the chain of wrapped errors.\<close>

fun as_smtp :: "derr \<Rightarrow> (int \<times> string) option" where
  "as_smtp (ErrSMTP op code msg e) = Some (code, msg)"
| "as_smtp (ErrRecipient r (Some e)) = as_smtp e"
| "as_smtp (ErrWrap t e) = as_smtp e"
| "as_smtp (ErrJoin es) = (first_some as_smtp es)"
| "as_smtp _ = None"

fun as_textproto :: "derr \<Rightarrow> (int \<times> string) option" where
  "as_textproto (ErrTextproto code msg) = Some (code, msg)"
| "as_textproto (ErrSMTP op code msg (Some e)) = as_textproto e"
| "as_textproto (ErrRecipient r (Some e)) = as_textproto e"
| "as_textproto (ErrWrap t e) = as_textproto e"
| "as_textproto (ErrJoin es) = (first_some as_textproto es)"
| "as_textproto _ = None"

fun as_partial :: "derr \<Rightarrow> (address list \<times> (address \<times> derr option) list) option" where
  "as_partial (ErrPartial ds fs) = Some (ds, fs)"
| "as_partial (ErrSMTP op code msg (Some e)) = as_partial e"
| "as_partial (ErrRecipient r (Some e)) = as_partial e"
| "as_partial (ErrWrap t e) = as_partial e"
| "as_partial (ErrJoin es) = (first_some as_partial es)"
| "as_partial _ = None"

text \<open>\<open>errors.Is(err, ErrRetryExhausted)\<close>\<close>

fun is_exhausted :: "derr \<Rightarrow> bool" where
  "is_exhausted ErrRetryExhausted = True"
| "is_exhausted (ErrSMTP op code msg (Some e)) = is_exhausted e"
| "is_exhausted (ErrRecipient r (Some e)) = is_exhausted e"
| "is_exhausted (ErrWrap t e) = is_exhausted e"
| "is_exhausted (ErrJoin es) = (list_ex is_exhausted es)"
| "is_exhausted _ = False"

definition WrapSMTPError :: "string \<Rightarrow> derr option \<Rightarrow> derr option" where
  "WrapSMTPError op err =
     (case err of
        None \<Rightarrow> None
      | Some e \<Rightarrow> (case as_textproto e of
                     Some (code, msg) \<Rightarrow> Some (ErrSMTP op code msg (Some e))
                   | None \<Rightarrow> Some (ErrSMTP op 0 [] (Some e))))"

definition smtp_Permanent :: "int \<Rightarrow> bool" where
  "smtp_Permanent code \<longleftrightarrow> 500 \<le> code \<and> code \<le> 599"

definition smtp_Temporary :: "int \<Rightarrow> bool" where
  "smtp_Temporary code \<longleftrightarrow> 400 \<le> code \<and> code \<le> 499"

definition IsPermanentFailure :: "derr option \<Rightarrow> bool" where
  "IsPermanentFailure err =
     (case Option.bind err as_smtp of None \<Rightarrow> False | Some (code, _) \<Rightarrow> smtp_Permanent code)"

definition IsTemporaryFailure :: "derr option \<Rightarrow> bool" where
  "IsTemporaryFailure err =
     (case Option.bind err as_smtp of None \<Rightarrow> False | Some (code, _) \<Rightarrow> smtp_Temporary code)"

definition TemporaryFailures :: "(address \<times> derr option) list \<Rightarrow> address list" where
  "TemporaryFailures failed = map fst (filter (\<lambda>(r, e). \<not> IsPermanentFailure e) failed)"

section \<open>Enhanced status codes\<close>

text \<open>
  The pattern \<open>\b[245]\.[0-9]{1,3}\.[0-9]{1,3}\b\<close>. A run of digits that is not followed by a
  digit is taken whole, so a match has exactly one shape. \<open>prev\<close> is the byte before.
\<close>

definition word_char :: "char \<Rightarrow> bool" where
  "word_char c \<longleftrightarrow> is_digit c \<or> is_lower c \<or> is_upper c \<or> c = CHR ''_''"

definition digit_run :: "string \<Rightarrow> string" where
  "digit_run s = takeWhile is_digit s"

definition status_match :: "char option \<Rightarrow> string \<Rightarrow> string option" where
  "status_match prev s =
     (let d1 = digit_run (drop 2 s);
          s2 = drop (2 + length d1) s;
          d2 = digit_run (drop 1 s2);
          s3 = drop (1 + length d2) s2
      in if \<not> (case prev of None \<Rightarrow> False | Some p \<Rightarrow> word_char p)
            \<and> (s \<noteq> [] \<and> hd s \<in> set ''245'') \<and> take 1 (drop 1 s) = ''.''
            \<and> d1 \<noteq> [] \<and> length d1 \<le> 3 \<and> take 1 s2 = ''.''
            \<and> d2 \<noteq> [] \<and> length d2 \<le> 3 \<and> (s3 = [] \<or> \<not> word_char (hd s3))
         then Some (take 2 s @ d1 @ ''.'' @ d2) else None)"

function find_all_status :: "char option \<Rightarrow> string \<Rightarrow> string list" where
  "find_all_status prev s =
     (if s = [] then []
      else (case status_match prev s of
              None \<Rightarrow> find_all_status (Some (hd s)) (tl s)
            | Some m \<Rightarrow> if m = [] then []
                else m # find_all_status (Some (last m)) (drop (length m) s)))"
  by pat_completeness auto
termination
  by (relation "measure (\<lambda>(_, s). length s)") auto

declare find_all_status.simps [simp del]

definition validEnhancedDeliveryStatus :: "string \<Rightarrow> bool" where
  "validEnhancedDeliveryStatus status =
     (let parts = go_Split1 (CHR ''.'') status in
      if length parts \<noteq> 3 \<or> length (parts ! 0) \<noteq> 1 then False
      else if (parts ! 0) ! 0 \<notin> set ''245'' then False
      else list_all (\<lambda>part. part \<noteq> [] \<and> length part \<le> 3 \<and> list_all is_digit part) (tl parts))"

definition enhancedStatusFromError :: "derr option \<Rightarrow> string" where
  "enhancedStatusFromError err =
     (case Option.bind err as_smtp of
        None \<Rightarrow> []
      | Some (code, msg) \<Rightarrow>
          (case find (\<lambda>c. validEnhancedDeliveryStatus c \<and> int (byte_val (hd c)) - 48 = code div 100)
                  (find_all_status None msg) of
             None \<Rightarrow> [] | Some c \<Rightarrow> c))"

datatype attempt_status = AttemptDelivered | AttemptFailed | AttemptBounced | AttemptExhausted

definition enhancedStatusForAttempt :: "attempt_status \<Rightarrow> derr option \<Rightarrow> string" where
  "enhancedStatusForAttempt status err =
     (let code = enhancedStatusFromError err in
      if code \<noteq> [] then code
      else case status of
        AttemptDelivered \<Rightarrow> ''2.0.0'' | AttemptBounced \<Rightarrow> ''5.0.0'' | _ \<Rightarrow> ''4.0.0'')"

section \<open>Attempt records\<close>

record attempt =
  at_MessageID :: string
  at_RFCMessageID :: string
  at_CompanyID :: string
  at_DomainID :: string
  at_Farm :: string
  at_Sender :: string
  at_Recipient :: string
  at_RecipientDomain :: string
  at_Status :: attempt_status
  at_EnhancedStatus :: string
  at_ErrorMessage :: string
  at_AttemptedAt :: int
  at_DSNReturn :: string
  at_DSNEnvelopeID :: string
  at_DSNNotify :: "string list"
  at_OriginalRecipient :: string
  at_StoragePath :: string

function truncate_loop :: "string \<Rightarrow> string" where
  "truncate_loop v = (if \<not> utf8_valid v \<and> v \<noteq> [] then truncate_loop (butlast v) else v)"
  by pat_completeness auto
termination
  by (relation "measure length") auto

declare truncate_loop.simps [simp del]

definition truncateUTF8Bytes :: "string \<Rightarrow> int \<Rightarrow> string" where
  "truncateUTF8Bytes v maxBytes =
     (if maxBytes \<le> 0 \<or> int (length v) \<le> maxBytes then v
      else truncate_loop (take (nat maxBytes) v))"

text \<open>The options of the first entry with a given address.\<close>

definition dsnRecipientOptionsByAddress :: "dsn_recipient list \<Rightarrow> string \<Rightarrow> dsn_recipient option" where
  "dsnRecipientOptionsByAddress rs k =
     (if k = [] then None
      else find (\<lambda>r. go_ToLower (go_TrimSpace (dr_Address r)) = k) rs)"

definition no_dsn :: dsn_recipient where
  "no_dsn = \<lparr>dr_Address = [], dr_Notify = [], dr_OriginalRecipient = []\<rparr>"

definition attemptForRecipient ::
    "queued_message \<Rightarrow> address \<Rightarrow> attempt_status \<Rightarrow> derr option \<Rightarrow> string \<Rightarrow> int \<Rightarrow>
     (string \<Rightarrow> dsn_recipient option) \<Rightarrow> attempt" where
  "attemptForRecipient job r status cause message attemptedAt dsnByAddress =
     (let domain = (case go_Cut ''@'' (go_TrimSpace (Email r)) of None \<Rightarrow> [] | Some (_, d) \<Rightarrow> d);
          domain = go_TrimSuffix domain ''.'';
          d = (case dsnByAddress (go_ToLower (go_TrimSpace (Email r))) of
                 None \<Rightarrow> no_dsn | Some d \<Rightarrow> d)
      in \<lparr>at_MessageID = qm_MessageID job, at_RFCMessageID = qm_RFCMessageID job,
          at_CompanyID = qm_CompanyID job, at_DomainID = qm_DomainID job, at_Farm = qm_Farm job,
          at_Sender = go_TrimSpace (Email (qm_From job)), at_Recipient = Email r,
          at_RecipientDomain = go_ToLower domain, at_Status = status,
          at_EnhancedStatus = enhancedStatusForAttempt status cause,
          at_ErrorMessage = message, at_AttemptedAt = attemptedAt,
          at_DSNReturn = dsn_Return (qm_DSN job), at_DSNEnvelopeID = dsn_EnvelopeID (qm_DSN job),
          at_DSNNotify = dr_Notify d, at_OriginalRecipient = dr_OriginalRecipient d,
          at_StoragePath = qm_StoragePath job\<rparr>)"

text \<open>\<open>now\<close> is the clock, read when no time is given.\<close>

definition attemptsForRecipients ::
    "int \<Rightarrow> queued_message \<Rightarrow> address list \<Rightarrow> attempt_status \<Rightarrow> derr option \<Rightarrow> int \<Rightarrow>
     (string \<Rightarrow> dsn_recipient option) \<Rightarrow> attempt list" where
  "attemptsForRecipients now job rs status cause attemptedAt0 dsnByAddress =
     (let attemptedAt = (if attemptedAt0 = 0 then now else attemptedAt0);
          message = truncateUTF8Bytes (case cause of None \<Rightarrow> [] | Some e \<Rightarrow> err_Error e) 2000
      in map (\<lambda>r. attemptForRecipient job r status cause message attemptedAt dsnByAddress) rs)"

section \<open>Paths\<close>

lemma go_Split1_Cons_seg: "d \<notin> set w \<Longrightarrow> go_Split1 d (w @ d # s) = w # go_Split1 d s"
  by (induction w) auto

lemma go_Split1_single: "d \<notin> set w \<Longrightarrow> go_Split1 d w = [w]"
  by (induction w) auto

lemma go_Split1_Join:
  "ws \<noteq> [] \<Longrightarrow> \<forall>w\<in>set ws. d \<notin> set w \<Longrightarrow> go_Split1 d (go_Join ws [d]) = ws"
proof (induction ws)
  case (Cons w ws)
  then show ?case
    by (cases ws) (simp_all add: go_Split1_single go_Split1_Cons_seg)
qed simp

lemma set_clean_segments:
  "w \<in> set (clean_segments rooted out ws) \<Longrightarrow> w \<in> set out \<or> (w \<in> set ws \<and> w \<noteq> [] \<and> w \<noteq> ''.'')"
proof (induction rooted out ws rule: clean_segments.induct)
  case (2 rooted out x xs)
  show ?case
  proof (cases "x = [] \<or> x = ''.''")
    case True
    with 2 show ?thesis by auto
  next
    case False
    have "set (tl out) \<subseteq> set out" by (cases out) auto
    with False 2 show ?thesis by (auto split: if_splits)
  qed
qed simp

text \<open>A relative path that \<open>path.Clean\<close> leaves alone has no empty and no dot segment.\<close>

lemma path_Clean_fixed:
  assumes "path_Clean p = p" and "\<not> prefix ''/'' p" and "p \<noteq> ''.''"
  shows "w \<in> set (go_Split1 (CHR ''/'') p) \<Longrightarrow> w \<noteq> [] \<and> w \<noteq> ''.''"
proof -
  define ws where "ws = clean_segments False [] (go_Split1 (CHR ''/'') p)"
  have p: "p = go_Join ws ''/''"
    using assms by (auto simp: path_Clean_def Let_def ws_def split: if_splits)
  have "ws \<noteq> []"
    using assms p by (auto simp: path_Clean_def Let_def)
  have seg: "w \<noteq> [] \<and> w \<noteq> ''.'' \<and> CHR ''/'' \<notin> set w" if "w \<in> set ws" for w
    using set_clean_segments [of w False "[]" "go_Split1 (CHR ''/'') p"] that go_Split1_no_sep
    by (auto simp: ws_def)
  have "go_Split1 (CHR ''/'') (go_Join ws ''/'') = ws"
    using \<open>ws \<noteq> []\<close> seg by (intro go_Split1_Join) auto
  then have "go_Split1 (CHR ''/'') p = ws" using p by simp
  then show "w \<in> set (go_Split1 (CHR ''/'') p) \<Longrightarrow> w \<noteq> [] \<and> w \<noteq> ''.''"
    using seg by simp
qed

section \<open>Notification lists\<close>

definition dsn_canonical :: "string list \<Rightarrow> bool" where
  "dsn_canonical vs \<longleftrightarrow> vs = filter (\<lambda>v. v \<in> set vs) dsn_notify_order \<and>
     (''NEVER'' \<in> set vs \<longrightarrow> vs = [''NEVER''])"

lemma dsn_notify_order_distinct [simp]: "distinct dsn_notify_order"
  by (simp add: dsn_notify_order_def)

lemma order_idem:
  assumes "set vs \<subseteq> set dsn_notify_order" and "distinct vs"
  shows "orderDSNNotify vs = filter (\<lambda>v. v \<in> set vs) dsn_notify_order"
proof (cases "length vs \<le> 1")
  case False
  then show ?thesis by (simp add: orderDSNNotify_def)
next
  case True
  then consider "vs = []" | v where "vs = [v]" by (cases vs) auto
  then show ?thesis
    using assms by cases (auto simp: orderDSNNotify_def dsn_notify_order_def)
qed

lemma order_canonical:
  assumes "set vs \<subseteq> set dsn_notify_order" and "distinct vs"
    and "\<not> (''NEVER'' \<in> set vs \<and> 1 < length vs)"
  shows "dsn_canonical (orderDSNNotify vs) \<and> set (orderDSNNotify vs) = set vs"
proof -
  have s: "set (orderDSNNotify vs) = set vs"
    using assms(1) by (auto simp: order_idem [OF assms(1,2)])
  have "vs = [''NEVER'']" if "''NEVER'' \<in> set vs"
    using that assms(3) by (cases vs) auto
  then have "orderDSNNotify vs = [''NEVER'']" if "''NEVER'' \<in> set vs"
    using that by (simp add: orderDSNNotify_def)
  with s show ?thesis
    by (auto simp: dsn_canonical_def order_idem [OF assms(1,2)])
qed

lemma dsn_notify_loop_set:
  assumes "dsn_notify_loop acc hasNever vs = Inr (ns, never)"
    and "distinct acc" and "set acc \<subseteq> set dsn_notify_order" and "hasNever = (''NEVER'' \<in> set acc)"
  shows "distinct ns \<and> set ns \<subseteq> set dsn_notify_order \<and> never = (''NEVER'' \<in> set ns) \<and>
    set ns = set acc \<union> (set (map (\<lambda>v. go_ToUpper (go_TrimSpace v)) vs) - {[]})"
  using assms
proof (induction acc hasNever vs rule: dsn_notify_loop.induct)
  case (2 acc hasNever v0 vs)
  define v where "v = go_ToUpper (go_TrimSpace v0)"
  consider (empty) "v = []" | (old) "v \<noteq> []" "v \<in> set dsn_notify_order" "v \<in> set acc"
    | (new) "v \<noteq> []" "v \<in> set dsn_notify_order" "v \<notin> set acc"
    using "2.prems"(1) by (auto simp: v_def [symmetric] Let_def split: if_splits)
  then show ?case
  proof cases
    case empty
    with 2 show ?thesis by (auto simp: v_def [symmetric])
  next
    case old
    with "2.prems" have "dsn_notify_loop acc (hasNever \<or> v = ''NEVER'') vs = Inr (ns, never)"
      and "(hasNever \<or> v = ''NEVER'') = (''NEVER'' \<in> set acc)"
      by (auto simp: v_def [symmetric] Let_def)
    from "2.IH"(2) [OF v_def _ _ refl] this old "2.prems" show ?thesis
      by (auto simp: v_def [symmetric])
  next
    case new
    with "2.prems" have "dsn_notify_loop (acc @ [v]) (hasNever \<or> v = ''NEVER'') vs = Inr (ns, never)"
      and "(hasNever \<or> v = ''NEVER'') = (''NEVER'' \<in> set (acc @ [v]))"
      by (auto simp: v_def [symmetric] Let_def)
    from "2.IH"(3) [OF v_def _ _ refl] this new "2.prems" show ?thesis
      by (auto simp: v_def [symmetric])
  qed
qed auto

lemma normalizeDSNNotify_canonical:
  assumes "normalizeDSNNotify vs = Inr rs"
  shows "dsn_canonical rs \<and> set rs = set (map (\<lambda>v. go_ToUpper (go_TrimSpace v)) vs) - {[]}"
proof (cases "vs = []")
  case True
  with assms show ?thesis by (simp add: normalizeDSNNotify_def dsn_canonical_def)
next
  case False
  then obtain ns never where l: "dsn_notify_loop [] False vs = Inr (ns, never)"
    and r: "rs = orderDSNNotify ns" "\<not> (never \<and> 1 < length ns)"
    using assms by (auto simp: normalizeDSNNotify_def split: sum.splits prod.splits if_splits)
  from dsn_notify_loop_set [OF l] r order_canonical [of ns] show ?thesis by auto
qed

lemma mergeDSNNotify_canonical:
  assumes "dsn_canonical left" and "dsn_canonical right" and "mergeDSNNotify left right = Inr rs"
  shows "dsn_canonical rs \<and> set rs = set left \<union> set right"
proof (cases "left = [] \<or> right = []")
  case True
  with assms show ?thesis by (auto simp: mergeDSNNotify_def split: if_splits)
next
  case False
  have sub: "set vs \<subseteq> set dsn_notify_order" if "dsn_canonical vs" for vs
  proof -
    have "vs = filter (\<lambda>v. v \<in> set vs) dsn_notify_order" using that by (simp add: dsn_canonical_def)
    then show ?thesis by (metis filter_is_subset)
  qed
  let ?m = "dedup_first (left @ right)"
  have "set ?m \<subseteq> set dsn_notify_order" using sub assms by auto
  moreover have "\<not> (''NEVER'' \<in> set ?m \<and> 1 < length ?m)" and "rs = orderDSNNotify ?m"
    using assms(3) False by (auto simp: mergeDSNNotify_def Let_def split: if_splits)
  ultimately show ?thesis
    using order_canonical [of ?m] by auto
qed

lemma dsn_canonical_cases:
  assumes "dsn_canonical vs"
  shows "vs \<in> set ([''NEVER''] # subseqs [''SUCCESS'', ''FAILURE'', ''DELAY''])"
proof (cases "''NEVER'' \<in> set vs")
  case True
  with assms show ?thesis by (simp add: dsn_canonical_def)
next
  case False
  with assms have "vs = filter (\<lambda>v. v \<in> set vs) [''SUCCESS'', ''FAILURE'', ''DELAY'']"
    by (simp add: dsn_canonical_def dsn_notify_order_def split: if_splits)
  then have "subseq vs [''SUCCESS'', ''FAILURE'', ''DELAY'']"
    by (metis subseq_filter_left)
  then show ?thesis by (metis in_set_subseqs list.set_intros(2))
qed

lemma normalizeDSNNotify_fixed:
  assumes "dsn_canonical vs"
  shows "normalizeDSNNotify vs = Inr vs"
proof -
  have "list_all (\<lambda>vs. normalizeDSNNotify vs = Inr vs)
      ([''NEVER''] # subseqs [''SUCCESS'', ''FAILURE'', ''DELAY''])"
    by code_simp
  with dsn_canonical_cases [OF assms] show ?thesis by (auto simp: list_all_iff)
qed

section \<open>Recipients\<close>

definition normalized_emails :: "addr_parser \<Rightarrow> address list \<Rightarrow> string list" where
  "normalized_emails parse as =
     concat (map (\<lambda>a. case NormalizeAddress parse (Email a) of Inl _ \<Rightarrow> [] | Inr n \<Rightarrow> [n]) as)"

lemma recipients_from_emails:
  "map Email (recipients_from parse seen as) = dedup_from seen (normalized_emails parse as)"
  by (induction parse seen as rule: recipients_from.induct)
     (auto simp: normalized_emails_def split: sum.splits)

lemma normalizeAddressList_emails:
  "normalizeAddressList parse fld as = Inr bs \<Longrightarrow>
   length bs = length as \<and> map Email bs = normalized_emails parse as"
  by (induction parse fld as arbitrary: bs rule: normalizeAddressList.induct)
     (auto simp: normalized_emails_def split: sum.splits)

lemma normalized_emails_NormalizeAddress:
  "e \<in> set (normalized_emails parse as) \<Longrightarrow> \<exists>raw. NormalizeAddress parse raw = Inr e"
  by (auto simp: normalized_emails_def split: sum.splits)

section \<open>Truncation\<close>

lemma utf8_boundary:
  "utf8_valid v \<Longrightarrow> n \<le> length v \<Longrightarrow> \<exists>k\<le>3. k \<le> n \<and> utf8_valid (take (n - k) v)"
proof (induction "length v" arbitrary: v n rule: less_induct)
  case less
  show ?case
  proof (cases "n \<le> 3")
    case True
    then show ?thesis by (intro exI [of _ n]) simp
  next
    case False
    then obtain c s where v: "v = c # s" using less.prems by (cases v) auto
    define l where "l = (if byte_val c < 0x80 then 1 else if byte_val c \<le> 0xDF then 2
      else if byte_val c \<le> 0xEF then 3 else (4::nat))"
    have rest: "utf8_valid (drop l v)" and char: "\<And>t. utf8_valid t \<Longrightarrow> utf8_valid (take l v @ t)"
      and l: "1 \<le> l" "l \<le> 4" "l \<le> length v"
      using less.prems(1)
      by (auto simp: v l_def Let_def take_Cons' drop_Cons' split: if_splits list.splits)
    have n: "l \<le> n" using False l by linarith
    have len: "length (drop l v) < length v" and nl: "n - l \<le> length (drop l v)"
      using l less.prems(2) by auto
    obtain k where k: "k \<le> 3" "k \<le> n - l" "utf8_valid (take (n - l - k) (drop l v))"
      using less.hyps [OF len rest nl] by blast
    have "take (n - k) v = take l v @ take (n - l - k) (drop l v)"
    proof -
      have "n - k = l + (n - l - k)" using k n by linarith
      then show ?thesis using take_add [of l "n - l - k" v] by simp
    qed
    then show ?thesis using char k by (intro exI [of _ k]) auto
  qed
qed

lemma truncate_loop_prefix: "prefix (truncate_loop v) v \<and> utf8_valid (truncate_loop v)"
proof (induction v rule: truncate_loop.induct)
  case (1 v)
  show ?case
  proof (cases "\<not> utf8_valid v \<and> v \<noteq> []")
    case True
    then have "truncate_loop v = truncate_loop (butlast v)"
      by (simp add: truncate_loop.simps [of v])
    moreover have "prefix (butlast v) v" by (simp add: prefixeq_butlast)
    ultimately show ?thesis using "1.IH" True by (metis prefix_order.trans)
  next
    case False
    then show ?thesis by (auto simp: truncate_loop.simps [of v])
  qed
qed

lemma truncate_loop_longest:
  "prefix w v \<Longrightarrow> utf8_valid w \<Longrightarrow> length w \<le> length (truncate_loop v)"
proof (induction v rule: truncate_loop.induct)
  case (1 v)
  show ?case
  proof (cases "\<not> utf8_valid v \<and> v \<noteq> []")
    case True
    then have e: "truncate_loop v = truncate_loop (butlast v)"
      by (simp add: truncate_loop.simps [of v])
    have "w \<noteq> v" using True "1.prems" by auto
    then have "prefix w (butlast v)"
      using "1.prems"(1) True by (metis append_butlast_last_id prefix_snoc)
    with "1.IH" True "1.prems"(2) e show ?thesis by simp
  next
    case False
    then have "truncate_loop v = v" by (subst truncate_loop.simps) auto
    with "1.prems" show ?thesis by (simp add: prefix_length_le)
  qed
qed

section \<open>Status codes\<close>

lemma digit_run_digits: "list_all is_digit (digit_run s)"
  by (auto simp: digit_run_def list_all_iff dest: set_takeWhileD)

lemma is_digit_no_dot: "list_all is_digit d \<Longrightarrow> CHR ''.'' \<notin> set d"
  by (auto simp: list_all_iff is_digit_def)

lemma status_match_valid:
  assumes "status_match prev s = Some m"
  shows "validEnhancedDeliveryStatus m \<and> m \<noteq> [] \<and> hd m \<in> set ''245''"
proof -
  obtain d1 d2 where m: "m = take 2 s @ d1 @ ''.'' @ d2" "s \<noteq> []" "hd s \<in> set ''245''"
      "take 1 (drop 1 s) = ''.''" "d1 \<noteq> []" "length d1 \<le> 3" "d2 \<noteq> []" "length d2 \<le> 3"
      "list_all is_digit d1" "list_all is_digit d2"
    using assms digit_run_digits
    by (auto simp: status_match_def Let_def split: if_splits)
  obtain x where x: "x \<in> set ''245''" "take 2 s = [x, CHR ''.'']"
    using m by (cases s; cases "tl s") auto
  have "CHR ''.'' \<notin> set [x]" using x by auto
  moreover have "m = [x] @ CHR ''.'' # (d1 @ CHR ''.'' # d2)" using m x by simp
  ultimately have "go_Split1 (CHR ''.'') m = [[x], d1, d2]"
    using m is_digit_no_dot by (simp only: go_Split1_Cons_seg) (simp add: go_Split1_Cons_seg go_Split1_single)
  with m x show ?thesis by (simp add: validEnhancedDeliveryStatus_def)
qed

lemma find_all_status_valid:
  "m \<in> set (find_all_status prev s) \<Longrightarrow> validEnhancedDeliveryStatus m \<and> m \<noteq> [] \<and> hd m \<in> set ''245''"
proof (induction prev s rule: find_all_status.induct)
  case (1 prev s)
  show ?case
  proof (cases "s = []")
    case True
    with "1.prems" show ?thesis by (simp add: find_all_status.simps [of _ "[]"])
  next
    case False
    show ?thesis
    proof (cases "status_match prev s")
      case None
      with False "1.prems" "1.IH"(1) show ?thesis
        by (simp add: find_all_status.simps [of prev s])
    next
      case (Some x)
      note v = status_match_valid [OF Some]
      with Some False "1.prems" have "m = x \<or> m \<in> set (find_all_status (Some (last x)) (drop (length x) s))"
        by (auto simp: find_all_status.simps [of prev s] split: if_splits)
      with v "1.IH"(2) [OF False Some] show ?thesis by auto
    qed
  qed
qed

lemma enhancedStatusFromError_valid:
  assumes "enhancedStatusFromError err \<noteq> []"
  shows "\<exists>code msg. Option.bind err as_smtp = Some (code, msg) \<and>
    validEnhancedDeliveryStatus (enhancedStatusFromError err) \<and>
    int (byte_val (hd (enhancedStatusFromError err))) - 48 = code div 100"
proof -
  obtain code msg where a: "Option.bind err as_smtp = Some (code, msg)"
    using assms by (auto simp: enhancedStatusFromError_def split: option.splits)
  with assms obtain c where "find (\<lambda>c. validEnhancedDeliveryStatus c \<and>
      int (byte_val (hd c)) - 48 = code div 100) (find_all_status None msg) = Some c"
    and "enhancedStatusFromError err = c"
    by (auto simp: enhancedStatusFromError_def split: option.splits)
  then show ?thesis using a by (auto simp: find_Some_iff)
qed

section \<open>Decoded messages\<close>

definition dsn_recipients_ok :: "dsn_recipient list \<Rightarrow> bool" where
  "dsn_recipients_ok rs \<longleftrightarrow> distinct (map dr_Address rs) \<and>
     (\<forall>r\<in>set rs. dsn_canonical (dr_Notify r) \<and> length (dr_OriginalRecipient r) \<le> 500 \<and>
        \<not> containsLineBreak (dr_OriginalRecipient r))"

definition dsn_recipient_ok :: "dsn_recipient \<Rightarrow> bool" where
  "dsn_recipient_ok r \<longleftrightarrow> dsn_canonical (dr_Notify r) \<and> length (dr_OriginalRecipient r) \<le> 500 \<and>
        \<not> containsLineBreak (dr_OriginalRecipient r)"

lemma normalize_dsn_recipient_ok:
  "normalize_dsn_recipient parse r = Inr n \<Longrightarrow> dsn_recipient_ok n"
  by (auto simp: normalize_dsn_recipient_def dsn_recipient_ok_def Let_def queued_limits
      split: sum.splits if_splits dest: normalizeDSNNotify_canonical)

lemma merge_dsn_recipient_addresses:
  "merge_dsn_recipient r xs = Inr ys \<Longrightarrow>
   map dr_Address ys = (if dr_Address r \<in> set (map dr_Address xs) then map dr_Address xs
                        else map dr_Address xs @ [dr_Address r])"
  by (induction r xs arbitrary: ys rule: merge_dsn_recipient.induct) (auto split: if_splits sum.splits)

lemma merge_dsn_recipient_ok:
  "merge_dsn_recipient r xs = Inr ys \<Longrightarrow> dsn_recipient_ok r \<Longrightarrow> \<forall>x\<in>set xs. dsn_recipient_ok x \<Longrightarrow>
   \<forall>y\<in>set ys. dsn_recipient_ok y"
proof (induction r xs arbitrary: ys rule: merge_dsn_recipient.induct)
  case (2 r x xs)
  show ?case
  proof (cases "dr_Address x = dr_Address r")
    case True
    with 2 mergeDSNNotify_canonical [of "dr_Notify x" "dr_Notify r"] show ?thesis
      by (auto simp: dsn_recipient_ok_def split: sum.splits if_splits)
  next
    case False
    with 2 show ?thesis by (auto split: sum.splits)
  qed
qed auto

lemma dsn_recipients_loop_ok:
  "dsn_recipients_loop parse acc rs = Inr ys \<Longrightarrow> distinct (map dr_Address acc) \<Longrightarrow>
   \<forall>x\<in>set acc. dsn_recipient_ok x \<Longrightarrow> dsn_recipients_ok ys"
proof (induction parse acc rs rule: dsn_recipients_loop.induct)
  case (1 parse acc)
  then show ?case by (simp add: dsn_recipients_ok_def dsn_recipient_ok_def)
next
  case (2 parse acc r rs)
  then obtain n acc' where n: "normalize_dsn_recipient parse r = Inr n"
    and m: "merge_dsn_recipient n acc = Inr acc'" and l: "dsn_recipients_loop parse acc' rs = Inr ys"
    by (auto split: sum.splits)
  have "distinct (map dr_Address acc')"
    using merge_dsn_recipient_addresses [OF m] "2.prems" by simp
  moreover have "\<forall>x\<in>set acc'. dsn_recipient_ok x"
    using merge_dsn_recipient_ok [OF m normalize_dsn_recipient_ok [OF n] "2.prems"(3)] .
  ultimately show ?case using "2.IH" [OF n m l] by blast
qed

lemma normalizeQueuedDSNOptions_ok:
  assumes "normalizeQueuedDSNOptions parse d = Inr d'"
  shows "dsn_Return d' \<in> {[], ''FULL'', ''HDRS''} \<and> \<not> containsLineBreak (dsn_EnvelopeID d') \<and>
    length (dsn_EnvelopeID d') \<le> 100 \<and> dsn_recipients_ok (dsn_Recipients d')"
proof -
  have "length e \<le> 100" if "go_TrimSpace x = e" "e = [] \<or> validQueuedDSNEnvelopeID e" for e x
    using that by (auto simp: validQueuedDSNEnvelopeID_def Let_def split: if_splits)
  with assms dsn_recipients_loop_ok [of parse "[]"] show ?thesis
    unfolding normalizeQueuedDSNOptions_def Let_def
    by (auto split: if_splits sum.splits simp: dsn_recipients_ok_def)
qed

lemma normalizeQueuedRecipients_ok:
  assumes "normalizeQueuedRecipients parse q = Inr q'"
  shows "queuedRawRecipientCount q' = queuedRawRecipientCount q \<and>
    (\<forall>a\<in>set (qm_To q' @ qm_Cc q' @ qm_Bcc q'). \<exists>raw. NormalizeAddress parse raw = Inr (Email a)) \<and>
    q' = q\<lparr>qm_To := qm_To q', qm_Cc := qm_Cc q', qm_Bcc := qm_Bcc q'\<rparr>"
proof -
  obtain tos ccs bccs where l: "normalizeAddressList parse ''to'' (qm_To q) = Inr tos"
      "normalizeAddressList parse ''cc'' (qm_Cc q) = Inr ccs"
      "normalizeAddressList parse ''bcc'' (qm_Bcc q) = Inr bccs"
    and q': "q' = q\<lparr>qm_To := tos, qm_Cc := ccs, qm_Bcc := bccs\<rparr>"
    using assms by (auto simp: normalizeQueuedRecipients_def split: sum.splits)
  have "\<exists>raw. NormalizeAddress parse raw = Inr (Email a)"
    if "a \<in> set bs" "normalizeAddressList parse fld as = Inr bs" for a bs as fld
  proof -
    have "Email a \<in> set (map Email bs)" using that(1) by simp
    then have "Email a \<in> set (normalized_emails parse as)"
      using normalizeAddressList_emails [OF that(2)] by simp
    then show ?thesis by (rule normalized_emails_NormalizeAddress)
  qed
  with l q' normalizeAddressList_emails [OF l(1)] normalizeAddressList_emails [OF l(2)]
    normalizeAddressList_emails [OF l(3)] show ?thesis
    by (auto simp: queuedRawRecipientCount_def)
qed

lemma NormalizeFarm_range: "NormalizeFarm f \<in> {FarmTransactional, FarmGeneral, FarmBulk, FarmBatch}"
  by (simp add: NormalizeFarm_def Let_def)

section \<open>Properties\<close>

text \<open>A storage path that is accepted stays inside the store: it is relative, none of its
  segments is empty, a dot or two dots, it has no backslash and no line break, at most 2048
  bytes, and names an .eml object.\<close>

theorem storage_path_confined:
  assumes "normalizeQueuedStoragePath v = Inr p" and "p \<noteq> []"
  shows "(\<forall>w\<in>set (go_Split1 (CHR ''/'') p). w \<noteq> [] \<and> w \<noteq> ''.'' \<and> w \<noteq> ''..'') \<and>
    \<not> prefix ''/'' p \<and> CHR 0x5C \<notin> set p \<and> \<not> containsLineBreak p \<and>
    length p \<le> 2048 \<and> suffix ''.eml'' (go_ToLower p)"
proof -
  have p: "p = go_TrimSpace v" "path_Clean p = p" "p \<noteq> ''.''" "\<not> prefix ''/'' p"
    "\<not> hasParentPathSegment p" "\<not> containsLineBreak p" "\<not> go_Contains p [CHR 0x5C]"
    "length p \<le> maxQueuedStoragePathBytes" "suffix ''.eml'' (go_ToLower p)"
    using assms by (auto simp: normalizeQueuedStoragePath_def Let_def split: if_splits)
  have "w \<noteq> [] \<and> w \<noteq> ''.'' \<and> w \<noteq> ''..''" if "w \<in> set (go_Split1 (CHR ''/'') p)" for w
    using path_Clean_fixed [OF p(2,4,3) that] p(5) that
    by (auto simp: hasParentPathSegment_def list_ex_iff)
  moreover have "CHR 0x5C \<notin> set p"
    using p(7) by (auto simp: go_Contains_def go_Cut_single)
  ultimately show ?thesis using p by (simp add: queued_limits)
qed

theorem storage_path_confined_witness:
  "\<not> containsLineBreak ''mail/2024/m1.eml'' \<and>
   ''..'' \<notin> set (go_Split1 (CHR ''/'') ''mail/2024/m1.eml'')"
proof -
  have "normalizeQueuedStoragePath ''mail/2024/m1.eml'' = Inr ''mail/2024/m1.eml''"
    by code_simp
  from storage_path_confined [OF this] show ?thesis by blast
qed

text \<open>The notify list of a recipient is brought into a canonical form: the wanted conditions
  without repetition, in the fixed order, NEVER only alone, and the values of the list are
  exactly the (trimmed, upper-cased, non-empty) values given; normalising it again changes
  nothing.\<close>

theorem dsn_notify_canonical_form:
  assumes "normalizeDSNNotify vs = Inr rs"
  shows "rs = filter (\<lambda>v. v \<in> set rs) [''NEVER'', ''SUCCESS'', ''FAILURE'', ''DELAY''] \<and>
    (''NEVER'' \<in> set rs \<longrightarrow> rs = [''NEVER'']) \<and>
    set rs = {go_ToUpper (go_TrimSpace v) | v. v \<in> set vs} - {[]} \<and>
    normalizeDSNNotify rs = Inr rs"
proof -
  note c = normalizeDSNNotify_canonical [OF assms]
  have "rs = filter (\<lambda>v. v \<in> set rs) dsn_notify_order" "''NEVER'' \<in> set rs \<longrightarrow> rs = [''NEVER'']"
    using c unfolding dsn_canonical_def by blast+
  moreover have "set rs = {go_ToUpper (go_TrimSpace v) | v. v \<in> set vs} - {[]}"
    using c by auto
  ultimately show ?thesis
    using normalizeDSNNotify_fixed c unfolding dsn_notify_order_def by blast
qed

theorem dsn_notify_canonical_form_witness:
  "normalizeDSNNotify [''delay '', ''Success'', '' DELAY''] = Inr [''SUCCESS'', ''DELAY''] \<and>
   normalizeDSNNotify [''SUCCESS'', ''DELAY''] = Inr [''SUCCESS'', ''DELAY'']"
proof -
  have n: "normalizeDSNNotify [''delay '', ''Success'', '' DELAY''] = Inr [''SUCCESS'', ''DELAY'']"
    by code_simp
  from dsn_notify_canonical_form [OF n] n show ?thesis by blast
qed

text \<open>The recipients of a message are the normalised addresses of To, Cc and Bcc, in that
  order, each once, and an address that cannot be parsed is left out.\<close>

theorem recipients_are_distinct_and_complete:
  "distinct (map Email (qm_Recipients parse m)) \<and>
   set (map Email (qm_Recipients parse m)) =
     {n. \<exists>a\<in>set (qm_To m @ qm_Cc m @ qm_Bcc m). NormalizeAddress parse (Email a) = Inr n}"
proof -
  have "set (normalized_emails parse as) = {n. \<exists>a\<in>set as. NormalizeAddress parse (Email a) = Inr n}" for as
    by (auto simp: normalized_emails_def split: sum.splits)
  then show ?thesis
    by (simp only: qm_Recipients_def recipients_from_emails distinct_dedup_from set_dedup_from) simp
qed

text \<open>An error message is cut at a character boundary: the result has at most the allowed
  number of bytes, is valid UTF-8 when the message is, and loses at most three bytes of what
  would fit.\<close>

theorem truncate_at_character_boundary:
  assumes "utf8_valid v" and "0 < maxBytes" and "maxBytes < int (length v)"
  shows "\<exists>k\<le>3. truncateUTF8Bytes v maxBytes = take (nat maxBytes - k) v \<and>
    utf8_valid (truncateUTF8Bytes v maxBytes)"
proof -
  let ?w = "take (nat maxBytes) v"
  have t: "truncateUTF8Bytes v maxBytes = truncate_loop ?w"
    using assms by (simp add: truncateUTF8Bytes_def)
  have "nat maxBytes \<le> length v" using assms(3) by linarith
  from utf8_boundary [OF assms(1) this]
  obtain k where k: "k \<le> 3" "k \<le> nat maxBytes" "utf8_valid (take (nat maxBytes - k) v)"
    by blast
  define r where "r = truncate_loop ?w"
  have r: "prefix r ?w" "utf8_valid r" using truncate_loop_prefix [of ?w] by (simp_all add: r_def)
  have "prefix (take (nat maxBytes - k) v) ?w"
    by (metis diff_le_self min_def take_is_prefix take_take)
  then have "length (take (nat maxBytes - k) v) \<le> length r"
    unfolding r_def using k(3) by (rule truncate_loop_longest)
  then have lo: "nat maxBytes - k \<le> length r" using assms by simp
  have hi: "length r \<le> nat maxBytes" using prefix_length_le [OF r(1)] by simp
  have "r = take (length r) v"
    using r(1) hi by (metis min.absorb1 prefix_def append_eq_conv_conj take_take)
  moreover have "length r = nat maxBytes - (nat maxBytes - length r)" using hi by simp
  moreover have "nat maxBytes - length r \<le> 3" using lo k by linarith
  ultimately show ?thesis using t r(2) unfolding r_def by metis
qed

theorem truncate_at_character_boundary_witness:
  "\<exists>k\<le>3. truncateUTF8Bytes (''ab'' @ [CHR 0xC3, CHR 0xA9]) 3 = take (3 - k) (''ab'' @ [CHR 0xC3, CHR 0xA9])"
proof -
  have "utf8_valid (''ab'' @ [CHR 0xC3, CHR 0xA9])" by code_simp
  from truncate_at_character_boundary [OF this, of 3] show ?thesis by auto
qed

text \<open>The enhanced status of an attempt is always a well-formed code, and for a failure whose
  SMTP reply code is permanent it is a 5.x.x code when the attempt is recorded as bounced, so
  a bounce is never reported with a temporary or a success code.\<close>

theorem enhanced_status_agrees:
  "validEnhancedDeliveryStatus (enhancedStatusForAttempt status err) \<and>
   (IsPermanentFailure err \<longrightarrow> hd (enhancedStatusForAttempt AttemptBounced err) = CHR ''5'')"
proof -
  have "validEnhancedDeliveryStatus (enhancedStatusForAttempt status err)" for status err
  proof (cases "enhancedStatusFromError err = []")
    case True
    have "validEnhancedDeliveryStatus ''2.0.0''" "validEnhancedDeliveryStatus ''4.0.0''"
      "validEnhancedDeliveryStatus ''5.0.0''" by code_simp+
    with True show ?thesis by (cases status) (simp_all add: enhancedStatusForAttempt_def)
  next
    case False
    with enhancedStatusFromError_valid [OF False] show ?thesis
      by (auto simp: enhancedStatusForAttempt_def Let_def)
  qed
  moreover have "hd (enhancedStatusForAttempt AttemptBounced err) = CHR ''5''" if perm: "IsPermanentFailure err"
  proof (cases "enhancedStatusFromError err = []")
    case True
    then show ?thesis by (simp add: enhancedStatusForAttempt_def)
  next
    case False
    obtain code msg where c: "Option.bind err as_smtp = Some (code, msg)"
      "int (byte_val (hd (enhancedStatusFromError err))) - 48 = code div 100"
      using enhancedStatusFromError_valid [OF False] by blast
    with perm have "500 \<le> code" "code \<le> 599"
      by (auto simp: IsPermanentFailure_def smtp_Permanent_def)
    then have "code div 100 = 5" by auto
    with c have "byte_val (hd (enhancedStatusFromError err)) = byte_val (CHR ''5'')" by simp
    then have "hd (enhancedStatusFromError err) = CHR ''5''" by (simp only: byte_val_inject)
    with False show ?thesis by (simp add: enhancedStatusForAttempt_def)
  qed
  ultimately show ?thesis by blast
qed

theorem enhanced_status_agrees_witness:
  "hd (enhancedStatusForAttempt AttemptBounced
     (Some (ErrSMTP ''rcpt'' 550 ''4.2.2 full, 5.1.1 unknown'' None))) = CHR ''5''"
proof -
  have "IsPermanentFailure (Some (ErrSMTP ''rcpt'' 550 ''4.2.2 full, 5.1.1 unknown'' None))"
    by code_simp
  with enhanced_status_agrees show ?thesis by blast
qed

text \<open>
  C37. What a decoded message satisfies: it is a mail.queued event; its message id is not
  empty, has no line break and at most 200 bytes; its farm is one of the four farms; it has
  between 1 and 100 recipient addresses, each of them the normalised form of an address; and
  its notification options are normalised, one entry per address; its storage path is empty or one that is accepted
  as it is. (The RFC message id and the envelope id are not part of this.)\<close>

theorem decoded_message_is_normalised:
  assumes "DecodeQueuedMessage parse decoded = Inr q"
  shows "qm_Event q = ''mail.queued'' \<and>
    qm_MessageID q \<noteq> [] \<and> \<not> containsLineBreak (qm_MessageID q) \<and> length (qm_MessageID q) \<le> 200 \<and>
    qm_Farm q \<in> {FarmTransactional, FarmGeneral, FarmBulk, FarmBatch} \<and>
    1 \<le> queuedRawRecipientCount q \<and> queuedRawRecipientCount q \<le> 100 \<and>
    (\<forall>a\<in>set (qm_To q @ qm_Cc q @ qm_Bcc q). \<exists>raw. NormalizeAddress parse raw = Inr (Email a)) \<and>
    dsn_Return (qm_DSN q) \<in> {[], ''FULL'', ''HDRS''} \<and> dsn_recipients_ok (dsn_Recipients (qm_DSN q)) \<and>
    normalizeQueuedStoragePath (qm_StoragePath q) = Inr (qm_StoragePath q)"
proof -
  obtain q0 where d: "decoded = Inr q0"
    using assms by (cases decoded) (auto simp: DecodeQueuedMessage_def)
  define q1 where "q1 = q0\<lparr>qm_MessageID := go_TrimSpace (qm_MessageID q0),
    qm_RFCMessageID := go_TrimSpace (qm_RFCMessageID q0)\<rparr>"
  obtain from' q3 d' p where
      ev: "qm_Event q0 = ''mail.queued''"
    and id: "qm_MessageID q1 \<noteq> []" "\<not> containsLineBreak (qm_MessageID q1)"
      "\<not> maxQueuedMessageIDBytes < length (qm_MessageID q1)"
    and cnt: "\<not> maxQueuedRecipientCount < queuedRawRecipientCount (q1\<lparr>qm_From := (qm_From q1)\<lparr>Email := from'\<rparr>\<rparr>)"
    and rec: "normalizeQueuedRecipients parse (q1\<lparr>qm_From := (qm_From q1)\<lparr>Email := from'\<rparr>\<rparr>) = Inr q3"
    and dsn: "normalizeQueuedDSNOptions parse (qm_DSN q3) = Inr d'"
    and path: "normalizeQueuedStoragePath (qm_StoragePath q3) = Inr p"
    and q: "q = q3\<lparr>qm_Farm := NormalizeFarm (qm_Farm q3), qm_DSN := d', qm_StoragePath := p\<rparr>"
    and ne: "queuedRawRecipientCount q \<noteq> 0"
    using assms unfolding DecodeQueuedMessage_def d Let_def q1_def
    by (simp split: if_splits sum.splits)
  note r = normalizeQueuedRecipients_ok [OF rec]
  from r have e: "q3 = q1\<lparr>qm_From := (qm_From q1)\<lparr>Email := from'\<rparr>, qm_To := qm_To q3,
      qm_Cc := qm_Cc q3, qm_Bcc := qm_Bcc q3\<rparr>" by blast
  have "qm_Event q3 = qm_Event q1" by (subst e) simp
  with ev have q3: "qm_Event q3 = ''mail.queued''" by (simp add: q1_def)
  have id3: "qm_MessageID q3 = qm_MessageID q1" by (subst e) simp
  have cnt3: "queuedRawRecipientCount q3 \<le> maxQueuedRecipientCount"
    and addr: "\<forall>a\<in>set (qm_To q3 @ qm_Cc q3 @ qm_Bcc q3). \<exists>raw. NormalizeAddress parse raw = Inr (Email a)"
    using r cnt by (simp_all add: not_less)
  have "normalizeQueuedStoragePath p = Inr p"
    using path by (auto simp: normalizeQueuedStoragePath_def Let_def split: if_splits)
  moreover have "queuedRawRecipientCount q = queuedRawRecipientCount q3"
    by (simp add: q queuedRawRecipientCount_def)
  ultimately show ?thesis
    using q3 id id3 cnt3 addr ne normalizeQueuedDSNOptions_ok [OF dsn] NormalizeFarm_range [of "qm_Farm q3"]
    by (simp add: q queued_limits)
qed

definition identity_parser :: addr_parser where
  "identity_parser a = Some a"

definition sample_message :: queued_message where
  "sample_message =
     \<lparr>qm_Event = ''mail.queued'', qm_MessageID = '' m1 '', qm_RFCMessageID = ''r1'', qm_CompanyID = ''c'',
      qm_DomainID = ''d'', qm_UserID = ''u'', qm_Farm = '' BULK '',
      qm_From = \<lparr>Name = [], Email = ''Me@Example.org''\<rparr>,
      qm_To = [\<lparr>Name = [], Email = ''A@b.org''\<rparr>, \<lparr>Name = [], Email = ''c@d.org''\<rparr>],
      qm_Cc = [\<lparr>Name = [], Email = ''a@B.org''\<rparr>], qm_Bcc = [],
      qm_DSN = \<lparr>dsn_Return = ''full'', dsn_EnvelopeID = [], dsn_Recipients = []\<rparr>,
      qm_Subject = ''s'', qm_StoragePath = ''mail/m1.eml'', qm_Size = 10, qm_RetryAttempt = 0\<rparr>"

theorem decoded_message_is_normalised_witness:
  "\<exists>q. DecodeQueuedMessage identity_parser (Inr sample_message) = Inr q \<and>
     qm_Farm q \<in> {FarmTransactional, FarmGeneral, FarmBulk, FarmBatch}"
proof -
  have "\<not> isl (DecodeQueuedMessage identity_parser (Inr sample_message))" by code_simp
  then obtain q where q: "DecodeQueuedMessage identity_parser (Inr sample_message) = Inr q"
    by (cases "DecodeQueuedMessage identity_parser (Inr sample_message)") auto
  from decoded_message_is_normalised [OF q] q show ?thesis by blast
qed

end
