(* ===== verification/DeliveryLimits.thy ===== *)
theory DeliveryLimits
  imports DeliveryJob
begin

text \<open>
  What holds deliveries back (\<open>internal/delivery\<close>): the concurrency throttle with its local
  and its Redis counter (\<open>throttle.go\<close>), the per-minute rate limiter (\<open>rate_limiter.go\<close>), the
  domain back-off (\<open>backoff.go\<close>), the circuit breaker (\<open>circuit_breaker.go\<close>), the idle
  connection pool (\<open>pool.go\<close>) and the outcome counters (\<open>counter.go\<close>). The counter behind
  the throttle is the locale \<open>throttle_counter\<close>, interpreted for both implementations; the Lua
  scripts the Redis one sends are definitions over the key-value store they run on, which
  Redis runs one script at a time.
\<close>

section \<open>Throttle\<close>

record lease =
  Key :: string
  Limit :: int

text \<open>A Go map that is iterated is the list of its entries in the order of the iteration.\<close>

record throttle_policy =
  FarmMaxConcurrent :: "farm \<rightharpoonup> int"
  DomainMaxConcurrent :: "string \<rightharpoonup> int"
  DefaultConcurrent :: int

definition copyFarmLimits :: "(farm \<times> int) list \<Rightarrow> farm \<rightharpoonup> int" where
  "copyFarmLimits entries =
     fold (\<lambda>(f, limit) out. if 0 < limit then out(f \<mapsto> limit) else out) entries Map.empty"

definition copyDomainLimits :: "(string \<times> int) list \<Rightarrow> string \<rightharpoonup> int" where
  "copyDomainLimits entries =
     fold (\<lambda>(d, limit) out. let d = go_ToLower (go_TrimSpace d) in
             if d \<noteq> [] \<and> 0 < limit then out(d \<mapsto> limit) else out) entries Map.empty"

definition normalizeThrottlePolicy ::
    "(farm \<times> int) list \<Rightarrow> (string \<times> int) list \<Rightarrow> int \<Rightarrow> throttle_policy" where
  "normalizeThrottlePolicy farms domains dflt =
     \<lparr>FarmMaxConcurrent = copyFarmLimits farms, DomainMaxConcurrent = copyDomainLimits domains,
      DefaultConcurrent = (if dflt < 0 then 0 else dflt)\<rparr>"

definition map_get :: "('k \<rightharpoonup> int) \<Rightarrow> 'k \<Rightarrow> int" where
  "map_get m k = (case m k of None \<Rightarrow> 0 | Some v \<Rightarrow> v)"

definition throttle_limitFor :: "throttle_policy \<Rightarrow> string \<Rightarrow> int" where
  "throttle_limitFor P key =
     (case go_CutPrefix key ''farm:'' of
        Some f \<Rightarrow>
          if 0 < map_get (FarmMaxConcurrent P) f then map_get (FarmMaxConcurrent P) f
          else (case go_CutPrefix key ''domain:'' of
                  Some d \<Rightarrow> if 0 < map_get (DomainMaxConcurrent P) d
                             then map_get (DomainMaxConcurrent P) d else DefaultConcurrent P
                | None \<Rightarrow> DefaultConcurrent P)
      | None \<Rightarrow>
          (case go_CutPrefix key ''domain:'' of
             Some d \<Rightarrow> if 0 < map_get (DomainMaxConcurrent P) d
                        then map_get (DomainMaxConcurrent P) d else DefaultConcurrent P
           | None \<Rightarrow> DefaultConcurrent P))"

definition dedupeStrings :: "string list \<Rightarrow> string list" where
  "dedupeStrings vs = dedup_first vs"

definition throttleKeys :: "addr_parser \<Rightarrow> job \<Rightarrow> string list" where
  "throttleKeys parse j =
     dedupeStrings ((''farm:'' @ qm_Farm (jb_queued j)) #
       map (\<lambda>d. ''domain:'' @ d)
         (filter (\<lambda>d. d \<noteq> []) (map (\<lambda>r. domainFromAddress (Email r)) (job_Recipients parse j))))"

definition leasesFor :: "addr_parser \<Rightarrow> throttle_policy \<Rightarrow> job \<Rightarrow> lease list" where
  "leasesFor parse P j =
     map (\<lambda>k. \<lparr>Key = k, Limit = throttle_limitFor P k\<rparr>)
       (filter (\<lambda>k. 0 < throttle_limitFor P k) (throttleKeys parse j))"

subsection \<open>The local counter\<close>

type_synonym local_counter = "string \<Rightarrow> int"

definition local_Acquire :: "lease list \<Rightarrow> local_counter \<Rightarrow> lease option \<times> local_counter" where
  "local_Acquire leases used =
     (case find (\<lambda>l. 0 < Limit l \<and> Limit l \<le> used (Key l)) leases of
        Some l \<Rightarrow> (Some l, used)
      | None \<Rightarrow> (None, fold (\<lambda>l u. u(Key l := u (Key l) + 1)) leases used))"

text \<open>What the release closure does the one time it runs.\<close>

definition local_Release :: "lease list \<Rightarrow> local_counter \<Rightarrow> local_counter" where
  "local_Release leases used =
     fold (\<lambda>l u. if 0 < u (Key l) then u(Key l := u (Key l) - 1) else u) leases used"

subsection \<open>The Redis counter\<close>

type_synonym redis_counter = "string \<rightharpoonup> int"

definition redis_throttle_acquire_script ::
    "string list \<Rightarrow> int list \<Rightarrow> redis_counter \<Rightarrow> (string \<times> int) option \<times> redis_counter" where
  "redis_throttle_acquire_script keys limits db =
     (case find (\<lambda>(k, limit). 0 < limit \<and> limit \<le> map_get db k) (zip keys limits) of
        Some (k, limit) \<Rightarrow> (Some (k, limit), db)
      | None \<Rightarrow> (None, fold (\<lambda>k db. db(k \<mapsto> map_get db k + 1)) keys db))"

definition redis_throttle_release_script :: "string list \<Rightarrow> redis_counter \<Rightarrow> redis_counter" where
  "redis_throttle_release_script keys db =
     fold (\<lambda>k db. if 1 < map_get db k then db(k \<mapsto> map_get db k - 1) else db(k := None)) keys db"

definition redis_throttle_prefix :: "string \<Rightarrow> string" where
  "redis_throttle_prefix p0 =
     (let p = go_TrimSpace p0 in
      go_TrimRight (if p = [] then ''gogomail:delivery:throttle'' else p) '':'')"

definition redisKey :: "string \<Rightarrow> string \<Rightarrow> string" where
  "redisKey pre key = pre @ '':'' @ go_TrimSpace key"

text \<open>The keys a list of leases locks; a lease without a limit is skipped.\<close>

definition redis_lease_keys :: "string \<Rightarrow> lease list \<Rightarrow> string list" where
  "redis_lease_keys pre leases = map (\<lambda>l. redisKey pre (Key l)) (filter (\<lambda>l. 0 < Limit l) leases)"

definition redis_Acquire ::
    "string \<Rightarrow> lease list \<Rightarrow> redis_counter \<Rightarrow> lease option \<times> redis_counter" where
  "redis_Acquire pre leases db =
     (let keys = redis_lease_keys pre leases;
          args = map Limit (filter (\<lambda>l. 0 < Limit l) leases)
      in if keys = [] then (None, db)
         else (case redis_throttle_acquire_script keys args db of
                 (Some (k, limit), db') \<Rightarrow>
                   (Some \<lparr>Key = go_TrimPrefix k (pre @ '':''), Limit = limit\<rparr>, db')
               | (None, db') \<Rightarrow> (None, db')))"

definition redis_Release :: "string \<Rightarrow> lease list \<Rightarrow> redis_counter \<Rightarrow> redis_counter" where
  "redis_Release pre leases db =
     (let keys = redis_lease_keys pre leases in
      if keys = [] then db else redis_throttle_release_script keys db)"

subsection \<open>The contract of a counter\<close>

definition leases_ok :: "(string \<Rightarrow> bool) \<Rightarrow> lease list \<Rightarrow> bool" where
  "leases_ok ok_key ls \<longleftrightarrow> distinct (map Key ls) \<and> (\<forall>l\<in>set ls. 0 < Limit l \<and> ok_key (Key l))"

locale throttle_counter =
  fixes acquire :: "lease list \<Rightarrow> 's \<Rightarrow> lease option \<times> 's"
    and release :: "lease list \<Rightarrow> 's \<Rightarrow> 's"
    and in_use :: "'s \<Rightarrow> string \<Rightarrow> int"
    and ok_key :: "string \<Rightarrow> bool"
  assumes refused: "leases_ok ok_key ls \<Longrightarrow> acquire ls s = (Some l, s') \<Longrightarrow>
      s' = s \<and> l \<in> set ls \<and> Limit l \<le> in_use s (Key l)"
    and granted: "leases_ok ok_key ls \<Longrightarrow> acquire ls s = (None, s') \<Longrightarrow>
      (\<forall>l\<in>set ls. in_use s (Key l) < Limit l) \<and>
      (\<forall>k. ok_key k \<longrightarrow> in_use s' k = in_use s k + (if k \<in> Key ` set ls then 1 else 0))"
    and given_back: "leases_ok ok_key ls \<Longrightarrow> (\<forall>l\<in>set ls. 0 < in_use s (Key l)) \<Longrightarrow> ok_key k \<Longrightarrow>
      in_use (release ls s) k = in_use s k - (if k \<in> Key ` set ls then 1 else 0)"

text \<open>Deliveries in flight: each holds the leases it was granted until it releases them.\<close>

record 's throttled =
  th_counter :: 's
  th_flying :: "nat \<rightharpoonup> lease list"

inductive throttle_step ::
    "(lease list \<Rightarrow> 's \<Rightarrow> lease option \<times> 's) \<Rightarrow> (lease list \<Rightarrow> 's \<Rightarrow> 's) \<Rightarrow> lease list set \<Rightarrow>
     's throttled \<Rightarrow> 's throttled \<Rightarrow> bool"
  for acquire :: "lease list \<Rightarrow> 's \<Rightarrow> lease option \<times> 's" and release :: "lease list \<Rightarrow> 's \<Rightarrow> 's"
    and wants :: "lease list set" where
  begin_delivery: "ls \<in> wants \<Longrightarrow> th_flying t i = None \<Longrightarrow> acquire ls (th_counter t) = (None, c') \<Longrightarrow>
    throttle_step acquire release wants t \<lparr>th_counter = c', th_flying = (th_flying t)(i \<mapsto> ls)\<rparr>"
| refused_delivery: "ls \<in> wants \<Longrightarrow> acquire ls (th_counter t) = (Some l, c') \<Longrightarrow>
    throttle_step acquire release wants t (t\<lparr>th_counter := c'\<rparr>)"
| end_delivery: "th_flying t i = Some ls \<Longrightarrow>
    throttle_step acquire release wants t
      \<lparr>th_counter = release ls (th_counter t), th_flying = (th_flying t)(i := None)\<rparr>"

definition holders :: "(nat \<rightharpoonup> lease list) \<Rightarrow> string \<Rightarrow> nat set" where
  "holders flying k = {i. \<exists>ls. flying i = Some ls \<and> k \<in> Key ` set ls}"

text \<open>Every delivery wants leases with the limit of the policy.\<close>

definition wants_policy :: "(string \<Rightarrow> bool) \<Rightarrow> (string \<Rightarrow> int) \<Rightarrow> lease list set \<Rightarrow> bool" where
  "wants_policy ok_key limit wants \<longleftrightarrow>
     (\<forall>ls\<in>wants. leases_ok ok_key ls \<and> (\<forall>l\<in>set ls. Limit l = limit (Key l)))"

definition throttle_inv ::
    "('s \<Rightarrow> string \<Rightarrow> int) \<Rightarrow> (string \<Rightarrow> bool) \<Rightarrow> (string \<Rightarrow> int) \<Rightarrow> lease list set \<Rightarrow> 's throttled \<Rightarrow> bool" where
  "throttle_inv in_use ok_key limit wants t \<longleftrightarrow>
     finite (dom (th_flying t)) \<and> ran (th_flying t) \<subseteq> wants \<and>
     (\<forall>k. ok_key k \<longrightarrow> in_use (th_counter t) k = int (card (holders (th_flying t) k)) \<and>
        (0 < limit k \<longrightarrow> in_use (th_counter t) k \<le> limit k))"

lemma holders_finite: "finite (dom f) \<Longrightarrow> finite (holders f k)"
  by (rule finite_subset [of _ "dom f"]) (auto simp: holders_def)

lemma card_holders_add:
  assumes "finite (dom f)" and "f i = None"
  shows "int (card (holders (f(i \<mapsto> ls)) k)) =
    int (card (holders f k)) + (if k \<in> Key ` set ls then 1 else 0)"
proof -
  have "holders (f(i \<mapsto> ls)) k = (if k \<in> Key ` set ls then insert i (holders f k) else holders f k)"
    using assms(2) by (auto simp: holders_def split: if_splits)
  moreover have "i \<notin> holders f k" using assms(2) by (simp add: holders_def)
  ultimately show ?thesis using holders_finite [OF assms(1), of k] by simp
qed

lemma card_holders_remove:
  assumes "finite (dom f)" and "f i = Some ls"
  shows "int (card (holders (f(i := None)) k)) =
    int (card (holders f k)) - (if k \<in> Key ` set ls then 1 else 0)"
proof -
  have "f = (f(i := None))(i \<mapsto> ls)" using assms(2) by auto
  then show ?thesis
    using card_holders_add [of "f(i := None)" i ls k] assms(1) by simp
qed

context throttle_counter
begin

lemma throttle_step_inv:
  assumes "throttle_step acquire release wants t t'" and w: "wants_policy ok_key limit wants"
    and inv: "throttle_inv in_use ok_key limit wants t"
  shows "throttle_inv in_use ok_key limit wants t'"
  using assms(1)
proof cases
  case (begin_delivery ls i c')
  have ok: "leases_ok ok_key ls" and lim: "\<And>l. l \<in> set ls \<Longrightarrow> Limit l = limit (Key l)"
    using w begin_delivery by (auto simp: wants_policy_def)
  note g = granted [OF ok begin_delivery(4)]
  have fin: "finite (dom (th_flying t))" and ran: "ran (th_flying t) \<subseteq> wants"
    using inv by (simp_all add: throttle_inv_def)
  have "in_use c' k = int (card (holders ((th_flying t)(i \<mapsto> ls)) k)) \<and>
      (0 < limit k \<longrightarrow> in_use c' k \<le> limit k)" if k: "ok_key k" for k
  proof -
    have old: "in_use (th_counter t) k = int (card (holders (th_flying t) k))"
      "0 < limit k \<longrightarrow> in_use (th_counter t) k \<le> limit k"
      using inv k by (auto simp: throttle_inv_def)
    have new: "in_use c' k = in_use (th_counter t) k + (if k \<in> Key ` set ls then 1 else 0)"
      using g k by blast
    have "in_use (th_counter t) k < limit k" if "k \<in> Key ` set ls"
      using that g lim by force
    with old new show ?thesis
      using card_holders_add [OF fin begin_delivery(3), of ls k] by auto
  qed
  moreover have "ran ((th_flying t)(i \<mapsto> ls)) \<subseteq> wants"
    using ran begin_delivery by (auto simp: ran_def split: if_splits)
  moreover have "finite (dom ((th_flying t)(i \<mapsto> ls)))" using fin by simp
  ultimately show ?thesis
    unfolding throttle_inv_def begin_delivery(1) throttled.simps by blast
next
  case (refused_delivery ls l c')
  have "leases_ok ok_key ls" using w refused_delivery by (auto simp: wants_policy_def)
  from refused [OF this refused_delivery(3)] have "t' = t"
    using refused_delivery by (cases t) simp
  with inv show ?thesis by simp
next
  case (end_delivery i ls)
  have fin: "finite (dom (th_flying t))" and ran: "ran (th_flying t) \<subseteq> wants"
    using inv by (simp_all add: throttle_inv_def)
  have "ls \<in> wants" using ran end_delivery(2) by (auto simp: ran_def)
  then have ok: "leases_ok ok_key ls" using w by (auto simp: wants_policy_def)
  have count: "in_use (th_counter t) k = int (card (holders (th_flying t) k))"
      "0 < limit k \<longrightarrow> in_use (th_counter t) k \<le> limit k" if "ok_key k" for k
    using inv that by (auto simp: throttle_inv_def)
  have "0 < in_use (th_counter t) (Key l)" if l: "l \<in> set ls" for l
  proof -
    have "i \<in> holders (th_flying t) (Key l)" using end_delivery(2) l by (auto simp: holders_def)
    then have "0 < card (holders (th_flying t) (Key l))"
      using holders_finite [OF fin] by (auto simp: card_gt_0_iff)
    with count(1) l ok show ?thesis by (auto simp: leases_ok_def)
  qed
  then have "\<forall>l\<in>set ls. 0 < in_use (th_counter t) (Key l)" by blast
  note ret = given_back [OF ok this]
  have "in_use (release ls (th_counter t)) k = int (card (holders ((th_flying t)(i := None)) k)) \<and>
      (0 < limit k \<longrightarrow> in_use (release ls (th_counter t)) k \<le> limit k)" if "ok_key k" for k
    using ret [OF that] count [OF that] card_holders_remove [OF fin end_delivery(2), of k] by auto
  moreover have "finite (dom ((th_flying t)(i := None)))"
    using fin by (metis dom_fun_upd finite_Diff fun_upd_apply)
  moreover have "ran ((th_flying t)(i := None)) \<subseteq> wants"
    using ran by (auto simp: ran_def split: if_splits)
  ultimately show ?thesis
    unfolding throttle_inv_def end_delivery(1) throttled.simps by blast
qed

lemma throttle_reachable_inv:
  assumes "(throttle_step acquire release wants)\<^sup>*\<^sup>* \<lparr>th_counter = c0, th_flying = Map.empty\<rparr> t"
    and "wants_policy ok_key limit wants" and "\<And>k. in_use c0 k = 0"
  shows "throttle_inv in_use ok_key limit wants t"
  using assms(1)
proof (induction rule: rtranclp_induct)
  case base
  show ?case using assms(3) by (simp add: throttle_inv_def holders_def)
next
  case (step t t')
  then show ?case using throttle_step_inv assms(2) by blast
qed

end

subsection \<open>Both counters keep the contract\<close>

lemma find_None_all: "find P xs = None \<longleftrightarrow> (\<forall>x\<in>set xs. \<not> P x)"
  by (auto simp: find_None_iff)

lemma fold_incr:
  "distinct (map Key ls) \<Longrightarrow>
   fold (\<lambda>l u. u(Key l := u (Key l) + 1)) ls (used :: local_counter) k =
     used k + (if k \<in> Key ` set ls then 1 else 0)"
  by (induction ls arbitrary: used) auto

lemma fold_decr:
  "distinct (map Key ls) \<Longrightarrow> \<forall>l\<in>set ls. 0 < used (Key l) \<Longrightarrow>
   fold (\<lambda>l u. if 0 < u (Key l) then u(Key l := u (Key l) - 1) else u) ls (used :: local_counter) k =
     used k - (if k \<in> Key ` set ls then 1 else 0)"
proof (induction ls arbitrary: used)
  case (Cons l ls)
  have "\<forall>x\<in>set ls. 0 < (used(Key l := used (Key l) - 1)) (Key x)"
    using Cons.prems by (metis distinct.simps(2) fun_upd_other image_eqI list.set_intros(2)
        list.simps(9) set_map)
  with Cons show ?case by auto
qed simp

interpretation local_counter: throttle_counter local_Acquire local_Release "\<lambda>u k. u k" "\<lambda>_. True"
proof unfold_locales
  fix ls :: "lease list" and s s' :: local_counter and l k
  assume ok: "leases_ok (\<lambda>_. True) ls"
  show "s' = s \<and> l \<in> set ls \<and> Limit l \<le> s (Key l)" if "local_Acquire ls s = (Some l, s')"
    using that by (auto simp: local_Acquire_def find_Some_iff split: option.splits)
  show "(\<forall>l\<in>set ls. s (Key l) < Limit l) \<and>
      (\<forall>k. True \<longrightarrow> s' k = s k + (if k \<in> Key ` set ls then 1 else 0))"
    if "local_Acquire ls s = (None, s')"
    using that ok
    by (auto simp: local_Acquire_def find_None_all fold_incr leases_ok_def split: option.splits)
  show "local_Release ls s k = s k - (if k \<in> Key ` set ls then 1 else 0)"
    if "\<forall>l\<in>set ls. 0 < s (Key l)"
    using that ok by (simp add: local_Release_def fold_decr leases_ok_def)
qed

text \<open>The keys of the store for a prefix: different trimmed keys give different store keys.\<close>

lemma redisKey_inject:
  "go_TrimSpace a = a \<Longrightarrow> go_TrimSpace b = b \<Longrightarrow> redisKey pre a = redisKey pre b \<longleftrightarrow> a = b"
  by (simp add: redisKey_def)

abbreviation trimmed :: "string \<Rightarrow> bool" where
  "trimmed k \<equiv> go_TrimSpace k = k"

lemma redis_lease_keys_ok:
  assumes "leases_ok trimmed ls"
  shows "redis_lease_keys pre ls = map (\<lambda>l. redisKey pre (Key l)) ls"
    and "filter (\<lambda>l. 0 < Limit l) ls = ls" and "distinct (map (\<lambda>l. redisKey pre (Key l)) ls)"
    and "trimmed k \<Longrightarrow> redisKey pre k \<in> (\<lambda>l. redisKey pre (Key l)) ` set ls \<longleftrightarrow> k \<in> Key ` set ls"
proof -
  show f: "filter (\<lambda>l. 0 < Limit l) ls = ls"
    using assms by (intro filter_True) (auto simp: leases_ok_def)
  then show "redis_lease_keys pre ls = map (\<lambda>l. redisKey pre (Key l)) ls"
    by (simp add: redis_lease_keys_def)
  have t: "trimmed (Key l)" if "l \<in> set ls" for l using assms that by (auto simp: leases_ok_def)
  have "inj_on (\<lambda>l. redisKey pre (Key l)) (set ls)"
    using assms t redisKey_inject by (auto simp: inj_on_def leases_ok_def distinct_map)
  moreover have "distinct ls" using assms by (simp add: leases_ok_def distinct_map)
  ultimately show "distinct (map (\<lambda>l. redisKey pre (Key l)) ls)" by (simp add: distinct_map)
  show "redisKey pre k \<in> (\<lambda>l. redisKey pre (Key l)) ` set ls \<longleftrightarrow> k \<in> Key ` set ls" if "trimmed k"
    using that t redisKey_inject [of k _ pre] by (auto simp: image_iff)
qed

lemma fold_redis_incr:
  "distinct ks \<Longrightarrow> map_get (fold (\<lambda>k db. db(k \<mapsto> map_get db k + 1)) ks db) k =
     map_get db k + (if k \<in> set ks then 1 else 0)"
proof (induction ks arbitrary: db)
  case (Cons x ks)
  then show ?case by (cases "k = x") (simp_all add: map_get_def)
qed simp

lemma fold_redis_decr:
  "distinct ks \<Longrightarrow> \<forall>k\<in>set ks. 0 < map_get db k \<Longrightarrow>
   map_get (redis_throttle_release_script ks db) k = map_get db k - (if k \<in> set ks then 1 else 0)"
proof (induction ks arbitrary: db)
  case Nil
  then show ?case by (simp add: redis_throttle_release_script_def)
next
  case (Cons x ks)
  define db' where "db' = (if 1 < map_get db x then db(x \<mapsto> map_get db x - 1) else db(x := None))"
  have get: "map_get db' j = map_get db j - (if j = x then 1 else 0)" for j
    using Cons.prems(2) by (auto simp: db'_def map_get_def)
  then have "\<forall>k\<in>set ks. 0 < map_get db' k" using Cons.prems by auto
  then have "map_get (redis_throttle_release_script ks db') k = map_get db' k - (if k \<in> set ks then 1 else 0)"
    using Cons by simp
  moreover have "redis_throttle_release_script (x # ks) db = redis_throttle_release_script ks db'"
    by (simp add: redis_throttle_release_script_def db'_def)
  ultimately show ?case using get Cons.prems(1) by auto
qed

interpretation redis_counter: throttle_counter "redis_Acquire pre" "redis_Release pre"
  "\<lambda>db k. map_get db (redisKey pre k)" trimmed for pre
proof unfold_locales
  fix ls :: "lease list" and s s' :: redis_counter and l k
  assume ok: "leases_ok trimmed ls"
  note K = redis_lease_keys_ok(1) [OF ok, of pre] redis_lease_keys_ok(2) [OF ok]
    redis_lease_keys_ok(3,4) [OF ok, where pre = pre]
  let ?ks = "map (\<lambda>l. redisKey pre (Key l)) ls"
  have zip: "zip ?ks (map Limit ls) = map (\<lambda>l. (redisKey pre (Key l), Limit l)) ls"
    by (simp add: zip_map_map zip_same_conv_map)
  have acq: "redis_Acquire pre ls s = (if ls = [] then (None, s) else
      (case redis_throttle_acquire_script ?ks (map Limit ls) s of
         (Some (k, limit), db') \<Rightarrow> (Some \<lparr>Key = go_TrimPrefix k (pre @ '':''), Limit = limit\<rparr>, db')
       | (None, db') \<Rightarrow> (None, db')))"
    by (simp add: redis_Acquire_def K)
  show "s' = s \<and> l \<in> set ls \<and> Limit l \<le> map_get s (redisKey pre (Key l))"
    if "redis_Acquire pre ls s = (Some l, s')"
  proof -
    from that acq obtain k limit where
        f: "find (\<lambda>(k, limit). 0 < limit \<and> limit \<le> map_get s k) (zip ?ks (map Limit ls)) = Some (k, limit)"
      and l: "l = \<lparr>Key = go_TrimPrefix k (pre @ '':''), Limit = limit\<rparr>" and s': "s' = s"
      by (auto simp: redis_throttle_acquire_script_def split: if_splits option.splits prod.splits)
    from f have "(k, limit) \<in> set (zip ?ks (map Limit ls))" and le: "limit \<le> map_get s k"
      by (auto simp: find_Some_iff set_conv_nth)
    then obtain x where x: "x \<in> set ls" "k = redisKey pre (Key x)" "limit = Limit x"
      unfolding zip by auto
    have "go_TrimSpace (Key x) = Key x" using ok x(1) by (auto simp: leases_ok_def)
    then have "l = x" using l x by (simp add: redisKey_def go_TrimPrefix_def)
    with x s' le show ?thesis by simp
  qed
  show "(\<forall>l\<in>set ls. map_get s (redisKey pre (Key l)) < Limit l) \<and>
      (\<forall>k. trimmed k \<longrightarrow> map_get s' (redisKey pre k) =
         map_get s (redisKey pre k) + (if k \<in> Key ` set ls then 1 else 0))"
    if "redis_Acquire pre ls s = (None, s')"
  proof (cases "ls = []")
    case True
    with that acq show ?thesis by simp
  next
    case False
    with that acq have f: "find (\<lambda>(k, limit). 0 < limit \<and> limit \<le> map_get s k) (zip ?ks (map Limit ls)) = None"
      and s': "s' = fold (\<lambda>k db. db(k \<mapsto> map_get db k + 1)) ?ks s"
      by (auto simp: redis_throttle_acquire_script_def split: if_splits option.splits prod.splits)
    from f ok have "\<forall>l\<in>set ls. map_get s (redisKey pre (Key l)) < Limit l"
      unfolding zip find_None_all by (auto simp: leases_ok_def)
    moreover have "map_get s' (redisKey pre k) =
        map_get s (redisKey pre k) + (if k \<in> Key ` set ls then 1 else 0)" if "trimmed k" for k
      using fold_redis_incr [OF K(3)] K(4) [OF that] s' by simp
    ultimately show ?thesis by blast
  qed
  show "map_get (redis_Release pre ls s) (redisKey pre k) =
      map_get s (redisKey pre k) - (if k \<in> Key ` set ls then 1 else 0)"
    if "\<forall>l\<in>set ls. 0 < map_get s (redisKey pre (Key l))" and "trimmed k"
    using fold_redis_decr [OF K(3), of s "redisKey pre k"] that K(4) [OF that(2)]
    by (auto simp: redis_Release_def K)
qed

lemma leasesFor_ok:
  assumes "\<forall>k\<in>set (throttleKeys parse j). ok k"
  shows "leases_ok ok (leasesFor parse P j) \<and>
    (\<forall>l\<in>set (leasesFor parse P j). Limit l = throttle_limitFor P (Key l))"
proof -
  have "distinct (throttleKeys parse j)"
    by (simp only: throttleKeys_def dedupeStrings_def distinct_dedup_from)
  then have "distinct (filter (\<lambda>k. 0 < throttle_limitFor P k) (throttleKeys parse j))" by simp
  with assms show ?thesis by (simp add: leases_ok_def leasesFor_def comp_def)
qed

section \<open>Rate limiter\<close>

record rate_policy =
  DomainMessagesPerMinute :: "string \<rightharpoonup> int"
  DefaultMessagesPerMinute :: int

definition normalizeDomainRateLimitPolicy :: "(string \<times> int) list \<Rightarrow> int \<Rightarrow> rate_policy" where
  "normalizeDomainRateLimitPolicy entries dflt =
     \<lparr>DomainMessagesPerMinute = copyDomainLimits entries,
      DefaultMessagesPerMinute = (if dflt < 0 then 0 else dflt)\<rparr>"

definition rate_limitFor :: "rate_policy \<Rightarrow> string \<Rightarrow> int" where
  "rate_limitFor P d =
     (case DomainMessagesPerMinute P d of Some limit \<Rightarrow> limit | None \<Rightarrow> DefaultMessagesPerMinute P)"

record domain_window =
  dw_start :: int
  dw_count :: int

type_synonym windows = "string \<rightharpoonup> domain_window"

text \<open>\<open>Truncate(time.Minute)\<close>\<close>

definition minute_of :: "int \<Rightarrow> int" where
  "minute_of t = t - t mod 60000000000"

definition windowFor :: "string \<Rightarrow> int \<Rightarrow> windows \<Rightarrow> domain_window \<times> windows" where
  "windowFor d ws w =
     (case w d of
        Some x \<Rightarrow> if dw_start x = ws then (x, w)
                   else (\<lparr>dw_start = ws, dw_count = 0\<rparr>, w(d \<mapsto> \<lparr>dw_start = ws, dw_count = 0\<rparr>))
      | None \<Rightarrow> (\<lparr>dw_start = ws, dw_count = 0\<rparr>, w(d \<mapsto> \<lparr>dw_start = ws, dw_count = 0\<rparr>)))"

text \<open>The first pass: the domain that is at its limit, if any.\<close>

fun rate_check :: "rate_policy \<Rightarrow> int \<Rightarrow> string list \<Rightarrow> windows \<Rightarrow> lease option \<times> windows" where
  "rate_check P ws [] w = (None, w)"
| "rate_check P ws (d # ds) w =
     (if rate_limitFor P d \<le> 0 then rate_check P ws ds w
      else (case windowFor d ws w of (x, w) \<Rightarrow>
              if rate_limitFor P d \<le> dw_count x
              then (Some \<lparr>Key = d, Limit = rate_limitFor P d\<rparr>, w)
              else rate_check P ws ds w))"

fun rate_count :: "rate_policy \<Rightarrow> int \<Rightarrow> string list \<Rightarrow> windows \<Rightarrow> windows" where
  "rate_count P ws [] w = w"
| "rate_count P ws (d # ds) w =
     (if rate_limitFor P d \<le> 0 then rate_count P ws ds w
      else (case windowFor d ws w of (x, w) \<Rightarrow>
              rate_count P ws ds (w(d \<mapsto> x\<lparr>dw_count := dw_count x + 1\<rparr>))))"

text \<open>\<open>Allow\<close>, on the domains of the job.\<close>

definition rate_Allow :: "rate_policy \<Rightarrow> int \<Rightarrow> string list \<Rightarrow> windows \<Rightarrow> lease option \<times> windows" where
  "rate_Allow P t domains w =
     (if domains = [] then (None, w)
      else (case rate_check P (minute_of t) domains w of
              (Some e, w) \<Rightarrow> (Some e, w)
            | (None, w) \<Rightarrow> (None, rate_count P (minute_of t) domains w)))"

text \<open>A window read at a given start: a window of another minute counts as empty.\<close>

definition count_at :: "int \<Rightarrow> string \<Rightarrow> windows \<Rightarrow> int" where
  "count_at ws d w =
     (case w d of None \<Rightarrow> 0 | Some x \<Rightarrow> if dw_start x = ws then dw_count x else 0)"

abbreviation window_at :: "int \<Rightarrow> string \<Rightarrow> windows \<Rightarrow> domain_window" where
  "window_at ws d w \<equiv> \<lparr>dw_start = ws, dw_count = count_at ws d w\<rparr>"

lemma windowFor_eq: "windowFor d ws w = (window_at ws d w, w(d \<mapsto> window_at ws d w))"
proof (cases "w d")
  case (Some x)
  have "x = \<lparr>dw_start = dw_start x, dw_count = dw_count x\<rparr>" by simp
  with Some show ?thesis
    by (auto simp: windowFor_def count_at_def fun_upd_idem_iff)
qed (simp add: windowFor_def count_at_def)

lemma rate_check_Cons:
  "rate_check P ws (d # ds) w =
     (if rate_limitFor P d \<le> 0 then rate_check P ws ds w
      else if rate_limitFor P d \<le> count_at ws d w
      then (Some \<lparr>Key = d, Limit = rate_limitFor P d\<rparr>, w(d \<mapsto> window_at ws d w))
      else rate_check P ws ds (w(d \<mapsto> window_at ws d w)))"
  by (simp add: windowFor_eq)

lemma rate_count_Cons:
  "rate_count P ws (d # ds) w =
     (if rate_limitFor P d \<le> 0 then rate_count P ws ds w
      else rate_count P ws ds (w(d \<mapsto> \<lparr>dw_start = ws, dw_count = count_at ws d w + 1\<rparr>)))"
  by (simp add: windowFor_eq)

declare rate_check.simps(2) [simp del] rate_count.simps(2) [simp del]

lemma count_at_upd:
  "count_at ws e (w(d \<mapsto> \<lparr>dw_start = ws, dw_count = n\<rparr>)) = (if e = d then n else count_at ws e w)"
  by (simp add: count_at_def)

text \<open>The first pass opens windows and counts nothing.\<close>

lemma rate_check_count:
  "rate_check P ws ds w = (r, w') \<Longrightarrow> count_at ws e w' = count_at ws e w"
proof (induction ds arbitrary: w)
  case (Cons d ds)
  define w1 where "w1 = w(d \<mapsto> window_at ws d w)"
  have "count_at ws e w1 = count_at ws e w" unfolding w1_def by (simp add: count_at_upd)
  with Cons.IH [of w] Cons.IH [of w1] Cons.prems show ?case
    by (auto simp: rate_check_Cons w1_def [symmetric] split: if_splits)
qed simp

lemma rate_check_passed:
  "rate_check P ws ds w = (None, w') \<Longrightarrow> d \<in> set ds \<Longrightarrow> 0 < rate_limitFor P d \<Longrightarrow>
   count_at ws d w < rate_limitFor P d"
proof (induction ds arbitrary: w)
  case (Cons x ds)
  define w1 where "w1 = w(x \<mapsto> window_at ws x w)"
  have "count_at ws d w1 = count_at ws d w" unfolding w1_def by (simp add: count_at_upd)
  with Cons.IH [of w] Cons.IH [of w1] Cons.prems show ?case
    by (auto simp: rate_check_Cons w1_def [symmetric] split: if_splits)
qed simp

text \<open>No window lies in the future.\<close>

definition windows_past :: "int \<Rightarrow> windows \<Rightarrow> bool" where
  "windows_past T w \<longleftrightarrow> (\<forall>d x. w d = Some x \<longrightarrow> dw_start x \<le> T)"

lemma windows_past_upd:
  "windows_past ws w \<Longrightarrow> windows_past ws (w(d \<mapsto> \<lparr>dw_start = ws, dw_count = n\<rparr>))"
  by (simp add: windows_past_def)

lemma rate_check_past:
  "rate_check P ws ds w = (r, w') \<Longrightarrow> windows_past ws w \<Longrightarrow> windows_past ws w'"
proof (induction ds arbitrary: w)
  case (Cons d ds)
  define w1 where "w1 = w(d \<mapsto> window_at ws d w)"
  have "windows_past ws w1" unfolding w1_def by (rule windows_past_upd) (rule Cons.prems)
  with Cons.IH [of w] Cons.IH [of w1] Cons.prems show ?case
    by (auto simp: rate_check_Cons w1_def [symmetric] split: if_splits)
qed simp

lemma rate_count_count:
  "distinct ds \<Longrightarrow> count_at ws e (rate_count P ws ds w) =
     count_at ws e w + (if e \<in> set ds \<and> 0 < rate_limitFor P e then 1 else 0)"
  by (induction ds arbitrary: w) (auto simp: rate_count_Cons count_at_upd)

lemma rate_count_past: "windows_past ws w \<Longrightarrow> windows_past ws (rate_count P ws ds w)"
  by (induction ds arbitrary: w) (auto simp: rate_count_Cons windows_past_upd)

text \<open>A history of calls: the time and the domains of each job, and whether it was allowed.\<close>

fun rate_run :: "rate_policy \<Rightarrow> (int \<times> string list) list \<Rightarrow> windows \<Rightarrow> bool list" where
  "rate_run P [] w = []"
| "rate_run P ((t, ds) # calls) w =
     (case rate_Allow P t ds w of (r, w') \<Rightarrow> (r = None) # rate_run P calls w')"

definition allowed_in ::
    "int \<Rightarrow> string \<Rightarrow> (int \<times> string list) list \<Rightarrow> bool list \<Rightarrow> nat" where
  "allowed_in ws d calls oks =
     length (filter (\<lambda>((t, ds), ok). ok \<and> minute_of t = ws \<and> d \<in> set ds) (zip calls oks))"

lemma minute_of_mono: "t \<le> t' \<Longrightarrow> minute_of t \<le> minute_of t'"
proof -
  have e: "minute_of t = 60000000000 * (t div 60000000000)" for t
    by (simp add: minute_of_def minus_mod_eq_mult_div)
  assume "t \<le> t'"
  then show ?thesis unfolding e by (intro mult_left_mono zdiv_mono1) auto
qed

lemma rate_Allow_step:
  assumes "rate_Allow P t ds w = (r, w')" and "distinct ds" and "windows_past (minute_of t) w"
  shows "windows_past (minute_of t) w'"
    and "0 < rate_limitFor P d \<Longrightarrow>
      count_at (minute_of t) d w' = count_at (minute_of t) d w + (if r = None \<and> d \<in> set ds then 1 else 0)"
    and "0 < rate_limitFor P d \<Longrightarrow> r = None \<Longrightarrow> d \<in> set ds \<Longrightarrow> count_at (minute_of t) d w < rate_limitFor P d"
proof -
  let ?m = "minute_of t"
  obtain rc w1 where c: "rate_check P ?m ds w = (rc, w1)" by fastforce
  have w': "ds \<noteq> [] \<Longrightarrow> r = rc \<and> w' = (if rc = None then rate_count P ?m ds w1 else w1)"
    "ds = [] \<Longrightarrow> r = None \<and> w' = w"
    using assms(1) c by (auto simp: rate_Allow_def split: option.splits)
  have p1: "windows_past ?m w1" using rate_check_past [OF c assms(3)] .
  show "windows_past ?m w'"
    using w' p1 assms(3) rate_count_past [OF p1] by (cases "ds = []") auto
  show "count_at ?m d w' = count_at ?m d w + (if r = None \<and> d \<in> set ds then 1 else 0)"
    if "0 < rate_limitFor P d"
    using w' rate_check_count [OF c, of d] rate_count_count [OF assms(2), of ?m d P w1] that
    by (cases "ds = []") auto
  show "count_at ?m d w < rate_limitFor P d" if "0 < rate_limitFor P d" "r = None" "d \<in> set ds"
    using w' rate_check_passed [of P ?m ds w w1 d] c that by (cases "ds = []") auto
qed

lemma allowed_in_zero:
  assumes "\<forall>(t, ds)\<in>set calls. ws < minute_of t"
  shows "allowed_in ws d calls oks = 0"
proof -
  have "filter (\<lambda>((t, ds), ok). ok \<and> minute_of t = ws \<and> d \<in> set ds) (zip calls oks) = []"
    using assms by (auto simp: filter_empty_conv dest!: set_zip_leftD)
  then show ?thesis unfolding allowed_in_def by simp
qed

lemma rate_run_bound:
  assumes "sorted (map fst calls)" and "\<forall>(t, ds)\<in>set calls. distinct ds \<and> T \<le> minute_of t"
    and "windows_past T w" and "0 < rate_limitFor P d"
    and "count_at ws d w \<le> rate_limitFor P d" and "0 \<le> count_at ws d w"
  shows "int (allowed_in ws d calls (rate_run P calls w)) + (if T \<le> ws then count_at ws d w else 0)
    \<le> rate_limitFor P d"
  using assms
proof (induction calls arbitrary: w T)
  case Nil
  then show ?case by (simp add: allowed_in_def)
next
  case (Cons c calls)
  obtain t ds where c: "c = (t, ds)" by fastforce
  let ?m = "minute_of t"
  obtain r w' where a: "rate_Allow P t ds w = (r, w')" by fastforce
  have ds: "distinct ds" "T \<le> ?m" using Cons.prems(2) c by auto
  have past: "windows_past ?m w" using Cons.prems(3) ds(2) by (force simp: windows_past_def)
  note A = rate_Allow_step [OF a ds(1) past]
  have srt: "sorted (map fst calls)" and later: "\<forall>(t', ds')\<in>set calls. distinct ds' \<and> ?m \<le> minute_of t'"
    using Cons.prems(1,2) c minute_of_mono by fastforce+
  define hit where "hit = (r = None \<and> ?m = ws \<and> d \<in> set ds)"
  have split: "allowed_in ws d (c # calls) (rate_run P (c # calls) w) =
      (if hit then 1 else 0) + allowed_in ws d calls (rate_run P calls w')"
    by (simp add: allowed_in_def c a hit_def)
  show ?case
  proof (cases "?m = ws")
    case True
    have cnt: "count_at ws d w' = count_at ws d w + (if hit then 1 else 0)"
      using A(2) [OF Cons.prems(4)] True by (simp add: hit_def)
    have "count_at ws d w < rate_limitFor P d" if hit
      using A(3) [OF Cons.prems(4)] that True by (simp add: hit_def)
    then have "count_at ws d w' \<le> rate_limitFor P d" "0 \<le> count_at ws d w'"
      using cnt Cons.prems(5,6) by auto
    from Cons.IH [OF srt later A(1) Cons.prems(4) this] split cnt True ds(2) show ?thesis
      by (auto split: if_splits)
  next
    case False
    then have nh: "\<not> hit" by (simp add: hit_def)
    show ?thesis
    proof (cases "?m < ws")
      case True
      have zero: "count_at ws d v = 0" if "windows_past ?m v" for v
        using that True by (force simp: windows_past_def count_at_def split: option.splits)
      from Cons.IH [OF srt later A(1) Cons.prems(4)] zero [OF A(1)] zero [OF past] split nh
        Cons.prems(4) True show ?thesis by (auto split: if_splits)
    next
      case over: False
      with False have "allowed_in ws d calls (rate_run P calls w') = 0"
        using later by (intro allowed_in_zero) auto
      with split nh Cons.prems(4-6) show ?thesis by auto
    qed
  qed
qed

section \<open>Domain back-off\<close>

datatype backoff_scope = ScopeDomain | ScopeFarmDomain | ScopeOther string

record backoff_policy =
  BaseDelay :: int
  MaxDelay :: int
  Scope :: backoff_scope

definition normalizeDomainBackoffPolicy :: "backoff_policy \<Rightarrow> backoff_policy" where
  "normalizeDomainBackoffPolicy p =
     (let p = (if BaseDelay p \<le> 0 then p\<lparr>BaseDelay := 60000000000\<rparr> else p);
          p = (if 0 < MaxDelay p \<and> MaxDelay p < BaseDelay p then p\<lparr>MaxDelay := BaseDelay p\<rparr> else p)
      in if Scope p = ScopeOther [] then p\<lparr>Scope := ScopeDomain\<rparr> else p)"

record backoff_state =
  bs_failures :: int
  bs_until :: int \<comment> \<open>0 is the zero time\<close>

type_synonym backoffs = "string \<rightharpoonup> backoff_state"

definition domainBackoffKeys :: "farm \<Rightarrow> address list \<Rightarrow> backoff_scope \<Rightarrow> string list" where
  "domainBackoffKeys f rs scope =
     (let domains = domainsForRecipients rs in
      if scope \<noteq> ScopeFarmDomain then domains
      else map (\<lambda>d. ''farm:'' @ NormalizeFarm f @ '':domain:'' @ d) domains)"

text \<open>The doubling loop of \<open>delayForFailures\<close>; \<open>n\<close> is the number of rounds left.\<close>

fun delay_loop :: "int \<Rightarrow> nat \<Rightarrow> int \<Rightarrow> int" where
  "delay_loop maxDelay 0 delay =
     (if 0 < maxDelay \<and> maxDelay < delay then maxDelay else delay)"
| "delay_loop maxDelay (Suc n) delay =
     (if 0 < maxDelay \<and> maxDelay div 2 \<le> delay then maxDelay
      else delay_loop maxDelay n (wrap64 (delay * 2)))"

definition delayForFailures :: "backoff_policy \<Rightarrow> int \<Rightarrow> int" where
  "delayForFailures p failures =
     (if failures \<le> 1 then BaseDelay p
      else delay_loop (MaxDelay p) (nat (failures - 1)) (BaseDelay p))"

definition backoff_get :: "backoffs \<Rightarrow> string \<Rightarrow> backoff_state" where
  "backoff_get b k = (case b k of None \<Rightarrow> \<lparr>bs_failures = 0, bs_until = 0\<rparr> | Some s \<Rightarrow> s)"

text \<open>The key that is backed off, if any.\<close>

definition backoff_Check :: "int \<Rightarrow> string list \<Rightarrow> backoffs \<Rightarrow> string option" where
  "backoff_Check now keys b =
     find (\<lambda>k. bs_until (backoff_get b k) \<noteq> 0 \<and> now < bs_until (backoff_get b k)) keys"

definition backoff_ObserveTemporaryFailure ::
    "backoff_policy \<Rightarrow> int \<Rightarrow> string list \<Rightarrow> backoffs \<Rightarrow> backoffs" where
  "backoff_ObserveTemporaryFailure p now keys b =
     fold (\<lambda>k b. let n = bs_failures (backoff_get b k) + 1 in
             b(k \<mapsto> \<lparr>bs_failures = n, bs_until = now + delayForFailures p n\<rparr>)) keys b"

lemma delay_loop_bounds:
  assumes "0 < M" and "0 < d" and "d \<le> M" and "M \<le> max_int64"
  shows "d \<le> delay_loop M n d \<and> delay_loop M n d \<le> M \<and>
    min M (d * 2 ^ n) \<le> delay_loop M n d \<and> delay_loop M n d \<le> min M (d * 2 ^ n + 1)"
  using assms
proof (induction n arbitrary: d)
  case (Suc n)
  show ?case
  proof (cases "M div 2 \<le> d")
    case True
    have "(2::int) ^ Suc n = 2 * 2 ^ n" by simp
    moreover have "(1::int) \<le> 2 ^ n" by simp
    ultimately have "d * 2 \<le> d * 2 ^ Suc n" using Suc.prems(2) by simp
    moreover have "M \<le> 2 * d + 1" using True by linarith
    ultimately have "M \<le> d * 2 ^ Suc n + 1" by linarith
    with True Suc.prems show ?thesis by simp
  next
    case False
    then have lt: "2 * d \<le> M" by linarith
    then have w: "wrap64 (d * 2) = d * 2"
      using Suc.prems by (intro wrap64_id_nonneg) auto
    from Suc.IH [of "d * 2"] Suc.prems lt False w show ?thesis
      by (simp add: mult.assoc)
  qed
qed simp

lemma backoff_observe_frame:
  "k \<notin> set keys \<Longrightarrow> backoff_get (backoff_ObserveTemporaryFailure p now keys b) k = backoff_get b k"
  by (induction keys arbitrary: b)
     (auto simp: backoff_ObserveTemporaryFailure_def Let_def backoff_get_def)

lemma backoff_observe_key:
  "distinct keys \<Longrightarrow> k \<in> set keys \<Longrightarrow>
   backoff_get (backoff_ObserveTemporaryFailure p now keys b) k =
     \<lparr>bs_failures = bs_failures (backoff_get b k) + 1,
      bs_until = now + delayForFailures p (bs_failures (backoff_get b k) + 1)\<rparr>"
proof (induction keys arbitrary: b)
  case (Cons x keys)
  define b1 where "b1 = b(x \<mapsto> \<lparr>bs_failures = bs_failures (backoff_get b x) + 1,
    bs_until = now + delayForFailures p (bs_failures (backoff_get b x) + 1)\<rparr>)"
  have "backoff_ObserveTemporaryFailure p now (x # keys) b = backoff_ObserveTemporaryFailure p now keys b1"
    by (simp add: backoff_ObserveTemporaryFailure_def Let_def b1_def)
  moreover have "backoff_get b1 k = backoff_get b k" if "k \<noteq> x"
    using that by (simp add: backoff_get_def b1_def)
  moreover have "backoff_get b1 x = \<lparr>bs_failures = bs_failures (backoff_get b x) + 1,
    bs_until = now + delayForFailures p (bs_failures (backoff_get b x) + 1)\<rparr>"
    by (simp add: backoff_get_def b1_def)
  ultimately show ?case
    using Cons.IH [of b1] Cons.prems backoff_observe_frame [of k keys p now b1]
    by (cases "k = x") auto
qed simp

section \<open>Circuit breaker\<close>

datatype circuit_state = circuitClosed | circuitOpen | circuitHalfOpen

record domainCircuit =
  cc_activeCount :: int
  cc_state :: circuit_state
  cc_consecutiveFails :: int
  cc_openedAt :: int

record circuit_config =
  MaxConcurrency :: int
  FailureThreshold :: int
  HalfOpenTimeout :: int

definition NewCircuitBreakerTransport :: "int \<Rightarrow> circuit_config" where
  "NewCircuitBreakerTransport maxConcurrency =
     \<lparr>MaxConcurrency = (if maxConcurrency \<le> 0 then 10 else maxConcurrency),
      FailureThreshold = 5, HalfOpenTimeout = 30000000000\<rparr>"

definition new_circuit :: domainCircuit where
  "new_circuit = \<lparr>cc_activeCount = 0, cc_state = circuitClosed, cc_consecutiveFails = 0, cc_openedAt = 0\<rparr>"

datatype circuit_refusal = RefusedOpen | RefusedProbe | RefusedConcurrency

text \<open>\<open>Deliver\<close> up to the call of the next transport (None: it is called), and after it.\<close>

definition circuit_enter ::
    "circuit_config \<Rightarrow> int \<Rightarrow> domainCircuit \<Rightarrow> circuit_refusal option \<times> domainCircuit" where
  "circuit_enter T now c =
     (if cc_state c = circuitOpen \<and> \<not> HalfOpenTimeout T \<le> now - cc_openedAt c then (Some RefusedOpen, c)
      else let c = (if cc_state c = circuitOpen then c\<lparr>cc_state := circuitHalfOpen\<rparr> else c) in
        if cc_state c = circuitHalfOpen \<and> 0 < cc_activeCount c then (Some RefusedProbe, c)
        else if cc_state c = circuitClosed \<and> 0 < MaxConcurrency T
          \<and> MaxConcurrency T \<le> cc_activeCount c then (Some RefusedConcurrency, c)
        else (None, c\<lparr>cc_activeCount := cc_activeCount c + 1\<rparr>))"

definition circuit_leave :: "circuit_config \<Rightarrow> int \<Rightarrow> bool \<Rightarrow> domainCircuit \<Rightarrow> domainCircuit" where
  "circuit_leave T now failed c =
     (let c = c\<lparr>cc_activeCount := cc_activeCount c - 1\<rparr> in
      if failed then
        (let c = c\<lparr>cc_consecutiveFails := cc_consecutiveFails c + 1\<rparr> in
         if cc_state c \<noteq> circuitOpen \<and> FailureThreshold T \<le> cc_consecutiveFails c
         then c\<lparr>cc_state := circuitOpen, cc_openedAt := now\<rparr> else c)
      else c\<lparr>cc_consecutiveFails := 0, cc_state := circuitClosed\<rparr>)"

definition circuit_domain :: "addr_parser \<Rightarrow> job \<Rightarrow> string" where
  "circuit_domain parse j =
     (case job_Recipients parse j of
        [] \<Rightarrow> []
      | r # _ \<Rightarrow>
          if CHR ''@'' \<in> set (Email r)
          then go_ToLower (rev (takeWhile (\<lambda>c. c \<noteq> CHR ''@'') (rev (Email r))))
          else go_ToLower (Email r))"

text \<open>The deliveries of one domain, in any order of entering and leaving; \<open>n\<close> is the number of
  deliveries inside.\<close>

inductive circuit_run :: "circuit_config \<Rightarrow> nat \<Rightarrow> domainCircuit \<Rightarrow> bool" for T where
  idle: "circuit_run T 0 new_circuit"
| enter: "circuit_run T n c \<Longrightarrow> circuit_enter T now c = (None, c') \<Longrightarrow> circuit_run T (Suc n) c'"
| refused: "circuit_run T n c \<Longrightarrow> circuit_enter T now c = (Some r, c') \<Longrightarrow> circuit_run T n c'"
| leave: "circuit_run T (Suc n) c \<Longrightarrow> circuit_run T n (circuit_leave T now failed c)"

definition circuit_inv :: "circuit_config \<Rightarrow> nat \<Rightarrow> domainCircuit \<Rightarrow> bool" where
  "circuit_inv T n c \<longleftrightarrow> cc_activeCount c = int n \<and> 0 \<le> cc_consecutiveFails c \<and>
     (0 < MaxConcurrency T \<longrightarrow> int n \<le> MaxConcurrency T) \<and>
     (cc_state c \<noteq> circuitClosed \<longrightarrow> FailureThreshold T \<le> cc_consecutiveFails c) \<and>
     (cc_state c = circuitClosed \<longrightarrow> 0 < FailureThreshold T \<longrightarrow> cc_consecutiveFails c < FailureThreshold T)"

lemma circuit_run_inv: "circuit_run T n c \<Longrightarrow> circuit_inv T n c"
proof (induction rule: circuit_run.induct)
  case idle
  then show ?case by (simp add: circuit_inv_def new_circuit_def)
next
  case (enter n c now c')
  then show ?case by (cases "cc_state c") (auto simp: circuit_inv_def circuit_enter_def Let_def split: if_splits)
next
  case (refused n c now r c')
  then show ?case by (auto simp: circuit_inv_def circuit_enter_def Let_def split: if_splits)
next
  case (leave n c now failed)
  then show ?case by (auto simp: circuit_inv_def circuit_leave_def Let_def)
qed

section \<open>Idle connections\<close>

record smtp_pool_key =
  pk_Host :: string
  pk_Port :: int
  pk_ImplicitTLS :: bool
  pk_AuthUser :: string

text \<open>A pooled connection: an identity, whether its client and its socket are set, when it was
  last used. \<open>pl_closed\<close> collects the identities of the connections the pool closed.\<close>

record pooled_conn =
  pc_id :: nat
  pc_client :: bool
  pc_conn :: bool
  pc_LastUsed :: int

record conn_pool =
  pl_conns :: "smtp_pool_key \<rightharpoonup> pooled_conn"
  pl_maxIdle :: int
  pl_idleTimeout :: int
  pl_maxAge :: int
  pl_hits :: int
  pl_misses :: int
  pl_closed :: "nat list"

definition NewSMTPConnectionPool :: "int \<Rightarrow> int \<Rightarrow> int \<Rightarrow> conn_pool" where
  "NewSMTPConnectionPool maxIdle idleTimeout maxAge =
     \<lparr>pl_conns = Map.empty, pl_maxIdle = (if maxIdle \<le> 0 then 4 else maxIdle),
      pl_idleTimeout = (if idleTimeout \<le> 0 then 30000000000 else idleTimeout),
      pl_maxAge = (if maxAge \<le> 0 then 300000000000 else maxAge),
      pl_hits = 0, pl_misses = 0, pl_closed = []\<rparr>"

definition isValidConn :: "int \<Rightarrow> conn_pool \<Rightarrow> pooled_conn \<Rightarrow> bool" where
  "isValidConn now p c \<longleftrightarrow> pc_client c \<and> pc_conn c \<and>
     \<not> pl_idleTimeout p < now - pc_LastUsed c \<and> \<not> pl_maxAge p < now - pc_LastUsed c"

definition pool_Get :: "int \<Rightarrow> smtp_pool_key \<Rightarrow> conn_pool \<Rightarrow> pooled_conn option \<times> conn_pool" where
  "pool_Get now key p =
     (case pl_conns p key of
        Some c \<Rightarrow>
          if isValidConn now p c
          then (Some c, p\<lparr>pl_conns := (pl_conns p)(key := None), pl_hits := pl_hits p + 1\<rparr>)
          else (None, p\<lparr>pl_conns := (pl_conns p)(key := None), pl_closed := pl_closed p @ [pc_id c],
                        pl_misses := pl_misses p + 1\<rparr>)
      | None \<Rightarrow> (None, p\<lparr>pl_misses := pl_misses p + 1\<rparr>))"

text \<open>\<open>Put\<close>: the count of pooled connections with this key is 0 or 1, as the map has one entry
  per key.\<close>

definition pool_Put :: "int \<Rightarrow> smtp_pool_key \<Rightarrow> pooled_conn option \<Rightarrow> conn_pool \<Rightarrow> conn_pool" where
  "pool_Put now key conn p =
     (case conn of
        None \<Rightarrow> p
      | Some c \<Rightarrow>
          if \<not> pc_client c then p
          else let count = (if pl_conns p key = None then 0 else 1 :: int) in
            if pl_maxIdle p \<le> count then p\<lparr>pl_closed := pl_closed p @ [pc_id c]\<rparr>
            else p\<lparr>pl_conns := (pl_conns p)(key \<mapsto> c\<lparr>pc_LastUsed := now\<rparr>)\<rparr>)"

text \<open>\<open>PruneStale\<close> and \<open>Close\<close>, over the entries in the order of the iteration.\<close>

definition pool_PruneStale :: "int \<Rightarrow> smtp_pool_key list \<Rightarrow> conn_pool \<Rightarrow> conn_pool" where
  "pool_PruneStale now keys p =
     fold (\<lambda>k p. case pl_conns p k of
             None \<Rightarrow> p
           | Some c \<Rightarrow>
               if pl_idleTimeout p < now - pc_LastUsed c \<or> pl_maxAge p < now - pc_LastUsed c
               then p\<lparr>pl_conns := (pl_conns p)(k := None), pl_closed := pl_closed p @ [pc_id c]\<rparr>
               else p) keys p"

definition pool_Close :: "smtp_pool_key list \<Rightarrow> conn_pool \<Rightarrow> conn_pool" where
  "pool_Close keys p =
     fold (\<lambda>k p. case pl_conns p k of
             None \<Rightarrow> p
           | Some c \<Rightarrow>
               p\<lparr>pl_conns := (pl_conns p)(k := None), pl_closed := pl_closed p @ [pc_id c]\<rparr>) keys p"

section \<open>Outcome counters\<close>

datatype metric_stage = QueuedDecoded | TransportDelivered | TransportFailed | DomainBackoffStage
  | Throttled | RateLimited | RetryScheduled | RetryExhaustedStage

record pool_counter =
  pn_Delivered :: int
  pn_Failed :: int
  pn_Retried :: int
  pn_Exhausted :: int

definition counter_observe ::
    "string \<Rightarrow> metric_stage \<Rightarrow> (string \<rightharpoonup> pool_counter) \<Rightarrow> string \<rightharpoonup> pool_counter" where
  "counter_observe pool0 stage pools =
     (let pool = (if pool0 = [] then ''default'' else pool0);
          pc = (case pools pool of
                  Some pc \<Rightarrow> pc
                | None \<Rightarrow> \<lparr>pn_Delivered = 0, pn_Failed = 0, pn_Retried = 0, pn_Exhausted = 0\<rparr>);
          pc = (case stage of
                  TransportDelivered \<Rightarrow> pc\<lparr>pn_Delivered := wrap64 (pn_Delivered pc + 1)\<rparr>
                | TransportFailed \<Rightarrow> pc\<lparr>pn_Failed := wrap64 (pn_Failed pc + 1)\<rparr>
                | RetryScheduled \<Rightarrow> pc\<lparr>pn_Retried := wrap64 (pn_Retried pc + 1)\<rparr>
                | RetryExhaustedStage \<Rightarrow> pc\<lparr>pn_Exhausted := wrap64 (pn_Exhausted pc + 1)\<rparr>
                | _ \<Rightarrow> pc)
      in pools(pool \<mapsto> pc))"

text \<open>\<open>Snapshot\<close>, from the pools in the order of the iteration.\<close>

definition counter_Snapshot :: "string list \<Rightarrow> (string \<rightharpoonup> pool_counter) \<Rightarrow> (string \<times> pool_counter) list" where
  "counter_Snapshot keys pools = map (\<lambda>k. (k, the (pools k))) (sort keys)"

section \<open>Properties\<close>

definition jobs_in_flight_for :: "(nat \<rightharpoonup> lease list) \<Rightarrow> string \<Rightarrow> nat" where
  "jobs_in_flight_for flying k = card (holders flying k)"

text \<open>C30. The concurrency limit of a farm or a domain is never exceeded, with the counter in the
  process: whatever jobs start and end in whatever order, the number of deliveries in flight
  that use a key is at most the limit the policy gives it.\<close>

theorem local_throttle_limit:
  assumes "(throttle_step local_Acquire local_Release {leasesFor parse P j | j. True})\<^sup>*\<^sup>*
      \<lparr>th_counter = (\<lambda>_. 0), th_flying = Map.empty\<rparr> t"
    and "0 < throttle_limitFor P k"
  shows "int (jobs_in_flight_for (th_flying t) k) \<le> throttle_limitFor P k"
proof -
  have "wants_policy (\<lambda>_. True) (throttle_limitFor P) {leasesFor parse P j | j. True}"
    using leasesFor_ok [of parse _ "\<lambda>_. True" P] by (auto simp: wants_policy_def)
  from local_counter.throttle_reachable_inv [OF assms(1) this] assms(2) show ?thesis
    by (auto simp: throttle_inv_def jobs_in_flight_for_def)
qed

definition sample_job :: job where
  "sample_job = \<lparr>jb_queued = sample_message\<lparr>qm_Farm := ''bulk''\<rparr>,
     jb_recipientCache = Some [\<lparr>Name = [], Email = ''a@x.org''\<rparr>, \<lparr>Name = [], Email = ''b@X.org''\<rparr>],
     jb_rawPayload = []\<rparr>"

definition sample_policy :: throttle_policy where
  "sample_policy = normalizeThrottlePolicy [(''bulk'', 3)] [('' X.org'', 1)] 0"

definition sample_leases :: "lease list" where
  "sample_leases = [\<lparr>Key = ''farm:bulk'', Limit = 3\<rparr>, \<lparr>Key = ''domain:x.org'', Limit = 1\<rparr>]"

lemma sample_leases: "leasesFor identity_parser sample_policy sample_job = sample_leases"
  by code_simp

lemma sample_limit: "throttle_limitFor sample_policy ''domain:x.org'' = 1"
  by code_simp

lemma sample_keys: "throttleKeys identity_parser sample_job = [''farm:bulk'', ''domain:x.org'']"
  by code_simp

theorem local_throttle_limit_witness:
  "int (jobs_in_flight_for [0 \<mapsto> sample_leases] ''domain:x.org'') \<le> throttle_limitFor sample_policy ''domain:x.org''"
proof -
  let ?W = "{leasesFor identity_parser sample_policy j | j. True}"
  let ?c = "snd (local_Acquire sample_leases (\<lambda>_. 0))"
  have "sample_leases \<in> ?W" using sample_leases by (metis (mono_tags, lifting) mem_Collect_eq)
  moreover have "local_Acquire sample_leases (\<lambda>_. 0) = (None, ?c)"
    by (simp add: local_Acquire_def sample_leases_def)
  ultimately have "throttle_step local_Acquire local_Release ?W
      \<lparr>th_counter = (\<lambda>_. 0), th_flying = Map.empty\<rparr> \<lparr>th_counter = ?c, th_flying = [0 \<mapsto> sample_leases]\<rparr>"
    using throttle_step.begin_delivery [of sample_leases ?W
        "\<lparr>th_counter = (\<lambda>_. 0), th_flying = Map.empty\<rparr>" 0 local_Acquire ?c local_Release] by simp
  then have "(throttle_step local_Acquire local_Release ?W)\<^sup>*\<^sup>*
      \<lparr>th_counter = (\<lambda>_. 0), th_flying = Map.empty\<rparr> \<lparr>th_counter = ?c, th_flying = [0 \<mapsto> sample_leases]\<rparr>"
    by (rule r_into_rtranclp)
  from local_throttle_limit [OF this, of "''domain:x.org''"] show ?thesis
    by (simp add: sample_limit)
qed

text \<open>The same with the counter in Redis, for jobs whose keys have no surrounding blanks: the
  Lua scripts for acquiring and releasing keep the stored count of every key equal to the
  number of deliveries in flight that use it, and at most its limit.\<close>

theorem redis_throttle_limit:
  assumes "(throttle_step (redis_Acquire pre) (redis_Release pre)
      {leasesFor parse P j | j. \<forall>k\<in>set (throttleKeys parse j). go_TrimSpace k = k})\<^sup>*\<^sup>*
      \<lparr>th_counter = Map.empty, th_flying = Map.empty\<rparr> t"
    and "0 < throttle_limitFor P k" and "go_TrimSpace k = k"
  shows "map_get (th_counter t) (redisKey pre k) = int (jobs_in_flight_for (th_flying t) k) \<and>
    int (jobs_in_flight_for (th_flying t) k) \<le> throttle_limitFor P k"
proof -
  have "wants_policy trimmed (throttle_limitFor P)
      {leasesFor parse P j | j. \<forall>k\<in>set (throttleKeys parse j). go_TrimSpace k = k}"
    using leasesFor_ok [of parse _ trimmed P] by (auto simp: wants_policy_def)
  from redis_counter.throttle_reachable_inv [OF assms(1) this] assms(2,3) show ?thesis
    by (auto simp: throttle_inv_def jobs_in_flight_for_def map_get_def)
qed

theorem redis_throttle_limit_witness:
  "map_get (snd (redis_Acquire ''p'' sample_leases Map.empty)) (redisKey ''p'' ''domain:x.org'') =
     int (jobs_in_flight_for [0 \<mapsto> sample_leases] ''domain:x.org'')"
proof -
  let ?W = "{leasesFor identity_parser sample_policy j | j.
    \<forall>k\<in>set (throttleKeys identity_parser j). go_TrimSpace k = k}"
  let ?c = "snd (redis_Acquire ''p'' sample_leases Map.empty)"
  have k: "go_TrimSpace ''farm:bulk'' = ''farm:bulk''" "go_TrimSpace ''domain:x.org'' = ''domain:x.org''"
    by code_simp+
  then have "sample_leases \<in> ?W"
    using sample_leases sample_keys by (intro CollectI exI [of _ sample_job]) simp
  moreover have "fst (redis_Acquire ''p'' sample_leases Map.empty) = None"
    by code_simp
  then have "redis_Acquire ''p'' sample_leases Map.empty = (None, ?c)" by (metis prod.collapse)
  ultimately have "throttle_step (redis_Acquire ''p'') (redis_Release ''p'') ?W
      \<lparr>th_counter = Map.empty, th_flying = Map.empty\<rparr> \<lparr>th_counter = ?c, th_flying = [0 \<mapsto> sample_leases]\<rparr>"
    using throttle_step.begin_delivery [of sample_leases ?W
        "\<lparr>th_counter = Map.empty, th_flying = Map.empty\<rparr>" 0 "redis_Acquire ''p''" ?c "redis_Release ''p''"]
    by simp
  then have "(throttle_step (redis_Acquire ''p'') (redis_Release ''p'') ?W)\<^sup>*\<^sup>*
      \<lparr>th_counter = Map.empty, th_flying = Map.empty\<rparr> \<lparr>th_counter = ?c, th_flying = [0 \<mapsto> sample_leases]\<rparr>"
    by (rule r_into_rtranclp)
  from redis_throttle_limit [OF this, of "''domain:x.org''"] k show ?thesis
    by (simp add: sample_limit)
qed

text \<open>The rate limit of a domain: over any history of jobs in time order, at most as many jobs
  for a limited domain are allowed in one clock minute as its limit.\<close>

theorem rate_limit_per_minute:
  assumes "sorted (map fst calls)" and "\<forall>(t, ds)\<in>set calls. distinct ds"
    and "0 < rate_limitFor P d"
  shows "int (allowed_in ws d calls (rate_run P calls Map.empty)) \<le> rate_limitFor P d"
proof (cases calls)
  case Nil
  with assms(3) show ?thesis by (simp add: allowed_in_def)
next
  case (Cons c rest)
  define T where "T = minute_of (fst c)"
  have "\<forall>(t, ds)\<in>set calls. distinct ds \<and> T \<le> minute_of t"
    using assms(1,2) Cons minute_of_mono by (fastforce simp: T_def)
  moreover have c0: "count_at ws d Map.empty = 0" by (simp add: count_at_def)
  moreover have "windows_past T Map.empty" by (simp add: windows_past_def)
  ultimately show ?thesis
    using rate_run_bound [OF assms(1), of T Map.empty P d ws] assms(3) by (simp split: if_splits)
qed

theorem rate_limit_per_minute_witness:
  "int (allowed_in 0 ''x.org'' [(1, [''x.org'']), (2, [''x.org'', ''y.org'']), (3, [''x.org''])]
     (rate_run \<lparr>DomainMessagesPerMinute = Map.empty, DefaultMessagesPerMinute = 2\<rparr>
        [(1, [''x.org'']), (2, [''x.org'', ''y.org'']), (3, [''x.org''])] Map.empty)) \<le> 2"
  using rate_limit_per_minute [of "[(1, [''x.org'']), (2, [''x.org'', ''y.org'']), (3, [''x.org''])]"
      "\<lparr>DomainMessagesPerMinute = Map.empty, DefaultMessagesPerMinute = 2\<rparr>" "''x.org''" 0]
  by (simp add: rate_limitFor_def)

text \<open>The back-off delay of a capped policy: it lies between the base delay and the cap, and is
  the doubled base delay of the number of failures, cut at the cap (rounded up by at most one
  nanosecond).\<close>

theorem backoff_delay_bounds:
  assumes "p = normalizeDomainBackoffPolicy p0" and "0 < MaxDelay p0"
    and "MaxDelay p0 \<le> max_int64" and "BaseDelay p0 \<le> max_int64" and "1 \<le> n"
  shows "BaseDelay p \<le> delayForFailures p n \<and> delayForFailures p n \<le> MaxDelay p \<and>
    min (MaxDelay p) (BaseDelay p * 2 ^ nat (n - 1)) \<le> delayForFailures p n \<and>
    delayForFailures p n \<le> min (MaxDelay p) (BaseDelay p * 2 ^ nat (n - 1) + 1)"
proof -
  have p: "0 < MaxDelay p" "0 < BaseDelay p" "BaseDelay p \<le> MaxDelay p" "MaxDelay p \<le> max_int64"
    using assms(1-4) by (auto simp: normalizeDomainBackoffPolicy_def Let_def max_int64_def)
  show ?thesis
  proof (cases "n \<le> 1")
    case True
    with assms(5) have "n = 1" by simp
    with p show ?thesis by (simp add: delayForFailures_def)
  next
    case False
    then show ?thesis using delay_loop_bounds [OF p, of "nat (n - 1)"] by (simp add: delayForFailures_def)
  qed
qed

theorem backoff_delay_bounds_witness:
  "delayForFailures (normalizeDomainBackoffPolicy \<lparr>BaseDelay = 60, MaxDelay = 1000, Scope = ScopeDomain\<rparr>) 10
     \<le> MaxDelay (normalizeDomainBackoffPolicy \<lparr>BaseDelay = 60, MaxDelay = 1000, Scope = ScopeDomain\<rparr>)"
  using backoff_delay_bounds [OF refl, of "\<lparr>BaseDelay = 60, MaxDelay = 1000, Scope = ScopeDomain\<rparr>" 10]
  by (simp add: max_int64_def)

text \<open>Without a cap the doubling wraps around: with the default base delay of one minute the
  29th failure in a row gives a delay in the past, so that the domain is not backed off at
  all.\<close>

theorem backoff_uncapped_overflows:
  "delayForFailures (normalizeDomainBackoffPolicy \<lparr>BaseDelay = 0, MaxDelay = 0, Scope = ScopeDomain\<rparr>) 29 < 0 \<and>
   backoff_Check 1 [''x.org'']
     (backoff_ObserveTemporaryFailure
        (normalizeDomainBackoffPolicy \<lparr>BaseDelay = 0, MaxDelay = 0, Scope = ScopeDomain\<rparr>) 1 [''x.org'']
        [''x.org'' \<mapsto> \<lparr>bs_failures = 28, bs_until = 1\<rparr>]) = None"
  by code_simp

text \<open>After a temporary failure the keys of the recipients, and only those, are blocked until
  their delay has passed.\<close>

theorem backoff_blocks_observed_keys:
  assumes "distinct keys" and "k \<in> set keys" and "0 < now + delayForFailures p (bs_failures (backoff_get b k) + 1)"
  shows "backoff_Check t [k] (backoff_ObserveTemporaryFailure p now keys b) =
      (if t < now + delayForFailures p (bs_failures (backoff_get b k) + 1) then Some k else None) \<and>
    (\<forall>k'. k' \<notin> set keys \<longrightarrow>
       backoff_Check t [k'] (backoff_ObserveTemporaryFailure p now keys b) = backoff_Check t [k'] b)"
  using backoff_observe_key [OF assms(1,2)] backoff_observe_frame assms(3)
  by (auto simp: backoff_Check_def)

theorem backoff_blocks_observed_keys_witness:
  "backoff_Check 100 [''x.org''] (backoff_ObserveTemporaryFailure
     \<lparr>BaseDelay = 60, MaxDelay = 1000, Scope = ScopeDomain\<rparr> 50 [''x.org''] Map.empty) = Some ''x.org''"
proof -
  let ?p = "\<lparr>BaseDelay = 60, MaxDelay = 1000, Scope = ScopeDomain\<rparr>"
  have "delayForFailures ?p (bs_failures (backoff_get Map.empty ''x.org'') + 1) = 60"
    by (simp add: delayForFailures_def backoff_get_def)
  with backoff_blocks_observed_keys [of "[''x.org'']" "''x.org''" 50 ?p Map.empty 100] show ?thesis by simp
qed

text \<open>The circuit breaker: in every run of deliveries to a domain the number of deliveries
  inside is counted exactly and stays within the concurrency limit; while the circuit is open
  nobody enters before the timeout; one probe at a time enters a half-open circuit, a failing
  probe opens it again and any success closes it.\<close>

theorem circuit_breaker_run:
  assumes "circuit_run T n c" and "0 < MaxConcurrency T"
  shows "int n \<le> MaxConcurrency T \<and> cc_activeCount c = int n \<and>
    (cc_state c = circuitOpen \<and> now < cc_openedAt c + HalfOpenTimeout T \<longrightarrow>
       circuit_enter T now c = (Some RefusedOpen, c)) \<and>
    (cc_state c = circuitHalfOpen \<and> 0 < n \<longrightarrow> circuit_enter T now c = (Some RefusedProbe, c)) \<and>
    (cc_state c \<noteq> circuitClosed \<longrightarrow> cc_state (circuit_leave T now True c) = circuitOpen) \<and>
    cc_state (circuit_leave T now False c) = circuitClosed"
  using circuit_run_inv [OF assms(1)] assms(2)
  by (auto simp: circuit_inv_def circuit_enter_def circuit_leave_def Let_def)

theorem circuit_breaker_run_witness:
  "int 1 \<le> MaxConcurrency (NewCircuitBreakerTransport 2)"
proof -
  let ?T = "NewCircuitBreakerTransport 2"
  have "circuit_run ?T 0 new_circuit" by (rule circuit_run.idle)
  moreover have "circuit_enter ?T 0 new_circuit = (None, new_circuit\<lparr>cc_activeCount := 1\<rparr>)"
    by (simp add: circuit_enter_def new_circuit_def NewCircuitBreakerTransport_def)
  ultimately have "circuit_run ?T (Suc 0) (new_circuit\<lparr>cc_activeCount := 1\<rparr>)"
    by (rule circuit_run.enter)
  from circuit_breaker_run [OF this] show ?thesis by (simp add: NewCircuitBreakerTransport_def)
qed

text \<open>A connection taken from the pool was used within the idle time and the maximal age, and
  is no longer in the pool, so no other delivery can get it.\<close>

theorem pool_get_fresh_and_exclusive:
  assumes "pool_Get now key p = (Some c, p')"
  shows "now - pc_LastUsed c \<le> pl_idleTimeout p \<and> now - pc_LastUsed c \<le> pl_maxAge p \<and>
    pl_conns p key = Some c \<and> fst (pool_Get now' key p') = None \<and>
    (\<forall>k. k \<noteq> key \<longrightarrow> pl_conns p' k = pl_conns p k) \<and> pl_closed p' = pl_closed p"
  using assms by (auto simp: pool_Get_def isValidConn_def split: option.splits if_splits)

definition sample_pool_key :: smtp_pool_key where
  "sample_pool_key = \<lparr>pk_Host = ''mx'', pk_Port = 25, pk_ImplicitTLS = False, pk_AuthUser = []\<rparr>"

theorem pool_get_fresh_and_exclusive_witness:
  "fst (pool_Get 9 sample_pool_key (snd (pool_Get 5 sample_pool_key
     (pool_Put 3 sample_pool_key (Some \<lparr>pc_id = 1, pc_client = True, pc_conn = True, pc_LastUsed = 0\<rparr>)
        (NewSMTPConnectionPool 0 0 0))))) = None"
proof -
  let ?c = "\<lparr>pc_id = 1, pc_client = True, pc_conn = True, pc_LastUsed = 3\<rparr>"
  let ?p = "pool_Put 3 sample_pool_key (Some \<lparr>pc_id = 1, pc_client = True, pc_conn = True, pc_LastUsed = 0\<rparr>)
      (NewSMTPConnectionPool 0 0 0)"
  have "pool_Get 5 sample_pool_key ?p = (Some ?c, snd (pool_Get 5 sample_pool_key ?p))"
    by (simp add: pool_Get_def pool_Put_def NewSMTPConnectionPool_def isValidConn_def Let_def)
  from pool_get_fresh_and_exclusive [OF this, of 9] show ?thesis by blast
qed

text \<open>Returning a second connection for a key drops the first one without closing it: it is
  neither in the pool any more nor closed.\<close>

theorem pool_put_leaks_connection:
  "let conn = (\<lambda>i. Some \<lparr>pc_id = i, pc_client = True, pc_conn = True, pc_LastUsed = 0\<rparr>);
       p = pool_Put 2 sample_pool_key (conn 2) (pool_Put 1 sample_pool_key (conn 1) (NewSMTPConnectionPool 0 0 0))
   in map_option pc_id (pl_conns p sample_pool_key) = Some 2 \<and> 1 \<notin> set (pl_closed p)"
  by (simp add: Let_def pool_Put_def NewSMTPConnectionPool_def)

end
