(* ===== verification/DeliveryRetry.thy ===== *)
theory DeliveryRetry
  imports Complex_Main DeliveryJob "HOL-Library.Multiset"
begin

text \<open>
  Scheduling a retry (\<open>internal/delivery/retry.go\<close>): the retry policy with its deterministic
  jitter, the deduplication key, the byte-level patch of the queued payload, and the insertion
  into the outbox. Floating-point operations are exact rational operations followed by the
  rounding \<open>fl\<close>, which is a parameter; the hash is FNV-1a on 64-bit words. A position in the
  payload is its index, as in the code. \<open>json.Unmarshal\<close> of a key and \<open>json.Marshal\<close> of the
  message are parameters.
\<close>

section \<open>Policy\<close>

record retry_policy =
  rp_Delays :: "int list"
  rp_JitterRatio :: rat
  rp_MaxDelay :: int

definition minutes :: "int \<Rightarrow> int" where "minutes n = n * 60000000000"
definition hours :: "int \<Rightarrow> int" where "hours n = n * 3600000000000"

definition DefaultRetryPolicy :: retry_policy where
  "DefaultRetryPolicy =
     \<lparr>rp_Delays = [minutes 5, minutes 30, hours 2, hours 8, hours 24],
      rp_JitterRatio = 20 / 100, rp_MaxDelay = hours 24\<rparr>"

definition AggressiveBulkRetryPolicy :: retry_policy where
  "AggressiveBulkRetryPolicy =
     \<lparr>rp_Delays = [minutes 2, minutes 10, hours 1, hours 6, hours 12],
      rp_JitterRatio = 15 / 100, rp_MaxDelay = hours 12\<rparr>"

definition NextDelay :: "retry_policy \<Rightarrow> int \<Rightarrow> int option" where
  "NextDelay p currentAttempt0 =
     (if rp_Delays p = [] then None
      else let currentAttempt = (if currentAttempt0 < 0 then 0 else currentAttempt0) in
        if int (length (rp_Delays p)) \<le> currentAttempt then None
        else Some (rp_Delays p ! nat currentAttempt))"

text \<open>\<open>hash/fnv.New64a\<close>\<close>

definition fnv64a :: "string \<Rightarrow> 64 word" where
  "fnv64a s = foldl (\<lambda>h c. (xor h (word_of_nat (byte_val c))) * 1099511628211) 14695981039346656037 s"

definition deterministicJitter :: "(rat \<Rightarrow> rat) \<Rightarrow> int \<Rightarrow> rat \<Rightarrow> string \<Rightarrow> int \<Rightarrow> int" where
  "deterministicJitter fl base ratio0 key att =
     (if base \<le> 0 \<or> ratio0 \<le> 0 then base
      else let ratio = min ratio0 1;
               h = unat (fnv64a (key @ '':'' @ go_Itoa att)) mod 1000000;
               u = fl (of_nat h / 999999);
               factor = fl (fl (1 - ratio) + fl (u * fl (2 * ratio)));
               x = fl (fl (of_int base) * factor);
               delay = (if 0 \<le> x then \<lfloor>x\<rfloor> else \<lceil>x\<rceil>)
           in if delay \<le> 0 then 1000000 else delay)"

definition NextScheduledDelay :: "(rat \<Rightarrow> rat) \<Rightarrow> retry_policy \<Rightarrow> string \<Rightarrow> int \<Rightarrow> int option" where
  "NextScheduledDelay fl p key currentAttempt =
     (case NextDelay p currentAttempt of
        None \<Rightarrow> None
      | Some d \<Rightarrow>
          let delay = deterministicJitter fl d (rp_JitterRatio p) key currentAttempt in
          if 0 < rp_MaxDelay p \<and> rp_MaxDelay p < delay then Some (rp_MaxDelay p) else Some delay)"

section \<open>The deduplication key\<close>

definition retryDedupeKey :: "addr_parser \<Rightarrow> job \<Rightarrow> string" where
  "retryDedupeKey parse j =
     (let values = map (\<lambda>r. go_ToLower (go_TrimSpace (Email r))) (job_Recipients parse j);
          values = (if sorted values then values else sort values)
      in ''retry:'' @ go_TrimSpace (qm_MessageID (jb_queued j)) @ '':'' @
         go_Itoa (wrap64 (qm_RetryAttempt (jb_queued j) + 1)) @ '':'' @ go_Join values '','')"

definition retryErrorMessage :: "derr option \<Rightarrow> string" where
  "retryErrorMessage cause =
     (case cause of None \<Rightarrow> [] | Some e \<Rightarrow> truncateUTF8Bytes (err_Error e) 2000)"

section \<open>Skipping over JSON text\<close>

definition json_ws :: "char \<Rightarrow> bool" where
  "json_ws c \<longleftrightarrow> c \<in> {CHR '' '', CHR 0x0A, CHR 0x0D, CHR 0x09}"

abbreviation QUOTE :: char where "QUOTE \<equiv> CHR 0x22"
abbreviation BSLASH :: char where "BSLASH \<equiv> CHR 0x5C"

definition skipJSONSpace :: "string \<Rightarrow> nat \<Rightarrow> nat" where
  "skipJSONSpace raw i = i + length (takeWhile json_ws (drop i raw))"

definition skipJSONSpaceBack :: "string \<Rightarrow> nat \<Rightarrow> nat" where
  "skipJSONSpaceBack raw i = i - length (takeWhile json_ws (rev (take i raw)))"

text \<open>How many bytes after the opening quote a string ends.\<close>

fun str_end :: "string \<Rightarrow> nat option" where
  "str_end [] = None"
| "str_end [c] = (if c = QUOTE then Some 1 else None)"
| "str_end (c # d # cs) =
     (if c = BSLASH then map_option (\<lambda>n. n + 2) (str_end cs)
      else if c = QUOTE then Some 1
      else map_option Suc (str_end (d # cs)))"

definition skipJSONString :: "string \<Rightarrow> nat \<Rightarrow> nat option" where
  "skipJSONString raw i =
     (if length raw \<le> i \<or> raw ! i \<noteq> QUOTE then None
      else map_option (\<lambda>n. i + 1 + n) (str_end (drop (i + 1) raw)))"

lemma str_end_pos: "str_end s = Some n \<Longrightarrow> 1 \<le> n \<and> n \<le> length s"
  by (induction s arbitrary: n rule: str_end.induct) (auto split: if_splits)

text \<open>The loop of \<open>skipJSONComposite\<close> after the opening bracket; the stack has its top first.\<close>

function comp_end :: "string \<Rightarrow> string \<Rightarrow> nat option" where
  "comp_end s stack =
     (if s = [] then None
      else let c = hd s; cs = tl s in
        if c = QUOTE then
          (case str_end cs of
             None \<Rightarrow> None
           | Some n \<Rightarrow> map_option (\<lambda>k. k + n + 1) (comp_end (drop n cs) stack))
        else if c = CHR ''{'' then map_option Suc (comp_end cs (CHR ''}'' # stack))
        else if c = CHR ''['' then map_option Suc (comp_end cs (CHR '']'' # stack))
        else if c = CHR ''}'' \<or> c = CHR '']'' then
          (if stack = [] \<or> c \<noteq> hd stack then None
           else if tl stack = [] then Some 1
           else map_option Suc (comp_end cs (tl stack)))
        else map_option Suc (comp_end cs stack))"
  by pat_completeness auto
termination
  by (relation "measure (\<lambda>(s, _). length s)") (auto simp: less_diff_conv)

declare comp_end.simps [simp del]

definition skipJSONComposite :: "string \<Rightarrow> nat \<Rightarrow> char \<Rightarrow> char \<Rightarrow> nat option" where
  "skipJSONComposite raw i opn cls =
     (if length raw \<le> i \<or> raw ! i \<noteq> opn then None
      else map_option (\<lambda>n. i + 1 + n) (comp_end (drop (i + 1) raw) [cls]))"

definition json_delim :: "char \<Rightarrow> bool" where
  "json_delim c \<longleftrightarrow> c = CHR '','' \<or> c = CHR ''}'' \<or> c = CHR '']'' \<or> json_ws c"

definition skipJSONValue :: "string \<Rightarrow> nat \<Rightarrow> nat option" where
  "skipJSONValue raw i =
     (if length raw \<le> i then None
      else if raw ! i = QUOTE then skipJSONString raw i
      else if raw ! i = CHR ''{'' then skipJSONComposite raw i (CHR ''{'') (CHR ''}'')
      else if raw ! i = CHR ''['' then skipJSONComposite raw i (CHR ''['') (CHR '']'')
      else let j = i + length (takeWhile (\<lambda>c. \<not> json_delim c) (drop i raw)) in
        if j < length raw then Some (skipJSONSpaceBack raw j) else Some j)"

definition jsonObjectIsEmpty :: "string \<Rightarrow> bool" where
  "jsonObjectIsEmpty raw \<longleftrightarrow> skipJSONSpace raw 1 = length raw - 1"

definition retryAttemptJSONKey :: string where
  "retryAttemptJSONKey = ''retry_attempt''"

text \<open>\<open>unq\<close> is \<open>json.Unmarshal\<close> of a string literal.\<close>

definition jsonObjectKeyIsRetryAttempt :: "(string \<Rightarrow> string option) \<Rightarrow> string \<Rightarrow> bool option" where
  "jsonObjectKeyIsRetryAttempt unq raw =
     (if BSLASH \<notin> set raw then
        (if length raw < 2 \<or> hd raw \<noteq> QUOTE \<or> last raw \<noteq> QUOTE then None
         else Some (butlast (tl raw) = retryAttemptJSONKey))
      else map_option (\<lambda>key. key = ''retry_attempt'') (unq raw))"

definition go_slice :: "string \<Rightarrow> nat \<Rightarrow> nat \<Rightarrow> string" where
  "go_slice raw i j = take (j - i) (drop i raw)"

section \<open>The skips make progress\<close>

lemma skipJSONSpace_ge: "i \<le> skipJSONSpace raw i"
  by (simp add: skipJSONSpace_def)

lemma skipJSONString_gt: "skipJSONString raw i = Some e \<Longrightarrow> i < e"
  by (auto simp: skipJSONString_def split: if_splits)

lemma skipJSONComposite_gt: "skipJSONComposite raw i a b = Some e \<Longrightarrow> i < e"
  by (auto simp: skipJSONComposite_def split: if_splits)

lemma skipJSONSpaceBack_gt:
  assumes "c < j" and "j \<le> length raw" and "\<not> json_ws (raw ! c)"
  shows "c < skipJSONSpaceBack raw j"
proof -
  let ?w = "takeWhile json_ws (rev (take j raw))"
  have "length ?w < j - c"
  proof (rule ccontr)
    assume "\<not> length ?w < j - c"
    then have le: "j - Suc c < length ?w" using assms(1) by linarith
    then have "?w ! (j - Suc c) = rev (take j raw) ! (j - Suc c)" by (rule takeWhile_nth)
    also have "\<dots> = raw ! c" using assms by (simp add: rev_nth)
    finally have "?w ! (j - Suc c) = raw ! c" .
    moreover have "json_ws (?w ! (j - Suc c))" using le by (meson nth_mem set_takeWhileD)
    ultimately show False using assms(3) by simp
  qed
  then show ?thesis by (simp add: skipJSONSpaceBack_def)
qed

lemma skipJSONValue_gt:
  assumes "skipJSONValue raw v = Some e" and "c < v" and "\<not> json_ws (raw ! c)"
  shows "c < e"
proof (cases "raw ! v = QUOTE \<or> raw ! v = CHR ''{'' \<or> raw ! v = CHR ''[''")
  case True
  then have "v < e"
    using assms(1) by (auto simp: skipJSONValue_def split: if_splits
        dest: skipJSONString_gt skipJSONComposite_gt)
  with assms(2) show ?thesis by simp
next
  case False
  define j where "j = v + length (takeWhile (\<lambda>c. \<not> json_delim c) (drop v raw))"
  have v: "v < length raw" using assms(1) by (auto simp: skipJSONValue_def split: if_splits)
  have "length (takeWhile (\<lambda>c. \<not> json_delim c) (drop v raw)) \<le> length (drop v raw)"
    by (rule length_takeWhile_le)
  then have j: "v \<le> j" "j \<le> length raw" using v by (simp_all add: j_def)
  have "e = (if j < length raw then skipJSONSpaceBack raw j else j)"
    using assms(1) False v by (auto simp: skipJSONValue_def j_def Let_def split: if_splits)
  moreover have "c < skipJSONSpaceBack raw j"
    using assms(2,3) j by (intro skipJSONSpaceBack_gt) auto
  ultimately show ?thesis using assms(2) j by (auto split: if_splits)
qed

section \<open>Patching the payload\<close>

text \<open>
  The loop of \<open>patchRetryAttemptPayload\<close>. The result is the place of the value of
  \<open>retry_attempt\<close>, if the object has the key (inner option); the outer option is the failure.
\<close>

function patch_loop ::
    "(string \<Rightarrow> string option) \<Rightarrow> string \<Rightarrow> nat \<Rightarrow> (nat \<times> nat) option \<Rightarrow> (nat \<times> nat) option option" where
  "patch_loop unq raw i0 found =
     (if length raw - 1 \<le> i0 then Some found
      else let i = skipJSONSpace raw i0 in
        if length raw - 1 \<le> i then Some found
        else if raw ! i = CHR '','' then patch_loop unq raw (i + 1) found
        else if raw ! i \<noteq> QUOTE then None
        else (case skipJSONString raw i of
          None \<Rightarrow> None
        | Some keyEnd \<Rightarrow>
          (case jsonObjectKeyIsRetryAttempt unq (go_slice raw i keyEnd) of
             None \<Rightarrow> None
           | Some isRetry \<Rightarrow>
             let c = skipJSONSpace raw keyEnd in
             if length raw \<le> c \<or> raw ! c \<noteq> CHR '':'' then None
             else let valueStart = skipJSONSpace raw (c + 1) in
               (case skipJSONValue raw valueStart of
                  None \<Rightarrow> None
                | Some valueEnd \<Rightarrow>
                    if isRetry then
                      (if found \<noteq> None then None
                       else patch_loop unq raw valueEnd (Some (valueStart, valueEnd)))
                    else patch_loop unq raw valueEnd found))))"
  by pat_completeness auto

lemma patch_loop_progress:
  assumes "i0 < length raw - 1" and "skipJSONString raw (skipJSONSpace raw i0) = Some keyEnd"
    and "raw ! skipJSONSpace raw keyEnd = CHR '':''"
    and "skipJSONValue raw (skipJSONSpace raw (skipJSONSpace raw keyEnd + 1)) = Some valueEnd"
  shows "length raw - valueEnd < length raw - i0"
proof -
  let ?c = "skipJSONSpace raw keyEnd"
  have "?c < skipJSONSpace raw (?c + 1)" using skipJSONSpace_ge [of "?c + 1" raw] by linarith
  moreover have "\<not> json_ws (raw ! ?c)" using assms(3) by (simp add: json_ws_def)
  ultimately have "?c < valueEnd" using skipJSONValue_gt [OF assms(4)] by blast
  moreover have "i0 < keyEnd"
    using skipJSONString_gt [OF assms(2)] skipJSONSpace_ge [of i0 raw] by linarith
  moreover have "keyEnd \<le> ?c" by (rule skipJSONSpace_ge)
  ultimately show ?thesis using assms(1) by linarith
qed

termination patch_loop
proof (relation "measure (\<lambda>(unq, raw, i, found). length raw - i)", goal_cases)
  case (2 unq raw i0 found x)
  then show ?case using skipJSONSpace_ge [of i0 raw] by auto
qed (auto simp: not_le intro: patch_loop_progress [simplified])

declare patch_loop.simps [simp del]

definition patchRetryAttemptPayload :: "(string \<Rightarrow> string option) \<Rightarrow> string \<Rightarrow> int \<Rightarrow> string option" where
  "patchRetryAttemptPayload unq payload att =
     (let raw = go_TrimSpace payload; v = go_Itoa att in
      if length raw < 2 \<or> raw ! 0 \<noteq> CHR ''{'' \<or> last raw \<noteq> CHR ''}'' then None
      else (case patch_loop unq raw 1 None of
              None \<Rightarrow> None
            | Some (Some (a, b)) \<Rightarrow> Some (take a raw @ v @ drop b raw)
            | Some None \<Rightarrow>
                Some (take (length raw - 1) raw @ (if jsonObjectIsEmpty raw then [] else '','') @
                      [QUOTE] @ ''retry_attempt'' @ [QUOTE] @ '':'' @ v @ drop (length raw - 1) raw)))"

definition retryPayload ::
    "(string \<Rightarrow> string option) \<Rightarrow> (queued_message \<Rightarrow> string res) \<Rightarrow> job \<Rightarrow> queued_message \<Rightarrow> string res" where
  "retryPayload unq marshal j nxt =
     (case (if jb_rawPayload j \<noteq> []
            then patchRetryAttemptPayload unq (jb_rawPayload j) (qm_RetryAttempt nxt) else None) of
        Some payload \<Rightarrow> Inr payload
      | None \<Rightarrow> marshal nxt)"

section \<open>The outbox row\<close>

record outbox_row =
  ob_topic :: string
  ob_partition_key :: string
  ob_dedupe_key :: string
  ob_payload :: string
  ob_available_at :: int
  ob_last_error :: string

text \<open>\<open>ScheduleRetry\<close>: the environment is the rounding, the policy, the clock, the JSON codec, and
  \<open>exec\<close>, the error of the database when it refuses to run the statement.\<close>

record retry_env =
  re_db :: bool
  re_policy :: retry_policy
  re_fl :: "rat \<Rightarrow> rat"
  re_now :: int
  re_unq :: "string \<Rightarrow> string option"
  re_marshal :: "queued_message \<Rightarrow> string res"
  re_parse :: addr_parser
  re_exec :: "string option"

definition insert_row :: "outbox_row \<Rightarrow> outbox_row list \<Rightarrow> outbox_row list" where
  "insert_row r rows =
     (if ob_dedupe_key r \<in> set (map ob_dedupe_key rows) then rows else rows @ [r])"

definition ScheduleRetry ::
    "retry_env \<Rightarrow> job \<Rightarrow> derr option \<Rightarrow> outbox_row list \<Rightarrow> derr option \<times> outbox_row list" where
  "ScheduleRetry E j cause rows =
     (if \<not> re_db E then (Some (ErrText ''database handle is required''), rows)
      else let q = jb_queued j in
        (case NextScheduledDelay (re_fl E) (re_policy E) (qm_MessageID q) (qm_RetryAttempt q) of
           None \<Rightarrow> (Some (ErrWrap (''delivery retry attempts exhausted for message '' @ qm_MessageID q)
                      ErrRetryExhausted), rows)
         | Some delay \<Rightarrow>
             let nxt = q\<lparr>qm_RetryAttempt := wrap64 (qm_RetryAttempt q + 1)\<rparr> in
             (case retryPayload (re_unq E) (re_marshal E) j nxt of
                Inl e \<Rightarrow> (Some (ErrText (''marshal delivery retry payload: '' @ e)), rows)
              | Inr payload \<Rightarrow>
                  (case re_exec E of
                     Some e \<Rightarrow> (Some (ErrText (''schedule delivery retry: '' @ e)), rows)
                   | None \<Rightarrow>
                       (None, insert_row
                          \<lparr>ob_topic = ''mail.outbound.'' @ NormalizeFarm (qm_Farm q),
                           ob_partition_key = qm_MessageID q,
                           ob_dedupe_key = retryDedupeKey (re_parse E) j,
                           ob_payload = payload, ob_available_at = re_now E + delay,
                           ob_last_error = retryErrorMessage cause\<rparr> rows)))))"

section \<open>JSON texts\<close>

text \<open>Compact JSON: literals (numbers, true, false, null), strings with their escaped body,
  arrays and objects.\<close>

datatype json = JLit string | JStr string | JArr "json list" | JObj "(string \<times> json) list"

definition quoted :: "string \<Rightarrow> string" where
  "quoted b = QUOTE # b @ [QUOTE]"

fun render :: "json \<Rightarrow> string" where
  "render (JLit s) = s"
| "render (JStr b) = quoted b"
| "render (JArr js) = ''['' @ go_Join (map render js) '','' @ '']''"
| "render (JObj kvs) = ''{'' @ go_Join (map (\<lambda>(k, v). quoted k @ '':'' @ render v) kvs) '','' @ ''}''"

fun str_body :: "string \<Rightarrow> bool" where
  "str_body [] = True"
| "str_body [c] = (c \<noteq> QUOTE \<and> c \<noteq> BSLASH)"
| "str_body (c # d # cs) = (if c = BSLASH then str_body cs else c \<noteq> QUOTE \<and> str_body (d # cs))"

definition json_special :: "char \<Rightarrow> bool" where
  "json_special c \<longleftrightarrow> json_delim c \<or> c = QUOTE \<or> c = CHR ''{'' \<or> c = CHR ''[''"

fun json_wf :: "json \<Rightarrow> bool" where
  "json_wf (JLit s) = (s \<noteq> [] \<and> (\<forall>c\<in>set s. \<not> json_special c))"
| "json_wf (JStr b) = str_body b"
| "json_wf (JArr js) = (\<forall>j\<in>set js. json_wf j)"
| "json_wf (JObj kvs) = (\<forall>(k, v)\<in>set kvs. str_body k \<and> json_wf v)"

lemma str_end_body: "str_body b \<Longrightarrow> str_end (b @ QUOTE # t) = Some (Suc (length b))"
proof (induction b rule: str_body.induct)
  case 1
  then show ?case by (cases t) auto
next
  case (2 c)
  then show ?case by (cases t) auto
next
  case (3 c d cs)
  then show ?case by (auto split: if_splits)
qed

lemma comp_end_str: "str_body b \<Longrightarrow>
   comp_end (quoted b @ t) st = map_option (\<lambda>k. k + length (quoted b)) (comp_end t st)"
proof -
  assume "str_body b"
  then have "str_end (b @ QUOTE # t) = Some (Suc (length b))" by (rule str_end_body)
  then have "comp_end (QUOTE # b @ QUOTE # t) st = map_option (\<lambda>k. k + Suc (length b) + 1) (comp_end t st)"
    by (subst comp_end.simps) simp
  then show ?thesis by (simp add: quoted_def)
qed

lemma comp_end_plain:
  assumes "\<not> json_special c \<or> c = CHR '','' \<or> c = CHR '':''"
  shows "comp_end (c # t) st = map_option Suc (comp_end t st)"
proof -
  have "c \<noteq> QUOTE" "c \<noteq> CHR ''{''" "c \<noteq> CHR ''[''" "c \<noteq> CHR ''}''" "c \<noteq> CHR '']''"
    using assms by (auto simp: json_special_def json_delim_def)
  then show ?thesis by (subst comp_end.simps) simp
qed

lemma comp_end_lit:
  "\<forall>c\<in>set s. \<not> json_special c \<Longrightarrow> comp_end (s @ t) st = map_option (\<lambda>k. k + length s) (comp_end t st)"
  by (induction s) (auto simp: comp_end_plain option.map_comp comp_def option.map_ident)

abbreviation skips :: "string \<Rightarrow> bool" where
  "skips x \<equiv> \<forall>t st. st \<noteq> [] \<longrightarrow> comp_end (x @ t) st = map_option (\<lambda>k. k + length x) (comp_end t st)"

lemma skips_append: "skips x \<Longrightarrow> skips y \<Longrightarrow> skips (x @ y)"
  by (simp add: option.map_comp comp_def add.assoc add.commute add.left_commute)

lemma skips_Nil: "skips []"
  by (simp add: option.map_ident)

lemma skips_comma: "skips '',''" and skips_colon: "skips '':''"
  by (simp_all add: comp_end_plain json_special_def json_delim_def json_ws_def)

lemma skips_Join: "\<forall>x\<in>set xs. skips x \<Longrightarrow> skips (go_Join xs '','')"
proof (induction xs)
  case Nil
  show ?case using skips_Nil by simp
next
  case (Cons x xs)
  show ?case
  proof (cases xs)
    case Nil
    with Cons show ?thesis by simp
  next
    case (Cons y ys)
    then have "go_Join (x # xs) '','' = x @ '','' @ go_Join xs '',''" by simp
    moreover have "skips x" "skips (go_Join xs '','')" using Cons.IH Cons.prems by auto
    ultimately show ?thesis
      using skips_append [OF _ skips_append [OF skips_comma]] by metis
  qed
qed

lemma skips_bracket:
  assumes "skips x" and "(a, b) \<in> {(CHR ''['', CHR '']''), (CHR ''{'', CHR ''}'')}"
  shows "skips ([a] @ x @ [b])"
proof (intro allI impI)
  fix t st :: string
  assume st: "st \<noteq> []"
  have "comp_end ([b] @ t) (b # st) = map_option Suc (comp_end t st)"
    using assms(2) st by (auto simp: comp_end.simps [of "b # t"])
  then have "comp_end (x @ [b] @ t) (b # st) = map_option (\<lambda>k. Suc k + length x) (comp_end t st)"
    using assms(1) by (simp add: option.map_comp comp_def)
  moreover have "comp_end ([a] @ x @ [b] @ t) st = map_option Suc (comp_end (x @ [b] @ t) (b # st))"
    using assms(2) by (auto simp: comp_end.simps [of "a # x @ b # t"])
  ultimately show "comp_end (([a] @ x @ [b]) @ t) st
      = map_option (\<lambda>k. k + length ([a] @ x @ [b])) (comp_end t st)"
    by (simp add: option.map_comp comp_def add.commute)
qed

lemma skips_render: "json_wf j \<Longrightarrow> skips (render j)"
proof (induction j rule: render.induct)
  case (1 s)
  then show ?case using comp_end_lit by simp
next
  case (2 b)
  then show ?case using comp_end_str by simp
next
  case (3 js)
  then have "skips (go_Join (map render js) '','')" by (intro skips_Join) auto
  from skips_bracket [OF this, of "CHR ''[''" "CHR '']''"] show ?case by simp
next
  case (4 kvs)
  have "skips (quoted k @ '':'' @ render v)" if "(k, v) \<in> set kvs" for k v
  proof -
    have "str_body k" "skips (render v)" using 4 that by auto
    moreover have "skips (quoted k)" using comp_end_str [OF \<open>str_body k\<close>] by blast
    ultimately show ?thesis using skips_append [OF _ skips_append [OF skips_colon]] by metis
  qed
  then have "skips (go_Join (map (\<lambda>(k, v). quoted k @ '':'' @ render v) kvs) '','')"
    by (intro skips_Join) auto
  from skips_bracket [OF this, of "CHR ''{''" "CHR ''}''"] show ?case by simp
qed

lemma comp_end_closed:
  assumes "skips x" and "b = CHR '']'' \<or> b = CHR ''}''"
  shows "comp_end (x @ [b] @ t) [b] = Some (length x + 1)"
proof -
  have "comp_end ([b] @ t) [b] = Some 1"
    using assms(2) by (auto simp: comp_end.simps [of "b # t"])
  with assms(1) show ?thesis by simp
qed

text \<open>Skipping a value in the middle of a text.\<close>

lemma skipJSONValue_render:
  assumes wf: "json_wf j" and post: "post \<noteq> []" "hd post = CHR '','' \<or> hd post = CHR ''}''"
    and raw: "raw = pre @ render j @ post"
  shows "skipJSONValue raw (length pre) = Some (length pre + length (render j))"
proof (cases j)
  case (JLit s)
  then have s: "s \<noteq> []" "\<forall>c\<in>set s. \<not> json_special c" "raw = pre @ s @ post" using wf raw by auto
  have hd: "raw ! length pre = hd s" using s by (cases s) (simp_all add: nth_append)
  have "\<not> json_special (hd s)" using s by simp
  moreover have "takeWhile (\<lambda>c. \<not> json_delim c) (s @ post) = s"
  proof -
    have "takeWhile (\<lambda>c. \<not> json_delim c) (s @ post) = s @ takeWhile (\<lambda>c. \<not> json_delim c) post"
      using s(2) by (intro takeWhile_append2) (auto simp: json_special_def)
    then show ?thesis using post by (cases post) (auto simp: json_delim_def)
  qed
  moreover have "skipJSONSpaceBack raw (length pre + length s) = length pre + length s"
  proof -
    have "take (length pre + length s) raw = pre @ s" using s by simp
    moreover have "\<not> json_ws (last s)" using s by (auto simp: json_special_def json_delim_def)
    moreover obtain w l where "s = w @ [l]" using s(1) by (cases s rule: rev_cases) auto
    ultimately have "takeWhile json_ws (rev (take (length pre + length s) raw)) = []" by simp
    then show ?thesis by (simp add: skipJSONSpaceBack_def)
  qed
  ultimately show ?thesis
    using s hd post JLit
    by (auto simp: skipJSONValue_def Let_def json_special_def)
next
  case (JStr b)
  then have b: "str_body b" using wf by simp
  have "raw ! length pre = QUOTE" using raw JStr by (simp add: quoted_def nth_append)
  moreover have "drop (Suc (length pre)) raw = b @ QUOTE # post" using raw JStr by (simp add: quoted_def)
  ultimately show ?thesis
    using raw JStr str_end_body [OF b, of post]
    by (simp add: skipJSONValue_def skipJSONString_def quoted_def)
next
  case (JArr js)
  define x where "x = go_Join (map render js) '',''"
  have x: "skips x" unfolding x_def using JArr wf skips_render by (intro skips_Join) auto
  have "raw ! length pre = CHR ''[''" using raw JArr by (simp add: nth_append)
  moreover have "drop (Suc (length pre)) raw = x @ '']'' @ post" using raw JArr by (simp add: x_def)
  ultimately show ?thesis
    using raw JArr comp_end_closed [OF x, of "CHR '']''" post]
    by (simp add: skipJSONValue_def skipJSONComposite_def x_def)
next
  case (JObj kvs)
  define x where "x = go_Join (map (\<lambda>(k, v). quoted k @ '':'' @ render v) kvs) '',''"
  have "skips (quoted k @ '':'' @ render v)" if "(k, v) \<in> set kvs" for k v
  proof -
    have "str_body k" "skips (render v)" using JObj wf that skips_render by auto
    moreover have "skips (quoted k)" using comp_end_str [OF \<open>str_body k\<close>] by blast
    ultimately show ?thesis using skips_append [OF _ skips_append [OF skips_colon]] by metis
  qed
  then have x: "skips x" unfolding x_def by (intro skips_Join) auto
  have "raw ! length pre = CHR ''{''" using raw JObj by (simp add: nth_append)
  moreover have "drop (Suc (length pre)) raw = x @ ''}'' @ post" using raw JObj by (simp add: x_def)
  ultimately show ?thesis
    using raw JObj comp_end_closed [OF x, of "CHR ''}''" post]
    by (simp add: skipJSONValue_def skipJSONComposite_def x_def)
qed

section \<open>The patch on a rendered object\<close>

definition field :: "string \<times> json \<Rightarrow> string" where
  "field kv = quoted (fst kv) @ '':'' @ render (snd kv)"

fun fields :: "string \<Rightarrow> (string \<times> json) list \<Rightarrow> string" where
  "fields sep [] = []"
| "fields sep (kv # kvs) = sep @ field kv @ fields '','' kvs"

lemma fields_append:
  "fields sep (xs @ ys) = fields sep xs @ fields (if xs = [] then sep else '','') ys"
  by (induction sep xs rule: fields.induct) auto

lemma render_JObj: "render (JObj kvs) = ''{'' @ fields [] kvs @ ''}''"
proof -
  have "go_Join (map (\<lambda>(k, v). quoted k @ '':'' @ render v) kvs) '','' = fields [] kvs"
  proof (induction kvs)
    case (Cons kv kvs)
    moreover have "kvs \<noteq> [] \<Longrightarrow> fields '','' kvs = '','' @ fields [] kvs" by (cases kvs) auto
    ultimately show ?case by (cases "kvs = []") (auto simp: go_Join_Cons field_def split: prod.splits)
  qed simp
  then show ?thesis by simp
qed

text \<open>The decoded text of a key: an escaped key goes through the JSON decoder.\<close>

definition key_text :: "(string \<Rightarrow> string option) \<Rightarrow> string \<Rightarrow> string option" where
  "key_text unq k = (if BSLASH \<in> set k then unq (quoted k) else Some k)"

abbreviation is_retry_key :: "(string \<Rightarrow> string option) \<Rightarrow> string \<times> json \<Rightarrow> bool" where
  "is_retry_key unq kv \<equiv> key_text unq (fst kv) = Some ''retry_attempt''"

definition field_ok :: "(string \<Rightarrow> string option) \<Rightarrow> string \<times> json \<Rightarrow> bool" where
  "field_ok unq kv \<longleftrightarrow> str_body (fst kv) \<and> json_wf (snd kv) \<and> key_text unq (fst kv) \<noteq> None"

lemma key_is_retry:
  "jsonObjectKeyIsRetryAttempt unq (quoted k) = map_option (\<lambda>t. t = ''retry_attempt'') (key_text unq k)"
  by (auto simp: jsonObjectKeyIsRetryAttempt_def key_text_def quoted_def retryAttemptJSONKey_def)

lemma skipJSONSpace_nonws: "i < length raw \<Longrightarrow> \<not> json_ws (raw ! i) \<Longrightarrow> skipJSONSpace raw i = i"
  by (simp add: skipJSONSpace_def Cons_nth_drop_Suc [symmetric])

lemma render_start: "json_wf v \<Longrightarrow> render v \<noteq> [] \<and> \<not> json_ws (hd (render v))"
  by (cases v) (auto simp: quoted_def json_ws_def json_special_def json_delim_def)

lemma patch_loop_comma:
  "raw = pre @ '','' @ post \<Longrightarrow> post \<noteq> [] \<Longrightarrow>
   patch_loop unq raw (length pre) found = patch_loop unq raw (length pre + 1) found"
  by (subst patch_loop.simps)
     (simp add: skipJSONSpace_nonws nth_append json_ws_def Let_def Suc_le_eq)

lemma patch_loop_end:
  "raw = pre @ ''}'' \<Longrightarrow> patch_loop unq raw (length pre) found = Some found"
  by (subst patch_loop.simps) simp

lemma patch_loop_field:
  assumes ok: "field_ok unq (k, v)" and raw: "raw = pre @ field (k, v) @ post"
    and post: "post \<noteq> []" "hd post = CHR '','' \<or> hd post = CHR ''}''"
  shows "patch_loop unq raw (length pre) found =
    (if is_retry_key unq (k, v)
     then if found \<noteq> None then None
          else patch_loop unq raw (length pre + length (field (k, v)))
                 (Some (length pre + length (quoted k) + 1, length pre + length (field (k, v))))
     else patch_loop unq raw (length pre + length (field (k, v))) found)"
proof -
  define c where "c = length pre + length (quoted k)"
  have body: "str_body k" and wf: "json_wf v" and kt: "key_text unq k \<noteq> None"
    using ok by (auto simp: field_ok_def)
  have len: "length raw = c + 1 + length (render v) + length post"
    by (simp add: raw field_def c_def)
  have q: "raw ! length pre = QUOTE" "length pre < length raw - 1"
    using post by (auto simp: raw field_def quoted_def nth_append)
  have str: "skipJSONString raw (length pre) = Some c"
    using q str_end_body [OF body, of "'':'' @ render v @ post"]
    by (simp add: skipJSONString_def raw field_def quoted_def c_def)
  have sl: "go_slice raw (length pre) c = quoted k"
    by (simp add: go_slice_def raw field_def c_def)
  have colon: "raw ! c = CHR '':''" "c < length raw"
    by (auto simp: raw field_def c_def nth_append)
  have vs: "raw ! (c + 1) = hd (render v)" "c + 1 < length raw"
    using render_start [OF wf] len
    by (auto simp: raw field_def c_def nth_append hd_conv_nth)
  have split: "raw = (pre @ quoted k @ '':'') @ render v @ post" by (simp add: raw field_def)
  have val: "skipJSONValue raw (c + 1) = Some (length pre + length (field (k, v)))"
    using skipJSONValue_render [OF wf post split] by (simp add: c_def field_def)
  have sp: "skipJSONSpace raw (length pre) = length pre" "skipJSONSpace raw c = c"
    "skipJSONSpace raw (c + 1) = c + 1"
    using q colon vs render_start [OF wf]
    by (auto intro!: skipJSONSpace_nonws simp: json_ws_def)
  show ?thesis
    using q str sl colon sp val kt
    by (subst patch_loop.simps) (auto simp: key_is_retry Let_def c_def)
qed

lemma fields_post_hd: "hd (fields '','' kvs @ ''}'') = CHR '','' \<or> hd (fields '','' kvs @ ''}'') = CHR ''}''"
  by (cases kvs) auto

lemma patch_loop_fields_step:
  assumes ok: "field_ok unq kv" and sep: "sep = [] \<or> sep = '',''"
    and raw: "raw = pre @ fields sep (kv # kvs) @ ''}''"
  shows "patch_loop unq raw (length pre) found =
    patch_loop unq raw (length (pre @ sep)) found"
  using assms patch_loop_comma [of raw pre "field kv @ fields '','' kvs @ ''}''"] by auto

text \<open>Fields with other keys are passed over.\<close>

lemma patch_loop_skip:
  assumes "\<forall>kv\<in>set kvs. field_ok unq kv \<and> \<not> is_retry_key unq kv" and "sep = [] \<or> sep = '',''"
    and "raw = pre @ fields sep (kvs @ rest) @ ''}''"
  shows "patch_loop unq raw (length pre) found = patch_loop unq raw (length (pre @ fields sep kvs)) found"
  using assms
proof (induction kvs arbitrary: pre sep)
  case (Cons kv kvs)
  obtain k v where kv: "kv = (k, v)" by (cases kv)
  have ok: "field_ok unq (k, v)" and no: "\<not> is_retry_key unq (k, v)" using Cons.prems(1) kv by auto
  have raw: "raw = (pre @ sep) @ field (k, v) @ fields '','' (kvs @ rest) @ ''}''"
    using Cons.prems(3) kv by simp
  have "patch_loop unq raw (length pre) found = patch_loop unq raw (length (pre @ sep)) found"
    using patch_loop_fields_step [OF ok Cons.prems(2)] Cons.prems(3) kv by simp
  also have "\<dots> = patch_loop unq raw (length (pre @ sep @ field (k, v))) found"
    using patch_loop_field [OF ok raw _ fields_post_hd] no by (simp add: add.assoc)
  also have "\<dots> = patch_loop unq raw (length ((pre @ sep @ field (k, v)) @ fields '','' kvs)) found"
    using Cons.prems(1) raw by (intro Cons.IH) auto
  finally show ?case using kv by simp
qed simp

text \<open>Replacing the value of a key.\<close>

definition set_retry :: "(string \<Rightarrow> string option) \<Rightarrow> int \<Rightarrow> string \<times> json \<Rightarrow> string \<times> json" where
  "set_retry unq n kv = (if is_retry_key unq kv then (fst kv, JLit (go_Itoa n)) else kv)"

lemma split_first_hit:
  "filter P xs \<noteq> [] \<Longrightarrow> \<exists>as x bs. xs = as @ x # bs \<and> (\<forall>a\<in>set as. \<not> P a) \<and> P x \<and>
     length (filter P xs) = Suc (length (filter P bs))"
proof -
  assume "filter P xs \<noteq> []"
  then have "\<exists>x\<in>set xs. P x" by (auto simp: filter_empty_conv)
  from split_list_first_prop [OF this]
  obtain as x bs where "xs = as @ x # bs" "P x" "\<forall>a\<in>set as. \<not> P a" by blast
  moreover from this have "filter P as = []" by (simp add: filter_empty_conv)
  then have "length (filter P xs) = Suc (length (filter P bs))"
    using \<open>xs = as @ x # bs\<close> \<open>P x\<close> by simp
  ultimately show ?thesis by blast
qed

lemma patch_loop_hit:
  assumes ok: "\<forall>kv\<in>set (as @ (k, v) # bs). field_ok unq kv"
    and as: "\<forall>a\<in>set as. \<not> is_retry_key unq a" and hit: "is_retry_key unq (k, v)"
    and sep: "sep = [] \<or> sep = '',''" and raw: "raw = pre @ fields sep (as @ (k, v) # bs) @ ''}''"
    and p: "p = length (pre @ fields sep as @ (if as = [] then sep else '',''))"
  shows "patch_loop unq raw (length pre) found =
    (if found \<noteq> None then None
     else patch_loop unq raw (p + length (field (k, v)))
            (Some (p + length (quoted k) + 1, p + length (field (k, v)))))"
proof -
  let ?s = "if as = [] then sep else '',''"
  have s: "?s = [] \<or> ?s = '',''" using sep by auto
  have raw1: "raw = (pre @ fields sep as) @ fields ?s ((k, v) # bs) @ ''}''"
    using raw by (simp add: fields_append)
  have okkv: "field_ok unq (k, v)" using ok by simp
  have "patch_loop unq raw (length pre) found = patch_loop unq raw (length (pre @ fields sep as)) found"
    by (rule patch_loop_skip [OF _ sep raw]) (use ok as in auto)
  also have "\<dots> = patch_loop unq raw p found"
    using patch_loop_fields_step [OF okkv s raw1] p by (simp add: add.assoc)
  finally show ?thesis
    using patch_loop_field [OF okkv _ _ fields_post_hd, of raw "pre @ fields sep as @ ?s" bs] raw1 hit p
    by simp
qed

lemma patch_payload_object:
  assumes "raw = ''{'' @ body @ ''}''"
  shows "patchRetryAttemptPayload unq raw n =
     (case patch_loop unq raw 1 None of
        None \<Rightarrow> None
      | Some (Some (a, b)) \<Rightarrow> Some (take a raw @ go_Itoa n @ drop b raw)
      | Some None \<Rightarrow>
          Some (''{'' @ body @ (if body = [] then [] else if jsonObjectIsEmpty raw then [] else '','') @
                quoted ''retry_attempt'' @ '':'' @ go_Itoa n @ ''}''))"
proof -
  have "go_TrimSpace raw = raw"
    by (rule go_TrimSpace_graphic_ends) (auto simp: assms graphic_def)
  moreover have "body = [] \<Longrightarrow> jsonObjectIsEmpty raw"
    by (simp add: assms jsonObjectIsEmpty_def skipJSONSpace_def json_ws_def)
  ultimately show ?thesis
    by (auto simp: patchRetryAttemptPayload_def assms quoted_def Let_def split: option.splits)
qed

lemma object_not_empty:
  assumes "kvs \<noteq> []"
  shows "fields [] kvs \<noteq> []" and "\<not> jsonObjectIsEmpty (''{'' @ fields [] kvs @ ''}'')"
proof -
  obtain kv t where k: "kvs = kv # t" using assms by (cases kvs) auto
  show "fields [] kvs \<noteq> []" using k by (simp add: field_def quoted_def)
  show "\<not> jsonObjectIsEmpty (''{'' @ fields [] kvs @ ''}'')"
    by (simp add: k jsonObjectIsEmpty_def skipJSONSpace_def field_def quoted_def json_ws_def)
qed

lemma patch_absent:
  assumes ok: "\<forall>kv\<in>set kvs. field_ok unq kv" and none: "filter (is_retry_key unq) kvs = []"
  shows "patchRetryAttemptPayload unq (render (JObj kvs)) n =
         Some (render (JObj (kvs @ [(''retry_attempt'', JLit (go_Itoa n))])))"
proof -
  define raw where "raw = ''{'' @ fields [] kvs @ ''}''"
  have "patch_loop unq raw (length ''{'') None = patch_loop unq raw (length (''{'' @ fields [] kvs)) None"
    by (rule patch_loop_skip [where rest = "[]"]) (use ok none in \<open>auto simp: raw_def filter_empty_conv\<close>)
  also have "\<dots> = Some None"
    using patch_loop_end [of raw "''{'' @ fields [] kvs"] by (simp add: raw_def)
  finally have "patch_loop unq raw 1 None = Some None" by simp
  then show ?thesis
    unfolding render_JObj raw_def [symmetric]
    using patch_payload_object [OF raw_def, of unq n] object_not_empty [of kvs]
    by (cases "kvs = []") (simp_all add: fields_append field_def raw_def)
qed

lemma map_set_retry_others: "\<forall>a\<in>set as. \<not> is_retry_key unq a \<Longrightarrow> map (set_retry unq n) as = as"
  by (induction as) (auto simp: set_retry_def)

lemma patch_present:
  assumes ok: "\<forall>kv\<in>set (as @ (k, v) # bs). field_ok unq kv"
    and as: "\<forall>a\<in>set as. \<not> is_retry_key unq a" and hit: "is_retry_key unq (k, v)"
  shows "patchRetryAttemptPayload unq (render (JObj (as @ (k, v) # bs))) n =
         (if filter (is_retry_key unq) bs = []
          then Some (render (JObj (map (set_retry unq n) (as @ (k, v) # bs)))) else None)"
proof -
  let ?s = "if as = [] then [] else '',''"
  define raw where "raw = ''{'' @ fields [] (as @ (k, v) # bs) @ ''}''"
  define q where "q = (''{'' @ fields [] as @ ?s) @ field (k, v)"
  define f where "f = (length (''{'' @ fields [] as @ ?s @ quoted k @ '':''), length q)"
  have raw: "raw = q @ fields '','' bs @ ''}''"
    by (simp add: raw_def q_def fields_append)
  have loop: "patch_loop unq raw 1 None = patch_loop unq raw (length q) (Some f)"
    using patch_loop_hit [OF ok as hit, of "[]" raw "''{''" _ None] raw_def
    by (simp add: q_def f_def add.assoc)
  note pay = patch_payload_object [OF raw_def, of unq n]
  show ?thesis
  proof (cases "filter (is_retry_key unq) bs = []")
    case True
    have "patch_loop unq raw (length q) (Some f) = patch_loop unq raw (length (q @ fields '','' bs)) (Some f)"
      by (rule patch_loop_skip [where rest = "[]"]) (use ok True raw in \<open>auto simp: filter_empty_conv\<close>)
    also have "\<dots> = Some (Some f)"
      using patch_loop_end [of raw "q @ fields '','' bs"] raw by simp
    finally have "patchRetryAttemptPayload unq raw n = Some (take (fst f) raw @ go_Itoa n @ drop (snd f) raw)"
      using pay loop by (simp add: f_def)
    moreover have "take (fst f) raw = ''{'' @ fields [] as @ ?s @ quoted k @ '':''"
      by (simp add: raw q_def f_def field_def)
    moreover have "drop (snd f) raw = fields '','' bs @ ''}''" by (simp add: raw f_def)
    moreover have "map (set_retry unq n) (as @ (k, v) # bs) = as @ (k, JLit (go_Itoa n)) # bs"
      using as hit True by (simp add: map_set_retry_others filter_empty_conv set_retry_def)
    ultimately show ?thesis
      unfolding render_JObj raw_def [symmetric] using True
      by (simp add: fields_append field_def)
  next
    case False
    then obtain cs x ds where bs: "bs = cs @ x # ds" "\<forall>a\<in>set cs. \<not> is_retry_key unq a" "is_retry_key unq x"
      using split_first_hit by blast
    obtain k' v' where x: "x = (k', v')" by (cases x)
    have "patch_loop unq raw (length q) (Some f) = None"
      using patch_loop_hit [where as = cs and k = k' and v = v' and bs = ds and sep = "'',''" and pre = q
          and found = "Some f" and raw = raw and unq = unq] ok bs x raw by simp
    then show ?thesis
      unfolding render_JObj raw_def [symmetric] using pay loop False by simp
  qed
qed

text \<open>
  Rescheduling rewrites exactly one field of the queued payload. On the text of any compact
  JSON object whose keys the JSON decoder accepts, the byte-level patch replaces the value of
  the only \<open>retry_attempt\<close> key (also when the key is written with escapes) and leaves every other
  byte alone; without such a key it appends the field; and with two or more it refuses, so that
  the caller marshals the message instead.
\<close>

theorem patch_sets_retry_attempt:
  assumes "\<forall>kv\<in>set kvs. field_ok unq kv"
  shows "patchRetryAttemptPayload unq (render (JObj kvs)) n =
    (let hits = filter (is_retry_key unq) kvs in
     if hits = [] then Some (render (JObj (kvs @ [(''retry_attempt'', JLit (go_Itoa n))])))
     else if length hits = 1 then Some (render (JObj (map (set_retry unq n) kvs)))
     else None)"
proof (cases "filter (is_retry_key unq) kvs = []")
  case True
  then show ?thesis using patch_absent [OF assms] by simp
next
  case False
  from split_first_hit [OF False] obtain as x bs where
    s: "kvs = as @ x # bs" "\<forall>a\<in>set as. \<not> is_retry_key unq a" "is_retry_key unq x"
       "length (filter (is_retry_key unq) kvs) = Suc (length (filter (is_retry_key unq) bs))" by blast
  obtain k v where x: "x = (k, v)" by (cases x)
  have "patchRetryAttemptPayload unq (render (JObj kvs)) n =
        (if filter (is_retry_key unq) bs = [] then Some (render (JObj (map (set_retry unq n) kvs))) else None)"
    unfolding s(1) x by (rule patch_present) (use assms s x in auto)
  then show ?thesis using False s(4) by (auto simp: Let_def)
qed

theorem patch_sets_retry_attempt_witness:
  "patchRetryAttemptPayload (\<lambda>_. None)
     (render (JObj [(''id'', JStr ''a''), (''retry_attempt'', JLit ''3''), (''to'', JArr [JObj []])])) 4
   = Some (render (JObj [(''id'', JStr ''a''), (''retry_attempt'', JLit ''4''), (''to'', JArr [JObj []])]))"
  by (subst patch_sets_retry_attempt)
     (simp_all add: field_ok_def key_text_def json_special_def json_delim_def json_ws_def set_retry_def
        go_Itoa_def itoa_nat.simps digit_char_def char_of_def bit_Suc_0_iff)

section \<open>When the next attempt is made\<close>

lemma NextDelay_Some_iff:
  "NextDelay p n = Some d \<longleftrightarrow> nat (max 0 n) < length (rp_Delays p) \<and> d = rp_Delays p ! nat (max 0 n)"
  by (auto simp: NextDelay_def Let_def nat_less_iff max_def)

lemma NextScheduledDelay_None_iff:
  "NextScheduledDelay fl p key n = None \<longleftrightarrow> length (rp_Delays p) \<le> nat (max 0 n)"
proof -
  have "NextScheduledDelay fl p key n = None \<longleftrightarrow> NextDelay p n = None"
    by (auto simp: NextScheduledDelay_def Let_def split: option.splits)
  also have "\<dots> \<longleftrightarrow> length (rp_Delays p) \<le> nat (max 0 n)"
    using NextDelay_Some_iff [of p n] by (metis not_less option.exhaust option.distinct(1))
  finally show ?thesis .
qed

lemma deterministicJitter_pos: "0 < base \<Longrightarrow> 0 < deterministicJitter fl base ratio key n"
  by (auto simp: deterministicJitter_def Let_def)

definition delays_positive :: "retry_policy \<Rightarrow> bool" where
  "delays_positive p \<longleftrightarrow> (\<forall>d\<in>set (rp_Delays p). 0 < d)"

lemma NextScheduledDelay_bounds:
  assumes "delays_positive p" and "NextScheduledDelay fl p key n = Some d"
  shows "0 < d" and "0 < rp_MaxDelay p \<Longrightarrow> d \<le> rp_MaxDelay p"
proof -
  obtain b where b: "NextDelay p n = Some b"
    using assms(2) by (auto simp: NextScheduledDelay_def split: option.splits)
  then have "0 < b" using assms(1) by (auto simp: NextDelay_Some_iff delays_positive_def)
  then have "0 < deterministicJitter fl b (rp_JitterRatio p) key n" by (rule deterministicJitter_pos)
  then show "0 < d" and "0 < rp_MaxDelay p \<Longrightarrow> d \<le> rp_MaxDelay p"
    using assms(2) b by (auto simp: NextScheduledDelay_def Let_def split: if_splits)
qed

section \<open>The deduplication key does not depend on the order of the recipients\<close>

definition recipient_keys :: "addr_parser \<Rightarrow> job \<Rightarrow> string list" where
  "recipient_keys parse j = map (\<lambda>r. go_ToLower (go_TrimSpace (Email r))) (job_Recipients parse j)"

lemma retryDedupeKey_sorted:
  "retryDedupeKey parse j = ''retry:'' @ go_TrimSpace (qm_MessageID (jb_queued j)) @ '':'' @
     go_Itoa (wrap64 (qm_RetryAttempt (jb_queued j) + 1)) @ '':'' @ go_Join (sort (recipient_keys parse j)) '',''"
  by (simp add: retryDedupeKey_def recipient_keys_def Let_def sorted_sort_id)

text \<open>
  The key that deduplicates a scheduled retry identifies the message, the attempt and the
  set of recipients: two jobs for the same message and attempt whose recipients are the same up to
  order, case and surrounding white space have the same key.
\<close>

theorem retry_key_ignores_order:
  assumes "go_TrimSpace (qm_MessageID (jb_queued j)) = go_TrimSpace (qm_MessageID (jb_queued j'))"
    and "qm_RetryAttempt (jb_queued j) = qm_RetryAttempt (jb_queued j')"
    and "mset (recipient_keys parse j) = mset (recipient_keys parse j')"
  shows "retryDedupeKey parse j = retryDedupeKey parse j'"
proof -
  have "sort (recipient_keys parse j) = sort (recipient_keys parse j')"
    using assms(3) by (intro properties_for_sort) auto
  with assms(1,2) show ?thesis by (simp add: retryDedupeKey_sorted)
qed

section \<open>Scheduling\<close>

lemma ScheduleRetry_cases:
  "ScheduleRetry E j cause rows = (r, rows') \<Longrightarrow>
   (r \<noteq> None \<and> rows' = rows) \<or>
   (r = None \<and> retryDedupeKey (re_parse E) j \<in> ob_dedupe_key ` set rows')"
  by (auto simp: ScheduleRetry_def Let_def insert_row_def split: if_splits option.splits sum.splits)

lemma schedule_retry_parts:
  assumes "delays_positive (re_policy E)" and "0 < rp_MaxDelay (re_policy E)"
    and run: "ScheduleRetry E j cause rows = (None, rows')"
  shows "int (length (rp_Delays (re_policy E))) > max 0 (qm_RetryAttempt (jb_queued j))"
    and "ob_dedupe_key ` set rows' = insert (retryDedupeKey (re_parse E) j) (ob_dedupe_key ` set rows)"
    and "(rows' = rows \<and> retryDedupeKey (re_parse E) j \<in> ob_dedupe_key ` set rows) \<or>
         (\<exists>row. rows' = rows @ [row] \<and> ob_partition_key row = qm_MessageID (jb_queued j) \<and>
            ob_topic row = ''mail.outbound.'' @ NormalizeFarm (qm_Farm (jb_queued j)) \<and>
            Inr (ob_payload row) = retryPayload (re_unq E) (re_marshal E) j
               (jb_queued j\<lparr>qm_RetryAttempt := wrap64 (qm_RetryAttempt (jb_queued j) + 1)\<rparr>) \<and>
            re_now E < ob_available_at row \<and>
            ob_available_at row \<le> re_now E + rp_MaxDelay (re_policy E))"
    and "ScheduleRetry E j cause' rows' = (None, rows')"
proof -
  obtain d payload where d: "re_db E" "re_exec E = None"
      "NextScheduledDelay (re_fl E) (re_policy E) (qm_MessageID (jb_queued j))
         (qm_RetryAttempt (jb_queued j)) = Some d"
      "retryPayload (re_unq E) (re_marshal E) j
         (jb_queued j\<lparr>qm_RetryAttempt := wrap64 (qm_RetryAttempt (jb_queued j) + 1)\<rparr>) = Inr payload"
    using run by (auto simp: ScheduleRetry_def Let_def split: if_splits option.splits sum.splits)
  have "\<not> length (rp_Delays (re_policy E)) \<le> nat (max 0 (qm_RetryAttempt (jb_queued j)))"
    using d(3) NextScheduledDelay_None_iff by (metis option.distinct(1))
  then show "int (length (rp_Delays (re_policy E))) > max 0 (qm_RetryAttempt (jb_queued j))"
    by linarith
  show keys: "ob_dedupe_key ` set rows' = insert (retryDedupeKey (re_parse E) j) (ob_dedupe_key ` set rows)"
    using run d by (auto simp: ScheduleRetry_def Let_def insert_row_def split: if_splits)
  show "(rows' = rows \<and> retryDedupeKey (re_parse E) j \<in> ob_dedupe_key ` set rows) \<or>
         (\<exists>row. rows' = rows @ [row] \<and> ob_partition_key row = qm_MessageID (jb_queued j) \<and>
            ob_topic row = ''mail.outbound.'' @ NormalizeFarm (qm_Farm (jb_queued j)) \<and>
            Inr (ob_payload row) = retryPayload (re_unq E) (re_marshal E) j
               (jb_queued j\<lparr>qm_RetryAttempt := wrap64 (qm_RetryAttempt (jb_queued j) + 1)\<rparr>) \<and>
            re_now E < ob_available_at row \<and>
            ob_available_at row \<le> re_now E + rp_MaxDelay (re_policy E))"
    using run d NextScheduledDelay_bounds [OF assms(1) d(3)] assms(2)
    by (auto simp: ScheduleRetry_def Let_def insert_row_def split: if_splits)
  show "ScheduleRetry E j cause' rows' = (None, rows')"
    using d keys by (auto simp: ScheduleRetry_def Let_def insert_row_def)
qed

text \<open>
  C29. A retry is scheduled once and within the window of the policy. When \<open>ScheduleRetry\<close> returns
  no error, the attempt was within the policy, the outbox holds a row with the deduplication key of
  the job, and either it held one before and is unchanged, or exactly one row was appended: for the
  farm topic and the message, with the patched payload, available strictly later than now and no
  later than the maximal delay. Repeating the call leaves the outbox as it is. This holds whatever
  the rounding of the floating-point jitter is.
\<close>

theorem schedule_retry_once_in_window:
  assumes "delays_positive (re_policy E)" and "0 < rp_MaxDelay (re_policy E)"
    and run: "ScheduleRetry E j cause rows = (None, rows')"
  shows "(int (length (rp_Delays (re_policy E))) > max 0 (qm_RetryAttempt (jb_queued j))) \<and>
    (ob_dedupe_key ` set rows' = insert (retryDedupeKey (re_parse E) j) (ob_dedupe_key ` set rows)) \<and>
    ((rows' = rows \<and> retryDedupeKey (re_parse E) j \<in> ob_dedupe_key ` set rows) \<or>
         (\<exists>row. rows' = rows @ [row] \<and> ob_partition_key row = qm_MessageID (jb_queued j) \<and>
            ob_topic row = ''mail.outbound.'' @ NormalizeFarm (qm_Farm (jb_queued j)) \<and>
            Inr (ob_payload row) = retryPayload (re_unq E) (re_marshal E) j
               (jb_queued j\<lparr>qm_RetryAttempt := wrap64 (qm_RetryAttempt (jb_queued j) + 1)\<rparr>) \<and>
            re_now E < ob_available_at row \<and>
            ob_available_at row \<le> re_now E + rp_MaxDelay (re_policy E))) \<and>
    (ScheduleRetry E j cause' rows' = (None, rows'))"
  using schedule_retry_parts [OF assms] by blast

text \<open>
  The number of attempts is bounded by the policy: with a database, \<open>ScheduleRetry\<close> reports
  that the attempts are exhausted exactly when the attempt counter has reached the number of
  configured delays, and then writes nothing.
\<close>

theorem retry_budget:
  assumes "re_db E"
  shows "(\<exists>e. ScheduleRetry E j cause rows = (Some e, rows) \<and> is_exhausted e) \<longleftrightarrow>
         int (length (rp_Delays (re_policy E))) \<le> max 0 (qm_RetryAttempt (jb_queued j))"
proof -
  have "length (rp_Delays (re_policy E)) \<le> nat (max 0 (qm_RetryAttempt (jb_queued j))) \<longleftrightarrow>
        int (length (rp_Delays (re_policy E))) \<le> max 0 (qm_RetryAttempt (jb_queued j))" by linarith
  then show ?thesis
    using assms NextScheduledDelay_None_iff [of "re_fl E" "re_policy E" "qm_MessageID (jb_queued j)"
        "qm_RetryAttempt (jb_queued j)"]
    by (auto simp: ScheduleRetry_def Let_def split: option.splits sum.splits)
qed

definition sample_env :: retry_env where
  "sample_env = \<lparr>re_db = True, re_policy = DefaultRetryPolicy, re_fl = (\<lambda>x. x), re_now = 1000,
     re_unq = (\<lambda>_. None), re_marshal = (\<lambda>_. Inr ''{}''), re_parse = identity_parser, re_exec = None\<rparr>"

definition retry_job :: job where
  "retry_job = \<lparr>jb_queued = sample_message, jb_recipientCache = None, jb_rawPayload = []\<rparr>"

theorem schedule_retry_once_in_window_witness:
  "\<exists>rows'. ScheduleRetry sample_env retry_job None [] = (None, rows') \<and>
     ScheduleRetry sample_env retry_job None rows' = (None, rows')"
proof -
  have p: "delays_positive (re_policy sample_env)" "0 < rp_MaxDelay (re_policy sample_env)"
    by (simp_all add: delays_positive_def sample_env_def DefaultRetryPolicy_def minutes_def hours_def)
  have "NextScheduledDelay (\<lambda>x. x) DefaultRetryPolicy (qm_MessageID sample_message) 0 \<noteq> None"
    by (simp add: NextScheduledDelay_None_iff DefaultRetryPolicy_def)
  then have "fst (ScheduleRetry sample_env retry_job None []) = None"
    by (auto simp: ScheduleRetry_def sample_env_def retry_job_def retryPayload_def sample_message_def)
  then obtain rows' where r: "ScheduleRetry sample_env retry_job None [] = (None, rows')"
    by (cases "ScheduleRetry sample_env retry_job None []") auto
  from schedule_retry_once_in_window [OF p r, of None] r show ?thesis by blast
qed

theorem retry_budget_witness:
  "re_db sample_env \<and> \<not> (\<exists>e. ScheduleRetry sample_env retry_job None [] = (Some e, []) \<and> is_exhausted e)"
proof -
  have db: "re_db sample_env" by (simp add: sample_env_def)
  have "\<not> int (length (rp_Delays (re_policy sample_env))) \<le> max 0 (qm_RetryAttempt (jb_queued retry_job))"
    by (simp add: sample_env_def retry_job_def sample_message_def DefaultRetryPolicy_def)
  with retry_budget [OF db] db show ?thesis by blast
qed

theorem retry_key_ignores_order_witness:
  "retryDedupeKey identity_parser retry_job =
   retryDedupeKey identity_parser (retry_job\<lparr>jb_queued := sample_message
     \<lparr>qm_To := [\<lparr>Name = [], Email = ''c@d.org''\<rparr>, \<lparr>Name = [], Email = ''a@B.org ''\<rparr>]\<rparr>\<rparr>)"
  by (rule retry_key_ignores_order) code_simp+

end
