(* ===== verification/DeliveryRecorder.thy ===== *)
theory DeliveryRecorder
  imports DeliveryRetry
begin

text \<open>
  Recording delivery attempts in the database (\<open>internal/delivery/postgres.go\<close>): the rows of
  \<open>delivery_attempts\<close>, the automatic suppression of addresses that bounced, the events written to
  the outbox, and the record of an exhausted message. The state is the four tables. Every method
  runs one transaction: the parameter \<open>fail\<close> tells at which of its database calls the
  database refuses, and then the tables are as they were. A JSON object is kept as the
  association list that \<open>json.Marshal\<close> is given (which cannot fail on strings and lists of strings).
\<close>

section \<open>Tables\<close>

record attempt_row =
  ar_message_id :: string
  ar_rfc_message_id :: string
  ar_farm :: string
  ar_recipient :: string
  ar_recipient_domain :: string
  ar_status :: attempt_status
  ar_error_message :: string
  ar_sender :: string
  ar_enhanced_status :: string
  ar_dsn_return :: string
  ar_dsn_envelope_id :: string
  ar_dsn_notify :: "string list"
  ar_original_recipient :: string
  ar_attempted_at :: int

record suppression_row =
  sp_domain_id :: "string option"
  sp_email :: string
  sp_reason :: string
  sp_source_message_id :: "string option"

datatype jval = JText string | JTime int | JTexts "string list" | JMap "(string \<times> jval) list"
  | JMaps "(string \<times> jval) list list"

type_synonym jobject = "(string \<times> jval) list"

record delivery_db =
  db_attempts :: "attempt_row list"
  db_suppression :: "suppression_row list"
  db_events :: "(string \<times> jobject) list" \<comment> \<open>topic mail.event: partition key and payload\<close>
  db_outbox :: "outbox_row list"

datatype db_call = DbBegin | DbInsertAttempts | DbInsertSuppression | DbInsertEvents | DbCommit

section \<open>Attempt rows\<close>

record attemptDiagnostics =
  dg_Sender :: string
  dg_EnhancedStatus :: string
  dg_DSNReturn :: string
  dg_DSNEnvelopeID :: string
  dg_DSNNotify :: "string list"
  dg_OriginalRecipient :: string

definition deliveryAttemptDiagnostics :: "attempt \<Rightarrow> attemptDiagnostics" where
  "deliveryAttemptDiagnostics a =
     \<lparr>dg_Sender = truncateUTF8Bytes (go_TrimSpace (at_Sender a)) 320,
      dg_EnhancedStatus = truncateUTF8Bytes (go_TrimSpace (at_EnhancedStatus a)) 64,
      dg_DSNReturn = truncateUTF8Bytes (go_TrimSpace (at_DSNReturn a)) 16,
      dg_DSNEnvelopeID = truncateUTF8Bytes (go_TrimSpace (at_DSNEnvelopeID a)) 100,
      dg_DSNNotify = at_DSNNotify a,
      dg_OriginalRecipient = truncateUTF8Bytes (go_TrimSpace (at_OriginalRecipient a)) 500\<rparr>"

definition attempt_to_row :: "attempt \<Rightarrow> attempt_row" where
  "attempt_to_row a =
     (let d = deliveryAttemptDiagnostics a in
      \<lparr>ar_message_id = at_MessageID a, ar_rfc_message_id = at_RFCMessageID a, ar_farm = at_Farm a,
       ar_recipient = at_Recipient a, ar_recipient_domain = at_RecipientDomain a,
       ar_status = at_Status a, ar_error_message = at_ErrorMessage a, ar_sender = dg_Sender d,
       ar_enhanced_status = dg_EnhancedStatus d, ar_dsn_return = dg_DSNReturn d,
       ar_dsn_envelope_id = dg_DSNEnvelopeID d, ar_dsn_notify = dg_DSNNotify d,
       ar_original_recipient = dg_OriginalRecipient d, ar_attempted_at = at_AttemptedAt a\<rparr>)"

definition insertDeliveryAttempts ::
    "(db_call \<Rightarrow> string option) \<Rightarrow> attempt list \<Rightarrow> delivery_db \<Rightarrow> delivery_db res" where
  "insertDeliveryAttempts fail attempts db =
     (case fail DbInsertAttempts of
        Some e \<Rightarrow> Inl (''insert delivery attempts: '' @ e)
      | None \<Rightarrow> Inr (db\<lparr>db_attempts := db_attempts db @ map attempt_to_row attempts\<rparr>))"

section \<open>Suppression of bounced recipients\<close>

definition shouldSuppressBouncedRecipient :: "attempt \<Rightarrow> bool" where
  "shouldSuppressBouncedRecipient a \<longleftrightarrow> at_Status a = AttemptBounced \<and> at_Sender a \<noteq> []"

definition uuidNullString :: "string \<Rightarrow> string option" where
  "uuidNullString v0 = (let v = go_TrimSpace v0 in if v = [] then None else Some v)"

fun suppression_loop :: "string set \<Rightarrow> attempt list \<Rightarrow> suppression_row list" where
  "suppression_loop seen [] = []"
| "suppression_loop seen (a # as) =
     (if \<not> shouldSuppressBouncedRecipient a then suppression_loop seen as
      else let email = go_TrimSpace (at_Recipient a);
               key = go_TrimSpace (at_DomainID a) @ [CHR 0x00] @ go_ToLower email
           in if key \<in> seen then suppression_loop seen as
              else \<lparr>sp_domain_id = uuidNullString (at_DomainID a), sp_email = email,
                    sp_reason = ''hard_bounce'', sp_source_message_id = uuidNullString (at_MessageID a)\<rparr>
                   # suppression_loop (insert key seen) as)"

definition bouncedSuppressionRows :: "attempt list \<Rightarrow> suppression_row list" where
  "bouncedSuppressionRows attempts = suppression_loop {} attempts"

text \<open>The unique index on the domain and the lower-cased address.\<close>

definition suppression_key :: "suppression_row \<Rightarrow> string option \<times> string" where
  "suppression_key r = (sp_domain_id r, go_ToLower (sp_email r))"

definition insert_suppression :: "suppression_row \<Rightarrow> suppression_row list \<Rightarrow> suppression_row list" where
  "insert_suppression r rows =
     (if suppression_key r \<in> suppression_key ` set rows then rows else rows @ [r])"

definition suppressBouncedRecipients ::
    "(db_call \<Rightarrow> string option) \<Rightarrow> attempt list \<Rightarrow> delivery_db \<Rightarrow> delivery_db res" where
  "suppressBouncedRecipients fail attempts db =
     (let rows = bouncedSuppressionRows attempts in
      if rows = [] then Inr db
      else (case fail DbInsertSuppression of
              Some e \<Rightarrow> Inl (''insert suppression list entries: '' @ e)
            | None \<Rightarrow> Inr (db\<lparr>db_suppression := fold insert_suppression rows (db_suppression db)\<rparr>)))"

section \<open>Events\<close>

definition trimStringList :: "string list \<Rightarrow> string list" where
  "trimStringList vs = filter (\<lambda>v. v \<noteq> []) (map go_TrimSpace vs)"

definition attempt_status_text :: "attempt_status \<Rightarrow> string" where
  "attempt_status_text s =
     (case s of AttemptDelivered \<Rightarrow> ''delivered'' | AttemptFailed \<Rightarrow> ''failed''
      | AttemptBounced \<Rightarrow> ''bounced'' | AttemptExhausted \<Rightarrow> ''exhausted'')"

definition deliveryAttemptEventPayload :: "attempt \<Rightarrow> jobject" where
  "deliveryAttemptEventPayload a =
     [(''event'', JText (case at_Status a of AttemptDelivered \<Rightarrow> ''mail.delivered''
        | AttemptBounced \<Rightarrow> ''mail.bounced'' | _ \<Rightarrow> ''mail.delivery_failed'')),
      (''message_id'', JText (go_TrimSpace (at_MessageID a))),
      (''rfc_message_id'', JText (go_TrimSpace (at_RFCMessageID a))),
      (''company_id'', JText (go_TrimSpace (at_CompanyID a))),
      (''domain_id'', JText (go_TrimSpace (at_DomainID a))),
      (''farm'', JText (go_TrimSpace (at_Farm a))),
      (''sender'', JText (go_TrimSpace (at_Sender a))),
      (''recipient'', JText (go_TrimSpace (at_Recipient a))),
      (''recipient_domain'', JText (go_TrimSpace (at_RecipientDomain a))),
      (''status'', JText (attempt_status_text (at_Status a))),
      (''enhanced_status'', JText (go_TrimSpace (at_EnhancedStatus a))),
      (''error_message'', JText (go_TrimSpace (at_ErrorMessage a))),
      (''attempted_at'', JTime (at_AttemptedAt a))]
     @ (if go_TrimSpace (at_StoragePath a) \<noteq> []
        then [(''storage_path'', JText (go_TrimSpace (at_StoragePath a)))] else [])
     @ (if at_DSNReturn a \<noteq> [] \<or> at_DSNEnvelopeID a \<noteq> [] \<or> at_DSNNotify a \<noteq> [] \<or> at_OriginalRecipient a \<noteq> []
        then [(''dsn'', JMap
               [(''return'', JText (go_TrimSpace (at_DSNReturn a))),
                (''envelope_id'', JText (go_TrimSpace (at_DSNEnvelopeID a))),
                (''notify'', JTexts (trimStringList (at_DSNNotify a))),
                (''original_recipient'', JText (go_TrimSpace (at_OriginalRecipient a)))])]
        else [])"

definition insertDeliveryAttemptEvents ::
    "(db_call \<Rightarrow> string option) \<Rightarrow> attempt list \<Rightarrow> delivery_db \<Rightarrow> delivery_db res" where
  "insertDeliveryAttemptEvents fail attempts db =
     (case fail DbInsertEvents of
        Some e \<Rightarrow> Inl (''insert delivery attempt events: '' @ e)
      | None \<Rightarrow> Inr (db\<lparr>db_events := db_events db @
                  map (\<lambda>a. (at_MessageID a, deliveryAttemptEventPayload a)) attempts\<rparr>))"

section \<open>The recorder\<close>

definition pg_commit ::
    "(db_call \<Rightarrow> string option) \<Rightarrow> string \<Rightarrow> delivery_db \<Rightarrow> delivery_db res \<Rightarrow> derr option \<times> delivery_db" where
  "pg_commit fail text old r =
     (case r of
        Inl e \<Rightarrow> (Some (ErrText e), old)
      | Inr new \<Rightarrow> (case fail DbCommit of
                     Some e \<Rightarrow> (Some (ErrText (text @ e)), old)
                   | None \<Rightarrow> (None, new)))"

definition RecordAttempts ::
    "bool \<Rightarrow> (db_call \<Rightarrow> string option) \<Rightarrow> attempt list \<Rightarrow> delivery_db \<Rightarrow> derr option \<times> delivery_db" where
  "RecordAttempts handle fail attempts db =
     (if \<not> handle then (Some (ErrText ''database handle is required''), db)
      else if attempts = [] then (None, db)
      else case fail DbBegin of
        Some e \<Rightarrow> (Some (ErrText (''begin delivery attempts transaction: '' @ e)), db)
      | None \<Rightarrow>
          pg_commit fail ''commit delivery attempts transaction: '' db
            (case insertDeliveryAttempts fail attempts db of
               Inl e \<Rightarrow> Inl e
             | Inr db1 \<Rightarrow> (case suppressBouncedRecipients fail attempts db1 of
                 Inl e \<Rightarrow> Inl e
               | Inr db2 \<Rightarrow> insertDeliveryAttemptEvents fail attempts db2)))"

definition RecordAttempt ::
    "bool \<Rightarrow> (db_call \<Rightarrow> string option) \<Rightarrow> attempt \<Rightarrow> delivery_db \<Rightarrow> derr option \<times> delivery_db" where
  "RecordAttempt handle fail a db = RecordAttempts handle fail [a] db"

definition errorFromMessage :: "string \<Rightarrow> derr option" where
  "errorFromMessage m0 = (let m = go_TrimSpace m0 in if m = [] then None else Some (ErrText m))"

definition exhausted_detail :: "derr option \<Rightarrow> (string \<Rightarrow> dsn_recipient option) \<Rightarrow> string \<Rightarrow> jobject" where
  "exhausted_detail cause dsnByAddress email =
     (let domain = (case go_Cut ''@'' email of None \<Rightarrow> [] | Some (_, d) \<Rightarrow> d);
          domain = go_ToLower (go_TrimSuffix domain ''.'');
          d = (case dsnByAddress (go_ToLower email) of None \<Rightarrow> no_dsn | Some d \<Rightarrow> d)
      in [(''recipient'', JText email), (''recipient_domain'', JText domain),
          (''enhanced_status'', JText (enhancedStatusForAttempt AttemptExhausted cause)),
          (''dsn_notify'', JTexts (dr_Notify d)),
          (''original_recipient'', JText (go_TrimSpace (dr_OriginalRecipient d)))])"

definition exhaustedEventPayload :: "addr_parser \<Rightarrow> int \<Rightarrow> queued_message \<Rightarrow> string \<Rightarrow> jobject" where
  "exhaustedEventPayload parse now q causeMsg =
     (let emails = trimStringList (map Email (qm_Recipients parse q));
          cause = errorFromMessage causeMsg;
          dsnByAddress = dsnRecipientOptionsByAddress (dsn_Recipients (qm_DSN q))
      in [(''event'', JText ''mail.delivery_exhausted''),
          (''message_id'', JText (go_TrimSpace (qm_MessageID q))),
          (''rfc_message_id'', JText (go_TrimSpace (qm_RFCMessageID q))),
          (''company_id'', JText (go_TrimSpace (qm_CompanyID q))),
          (''domain_id'', JText (go_TrimSpace (qm_DomainID q))),
          (''farm'', JText (go_TrimSpace (qm_Farm q))),
          (''sender'', JText (go_TrimSpace (Email (qm_From q)))),
          (''recipients'', JTexts emails),
          (''recipient_details'', JMaps (map (exhausted_detail cause dsnByAddress) emails)),
          (''error_message'', JText (go_TrimSpace causeMsg)),
          (''storage_path'', JText (go_TrimSpace (qm_StoragePath q))),
          (''dsn_return'', JText (go_TrimSpace (dsn_Return (qm_DSN q)))),
          (''dsn_envelope_id'', JText (go_TrimSpace (dsn_EnvelopeID (qm_DSN q)))),
          (''exhausted_at'', JTime now)])"

text \<open>\<open>attemptsFor\<close> of \<open>record.go\<close>.\<close>

definition attemptsFor ::
    "addr_parser \<Rightarrow> int \<Rightarrow> job \<Rightarrow> attempt_status \<Rightarrow> derr option \<Rightarrow> int \<Rightarrow> attempt list" where
  "attemptsFor parse now j status cause attemptedAt =
     attemptsForRecipients now (jb_queued j) (job_Recipients parse j) status cause attemptedAt
       (dsnRecipientOptionsByAddress (dsn_Recipients (qm_DSN (jb_queued j))))"

definition RecordExhausted ::
    "bool \<Rightarrow> (db_call \<Rightarrow> string option) \<Rightarrow> addr_parser \<Rightarrow> int \<Rightarrow> queued_message \<Rightarrow> derr option \<Rightarrow>
     delivery_db \<Rightarrow> derr option \<times> delivery_db" where
  "RecordExhausted handle fail parse now q cause db =
     (if \<not> handle then (Some (ErrText ''database handle is required''), db)
      else case fail DbBegin of
        Some e \<Rightarrow> (Some (ErrText (''begin exhaustion transaction: '' @ e)), db)
      | None \<Rightarrow>
          let causeMsg = (case cause of None \<Rightarrow> [] | Some e \<Rightarrow> truncateUTF8Bytes (err_Error e) 2000);
              j = \<lparr>jb_queued = q, jb_recipientCache = None, jb_rawPayload = []\<rparr>
          in pg_commit fail ''commit exhaustion transaction: '' db
            (case insertDeliveryAttempts fail (attemptsFor parse now j AttemptExhausted cause now) db of
               Inl e \<Rightarrow> Inl e
             | Inr db1 \<Rightarrow>
                 (case fail DbInsertEvents of
                    Some e \<Rightarrow> Inl (''insert delivery_exhausted event: '' @ e)
                  | None \<Rightarrow> Inr (db1\<lparr>db_events := db_events db1 @
                              [(qm_MessageID q, exhaustedEventPayload parse now q causeMsg)]\<rparr>))))"

section \<open>Suppression entries\<close>

definition bounced_key :: "attempt \<Rightarrow> string option \<times> string" where
  "bounced_key a = (uuidNullString (at_DomainID a), go_ToLower (go_TrimSpace (at_Recipient a)))"

definition seen_key :: "attempt \<Rightarrow> string" where
  "seen_key a = go_TrimSpace (at_DomainID a) @ [CHR 0x00] @ go_ToLower (go_TrimSpace (at_Recipient a))"

lemma separated_inject:
  assumes "c \<notin> set x" and "c \<notin> set y" and "x @ [c] @ u = y @ [c] @ v"
  shows "x = y \<and> u = v"
proof -
  have "takeWhile (\<lambda>d. d \<noteq> c) (x @ [c] @ u) = x" "takeWhile (\<lambda>d. d \<noteq> c) (y @ [c] @ v) = y"
    using assms(1,2) by (auto simp: takeWhile_append)
  with assms(3) have "x = y" by metis
  with assms(3) show ?thesis by simp
qed

lemma seen_key_inject:
  assumes "CHR 0x00 \<notin> set (at_DomainID a)" and "CHR 0x00 \<notin> set (at_DomainID b)" and "seen_key a = seen_key b"
  shows "bounced_key a = bounced_key b"
proof -
  have "CHR 0x00 \<notin> set (go_TrimSpace (at_DomainID a))" "CHR 0x00 \<notin> set (go_TrimSpace (at_DomainID b))"
    using assms set_go_TrimSpace by blast+
  from separated_inject [OF this assms(3) [unfolded seen_key_def]] show ?thesis
    by (simp add: bounced_key_def uuidNullString_def)
qed

lemma suppression_loop_keys:
  assumes "\<forall>a\<in>S \<union> set as. CHR 0x00 \<notin> set (at_DomainID a)"
  shows "suppression_key ` set (suppression_loop (seen_key ` S) as) \<union> bounced_key ` S =
         bounced_key ` (S \<union> {a \<in> set as. shouldSuppressBouncedRecipient a})"
  using assms
proof (induction as arbitrary: S)
  case (Cons a as)
  show ?case
  proof (cases "shouldSuppressBouncedRecipient a")
    case sup: True
    show ?thesis
    proof (cases "seen_key a \<in> seen_key ` S")
      case True
      then obtain b where b: "b \<in> S" "seen_key a = seen_key b" by auto
      then have "bounced_key a \<in> bounced_key ` S" using seen_key_inject Cons.prems by auto
      moreover have "suppression_loop (seen_key ` S) (a # as) = suppression_loop (seen_key ` S) as"
        using sup True by (simp add: seen_key_def Let_def)
      ultimately show ?thesis using Cons.IH [of S] Cons.prems sup by auto
    next
      case False
      have "suppression_key ` set (suppression_loop (seen_key ` S) (a # as)) =
          insert (bounced_key a) (suppression_key ` set (suppression_loop (seen_key ` insert a S) as))"
        using sup False by (simp add: seen_key_def Let_def suppression_key_def bounced_key_def)
      moreover have "suppression_key ` set (suppression_loop (seen_key ` insert a S) as) \<union> bounced_key ` insert a S =
          bounced_key ` (insert a S \<union> {a \<in> set as. shouldSuppressBouncedRecipient a})"
        using Cons.prems by (intro Cons.IH) auto
      ultimately show ?thesis using sup by auto
    qed
  next
    case False
    then have "{x \<in> set (a # as). shouldSuppressBouncedRecipient x} = {x \<in> set as. shouldSuppressBouncedRecipient x}"
      by auto
    with False show ?thesis using Cons.IH [of S] Cons.prems by simp
  qed
qed simp

lemma fold_insert_suppression:
  "suppression_key ` set (fold insert_suppression rs rows) = suppression_key ` set rows \<union> suppression_key ` set rs"
  "distinct (map suppression_key rows) \<Longrightarrow> distinct (map suppression_key (fold insert_suppression rs rows))"
  "prefix rows (fold insert_suppression rs rows)"
proof (induction rs arbitrary: rows)
  case (Cons r rs)
  { case 1 show ?case using Cons.IH(1) [of "insert_suppression r rows"] by (auto simp: insert_suppression_def) }
  { case 2 then show ?case using Cons.IH(2) [of "insert_suppression r rows"] by (auto simp: insert_suppression_def) }
  { case 3
    have "prefix rows (insert_suppression r rows)" by (simp add: insert_suppression_def)
    then show ?case using Cons.IH(3) [of "insert_suppression r rows"] by (metis fold_simps(2) prefix_order.trans) }
qed simp_all

lemma RecordAttempts_cases:
  assumes "RecordAttempts handle fail attempts db = (r, db')"
  shows "(r \<noteq> None \<and> db' = db) \<or>
    (r = None \<and> db' = db\<lparr>db_attempts := db_attempts db @ map attempt_to_row attempts,
       db_suppression := fold insert_suppression (bouncedSuppressionRows attempts) (db_suppression db),
       db_events := db_events db @ map (\<lambda>a. (at_MessageID a, deliveryAttemptEventPayload a)) attempts\<rparr>)"
  using assms
  by (auto simp: RecordAttempts_def pg_commit_def insertDeliveryAttempts_def suppressBouncedRecipients_def
      insertDeliveryAttemptEvents_def bouncedSuppressionRows_def Let_def
      split: if_splits option.splits sum.splits)

text \<open>
  C33. Recording a batch of attempts is one transaction with three effects. If it fails, no table has
  changed. If it succeeds, the attempts are appended to \<open>delivery_attempts\<close> in order, one event per
  attempt is appended to the outbox, the retries in the outbox are untouched, and exactly the
  recipients that bounced for a non-empty sender are suppressed in their domain, besides those
  that were: no address is listed twice and no entry is lost. (The loop removes duplicates with a
  key that joins domain and address by a NUL byte: domain identifiers must not contain one.)
\<close>

theorem record_attempts_transaction:
  assumes "\<forall>a\<in>set attempts. CHR 0x00 \<notin> set (at_DomainID a)"
    and "distinct (map suppression_key (db_suppression db))"
    and "RecordAttempts handle fail attempts db = (r, db')"
  shows "if r \<noteq> None then db' = db
    else db_attempts db' = db_attempts db @ map attempt_to_row attempts \<and>
      db_events db' = db_events db @ map (\<lambda>a. (at_MessageID a, deliveryAttemptEventPayload a)) attempts \<and>
      db_outbox db' = db_outbox db \<and>
      prefix (db_suppression db) (db_suppression db') \<and>
      distinct (map suppression_key (db_suppression db')) \<and>
      suppression_key ` set (db_suppression db') = suppression_key ` set (db_suppression db) \<union>
        bounced_key ` {a \<in> set attempts. at_Status a = AttemptBounced \<and> at_Sender a \<noteq> []}"
proof (cases "r = None")
  case True
  have "suppression_key ` set (bouncedSuppressionRows attempts) =
      bounced_key ` {a \<in> set attempts. shouldSuppressBouncedRecipient a}"
    using suppression_loop_keys [of "{}" attempts] assms(1) by (simp add: bouncedSuppressionRows_def)
  then show ?thesis
    using RecordAttempts_cases [OF assms(3)] True assms(2)
    by (simp add: fold_insert_suppression shouldSuppressBouncedRecipient_def)
next
  case False
  then show ?thesis using RecordAttempts_cases [OF assms(3)] by auto
qed

definition sample_attempt :: attempt where
  "sample_attempt = \<lparr>at_MessageID = ''m'', at_RFCMessageID = [], at_CompanyID = [], at_DomainID = ''d'',
     at_Farm = ''general'', at_Sender = ''s@x.org'', at_Recipient = '' A@b.org'', at_RecipientDomain = ''b.org'',
     at_Status = AttemptBounced, at_EnhancedStatus = ''5.1.1'', at_ErrorMessage = [], at_AttemptedAt = 1,
     at_DSNReturn = [], at_DSNEnvelopeID = [], at_DSNNotify = [], at_OriginalRecipient = [], at_StoragePath = []\<rparr>"

definition empty_db :: delivery_db where
  "empty_db = \<lparr>db_attempts = [], db_suppression = [], db_events = [], db_outbox = []\<rparr>"

theorem record_attempts_transaction_witness:
  "\<exists>db'. RecordAttempts True (\<lambda>_. None) [sample_attempt, sample_attempt] empty_db = (None, db') \<and>
     suppression_key ` set (db_suppression db') = {(Some ''d'', ''a@b.org'')}"
proof -
  have "fst (RecordAttempts True (\<lambda>_. None) [sample_attempt, sample_attempt] empty_db) = None" by code_simp
  then obtain db' where r: "RecordAttempts True (\<lambda>_. None) [sample_attempt, sample_attempt] empty_db = (None, db')"
    by (cases "RecordAttempts True (\<lambda>_. None) [sample_attempt, sample_attempt] empty_db") auto
  have ok: "\<forall>a\<in>set [sample_attempt, sample_attempt]. CHR 0x00 \<notin> set (at_DomainID a)"
    by (simp add: sample_attempt_def)
  have "bounced_key sample_attempt = (Some ''d'', ''a@b.org'')" by code_simp
  moreover have "at_Status sample_attempt = AttemptBounced \<and> at_Sender sample_attempt \<noteq> []"
    by (simp add: sample_attempt_def)
  ultimately show ?thesis
    using record_attempts_transaction [OF ok _ r] r by (auto simp: empty_db_def)
qed

lemma RecordExhausted_cases:
  assumes "RecordExhausted handle fail parse now q cause db = (r, db')"
  shows "(r \<noteq> None \<and> db' = db) \<or>
    (r = None \<and> db_attempts db' = db_attempts db @ map attempt_to_row (attemptsFor parse now
         \<lparr>jb_queued = q, jb_recipientCache = None, jb_rawPayload = []\<rparr> AttemptExhausted cause now) \<and>
       db_outbox db' = db_outbox db \<and> db_suppression db' = db_suppression db)"
  using assms
  by (auto simp: RecordExhausted_def pg_commit_def insertDeliveryAttempts_def Let_def
      split: if_splits option.splits sum.splits)

end
