(* ===== verification/DeliveryHandler.thy ===== *)
theory DeliveryHandler
  imports DeliveryLimits DeliveryRecorder
begin

text \<open>
  The delivery worker (\<open>internal/delivery/handler.go\<close>): \<open>HandleEvent\<close> with local delivery, the
  three gates (domain back-off, rate limit, concurrency throttle), the transport, the recording of
  attempts, retries and exhaustion. The interfaces a \<open>Handler\<close> is built from are its fields: an
  operation of an interface is a function on the world \<open>'w\<close> behind the interfaces, and a
  nil field is \<open>None\<close>. Next to the world the state has the route counters, which the handler
  updates itself, and \<open>hs_log\<close>, a history of the calls that the properties speak about; no
  definition reads it. The log lines written by \<open>slog\<close> are left out.
\<close>

section \<open>Interfaces and state\<close>

datatype metric_result = MetricOK | MetricFailed | MetricBounced | MetricDeferred

record metric_event =
  me_Stage :: metric_stage
  me_Result :: metric_result
  me_MessageID :: string
  me_RFCMessageID :: string
  me_DomainID :: string
  me_Farm :: string
  me_RoutePool :: string
  me_RecipientCount :: int
  me_Error :: string

record local_mailbox =
  lm_CompanyID :: string
  lm_DomainID :: string
  lm_UserID :: string
  lm_Address :: string

record local_lookup =
  ll_Mailbox :: local_mailbox
  ll_DomainLocal :: bool
  ll_RecipientExists :: bool

record 'w backoff_iface =
  bi_Check :: "job \<Rightarrow> 'w \<Rightarrow> derr option \<times> 'w"
  bi_Observe :: "job \<Rightarrow> address list \<Rightarrow> derr \<Rightarrow> 'w \<Rightarrow> 'w"

text \<open>\<open>th_Acquire\<close> returns an error or grants the leases, which \<open>th_release\<close> gives back.\<close>

record 'w throttle_iface =
  th_Acquire :: "job \<Rightarrow> 'w \<Rightarrow> derr option \<times> 'w"
  th_release :: "job \<Rightarrow> 'w \<Rightarrow> 'w"

record 'w handler =
  h_store :: bool
  h_transport :: "(job \<Rightarrow> 'w \<Rightarrow> derr option \<times> 'w) option"
  h_RecordAttempt :: "attempt \<Rightarrow> 'w \<Rightarrow> derr option \<times> 'w"
  h_RecordAttempts :: "(attempt list \<Rightarrow> 'w \<Rightarrow> derr option \<times> 'w) option" \<comment> \<open>a BulkRecorder\<close>
  h_retry :: "(job \<Rightarrow> derr \<Rightarrow> 'w \<Rightarrow> derr option \<times> 'w) option"
  h_metrics :: "metric_event \<Rightarrow> 'w \<Rightarrow> 'w"
  h_throttler :: "'w throttle_iface option"
  h_rateLimiter :: "(job \<Rightarrow> 'w \<Rightarrow> derr option \<times> 'w) option"
  h_backoff :: "'w backoff_iface option"
  h_exhaustionHook :: "(queued_message \<Rightarrow> derr \<Rightarrow> 'w \<Rightarrow> derr option \<times> 'w) option"
  h_localResolver :: "(string \<Rightarrow> 'w \<Rightarrow> (derr + local_lookup) \<times> 'w) option"
  h_localDeliverer :: "(job \<Rightarrow> address \<Rightarrow> local_mailbox \<Rightarrow> 'w \<Rightarrow> derr option \<times> 'w) option"
  h_timeNow :: "'w \<Rightarrow> int"

datatype call_event =
    FxAcquired job
  | FxReleased job
  | FxTransport job "derr option"
  | FxRetry job derr "derr option"
  | FxExhausted queued_message derr "derr option"

record 'w hstate =
  hs_world :: 'w
  hs_counters :: "(string \<rightharpoonup> pool_counter) option"
  hs_log :: "call_event list"

definition world_call :: "('w \<Rightarrow> 'a \<times> 'w) \<Rightarrow> 'w hstate \<Rightarrow> 'a \<times> 'w hstate" where
  "world_call f st = (fst (f (hs_world st)), st\<lparr>hs_world := snd (f (hs_world st))\<rparr>)"

definition note_call :: "call_event \<Rightarrow> 'w hstate \<Rightarrow> 'w hstate" where
  "note_call ev st = st\<lparr>hs_log := hs_log st @ [ev]\<rparr>"

section \<open>Metrics\<close>

definition metricEvent ::
    "addr_parser \<Rightarrow> queued_message \<Rightarrow> metric_stage \<Rightarrow> metric_result \<Rightarrow> derr option \<Rightarrow> metric_event" where
  "metricEvent parse q stage result err =
     \<lparr>me_Stage = stage, me_Result = result, me_MessageID = qm_MessageID q,
      me_RFCMessageID = qm_RFCMessageID q, me_DomainID = qm_DomainID q, me_Farm = qm_Farm q,
      me_RoutePool = qm_Farm q, me_RecipientCount = int (length (qm_Recipients parse q)),
      me_Error = (case err of None \<Rightarrow> [] | Some e \<Rightarrow> err_Error e)\<rparr>"

definition decode_failed_event :: "string \<Rightarrow> metric_event" where
  "decode_failed_event e =
     \<lparr>me_Stage = QueuedDecoded, me_Result = MetricFailed, me_MessageID = [], me_RFCMessageID = [],
      me_DomainID = [], me_Farm = [], me_RoutePool = [], me_RecipientCount = 0, me_Error = e\<rparr>"

definition observe :: "'w handler \<Rightarrow> metric_event \<Rightarrow> 'w hstate \<Rightarrow> 'w hstate" where
  "observe h ev st =
     st\<lparr>hs_world := h_metrics h ev (hs_world st),
        hs_counters := map_option (counter_observe (me_RoutePool ev) (me_Stage ev)) (hs_counters st)\<rparr>"

section \<open>Recording\<close>

fun record_each :: "'w handler \<Rightarrow> attempt list \<Rightarrow> 'w hstate \<Rightarrow> derr option \<times> 'w hstate" where
  "record_each h [] st = (None, st)"
| "record_each h (a # as) st =
     (case world_call (h_RecordAttempt h a) st of
        (Some e, st1) \<Rightarrow> (Some e, st1)
      | (None, st1) \<Rightarrow> record_each h as st1)"

definition recordAttemptBatch :: "'w handler \<Rightarrow> attempt list \<Rightarrow> 'w hstate \<Rightarrow> derr option \<times> 'w hstate" where
  "recordAttemptBatch h attempts st =
     (if attempts = [] then (None, st)
      else case h_RecordAttempts h of
             Some bulk \<Rightarrow> world_call (bulk attempts) st
           | None \<Rightarrow> record_each h attempts st)"

text \<open>\<open>fmt.Errorf(text + ": %w", err)\<close>\<close>

definition wrap_err :: "string \<Rightarrow> derr option \<Rightarrow> derr option" where
  "wrap_err text err = map_option (\<lambda>e. ErrWrap (text @ '': '' @ err_Error e) e) err"

definition now_of :: "'w handler \<Rightarrow> 'w hstate \<Rightarrow> int" where
  "now_of h st = h_timeNow h (hs_world st)"

definition recordAttempts ::
    "'w handler \<Rightarrow> addr_parser \<Rightarrow> job \<Rightarrow> attempt_status \<Rightarrow> derr option \<Rightarrow> 'w hstate \<Rightarrow> derr option \<times> 'w hstate" where
  "recordAttempts h parse j status cause st =
     map_prod (wrap_err ''record delivery attempt'') id
       (recordAttemptBatch h (attemptsFor parse (now_of h st) j status cause (now_of h st)) st)"

text \<open>The attempts for recipients that failed one by one; \<open>status\<close> classifies the error.\<close>

definition failed_attempts ::
    "(derr option \<Rightarrow> attempt_status) \<Rightarrow> job \<Rightarrow> (address \<times> derr option) list \<Rightarrow> int \<Rightarrow> attempt list" where
  "failed_attempts status j fs attemptedAt =
     map (\<lambda>(r, err). attemptForRecipient (jb_queued j) r (status err) err
            (case err of None \<Rightarrow> [] | Some e \<Rightarrow> truncateUTF8Bytes (err_Error e) 2000) attemptedAt
            (dsnRecipientOptionsByAddress (dsn_Recipients (qm_DSN (jb_queued j))))) fs"

definition partial_status :: "derr option \<Rightarrow> attempt_status" where
  "partial_status err = (if IsPermanentFailure err then AttemptBounced else AttemptFailed)"

text \<open>The two batches that \<open>recordPartialAttempts\<close> and \<open>deliverLocalRecipients\<close> record.\<close>

definition record_split ::
    "'w handler \<Rightarrow> string \<Rightarrow> string \<Rightarrow> (derr option \<Rightarrow> attempt_status) \<Rightarrow> job \<Rightarrow> address list \<Rightarrow>
     (address \<times> derr option) list \<Rightarrow> 'w hstate \<Rightarrow> derr option \<times> 'w hstate" where
  "record_split h text1 text2 status j delivered failed st =
     (let attemptedAt = now_of h st;
          dsnByAddress = dsnRecipientOptionsByAddress (dsn_Recipients (qm_DSN (jb_queued j)))
      in case recordAttemptBatch h (attemptsForRecipients attemptedAt (jb_queued j) delivered
                AttemptDelivered None attemptedAt dsnByAddress) st of
           (Some e, st1) \<Rightarrow> (wrap_err text1 (Some e), st1)
         | (None, st1) \<Rightarrow>
             map_prod (wrap_err text2) id
               (recordAttemptBatch h (failed_attempts status j failed attemptedAt) st1))"

definition recordPartialAttempts ::
    "'w handler \<Rightarrow> job \<Rightarrow> address list \<Rightarrow> (address \<times> derr option) list \<Rightarrow> 'w hstate \<Rightarrow>
     derr option \<times> 'w hstate" where
  "recordPartialAttempts h j delivered failed st =
     record_split h ''record partial delivered attempt'' ''record partial failed attempt''
       partial_status j delivered failed st"

definition notifyExhausted ::
    "'w handler \<Rightarrow> queued_message \<Rightarrow> derr \<Rightarrow> 'w hstate \<Rightarrow> derr option \<times> 'w hstate" where
  "notifyExhausted h q cause st =
     (case h_exhaustionHook h of
        None \<Rightarrow> (None, st)
      | Some hook \<Rightarrow>
          (case world_call (hook q cause) st of
             (r, st1) \<Rightarrow> (r, note_call (FxExhausted q cause r) st1)))"

section \<open>Local delivery\<close>

definition local_not_found :: derr where
  "local_not_found = ErrSMTP ''local'' 550 ''5.1.1 local recipient not found'' None"

fun local_loop ::
    "'w handler \<Rightarrow> (string \<Rightarrow> 'w \<Rightarrow> (derr + local_lookup) \<times> 'w) \<Rightarrow>
     (job \<Rightarrow> address \<Rightarrow> local_mailbox \<Rightarrow> 'w \<Rightarrow> derr option \<times> 'w) \<Rightarrow> job \<Rightarrow> address list \<Rightarrow>
     address list \<times> address list \<times> (address \<times> derr option) list \<Rightarrow> 'w hstate \<Rightarrow>
     (derr + (address list \<times> address list \<times> (address \<times> derr option) list)) \<times> 'w hstate" where
  "local_loop h resolve deliver j [] acc st = (Inr acc, st)"
| "local_loop h resolve deliver j (r # rs) (remote, delivered, bounced) st =
     (case world_call (resolve (Email r)) st of
        (Inl e, st1) \<Rightarrow>
          (Inl (ErrWrap (''resolve local recipient '' @ Email r @ '': '' @ err_Error e) e), st1)
      | (Inr lookup, st1) \<Rightarrow>
          if \<not> ll_DomainLocal lookup then
            local_loop h resolve deliver j rs (remote @ [r], delivered, bounced) st1
          else if \<not> ll_RecipientExists lookup then
            local_loop h resolve deliver j rs
              (remote, delivered, bounced @ [(r, Some local_not_found)]) st1
          else (case world_call (deliver j r (ll_Mailbox lookup)) st1 of
                  (Some e, st2) \<Rightarrow>
                    (Inl (ErrWrap (''deliver local recipient '' @ Email r @ '': '' @ err_Error e) e), st2)
                | (None, st2) \<Rightarrow>
                    local_loop h resolve deliver j rs (remote, delivered @ [r], bounced) st2))"

definition deliverLocalRecipients ::
    "'w handler \<Rightarrow> addr_parser \<Rightarrow> job \<Rightarrow> 'w hstate \<Rightarrow> (derr + address list) \<times> 'w hstate" where
  "deliverLocalRecipients h parse j st =
     (case (h_localResolver h, h_localDeliverer h) of
        (Some resolve, Some deliver) \<Rightarrow>
          (case local_loop h resolve deliver j (job_Recipients parse j) ([], [], []) st of
             (Inl e, st1) \<Rightarrow> (Inl e, st1)
           | (Inr (remote, delivered, bounced), st1) \<Rightarrow>
               (case record_split h ''record local delivered attempt'' ''record local bounced attempt''
                       (\<lambda>_. AttemptBounced) j delivered bounced st1 of
                  (Some e, st2) \<Rightarrow> (Inl e, st2)
                | (None, st2) \<Rightarrow> (Inr remote, st2)))
      | _ \<Rightarrow> (Inr (job_Recipients parse j), st))"

section \<open>Retries\<close>

definition schedule ::
    "(job \<Rightarrow> derr \<Rightarrow> 'w \<Rightarrow> derr option \<times> 'w) \<Rightarrow> job \<Rightarrow> derr \<Rightarrow> 'w hstate \<Rightarrow> derr option \<times> 'w hstate" where
  "schedule retry j cause st =
     (case world_call (retry j cause) st of
        (r, st1) \<Rightarrow> (r, note_call (FxRetry j cause r) st1))"

text \<open>What follows \<open>ScheduleRetry\<close>; \<open>q\<close> is the message that metrics and hook are given.\<close>

definition after_schedule ::
    "'w handler \<Rightarrow> addr_parser \<Rightarrow> (job \<Rightarrow> derr \<Rightarrow> 'w \<Rightarrow> derr option \<times> 'w) \<Rightarrow> job \<Rightarrow> queued_message \<Rightarrow>
     derr \<Rightarrow> 'w hstate \<Rightarrow> derr option \<times> 'w hstate" where
  "after_schedule h parse retry j q err st =
     (case schedule retry j err st of
        (None, st1) \<Rightarrow> (None, observe h (metricEvent parse q RetryScheduled MetricDeferred (Some err)) st1)
      | (Some e, st1) \<Rightarrow>
          if is_exhausted e then
            notifyExhausted h q e
              (observe h (metricEvent parse q RetryExhaustedStage MetricFailed (Some e)) st1)
          else (Some e, st1))"

text \<open>A gate refused the job: the message is put off.\<close>

definition gate_refused ::
    "'w handler \<Rightarrow> addr_parser \<Rightarrow> metric_stage \<Rightarrow> job \<Rightarrow> queued_message \<Rightarrow> derr \<Rightarrow> 'w hstate \<Rightarrow>
     derr option \<times> 'w hstate" where
  "gate_refused h parse stage j q err st =
     (let st1 = observe h (metricEvent parse q stage MetricDeferred (Some err)) st in
      case h_retry h of
        None \<Rightarrow> (Some err, st1)
      | Some retry \<Rightarrow> after_schedule h parse retry j q err st1)"

section \<open>The transport and its failures\<close>

definition observe_backoff ::
    "'w handler \<Rightarrow> job \<Rightarrow> address list \<Rightarrow> derr \<Rightarrow> 'w hstate \<Rightarrow> 'w hstate" where
  "observe_backoff h j rs err st =
     (case h_backoff h of
        None \<Rightarrow> st
      | Some b \<Rightarrow> st\<lparr>hs_world := bi_Observe b j rs err (hs_world st)\<rparr>)"

definition job_for :: "addr_parser \<Rightarrow> job \<Rightarrow> address list \<Rightarrow> job" where
  "job_for parse j rs =
     j\<lparr>jb_queued := queuedMessageForRecipients parse (jb_queued j) rs,
       jb_recipientCache := Some rs, jb_rawPayload := []\<rparr>"

definition delivery_partial ::
    "'w handler \<Rightarrow> addr_parser \<Rightarrow> job \<Rightarrow> queued_message \<Rightarrow> derr \<Rightarrow> address list \<Rightarrow>
     (address \<times> derr option) list \<Rightarrow> 'w hstate \<Rightarrow> derr option \<times> 'w hstate" where
  "delivery_partial h parse j q err delivered failed st =
     (case recordPartialAttempts h j delivered failed st of
        (Some e, st1) \<Rightarrow> (Some e, st1)
      | (None, st1) \<Rightarrow>
          let temporary = TemporaryFailures failed;
              result = (if temporary \<noteq> [] then MetricDeferred else MetricBounced);
              st2 = observe h (metricEvent parse q TransportFailed result (Some err)) st1
          in if temporary = [] then (None, st2)
             else case h_retry h of
               None \<Rightarrow> (None, st2)
             | Some retry \<Rightarrow>
                 let retryJob = job_for parse j temporary
                 in after_schedule h parse retry retryJob (jb_queued retryJob) err
                      (observe_backoff h retryJob temporary err st2))"

definition delivery_failed ::
    "'w handler \<Rightarrow> addr_parser \<Rightarrow> job \<Rightarrow> queued_message \<Rightarrow> derr \<Rightarrow> 'w hstate \<Rightarrow> derr option \<times> 'w hstate" where
  "delivery_failed h parse j q err st =
     (let permanent = IsPermanentFailure (Some err);
          status = (if permanent then AttemptBounced else AttemptFailed);
          result = (if permanent then MetricBounced else MetricFailed);
          st1 = observe h (metricEvent parse q TransportFailed result (Some err)) st
      in case recordAttempts h parse j status (Some err) st1 of
           (Some e, st2) \<Rightarrow> (Some e, st2)
         | (None, st2) \<Rightarrow>
             if permanent then (None, st2)
             else let st3 = observe_backoff h j (job_Recipients parse j) err st2 in
               case h_retry h of
                 None \<Rightarrow> (Some err, st3)
               | Some retry \<Rightarrow> after_schedule h parse retry j q err st3)"

definition transport_job ::
    "'w handler \<Rightarrow> addr_parser \<Rightarrow> (job \<Rightarrow> 'w \<Rightarrow> derr option \<times> 'w) \<Rightarrow> job \<Rightarrow> queued_message \<Rightarrow> 'w hstate \<Rightarrow>
     derr option \<times> 'w hstate" where
  "transport_job h parse deliver j q st =
     (case world_call (deliver j) st of
        (r, st0) \<Rightarrow>
          let st1 = note_call (FxTransport j r) st0 in
          case r of
            None \<Rightarrow>
              recordAttempts h parse j AttemptDelivered None
                (observe h (metricEvent parse q TransportDelivered MetricOK None) st1)
          | Some err \<Rightarrow>
              (case as_partial err of
                 Some (delivered, failed) \<Rightarrow> delivery_partial h parse j q err delivered failed st1
               | None \<Rightarrow> delivery_failed h parse j q err st1))"

section \<open>The gates\<close>

definition throttle_gate ::
    "'w handler \<Rightarrow> addr_parser \<Rightarrow> (job \<Rightarrow> 'w \<Rightarrow> derr option \<times> 'w) \<Rightarrow> job \<Rightarrow> queued_message \<Rightarrow> 'w hstate \<Rightarrow>
     derr option \<times> 'w hstate" where
  "throttle_gate h parse deliver j q st =
     (case h_throttler h of
        None \<Rightarrow> transport_job h parse deliver j q st
      | Some t \<Rightarrow>
          (case world_call (th_Acquire t j) st of
             (Some err, st1) \<Rightarrow> gate_refused h parse Throttled j q err st1
           | (None, st1) \<Rightarrow>
               (case transport_job h parse deliver j q (note_call (FxAcquired j) st1) of
                  (r, st2) \<Rightarrow>
                    (r, note_call (FxReleased j) (st2\<lparr>hs_world := th_release t j (hs_world st2)\<rparr>)))))"

definition rate_gate ::
    "'w handler \<Rightarrow> addr_parser \<Rightarrow> (job \<Rightarrow> 'w \<Rightarrow> derr option \<times> 'w) \<Rightarrow> job \<Rightarrow> queued_message \<Rightarrow> 'w hstate \<Rightarrow>
     derr option \<times> 'w hstate" where
  "rate_gate h parse deliver j q st =
     (case h_rateLimiter h of
        None \<Rightarrow> throttle_gate h parse deliver j q st
      | Some allow \<Rightarrow>
          (case world_call (allow j) st of
             (Some err, st1) \<Rightarrow> gate_refused h parse RateLimited j q err st1
           | (None, st1) \<Rightarrow> throttle_gate h parse deliver j q st1))"

definition backoff_gate ::
    "'w handler \<Rightarrow> addr_parser \<Rightarrow> (job \<Rightarrow> 'w \<Rightarrow> derr option \<times> 'w) \<Rightarrow> job \<Rightarrow> queued_message \<Rightarrow> 'w hstate \<Rightarrow>
     derr option \<times> 'w hstate" where
  "backoff_gate h parse deliver j q st =
     (case h_backoff h of
        None \<Rightarrow> rate_gate h parse deliver j q st
      | Some b \<Rightarrow>
          (case world_call (bi_Check b j) st of
             (Some err, st1) \<Rightarrow> gate_refused h parse DomainBackoffStage j q err st1
           | (None, st1) \<Rightarrow> rate_gate h parse deliver j q st1))"

section \<open>HandleEvent\<close>

text \<open>From the decoded message on.\<close>

definition handle_queued ::
    "'w handler \<Rightarrow> addr_parser \<Rightarrow> (job \<Rightarrow> 'w \<Rightarrow> derr option \<times> 'w) \<Rightarrow> string \<Rightarrow> queued_message \<Rightarrow> 'w hstate \<Rightarrow>
     derr option \<times> 'w hstate" where
  "handle_queued h parse deliver payload q st =
     (let recipients = qm_Recipients parse q in
      if qm_StoragePath q = [] then (Some (ErrText ''mail.queued payload is missing storage_path''), st)
      else if recipients = [] then (Some (ErrText ''mail.queued payload has no recipients''), st)
      else let j = \<lparr>jb_queued = q, jb_recipientCache = Some recipients, jb_rawPayload = payload\<rparr> in
        case deliverLocalRecipients h parse j st of
          (Inl e, st1) \<Rightarrow> (Some e, st1)
        | (Inr remote, st1) \<Rightarrow>
            if remote = [] then
              (None, observe h (metricEvent parse q TransportDelivered MetricOK None) st1)
            else backoff_gate h parse deliver
                   (if length remote \<noteq> length recipients then job_for parse j remote else j) q st1)"

text \<open>\<open>unmarshal\<close> is \<open>json.Unmarshal\<close> into a \<open>QueuedMessage\<close>.\<close>

definition HandleEvent ::
    "'w handler \<Rightarrow> addr_parser \<Rightarrow> (string \<Rightarrow> queued_message res) \<Rightarrow> string \<Rightarrow> 'w hstate \<Rightarrow>
     derr option \<times> 'w hstate" where
  "HandleEvent h parse unmarshal payload st =
     (if \<not> h_store h then (Some (ErrText ''delivery storage is required''), st)
      else case h_transport h of
        None \<Rightarrow> (Some (ErrText ''delivery transport is required''), st)
      | Some deliver \<Rightarrow>
          (case DecodeQueuedMessage parse (unmarshal payload) of
             Inl e \<Rightarrow> (Some (ErrText e), observe h (decode_failed_event e) st)
           | Inr q \<Rightarrow>
               handle_queued h parse deliver payload q
                 (observe h (metricEvent parse q QueuedDecoded MetricOK None) st)))"

section \<open>The history of a run\<close>

lemma log_world_call: "world_call f st = (r, st') \<Longrightarrow> hs_log st' = hs_log st"
  by (auto simp: world_call_def)

lemma log_observe [simp]: "hs_log (observe h ev st) = hs_log st"
  by (simp add: observe_def)

lemma log_note_call [simp]: "hs_log (note_call ev st) = hs_log st @ [ev]"
  by (simp add: note_call_def)

lemma log_observe_backoff [simp]: "hs_log (observe_backoff h j rs err st) = hs_log st"
  by (simp add: observe_backoff_def split: option.splits)

lemma log_record_each: "record_each h as st = (r, st') \<Longrightarrow> hs_log st' = hs_log st"
  by (induction h as st rule: record_each.induct)
     (auto dest!: log_world_call split: prod.splits option.splits)

lemma log_recordAttemptBatch: "recordAttemptBatch h as st = (r, st') \<Longrightarrow> hs_log st' = hs_log st"
  by (auto simp: recordAttemptBatch_def dest: log_world_call log_record_each split: if_splits option.splits)

lemma log_recordAttempts: "recordAttempts h parse j s c st = (r, st') \<Longrightarrow> hs_log st' = hs_log st"
  unfolding recordAttempts_def
  by (cases "recordAttemptBatch h (attemptsFor parse (now_of h st) j s c (now_of h st)) st")
     (auto dest: log_recordAttemptBatch)

lemma log_record_split: "record_split h a b s j ds fs st = (r, st') \<Longrightarrow> hs_log st' = hs_log st"
  by (auto simp: record_split_def Let_def map_prod_def dest!: log_recordAttemptBatch
      split: prod.splits option.splits)

lemma log_recordPartial: "recordPartialAttempts h j ds fs st = (r, st') \<Longrightarrow> hs_log st' = hs_log st"
  unfolding recordPartialAttempts_def by (rule log_record_split)

lemma log_local_loop: "local_loop h rv dl j rs acc st = (r, st') \<Longrightarrow> hs_log st' = hs_log st"
  by (induction h rv dl j rs acc st rule: local_loop.induct)
     (auto dest!: log_world_call split: prod.splits option.splits sum.splits if_splits)

lemma log_deliverLocal: "deliverLocalRecipients h parse j st = (r, st') \<Longrightarrow> hs_log st' = hs_log st"
  by (auto simp: deliverLocalRecipients_def dest!: log_local_loop log_record_split
      split: prod.splits option.splits sum.splits)

lemmas log_frame = log_world_call log_recordAttemptBatch log_recordAttempts log_recordPartial log_deliverLocal

text \<open>The calls and the result \<open>x\<close> after a decision to retry a job: \<open>ScheduleRetry\<close> is called once; its error is the
  result, unless it says that the attempts are exhausted: then the exhaustion hook is called, if there is one,
  and gives the result.\<close>

definition retry_calls ::
    "bool \<Rightarrow> job \<Rightarrow> queued_message \<Rightarrow> derr \<Rightarrow> derr option \<Rightarrow> call_event list \<Rightarrow> bool" where
  "retry_calls hook j q cause x l \<longleftrightarrow>
     x = None \<and> l = [FxRetry j cause None] \<or>
     (\<exists>e. \<not> is_exhausted e \<and> x = Some e \<and> l = [FxRetry j cause (Some e)]) \<or>
     (\<exists>e. is_exhausted e \<and>
        (if hook then l = [FxRetry j cause (Some e), FxExhausted q e x]
         else x = None \<and> l = [FxRetry j cause (Some e)]))"

text \<open>Without a scheduler nothing is called and the result is \<open>y\<close>.\<close>

definition retried ::
    "'w handler \<Rightarrow> job \<Rightarrow> queued_message \<Rightarrow> derr \<Rightarrow> derr option \<Rightarrow> derr option \<Rightarrow> call_event list \<Rightarrow> bool" where
  "retried h j q cause y x l \<longleftrightarrow>
     (if h_retry h = None then x = y \<and> l = [] else retry_calls (h_exhaustionHook h \<noteq> None) j q cause x l)"

definition recording_failed :: "derr option \<Rightarrow> bool" where
  "recording_failed x \<longleftrightarrow>
     (\<exists>t e. t \<in> {''record delivery attempt'', ''record partial delivered attempt'', ''record partial failed attempt''} \<and>
        x = wrap_err t (Some e))"

text \<open>The calls and the result after the transport returned \<open>r\<close>. When the attempts were recorded, a delivery and a
  permanent failure end the run; a job that failed as a whole and not permanently is retried as a whole; and of
  one that failed in part exactly the temporary failures are, if there are any.\<close>

definition after_transport ::
    "'w handler \<Rightarrow> addr_parser \<Rightarrow> job \<Rightarrow> queued_message \<Rightarrow> derr option \<Rightarrow> derr option \<Rightarrow> call_event list \<Rightarrow> bool" where
  "after_transport h parse j q r x l \<longleftrightarrow>
     recording_failed x \<and> l = [] \<or>
     (case r of
        None \<Rightarrow> x = None \<and> l = []
      | Some err \<Rightarrow>
          (case as_partial err of
             Some (ds, fs) \<Rightarrow>
               if TemporaryFailures fs = [] then x = None \<and> l = []
               else retried h (job_for parse j (TemporaryFailures fs))
                      (jb_queued (job_for parse j (TemporaryFailures fs))) err None x l
           | None \<Rightarrow>
               if IsPermanentFailure (Some err) then x = None \<and> l = []
               else retried h j q err (Some err) x l))"

definition gate_refuses :: "'w handler \<Rightarrow> job \<Rightarrow> derr \<Rightarrow> bool" where
  "gate_refuses h j err \<longleftrightarrow>
     (\<exists>w. (\<exists>b. h_backoff h = Some b \<and> fst (bi_Check b j w) = Some err) \<or>
          (\<exists>allow. h_rateLimiter h = Some allow \<and> fst (allow j w) = Some err) \<or>
          (\<exists>t. h_throttler h = Some t \<and> fst (th_Acquire t j w) = Some err))"

text \<open>The calls and the result of a job: a gate refuses it and it is retried, or the transport is called, between
  acquiring and releasing the leases if there is a throttler.\<close>

definition run_calls ::
    "'w handler \<Rightarrow> addr_parser \<Rightarrow> (job \<Rightarrow> 'w \<Rightarrow> derr option \<times> 'w) \<Rightarrow> job \<Rightarrow> queued_message \<Rightarrow> derr option \<Rightarrow>
     call_event list \<Rightarrow> bool" where
  "run_calls h parse deliver j q x l \<longleftrightarrow>
     (\<exists>err. gate_refuses h j err \<and> retried h j q err (Some err) x l) \<or>
     (\<exists>w t. after_transport h parse j q (fst (deliver j w)) x t \<and>
        l = (if h_throttler h \<noteq> None then FxAcquired j # FxTransport j (fst (deliver j w)) # t @ [FxReleased j]
             else FxTransport j (fst (deliver j w)) # t))"

lemma after_schedule_calls:
  assumes "after_schedule h parse retry j q err st = (x, st')"
  shows "\<exists>l. hs_log st' = hs_log st @ l \<and> retry_calls (h_exhaustionHook h \<noteq> None) j q err x l"
proof -
  obtain y st0 where w: "world_call (retry j err) st = (y, st0)" by (cases "world_call (retry j err) st")
  note l = log_world_call [OF w]
  show ?thesis
  proof (cases y)
    case None
    then show ?thesis using assms w l
      by (auto simp: after_schedule_def schedule_def retry_calls_def)
  next
    case (Some e)
    show ?thesis
    proof (cases "is_exhausted e \<and> h_exhaustionHook h \<noteq> None")
      case True
      then obtain hook where hook: "h_exhaustionHook h = Some hook" by auto
      then have "hs_log st' = hs_log st @ [FxRetry j err y, FxExhausted q e x]"
        using assms w l Some True
        by (auto simp: after_schedule_def schedule_def notifyExhausted_def dest: log_world_call split: prod.splits)
      with Some True show ?thesis by (auto simp: retry_calls_def)
    next
      case False
      then have "hs_log st' = hs_log st @ [FxRetry j err y] \<and> x = (if is_exhausted e then None else Some e)"
        using assms w l Some
        by (auto simp: after_schedule_def schedule_def notifyExhausted_def split: if_splits option.splits)
      then show ?thesis using Some False by (auto simp: retry_calls_def)
    qed
  qed
qed

lemma gate_refused_calls:
  assumes "gate_refused h parse stage j q err st = (x, st')"
  shows "\<exists>l. hs_log st' = hs_log st @ l \<and> retried h j q err (Some err) x l"
  using assms by (auto simp: gate_refused_def retried_def Let_def dest: after_schedule_calls split: option.splits)

lemma recordAttempts_failed: "recordAttempts h parse j s c st = (Some e, st') \<Longrightarrow> recording_failed (Some e)"
  unfolding recordAttempts_def recording_failed_def
  by (cases "recordAttemptBatch h (attemptsFor parse (now_of h st) j s c (now_of h st)) st") (auto simp: wrap_err_def)

lemma recordPartial_failed: "recordPartialAttempts h j ds fs st = (Some e, st') \<Longrightarrow> recording_failed (Some e)"
proof -
  assume "recordPartialAttempts h j ds fs st = (Some e, st')"
  then have "\<exists>t c. t \<in> {''record partial delivered attempt'', ''record partial failed attempt''} \<and> Some e = wrap_err t (Some c)"
    unfolding recordPartialAttempts_def record_split_def Let_def
    by (fastforce simp: wrap_err_def map_prod_def split: prod.split_asm option.split_asm)
  then show "recording_failed (Some e)" unfolding recording_failed_def by blast
qed

lemma delivery_failed_calls:
  assumes "delivery_failed h parse j q err st = (x, st')" and "as_partial err = None"
  shows "\<exists>l. hs_log st' = hs_log st @ l \<and> after_transport h parse j q (Some err) x l"
proof -
  define p where "p = IsPermanentFailure (Some err)"
  define st1 where "st1 = observe h (metricEvent parse q TransportFailed (if p then MetricBounced else MetricFailed) (Some err)) st"
  obtain y st2 where rec: "recordAttempts h parse j (if p then AttemptBounced else AttemptFailed) (Some err) st1 = (y, st2)"
    by (cases "recordAttempts h parse j (if p then AttemptBounced else AttemptFailed) (Some err) st1")
  have l: "hs_log st2 = hs_log st" using log_recordAttempts [OF rec] by (simp add: st1_def)
  show ?thesis
  proof (cases "y = None \<and> \<not> p \<and> h_retry h \<noteq> None")
    case True
    then obtain retry where "h_retry h = Some retry" by auto
    then have "after_schedule h parse retry j q err (observe_backoff h j (job_Recipients parse j) err st2) = (x, st')"
      using assms(1) rec True by (simp add: delivery_failed_def Let_def p_def st1_def)
    from after_schedule_calls [OF this] show ?thesis using l True assms(2)
      by (auto simp: after_transport_def retried_def p_def)
  next
    case False
    then show ?thesis using assms rec l
      by (cases y) (auto simp: delivery_failed_def Let_def after_transport_def retried_def p_def st1_def
          dest: recordAttempts_failed split: if_splits)
  qed
qed

lemma delivery_partial_calls:
  assumes "delivery_partial h parse j q err ds fs st = (x, st')" and "as_partial err = Some (ds, fs)"
  shows "\<exists>l. hs_log st' = hs_log st @ l \<and> after_transport h parse j q (Some err) x l"
proof -
  define ts where "ts = TemporaryFailures fs"
  define rj where "rj = job_for parse j ts"
  define ev where "ev = metricEvent parse q TransportFailed (if ts \<noteq> [] then MetricDeferred else MetricBounced) (Some err)"
  obtain y st1 where rec: "recordPartialAttempts h j ds fs st = (y, st1)" by (cases "recordPartialAttempts h j ds fs st")
  note l = log_recordPartial [OF rec]
  show ?thesis
  proof (cases "y = None \<and> ts \<noteq> [] \<and> h_retry h \<noteq> None")
    case True
    then obtain retry where "h_retry h = Some retry" by auto
    then have "after_schedule h parse retry rj (jb_queued rj) err (observe_backoff h rj ts err (observe h ev st1)) = (x, st')"
      using assms(1) rec True by (simp add: delivery_partial_def Let_def ts_def rj_def ev_def)
    from after_schedule_calls [OF this] show ?thesis using l True assms(2)
      by (auto simp: after_transport_def retried_def ts_def rj_def)
  next
    case False
    then show ?thesis using assms rec l
      by (cases y) (auto simp: delivery_partial_def Let_def after_transport_def retried_def ts_def
          dest: recordPartial_failed split: if_splits)
  qed
qed

lemma transport_job_calls:
  assumes "transport_job h parse deliver j q st = (x, st')"
  shows "\<exists>w t. hs_log st' = hs_log st @ FxTransport j (fst (deliver j w)) # t \<and>
    after_transport h parse j q (fst (deliver j w)) x t"
proof -
  obtain r st0 where w: "world_call (deliver j) st = (r, st0)" by (cases "world_call (deliver j) st")
  note l = log_world_call [OF w]
  let ?s = "note_call (FxTransport j r) st0"
  have r: "r = fst (deliver j (hs_world st))" using w by (simp add: world_call_def)
  have "\<exists>t. hs_log st' = hs_log ?s @ t \<and> after_transport h parse j q r x t"
  proof (cases r)
    case None
    with assms w have rec: "recordAttempts h parse j AttemptDelivered None
        (observe h (metricEvent parse q TransportDelivered MetricOK None) ?s) = (x, st')"
      by (simp add: transport_job_def Let_def)
    have "x = None \<or> recording_failed x" using recordAttempts_failed rec by (cases x) auto
    then show ?thesis using log_recordAttempts [OF rec] None by (auto simp: after_transport_def)
  next
    case (Some err)
    show ?thesis
    proof (cases "as_partial err")
      case None
      with Some assms w delivery_failed_calls [of h parse j q err ?s x st'] show ?thesis
        by (simp add: transport_job_def Let_def)
    next
      case P: (Some p)
      obtain ds fs where p: "p = (ds, fs)" by (cases p)
      with P Some assms w delivery_partial_calls [of h parse j q err ds fs ?s x st'] show ?thesis
        by (simp add: transport_job_def Let_def)
    qed
  qed
  with l r show ?thesis by auto
qed

lemma throttle_gate_calls:
  assumes "throttle_gate h parse deliver j q st = (x, st')"
  shows "\<exists>l. hs_log st' = hs_log st @ l \<and> run_calls h parse deliver j q x l"
proof (cases "h_throttler h")
  case None
  with assms transport_job_calls [of h parse deliver j q st x st'] show ?thesis
    unfolding throttle_gate_def run_calls_def by auto
next
  case (Some t)
  obtain y st1 where w: "world_call (th_Acquire t j) st = (y, st1)" by (cases "world_call (th_Acquire t j) st")
  note l = log_world_call [OF w]
  show ?thesis
  proof (cases y)
    case None
    obtain r2 st2 where run: "transport_job h parse deliver j q (note_call (FxAcquired j) st1) = (r2, st2)"
      by (cases "transport_job h parse deliver j q (note_call (FxAcquired j) st1)")
    then have x: "x = r2" "hs_log st' = hs_log st2 @ [FxReleased j]"
      using assms Some None w by (auto simp: throttle_gate_def)
    from transport_job_calls [OF run] show ?thesis using x l Some unfolding run_calls_def by auto
  next
    case E: (Some err)
    have "gate_refuses h j err" using w Some E by (auto simp: gate_refuses_def world_call_def)
    with assms Some E w l gate_refused_calls [of h parse Throttled j q err st1 x st'] show ?thesis
      unfolding throttle_gate_def run_calls_def by auto
  qed
qed

lemma rate_gate_calls:
  assumes "rate_gate h parse deliver j q st = (x, st')"
  shows "\<exists>l. hs_log st' = hs_log st @ l \<and> run_calls h parse deliver j q x l"
proof (cases "h_rateLimiter h")
  case None
  with assms throttle_gate_calls show ?thesis by (auto simp: rate_gate_def)
next
  case (Some allow)
  obtain y st1 where w: "world_call (allow j) st = (y, st1)" by (cases "world_call (allow j) st")
  note l = log_world_call [OF w]
  show ?thesis
  proof (cases y)
    case None
    with assms Some w l throttle_gate_calls [of h parse deliver j q st1 x st'] show ?thesis
      by (simp add: rate_gate_def)
  next
    case E: (Some err)
    have "gate_refuses h j err" using w Some E by (auto simp: gate_refuses_def world_call_def)
    with assms Some E w l gate_refused_calls [of h parse RateLimited j q err st1 x st'] show ?thesis
      unfolding rate_gate_def run_calls_def by auto
  qed
qed

lemma backoff_gate_calls:
  assumes "backoff_gate h parse deliver j q st = (x, st')"
  shows "\<exists>l. hs_log st' = hs_log st @ l \<and> run_calls h parse deliver j q x l"
proof (cases "h_backoff h")
  case None
  with assms rate_gate_calls show ?thesis by (auto simp: backoff_gate_def)
next
  case (Some b)
  obtain y st1 where w: "world_call (bi_Check b j) st = (y, st1)" by (cases "world_call (bi_Check b j) st")
  note l = log_world_call [OF w]
  show ?thesis
  proof (cases y)
    case None
    with assms Some w l rate_gate_calls [of h parse deliver j q st1 x st'] show ?thesis
      by (simp add: backoff_gate_def)
  next
    case E: (Some err)
    have "gate_refuses h j err" using w Some E by (auto simp: gate_refuses_def world_call_def)
    with assms Some E w l gate_refused_calls [of h parse DomainBackoffStage j q err st1 x st'] show ?thesis
      unfolding backoff_gate_def run_calls_def by auto
  qed
qed

text \<open>Local delivery splits the recipients.\<close>

lemma local_loop_split:
  "local_loop h rv dl j rs acc st = (Inr (rem, del, bou), st') \<Longrightarrow>
   set rem \<union> set del \<union> fst ` set bou = set (fst acc) \<union> set (fst (snd acc)) \<union> fst ` set (snd (snd acc)) \<union> set rs"
  by (induction h rv dl j rs acc st rule: local_loop.induct)
     (auto split: prod.splits option.splits sum.splits if_splits)

lemma deliverLocal_subset:
  "deliverLocalRecipients h parse j st = (Inr remote, st') \<Longrightarrow> set remote \<subseteq> set (job_Recipients parse j)"
  by (auto simp: deliverLocalRecipients_def dest!: local_loop_split split: prod.splits option.splits sum.splits)

lemma job_for_simps [simp]:
  "job_Recipients parse (job_for parse j rs) = rs"
  "qm_MessageID (jb_queued (job_for parse j rs)) = qm_MessageID (jb_queued j)"
  by (simp_all add: job_for_def job_Recipients_def queuedMessageForRecipients_def)

text \<open>The branches of \<open>HandleEvent\<close>.\<close>

definition queued_job :: "addr_parser \<Rightarrow> queued_message \<Rightarrow> string \<Rightarrow> job" where
  "queued_job parse q payload =
     \<lparr>jb_queued = q, jb_recipientCache = Some (qm_Recipients parse q), jb_rawPayload = payload\<rparr>"

lemma queued_job_simps [simp]:
  "job_Recipients parse (queued_job parse q payload) = qm_Recipients parse q"
  "jb_queued (queued_job parse q payload) = q"
  by (simp_all add: queued_job_def job_Recipients_def)

lemma handle_queued_cases:
  assumes run: "handle_queued h parse deliver payload q st = (r, st')"
  obtains (incomplete) "r \<noteq> None" "st' = st"
  | (local_error) e where "deliverLocalRecipients h parse (queued_job parse q payload) st = (Inl e, st')"
      "r = Some e"
  | (local_only) st1 ev where "deliverLocalRecipients h parse (queued_job parse q payload) st = (Inr [], st1)"
      "r = None" "st' = observe h ev st1"
  | (remote) remote st1 j where
      "deliverLocalRecipients h parse (queued_job parse q payload) st = (Inr remote, st1)"
      "backoff_gate h parse deliver j q st1 = (r, st')" "qm_MessageID (jb_queued j) = qm_MessageID q"
      "set remote \<subseteq> set (job_Recipients parse j)" "set (job_Recipients parse j) \<subseteq> set (qm_Recipients parse q)"
      "j = queued_job parse q payload \<or> j = job_for parse (queued_job parse q payload) remote"
proof -
  obtain x st1 where loc: "deliverLocalRecipients h parse (queued_job parse q payload) st = (x, st1)"
    by (cases "deliverLocalRecipients h parse (queued_job parse q payload) st")
  show thesis
  proof (cases "qm_StoragePath q = [] \<or> qm_Recipients parse q = []")
    case True
    then show thesis using run by (intro incomplete) (auto simp: handle_queued_def split: if_splits)
  next
    case False
    then have hq: "(r, st') = (case (x, st1) of (Inl e, st1) \<Rightarrow> (Some e, st1)
        | (Inr remote, st1) \<Rightarrow>
            if remote = [] then (None, observe h (metricEvent parse q TransportDelivered MetricOK None) st1)
            else backoff_gate h parse deliver
                   (if length remote \<noteq> length (qm_Recipients parse q)
                    then job_for parse (queued_job parse q payload) remote else queued_job parse q payload) q st1)"
      using run loc unfolding handle_queued_def Let_def queued_job_def by simp
    show thesis
    proof (cases x)
      case (Inl e)
      then show thesis using hq loc by (intro local_error) auto
    next
      case (Inr remote)
      show thesis
      proof (cases "remote = []")
        case True
        then show thesis using Inr hq loc by (intro local_only) auto
      next
        case ne: False
        have sub: "set remote \<subseteq> set (qm_Recipients parse q)"
          using deliverLocal_subset loc Inr by (metis queued_job_simps(1))
        show thesis
          by (rule remote [where j = "if length remote \<noteq> length (qm_Recipients parse q)
                then job_for parse (queued_job parse q payload) remote else queued_job parse q payload"])
             (use loc Inr hq ne sub in auto)
      qed
    qed
  qed
qed

lemma HandleEvent_cases:
  assumes run: "HandleEvent h parse unmarshal payload st = (r, st')"
  obtains (refused) "r \<noteq> None" "hs_log st' = hs_log st"
      "\<not> h_store h \<or> h_transport h = None \<or> (\<exists>e. DecodeQueuedMessage parse (unmarshal payload) = Inl e)"
  | (decoded) deliver q st0 where "DecodeQueuedMessage parse (unmarshal payload) = Inr q"
      "h_transport h = Some deliver" "st0 = observe h (metricEvent parse q QueuedDecoded MetricOK None) st"
      "handle_queued h parse deliver payload q st0 = (r, st')"
  using run by (auto simp: HandleEvent_def split: if_splits option.splits sum.splits)

text \<open>What \<open>HandleEvent\<close> does before the gates: the result \<open>x\<close> of a run that ends there (the handler is not
  configured, the payload is not usable, local delivery fails or is enough), or the job for the remote
  recipients.\<close>

definition local_part ::
    "'w handler \<Rightarrow> addr_parser \<Rightarrow> queued_message \<Rightarrow> string \<Rightarrow> 'w hstate \<Rightarrow> derr + address list" where
  "local_part h parse q payload st =
     fst (deliverLocalRecipients h parse (queued_job parse q payload)
            (observe h (metricEvent parse q QueuedDecoded MetricOK None) st))"

definition ends_early ::
    "'w handler \<Rightarrow> addr_parser \<Rightarrow> queued_message res \<Rightarrow> string \<Rightarrow> 'w hstate \<Rightarrow> derr option \<Rightarrow> bool" where
  "ends_early h parse decoded payload st x \<longleftrightarrow>
     x \<noteq> None \<and> (\<not> h_store h \<or> h_transport h = None \<or>
       (case decoded of Inl _ \<Rightarrow> True | Inr q \<Rightarrow> qm_StoragePath q = [] \<or> qm_Recipients parse q = [])) \<or>
     (case decoded of Inl _ \<Rightarrow> False | Inr q \<Rightarrow>
        (case local_part h parse q payload st of Inl e \<Rightarrow> x = Some e | Inr remote \<Rightarrow> remote = [] \<and> x = None))"

definition remote_job :: "addr_parser \<Rightarrow> queued_message \<Rightarrow> string \<Rightarrow> address list \<Rightarrow> job" where
  "remote_job parse q payload remote =
     (if length remote \<noteq> length (qm_Recipients parse q) then job_for parse (queued_job parse q payload) remote
      else queued_job parse q payload)"

text \<open>
  C12. The protocol of the delivery worker, for every transport, recorder, retry scheduler, back-off,
  rate limiter, throttler, hook and local delivery: the calls and the result of one \<open>HandleEvent\<close>. The run
  ends before the gates (\<open>ends_early\<close>), or makes the calls of \<open>run_calls\<close> for the job of the remote
  recipients. Then either a gate refuses the job, and all of it is retried, or the transport is called once,
  between acquiring and releasing the leases if there is a throttler, with the release as the last call on
  every path. After the transport, unless the attempts could not be recorded (which is the result), a
  delivery or a permanent failure ends the run with success, a job that failed as a whole and not permanently is
  retried as a whole, and of a job that failed in part exactly the temporary failures are retried. A retry
  is one call of the scheduler; only when it answers that the attempts are exhausted the exhaustion hook is
  called; its error, or else that of the hook, is the result.
\<close>

theorem handle_event_protocol:
  "\<exists>l. hs_log (snd (HandleEvent h parse unmarshal payload st)) = hs_log st @ l \<and>
     (l = [] \<and> ends_early h parse (DecodeQueuedMessage parse (unmarshal payload)) payload st
                 (fst (HandleEvent h parse unmarshal payload st)) \<or>
      (\<exists>q remote deliver. DecodeQueuedMessage parse (unmarshal payload) = Inr q \<and> h_transport h = Some deliver \<and>
         local_part h parse q payload st = Inr remote \<and> remote \<noteq> [] \<and>
         run_calls h parse deliver (remote_job parse q payload remote) q
           (fst (HandleEvent h parse unmarshal payload st)) l))"
proof -
  obtain x st' where run: "HandleEvent h parse unmarshal payload st = (x, st')"
    by (cases "HandleEvent h parse unmarshal payload st")
  from run show ?thesis
  proof (cases rule: HandleEvent_cases)
    case refused
    then show ?thesis using run by (auto simp: ends_early_def)
  next
    case (decoded deliver q st0)
    have l0: "hs_log st0 = hs_log st" using decoded(3) by simp
    obtain y st1 where loc: "deliverLocalRecipients h parse (queued_job parse q payload) st0 = (y, st1)"
      by (cases "deliverLocalRecipients h parse (queued_job parse q payload) st0")
    have y: "local_part h parse q payload st = y" using loc decoded(3) by (simp add: local_part_def)
    have l1: "hs_log st1 = hs_log st" using log_deliverLocal [OF loc] l0 by simp
    consider (incomplete) "qm_StoragePath q = [] \<or> qm_Recipients parse q = []" "x \<noteq> None" "st' = st0"
      | (early) "(case y of Inl e \<Rightarrow> x = Some e | Inr remote \<Rightarrow> remote = [] \<and> x = None)" "hs_log st' = hs_log st1"
      | (remote) remote where "y = Inr remote" "remote \<noteq> []"
          "backoff_gate h parse deliver (remote_job parse q payload remote) q st1 = (x, st')"
      using decoded(4) loc
      by (auto simp: handle_queued_def Let_def queued_job_def remote_job_def split: if_splits sum.splits)
    then show ?thesis
    proof cases
      case incomplete
      then show ?thesis using run l0 decoded(1) by (auto simp: ends_early_def)
    next
      case early
      then show ?thesis using run l1 decoded(1) y by (auto simp: ends_early_def)
    next
      case (remote remote)
      from backoff_gate_calls [OF remote(3)] obtain l where
        "hs_log st' = hs_log st @ l" "run_calls h parse deliver (remote_job parse q payload remote) q x l" using l1 by auto
      then show ?thesis using run decoded(1,2) y remote(1,2) by auto
    qed
  qed
qed

section \<open>What the worker may rely on\<close>

text \<open>
  The contract between the worker and the components behind its interfaces. \<open>settled w e\<close> says that
  the message \<open>mid\<close> needs no more work for the address \<open>e\<close>. No call takes this back; a recorded
  delivery or bounce, a scheduled retry and a recorded exhaustion establish it for the recipients
  they are about; and a transport that reports a partial delivery of a \<open>deliverable\<close> job names every
  recipient that it has not settled itself.
\<close>

definition keeps :: "('w \<Rightarrow> string \<Rightarrow> bool) \<Rightarrow> ('w \<Rightarrow> 'w) \<Rightarrow> bool" where
  "keeps settled f \<longleftrightarrow> (\<forall>w e. settled w e \<longrightarrow> settled (f w) e)"

definition final_status :: "attempt_status \<Rightarrow> bool" where
  "final_status s \<longleftrightarrow> s = AttemptDelivered \<or> s = AttemptBounced"

lemma attemptForRecipient_fields [simp]:
  "at_Recipient (attemptForRecipient q r s c m t d) = Email r"
  "at_Status (attemptForRecipient q r s c m t d) = s"
  "at_MessageID (attemptForRecipient q r s c m t d) = qm_MessageID q"
  by (simp_all add: attemptForRecipient_def Let_def)

lemma attemptsForRecipients_has:
  "r \<in> set rs \<Longrightarrow> \<exists>a\<in>set (attemptsForRecipients now q rs s c t d).
     at_Recipient a = Email r \<and> at_Status a = s \<and> at_MessageID a = qm_MessageID q"
  by (auto simp: attemptsForRecipients_def Let_def)

lemma failed_attempts_has:
  "(r, err) \<in> set fs \<Longrightarrow> \<exists>a\<in>set (failed_attempts status j fs t).
     at_Recipient a = Email r \<and> at_Status a = status err \<and> at_MessageID a = qm_MessageID (jb_queued j)"
  by (force simp: failed_attempts_def)

lemma recipients_of_subset_job:
  assumes "r \<in> set rs" and "NormalizeAddress parse (Email r) = Inr (Email r)"
  shows "Email r \<in> Email ` set (qm_Recipients parse (queuedMessageForRecipients parse q rs))"
proof -
  have "Email r \<in> set (normalized_emails parse rs)"
    using assms by (auto simp: normalized_emails_def intro!: bexI [of _ r])
  then have "Email r \<in> set (map Email (recipients_from parse {} rs))"
    by (simp only: recipients_from_emails set_dedup_from) simp
  then show ?thesis by (simp add: qm_Recipients_def queuedMessageForRecipients_def)
qed

locale delivery_ports =
  fixes h :: "'w handler" and parse :: addr_parser and mid :: string
    and settled :: "'w \<Rightarrow> string \<Rightarrow> bool" and deliverable :: "job \<Rightarrow> bool"
  assumes deliverable_sub: "deliverable j \<Longrightarrow> set rs \<subseteq> set (job_Recipients parse j) \<Longrightarrow> deliverable (job_for parse j rs)"
    and keep_transport: "h_transport h = Some f \<Longrightarrow> keeps settled (snd \<circ> f j)"
    and keep_record: "keeps settled (snd \<circ> h_RecordAttempt h a)"
    and keep_bulk: "h_RecordAttempts h = Some b \<Longrightarrow> keeps settled (snd \<circ> b as)"
    and keep_retry: "h_retry h = Some s \<Longrightarrow> keeps settled (snd \<circ> s j c)"
    and keep_metrics: "keeps settled (h_metrics h ev)"
    and keep_acquire: "h_throttler h = Some t \<Longrightarrow> keeps settled (snd \<circ> th_Acquire t j)"
    and keep_release: "h_throttler h = Some t \<Longrightarrow> keeps settled (th_release t j)"
    and keep_allow: "h_rateLimiter h = Some al \<Longrightarrow> keeps settled (snd \<circ> al j)"
    and keep_check: "h_backoff h = Some bo \<Longrightarrow> keeps settled (snd \<circ> bi_Check bo j)"
    and keep_backoff: "h_backoff h = Some bo \<Longrightarrow> keeps settled (bi_Observe bo j rs c)"
    and keep_hook: "h_exhaustionHook h = Some k \<Longrightarrow> keeps settled (snd \<circ> k q c)"
    and keep_resolve: "h_localResolver h = Some rv \<Longrightarrow> keeps settled (snd \<circ> rv a')"
    and keep_deliver: "h_localDeliverer h = Some dl \<Longrightarrow> keeps settled (snd \<circ> dl j r mb)"
    and record_settles: "fst (h_RecordAttempt h a w) = None \<Longrightarrow> at_MessageID a = mid \<Longrightarrow>
      final_status (at_Status a) \<Longrightarrow> settled (snd (h_RecordAttempt h a w)) (at_Recipient a)"
    and bulk_settles: "h_RecordAttempts h = Some b \<Longrightarrow> fst (b as w) = None \<Longrightarrow> a \<in> set as \<Longrightarrow>
      at_MessageID a = mid \<Longrightarrow> final_status (at_Status a) \<Longrightarrow> settled (snd (b as w)) (at_Recipient a)"
    and retry_settles: "h_retry h = Some s \<Longrightarrow> fst (s j c w) = None \<Longrightarrow>
      qm_MessageID (jb_queued j) = mid \<Longrightarrow> r \<in> set (job_Recipients parse j) \<Longrightarrow>
      settled (snd (s j c w)) (Email r)"
    and hook_settles: "h_exhaustionHook h = Some k \<Longrightarrow> fst (k q c w) = None \<Longrightarrow>
      qm_MessageID q = mid \<Longrightarrow> r \<in> set (qm_Recipients parse q) \<Longrightarrow> settled (snd (k q c w)) (Email r)"
    and retry_configured: "h_retry h \<noteq> None"
    and hook_configured: "h_exhaustionHook h \<noteq> None"
    and partial_names_all: "h_transport h = Some f \<Longrightarrow> deliverable j \<Longrightarrow> fst (f j w) = Some err \<Longrightarrow>
      as_partial err = Some (ds, fs) \<Longrightarrow> r \<in> set (job_Recipients parse j) \<Longrightarrow>
      r \<in> set ds \<union> fst ` set fs \<or> settled (snd (f j w)) (Email r)"
begin

lemma keep_world_call:
  "keeps settled (snd \<circ> f) \<Longrightarrow> world_call f st = (r, st') \<Longrightarrow> settled (hs_world st) e \<Longrightarrow> settled (hs_world st') e"
  by (auto simp: keeps_def world_call_def)

lemma keep_observe: "settled (hs_world st) e \<Longrightarrow> settled (hs_world (observe h ev st)) e"
  using keep_metrics by (simp add: observe_def keeps_def)

lemma world_note_call [simp]: "hs_world (note_call ev st) = hs_world st"
  by (simp add: note_call_def)

lemma keep_observe_backoff: "settled (hs_world st) e \<Longrightarrow> settled (hs_world (observe_backoff h j rs c st)) e"
  using keep_backoff by (auto simp: observe_backoff_def keeps_def split: option.splits)

lemma keep_record_each:
  "record_each h as st = (r, st') \<Longrightarrow> settled (hs_world st) e \<Longrightarrow> settled (hs_world st') e"
proof (induction as arbitrary: st)
  case (Cons a as)
  then show ?case using keep_world_call [OF keep_record]
    by (auto split: prod.splits option.splits)
qed simp

lemma keep_batch:
  "recordAttemptBatch h as st = (r, st') \<Longrightarrow> settled (hs_world st) e \<Longrightarrow> settled (hs_world st') e"
  by (auto simp: recordAttemptBatch_def dest: keep_record_each keep_world_call [OF keep_bulk]
      split: if_splits option.splits)

lemma record_each_settles:
  "record_each h as st = (None, st') \<Longrightarrow> a \<in> set as \<Longrightarrow> at_MessageID a = mid \<Longrightarrow>
   final_status (at_Status a) \<Longrightarrow> settled (hs_world st') (at_Recipient a)"
proof (induction as arbitrary: st)
  case (Cons b as)
  obtain x st1 where w: "world_call (h_RecordAttempt h b) st = (x, st1)"
    by (cases "world_call (h_RecordAttempt h b) st")
  with Cons.prems(1) have x: "x = None" and rest: "record_each h as st1 = (None, st')"
    by (auto split: option.splits)
  show ?case
  proof (cases "a \<in> set as")
    case True
    with Cons.IH rest Cons.prems show ?thesis by blast
  next
    case False
    then have "settled (hs_world st1) (at_Recipient a)"
      using Cons.prems w x record_settles [of a "hs_world st"] by (auto simp: world_call_def)
    then show ?thesis using keep_record_each [OF rest] by blast
  qed
qed simp

lemma batch_settles:
  "recordAttemptBatch h as st = (None, st') \<Longrightarrow> a \<in> set as \<Longrightarrow> at_MessageID a = mid \<Longrightarrow>
   final_status (at_Status a) \<Longrightarrow> settled (hs_world st') (at_Recipient a)"
  by (auto simp: recordAttemptBatch_def world_call_def dest: record_each_settles bulk_settles
      split: if_splits option.splits)

lemma keep_recordAttempts:
  "recordAttempts h parse j s c st = (r, st') \<Longrightarrow> settled (hs_world st) e \<Longrightarrow> settled (hs_world st') e"
  unfolding recordAttempts_def
  by (cases "recordAttemptBatch h (attemptsFor parse (now_of h st) j s c (now_of h st)) st")
     (auto dest: keep_batch)

lemma recordAttempts_settles:
  assumes "recordAttempts h parse j s c st = (None, st')" and "final_status s"
    and "qm_MessageID (jb_queued j) = mid" and "r \<in> set (job_Recipients parse j)"
  shows "settled (hs_world st') (Email r)"
proof -
  let ?as = "attemptsFor parse (now_of h st) j s c (now_of h st)"
  have batch: "recordAttemptBatch h ?as st = (None, st')"
    using assms(1) unfolding recordAttempts_def
    by (cases "recordAttemptBatch h ?as st") (auto simp: wrap_err_def)
  obtain a where "a \<in> set ?as" "at_Recipient a = Email r" "at_Status a = s" "at_MessageID a = mid"
    unfolding attemptsFor_def using attemptsForRecipients_has [OF assms(4)] assms(3) by metis
  then show ?thesis using batch_settles [OF batch] assms(2) by metis
qed

lemma keep_split:
  "record_split h t1 t2 s j ds fs st = (r, st') \<Longrightarrow> settled (hs_world st) e \<Longrightarrow> settled (hs_world st') e"
  by (auto simp: record_split_def Let_def map_prod_def dest!: keep_batch split: prod.splits option.splits)

lemma split_settles:
  assumes "record_split h t1 t2 s j ds fs st = (None, st')" and "qm_MessageID (jb_queued j) = mid"
  shows "r \<in> set ds \<Longrightarrow> settled (hs_world st') (Email r)"
    and "(r, err) \<in> set fs \<Longrightarrow> final_status (s err) \<Longrightarrow> settled (hs_world st') (Email r)"
proof -
  define as where "as = attemptsForRecipients (now_of h st) (jb_queued j) ds AttemptDelivered None (now_of h st)
    (dsnRecipientOptionsByAddress (dsn_Recipients (qm_DSN (jb_queued j))))"
  define bs where "bs = failed_attempts s j fs (now_of h st)"
  obtain st1 where b1: "recordAttemptBatch h as st = (None, st1)" and b2: "recordAttemptBatch h bs st1 = (None, st')"
    using assms(1) unfolding record_split_def Let_def as_def [symmetric] bs_def [symmetric]
    by (auto simp: wrap_err_def map_prod_def split: prod.splits option.splits)
  show "settled (hs_world st') (Email r)" if r: "r \<in> set ds"
  proof -
    obtain a where "a \<in> set as" "at_Recipient a = Email r" "at_Status a = AttemptDelivered" "at_MessageID a = mid"
      unfolding as_def using attemptsForRecipients_has [OF r] assms(2) by metis
    then have "settled (hs_world st1) (Email r)" using batch_settles [OF b1] by (metis final_status_def)
    then show ?thesis using keep_batch [OF b2] by blast
  qed
  show "settled (hs_world st') (Email r)" if r: "(r, err) \<in> set fs" and f: "final_status (s err)"
  proof -
    obtain a where "a \<in> set bs" "at_Recipient a = Email r" "at_Status a = s err" "at_MessageID a = mid"
      unfolding bs_def using failed_attempts_has [OF r] assms(2) by metis
    then show ?thesis using batch_settles [OF b2] f by metis
  qed
qed

lemma keep_local_loop:
  assumes "h_localResolver h = Some rv" and "h_localDeliverer h = Some dl"
    and "local_loop h rv dl j rs acc st = (x, st')" and "settled (hs_world st) e"
  shows "settled (hs_world st') e"
  using assms(3,4)
proof (induction rs arbitrary: acc st)
  case (Cons r rs)
  obtain rem del bou where acc: "acc = (rem, del, bou)" by (cases acc)
  obtain y st1 where w: "world_call (rv (Email r)) st = (y, st1)" by (cases "world_call (rv (Email r)) st")
  have k1: "settled (hs_world st1) e" using keep_world_call [OF keep_resolve [OF assms(1)] w] Cons.prems(2) by blast
  have k2: "settled (hs_world st2) e" if "world_call (dl j r mb) st1 = (z, st2)" for mb z st2
    using keep_world_call [OF keep_deliver [OF assms(2)] that] k1 by blast
  from k1 Cons.prems(1) w acc Cons.IH show ?case
    by (auto split: sum.splits if_splits prod.splits option.splits dest: k2)
qed auto

lemma local_settles:
  assumes run: "deliverLocalRecipients h parse j st = (Inr remote, st')" and mid: "qm_MessageID (jb_queued j) = mid"
    and r: "r \<in> set (job_Recipients parse j)" "r \<notin> set remote"
  shows "settled (hs_world st') (Email r)"
proof -
  obtain rv dl where p: "h_localResolver h = Some rv" "h_localDeliverer h = Some dl"
    using run r by (auto simp: deliverLocalRecipients_def split: option.splits)
  obtain del bou st1 where l: "local_loop h rv dl j (job_Recipients parse j) ([], [], []) st = (Inr (remote, del, bou), st1)"
    and s: "record_split h ''record local delivered attempt'' ''record local bounced attempt''
       (\<lambda>_. AttemptBounced) j del bou st1 = (None, st')"
    using run p by (auto simp: deliverLocalRecipients_def split: prod.splits sum.splits option.splits)
  have "r \<in> set del \<or> (\<exists>err. (r, err) \<in> set bou)" using local_loop_split [OF l] r by auto
  then show ?thesis using split_settles [OF s mid] by (auto simp: final_status_def)
qed

lemma after_schedule_settles:
  assumes run: "after_schedule h parse retry j q err st = (None, st')" and retry: "h_retry h = Some retry"
    and mid: "qm_MessageID (jb_queued j) = mid" "qm_MessageID q = mid"
    and r: "r \<in> set (job_Recipients parse j)" and all: "Email r \<in> Email ` set (qm_Recipients parse q)"
  shows "settled (hs_world st') (Email r)"
proof -
  obtain x st1 where w: "world_call (retry j err) st = (x, st1)" by (cases "world_call (retry j err) st")
  show ?thesis
  proof (cases x)
    case None
    with w have "settled (hs_world st1) (Email r)"
      using retry_settles [OF retry, of j err "hs_world st" r] mid r by (auto simp: world_call_def)
    with run w None show ?thesis
      using keep_observe by (auto simp: after_schedule_def schedule_def)
  next
    case (Some e)
    obtain hook where hook: "h_exhaustionHook h = Some hook" using hook_configured by auto
    obtain st2 st3 where st2: "world_call (hook q e) st2 = (None, st3)" "hs_world st' = hs_world st3"
      using run w Some hook
      by (auto simp: after_schedule_def schedule_def notifyExhausted_def split: if_splits prod.splits)
    obtain r' where r': "r' \<in> set (qm_Recipients parse q)" "Email r' = Email r" using all by force
    show ?thesis using hook_settles [OF hook _ mid(2) r'(1), of e "hs_world st2"] st2 r'(2)
      by (auto simp: world_call_def)
  qed
qed

lemma gate_refused_settles:
  assumes run: "gate_refused h parse stage j q err st = (None, st')"
    and mid: "qm_MessageID (jb_queued j) = mid" "qm_MessageID q = mid"
    and r: "r \<in> set (job_Recipients parse j)" "set (job_Recipients parse j) \<subseteq> set (qm_Recipients parse q)"
  shows "settled (hs_world st') (Email r)"
proof -
  obtain retry where retry: "h_retry h = Some retry" using retry_configured by auto
  then show ?thesis
    using run after_schedule_settles [OF _ retry mid r(1)] r by (auto simp: gate_refused_def Let_def)
qed

lemma keep_after_schedule:
  assumes "after_schedule h parse retry j q err st = (r, st')" and retry: "h_retry h = Some retry"
    and s: "settled (hs_world st) e"
  shows "settled (hs_world st') e"
proof -
  obtain x st1 where w: "world_call (retry j err) st = (x, st1)" by (cases "world_call (retry j err) st")
  have k: "settled (hs_world st1) e" using keep_world_call [OF keep_retry [OF retry] w s] .
  obtain hook where hook: "h_exhaustionHook h = Some hook" using hook_configured by auto
  have hk: "settled (hs_world st3) e" if "world_call (hook q c) st2 = (y, st3)" "settled (hs_world st2) e" for c st2 y st3
    using keep_world_call [OF keep_hook [OF hook] that] .
  from assms(1) w hook k show ?thesis
    by (auto simp: after_schedule_def schedule_def notifyExhausted_def
        intro: keep_observe dest!: hk split: option.splits if_splits prod.splits)
qed

lemma keep_gate_refused:
  "gate_refused h parse stage j q err st = (r, st') \<Longrightarrow> settled (hs_world st) e \<Longrightarrow> settled (hs_world st') e"
  by (auto simp: gate_refused_def Let_def intro: keep_observe dest: keep_after_schedule split: option.splits)

lemma delivery_failed_keeps_settles:
  assumes run: "delivery_failed h parse j q err st = (x, st')"
  shows keep_failed: "settled (hs_world st) e \<Longrightarrow> settled (hs_world st') e"
    and "x = None \<Longrightarrow> qm_MessageID (jb_queued j) = mid \<Longrightarrow> qm_MessageID q = mid \<Longrightarrow>
      r \<in> set (job_Recipients parse j) \<Longrightarrow> set (job_Recipients parse j) \<subseteq> set (qm_Recipients parse q) \<Longrightarrow>
      settled (hs_world st') (Email r)"
proof -
  obtain retry where retry: "h_retry h = Some retry" using retry_configured by auto
  define s where "s = (if IsPermanentFailure (Some err) then AttemptBounced else AttemptFailed)"
  define ev where "ev = metricEvent parse q TransportFailed
    (if IsPermanentFailure (Some err) then MetricBounced else MetricFailed) (Some err)"
  have run1: "(x, st') = (case recordAttempts h parse j s (Some err) (observe h ev st) of
       (Some e, st2) \<Rightarrow> (Some e, st2)
     | (None, st2) \<Rightarrow> if IsPermanentFailure (Some err) then (None, st2)
         else after_schedule h parse retry j q err (observe_backoff h j (job_Recipients parse j) err st2))"
    using run unfolding delivery_failed_def Let_def s_def ev_def retry by (simp only: option.case)
  obtain y st2 where rec: "recordAttempts h parse j s (Some err) (observe h ev st) = (y, st2)"
    by (cases "recordAttempts h parse j s (Some err) (observe h ev st)")
  show "settled (hs_world st') e" if "settled (hs_world st) e"
  proof -
    have k2: "settled (hs_world st2) e" using keep_recordAttempts [OF rec] keep_observe [OF that] by blast
    show ?thesis
    proof (cases "y = None \<and> \<not> IsPermanentFailure (Some err)")
      case True
      then have "after_schedule h parse retry j q err (observe_backoff h j (job_Recipients parse j) err st2) = (x, st')"
        using run1 rec by simp
      from keep_after_schedule [OF this retry keep_observe_backoff [OF k2]] show ?thesis .
    next
      case False
      then have "st' = st2" using run1 rec by (auto split: option.splits)
      with k2 show ?thesis by simp
    qed
  qed
  show "settled (hs_world st') (Email r)"
    if x: "x = None" and mid: "qm_MessageID (jb_queued j) = mid" "qm_MessageID q = mid"
      and r: "r \<in> set (job_Recipients parse j)" "set (job_Recipients parse j) \<subseteq> set (qm_Recipients parse q)"
  proof (cases "IsPermanentFailure (Some err)")
    case True
    then have "y = None" "st' = st2" using run1 rec x by (auto split: option.splits)
    with True rec have "recordAttempts h parse j AttemptBounced (Some err) (observe h ev st) = (None, st')"
      by (simp add: s_def)
    from recordAttempts_settles [OF this _ mid(1) r(1)] show ?thesis by (simp add: final_status_def)
  next
    case False
    then have "after_schedule h parse retry j q err (observe_backoff h j (job_Recipients parse j) err st2) = (None, st')"
      using run1 rec x by (auto split: option.splits)
    from after_schedule_settles [OF this retry mid r(1)] r show ?thesis by auto
  qed
qed

lemma delivery_partial_keeps_settles:
  assumes run: "delivery_partial h parse j q err ds fs st = (x, st')"
  shows keep_partial: "settled (hs_world st) e \<Longrightarrow> settled (hs_world st') e"
    and "x = None \<Longrightarrow> qm_MessageID (jb_queued j) = mid \<Longrightarrow> r \<in> set ds \<union> fst ` set fs \<Longrightarrow>
      NormalizeAddress parse (Email r) = Inr (Email r) \<Longrightarrow> settled (hs_world st') (Email r)"
proof -
  obtain retry where retry: "h_retry h = Some retry" using retry_configured by auto
  define ts where "ts = TemporaryFailures fs"
  define rj where "rj = job_for parse j ts"
  obtain y st1 where rec: "recordPartialAttempts h j ds fs st = (y, st1)"
    by (cases "recordPartialAttempts h j ds fs st")
  define ev where "ev = metricEvent parse q TransportFailed
    (if ts \<noteq> [] then MetricDeferred else MetricBounced) (Some err)"
  have run1: "(x, st') = (if y \<noteq> None then (y, st1)
      else if ts = [] then (None, observe h ev st1)
      else after_schedule h parse retry rj (jb_queued rj) err (observe_backoff h rj ts err (observe h ev st1)))"
    using run rec retry unfolding delivery_partial_def Let_def ts_def rj_def ev_def by (cases y) auto
  have k1: "settled (hs_world st1) e" if "settled (hs_world st) e" for e
    using keep_split that rec unfolding recordPartialAttempts_def by blast
  have k2: "settled (hs_world st') e" if s1: "settled (hs_world st1) e" for e
  proof (cases "y \<noteq> None \<or> ts = []")
    case True
    then show ?thesis using run1 s1 keep_observe [OF s1] by (auto split: if_splits)
  next
    case False
    then have "after_schedule h parse retry rj (jb_queued rj) err
        (observe_backoff h rj ts err (observe h ev st1)) = (x, st')" using run1 by simp
    from keep_after_schedule [OF this retry] show ?thesis
      using keep_observe_backoff keep_observe s1 by blast
  qed
  show "settled (hs_world st') e" if "settled (hs_world st) e" using k1 k2 that by blast
  show "settled (hs_world st') (Email r)"
    if x: "x = None" and mid: "qm_MessageID (jb_queued j) = mid" and r: "r \<in> set ds \<union> fst ` set fs"
      and n: "NormalizeAddress parse (Email r) = Inr (Email r)"
  proof -
    have y: "y = None" using run1 x by (auto split: if_splits)
    have sp: "record_split h ''record partial delivered attempt'' ''record partial failed attempt''
       partial_status j ds fs st = (None, st1)" using rec y by (simp add: recordPartialAttempts_def)
    consider "r \<in> set ds" | err' where "(r, err') \<in> set fs" "IsPermanentFailure err'"
      | err' where "(r, err') \<in> set fs" "\<not> IsPermanentFailure err'" using r by auto blast
    then show ?thesis
    proof cases
      case 1
      then show ?thesis using split_settles(1) [OF sp mid] k2 by blast
    next
      case 2
      then have "settled (hs_world st1) (Email r)"
        using split_settles(2) [OF sp mid] by (auto simp: partial_status_def final_status_def)
      then show ?thesis by (rule k2)
    next
      case 3
      then have t: "r \<in> set ts" by (force simp: ts_def TemporaryFailures_def)
      then have "after_schedule h parse retry rj (jb_queued rj) err
        (observe_backoff h rj ts err (observe h ev st1)) = (None, st')" using run1 x y by auto
      then show ?thesis
        by (rule after_schedule_settles [OF _ retry])
           (use mid t n recipients_of_subset_job [OF t n, of "jb_queued j"] in
             \<open>auto simp: rj_def, simp_all add: job_for_def\<close>)
    qed
  qed
qed

lemma transport_job_keeps_settles:
  assumes run: "transport_job h parse deliver j q st = (x, st')" and tr: "h_transport h = Some deliver"
  shows keep_transport_job: "settled (hs_world st) e \<Longrightarrow> settled (hs_world st') e"
    and "x = None \<Longrightarrow> qm_MessageID (jb_queued j) = mid \<Longrightarrow> qm_MessageID q = mid \<Longrightarrow>
      r \<in> set (job_Recipients parse j) \<Longrightarrow> set (job_Recipients parse j) \<subseteq> set (qm_Recipients parse q) \<Longrightarrow>
      deliverable j \<Longrightarrow> NormalizeAddress parse (Email r) = Inr (Email r) \<Longrightarrow> settled (hs_world st') (Email r)"
proof -
  obtain y st0 where w: "world_call (deliver j) st = (y, st0)" by (cases "world_call (deliver j) st")
  define st1 where "st1 = note_call (FxTransport j y) st0"
  have k0: "settled (hs_world st1) e" if "settled (hs_world st) e" for e
    using keep_world_call [OF keep_transport [OF tr] w that] by (simp add: st1_def)
  define ev where "ev = metricEvent parse q TransportDelivered MetricOK None"
  have "(x, st') = (case y of None \<Rightarrow> recordAttempts h parse j AttemptDelivered None (observe h ev st1)
      | Some err \<Rightarrow> (case as_partial err of
           Some (ds, fs) \<Rightarrow> delivery_partial h parse j q err ds fs st1
         | None \<Rightarrow> delivery_failed h parse j q err st1))"
    using run unfolding transport_job_def Let_def w prod.case st1_def ev_def by simp
  then consider (ok) "y = None" "recordAttempts h parse j AttemptDelivered None (observe h ev st1) = (x, st')"
    | (partial) err ds fs where "y = Some err" "as_partial err = Some (ds, fs)"
        "delivery_partial h parse j q err ds fs st1 = (x, st')"
    | (failed) err where "y = Some err" "delivery_failed h parse j q err st1 = (x, st')"
    by (auto split: option.splits)
  note cases = this
  show "settled (hs_world st') e" if "settled (hs_world st) e"
    using cases
  proof cases
    case ok
    then show ?thesis using keep_recordAttempts keep_observe k0 [OF that] by blast
  next
    case partial
    then show ?thesis using keep_partial k0 [OF that] by blast
  next
    case failed
    then show ?thesis using keep_failed k0 [OF that] by blast
  qed
  show "settled (hs_world st') (Email r)"
    if x: "x = None" and mid: "qm_MessageID (jb_queued j) = mid" "qm_MessageID q = mid"
      and r: "r \<in> set (job_Recipients parse j)" "set (job_Recipients parse j) \<subseteq> set (qm_Recipients parse q)"
      and d: "deliverable j" and n: "NormalizeAddress parse (Email r) = Inr (Email r)"
    using cases
  proof cases
    case ok
    then show ?thesis using recordAttempts_settles [OF _ _ mid(1) r(1)] x by (auto simp: final_status_def)
  next
    case (partial err ds fs)
    have "fst (deliver j (hs_world st)) = Some err" "snd (deliver j (hs_world st)) = hs_world st1"
      using w partial(1) by (auto simp: world_call_def st1_def)
    then have "r \<in> set ds \<union> fst ` set fs \<or> settled (hs_world st1) (Email r)"
      using partial_names_all [OF tr d _ partial(2)] r(1) by metis
    then show ?thesis
      using delivery_partial_keeps_settles(2) [OF partial(3) x mid(1) _ n] keep_partial [OF partial(3)] by blast
  next
    case failed
    then show ?thesis using delivery_failed_keeps_settles(2) [OF _ x mid r] by blast
  qed
qed

lemma throttle_gate_keeps_settles:
  assumes run: "throttle_gate h parse deliver j q st = (x, st')" and tr: "h_transport h = Some deliver"
  shows keep_throttle_gate: "settled (hs_world st) e \<Longrightarrow> settled (hs_world st') e"
    and "x = None \<Longrightarrow> qm_MessageID (jb_queued j) = mid \<Longrightarrow> qm_MessageID q = mid \<Longrightarrow>
      r \<in> set (job_Recipients parse j) \<Longrightarrow> set (job_Recipients parse j) \<subseteq> set (qm_Recipients parse q) \<Longrightarrow>
      deliverable j \<Longrightarrow> NormalizeAddress parse (Email r) = Inr (Email r) \<Longrightarrow> settled (hs_world st') (Email r)"
proof -
  consider (none) "transport_job h parse deliver j q st = (x, st')"
    | (refused) t err st1 where "h_throttler h = Some t" "world_call (th_Acquire t j) st = (Some err, st1)"
        "gate_refused h parse Throttled j q err st1 = (x, st')"
    | (granted) t st1 st2 where "h_throttler h = Some t" "world_call (th_Acquire t j) st = (None, st1)"
        "transport_job h parse deliver j q (note_call (FxAcquired j) st1) = (x, st2)"
        "hs_world st' = th_release t j (hs_world st2)"
    using run unfolding throttle_gate_def by (auto split: option.splits prod.splits)
  note cases = this
  show "settled (hs_world st') e" if s: "settled (hs_world st) e"
    using cases
  proof cases
    case none
    then show ?thesis using keep_transport_job [OF _ tr] s by blast
  next
    case refused
    then show ?thesis using keep_gate_refused keep_world_call [OF keep_acquire] s by blast
  next
    case granted
    have "settled (hs_world (note_call (FxAcquired j) st1)) e"
      using keep_world_call [OF keep_acquire [OF granted(1)] granted(2) s] by simp
    then have "settled (hs_world st2) e" using keep_transport_job [OF granted(3) tr] by blast
    then show ?thesis using keep_release [OF granted(1)] granted(4) by (simp add: keeps_def)
  qed
  show "settled (hs_world st') (Email r)"
    if a: "x = None" "qm_MessageID (jb_queued j) = mid" "qm_MessageID q = mid"
      "r \<in> set (job_Recipients parse j)" "set (job_Recipients parse j) \<subseteq> set (qm_Recipients parse q)"
      "deliverable j" "NormalizeAddress parse (Email r) = Inr (Email r)"
    using cases
  proof cases
    case none
    then show ?thesis using transport_job_keeps_settles(2) [OF _ tr] a by blast
  next
    case refused
    then show ?thesis using gate_refused_settles a by blast
  next
    case granted
    then have "settled (hs_world st2) (Email r)" using transport_job_keeps_settles(2) [OF _ tr] a by blast
    then show ?thesis using keep_release [OF granted(1)] granted(4) by (simp add: keeps_def)
  qed
qed

lemma rate_gate_keeps_settles:
  assumes run: "rate_gate h parse deliver j q st = (x, st')" and tr: "h_transport h = Some deliver"
  shows keep_rate_gate: "settled (hs_world st) e \<Longrightarrow> settled (hs_world st') e"
    and "x = None \<Longrightarrow> qm_MessageID (jb_queued j) = mid \<Longrightarrow> qm_MessageID q = mid \<Longrightarrow>
      r \<in> set (job_Recipients parse j) \<Longrightarrow> set (job_Recipients parse j) \<subseteq> set (qm_Recipients parse q) \<Longrightarrow>
      deliverable j \<Longrightarrow> NormalizeAddress parse (Email r) = Inr (Email r) \<Longrightarrow> settled (hs_world st') (Email r)"
proof -
  consider (none) "throttle_gate h parse deliver j q st = (x, st')"
    | (refused) g err st1 where "h_rateLimiter h = Some g" "world_call (g j) st = (Some err, st1)"
        "gate_refused h parse RateLimited j q err st1 = (x, st')"
    | (granted) g st1 where "h_rateLimiter h = Some g" "world_call (g j) st = (None, st1)"
        "throttle_gate h parse deliver j q st1 = (x, st')"
    using run unfolding rate_gate_def by (auto split: option.splits prod.splits)
  note cases = this
  show "settled (hs_world st') e" if s: "settled (hs_world st) e"
    using cases
  proof cases
    case none
    then show ?thesis using keep_throttle_gate [OF _ tr] s by blast
  next
    case refused
    then show ?thesis using keep_gate_refused keep_world_call [OF keep_allow] s by blast
  next
    case granted
    then show ?thesis using keep_throttle_gate [OF _ tr] keep_world_call [OF keep_allow] s by blast
  qed
  show "settled (hs_world st') (Email r)"
    if a: "x = None" "qm_MessageID (jb_queued j) = mid" "qm_MessageID q = mid"
      "r \<in> set (job_Recipients parse j)" "set (job_Recipients parse j) \<subseteq> set (qm_Recipients parse q)"
      "deliverable j" "NormalizeAddress parse (Email r) = Inr (Email r)"
    using cases
  proof cases
    case none
    then show ?thesis using throttle_gate_keeps_settles(2) [OF _ tr] a by blast
  next
    case refused
    then show ?thesis using gate_refused_settles a by blast
  next
    case granted
    then show ?thesis using throttle_gate_keeps_settles(2) [OF _ tr] a by blast
  qed
qed

lemma backoff_gate_keeps_settles:
  assumes run: "backoff_gate h parse deliver j q st = (x, st')" and tr: "h_transport h = Some deliver"
  shows keep_backoff_gate: "settled (hs_world st) e \<Longrightarrow> settled (hs_world st') e"
    and "x = None \<Longrightarrow> qm_MessageID (jb_queued j) = mid \<Longrightarrow> qm_MessageID q = mid \<Longrightarrow>
      r \<in> set (job_Recipients parse j) \<Longrightarrow> set (job_Recipients parse j) \<subseteq> set (qm_Recipients parse q) \<Longrightarrow>
      deliverable j \<Longrightarrow> NormalizeAddress parse (Email r) = Inr (Email r) \<Longrightarrow> settled (hs_world st') (Email r)"
proof -
  consider (none) "rate_gate h parse deliver j q st = (x, st')"
    | (refused) g err st1 where "h_backoff h = Some g" "world_call (bi_Check g j) st = (Some err, st1)"
        "gate_refused h parse DomainBackoffStage j q err st1 = (x, st')"
    | (granted) g st1 where "h_backoff h = Some g" "world_call (bi_Check g j) st = (None, st1)"
        "rate_gate h parse deliver j q st1 = (x, st')"
    using run unfolding backoff_gate_def by (auto split: option.splits prod.splits)
  note cases = this
  show "settled (hs_world st') e" if s: "settled (hs_world st) e"
    using cases
  proof cases
    case none
    then show ?thesis using keep_rate_gate [OF _ tr] s by blast
  next
    case refused
    then show ?thesis using keep_gate_refused keep_world_call [OF keep_check] s by blast
  next
    case granted
    then show ?thesis using keep_rate_gate [OF _ tr] keep_world_call [OF keep_check] s by blast
  qed
  show "settled (hs_world st') (Email r)"
    if a: "x = None" "qm_MessageID (jb_queued j) = mid" "qm_MessageID q = mid"
      "r \<in> set (job_Recipients parse j)" "set (job_Recipients parse j) \<subseteq> set (qm_Recipients parse q)"
      "deliverable j" "NormalizeAddress parse (Email r) = Inr (Email r)"
    using cases
  proof cases
    case none
    then show ?thesis using rate_gate_keeps_settles(2) [OF _ tr] a by blast
  next
    case refused
    then show ?thesis using gate_refused_settles a by blast
  next
    case granted
    then show ?thesis using rate_gate_keeps_settles(2) [OF _ tr] a by blast
  qed
qed

lemma every_recipient_settled:
  assumes run: "HandleEvent h parse unmarshal payload st = (None, st')"
    and q: "DecodeQueuedMessage parse (unmarshal payload) = Inr q" and mid: "qm_MessageID q = mid"
    and r: "r \<in> set (qm_Recipients parse q)" and n: "NormalizeAddress parse (Email r) = Inr (Email r)"
    and d: "deliverable (queued_job parse q payload)"
  shows "settled (hs_world st') (Email r)"
  using run
proof (cases rule: HandleEvent_cases)
  case (decoded deliver q' st0)
  then have q': "q' = q" using q by simp
  have mj: "qm_MessageID (jb_queued (queued_job parse q payload)) = mid" using mid by simp
  have rj: "r \<in> set (job_Recipients parse (queued_job parse q payload))" using r by simp
  from decoded(4) show ?thesis unfolding q'
  proof (cases rule: handle_queued_cases)
    case (local_only st1 ev)
    then show ?thesis using local_settles [OF local_only(1) mj rj] keep_observe by simp
  next
    case (remote remote st1 j)
    have dj: "deliverable j"
      using remote(6) d deliverable_sub [OF d] deliverLocal_subset [OF remote(1)] by auto
    show ?thesis
    proof (cases "r \<in> set remote")
      case True
      then show ?thesis
        using backoff_gate_keeps_settles(2) [OF remote(2) decoded(2) refl _ mid _ remote(5) dj n] remote(3,4) mid by auto
    next
      case False
      then show ?thesis
        using local_settles [OF remote(1) mj rj] keep_backoff_gate [OF remote(2) decoded(2)] by blast
    qed
  qed simp_all
qed simp

end

end
