(* ===== verification/MtaSts.thy ===== *)
theory MtaSts
  imports GoBase
begin

text \<open>
  MTA-STS policies (\<open>internal/mtasts/mtasts.go\<close>): parsing, matching of mail exchangers, and the
  policy cache. The DNS lookup, the HTTPS fetch, the JSON decoder and the clock are parameters;
  the state is the cache.
\<close>

section \<open>Policies\<close>

record policy =
  pol_Version :: string
  pol_Mode :: string
  pol_MaxAge :: int
  pol_MXHosts :: "string list"
  pol_Fetched :: int
  pol_Expires :: int \<comment> \<open>0 is the zero time\<close>

definition IsExpired :: "int \<Rightarrow> policy \<Rightarrow> bool" where
  "IsExpired now p \<longleftrightarrow> pol_Expires p < now"

definition matchPattern :: "string \<Rightarrow> string \<Rightarrow> bool" where
  "matchPattern pattern hostname =
     (if \<not> go_Contains pattern ''*'' then go_EqualFold pattern hostname
      else if prefix ''*.'' pattern then
        let sfx = drop 2 pattern in
        if go_EqualFold sfx hostname then False
        else suffix (''.'' @ go_ToLower sfx) (go_ToLower hostname)
      else False)"

definition MatchesMX :: "policy \<Rightarrow> string \<Rightarrow> bool" where
  "MatchesMX p hostname = list_ex (\<lambda>pattern. matchPattern pattern hostname) (pol_MXHosts p)"

text \<open>The decoded JSON object of a policy.\<close>

record raw_policy =
  rw_Version :: string
  rw_Mode :: string
  rw_MaxAge :: int
  rw_MX :: "string list"

definition ParsePolicy :: "(string \<Rightarrow> raw_policy res) \<Rightarrow> string \<Rightarrow> policy res" where
  "ParsePolicy decode policyText =
     (case decode policyText of
        Inl e \<Rightarrow> Inl e
      | Inr raw \<Rightarrow>
          if rw_Version raw = [] \<or> rw_Mode raw = [] then Inl ''missing version or mode''
          else if rw_Mode raw \<noteq> ''enforce'' \<and> rw_Mode raw \<noteq> ''testing'' \<and> rw_Mode raw \<noteq> ''none''
            then Inl (''invalid mode: '' @ rw_Mode raw)
          else if rw_MaxAge raw < 0 \<or> 31536000 < rw_MaxAge raw
            then Inl (''invalid max_age: '' @ go_Itoa (rw_MaxAge raw))
          else if rw_MX raw = [] \<and> rw_Mode raw \<noteq> ''none''
            then Inl (''mode '' @ rw_Mode raw @ '' requires mx list'')
          else Inr \<lparr>pol_Version = rw_Version raw, pol_Mode = rw_Mode raw, pol_MaxAge = rw_MaxAge raw,
                    pol_MXHosts = rw_MX raw, pol_Fetched = 0, pol_Expires = 0\<rparr>)"

section \<open>Fetching\<close>

text \<open>The first version tag of the TXT records.\<close>

fun version_in_parts :: "string list \<Rightarrow> string option" where
  "version_in_parts [] = None"
| "version_in_parts (p # ps) =
     (let part = go_TrimSpace p in
      if prefix ''v='' part then Some (go_TrimPrefix part ''v='') else version_in_parts ps)"

definition checkDNSTXT :: "(string \<Rightarrow> string list res) \<Rightarrow> string \<Rightarrow> string res" where
  "checkDNSTXT lookupTXT domain =
     (case lookupTXT (''_mta-sts.'' @ domain) of
        Inl e \<Rightarrow> Inl (''dns lookup: '' @ e)
      | Inr txts \<Rightarrow>
          (case first_some (\<lambda>txt. version_in_parts (go_Split1 (CHR '';'') txt)) txts of
             Some v \<Rightarrow> Inr v
           | None \<Rightarrow> Inl ''no version in TXT record''))"

text \<open>What the client asks of the network, at one moment.\<close>

record sts_net =
  sts_lookupTXT :: "string \<Rightarrow> string list res"
  sts_fetchHTTPS :: "string \<Rightarrow> string res"
  sts_decode :: "string \<Rightarrow> raw_policy res"
  sts_now :: int

definition fetchPolicy :: "sts_net \<Rightarrow> string \<Rightarrow> policy res" where
  "fetchPolicy N domain =
     (case checkDNSTXT (sts_lookupTXT N) domain of
        Inl _ \<Rightarrow> Inr \<lparr>pol_Version = [], pol_Mode = ''none'', pol_MaxAge = 0, pol_MXHosts = [],
                      pol_Fetched = sts_now N, pol_Expires = 0\<rparr>
      | Inr version \<Rightarrow>
        (case sts_fetchHTTPS N domain of
           Inl e \<Rightarrow> Inl (''fetch policy: '' @ e)
         | Inr policyText \<Rightarrow>
           (case ParsePolicy (sts_decode N) policyText of
              Inl e \<Rightarrow> Inl (''parse policy: '' @ e)
            | Inr p \<Rightarrow>
                if pol_Version p \<noteq> version
                then Inl (''policy version mismatch: DNS='' @ version @ '', policy='' @ pol_Version p)
                else Inr (p\<lparr>pol_Fetched := sts_now N,
                            pol_Expires := sts_now N + pol_MaxAge p * 1000000000\<rparr>))))"

type_synonym policy_cache = "string \<rightharpoonup> policy"

definition GetPolicy :: "sts_net \<Rightarrow> string \<Rightarrow> policy_cache \<Rightarrow> policy res \<times> policy_cache" where
  "GetPolicy N domain cache =
     (case cache domain of
        Some p \<Rightarrow>
          if \<not> IsExpired (sts_now N) p then (Inr p, cache)
          else (case fetchPolicy N domain of
                  Inl e \<Rightarrow> (Inl e, cache)
                | Inr q \<Rightarrow> (Inr q, cache(domain \<mapsto> q)))
      | None \<Rightarrow>
          (case fetchPolicy N domain of
             Inl e \<Rightarrow> (Inl e, cache)
           | Inr q \<Rightarrow> (Inr q, cache(domain \<mapsto> q))))"

text \<open>\<open>checkMTASTSPolicy\<close> of the transport: the error for a host the policy does not list.\<close>

definition checkMTASTSPolicy :: "sts_net \<Rightarrow> string \<Rightarrow> string \<Rightarrow> policy_cache \<Rightarrow> string option \<times> policy_cache" where
  "checkMTASTSPolicy N domain host cache =
     (case GetPolicy N domain cache of
        (Inl _, cache') \<Rightarrow> (None, cache')
      | (Inr p, cache') \<Rightarrow>
          if pol_Mode p = ''none'' then (None, cache')
          else if \<not> MatchesMX p host \<and> pol_Mode p = ''enforce''
          then (Some (''host '' @ host @ '' not in MTA-STS policy for '' @ domain), cache')
          else (None, cache'))"

section \<open>Facts\<close>

text \<open>A wildcard covers the proper sub-domains of its suffix.\<close>

lemma matchPattern_wildcard:
  assumes "\<not> go_EqualFold d host"
  shows "matchPattern (''*.'' @ d) host \<longleftrightarrow> suffix (''.'' @ go_ToLower d) (go_ToLower host)"
proof -
  have "go_Contains (''*.'' @ d) ''*''" by (simp add: go_Contains_def)
  then show ?thesis using assms by (simp add: matchPattern_def Let_def)
qed

lemma fetchPolicy_fresh:
  assumes "fetchPolicy N domain = Inr p" and "pol_Mode p \<noteq> ''none''"
  shows "pol_Expires p = sts_now N + pol_MaxAge p * 1000000000 \<and> 0 \<le> pol_MaxAge p \<and>
         pol_MaxAge p \<le> 31536000 \<and> pol_MXHosts p \<noteq> [] \<and> pol_Mode p \<in> {''enforce'', ''testing''}"
  using assms
  by (auto simp: fetchPolicy_def ParsePolicy_def split: sum.splits if_splits)

text \<open>
  A cached policy binds deliveries for as long as it is valid. If a policy in force mode was
  obtained at some moment, then at every moment until it expires (\<open>max_age\<close> seconds after it was
  fetched, at most a year) the check refuses exactly the hosts that none of its patterns matches, whatever DNS and the policy
  host answer in the meantime, and the cached policy stays as it is.
\<close>

theorem enforced_policy_binds:
  assumes got: "GetPolicy N domain cache = (Inr p, cache')" and enforce: "pol_Mode p = ''enforce''"
    and valid: "sts_now N' \<le> pol_Expires p"
  shows "checkMTASTSPolicy N' domain host cache' =
    (if list_ex (\<lambda>pattern. matchPattern pattern host) (pol_MXHosts p) then None
     else Some (''host '' @ host @ '' not in MTA-STS policy for '' @ domain), cache')"
proof -
  have "cache' domain = Some p"
    using got by (auto simp: GetPolicy_def split: option.splits sum.splits if_splits)
  then have "GetPolicy N' domain cache' = (Inr p, cache')"
    using valid by (simp add: GetPolicy_def IsExpired_def)
  then show ?thesis using enforce by (simp add: checkMTASTSPolicy_def MatchesMX_def)
qed

definition sample_sts :: sts_net where
  "sample_sts = \<lparr>sts_lookupTXT = (\<lambda>_. Inr [''v=STSv1; id=1'']), sts_fetchHTTPS = (\<lambda>_. Inr []),
     sts_decode = (\<lambda>_. Inr \<lparr>rw_Version = ''STSv1'', rw_Mode = ''enforce'', rw_MaxAge = 60, rw_MX = [''*.x.org'']\<rparr>),
     sts_now = 5\<rparr>"

theorem enforced_policy_binds_witness:
  "\<exists>cache'. fst (checkMTASTSPolicy (sample_sts\<lparr>sts_now := 6, sts_lookupTXT := \<lambda>_. Inl ''down''\<rparr>) ''x.org'' ''evil.org'' cache') \<noteq> None
     \<and> fst (checkMTASTSPolicy (sample_sts\<lparr>sts_now := 6\<rparr>) ''x.org'' ''MX1.x.org'' cache') = None"
proof -
  define q where "q = \<lparr>pol_Version = ''STSv1'', pol_Mode = ''enforce'', pol_MaxAge = 60,
    pol_MXHosts = [''*.x.org''], pol_Fetched = 5, pol_Expires = 60000000005\<rparr>"
  have "fetchPolicy sample_sts ''x.org'' = Inr q" unfolding q_def by code_simp
  then have g: "GetPolicy sample_sts ''x.org'' Map.empty = (Inr q, [''x.org'' \<mapsto> q])"
    by (simp add: GetPolicy_def)
  have m: "\<not> matchPattern ''*.x.org'' ''evil.org''" "matchPattern ''*.x.org'' ''MX1.x.org''" by code_simp+
  have "fst (checkMTASTSPolicy (sample_sts\<lparr>sts_now := 6, sts_lookupTXT := \<lambda>_. Inl ''down''\<rparr>) ''x.org'' ''evil.org'' [''x.org'' \<mapsto> q]) \<noteq> None"
    using m(1) by (subst enforced_policy_binds [OF g]) (simp_all add: q_def sample_sts_def)
  moreover have "fst (checkMTASTSPolicy (sample_sts\<lparr>sts_now := 6\<rparr>) ''x.org'' ''MX1.x.org'' [''x.org'' \<mapsto> q]) = None"
    using m(2) by (subst enforced_policy_binds [OF g]) (simp_all add: q_def sample_sts_def)
  ultimately show ?thesis by blast
qed

end
