(* ===== verification/DeliveryTransport.thy ===== *)
theory DeliveryTransport
  imports DeliveryHandler MtaSts "HOL-Library.Product_Lexorder"
begin

text \<open>
  The SMTP transport (\<open>internal/delivery/smtp_transport.go\<close>, \<open>route.go\<close>): batches per domain, routes,
  mail exchangers, the SMTP transaction with its pipelined recipients, and the connection pool it
  uses. The network is the record \<open>smtp_net\<close>: each of its operations is a function on the world
  \<open>'x\<close> and may fail with any error. A connection is a number. \<open>ts_closed\<close> is a history of
  the connections the transport closed, and \<open>ts_unsent\<close> one of the RCPT commands that it did not get onto the
  wire, because of a line break or a failed write; no definition reads them. Contexts and deadlines are not
  modelled.
\<close>

section \<open>Routes\<close>

type_synonym tls_mode = string

definition DeliveryTLSOpportunistic :: tls_mode where "DeliveryTLSOpportunistic = ''opportunistic''"
definition DeliveryTLSRequire :: tls_mode where "DeliveryTLSRequire = ''require''"
definition DeliveryTLSDisable :: tls_mode where "DeliveryTLSDisable = ''disable''"

lemmas tls_modes = DeliveryTLSOpportunistic_def DeliveryTLSRequire_def DeliveryTLSDisable_def

definition normalizeDeliveryTLSMode :: "tls_mode \<Rightarrow> tls_mode" where
  "normalizeDeliveryTLSMode mode =
     (let m = go_ToLower (go_TrimSpace mode) in
      if m = DeliveryTLSRequire then DeliveryTLSRequire
      else if m = DeliveryTLSDisable then DeliveryTLSDisable else DeliveryTLSOpportunistic)"

record route_auth =
  ra_Identity :: string
  ra_Username :: string
  ra_Password :: string

record route =
  rt_Farm :: farm
  rt_Domain :: string
  rt_Hosts :: "string list"
  rt_Port :: int
  rt_Hello :: string
  rt_TLSMode :: tls_mode
  rt_ImplicitTLS :: bool
  rt_PoolName :: string
  rt_Auth :: route_auth

definition StaticRoute :: "route \<Rightarrow> string \<Rightarrow> route" where
  "StaticRoute cfg domain = (if go_TrimSpace (rt_Domain cfg) = [] then cfg\<lparr>rt_Domain := domain\<rparr> else cfg)"

definition host_empty :: "string \<Rightarrow> bool" where
  "host_empty h \<longleftrightarrow> h = [] \<or> h = ''.''"

definition valid_port :: "int \<Rightarrow> bool" where
  "valid_port p \<longleftrightarrow> 0 < p \<and> p \<le> 65535"

definition splitRouteHostPort :: "string \<Rightarrow> (string \<times> int) option" where
  "splitRouteHostPort v =
     (case net_SplitHostPort v of
        None \<Rightarrow> None
      | Some (host0, portValue) \<Rightarrow>
          (case go_Atoi portValue of
             None \<Rightarrow> None
           | Some port \<Rightarrow>
               if \<not> valid_port port then None
               else let host = go_ToLower (go_Trim (go_TrimSuffix (go_TrimSpace host0) ''.'') ''[]'') in
                 if host_empty host then None else Some (host, port)))"

definition splitBareRouteHostPort :: "string \<Rightarrow> (string \<times> int) option" where
  "splitBareRouteHostPort v =
     (if length (filter (\<lambda>c. c = CHR '':'') v) \<noteq> 1 then None
      else (case go_Cut '':'' v of
              None \<Rightarrow> None
            | Some (host0, portValue) \<Rightarrow>
                let host = go_ToLower (go_TrimSuffix (go_TrimSpace host0) ''.'') in
                if host_empty host \<or> go_ContainsAny host ''[]'' then None
                else (case go_Atoi (go_TrimSpace portValue) of
                        None \<Rightarrow> Some (host, 0)
                      | Some port \<Rightarrow> if valid_port port then Some (host, port) else Some (host, 0))))"

fun route_hosts_loop :: "string set \<Rightarrow> int \<Rightarrow> string list \<Rightarrow> string list \<times> int" where
  "route_hosts_loop seen detected [] = ([], detected)"
| "route_hosts_loop seen detected (h # hs) =
     (let host = go_ToLower (go_TrimSuffix (go_TrimSpace h) ''.'') in
      if host_empty host then route_hosts_loop seen detected hs
      else let (host, detected) =
             (case splitRouteHostPort host of
                Some (h', p) \<Rightarrow> (h', if detected \<le> 0 then p else detected)
              | None \<Rightarrow>
                  (case splitBareRouteHostPort host of
                     Some (h', p) \<Rightarrow> (h', if 0 < p \<and> detected \<le> 0 then p else detected)
                   | None \<Rightarrow> (go_Trim host ''[]'', detected)))
           in if host \<in> seen then route_hosts_loop seen detected hs
              else let (out, d) = route_hosts_loop (insert host seen) detected hs in (host # out, d))"

definition normalizeRouteHostsAndPort :: "string list \<Rightarrow> string list \<times> int" where
  "normalizeRouteHostsAndPort hosts = route_hosts_loop {} 0 hosts"

text \<open>The function filters in place (\<open>out := hosts[:0]\<close>): this is what the caller's slice holds
  afterwards.\<close>

definition hosts_after_normalize :: "string list \<Rightarrow> string list" where
  "hosts_after_normalize hosts =
     (let out = fst (normalizeRouteHostsAndPort hosts) in out @ drop (length out) hosts)"

definition normalizeRoutePort :: "int \<Rightarrow> int" where
  "normalizeRoutePort p = (if valid_port p then p else 25)"

definition normalizeRouteAuth :: "route_auth \<Rightarrow> route_auth" where
  "normalizeRouteAuth a = \<lparr>ra_Identity = go_TrimSpace (ra_Identity a),
     ra_Username = go_TrimSpace (ra_Username a), ra_Password = go_TrimSpace (ra_Password a)\<rparr>"

definition routeRequiresAuth :: "route \<Rightarrow> bool" where
  "routeRequiresAuth r \<longleftrightarrow> go_TrimSpace (ra_Username (rt_Auth r)) \<noteq> []"

definition normalizeRoute :: "job \<Rightarrow> string \<Rightarrow> route \<Rightarrow> route" where
  "normalizeRoute j domain0 r =
     (let domain = go_ToLower (go_TrimSpace domain0);
          (hosts, hostPort) = normalizeRouteHostsAndPort (rt_Hosts r);
          port = (if valid_port (rt_Port r) then rt_Port r else hostPort)
      in r\<lparr>rt_Farm := (if rt_Farm r = [] then qm_Farm (jb_queued j) else rt_Farm r),
           rt_Domain := (if go_TrimSpace (rt_Domain r) = [] then domain
                         else go_ToLower (go_TrimSpace (rt_Domain r))),
           rt_Hosts := hosts,
           rt_Port := (if valid_port port then port else 25),
           rt_Hello := go_TrimSpace (rt_Hello r),
           rt_TLSMode := normalizeDeliveryTLSMode (rt_TLSMode r),
           rt_PoolName := go_TrimSpace (rt_PoolName r),
           rt_Auth := normalizeRouteAuth (rt_Auth r)\<rparr>)"

section \<open>Batches\<close>

record recipient_batch =
  rb_Domain :: string
  rb_Recipients :: "address list"

definition normalizedRecipientDomain :: "string \<Rightarrow> string" where
  "normalizedRecipientDomain addr =
     (case go_Cut ''@'' (go_TrimSpace addr) of
        None \<Rightarrow> []
      | Some (_, domain) \<Rightarrow>
          if domain = [] then [] else go_ToLower (go_TrimSuffix (go_TrimSpace domain) ''.''))"

text \<open>The batches of one domain after one more recipient.\<close>

definition add_to_batches :: "int \<Rightarrow> address \<Rightarrow> address list list \<Rightarrow> address list list" where
  "add_to_batches limit r bs =
     (if bs \<noteq> [] \<and> (limit \<le> 0 \<or> int (length (last bs)) < limit)
      then butlast bs @ [last bs @ [r]] else bs @ [[r]])"

fun plan_loop :: "int \<Rightarrow> address list \<Rightarrow> string list \<times> (string \<rightharpoonup> address list list) \<Rightarrow>
    string list \<times> (string \<rightharpoonup> address list list)" where
  "plan_loop limit [] acc = acc"
| "plan_loop limit (r # rs) (domains, byDomain) =
     (let domain = normalizedRecipientDomain (Email r) in
      if domain = [] then plan_loop limit rs (domains, byDomain)
      else plan_loop limit rs
             (if byDomain domain = None then domains @ [domain] else domains,
              byDomain(domain \<mapsto> add_to_batches limit r
                (case byDomain domain of None \<Rightarrow> [] | Some bs \<Rightarrow> bs))))"

definition PlanRecipientBatchesWithLimit :: "address list \<Rightarrow> int \<Rightarrow> recipient_batch list" where
  "PlanRecipientBatchesWithLimit rs limit =
     (let (domains, byDomain) = plan_loop limit rs ([], Map.empty) in
      concat (map (\<lambda>d. map (\<lambda>b. \<lparr>rb_Domain = d, rb_Recipients = b\<rparr>)
                (case byDomain d of None \<Rightarrow> [] | Some bs \<Rightarrow> bs)) domains))"

section \<open>Mail exchangers\<close>

record mx_record =
  mx_Host :: string
  mx_Pref :: nat

definition isNullMX :: "mx_record option list \<Rightarrow> bool" where
  "isNullMX records \<longleftrightarrow>
     (case records of [Some r] \<Rightarrow> mx_Pref r = 0 \<and> go_TrimSpace (mx_Host r) = ''.'' | _ \<Rightarrow> False)"

definition mx_host_name :: "string \<Rightarrow> string" where
  "mx_host_name h = go_ToLower (go_TrimSpace (go_TrimSuffix h ''.''))"

text \<open>\<open>sort.Slice\<close> with an order in which two different records are never tied.\<close>

definition orderedMXHosts :: "mx_record option list \<Rightarrow> string list" where
  "orderedMXHosts records =
     (let ordered = sort_key (\<lambda>r. (mx_Pref r, mx_Host r)) (concat (map (\<lambda>r. case r of None \<Rightarrow> [] | Some x \<Rightarrow> [x]) records))
      in dedup_first (filter (\<lambda>h. \<not> host_empty h) (map (\<lambda>r. mx_host_name (mx_Host r)) ordered)))"

datatype dns_error = DnsTemporary string | DnsOther string

definition mxHosts :: "(string \<Rightarrow> 'x \<Rightarrow> (dns_error + mx_record option list) \<times> 'x) \<Rightarrow> string \<Rightarrow> 'x \<Rightarrow>
    (derr + string list) \<times> 'x" where
  "mxHosts lookupMX domain x =
     (case lookupMX domain x of
        (Inl (DnsTemporary e), x') \<Rightarrow>
          (Inl (ErrSMTP ''mx'' 451 (''temporary MX lookup failure for '' @ domain) (Some (ErrText e))), x')
      | (Inl (DnsOther e), x') \<Rightarrow> (Inr [domain], x')
      | (Inr records, x') \<Rightarrow>
          if records = [] then (Inr [domain], x')
          else if isNullMX records then
            (Inl (ErrSMTP ''mx'' 556
                   (''domain '' @ domain @ '' publishes null MX and does not accept mail'') None), x')
          else let hosts = orderedMXHosts records in (Inr (if hosts = [] then [domain] else hosts), x'))"

section \<open>The network and the state of the transport\<close>

text \<open>An error of the network or the mail store: an opaque text, or a reply with another code than
  expected.\<close>

datatype net_error = NetText string | NetReply int string

fun net_err :: "net_error \<Rightarrow> derr" where
  "net_err (NetText t) = ErrText t"
| "net_err (NetReply code msg) = ErrTextproto code msg"

record 'x smtp_net =
  sn_now :: "'x \<Rightarrow> int"
  sn_lookupMX :: "string \<Rightarrow> 'x \<Rightarrow> (dns_error + mx_record option list) \<times> 'x"
  sn_sts :: "'x \<Rightarrow> sts_net" \<comment> \<open>DNS, HTTPS and clock of the policy client\<close>
  sn_dial :: "string \<Rightarrow> int \<Rightarrow> bool \<Rightarrow> 'x \<Rightarrow> (net_error + nat) \<times> 'x"
  sn_greeting :: "nat \<Rightarrow> 'x \<Rightarrow> net_error option \<times> 'x" \<comment> \<open>smtp.NewClient\<close>
  sn_hello :: "nat \<Rightarrow> string \<Rightarrow> 'x \<Rightarrow> net_error option \<times> 'x"
  sn_ext :: "nat \<Rightarrow> string \<Rightarrow> 'x \<Rightarrow> bool"
  sn_startTLS :: "nat \<Rightarrow> string \<Rightarrow> 'x \<Rightarrow> net_error option \<times> 'x"
  sn_tls :: "nat \<Rightarrow> 'x \<Rightarrow> bool" \<comment> \<open>the connection is encrypted\<close>
  sn_dane :: "string \<Rightarrow> nat \<Rightarrow> 'x \<Rightarrow> (net_error + (bool \<times> bool \<times> string)) \<times> 'x"
  sn_auth :: "nat \<Rightarrow> route_auth \<Rightarrow> string \<Rightarrow> 'x \<Rightarrow> net_error option \<times> 'x"
  sn_cmd :: "nat \<Rightarrow> string \<Rightarrow> 'x \<Rightarrow> net_error option \<times> 'x" \<comment> \<open>write a command line\<close>
  sn_reply :: "nat \<Rightarrow> int \<Rightarrow> 'x \<Rightarrow> net_error option \<times> 'x" \<comment> \<open>read a reply, expecting a code\<close>
  sn_open :: "job \<Rightarrow> 'x \<Rightarrow> net_error option \<times> 'x" \<comment> \<open>open and transform the message\<close>
  sn_copy :: "nat \<Rightarrow> job \<Rightarrow> 'x \<Rightarrow> net_error option \<times> 'x"
  sn_closeMessage :: "job \<Rightarrow> 'x \<Rightarrow> net_error option \<times> 'x"
  sn_closeData :: "nat \<Rightarrow> 'x \<Rightarrow> net_error option \<times> 'x"

datatype 'x router = NoRouter | Static | Custom "job \<Rightarrow> string \<Rightarrow> 'x \<Rightarrow> (net_error + route) \<times> 'x"

record 'x transport =
  tt_Router :: "'x router"
  tt_Hello :: string
  tt_TLSMode :: tls_mode
  tt_MaxRecipientsPerBatch :: int
  tt_mtasts :: bool \<comment> \<open>the policy client is set\<close>
  tt_dane :: bool

text \<open>\<open>ts_static\<close> is the configuration of a static router: its hosts are shared with the routes.\<close>

record 'x tstate =
  ts_x :: 'x
  ts_pool :: conn_pool
  ts_cache :: policy_cache
  ts_static :: route
  ts_closed :: "nat list"
  ts_unsent :: "(nat \<times> string) list"

definition net_call :: "('x \<Rightarrow> 'a \<times> 'x) \<Rightarrow> 'x tstate \<Rightarrow> 'a \<times> 'x tstate" where
  "net_call f st = (fst (f (ts_x st)), st\<lparr>ts_x := snd (f (ts_x st))\<rparr>)"

definition net_try :: "('x \<Rightarrow> net_error option \<times> 'x) \<Rightarrow> 'x tstate \<Rightarrow> derr option \<times> 'x tstate" where
  "net_try f st = map_prod (map_option net_err) id (net_call f st)"

definition close_conn :: "nat \<Rightarrow> 'x tstate \<Rightarrow> 'x tstate" where
  "close_conn c st = st\<lparr>ts_closed := ts_closed st @ [c]\<rparr>"

definition note_unsent :: "nat \<Rightarrow> string \<Rightarrow> 'x tstate \<Rightarrow> 'x tstate" where
  "note_unsent c line st = st\<lparr>ts_unsent := ts_unsent st @ [(c, line)]\<rparr>"

section \<open>SMTP commands\<close>

definition containsNonASCIIByte :: "string \<Rightarrow> bool" where
  "containsNonASCIIByte s = list_ex (\<lambda>c. 127 < byte_val c) s"

definition jobNeedsUTF8 :: "addr_parser \<Rightarrow> job \<Rightarrow> bool" where
  "jobNeedsUTF8 parse j \<longleftrightarrow> containsNonASCIIByte (Email (qm_From (jb_queued j))) \<or>
     list_ex (\<lambda>r. containsNonASCIIByte (Email r)) (job_Recipients parse j)"

definition shouldSendOutboundDSNMailOptions :: "job \<Rightarrow> bool" where
  "shouldSendOutboundDSNMailOptions j \<longleftrightarrow> Email (qm_From (jb_queued j)) \<noteq> [] \<and>
     (dsn_Return (qm_DSN (jb_queued j)) \<noteq> [] \<or> dsn_EnvelopeID (qm_DSN (jb_queued j)) \<noteq> [])"

definition shouldSendOutboundDSNRcptOptions :: "job \<Rightarrow> bool" where
  "shouldSendOutboundDSNRcptOptions j \<longleftrightarrow> Email (qm_From (jb_queued j)) \<noteq> []"

abbreviation CRLF_chars :: string where "CRLF_chars \<equiv> [CHR 0x0D, CHR 0x0A]"

text \<open>\<open>client.Text.Cmd\<close> followed by \<open>ReadResponse\<close>.\<close>

definition text_cmd :: "'x smtp_net \<Rightarrow> nat \<Rightarrow> int \<Rightarrow> string \<Rightarrow> 'x tstate \<Rightarrow> derr option \<times> 'x tstate" where
  "text_cmd N c expectCode line st =
     (case net_try (sn_cmd N c line) st of
        (Some e, st1) \<Rightarrow> (Some e, st1)
      | (None, st1) \<Rightarrow> net_try (sn_reply N c expectCode) st1)"

definition smtpCommand :: "'x smtp_net \<Rightarrow> nat \<Rightarrow> int \<Rightarrow> string \<Rightarrow> 'x tstate \<Rightarrow> derr option \<times> 'x tstate" where
  "smtpCommand N c expectCode line st =
     (if go_ContainsAny line CRLF_chars then (Some (ErrText ''smtp command contains newline''), st)
      else text_cmd N c expectCode line st)"

text \<open>\<open>smtp.Client.Mail\<close> of the standard library.\<close>

definition client_Mail :: "'x smtp_net \<Rightarrow> nat \<Rightarrow> string \<Rightarrow> 'x tstate \<Rightarrow> derr option \<times> 'x tstate" where
  "client_Mail N c from st =
     (if go_ContainsAny from CRLF_chars then (Some (ErrText ''smtp: A line must not contain CR or LF''), st)
      else text_cmd N c 250
        (''MAIL FROM:<'' @ from @ ''>'' @
         (if sn_ext N c ''8BITMIME'' (ts_x st) then '' BODY=8BITMIME'' else []) @
         (if sn_ext N c ''SMTPUTF8'' (ts_x st) then '' SMTPUTF8'' else [])) st)"

definition utf8_required :: derr where
  "utf8_required = ErrSMTP ''mail'' 553 ''5.6.7 SMTPUTF8 required but not advertised'' None"

definition smtpMail :: "'x smtp_net \<Rightarrow> addr_parser \<Rightarrow> nat \<Rightarrow> job \<Rightarrow> 'x tstate \<Rightarrow> derr option \<times> 'x tstate" where
  "smtpMail N parse c j st =
     (let ext = (\<lambda>e. sn_ext N c e (ts_x st)); q = jb_queued j; from = Email (qm_From q) in
      if jobNeedsUTF8 parse j \<and> \<not> ext ''SMTPUTF8'' then (Some utf8_required, st)
      else if \<not> (shouldSendOutboundDSNMailOptions j \<or> jobNeedsUTF8 parse j) then client_Mail N c from st
      else smtpCommand N c 250
        (go_Join ([''MAIL FROM:<'' @ from @ ''>''] @
           (if ext ''8BITMIME'' then [''BODY=8BITMIME''] else []) @
           (if jobNeedsUTF8 parse j \<and> ext ''SMTPUTF8'' then [''SMTPUTF8''] else []) @
           (if shouldSendOutboundDSNMailOptions j \<and> ext ''DSN'' then
              (if dsn_Return (qm_DSN q) \<noteq> [] then [''RET='' @ dsn_Return (qm_DSN q)] else []) @
              (if dsn_EnvelopeID (qm_DSN q) \<noteq> [] then [''ENVID='' @ dsn_EnvelopeID (qm_DSN q)] else [])
            else [])) '' '') st)"

definition dsnRCPTOptionParameters :: "dsn_recipient \<Rightarrow> string list" where
  "dsnRCPTOptionParameters d =
     (if dr_Notify d \<noteq> [] then [''NOTIFY='' @ go_Join (dr_Notify d) '',''] else []) @
     (if dr_OriginalRecipient d \<noteq> [] then [''ORCPT='' @ dr_OriginalRecipient d] else [])"

definition dsnOptionsForRecipient :: "dsn_recipient list \<Rightarrow> string \<Rightarrow> string list" where
  "dsnOptionsForRecipient ds addr =
     (case dsnRecipientOptionsByAddress ds (go_ToLower (go_TrimSpace addr)) of
        None \<Rightarrow> [] | Some d \<Rightarrow> dsnRCPTOptionParameters d)"

definition rcpt_command :: "bool \<Rightarrow> job \<Rightarrow> address \<Rightarrow> string" where
  "rcpt_command sendDSN j r =
     (let options = dsnOptionsForRecipient (dsn_Recipients (qm_DSN (jb_queued j))) (Email r) in
      ''RCPT TO:<'' @ Email r @ ''>'' @ (if sendDSN \<and> options \<noteq> [] then '' '' @ go_Join options '' '' else []))"

text \<open>The three loops of \<open>pipelineRCPTs\<close>: build the commands, write them, read the replies.\<close>

fun pipeline_send :: "'x smtp_net \<Rightarrow> nat \<Rightarrow> string list \<Rightarrow> 'x tstate \<Rightarrow> derr option \<times> 'x tstate" where
  "pipeline_send N c [] st = (None, st)"
| "pipeline_send N c (cmd # cmds) st =
     (if go_ContainsAny cmd CRLF_chars then (Some (ErrText ''smtp command contains newline''), note_unsent c cmd st)
      else case net_try (sn_cmd N c cmd) st of
        (Some e, st1) \<Rightarrow> (WrapSMTPError ''rcpt'' (Some e), note_unsent c cmd st1)
      | (None, st1) \<Rightarrow> pipeline_send N c cmds st1)"

fun pipeline_read :: "'x smtp_net \<Rightarrow> nat \<Rightarrow> address list \<Rightarrow> 'x tstate \<Rightarrow>
    (address list \<times> (address \<times> derr option) list) \<times> 'x tstate" where
  "pipeline_read N c [] st = (([], []), st)"
| "pipeline_read N c (r # rs) st =
     (case net_try (sn_reply N c 250) st of
        (e, st1) \<Rightarrow>
          (case pipeline_read N c rs st1 of
             ((accepted, failures), st2) \<Rightarrow>
               ((case e of
                   Some err \<Rightarrow> (accepted, (r, WrapSMTPError ''rcpt'' (Some err)) # failures)
                 | None \<Rightarrow> (r # accepted, failures)), st2)))"

definition utf8_required_rcpt :: derr where
  "utf8_required_rcpt = ErrSMTP ''rcpt'' 553 ''5.6.7 SMTPUTF8 required but not advertised'' None"

definition pipelineRCPTs :: "'x smtp_net \<Rightarrow> nat \<Rightarrow> job \<Rightarrow> address list \<Rightarrow> 'x tstate \<Rightarrow>
    (address list \<times> (address \<times> derr option) list) \<times> 'x tstate" where
  "pipelineRCPTs N c j rs st =
     (if rs = [] then (([], []), st)
      else let ext = (\<lambda>e. sn_ext N c e (ts_x st));
               sendDSN = (shouldSendOutboundDSNRcptOptions j \<and> ext ''DSN'')
        in case find (\<lambda>r. containsNonASCIIByte (Email r) \<and> \<not> ext ''SMTPUTF8'') rs of
             Some r \<Rightarrow> (([], [(r, Some utf8_required_rcpt)]), st)
           | None \<Rightarrow>
               (case pipeline_send N c (map (rcpt_command sendDSN j) rs) st of
                  (Some e, st1) \<Rightarrow> (([], [(hd rs, Some e)]), st1)
                | (None, st1) \<Rightarrow> pipeline_read N c rs st1))"

definition recipientsRejectedResult :: "(address \<times> derr option) list \<Rightarrow> derr option" where
  "recipientsRejectedResult failures = (if failures = [] then None else Some (ErrPartial [] failures))"

definition dataAcceptedResult :: "address list \<Rightarrow> (address \<times> derr option) list \<Rightarrow> derr option" where
  "dataAcceptedResult accepted failures =
     (if failures \<noteq> [] then Some (ErrPartial accepted failures) else None)"

section \<open>One host\<close>

definition startTLS ::
    "'x smtp_net \<Rightarrow> 'x transport \<Rightarrow> nat \<Rightarrow> string \<Rightarrow> tls_mode \<Rightarrow> 'x tstate \<Rightarrow> derr option \<times> 'x tstate" where
  "startTLS N T c host modeOverride st =
     (let mode = normalizeDeliveryTLSMode (if modeOverride \<noteq> [] then modeOverride else tt_TLSMode T) in
      if mode = DeliveryTLSDisable then (None, st)
      else if \<not> sn_ext N c ''STARTTLS'' (ts_x st) then
        (if mode = DeliveryTLSRequire
         then (Some (ErrText (''STARTTLS is required but not advertised by '' @ host)), st) else (None, st))
      else net_try (sn_startTLS N c host) st)"

definition checkDANEPolicy ::
    "'x smtp_net \<Rightarrow> 'x transport \<Rightarrow> string \<Rightarrow> nat \<Rightarrow> 'x tstate \<Rightarrow> derr option \<times> 'x tstate" where
  "checkDANEPolicy N T host c st =
     (if \<not> tt_dane T \<or> \<not> sn_tls N c (ts_x st) then (None, st)
      else case net_call (sn_dane N host c) st of
        (Inl _, st1) \<Rightarrow> (None, st1)
      | (Inr (present, valid, reason), st1) \<Rightarrow>
          (if present \<and> \<not> valid
           then Some (ErrText (''DANE validation failed for '' @ host @ '': '' @ reason)) else None, st1))"

definition hello_name :: "'x transport \<Rightarrow> route \<Rightarrow> string" where
  "hello_name T r =
     (let hello = (if rt_Hello r \<noteq> [] then rt_Hello r else go_TrimSpace (tt_Hello T)) in
      if hello = [] then ''localhost'' else hello)"

text \<open>\<open>fmt.Errorf("text: %w", err)\<close>\<close>

definition errorf :: "string \<Rightarrow> derr \<Rightarrow> derr option" where
  "errorf text e = Some (ErrWrap (text @ '': '' @ err_Error e) e)"

text \<open>A pool miss: dial, greet, start TLS, check DANE, authenticate.\<close>

definition open_conn ::
    "'x smtp_net \<Rightarrow> 'x transport \<Rightarrow> route \<Rightarrow> string \<Rightarrow> 'x tstate \<Rightarrow> (derr option + nat) \<times> 'x tstate" where
  "open_conn N T r host st0 =
     (case net_call (sn_dial N host (normalizeRoutePort (rt_Port r)) (rt_ImplicitTLS r)) st0 of
        (Inl e, st) \<Rightarrow> (Inl (errorf (''dial mx '' @ host @ '' for '' @ rt_Domain r) (net_err e)), st)
      | (Inr c, st) \<Rightarrow>
     (case net_try (sn_greeting N c) st of
        (Some e, st) \<Rightarrow> (Inl (errorf (''create smtp client for '' @ host) e), close_conn c st)
      | (None, st) \<Rightarrow>
     (case net_try (sn_hello N c (hello_name T r)) st of
        (Some e, st) \<Rightarrow> (Inl (WrapSMTPError ''hello'' (Some e)), close_conn c st)
      | (None, st) \<Rightarrow>
     (case (if rt_ImplicitTLS r then (None, st) else startTLS N T c host (rt_TLSMode r) st) of
        (Some e, st) \<Rightarrow> (Inl (WrapSMTPError ''starttls'' (Some e)), close_conn c st)
      | (None, st) \<Rightarrow>
     (case checkDANEPolicy N T host c st of
        (Some e, st) \<Rightarrow> (Inl (errorf ''dane'' e), close_conn c st)
      | (None, st) \<Rightarrow>
     (case (if routeRequiresAuth r then net_try (sn_auth N c (rt_Auth r) host) st else (None, st)) of
        (Some e, st) \<Rightarrow> (Inl (WrapSMTPError ''auth'' (Some e)), close_conn c st)
      | (None, st) \<Rightarrow> (Inr c, st)))))))"

definition pool_key_for :: "route \<Rightarrow> string \<Rightarrow> smtp_pool_key" where
  "pool_key_for r host =
     \<lparr>pk_Host = host, pk_Port = normalizeRoutePort (rt_Port r), pk_ImplicitTLS = rt_ImplicitTLS r,
      pk_AuthUser = ra_Username (rt_Auth r)\<rparr>"

text \<open>DATA, the message and the final reply.\<close>

definition send_data :: "'x smtp_net \<Rightarrow> nat \<Rightarrow> job \<Rightarrow> 'x tstate \<Rightarrow> derr option \<times> 'x tstate" where
  "send_data N c j st0 =
     (case text_cmd N c 354 ''DATA'' st0 of
        (Some e, st) \<Rightarrow> (WrapSMTPError ''data'' (Some e), st)
      | (None, st) \<Rightarrow>
     (case net_try (sn_open N j) st of
        (Some e, st) \<Rightarrow> (errorf ''open queued message'' e, snd (net_try (sn_closeData N c) st))
      | (None, st) \<Rightarrow>
     (case net_try (sn_copy N c j) st of
        (copyErr, st) \<Rightarrow>
     (case net_try (sn_closeMessage N j) st of
        (closeMessageErr, st) \<Rightarrow>
     (case net_try (sn_closeData N c) st of
        (closeDataErr, st) \<Rightarrow>
          ((case copyErr of Some e \<Rightarrow> errorf ''write smtp data'' e
            | None \<Rightarrow> (case closeMessageErr of Some e \<Rightarrow> errorf ''close queued message'' e
            | None \<Rightarrow> (case closeDataErr of Some e \<Rightarrow> WrapSMTPError ''data'' (Some e) | None \<Rightarrow> None))), st))))))"

definition smtp_transaction ::
    "'x smtp_net \<Rightarrow> addr_parser \<Rightarrow> job \<Rightarrow> smtp_pool_key \<Rightarrow> nat \<Rightarrow> address list \<Rightarrow> 'x tstate \<Rightarrow>
     derr option \<times> 'x tstate" where
  "smtp_transaction N parse j key c rs st0 =
     (case smtpMail N parse c j st0 of
        (Some e, st) \<Rightarrow> (WrapSMTPError ''mail'' (Some e), close_conn c st)
      | (None, st) \<Rightarrow>
     (case pipelineRCPTs N c j rs st of
        ((accepted, failures), st) \<Rightarrow>
          if accepted = [] then (recipientsRejectedResult failures, close_conn c st)
          else
     (case send_data N c j st of
        (Some e, st) \<Rightarrow> (Some e, close_conn c st)
      | (None, st) \<Rightarrow>
          (dataAcceptedResult accepted failures,
           st\<lparr>ts_pool := pool_Put (sn_now N (ts_x st)) key
                (Some \<lparr>pc_id = c, pc_client = True, pc_conn = True, pc_LastUsed = sn_now N (ts_x st)\<rparr>)
                (ts_pool st)\<rparr>))))"

definition check_sts ::
    "'x smtp_net \<Rightarrow> 'x transport \<Rightarrow> string \<Rightarrow> string \<Rightarrow> 'x tstate \<Rightarrow> derr option \<times> 'x tstate" where
  "check_sts N T domain host st =
     (if \<not> tt_mtasts T then (None, st)
      else case checkMTASTSPolicy (sn_sts N (ts_x st)) domain host (ts_cache st) of
             (e, cache) \<Rightarrow> (map_option ErrText e, st\<lparr>ts_cache := cache\<rparr>))"

definition deliverHostDefault ::
    "'x smtp_net \<Rightarrow> 'x transport \<Rightarrow> addr_parser \<Rightarrow> job \<Rightarrow> route \<Rightarrow> string \<Rightarrow> address list \<Rightarrow> 'x tstate \<Rightarrow>
     derr option \<times> 'x tstate" where
  "deliverHostDefault N T parse j r host rs st0 =
     (case check_sts N T (rt_Domain r) host st0 of
        (Some e, st) \<Rightarrow> (errorf ''mta-sts'' e, st)
      | (None, st) \<Rightarrow>
          let key = pool_key_for r host in
          (case pool_Get (sn_now N (ts_x st)) key (ts_pool st) of
             (Some pc, pool) \<Rightarrow> smtp_transaction N parse j key (pc_id pc) rs (st\<lparr>ts_pool := pool\<rparr>)
           | (None, pool) \<Rightarrow>
               (case open_conn N T r host (st\<lparr>ts_pool := pool\<rparr>) of
                  (Inl e, st) \<Rightarrow> (e, st)
                | (Inr c, st) \<Rightarrow> smtp_transaction N parse j key c rs st)))"

section \<open>A domain and a job\<close>

definition transport_route ::
    "'x transport \<Rightarrow> job \<Rightarrow> string \<Rightarrow> 'x tstate \<Rightarrow> (derr + route) \<times> 'x tstate" where
  "transport_route T j domain st =
     (let finish = (\<lambda>r. normalizeRoute j domain
            (if go_TrimSpace (rt_TLSMode r) = [] then r\<lparr>rt_TLSMode := tt_TLSMode T\<rparr> else r))
      in case tt_Router T of
        NoRouter \<Rightarrow>
          (Inr (normalizeRoute j domain
             \<lparr>rt_Farm = [], rt_Domain = [], rt_Hosts = [], rt_Port = 0, rt_Hello = [],
              rt_TLSMode = tt_TLSMode T, rt_ImplicitTLS = False, rt_PoolName = [],
              rt_Auth = \<lparr>ra_Identity = [], ra_Username = [], ra_Password = []\<rparr>\<rparr>), st)
      | Static \<Rightarrow>
          (Inr (finish (StaticRoute (ts_static st) domain)),
           st\<lparr>ts_static := (ts_static st)\<lparr>rt_Hosts := hosts_after_normalize (rt_Hosts (ts_static st))\<rparr>\<rparr>)
      | Custom f \<Rightarrow>
          (case net_call (f j domain) st of
             (Inl e, st1) \<Rightarrow> (Inl (ErrWrap (''route delivery for '' @ domain @ '': '' @ err_Error (net_err e)) (net_err e)), st1)
           | (Inr r, st1) \<Rightarrow> (Inr (finish r), st1)))"

definition all_temporary :: "address list \<Rightarrow> (address \<times> derr option) list \<Rightarrow> bool" where
  "all_temporary ds fs \<longleftrightarrow> ds = [] \<and> fs \<noteq> [] \<and> length (TemporaryFailures fs) = length fs"

fun host_loop ::
    "'x smtp_net \<Rightarrow> 'x transport \<Rightarrow> addr_parser \<Rightarrow> job \<Rightarrow> route \<Rightarrow> address list \<Rightarrow> string list \<Rightarrow> derr list \<Rightarrow>
     'x tstate \<Rightarrow> (derr list + derr option) \<times> 'x tstate" where
  "host_loop N T parse j r rs [] errs st = (Inl errs, st)"
| "host_loop N T parse j r rs (host # hosts) errs st =
     (case deliverHostDefault N T parse j r host rs st of
        (None, st1) \<Rightarrow> (Inr None, st1)
      | (Some err, st1) \<Rightarrow>
          (case as_partial err of
             Some (ds, fs) \<Rightarrow>
               if all_temporary ds fs then host_loop N T parse j r rs hosts (errs @ [err]) st1
               else (Inr (Some err), st1)
           | None \<Rightarrow>
               if IsPermanentFailure (Some err) then (Inr (Some err), st1)
               else host_loop N T parse j r rs hosts (errs @ [err]) st1))"

definition deliverDomain ::
    "'x smtp_net \<Rightarrow> 'x transport \<Rightarrow> addr_parser \<Rightarrow> job \<Rightarrow> string \<Rightarrow> address list \<Rightarrow> 'x tstate \<Rightarrow>
     derr option \<times> 'x tstate" where
  "deliverDomain N T parse j domain rs st =
     (case transport_route T j domain st of
        (Inl e, st1) \<Rightarrow> (Some e, st1)
      | (Inr r, st1) \<Rightarrow>
          (case (if rt_Hosts r = [] then net_call (mxHosts (sn_lookupMX N) domain) st1 else (Inr (rt_Hosts r), st1)) of
             (Inl e, st2) \<Rightarrow> (Some e, st2)
           | (Inr hosts, st2) \<Rightarrow>
               (case host_loop N T parse j (r\<lparr>rt_Hosts := hosts\<rparr>) rs hosts [] st2 of
                  (Inr result, st3) \<Rightarrow> (result, st3)
                | (Inl errs, st3) \<Rightarrow>
                    (Some (ErrWrap (''deliver to '' @ domain @ '' via '' @ go_Itoa (int (length hosts)) @
                             '' mx host(s): '' @ err_Error (ErrJoin errs)) (ErrJoin errs)), st3))))"

fun batch_loop ::
    "'x smtp_net \<Rightarrow> 'x transport \<Rightarrow> addr_parser \<Rightarrow> job \<Rightarrow> recipient_batch list \<Rightarrow>
     address list \<times> (address \<times> derr option) list \<Rightarrow> 'x tstate \<Rightarrow>
     (address list \<times> (address \<times> derr option) list) \<times> 'x tstate" where
  "batch_loop N T parse j [] acc st = (acc, st)"
| "batch_loop N T parse j (b # bs) (delivered, failures) st =
     (case deliverDomain N T parse j (rb_Domain b) (rb_Recipients b) st of
        (None, st1) \<Rightarrow> batch_loop N T parse j bs (delivered @ rb_Recipients b, failures) st1
      | (Some err, st1) \<Rightarrow>
          (case as_partial err of
             Some (ds, fs) \<Rightarrow> batch_loop N T parse j bs (delivered @ ds, failures @ fs) st1
           | None \<Rightarrow> batch_loop N T parse j bs
                       (delivered, failures @ map (\<lambda>r. (r, Some err)) (rb_Recipients b)) st1))"

definition Deliver ::
    "'x smtp_net \<Rightarrow> 'x transport \<Rightarrow> addr_parser \<Rightarrow> job \<Rightarrow> 'x tstate \<Rightarrow> derr option \<times> 'x tstate" where
  "Deliver N T parse j st =
     (let batches = PlanRecipientBatchesWithLimit (job_Recipients parse j) (tt_MaxRecipientsPerBatch T) in
      if batches = [] then (Some (ErrSMTP ''recipient'' 554 ''no deliverable recipients'' None), st)
      else case batch_loop N T parse j batches ([], []) st of
             ((delivered, failures), st1) \<Rightarrow>
               (if failures \<noteq> [] then Some (ErrPartial delivered failures) else None, st1))"

section \<open>Batches partition the recipients\<close>

definition domain_of :: "address \<Rightarrow> string" where
  "domain_of r = normalizedRecipientDomain (Email r)"

definition batches_ok :: "int \<Rightarrow> address list list \<Rightarrow> bool" where
  "batches_ok limit bs \<longleftrightarrow> (\<forall>b\<in>set bs. b \<noteq> [] \<and> (0 < limit \<longrightarrow> int (length b) \<le> limit)) \<and>
     (\<forall>b\<in>set (butlast bs). 0 < limit \<and> int (length b) = limit)"

lemma add_to_batches_concat: "concat (add_to_batches limit r bs) = concat bs @ [r]"
proof (cases "bs = []")
  case False
  have "concat bs = concat (butlast bs) @ last bs"
    using False by (metis append_butlast_last_id concat_append concat.simps append_Nil2)
  then show ?thesis by (simp add: add_to_batches_def)
qed (simp add: add_to_batches_def)

lemma add_to_batches_ok:
  assumes "batches_ok limit bs"
  shows "batches_ok limit (add_to_batches limit r bs)"
proof (cases "bs = []")
  case True
  then show ?thesis by (simp add: add_to_batches_def batches_ok_def)
next
  case False
  then obtain cs b where bs: "bs = cs @ [b]" by (cases bs rule: rev_cases) auto
  have "butlast (cs @ [b, [r]]) = cs @ [b]" by (simp add: butlast_append)
  then show ?thesis using assms unfolding bs by (auto simp: add_to_batches_def batches_ok_def)
qed

text \<open>What the loop has built after the recipients \<open>done\<close>.\<close>

definition plan_inv :: "int \<Rightarrow> address list \<Rightarrow> string list \<times> (string \<rightharpoonup> address list list) \<Rightarrow> bool" where
  "plan_inv limit seen acc \<longleftrightarrow>
     fst acc = dedup_first (filter (\<lambda>d. d \<noteq> []) (map domain_of seen)) \<and>
     dom (snd acc) = set (fst acc) \<and>
     (\<forall>d bs. snd acc d = Some bs \<longrightarrow> batches_ok limit bs \<and> concat bs = filter (\<lambda>r. domain_of r = d) seen)"

lemma dedup_from_snoc: "dedup_from S (xs @ [x]) = dedup_from S xs @ (if x \<in> S \<union> set xs then [] else [x])"
  by (induction S xs rule: dedup_from.induct) auto

lemma plan_loop_inv:
  "plan_inv limit seen acc \<Longrightarrow> plan_inv limit (seen @ rs) (plan_loop limit rs acc)"
proof (induction rs arbitrary: seen acc)
  case (Cons r rs)
  obtain ds m where acc: "acc = (ds, m)" by (cases acc)
  show ?case
  proof (cases "domain_of r = []")
    case True
    have "plan_inv limit (seen @ [r]) acc"
      using Cons.prems True by (auto simp: plan_inv_def)
    from Cons.IH [OF this] True acc show ?thesis by (simp add: domain_of_def)
  next
    case False
    define bs where "bs = (case m (domain_of r) of None \<Rightarrow> [] | Some bs \<Rightarrow> bs)"
    define acc' where "acc' = (if m (domain_of r) = None then ds @ [domain_of r] else ds,
        m(domain_of r \<mapsto> add_to_batches limit r bs))"
    have dm: "dom m = set ds" and ds: "ds = dedup_first (filter (\<lambda>d. d \<noteq> []) (map domain_of seen))"
      and mv: "\<And>d xs. m d = Some xs \<Longrightarrow> batches_ok limit xs \<and> concat xs = filter (\<lambda>r. domain_of r = d) seen"
      using Cons.prems acc by (auto simp: plan_inv_def)
    have bs_ok: "batches_ok limit bs \<and> concat bs = filter (\<lambda>x. domain_of x = domain_of r) seen"
    proof (cases "m (domain_of r)")
      case None
      then have "domain_of r \<notin> set ds" using dm by auto
      then have "domain_of r \<notin> domain_of ` set seen" using ds False by auto
      then have "\<forall>x\<in>set seen. domain_of x \<noteq> domain_of r" by (metis imageI)
      then show ?thesis using None by (simp add: bs_def batches_ok_def filter_empty_conv)
    next
      case (Some xs)
      then show ?thesis using mv by (simp add: bs_def)
    qed
    have "plan_inv limit (seen @ [r]) acc'"
      using bs_ok ds dm mv False add_to_batches_ok [of limit bs r] add_to_batches_concat [of limit r bs]
      by (auto simp: plan_inv_def acc'_def dedup_from_snoc)
    from Cons.IH [OF this] show ?thesis
      using False acc by (simp add: acc'_def bs_def domain_of_def Let_def cong: if_cong)
  qed
qed simp

lemma planned_batches:
  "concat (map rb_Recipients (PlanRecipientBatchesWithLimit rs limit)) =
     concat (map (\<lambda>d. filter (\<lambda>r. domain_of r = d) rs)
       (dedup_first (filter (\<lambda>d. d \<noteq> []) (map domain_of rs)))) \<and>
   list_all (\<lambda>b. rb_Recipients b \<noteq> [] \<and> list_all (\<lambda>r. domain_of r = rb_Domain b) (rb_Recipients b) \<and>
       (limit \<le> 0 \<or> int (length (rb_Recipients b)) \<le> limit)) (PlanRecipientBatchesWithLimit rs limit)"
proof -
  obtain ds m where p: "plan_loop limit rs ([], Map.empty) = (ds, m)"
    by (cases "plan_loop limit rs ([], Map.empty)")
  have "plan_inv limit [] ([], Map.empty)" by (simp add: plan_inv_def)
  from plan_loop_inv [OF this, of rs] p
  have inv: "ds = dedup_first (filter (\<lambda>d. d \<noteq> []) (map domain_of rs))" "dom m = set ds"
    "\<And>d bs. m d = Some bs \<Longrightarrow> batches_ok limit bs \<and> concat bs = filter (\<lambda>r. domain_of r = d) rs"
    by (auto simp: plan_inv_def)
  have plan: "PlanRecipientBatchesWithLimit rs limit =
      concat (map (\<lambda>d. map (\<lambda>b. \<lparr>rb_Domain = d, rb_Recipients = b\<rparr>) (the (m d))) ds)"
    unfolding PlanRecipientBatchesWithLimit_def p Let_def prod.case
    by (rule arg_cong [where f = concat], rule map_cong) (use inv(2) in \<open>auto split: option.splits\<close>)
  have each: "d \<in> set ds \<Longrightarrow> concat (the (m d)) = filter (\<lambda>r. domain_of r = d) rs \<and> batches_ok limit (the (m d))" for d
    using inv(2,3) by (metis domD option.sel)
  have "concat (map rb_Recipients (PlanRecipientBatchesWithLimit rs limit)) =
      concat (map (\<lambda>d. concat (the (m d))) ds)"
    unfolding plan by (induction ds) (simp_all add: comp_def)
  also have "\<dots> = concat (map (\<lambda>d. filter (\<lambda>r. domain_of r = d) rs) ds)"
    using each by (intro arg_cong [where f = concat] map_cong) auto
  finally have 1: "concat (map rb_Recipients (PlanRecipientBatchesWithLimit rs limit)) =
      concat (map (\<lambda>d. filter (\<lambda>r. domain_of r = d) rs) ds)" .
  have "rb_Recipients b \<noteq> [] \<and> list_all (\<lambda>r. domain_of r = rb_Domain b) (rb_Recipients b) \<and>
       (limit \<le> 0 \<or> int (length (rb_Recipients b)) \<le> limit)"
    if b: "b \<in> set (PlanRecipientBatchesWithLimit rs limit)" for b
  proof -
    obtain d xs where d: "d \<in> set ds" "xs \<in> set (the (m d))" "b = \<lparr>rb_Domain = d, rb_Recipients = xs\<rparr>"
      using b unfolding plan by auto
    moreover have "set xs \<subseteq> set (concat (the (m d)))" using d(2) by auto
    ultimately show ?thesis using each [OF d(1)] by (auto simp: batches_ok_def list_all_iff)
  qed
  with 1 show ?thesis using inv(1) by (auto simp: list_all_iff)
qed

text \<open>
  C32. The batches of a job. Their recipients are, domain by domain in the order in which the domains
  first appear, exactly the recipients with that domain, in their order: nobody is put in
  two batches and nobody with a domain is left out. Every batch has one domain and at least one
  recipient, and with a limit no batch is larger than it.
\<close>

theorem batches_partition_recipients:
  "concat (map rb_Recipients (PlanRecipientBatchesWithLimit rs limit)) =
     concat (map (\<lambda>d. filter (\<lambda>r. domain_of r = d) rs)
       (dedup_first (filter (\<lambda>d. d \<noteq> []) (map domain_of rs)))) \<and>
   list_all (\<lambda>b. rb_Recipients b \<noteq> [] \<and> list_all (\<lambda>r. domain_of r = rb_Domain b) (rb_Recipients b) \<and>
       (limit \<le> 0 \<or> int (length (rb_Recipients b)) \<le> limit)) (PlanRecipientBatchesWithLimit rs limit)"
  by (rule planned_batches)

section \<open>Every recipient is accounted for\<close>

named_theorems plain_errors \<open>operations whose errors are not partial deliveries\<close>

lemma as_partial_net_err [simp]: "as_partial (net_err e) = None"
  by (cases e) simp_all

lemma as_partial_WrapSMTPError [simp]:
  "WrapSMTPError op (Some e) = Some e' \<Longrightarrow> as_partial e' = as_partial e"
  by (auto simp: WrapSMTPError_def split: option.splits prod.splits)

lemma WrapSMTPError_Some [simp]: "\<exists>y. WrapSMTPError op (Some e) = Some y"
  by (auto simp: WrapSMTPError_def split: option.splits prod.splits)

lemma WrapSMTPError_not_None [simp]: "WrapSMTPError op (Some e) \<noteq> None"
  using WrapSMTPError_Some [of op e] by auto

lemma as_partial_errorf [simp]: "errorf t e = Some e' \<Longrightarrow> as_partial e' = as_partial e"
  by (auto simp: errorf_def)

lemma errorf_Some [simp]: "\<exists>y. errorf t e = Some y"
  by (simp add: errorf_def)

lemma net_try_plain [plain_errors]: "net_try f st = (Some e, st') \<Longrightarrow> as_partial e = None"
  by (cases "net_call f st") (auto simp: net_try_def)

lemma text_cmd_plain [plain_errors]: "text_cmd N c n l st = (Some e, st') \<Longrightarrow> as_partial e = None"
  by (auto simp: text_cmd_def dest: net_try_plain split: prod.splits option.splits)

lemma smtpCommand_plain [plain_errors]: "smtpCommand N c n l st = (Some e, st') \<Longrightarrow> as_partial e = None"
  by (auto simp: smtpCommand_def dest: text_cmd_plain split: if_splits)

lemma client_Mail_plain [plain_errors]: "client_Mail N c f st = (Some e, st') \<Longrightarrow> as_partial e = None"
  by (auto simp: client_Mail_def dest: text_cmd_plain split: if_splits)

lemma smtpMail_plain [plain_errors]: "smtpMail N parse c j st = (Some e, st') \<Longrightarrow> as_partial e = None"
  by (auto simp: smtpMail_def Let_def utf8_required_def dest: client_Mail_plain smtpCommand_plain split: if_splits)

lemma send_data_plain [plain_errors]: "send_data N c j st = (Some e, st') \<Longrightarrow> as_partial e = None"
  by (auto simp: send_data_def dest: text_cmd_plain net_try_plain split: prod.splits option.splits)

lemma startTLS_plain [plain_errors]: "startTLS N T c h m st = (Some e, st') \<Longrightarrow> as_partial e = None"
  by (auto simp: startTLS_def Let_def dest: net_try_plain split: if_splits)

lemma checkDANEPolicy_plain [plain_errors]: "checkDANEPolicy N T h c st = (Some e, st') \<Longrightarrow> as_partial e = None"
  by (auto simp: checkDANEPolicy_def split: if_splits prod.splits sum.splits)

lemma check_sts_plain [plain_errors]: "check_sts N T d h st = (Some e, st') \<Longrightarrow> as_partial e = None"
  by (auto simp: check_sts_def split: if_splits prod.splits)

lemma open_conn_plain [plain_errors]: "open_conn N T r h st = (Inl (Some e), st') \<Longrightarrow> as_partial e = None"
  by (auto simp: open_conn_def dest: net_try_plain startTLS_plain checkDANEPolicy_plain
      split: prod.splits option.splits sum.splits if_splits)

lemma open_conn_error: "open_conn N T r h st = (Inl x, st') \<Longrightarrow> x \<noteq> None"
  by (auto simp: open_conn_def split: prod.splits option.splits sum.splits if_splits)

text \<open>What a transport relies on: the extensions a server announced do not change by sending commands and
  reading replies (\<open>net/smtp\<close> sets them from the reply to EHLO only).\<close>

definition stable_ext :: "'x smtp_net \<Rightarrow> bool" where
  "stable_ext N \<longleftrightarrow> (\<forall>c e l n x. sn_ext N c e (snd (sn_cmd N c l x)) = sn_ext N c e x \<and>
     sn_ext N c e (snd (sn_reply N c n x)) = sn_ext N c e x)"

lemma net_try_simps [simp]:
  "fst (net_try f st) = map_option net_err (fst (f (ts_x st)))"
  "ts_x (snd (net_try f st)) = snd (f (ts_x st))"
  by (simp_all add: net_try_def net_call_def)

lemma text_cmd_ext:
  assumes "stable_ext N" and "text_cmd N c n l st = (x, st')"
  shows "sn_ext N c e (ts_x st') = sn_ext N c e (ts_x st)"
  using assms
  by (auto simp: text_cmd_def stable_ext_def net_try_def net_call_def split: prod.splits option.splits)

lemma smtpMail_ext:
  assumes "stable_ext N" and "smtpMail N parse c j st = (x, st')"
  shows "sn_ext N c e (ts_x st') = sn_ext N c e (ts_x st)"
  using assms text_cmd_ext [OF assms(1)]
  by (auto simp: smtpMail_def smtpCommand_def client_Mail_def Let_def split: if_splits)

lemma smtpMail_utf8:
  assumes "smtpMail N parse c j st = (None, st')" and "jobNeedsUTF8 parse j"
  shows "sn_ext N c ''SMTPUTF8'' (ts_x st)"
  using assms by (auto simp: smtpMail_def Let_def split: if_splits)

text \<open>Only \<open>pipelineRCPTs\<close> adds to the history of unsent commands.\<close>

named_theorems same_unsent \<open>operations that leave the history of unsent commands alone\<close>

lemma net_call_unsent [same_unsent]: "net_call f st = (r, st') \<Longrightarrow> ts_unsent st' = ts_unsent st"
  by (auto simp: net_call_def)

lemma net_try_unsent [same_unsent]: "net_try f st = (r, st') \<Longrightarrow> ts_unsent st' = ts_unsent st"
  by (auto simp: net_try_def net_call_def)

lemma close_conn_unsent [simp]: "ts_unsent (close_conn c st) = ts_unsent st"
  by (simp add: close_conn_def)

lemma text_cmd_unsent [same_unsent]: "text_cmd N c n l st = (r, st') \<Longrightarrow> ts_unsent st' = ts_unsent st"
  by (auto simp: text_cmd_def dest!: net_try_unsent split: prod.splits option.splits)

lemma smtpMail_unsent [same_unsent]: "smtpMail N parse c j st = (r, st') \<Longrightarrow> ts_unsent st' = ts_unsent st"
  by (auto simp: smtpMail_def client_Mail_def smtpCommand_def Let_def dest: text_cmd_unsent split: if_splits)

lemma send_data_unsent [same_unsent]: "send_data N c j st = (r, st') \<Longrightarrow> ts_unsent st' = ts_unsent st"
  by (auto simp: send_data_def net_try_def net_call_def dest!: text_cmd_unsent split: prod.splits option.splits)

lemma startTLS_unsent [same_unsent]: "startTLS N T c h m st = (r, st') \<Longrightarrow> ts_unsent st' = ts_unsent st"
  by (auto simp: startTLS_def Let_def dest: net_try_unsent split: if_splits)

lemma checkDANEPolicy_unsent [same_unsent]: "checkDANEPolicy N T h c st = (r, st') \<Longrightarrow> ts_unsent st' = ts_unsent st"
  by (auto simp: checkDANEPolicy_def dest!: net_call_unsent split: if_splits prod.splits sum.splits)

lemma check_sts_unsent [same_unsent]: "check_sts N T d h st = (r, st') \<Longrightarrow> ts_unsent st' = ts_unsent st"
  by (auto simp: check_sts_def split: if_splits prod.splits)

lemma open_conn_unsent [same_unsent]: "open_conn N T r h st = (x, st') \<Longrightarrow> ts_unsent st' = ts_unsent st"
  by (auto simp: open_conn_def dest!: same_unsent split: prod.splits option.splits sum.splits if_splits)

lemma transport_route_unsent [same_unsent]: "transport_route T j d st = (x, st') \<Longrightarrow> ts_unsent st' = ts_unsent st"
  by (auto simp: transport_route_def Let_def dest!: net_call_unsent split: router.splits prod.splits sum.splits)

lemma pipeline_read_unsent [same_unsent]: "pipeline_read N c rs st = (r, st') \<Longrightarrow> ts_unsent st' = ts_unsent st"
  by (induction N c rs st arbitrary: r rule: pipeline_read.induct)
     (auto dest!: net_try_unsent split: prod.splits)

lemma pipeline_send_unsent:
  "pipeline_send N c cmds st = (x, st') \<Longrightarrow> x = None \<and> ts_unsent st' = ts_unsent st \<or>
     x \<noteq> None \<and> (\<exists>cmd\<in>set cmds. ts_unsent st' = ts_unsent st @ [(c, cmd)])"
proof (induction cmds arbitrary: st)
  case (Cons cmd cmds)
  obtain y st1 where y: "net_try (sn_cmd N c cmd) st = (y, st1)" by (cases "net_try (sn_cmd N c cmd) st")
  note u = net_try_unsent [OF y]
  show ?case
  proof (cases "go_ContainsAny cmd CRLF_chars \<or> y \<noteq> None")
    case True
    then show ?thesis using Cons.prems y u by (auto simp: note_unsent_def split: if_splits)
  next
    case False
    then have "pipeline_send N c cmds st1 = (x, st')" using Cons.prems y by auto
    from Cons.IH [OF this] show ?thesis unfolding u by auto
  qed
qed simp

text \<open>An RCPT command for the recipient is among the unsent ones.\<close>

definition unsent_rcpt :: "(nat \<times> string) list \<Rightarrow> address \<Rightarrow> bool" where
  "unsent_rcpt l r \<longleftrightarrow> list_ex (\<lambda>(c, line). prefix (''RCPT TO:<'' @ Email r @ ''>'') line) l"

lemma unsent_rcpt_command [simp]: "unsent_rcpt [(c, rcpt_command b j r)] r"
  by (simp add: unsent_rcpt_def rcpt_command_def Let_def)

lemma unsent_rcpt_append [simp]: "unsent_rcpt (l @ l') r \<longleftrightarrow> unsent_rcpt l r \<or> unsent_rcpt l' r"
  by (simp add: unsent_rcpt_def)

lemma unsent_rcpt_Nil [simp]: "\<not> unsent_rcpt [] r"
  by (simp add: unsent_rcpt_def)

text \<open>A list of recipients accounts for another one: it names nobody else, and it names everybody unless an RCPT
  command of one of them was not sent.\<close>

definition named_or_unsent :: "address list \<Rightarrow> (nat \<times> string) list \<Rightarrow> address set \<Rightarrow> bool" where
  "named_or_unsent rs l named \<longleftrightarrow> named \<subseteq> set rs \<and> (set rs \<subseteq> named \<or> (\<exists>r\<in>set rs. unsent_rcpt l r))"

lemma pipeline_read_all:
  "pipeline_read N c rs st = ((acc, fs), st') \<Longrightarrow> set acc \<union> fst ` set fs = set rs"
proof (induction rs arbitrary: st acc fs)
  case (Cons r rs)
  obtain e st1 where e: "net_try (sn_reply N c 250) st = (e, st1)" by (cases "net_try (sn_reply N c 250) st")
  obtain acc' fs' st2 where rest: "pipeline_read N c rs st1 = ((acc', fs'), st2)"
    by (metis prod.exhaust)
  have "set acc' \<union> fst ` set fs' = set rs" using Cons.IH [of st1 acc' fs'] rest Cons.prems e by (auto split: option.splits)
  moreover have "set acc \<union> fst ` set fs = insert r (set acc' \<union> fst ` set fs')"
    using Cons.prems e rest by (cases e) auto
  ultimately show ?case by simp
qed simp

lemma pipelineRCPTs_all:
  assumes "\<forall>r\<in>set rs. containsNonASCIIByte (Email r) \<longrightarrow> sn_ext N c ''SMTPUTF8'' (ts_x st)"
    and run: "pipelineRCPTs N c j rs st = ((acc, fs), st')"
  shows "\<exists>l. ts_unsent st' = ts_unsent st @ l \<and> named_or_unsent rs l (set acc \<union> fst ` set fs)"
proof (cases "rs = []")
  case False
  define b where "b = (shouldSendOutboundDSNRcptOptions j \<and> sn_ext N c ''DSN'' (ts_x st))"
  have f: "find (\<lambda>r. containsNonASCIIByte (Email r) \<and> \<not> sn_ext N c ''SMTPUTF8'' (ts_x st)) rs = None"
    using assms(1) by (auto simp: find_None_iff)
  obtain x st1 where s: "pipeline_send N c (map (rcpt_command b j) rs) st = (x, st1)"
    by (cases "pipeline_send N c (map (rcpt_command b j) rs) st")
  have run1: "((acc, fs), st') = (case x of Some e \<Rightarrow> (([], [(hd rs, Some e)]), st1) | None \<Rightarrow> pipeline_read N c rs st1)"
    using run False f s unfolding pipelineRCPTs_def Let_def b_def by simp
  show ?thesis
  proof (cases x)
    case None
    then have "pipeline_read N c rs st1 = ((acc, fs), st')" using run1 by simp
    then have "set acc \<union> fst ` set fs = set rs" "ts_unsent st' = ts_unsent st1"
      using pipeline_read_all pipeline_read_unsent by blast+
    then show ?thesis using pipeline_send_unsent [OF s] None by (simp add: named_or_unsent_def)
  next
    case (Some e)
    then obtain r where "r \<in> set rs" "ts_unsent st1 = ts_unsent st @ [(c, rcpt_command b j r)]"
      using pipeline_send_unsent [OF s] by auto
    moreover have "acc = []" "fs = [(hd rs, Some e)]" "st' = st1" using run1 Some by simp_all
    moreover have "named_or_unsent rs [(c, rcpt_command b j r)] {hd rs}"
      unfolding named_or_unsent_def by (intro conjI disjI2 bexI [of _ r]) (use False calculation(1) in simp_all)
    ultimately show ?thesis by simp
  qed
qed (use run in \<open>simp add: pipelineRCPTs_def named_or_unsent_def\<close>)

text \<open>A result accounts for the recipients \<open>rs\<close>: if it is a partial delivery, it names them all, unless a command
  of \<open>l\<close> was not sent.\<close>

definition accounts :: "address list \<Rightarrow> (nat \<times> string) list \<Rightarrow> derr option \<Rightarrow> bool" where
  "accounts rs l x \<longleftrightarrow>
     (\<forall>ds fs. Option.bind x as_partial = Some (ds, fs) \<longrightarrow> named_or_unsent rs l (set ds \<union> fst ` set fs))"

definition run_accounts :: "address list \<Rightarrow> 'x tstate \<Rightarrow> derr option \<Rightarrow> 'x tstate \<Rightarrow> bool" where
  "run_accounts rs st x st' \<longleftrightarrow> (\<exists>l. ts_unsent st' = ts_unsent st @ l \<and> accounts rs l x)"

lemma accounts_plain: "as_partial e = None \<Longrightarrow> accounts rs l (Some e)"
  by (simp add: accounts_def)

lemma accounts_None [simp]: "accounts rs l None"
  by (simp add: accounts_def)

lemma accounts_partial: "named_or_unsent rs l (set ds \<union> fst ` set fs) \<Longrightarrow> accounts rs l (Some (ErrPartial ds fs))"
  by (simp add: accounts_def)

lemma accounts_WrapSMTPError: "as_partial e = None \<Longrightarrow> accounts rs l (WrapSMTPError op (Some e))"
  by (auto simp: accounts_def bind_eq_Some_conv)

lemma accounts_errorf: "as_partial e = None \<Longrightarrow> accounts rs l (errorf t e)"
  by (auto simp: accounts_def bind_eq_Some_conv)

lemma accounts_more: "accounts rs l x \<Longrightarrow> accounts rs (l' @ l) x" "accounts rs l x \<Longrightarrow> accounts rs (l @ l') x"
  by (auto simp: accounts_def named_or_unsent_def)

lemma run_accounts_quiet: "ts_unsent st' = ts_unsent st \<Longrightarrow> accounts rs [] x \<Longrightarrow> run_accounts rs st x st'"
  by (simp add: run_accounts_def)

lemma run_accounts_after: "ts_unsent st1 = ts_unsent st \<Longrightarrow> run_accounts rs st1 x st' \<Longrightarrow> run_accounts rs st x st'"
  by (simp add: run_accounts_def)

lemma smtp_transaction_accounts:
  assumes N: "stable_ext N" and j: "set rs \<subseteq> set (job_Recipients parse j)"
    and run: "smtp_transaction N parse j key c rs st = (x, st')"
  shows "run_accounts rs st x st'"
proof -
  obtain m st1 where m: "smtpMail N parse c j st = (m, st1)" by (cases "smtpMail N parse c j st")
  note u1 = smtpMail_unsent [OF m]
  show ?thesis
  proof (cases m)
    case (Some e)
    then have "x = WrapSMTPError ''mail'' (Some e)" "st' = close_conn c st1" using run m by (simp_all add: smtp_transaction_def)
    then show ?thesis using smtpMail_plain [of N parse c j st e st1] m Some accounts_WrapSMTPError u1
      by (auto intro!: run_accounts_quiet)
  next
    case None
    obtain acc fs st2 where p: "pipelineRCPTs N c j rs st1 = ((acc, fs), st2)" by (metis prod.exhaust)
    have "sn_ext N c ''SMTPUTF8'' (ts_x st1)" if "r \<in> set rs" "containsNonASCIIByte (Email r)" for r
    proof -
      have "jobNeedsUTF8 parse j" using that j by (auto simp: jobNeedsUTF8_def list_ex_iff)
      then show ?thesis using smtpMail_utf8 m None smtpMail_ext [OF N m] by blast
    qed
    then obtain l where l: "ts_unsent st2 = ts_unsent st @ l" "named_or_unsent rs l (set acc \<union> fst ` set fs)"
      using pipelineRCPTs_all [OF _ p] u1 by auto
    obtain d st3 where d: "send_data N c j st2 = (d, st3)" by (cases "send_data N c j st2")
    have u: "ts_unsent st' = ts_unsent st @ l" using run m None p d l(1) send_data_unsent [OF d]
      by (auto simp: smtp_transaction_def split: if_splits option.splits)
    have "accounts rs l x"
    proof (cases "acc = [] \<or> d = None")
      case True
      then have "x = None \<or> x = Some (ErrPartial acc fs)" using run m None p d
        by (auto simp: smtp_transaction_def recipientsRejectedResult_def dataAcceptedResult_def split: if_splits)
      then show ?thesis using accounts_partial [OF l(2)] by auto
    next
      case False
      then obtain e where e: "d = Some e" by auto
      then show ?thesis using run m None p d False send_data_plain [of N c j st2 e st3]
        by (auto simp: smtp_transaction_def accounts_def)
    qed
    with u show ?thesis by (auto simp: run_accounts_def)
  qed
qed

lemma deliverHostDefault_accounts:
  assumes N: "stable_ext N" and j: "set rs \<subseteq> set (job_Recipients parse j)"
    and run: "deliverHostDefault N T parse j r host rs st = (x, st')"
  shows "run_accounts rs st x st'"
proof -
  obtain m st1 where m: "check_sts N T (rt_Domain r) host st = (m, st1)"
    by (cases "check_sts N T (rt_Domain r) host st")
  obtain g pool where g: "pool_Get (sn_now N (ts_x st1)) (pool_key_for r host) (ts_pool st1) = (g, pool)"
    by (cases "pool_Get (sn_now N (ts_x st1)) (pool_key_for r host) (ts_pool st1)")
  obtain o' st2 where o': "open_conn N T r host (st1\<lparr>ts_pool := pool\<rparr>) = (o', st2)"
    by (cases "open_conn N T r host (st1\<lparr>ts_pool := pool\<rparr>)")
  note u1 = check_sts_unsent [OF m] and u2 = open_conn_unsent [OF o']
  consider (sts) e where "m = Some e" | (pooled) pc where "m = None" "g = Some pc"
    | (refused) e where "m = None" "g = None" "o' = Inl e" | (fresh) c where "m = None" "g = None" "o' = Inr c"
    by (metis option.exhaust sum.exhaust)
  then show ?thesis
  proof cases
    case sts
    then have "x = errorf ''mta-sts'' e" "st' = st1" using run m by (simp_all add: deliverHostDefault_def)
    then show ?thesis using check_sts_plain m sts accounts_errorf u1 by (metis run_accounts_quiet)
  next
    case pooled
    then have "smtp_transaction N parse j (pool_key_for r host) (pc_id pc) rs (st1\<lparr>ts_pool := pool\<rparr>) = (x, st')"
      using run m g by (simp add: deliverHostDefault_def Let_def)
    from smtp_transaction_accounts [OF N j this] show ?thesis by (rule run_accounts_after [rotated]) (simp add: u1)
  next
    case refused
    then have "x = e" "st' = st2" using run m g o' by (simp_all add: deliverHostDefault_def Let_def)
    then show ?thesis using open_conn_plain [of N T r host _ _ st2] o' refused accounts_plain u1 u2
      by (cases e) (auto intro!: run_accounts_quiet)
  next
    case fresh
    then have "smtp_transaction N parse j (pool_key_for r host) c rs st2 = (x, st')"
      using run m g o' by (simp add: deliverHostDefault_def Let_def)
    from smtp_transaction_accounts [OF N j this] show ?thesis
      by (rule run_accounts_after [rotated]) (use u1 u2 in simp)
  qed
qed

lemma accounts_join:
  assumes "\<forall>e\<in>set errs. accounts rs l (Some e)"
  shows "accounts rs l (Some (ErrWrap t (ErrJoin errs)))"
  unfolding accounts_def
proof (intro allI impI)
  fix ds fs
  assume "Option.bind (Some (ErrWrap t (ErrJoin errs))) as_partial = Some (ds, fs)"
  then have "first_some as_partial errs = Some (ds, fs)" by simp
  then obtain e where "e \<in> set errs" "as_partial e = Some (ds, fs)" using first_some_SomeD by metis
  then show "named_or_unsent rs l (set ds \<union> fst ` set fs)" using assms by (auto simp: accounts_def)
qed

lemma host_loop_accounts:
  assumes N: "stable_ext N" and j: "set rs \<subseteq> set (job_Recipients parse j)"
    and "\<forall>e\<in>set errs. accounts rs l0 (Some e)"
    and "host_loop N T parse j r rs hosts errs st = (x, st')"
  shows "\<exists>l. ts_unsent st' = ts_unsent st @ l \<and>
    (case x of Inl es \<Rightarrow> (\<forall>e\<in>set es. accounts rs (l0 @ l) (Some e)) | Inr y \<Rightarrow> accounts rs (l0 @ l) y)"
  using assms(3,4)
proof (induction hosts arbitrary: errs st l0)
  case (Cons host hosts)
  obtain y st1 where y: "deliverHostDefault N T parse j r host rs st = (y, st1)"
    by (cases "deliverHostDefault N T parse j r host rs st")
  obtain l1 where l1: "ts_unsent st1 = ts_unsent st @ l1" "accounts rs l1 y"
    using deliverHostDefault_accounts [OF N j y] by (auto simp: run_accounts_def)
  note acc = accounts_more(1) [OF l1(2), of l0]
  show ?case
  proof (cases y)
    case None
    then show ?thesis using Cons.prems(2) y l1(1) by auto
  next
    case (Some err)
    have "accounts rs (l0 @ l1) (Some e)" if "e \<in> set errs" for e
      using Cons.prems(1) that by (intro accounts_more(2)) blast
    then have more: "\<forall>e\<in>set (errs @ [err]). accounts rs (l0 @ l1) (Some e)"
      using acc unfolding Some by auto
    have "x = Inr (Some err) \<and> st' = st1 \<or> host_loop N T parse j r rs hosts (errs @ [err]) st1 = (x, st')"
      using Cons.prems(2) y Some by (auto split: option.splits prod.splits if_splits)
    then show ?thesis
    proof
      assume "x = Inr (Some err) \<and> st' = st1"
      then show ?thesis using l1(1) acc Some by (intro exI [of _ l1]) simp
    next
      assume "host_loop N T parse j r rs hosts (errs @ [err]) st1 = (x, st')"
      from Cons.IH [OF more this] obtain l where "ts_unsent st' = ts_unsent st1 @ l"
        "case x of Inl es \<Rightarrow> (\<forall>e\<in>set es. accounts rs ((l0 @ l1) @ l) (Some e)) | Inr y \<Rightarrow> accounts rs ((l0 @ l1) @ l) y"
        by blast
      then show ?thesis using l1(1) by (intro exI [of _ "l1 @ l"]) (simp only: append_assoc)
    qed
  qed
qed auto

lemma transport_route_plain: "transport_route T j d st = (Inl e, st') \<Longrightarrow> as_partial e = None"
  by (auto simp: transport_route_def Let_def split: router.splits prod.splits sum.splits)

lemma mxHosts_plain: "net_call (mxHosts f d) st = (Inl e, st') \<Longrightarrow> as_partial e = None"
  by (auto simp: net_call_def mxHosts_def Let_def split: prod.splits sum.splits dns_error.splits if_splits)

lemma deliverDomain_accounts:
  assumes N: "stable_ext N" and j: "set rs \<subseteq> set (job_Recipients parse j)"
    and run: "deliverDomain N T parse j domain rs st = (x, st')"
  shows "run_accounts rs st x st'"
proof -
  obtain y st1 where y: "transport_route T j domain st = (y, st1)" by (cases "transport_route T j domain st")
  note u1 = transport_route_unsent [OF y]
  show ?thesis
  proof (cases y)
    case (Inl e)
    then show ?thesis using run y transport_route_plain u1
      by (auto simp: deliverDomain_def intro!: run_accounts_quiet accounts_plain)
  next
    case (Inr r)
    define hs where "hs = (if rt_Hosts r = [] then net_call (mxHosts (sn_lookupMX N) domain) st1 else (Inr (rt_Hosts r), st1))"
    obtain z st2 where z: "hs = (z, st2)" by (cases hs)
    have u2: "ts_unsent st2 = ts_unsent st"
      using z u1 by (auto simp: hs_def dest: net_call_unsent split: if_splits)
    show ?thesis
    proof (cases z)
      case (Inl e)
      then have "as_partial e = None" using z mxHosts_plain by (auto simp: hs_def split: if_splits)
      then show ?thesis using run y Inr z Inl u2
        by (auto simp: deliverDomain_def hs_def intro!: run_accounts_quiet accounts_plain)
    next
      case hosts: (Inr hosts)
      obtain w st3 where w: "host_loop N T parse j (r\<lparr>rt_Hosts := hosts\<rparr>) rs hosts [] st2 = (w, st3)"
        by (cases "host_loop N T parse j (r\<lparr>rt_Hosts := hosts\<rparr>) rs hosts [] st2")
      obtain l where "ts_unsent st3 = ts_unsent st @ l"
        "case w of Inl es \<Rightarrow> (\<forall>e\<in>set es. accounts rs l (Some e)) | Inr y \<Rightarrow> accounts rs l y"
        using host_loop_accounts [OF N j _ w, of "[]", unfolded append_Nil u2] by auto
      then show ?thesis using run y Inr z hosts w accounts_join
        by (auto simp: deliverDomain_def hs_def run_accounts_def split: sum.splits)
    qed
  qed
qed

text \<open>A recipient is named, or shares its batch with a recipient whose command was not sent.\<close>

definition accounted :: "address list \<Rightarrow> (nat \<times> string) list \<Rightarrow> address set \<Rightarrow> address \<Rightarrow> bool" where
  "accounted rs l named r \<longleftrightarrow> r \<in> named \<or> (\<exists>r'\<in>set rs. domain_of r' = domain_of r \<and> unsent_rcpt l r')"

definition batch_of :: "address list \<Rightarrow> recipient_batch \<Rightarrow> bool" where
  "batch_of rs b \<longleftrightarrow> set (rb_Recipients b) \<subseteq> set rs \<and> (\<forall>r\<in>set (rb_Recipients b). domain_of r = rb_Domain b)"

lemma batch_loop_accounts:
  assumes N: "stable_ext N" and "\<forall>b\<in>set bs. batch_of (job_Recipients parse j) b"
    and "batch_loop N T parse j bs (ds, fs) st = ((ds', fs'), st')"
  shows "\<exists>l. ts_unsent st' = ts_unsent st @ l \<and> set ds \<union> fst ` set fs \<subseteq> set ds' \<union> fst ` set fs' \<and>
    set ds' \<union> fst ` set fs' \<subseteq> set ds \<union> fst ` set fs \<union> set (concat (map rb_Recipients bs)) \<and>
    (\<forall>r\<in>set (concat (map rb_Recipients bs)). accounted (job_Recipients parse j) l (set ds' \<union> fst ` set fs') r)"
  using assms(2,3)
proof (induction bs arbitrary: ds fs st)
  case (Cons b bs)
  obtain y st1 where y: "deliverDomain N T parse j (rb_Domain b) (rb_Recipients b) st = (y, st1)"
    by (cases "deliverDomain N T parse j (rb_Domain b) (rb_Recipients b) st")
  have b: "set (rb_Recipients b) \<subseteq> set (job_Recipients parse j)" "\<forall>r\<in>set (rb_Recipients b). domain_of r = rb_Domain b"
    using Cons.prems(1) by (auto simp: batch_of_def)
  obtain l1 where l1: "ts_unsent st1 = ts_unsent st @ l1" "accounts (rb_Recipients b) l1 y"
    using deliverDomain_accounts [OF N b(1) y] by (auto simp: run_accounts_def)
  obtain ds1 fs1 named where rest: "batch_loop N T parse j bs (ds1, fs1) st1 = ((ds', fs'), st')"
    and now: "set ds1 \<union> fst ` set fs1 = set ds \<union> fst ` set fs \<union> named" "named_or_unsent (rb_Recipients b) l1 named"
  proof (cases y)
    case None
    then show thesis using that [of "ds @ rb_Recipients b" fs "set (rb_Recipients b)"] Cons.prems(2) y
      by (auto simp: named_or_unsent_def)
  next
    case (Some err)
    show thesis
    proof (cases "as_partial err")
      case None
      then show thesis
        using that [of ds "fs @ map (\<lambda>r. (r, Some err)) (rb_Recipients b)" "set (rb_Recipients b)"] Cons.prems(2) y Some
        by (simp add: image_Un image_image Un_assoc named_or_unsent_def)
    next
      case p: (Some p)
      obtain ds2 fs2 where p2: "p = (ds2, fs2)" by (cases p)
      then have "named_or_unsent (rb_Recipients b) l1 (set ds2 \<union> fst ` set fs2)" using l1(2) Some p by (simp add: accounts_def)
      moreover have "set (ds @ ds2) \<union> fst ` set (fs @ fs2) = set ds \<union> fst ` set fs \<union> (set ds2 \<union> fst ` set fs2)"
        by (auto simp: image_Un)
      ultimately show thesis using that [of "ds @ ds2" "fs @ fs2"] Cons.prems(2) y Some p p2 by simp
    qed
  qed
  obtain l2 where l2: "ts_unsent st' = ts_unsent st1 @ l2"
    "set ds1 \<union> fst ` set fs1 \<subseteq> set ds' \<union> fst ` set fs'"
    "set ds' \<union> fst ` set fs' \<subseteq> set ds1 \<union> fst ` set fs1 \<union> set (concat (map rb_Recipients bs))"
    "\<forall>r\<in>set (concat (map rb_Recipients bs)). accounted (job_Recipients parse j) l2 (set ds' \<union> fst ` set fs') r"
    using Cons.IH [OF _ rest] Cons.prems(1) by auto
  have "accounted (job_Recipients parse j) (l1 @ l2) (set ds' \<union> fst ` set fs') r" if r: "r \<in> set (rb_Recipients b)" for r
  proof (cases "r \<in> named")
    case True
    then show ?thesis using now(1) l2(2) by (auto simp: accounted_def)
  next
    case False
    then obtain r' where "r' \<in> set (rb_Recipients b)" "unsent_rcpt l1 r'"
      using now(2) r by (auto simp: named_or_unsent_def)
    then show ?thesis using b r by (auto simp: accounted_def)
  qed
  moreover have "named \<subseteq> set (rb_Recipients b)" using now(2) by (simp add: named_or_unsent_def)
  moreover have "accounted (job_Recipients parse j) (l1 @ l2) (set ds' \<union> fst ` set fs') r"
    if "r \<in> set (concat (map rb_Recipients bs))" for r
    using l2(4) that unfolding accounted_def unsent_rcpt_append by blast
  ultimately have "\<forall>r\<in>set (concat (map rb_Recipients (b # bs))).
      accounted (job_Recipients parse j) (l1 @ l2) (set ds' \<union> fst ` set fs') r" "named \<subseteq> set (rb_Recipients b)"
    using now(2) by (auto simp: named_or_unsent_def)
  moreover have "ts_unsent st' = ts_unsent st @ (l1 @ l2)" using l1(1) l2(1) by simp
  ultimately show ?case using l2(2,3) now(1) by (intro exI [of _ "l1 @ l2"]) auto
qed simp

lemma planned_recipients:
  "set (concat (map rb_Recipients (PlanRecipientBatchesWithLimit rs limit))) = {r \<in> set rs. domain_of r \<noteq> []}"
  using planned_batches [of rs limit] by auto

definition no_deliverable_recipients :: derr where
  "no_deliverable_recipients = ErrSMTP ''recipient'' 554 ''no deliverable recipients'' None"

lemma Deliver_result:
  assumes "stable_ext N" and run: "Deliver N T parse j st = (x, st')"
  shows "\<exists>l. ts_unsent st' = ts_unsent st @ l \<and>
    (x = None \<or> x = Some no_deliverable_recipients \<or>
     (\<exists>ds fs. x = Some (ErrPartial ds fs) \<and> fs \<noteq> [] \<and>
        set ds \<union> fst ` set fs \<subseteq> {r \<in> set (job_Recipients parse j). domain_of r \<noteq> []} \<and>
        (\<forall>r\<in>set (job_Recipients parse j). domain_of r \<noteq> [] \<longrightarrow>
           accounted (job_Recipients parse j) l (set ds \<union> fst ` set fs) r)))"
proof -
  define bs where "bs = PlanRecipientBatchesWithLimit (job_Recipients parse j) (tt_MaxRecipientsPerBatch T)"
  have bs: "set (concat (map rb_Recipients bs)) = {r \<in> set (job_Recipients parse j). domain_of r \<noteq> []}"
    unfolding bs_def by (rule planned_recipients)
  have ok: "\<forall>b\<in>set bs. batch_of (job_Recipients parse j) b"
  proof
    fix b assume b: "b \<in> set bs"
    then have "set (rb_Recipients b) \<subseteq> set (job_Recipients parse j)" using bs by auto
    then show "batch_of (job_Recipients parse j) b"
      using b planned_batches [of "job_Recipients parse j" "tt_MaxRecipientsPerBatch T"]
      by (auto simp: batch_of_def bs_def list_all_iff)
  qed
  obtain ds fs st1 where l: "batch_loop N T parse j bs ([], []) st = ((ds, fs), st1)" by (metis prod.exhaust)
  show ?thesis using run l batch_loop_accounts [OF assms(1) ok l] unfolding bs
    by (auto simp: Deliver_def bs_def [symmetric] no_deliverable_recipients_def split: if_splits)
qed

text \<open>The history of unsent commands only grows, on any network.\<close>

definition unsent_grows :: "'x tstate \<Rightarrow> 'x tstate \<Rightarrow> bool" where
  "unsent_grows st st' \<longleftrightarrow> prefix (ts_unsent st) (ts_unsent st')"

lemma unsent_grows_refl [simp]: "unsent_grows st st"
  by (simp add: unsent_grows_def)

lemma unsent_grows_trans [trans]: "unsent_grows st st1 \<Longrightarrow> unsent_grows st1 st' \<Longrightarrow> unsent_grows st st'"
  unfolding unsent_grows_def by (rule prefix_order.trans)

lemma unsent_grows_same: "ts_unsent st' = ts_unsent st \<Longrightarrow> unsent_grows st st'"
  by (simp add: unsent_grows_def)

lemma pipelineRCPTs_grows: "pipelineRCPTs N c j rs st = (x, st') \<Longrightarrow> unsent_grows st st'"
  by (auto simp: pipelineRCPTs_def Let_def unsent_grows_def dest!: pipeline_send_unsent pipeline_read_unsent
      split: if_splits option.splits prod.splits)

lemma smtp_transaction_grows:
  assumes run: "smtp_transaction N parse j key c rs st = (x, st')"
  shows "unsent_grows st st'"
proof -
  obtain m st1 where m: "smtpMail N parse c j st = (m, st1)" by (cases "smtpMail N parse c j st")
  obtain y st2 where p: "pipelineRCPTs N c j rs st1 = (y, st2)" by (metis prod.exhaust)
  obtain d st3 where d: "send_data N c j st2 = (d, st3)" by (cases "send_data N c j st2")
  have "ts_unsent st' \<in> {ts_unsent st1, ts_unsent st2, ts_unsent st3}"
    using run m p d by (auto simp: smtp_transaction_def split: option.splits prod.splits if_splits)
  then show ?thesis using smtpMail_unsent [OF m] pipelineRCPTs_grows [OF p] send_data_unsent [OF d]
    by (auto simp: unsent_grows_def)
qed

lemma deliverHostDefault_grows:
  assumes run: "deliverHostDefault N T parse j r host rs st = (x, st')"
  shows "unsent_grows st st'"
proof -
  obtain m st1 where m: "check_sts N T (rt_Domain r) host st = (m, st1)"
    by (cases "check_sts N T (rt_Domain r) host st")
  obtain g pool where g: "pool_Get (sn_now N (ts_x st1)) (pool_key_for r host) (ts_pool st1) = (g, pool)"
    by (cases "pool_Get (sn_now N (ts_x st1)) (pool_key_for r host) (ts_pool st1)")
  obtain o' st2 where o': "open_conn N T r host (st1\<lparr>ts_pool := pool\<rparr>) = (o', st2)"
    by (cases "open_conn N T r host (st1\<lparr>ts_pool := pool\<rparr>)")
  have "st' \<in> {st1, st2} \<or> (\<exists>c. \<exists>st3\<in>{st2, st1\<lparr>ts_pool := pool\<rparr>}.
      smtp_transaction N parse j (pool_key_for r host) c rs st3 = (x, st'))"
    using run m g o' by (cases m; cases g; cases o') (auto simp: deliverHostDefault_def Let_def)
  then show ?thesis using check_sts_unsent [OF m] open_conn_unsent [OF o']
    by (auto simp: unsent_grows_def dest!: smtp_transaction_grows)
qed

lemma host_loop_grows: "host_loop N T parse j r rs hosts errs st = (x, st') \<Longrightarrow> unsent_grows st st'"
proof (induction hosts arbitrary: errs st)
  case (Cons host hosts)
  obtain y st1 where y: "deliverHostDefault N T parse j r host rs st = (y, st1)"
    by (cases "deliverHostDefault N T parse j r host rs st")
  have "st' = st1 \<or> (\<exists>errs. host_loop N T parse j r rs hosts errs st1 = (x, st'))"
    using Cons.prems y by (auto split: option.splits prod.splits if_splits)
  then show ?case using Cons.IH deliverHostDefault_grows [OF y] unsent_grows_trans by blast
qed simp

lemma deliverDomain_grows:
  assumes run: "deliverDomain N T parse j domain rs st = (x, st')"
  shows "unsent_grows st st'"
proof -
  obtain y st1 where y: "transport_route T j domain st = (y, st1)" by (cases "transport_route T j domain st")
  show ?thesis
  proof (cases y)
    case (Inl e)
    then show ?thesis using run y transport_route_unsent [OF y] by (simp add: deliverDomain_def unsent_grows_def)
  next
    case (Inr r)
    define hs where "hs = (if rt_Hosts r = [] then net_call (mxHosts (sn_lookupMX N) domain) st1 else (Inr (rt_Hosts r), st1))"
    obtain z st2 where z: "hs = (z, st2)" by (cases hs)
    have u: "unsent_grows st st2" using z transport_route_unsent [OF y]
      by (auto simp: hs_def unsent_grows_def dest: net_call_unsent split: if_splits)
    have "st' = st2 \<or> (\<exists>r hosts w. host_loop N T parse j r rs hosts [] st2 = (w, st'))"
      using run y Inr z by (auto simp: deliverDomain_def hs_def split: sum.splits prod.splits)
    then show ?thesis using u host_loop_grows unsent_grows_trans by blast
  qed
qed

lemma batch_loop_grows: "batch_loop N T parse j bs acc st = (x, st') \<Longrightarrow> unsent_grows st st'"
proof (induction bs arbitrary: acc st)
  case (Cons b bs)
  obtain ds fs where acc: "acc = (ds, fs)" by (cases acc)
  obtain y st1 where y: "deliverDomain N T parse j (rb_Domain b) (rb_Recipients b) st = (y, st1)"
    by (cases "deliverDomain N T parse j (rb_Domain b) (rb_Recipients b) st")
  have "\<exists>acc. batch_loop N T parse j bs acc st1 = (x, st')"
    using Cons.prems y acc by (auto split: option.splits prod.splits)
  then show ?case using Cons.IH deliverDomain_grows [OF y] unsent_grows_trans by blast
qed simp

lemma Deliver_unsent: "\<exists>l. ts_unsent (snd (Deliver N T parse j st)) = ts_unsent st @ l"
proof -
  let ?bs = "PlanRecipientBatchesWithLimit (job_Recipients parse j) (tt_MaxRecipientsPerBatch T)"
  have "unsent_grows st (snd (Deliver N T parse j st))"
    using batch_loop_grows [of N T parse j ?bs "([], [])" st, OF prod.collapse [symmetric]]
    by (auto simp: Deliver_def Let_def split: prod.splits)
  then show ?thesis by (auto simp: unsent_grows_def prefix_def)
qed

section \<open>A scripted network\<close>

text \<open>A network for examples: every connection succeeds, no extension is announced, and the replies are
  read from a list of codes; \<open>broken\<close> tells which command lines cannot be written.\<close>

definition scripted_net :: "(string \<Rightarrow> bool) \<Rightarrow> int list smtp_net" where
  "scripted_net broken =
     \<lparr>sn_now = \<lambda>_. 1,
      sn_lookupMX = \<lambda>d x. (Inr [Some \<lparr>mx_Host = ''mx.'' @ d @ ''.'', mx_Pref = 10\<rparr>], x),
      sn_sts = \<lambda>_. \<lparr>sts_lookupTXT = \<lambda>_. Inl ''none'', sts_fetchHTTPS = \<lambda>_. Inl ''none'',
        sts_decode = \<lambda>_. Inl ''none'', sts_now = 1\<rparr>,
      sn_dial = \<lambda>h p t x. (Inr 7, x), sn_greeting = \<lambda>c x. (None, x), sn_hello = \<lambda>c h x. (None, x),
      sn_ext = \<lambda>c e x. False, sn_startTLS = \<lambda>c h x. (None, x), sn_tls = \<lambda>c x. False,
      sn_dane = \<lambda>h c x. (Inl (NetText ''no record''), x), sn_auth = \<lambda>c a h x. (None, x),
      sn_cmd = \<lambda>c l x. (if broken l then Some (NetText ''broken pipe'') else None, x),
      sn_reply = \<lambda>c n x. (if hd x = n then None else Some (NetReply (hd x) ''no''), tl x),
      sn_open = \<lambda>j x. (None, x), sn_copy = \<lambda>c j x. (None, x), sn_closeMessage = \<lambda>j x. (None, x),
      sn_closeData = \<lambda>c x. (if hd x = 250 then None else Some (NetReply (hd x) ''no''), tl x)\<rparr>"

definition scripted_state :: "int list \<Rightarrow> int list tstate" where
  "scripted_state replies =
     \<lparr>ts_x = replies, ts_pool = NewSMTPConnectionPool 4 0 0, ts_cache = Map.empty,
      ts_static = \<lparr>rt_Farm = [], rt_Domain = [], rt_Hosts = [''relay.org:2525''], rt_Port = 0, rt_Hello = [],
        rt_TLSMode = [], rt_ImplicitTLS = False, rt_PoolName = [],
        rt_Auth = \<lparr>ra_Identity = [], ra_Username = [], ra_Password = []\<rparr>\<rparr>, ts_closed = [], ts_unsent = []\<rparr>"

definition plain_transport :: "'x router \<Rightarrow> 'x transport" where
  "plain_transport R =
     \<lparr>tt_Router = R, tt_Hello = ''mail.org'', tt_TLSMode = DeliveryTLSOpportunistic,
      tt_MaxRecipientsPerBatch = 50, tt_mtasts = False, tt_dane = False\<rparr>"

lemma scripted_net_laws: "stable_ext (scripted_net broken)"
  by (simp add: stable_ext_def scripted_net_def)

definition two_recipient_job :: job where
  "two_recipient_job = sample_job\<lparr>jb_recipientCache :=
     Some [\<lparr>Name = [], Email = ''a@x.org''\<rparr>, \<lparr>Name = [], Email = ''b@x.org''\<rparr>]\<rparr>"

section \<open>Properties\<close>

text \<open>
  C11. A delivery accounts for every recipient, over any number of domains, batches, hosts and
  replies, and whatever fails: \<open>Deliver\<close> succeeds, or finds no recipient with a domain, or returns a partial
  delivery error. The delivered and failed recipients that the error names are recipients of the job with a
  domain; and every recipient with a domain is named, except that when during this run the RCPT
  command of a recipient was not sent (its write failed, or it contains a line break), recipients of
  the same domain can be missing. When every RCPT command of the run was sent (\<open>l\<close> is empty) nobody is missing. The
  extensions that a server announced do not change by sending commands and reading replies.
\<close>

theorem deliver_accounts_for_recipients:
  assumes "stable_ext N"
  shows "\<exists>l. ts_unsent (snd (Deliver N T parse j st)) = ts_unsent st @ l \<and>
    (fst (Deliver N T parse j st) = None \<or> fst (Deliver N T parse j st) = Some no_deliverable_recipients \<or>
     (\<exists>ds fs. fst (Deliver N T parse j st) = Some (ErrPartial ds fs) \<and> fs \<noteq> [] \<and>
        set ds \<union> fst ` set fs \<subseteq> {r \<in> set (job_Recipients parse j). domain_of r \<noteq> []} \<and>
        (\<forall>r\<in>set (job_Recipients parse j). domain_of r \<noteq> [] \<longrightarrow>
           r \<in> set ds \<union> fst ` set fs \<or>
           (\<exists>r'\<in>set (job_Recipients parse j). domain_of r' = domain_of r \<and> unsent_rcpt l r'))))"
  using Deliver_result [OF assms prod.collapse [symmetric]] unfolding accounted_def .

theorem deliver_accounts_for_recipients_witness:
  "\<exists>ds fs. fst (Deliver (scripted_net (\<lambda>_. False)) (plain_transport NoRouter) identity_parser two_recipient_job
       (scripted_state [250, 250, 550, 354, 250])) = Some (ErrPartial ds fs) \<and>
     set ds \<union> fst ` set fs = set (job_Recipients identity_parser two_recipient_job)"
proof -
  let ?run = "Deliver (scripted_net (\<lambda>_. False)) (plain_transport NoRouter) identity_parser two_recipient_job
       (scripted_state [250, 250, 550, 354, 250])"
  have "\<not> (case fst ?run of Some (ErrPartial ds fs) \<Rightarrow> False | _ \<Rightarrow> True)" by code_simp
  then obtain ds fs where "fst ?run = Some (ErrPartial ds fs)" by (auto split: option.splits derr.splits)
  moreover have "\<forall>r\<in>set (job_Recipients identity_parser two_recipient_job). domain_of r \<noteq> []" by code_simp
  moreover have "ts_unsent (snd ?run) = []" by code_simp
  moreover have "ts_unsent (scripted_state [250, 250, 550, 354, 250]) = []" by (simp add: scripted_state_def)
  ultimately show ?thesis
    using deliver_accounts_for_recipients [OF scripted_net_laws,
        of "\<lambda>_. False" "plain_transport NoRouter" identity_parser two_recipient_job "scripted_state [250, 250, 550, 354, 250]"]
    by (auto simp: no_deliverable_recipients_def)
qed

text \<open>
  When the connection breaks while the RCPT commands are written, only the first recipient of the
  batch is reported: the second is neither delivered nor failed, so the worker records nothing for it
  and does not retry it.
\<close>

theorem pipelined_write_error_loses_recipients:
  "\<exists>fs. fst (Deliver (scripted_net (\<lambda>l. l = ''RCPT TO:<b@x.org>'')) (plain_transport NoRouter) identity_parser
       two_recipient_job (scripted_state [250, 250, 250, 354, 250])) = Some (ErrPartial [] fs) \<and>
     map (Email \<circ> fst) fs = [''a@x.org''] \<and>
     map Email (job_Recipients identity_parser two_recipient_job) = [''a@x.org'', ''b@x.org'']"
proof -
  let ?x = "fst (Deliver (scripted_net (\<lambda>l. l = ''RCPT TO:<b@x.org>'')) (plain_transport NoRouter) identity_parser
       two_recipient_job (scripted_state [250, 250, 250, 354, 250]))"
  have "case ?x of Some (ErrPartial [] fs) \<Rightarrow> map (Email \<circ> fst) fs = [''a@x.org''] | _ \<Rightarrow> False" by code_simp
  moreover have "map Email (job_Recipients identity_parser two_recipient_job) = [''a@x.org'', ''b@x.org'']" by code_simp
  ultimately show ?thesis by (auto split: option.splits derr.splits list.splits)
qed

text \<open>
  The static router forgets the port of its hosts: normalising a route filters the router's own
  slice of hosts in place, so with the host \<open>relay.org:2525\<close> and no port of its own the first
  route goes to port 2525 and every later one to port 25 of the same host.
\<close>

theorem static_router_loses_port:
  "\<exists>r1 st1 r2 st2.
     transport_route (plain_transport Static) sample_job ''x.org'' (scripted_state []) = (Inr r1, st1) \<and>
     transport_route (plain_transport Static) sample_job ''x.org'' st1 = (Inr r2, st2) \<and>
     rt_Hosts r1 = [''relay.org''] \<and> rt_Port r1 = 2525 \<and> rt_Hosts r2 = [''relay.org''] \<and> rt_Port r2 = 25"
proof -
  let ?route = "transport_route (plain_transport Static) sample_job ''x.org''"
  have "case ?route (scripted_state []) of (Inr r, _) \<Rightarrow> rt_Hosts r = [''relay.org''] \<and> rt_Port r = 2525 | _ \<Rightarrow> False"
    by code_simp
  moreover have "case ?route (snd (?route (scripted_state []))) of
      (Inr r, _) \<Rightarrow> rt_Hosts r = [''relay.org''] \<and> rt_Port r = 25 | _ \<Rightarrow> False" by code_simp
  ultimately show ?thesis by (auto split: prod.splits sum.splits)
qed

text \<open>What the standard library promises about TLS: an implicit-TLS dial and a successful STARTTLS leave an
  encrypted connection, and no later step of opening the connection takes the encryption back.\<close>

definition tls_laws :: "'x smtp_net \<Rightarrow> bool" where
  "tls_laws N \<longleftrightarrow>
     (\<forall>h p x c. fst (sn_dial N h p True x) = Inr c \<longrightarrow> sn_tls N c (snd (sn_dial N h p True x))) \<and>
     (\<forall>c h x. fst (sn_startTLS N c h x) = None \<longrightarrow> sn_tls N c (snd (sn_startTLS N c h x))) \<and>
     (\<forall>c x. sn_tls N c x \<longrightarrow> sn_tls N c (snd (sn_greeting N c x))) \<and>
     (\<forall>c h x. sn_tls N c x \<longrightarrow> sn_tls N c (snd (sn_hello N c h x))) \<and>
     (\<forall>c h x. sn_tls N c x \<longrightarrow> sn_tls N c (snd (sn_dane N h c x))) \<and>
     (\<forall>c a h x. sn_tls N c x \<longrightarrow> sn_tls N c (snd (sn_auth N c a h x)))"

lemma startTLS_encrypts:
  assumes "tls_laws N" and "startTLS N T c host m st = (None, st')"
    and "normalizeDeliveryTLSMode (if m \<noteq> [] then m else tt_TLSMode T) = DeliveryTLSRequire"
  shows "sn_tls N c (ts_x st')"
  using assms
  by (auto simp: startTLS_def Let_def tls_laws_def tls_modes net_try_def net_call_def split: if_splits)

lemma net_try_tls:
  assumes "\<forall>x. sn_tls N c x \<longrightarrow> sn_tls N c (snd (f x))" and "net_try f st = (r, st')" and "sn_tls N c (ts_x st)"
  shows "sn_tls N c (ts_x st')"
  using assms by (auto simp: net_try_def net_call_def)

lemma checkDANEPolicy_tls:
  assumes "tls_laws N" and "checkDANEPolicy N T host c st = (r, st')" and "sn_tls N c (ts_x st)"
  shows "sn_tls N c (ts_x st')"
proof -
  have "ts_x st' = ts_x st \<or> ts_x st' = snd (sn_dane N host c (ts_x st))"
    using assms(2) by (auto simp: checkDANEPolicy_def net_call_def split: if_splits sum.splits prod.splits)
  then show ?thesis using assms by (auto simp: tls_laws_def)
qed

text \<open>
  A route that requires TLS gets it on every connection it opens: if \<open>deliverHost\<close> opens a
  connection for a route with implicit TLS, or whose TLS mode (its own or else the transport's)
  is \<open>require\<close>, then the connection that the mail transaction starts on is encrypted; when the
  server does not announce STARTTLS the host fails instead.
\<close>

theorem required_tls_on_new_connections:
  assumes "tls_laws N"
    and "rt_ImplicitTLS r \<or>
      normalizeDeliveryTLSMode (if rt_TLSMode r \<noteq> [] then rt_TLSMode r else tt_TLSMode T) = DeliveryTLSRequire"
    and "open_conn N T r host st = (Inr c, st')"
  shows "sn_tls N c (ts_x st')"
proof -
  obtain st1 where d: "net_call (sn_dial N host (normalizeRoutePort (rt_Port r)) (rt_ImplicitTLS r)) st = (Inr c, st1)"
    and rest: "open_conn N T r host st = (Inr c, st')"
    using assms(3) by (auto simp: open_conn_def split: sum.splits prod.splits option.splits if_splits)
  obtain st2 st3 st4 st5 where g: "net_try (sn_greeting N c) st1 = (None, st2)"
    and h: "net_try (sn_hello N c (hello_name T r)) st2 = (None, st3)"
    and t: "(if rt_ImplicitTLS r then (None, st3) else startTLS N T c host (rt_TLSMode r) st3) = (None, st4)"
    and e: "checkDANEPolicy N T host c st4 = (None, st5)"
    and a: "(if routeRequiresAuth r then net_try (sn_auth N c (rt_Auth r) host) st5 else (None, st5)) = (None, st')"
    using rest d by (auto simp: open_conn_def split: prod.splits option.splits if_splits)
  have "sn_tls N c (ts_x st4)"
  proof (cases "rt_ImplicitTLS r")
    case True
    then have "sn_tls N c (ts_x st1)" using d assms(1) by (auto simp: net_call_def tls_laws_def)
    then have "sn_tls N c (ts_x st2)" using net_try_tls [of N c, OF _ g] assms(1) by (auto simp: tls_laws_def)
    then have "sn_tls N c (ts_x st3)" using net_try_tls [of N c, OF _ h] assms(1) by (auto simp: tls_laws_def)
    then show ?thesis using t True by simp
  next
    case False
    then show ?thesis using t startTLS_encrypts [OF assms(1)] assms(2) by auto
  qed
  then have "sn_tls N c (ts_x st5)" using checkDANEPolicy_tls [OF assms(1) e] by blast
  then show ?thesis using a net_try_tls [of N c "sn_auth N c (rt_Auth r) host" st5 None st'] assms(1)
    by (auto simp: tls_laws_def split: if_splits)
qed

definition tls_net :: "int list smtp_net" where
  "tls_net = (scripted_net (\<lambda>_. False))\<lparr>sn_ext := \<lambda>c e x. e = ''STARTTLS'', sn_tls := \<lambda>c x. True\<rparr>"

definition relay_route :: "tls_mode \<Rightarrow> route" where
  "relay_route mode = \<lparr>rt_Farm = [], rt_Domain = [], rt_Hosts = [''relay.org''], rt_Port = 25, rt_Hello = [],
     rt_TLSMode = mode, rt_ImplicitTLS = False, rt_PoolName = [],
     rt_Auth = \<lparr>ra_Identity = [], ra_Username = [], ra_Password = []\<rparr>\<rparr>"

theorem required_tls_on_new_connections_witness:
  "\<exists>st'. open_conn tls_net (plain_transport NoRouter) (relay_route ''require'') ''relay.org'' (scripted_state []) = (Inr 7, st') \<and>
     sn_tls tls_net 7 (ts_x st')"
proof -
  let ?o = "open_conn tls_net (plain_transport NoRouter) (relay_route ''require'') ''relay.org'' (scripted_state [])"
  have "tls_laws tls_net" by (simp add: tls_laws_def tls_net_def)
  moreover have "normalizeDeliveryTLSMode ''require'' = DeliveryTLSRequire" by code_simp
  then have "rt_ImplicitTLS (relay_route ''require'') \<or> normalizeDeliveryTLSMode
      (if rt_TLSMode (relay_route ''require'') \<noteq> [] then rt_TLSMode (relay_route ''require'')
       else tt_TLSMode (plain_transport NoRouter)) = DeliveryTLSRequire" by (simp add: relay_route_def)
  moreover have "case ?o of (Inr c, _) \<Rightarrow> c = 7 | _ \<Rightarrow> False" by code_simp
  then obtain st' where "?o = (Inr 7, st')" by (auto split: prod.splits sum.splits)
  ultimately show ?thesis using required_tls_on_new_connections by blast
qed

definition relay_router :: "'x router" where
  "relay_router = Custom (\<lambda>j d x. (Inr (relay_route (if d = ''y.org'' then ''require'' else ''opportunistic'')), x))"

definition job_to :: "string list \<Rightarrow> job" where
  "job_to emails = sample_job\<lparr>jb_recipientCache := Some (map (\<lambda>e. \<lparr>Name = [], Email = e\<rparr>) emails)\<rparr>"

text \<open>
  Requiring TLS does not protect a route from the connection pool: a relay without STARTTLS serves
  two domains, one with an opportunistic route and one whose route requires TLS. Mail for the second
  alone fails; after mail for the first the pooled plaintext connection is reused, because the key
  of the pool has no TLS mode, and the mail for both is delivered.
\<close>

theorem pooled_connection_ignores_required_tls:
  "fst (Deliver (scripted_net (\<lambda>_. False)) (plain_transport relay_router) identity_parser (job_to [''b@y.org''])
     (scripted_state [250, 250, 354, 250])) \<noteq> None \<and>
   fst (Deliver (scripted_net (\<lambda>_. False)) (plain_transport relay_router) identity_parser (job_to [''a@x.org'', ''b@y.org''])
     (scripted_state [250, 250, 354, 250, 250, 250, 354, 250])) = None"
  by code_simp

definition unreadable_message_net :: "int list smtp_net" where
  "unreadable_message_net = (scripted_net (\<lambda>_. False))\<lparr>sn_open := \<lambda>j x. (Some (NetText ''no such object''), x)\<rparr>"

text \<open>
  A message that cannot be read is still committed. When opening the stored message fails after the
  server accepted DATA, the writer is closed, which sends the end of data: the run reads all five
  replies, the last one accepting an empty message, and reports a failure, so the empty message
  has been accepted and the delivery is tried again.
\<close>

theorem unreadable_message_is_committed:
  "fst (Deliver unreadable_message_net (plain_transport NoRouter) identity_parser two_recipient_job
     (scripted_state [250, 250, 250, 354, 250])) \<noteq> None \<and>
   ts_x (snd (Deliver unreadable_message_net (plain_transport NoRouter) identity_parser two_recipient_job
     (scripted_state [250, 250, 250, 354, 250]))) = []"
  by code_simp

end
