(* ===== verification/DeliveryWorker.thy ===== *)
theory DeliveryWorker
  imports DeliveryTransport
begin

text \<open>
  The delivery worker as \<open>runDeliveryWorker\<close> (\<open>internal/app/run_delivery.go\<close>) puts it together: the
  handler over the direct SMTP transport, optionally behind the circuit breaker, the PostgreSQL
  recorder, retry scheduler and exhaustion hook, local delivery, and the in-memory throttle, rate
  limiter and domain back-off where the configuration enables them. This wiring interprets the
  contract \<open>delivery_ports\<close> of the handler, which gives the end-to-end property of the worker: an
  event it acknowledges leaves no recipient behind, except in a batch whose RCPT commands could not all be sent.
\<close>

section \<open>The state and the configuration of a worker\<close>

record 'x worker =
  wk_transport :: "'x tstate"
  wk_circuits :: "string \<rightharpoonup> domainCircuit"
  wk_used :: local_counter
  wk_windows :: windows
  wk_backoffs :: backoffs
  wk_db :: delivery_db

text \<open>\<open>wc_retry\<close> and \<open>wc_fail\<close> give the outcome of the database calls at a moment, \<open>wc_tick\<close> what a
  database call does to the environment; \<open>wc_resolve\<close> and \<open>wc_deliver\<close> are the mailbox repository
  behind the local delivery adapter, which has tables of its own.\<close>

record 'x worker_config =
  wc_net :: "'x smtp_net"
  wc_smtp :: "'x transport"
  wc_parse :: addr_parser
  wc_breaker :: "circuit_config option"
  wc_throttle :: "throttle_policy option"
  wc_rate :: "rate_policy option"
  wc_backoff :: "backoff_policy option"
  wc_retry :: "'x \<Rightarrow> retry_env"
  wc_fail :: "'x \<Rightarrow> db_call \<Rightarrow> string option"
  wc_tick :: "'x \<Rightarrow> 'x"
  wc_resolve :: "string \<Rightarrow> 'x \<Rightarrow> (derr + local_lookup) \<times> 'x"
  wc_deliver :: "job \<Rightarrow> address \<Rightarrow> local_mailbox \<Rightarrow> 'x \<Rightarrow> derr option \<times> 'x"

definition wk_x :: "'x worker \<Rightarrow> 'x" where
  "wk_x w = ts_x (wk_transport w)"

definition wk_now :: "'x worker_config \<Rightarrow> 'x worker \<Rightarrow> int" where
  "wk_now C w = sn_now (wc_net C) (wk_x w)"

definition set_x :: "'x \<Rightarrow> 'x worker \<Rightarrow> 'x worker" where
  "set_x x w = w\<lparr>wk_transport := (wk_transport w)\<lparr>ts_x := x\<rparr>\<rparr>"

definition on_x :: "('x \<Rightarrow> 'a \<times> 'x) \<Rightarrow> 'x worker \<Rightarrow> 'a \<times> 'x worker" where
  "on_x f w = (fst (f (wk_x w)), set_x (snd (f (wk_x w))) w)"

section \<open>Transport and circuit breaker\<close>

definition smtp_Deliver :: "'x worker_config \<Rightarrow> job \<Rightarrow> 'x worker \<Rightarrow> derr option \<times> 'x worker" where
  "smtp_Deliver C j w =
     (case Deliver (wc_net C) (wc_smtp C) (wc_parse C) j (wk_transport w) of
        (r, t) \<Rightarrow> (r, w\<lparr>wk_transport := t\<rparr>))"

definition circuit_of :: "'x worker \<Rightarrow> string \<Rightarrow> domainCircuit" where
  "circuit_of w d = (case wk_circuits w d of None \<Rightarrow> new_circuit | Some c \<Rightarrow> c)"

definition ErrCircuitOpen :: derr where
  "ErrCircuitOpen = ErrText ''circuit breaker open: domain temporarily unavailable''"

definition ErrConcurrencyLimitExceeded :: derr where
  "ErrConcurrencyLimitExceeded = ErrText ''delivery concurrency limit exceeded for domain''"

fun circuit_error :: "circuit_config \<Rightarrow> string \<Rightarrow> circuit_refusal \<Rightarrow> derr" where
  "circuit_error T d RefusedOpen = ErrWrap (err_Error ErrCircuitOpen @ '' for '' @ d) ErrCircuitOpen"
| "circuit_error T d RefusedProbe =
     ErrWrap (err_Error ErrCircuitOpen @ '' for '' @ d @ '' (half-open probe in progress)'') ErrCircuitOpen"
| "circuit_error T d RefusedConcurrency =
     ErrWrap (err_Error ErrConcurrencyLimitExceeded @ '' for '' @ d @ '' (limit '' @ go_Itoa (MaxConcurrency T) @ '')'')
       ErrConcurrencyLimitExceeded"

definition breaker_Deliver ::
    "'x worker_config \<Rightarrow> circuit_config \<Rightarrow> job \<Rightarrow> 'x worker \<Rightarrow> derr option \<times> 'x worker" where
  "breaker_Deliver C T j w =
     (let d = circuit_domain (wc_parse C) j in
      case circuit_enter T (wk_now C w) (circuit_of w d) of
        (Some refusal, c) \<Rightarrow> (Some (circuit_error T d refusal), w\<lparr>wk_circuits := (wk_circuits w)(d \<mapsto> c)\<rparr>)
      | (None, c) \<Rightarrow>
          (case smtp_Deliver C j (w\<lparr>wk_circuits := (wk_circuits w)(d \<mapsto> c)\<rparr>) of
             (r, w1) \<Rightarrow>
               (r, w1\<lparr>wk_circuits := (wk_circuits w1)(d \<mapsto>
                      circuit_leave T (wk_now C w1) (r \<noteq> None) (circuit_of w1 d))\<rparr>)))"

definition worker_Deliver :: "'x worker_config \<Rightarrow> job \<Rightarrow> 'x worker \<Rightarrow> derr option \<times> 'x worker" where
  "worker_Deliver C j w =
     (case wc_breaker C of None \<Rightarrow> smtp_Deliver C j w | Some T \<Rightarrow> breaker_Deliver C T j w)"

section \<open>Gates\<close>

definition throttle_error :: "lease \<Rightarrow> derr" where
  "throttle_error l = ErrText (''delivery throttled for '' @ Key l @ '' at limit '' @ go_Itoa (Limit l))"

definition coordinated_Acquire ::
    "'x worker_config \<Rightarrow> throttle_policy \<Rightarrow> job \<Rightarrow> 'x worker \<Rightarrow> derr option \<times> 'x worker" where
  "coordinated_Acquire C P j w =
     (let leases = leasesFor (wc_parse C) P j in
      if leases = [] then (None, w)
      else case local_Acquire leases (wk_used w) of
             (refused, used) \<Rightarrow> (map_option throttle_error refused, w\<lparr>wk_used := used\<rparr>))"

definition coordinated_release ::
    "'x worker_config \<Rightarrow> throttle_policy \<Rightarrow> job \<Rightarrow> 'x worker \<Rightarrow> 'x worker" where
  "coordinated_release C P j w =
     w\<lparr>wk_used := local_Release (leasesFor (wc_parse C) P j) (wk_used w)\<rparr>"

definition rate_error :: "lease \<Rightarrow> derr" where
  "rate_error l = ErrText (''rate limit exceeded for domain '' @ Key l @ '' ('' @ go_Itoa (Limit l) @ ''/min)'')"

definition rate_Allow_job ::
    "'x worker_config \<Rightarrow> rate_policy \<Rightarrow> job \<Rightarrow> 'x worker \<Rightarrow> derr option \<times> 'x worker" where
  "rate_Allow_job C P j w =
     (case rate_Allow P (wk_now C w) (recipientDomainsForJob (wc_parse C) j) (wk_windows w) of
        (refused, ws) \<Rightarrow> (map_option rate_error refused, w\<lparr>wk_windows := ws\<rparr>))"

definition backoff_error :: "string \<Rightarrow> derr" where
  "backoff_error d = ErrText (''delivery domain '' @ d @ '' is backed off'')"

definition backoff_Check_job ::
    "'x worker_config \<Rightarrow> backoff_policy \<Rightarrow> job \<Rightarrow> 'x worker \<Rightarrow> derr option \<times> 'x worker" where
  "backoff_Check_job C P j w =
     (map_option backoff_error (backoff_Check (wk_now C w)
        (domainBackoffKeys (qm_Farm (jb_queued j)) (job_Recipients (wc_parse C) j) (Scope P)) (wk_backoffs w)), w)"

definition backoff_Observe_job ::
    "'x worker_config \<Rightarrow> backoff_policy \<Rightarrow> job \<Rightarrow> address list \<Rightarrow> derr \<Rightarrow> 'x worker \<Rightarrow> 'x worker" where
  "backoff_Observe_job C P j rs cause w =
     w\<lparr>wk_backoffs := backoff_ObserveTemporaryFailure P (wk_now C w)
        (domainBackoffKeys (qm_Farm (jb_queued j)) rs (Scope P)) (wk_backoffs w)\<rparr>"

section \<open>The database\<close>

definition on_db ::
    "'x worker_config \<Rightarrow> (delivery_db \<Rightarrow> derr option \<times> delivery_db) \<Rightarrow> 'x worker \<Rightarrow> derr option \<times> 'x worker" where
  "on_db C f w = (case f (wk_db w) of (r, db) \<Rightarrow> (r, set_x (wc_tick C (wk_x w)) (w\<lparr>wk_db := db\<rparr>)))"

definition pg_RecordAttempts :: "'x worker_config \<Rightarrow> attempt list \<Rightarrow> 'x worker \<Rightarrow> derr option \<times> 'x worker" where
  "pg_RecordAttempts C as w = on_db C (RecordAttempts True (wc_fail C (wk_x w)) as) w"

definition pg_RecordExhausted ::
    "'x worker_config \<Rightarrow> queued_message \<Rightarrow> derr \<Rightarrow> 'x worker \<Rightarrow> derr option \<times> 'x worker" where
  "pg_RecordExhausted C q cause w =
     on_db C (RecordExhausted True (wc_fail C (wk_x w)) (wc_parse C) (wk_now C w) q (Some cause)) w"

definition pg_ScheduleRetry :: "'x worker_config \<Rightarrow> job \<Rightarrow> derr \<Rightarrow> 'x worker \<Rightarrow> derr option \<times> 'x worker" where
  "pg_ScheduleRetry C j cause w =
     on_db C (\<lambda>db. case ScheduleRetry ((wc_retry C (wk_x w))\<lparr>re_parse := wc_parse C, re_now := wk_now C w\<rparr>)
                       j (Some cause) (db_outbox db) of
                     (r, rows) \<Rightarrow> (r, db\<lparr>db_outbox := rows\<rparr>)) w"

section \<open>The wiring\<close>

definition worker_handler :: "'x worker_config \<Rightarrow> 'x worker handler" where
  "worker_handler C =
     \<lparr>h_store = True,
      h_transport = Some (worker_Deliver C),
      h_RecordAttempt = \<lambda>a. pg_RecordAttempts C [a],
      h_RecordAttempts = Some (pg_RecordAttempts C),
      h_retry = Some (pg_ScheduleRetry C),
      h_metrics = \<lambda>_ w. w,
      h_throttler = map_option (\<lambda>P. \<lparr>th_Acquire = coordinated_Acquire C P, th_release = coordinated_release C P\<rparr>)
        (wc_throttle C),
      h_rateLimiter = map_option (rate_Allow_job C) (wc_rate C),
      h_backoff = map_option (\<lambda>P. \<lparr>bi_Check = backoff_Check_job C P, bi_Observe = backoff_Observe_job C P\<rparr>)
        (wc_backoff C),
      h_exhaustionHook = Some (pg_RecordExhausted C),
      h_localResolver = Some (\<lambda>a. on_x (wc_resolve C a)),
      h_localDeliverer = Some (\<lambda>j r mb. on_x (wc_deliver C j r mb)),
      h_timeNow = wk_now C\<rparr>"

section \<open>Settled recipients\<close>

text \<open>The message \<open>mid\<close> needs no more work for an address: an attempt row says that it was delivered,
  bounced or given up, or a retry for it is in the outbox.\<close>

definition recipient_settled :: "addr_parser \<Rightarrow> string \<Rightarrow> 'x worker \<Rightarrow> string \<Rightarrow> bool" where
  "recipient_settled parse mid w e \<longleftrightarrow>
     (\<exists>row\<in>set (db_attempts (wk_db w)). ar_message_id row = mid \<and> ar_recipient row = e \<and> ar_status row \<noteq> AttemptFailed) \<or>
     (\<exists>row\<in>set (db_outbox (wk_db w)). \<exists>j. qm_MessageID (jb_queued j) = mid \<and>
        e \<in> Email ` set (job_Recipients parse j) \<and> ob_dedupe_key row = retryDedupeKey parse j)"

text \<open>The exceptions: the address has no domain, so that the transport does not plan a batch for it, or the RCPT
  command of one of the recipients \<open>R\<close> with the same domain was not sent.\<close>

definition unsent_in_domain :: "address list \<Rightarrow> 'x worker \<Rightarrow> string \<Rightarrow> bool" where
  "unsent_in_domain R w domain \<longleftrightarrow>
     list_ex (\<lambda>r'. domain_of r' = domain \<and> unsent_rcpt (ts_unsent (wk_transport w)) r') R"

definition settled_or_unsent :: "addr_parser \<Rightarrow> string \<Rightarrow> address list \<Rightarrow> 'x worker \<Rightarrow> string \<Rightarrow> bool" where
  "settled_or_unsent parse mid R w e \<longleftrightarrow> recipient_settled parse mid w e \<or>
     normalizedRecipientDomain e = [] \<or> unsent_in_domain R w (normalizedRecipientDomain e)"

lemma keeps_settled_or_unsent:
  fixes f :: "'x worker \<Rightarrow> 'x worker"
  assumes "\<And>w. set (db_attempts (wk_db w)) \<subseteq> set (db_attempts (wk_db (f w))) \<and>
    set (db_outbox (wk_db w)) \<subseteq> set (db_outbox (wk_db (f w))) \<and>
    (\<exists>l. ts_unsent (wk_transport (f w)) = ts_unsent (wk_transport w) @ l)"
  shows "keeps (settled_or_unsent parse mid R) f"
  unfolding keeps_def
proof (intro allI impI)
  fix w :: "'x worker" and e assume s: "settled_or_unsent parse mid R w e"
  note m = assms [of w]
  have "recipient_settled parse mid (f w) e" if "recipient_settled parse mid w e"
    using that m unfolding recipient_settled_def by blast
  moreover have "unsent_in_domain R (f w) d" if "unsent_in_domain R w d" for d
    using that m by (auto simp: unsent_in_domain_def list_ex_iff)
  ultimately show "settled_or_unsent parse mid R (f w) e" using s unfolding settled_or_unsent_def by blast
qed

lemma keeps_same_db:
  "(\<And>w. wk_db (f w) = wk_db w) \<Longrightarrow> (\<And>w. wk_transport (f w) = wk_transport w) \<Longrightarrow>
   keeps (settled_or_unsent parse mid R) f"
  by (rule keeps_settled_or_unsent) simp

lemma keeps_same_unsent:
  "(\<And>w. wk_db (f w) = wk_db w) \<Longrightarrow> (\<And>w. ts_unsent (wk_transport (f w)) = ts_unsent (wk_transport w)) \<Longrightarrow>
   keeps (settled_or_unsent parse mid R) f"
  by (rule keeps_settled_or_unsent) simp

lemma keeps_more:
  assumes "\<And>w. set (db_attempts (wk_db w)) \<subseteq> set (db_attempts (wk_db (snd (f w)))) \<and>
    set (db_outbox (wk_db w)) \<subseteq> set (db_outbox (wk_db (snd (f w))))"
    and "\<And>w. ts_unsent (wk_transport (snd (f w))) = ts_unsent (wk_transport w)"
  shows "keeps (settled_or_unsent parse mid R) (snd \<circ> f)"
  using assms by (intro keeps_settled_or_unsent) simp

named_theorems worker_db \<open>operations that leave the tables alone\<close>

lemma set_x_db [simp]: "wk_db (set_x x w) = wk_db w"
  by (simp add: set_x_def)

lemma set_x_unsent [simp]: "ts_unsent (wk_transport (set_x x w)) = ts_unsent (wk_transport w)"
  by (simp add: set_x_def)

lemma on_x_unsent [worker_db]: "ts_unsent (wk_transport (snd (on_x f w))) = ts_unsent (wk_transport w)"
  by (simp add: on_x_def)

lemma on_db_unsent [worker_db]: "ts_unsent (wk_transport (snd (on_db C f w))) = ts_unsent (wk_transport w)"
  by (simp add: on_db_def split: prod.splits)

lemma on_x_db [worker_db]: "wk_db (snd (on_x f w)) = wk_db w"
  by (simp add: on_x_def)

lemma smtp_Deliver_db [worker_db]: "wk_db (snd (smtp_Deliver C j w)) = wk_db w"
  by (simp add: smtp_Deliver_def split: prod.splits)

lemma breaker_Deliver_db [worker_db]: "wk_db (snd (breaker_Deliver C T j w)) = wk_db w"
proof -
  define d where "d = circuit_domain (wc_parse C) j"
  obtain x c where e: "circuit_enter T (wk_now C w) (circuit_of w d) = (x, c)"
    by (cases "circuit_enter T (wk_now C w) (circuit_of w d)")
  let ?w = "w\<lparr>wk_circuits := (wk_circuits w)(d \<mapsto> c)\<rparr>"
  obtain r w1 where s: "smtp_Deliver C j ?w = (r, w1)" by (cases "smtp_Deliver C j ?w")
  then have "wk_db w1 = wk_db w" using smtp_Deliver_db [of C j ?w] by simp
  then show ?thesis using e s by (cases x) (simp_all add: breaker_Deliver_def Let_def d_def)
qed

lemma worker_Deliver_db [worker_db]: "wk_db (snd (worker_Deliver C j w)) = wk_db w"
  by (simp add: worker_Deliver_def worker_db split: option.splits)

lemma gates_db [worker_db]:
  "wk_db (snd (coordinated_Acquire C P j w)) = wk_db w"
  "wk_db (coordinated_release C P j w) = wk_db w"
  "wk_db (snd (rate_Allow_job C R j w)) = wk_db w"
  "wk_db (snd (backoff_Check_job C B j w)) = wk_db w"
  "wk_db (backoff_Observe_job C B j rs cause w) = wk_db w"
  "wk_transport (snd (coordinated_Acquire C P j w)) = wk_transport w"
  "wk_transport (coordinated_release C P j w) = wk_transport w"
  "wk_transport (snd (rate_Allow_job C R j w)) = wk_transport w"
  "wk_transport (snd (backoff_Check_job C B j w)) = wk_transport w"
  "wk_transport (backoff_Observe_job C B j rs cause w) = wk_transport w"
  by (simp_all add: coordinated_Acquire_def coordinated_release_def rate_Allow_job_def backoff_Check_job_def
      backoff_Observe_job_def Let_def split: prod.splits)

lemma pg_RecordAttempts_result:
  assumes "pg_RecordAttempts C as w = (r, w')"
  shows "db_outbox (wk_db w') = db_outbox (wk_db w) \<and>
    (r = None \<and> db_attempts (wk_db w') = db_attempts (wk_db w) @ map attempt_to_row as \<or>
     r \<noteq> None \<and> wk_db w' = wk_db w)"
proof -
  obtain r' db where r': "RecordAttempts True (wc_fail C (wk_x w)) as (wk_db w) = (r', db)"
    by (cases "RecordAttempts True (wc_fail C (wk_x w)) as (wk_db w)")
  then show ?thesis
    using RecordAttempts_cases [OF r'] assms by (auto simp: pg_RecordAttempts_def on_db_def)
qed

lemma pg_RecordExhausted_result:
  assumes "pg_RecordExhausted C q cause w = (r, w')"
  shows "db_outbox (wk_db w') = db_outbox (wk_db w) \<and>
    (r = None \<and> db_attempts (wk_db w') = db_attempts (wk_db w) @ map attempt_to_row (attemptsFor (wc_parse C) (wk_now C w)
         \<lparr>jb_queued = q, jb_recipientCache = None, jb_rawPayload = []\<rparr> AttemptExhausted (Some cause) (wk_now C w)) \<or>
     r \<noteq> None \<and> wk_db w' = wk_db w)"
proof -
  let ?f = "RecordExhausted True (wc_fail C (wk_x w)) (wc_parse C) (wk_now C w) q (Some cause)"
  obtain r' db where r': "?f (wk_db w) = (r', db)" by (cases "?f (wk_db w)")
  then show ?thesis
    using RecordExhausted_cases [OF r'] assms by (auto simp: pg_RecordExhausted_def on_db_def)
qed

lemma ScheduleRetry_rows:
  assumes "ScheduleRetry E j cause rows = (r, rows')"
  shows "set rows \<subseteq> set rows' \<and> (r = None \<longrightarrow> retryDedupeKey (re_parse E) j \<in> ob_dedupe_key ` set rows')"
  using assms
  by (auto simp: ScheduleRetry_def Let_def insert_row_def split: if_splits option.splits sum.splits)

lemma pg_ScheduleRetry_result:
  assumes "pg_ScheduleRetry C j cause w = (r, w')"
  shows "db_attempts (wk_db w') = db_attempts (wk_db w) \<and> set (db_outbox (wk_db w)) \<subseteq> set (db_outbox (wk_db w')) \<and>
    (r = None \<longrightarrow> retryDedupeKey (wc_parse C) j \<in> ob_dedupe_key ` set (db_outbox (wk_db w')))"
proof -
  let ?E = "(wc_retry C (wk_x w))\<lparr>re_parse := wc_parse C, re_now := wk_now C w\<rparr>"
  obtain r' rows where r': "ScheduleRetry ?E j (Some cause) (db_outbox (wk_db w)) = (r', rows)"
    by (cases "ScheduleRetry ?E j (Some cause) (db_outbox (wk_db w))")
  then show ?thesis using assms ScheduleRetry_rows [OF r'] by (auto simp: pg_ScheduleRetry_def on_db_def)
qed

lemma pg_RecordAttempts_keeps: "keeps (settled_or_unsent parse mid R) (snd \<circ> pg_RecordAttempts C as)"
proof (rule keeps_more, goal_cases)
  case (1 w)
  then show ?case using pg_RecordAttempts_result [of C as w, OF prod.collapse [symmetric]] by auto
qed (simp add: pg_RecordAttempts_def worker_db)

lemma pg_RecordExhausted_keeps: "keeps (settled_or_unsent parse mid R) (snd \<circ> pg_RecordExhausted C q c)"
proof (rule keeps_more, goal_cases)
  case (1 w)
  then show ?case using pg_RecordExhausted_result [of C q c w, OF prod.collapse [symmetric]] by auto
qed (simp add: pg_RecordExhausted_def worker_db)

lemma pg_ScheduleRetry_keeps: "keeps (settled_or_unsent parse mid R) (snd \<circ> pg_ScheduleRetry C j c)"
proof (rule keeps_more, goal_cases)
  case (1 w)
  then show ?case using pg_ScheduleRetry_result [of C j c w, OF prod.collapse [symmetric]] by auto
qed (simp add: pg_ScheduleRetry_def worker_db)

lemma settled_by_attempt:
  assumes "db_attempts (wk_db w') = rows @ map attempt_to_row as" and "a \<in> set as"
    and "at_MessageID a = mid" and "at_Status a \<noteq> AttemptFailed"
  shows "recipient_settled parse mid w' (at_Recipient a)"
proof -
  have "attempt_to_row a \<in> set (db_attempts (wk_db w'))" using assms(1,2) by simp
  moreover have "ar_message_id (attempt_to_row a) = mid" "ar_recipient (attempt_to_row a) = at_Recipient a"
    "ar_status (attempt_to_row a) \<noteq> AttemptFailed" using assms(3,4) by (simp_all add: attempt_to_row_def Let_def)
  ultimately show ?thesis unfolding recipient_settled_def by blast
qed

lemma pg_RecordAttempts_settles:
  assumes "fst (pg_RecordAttempts C as w) = None" and "a \<in> set as" and "at_MessageID a = mid" and "final_status (at_Status a)"
  shows "recipient_settled parse mid (snd (pg_RecordAttempts C as w)) (at_Recipient a)"
  using settled_by_attempt [OF _ assms(2,3)] assms(1,4) pg_RecordAttempts_result [of C as w, OF prod.collapse [symmetric]]
  by (auto simp: final_status_def)

lemma settled_by_retry:
  assumes "retryDedupeKey parse j \<in> ob_dedupe_key ` set (db_outbox (wk_db w'))"
    and "qm_MessageID (jb_queued j) = mid" and "r \<in> set (job_Recipients parse j)"
  shows "recipient_settled parse mid w' (Email r)"
  using assms unfolding recipient_settled_def by force

lemma smtp_Deliver_unsent: "\<exists>l. ts_unsent (wk_transport (snd (smtp_Deliver C j w))) = ts_unsent (wk_transport w) @ l"
  using Deliver_unsent [of "wc_net C" "wc_smtp C" "wc_parse C" j "wk_transport w"]
  by (auto simp: smtp_Deliver_def split: prod.splits)

lemma worker_Deliver_unsent: "\<exists>l. ts_unsent (wk_transport (snd (worker_Deliver C j w))) = ts_unsent (wk_transport w) @ l"
proof (cases "wc_breaker C")
  case None
  then show ?thesis using smtp_Deliver_unsent by (simp add: worker_Deliver_def)
next
  case (Some T)
  then show ?thesis using smtp_Deliver_unsent [of C j "w\<lparr>wk_circuits := (wk_circuits w)(circuit_domain (wc_parse C) j \<mapsto> c)\<rparr>" for c]
    by (auto simp: worker_Deliver_def breaker_Deliver_def Let_def split: option.splits prod.splits) (metis snd_conv)
qed

lemma smtp_partial_names_all:
  assumes N: "stable_ext (wc_net C)" and run: "smtp_Deliver C j w = (x, w')" and R: "set (job_Recipients (wc_parse C) j) \<subseteq> set R"
  shows "x = Some err \<Longrightarrow> as_partial err = Some (ds, fs) \<Longrightarrow> r \<in> set (job_Recipients (wc_parse C) j) \<Longrightarrow>
      r \<in> set ds \<union> fst ` set fs \<or> settled_or_unsent parse mid R w' (Email r)"
proof -
  obtain t where t: "Deliver (wc_net C) (wc_smtp C) (wc_parse C) j (wk_transport w) = (x, t)" "w' = w\<lparr>wk_transport := t\<rparr>"
    using run by (auto simp: smtp_Deliver_def split: prod.splits)
  obtain l where l: "ts_unsent t = ts_unsent (wk_transport w) @ l"
    and res: "x = None \<or> x = Some no_deliverable_recipients \<or>
     (\<exists>ds fs. x = Some (ErrPartial ds fs) \<and> fs \<noteq> [] \<and>
        set ds \<union> fst ` set fs \<subseteq> {r \<in> set (job_Recipients (wc_parse C) j). domain_of r \<noteq> []} \<and>
        (\<forall>r\<in>set (job_Recipients (wc_parse C) j). domain_of r \<noteq> [] \<longrightarrow>
           accounted (job_Recipients (wc_parse C) j) l (set ds \<union> fst ` set fs) r))"
    using Deliver_result [OF N t(1)] by blast
  show "r \<in> set ds \<union> fst ` set fs \<or> settled_or_unsent parse mid R w' (Email r)"
    if "x = Some err" "as_partial err = Some (ds, fs)" "r \<in> set (job_Recipients (wc_parse C) j)"
  proof (cases "domain_of r = []")
    case True
    then show ?thesis by (simp add: settled_or_unsent_def domain_of_def)
  next
    case False
    then have "accounted (job_Recipients (wc_parse C) j) l (set ds \<union> fst ` set fs) r"
      using res that by (auto simp: no_deliverable_recipients_def)
    moreover have "unsent_in_domain R w' (domain_of r)"
      if "r' \<in> set (job_Recipients (wc_parse C) j)" "domain_of r' = domain_of r" "unsent_rcpt l r'" for r'
      using that R l t(2) by (auto simp: unsent_in_domain_def list_ex_iff)
    ultimately show ?thesis unfolding accounted_def settled_or_unsent_def domain_of_def [symmetric] by blast
  qed
qed

lemma worker_partial_names_all:
  assumes N: "stable_ext (wc_net C)" and run: "worker_Deliver C j w = (x, w')" and R: "set (job_Recipients (wc_parse C) j) \<subseteq> set R"
  shows "x = Some err \<Longrightarrow> as_partial err = Some (ds, fs) \<Longrightarrow> r \<in> set (job_Recipients (wc_parse C) j) \<Longrightarrow>
      r \<in> set ds \<union> fst ` set fs \<or> settled_or_unsent parse mid R w' (Email r)"
proof -
  consider (plain) "smtp_Deliver C j w = (x, w')"
    | (refused) T d f where "x = Some (circuit_error T d f)" "wk_transport w' = wk_transport w"
    | (passed) w1 w2 where "smtp_Deliver C j w1 = (x, w2)" "wk_transport w1 = wk_transport w"
        "wk_transport w' = wk_transport w2" "wk_db w' = wk_db w2"
    using run by (auto simp: worker_Deliver_def breaker_Deliver_def Let_def split: option.splits prod.splits)
  note cases = this
  show "r \<in> set ds \<union> fst ` set fs \<or> settled_or_unsent parse mid R w' (Email r)"
    if x: "x = Some err" "as_partial err = Some (ds, fs)" "r \<in> set (job_Recipients (wc_parse C) j)"
    using cases
  proof cases
    case plain
    then show ?thesis using smtp_partial_names_all [OF N _ R] x by blast
  next
    case (refused T d f)
    have "as_partial (circuit_error T d f) = None"
      by (cases f) (simp_all add: ErrCircuitOpen_def ErrConcurrencyLimitExceeded_def)
    then show ?thesis using refused(1) x by simp
  next
    case passed
    then have "settled_or_unsent parse mid R w' (Email r) = settled_or_unsent parse mid R w2 (Email r)"
      by (simp add: settled_or_unsent_def recipient_settled_def unsent_in_domain_def)
    then show ?thesis using smtp_partial_names_all [OF N passed(1) R x] by simp
  qed
qed

lemma worker_Deliver_keeps: "keeps (settled_or_unsent parse mid R) (snd \<circ> worker_Deliver C j)"
  by (rule keeps_settled_or_unsent) (simp add: worker_Deliver_db worker_Deliver_unsent)

section \<open>The wiring meets the contract of the handler\<close>

definition worker_deliverable :: "'x worker_config \<Rightarrow> address list \<Rightarrow> job \<Rightarrow> bool" where
  "worker_deliverable C R j \<longleftrightarrow> stable_ext (wc_net C) \<and> set (job_Recipients (wc_parse C) j) \<subseteq> set R"

interpretation worker_ports: delivery_ports "worker_handler C" "wc_parse C" mid
  "settled_or_unsent (wc_parse C) mid R" "worker_deliverable C R" for C :: "'x worker_config" and mid R
proof (unfold_locales, goal_cases)
  case (1 j rs)
  then show ?case by (auto simp: worker_deliverable_def)
next
  case (2 f j)
  then show ?case using worker_Deliver_keeps by (auto simp: worker_handler_def)
next
  case (3 a)
  then show ?case using pg_RecordAttempts_keeps by (auto simp: worker_handler_def)
next
  case (4 b as)
  then show ?case using pg_RecordAttempts_keeps by (auto simp: worker_handler_def)
next
  case (5 s j c)
  then show ?case using pg_ScheduleRetry_keeps by (auto simp: worker_handler_def)
next
  case (6 ev)
  then show ?case by (simp add: worker_handler_def keeps_def)
next
  case (7 t j)
  then show ?case by (auto simp: worker_handler_def worker_db intro!: keeps_same_db)
next
  case (8 t j)
  then show ?case by (auto simp: worker_handler_def worker_db intro!: keeps_same_db)
next
  case (9 al j)
  then show ?case by (auto simp: worker_handler_def worker_db intro!: keeps_same_db)
next
  case (10 bo j)
  then show ?case by (auto simp: worker_handler_def worker_db intro!: keeps_same_db)
next
  case (11 bo j rs c)
  then show ?case by (auto simp: worker_handler_def worker_db intro!: keeps_same_db)
next
  case (12 k q c)
  then show ?case using pg_RecordExhausted_keeps by (auto simp: worker_handler_def)
next
  case (13 rv a')
  then show ?case by (auto simp: worker_handler_def worker_db intro!: keeps_same_unsent)
next
  case (14 dl j r mb)
  then show ?case by (auto simp: worker_handler_def worker_db intro!: keeps_same_unsent)
next
  case (15 a w)
  then show ?case using pg_RecordAttempts_settles [of C "[a]" w a mid] by (simp add: worker_handler_def settled_or_unsent_def)
next
  case (16 b as w a)
  then show ?case using pg_RecordAttempts_settles [of C as w a mid] by (simp add: worker_handler_def settled_or_unsent_def)
next
  case (17 s j c w r)
  then show ?case
    using settled_by_retry [of "wc_parse C" j "snd (pg_ScheduleRetry C j c w)" mid r]
      pg_ScheduleRetry_result [of C j c w, OF prod.collapse [symmetric]] by (simp add: worker_handler_def settled_or_unsent_def)
next
  case (18 k q c w r)
  let ?j = "\<lparr>jb_queued = q, jb_recipientCache = None, jb_rawPayload = []\<rparr>"
  let ?as = "attemptsFor (wc_parse C) (wk_now C w) ?j AttemptExhausted (Some c) (wk_now C w)"
  have "r \<in> set (job_Recipients (wc_parse C) ?j)" using 18 by (simp add: job_Recipients_def)
  then obtain a where a: "a \<in> set ?as" "at_Recipient a = Email r" "at_Status a = AttemptExhausted" "at_MessageID a = mid"
    unfolding attemptsFor_def using attemptsForRecipients_has 18(3) by (metis job.select_convs(1))
  have k: "k = pg_RecordExhausted C" using 18(1) by (simp add: worker_handler_def)
  have "db_attempts (wk_db (snd (k q c w))) = db_attempts (wk_db w) @ map attempt_to_row ?as"
    using pg_RecordExhausted_result [of C q c w, OF prod.collapse [symmetric]] 18(2) unfolding k by simp
  from settled_by_attempt [OF this a(1,4)] a(2,3) show ?case by (simp add: settled_or_unsent_def)
next
  case 19
  then show ?case by (simp add: worker_handler_def)
next
  case 20
  then show ?case by (simp add: worker_handler_def)
next
  case (21 f j w err ds fs r)
  then have f: "f = worker_Deliver C" by (simp add: worker_handler_def)
  have N: "stable_ext (wc_net C)" and R: "set (job_Recipients (wc_parse C) j) \<subseteq> set R"
    using 21(2) by (simp_all add: worker_deliverable_def)
  from worker_partial_names_all [OF N prod.collapse [symmetric] R 21(3) [unfolded f] 21(4,5)]
  show ?case unfolding f by blast
qed

lemma worker_settles_or_unsent:
  assumes "HandleEvent (worker_handler C) (wc_parse C) unmarshal payload st = (None, st')"
    and "DecodeQueuedMessage (wc_parse C) (unmarshal payload) = Inr q"
    and "stable_ext (wc_net C)"
    and "r \<in> set (qm_Recipients (wc_parse C) q)" and "NormalizeAddress (wc_parse C) (Email r) = Inr (Email r)"
    and "domain_of r \<noteq> []"
  shows "recipient_settled (wc_parse C) (qm_MessageID q) (hs_world st') (Email r) \<or>
    unsent_in_domain (qm_Recipients (wc_parse C) q) (hs_world st') (domain_of r)"
  using worker_ports.every_recipient_settled [OF assms(1,2) refl assms(4,5), of "qm_Recipients (wc_parse C) q"] assms(3,6)
  by (simp add: worker_deliverable_def settled_or_unsent_def domain_of_def)

section \<open>Properties\<close>

text \<open>
  C4. No recipient is lost, unless a connection breaks. When the worker acknowledges an event (the handler returns no
  error), every recipient of the decoded message that has a domain and is a normalised address is settled in the
  database (an attempt row says that the message was delivered to it, bounced or was given up, or a retry
  that includes it is in the outbox), or during this run the RCPT command of a recipient of the message with the same domain
  was not sent: its write failed, or it contains a line break. This holds for every outcome of local
  delivery, of the three gates and the circuit breaker, of every host, reply and database call, with the SMTP
  transport, the PostgreSQL recorder, scheduler and exhaustion hook as the worker wires them. The history of
  unsent commands is empty before the run; a server's extensions do not change by sending commands.
\<close>

theorem no_recipient_is_lost:
  assumes "HandleEvent (worker_handler C) (wc_parse C) unmarshal payload st = (None, st')"
    and "DecodeQueuedMessage (wc_parse C) (unmarshal payload) = Inr q"
    and "stable_ext (wc_net C)" and "ts_unsent (wk_transport (hs_world st)) = []"
    and "r \<in> set (qm_Recipients (wc_parse C) q)" and "NormalizeAddress (wc_parse C) (Email r) = Inr (Email r)"
    and "domain_of r \<noteq> []"
  shows "recipient_settled (wc_parse C) (qm_MessageID q) (hs_world st') (Email r) \<or>
    (\<exists>r'\<in>set (qm_Recipients (wc_parse C) q). domain_of r' = domain_of r \<and>
       unsent_rcpt (ts_unsent (wk_transport (hs_world st'))) r')"
  using worker_settles_or_unsent [OF assms(1,2,3,5,6,7)] by (auto simp: unsent_in_domain_def list_ex_iff)

definition sample_config :: "int list worker_config" where
  "sample_config =
     \<lparr>wc_net = scripted_net (\<lambda>_. False), wc_smtp = plain_transport NoRouter, wc_parse = identity_parser,
      wc_breaker = None, wc_throttle = None, wc_rate = None, wc_backoff = None,
      wc_retry = \<lambda>_. sample_env\<lparr>re_policy := \<lparr>rp_Delays = [minutes 5], rp_JitterRatio = 0, rp_MaxDelay = 0\<rparr>\<rparr>,
      wc_fail = \<lambda>_ _. None, wc_tick = \<lambda>x. x,
      wc_resolve = \<lambda>a x. (Inr \<lparr>ll_Mailbox = \<lparr>lm_CompanyID = [], lm_DomainID = [], lm_UserID = [], lm_Address = []\<rparr>,
        ll_DomainLocal = a = ''l@home.org'', ll_RecipientExists = a = ''l@home.org''\<rparr>, x),
      wc_deliver = \<lambda>j r mb x. (None, x)\<rparr>"

definition sample_worker :: "int list \<Rightarrow> int list worker" where
  "sample_worker replies =
     \<lparr>wk_transport = scripted_state replies, wk_circuits = Map.empty, wk_used = \<lambda>_. 0, wk_windows = Map.empty,
      wk_backoffs = Map.empty, wk_db = empty_db\<rparr>"

definition sample_hstate :: "int list \<Rightarrow> int list worker hstate" where
  "sample_hstate replies = \<lparr>hs_world = sample_worker replies, hs_counters = None, hs_log = []\<rparr>"

definition sample_queued :: queued_message where
  "sample_queued = sample_message\<lparr>qm_To := map (\<lambda>e. \<lparr>Name = [], Email = e\<rparr>) [''b@x.org''],
     qm_Cc := [], qm_Bcc := []\<rparr>"

lemma sample_run:
  "fst (HandleEvent (worker_handler sample_config) identity_parser (\<lambda>_. Inr sample_queued) ''{}''
     (sample_hstate [250, 451])) = None"
  by code_simp

lemma sample_decoded:
  obtains q where "DecodeQueuedMessage identity_parser (Inr sample_queued) = Inr q"
    and "\<lparr>Name = [], Email = ''b@x.org''\<rparr> \<in> set (qm_Recipients identity_parser q)"
proof -
  have "case DecodeQueuedMessage identity_parser (Inr sample_queued) of
      Inr q \<Rightarrow> \<lparr>Name = [], Email = ''b@x.org''\<rparr> \<in> set (qm_Recipients identity_parser q) | Inl _ \<Rightarrow> False" by code_simp
  then show thesis using that by (auto split: sum.splits)
qed

lemma sample_normalised: "NormalizeAddress identity_parser ''b@x.org'' = Inr ''b@x.org''"
  "domain_of \<lparr>Name = [], Email = ''b@x.org''\<rparr> \<noteq> []"
  by code_simp+

lemma sample_sent:
  "ts_unsent (wk_transport (hs_world (sample_hstate l))) = []"
  "ts_unsent (wk_transport (hs_world (snd (HandleEvent (worker_handler sample_config) identity_parser
     (\<lambda>_. Inr sample_queued) ''{}'' (sample_hstate [250, 451]))))) = []"
  by (simp add: sample_hstate_def sample_worker_def scripted_state_def) code_simp

lemma sample_config_ports [simp]:
  "wc_parse sample_config = identity_parser" "wc_net sample_config = scripted_net (\<lambda>_. False)"
  by (simp_all add: sample_config_def)

theorem no_recipient_is_lost_witness:
  "\<exists>q st'. HandleEvent (worker_handler sample_config) identity_parser (\<lambda>_. Inr sample_queued) ''{}''
       (sample_hstate [250, 451]) = (None, st') \<and>
     DecodeQueuedMessage identity_parser (Inr sample_queued) = Inr q \<and>
     recipient_settled identity_parser (qm_MessageID q) (hs_world st') ''b@x.org''"
proof -
  let ?run = "HandleEvent (worker_handler sample_config) identity_parser (\<lambda>_. Inr sample_queued) ''{}'' (sample_hstate [250, 451])"
  obtain st' where run: "?run = (None, st')" using sample_run by (cases ?run) simp
  obtain q where q: "DecodeQueuedMessage identity_parser (Inr sample_queued) = Inr q"
    and r: "\<lparr>Name = [], Email = ''b@x.org''\<rparr> \<in> set (qm_Recipients identity_parser q)" using sample_decoded by metis
  have "ts_unsent (wk_transport (hs_world st')) = []" using sample_sent(2) run by simp
  then show ?thesis
    using no_recipient_is_lost [where C = sample_config and unmarshal = "\<lambda>_. Inr sample_queued" and payload = "''{}''"
        and r = "\<lparr>Name = [], Email = ''b@x.org''\<rparr>", simplified, OF run q scripted_net_laws sample_sent(1) r]
      sample_normalised run q by auto
qed

definition mixed_config :: "int list worker_config" where
  "mixed_config = sample_config\<lparr>wc_backoff := Some \<lparr>BaseDelay = 10, MaxDelay = 100, Scope = ScopeDomain\<rparr>,
     wc_retry := \<lambda>_. sample_env\<lparr>re_policy := \<lparr>rp_Delays = [], rp_JitterRatio = 0, rp_MaxDelay = 0\<rparr>\<rparr>\<rparr>"

definition mixed_queued :: queued_message where
  "mixed_queued = sample_queued\<lparr>qm_To := map (\<lambda>e. \<lparr>Name = [], Email = e\<rparr>) [''l@home.org'', ''b@x.org'']\<rparr>"

definition mixed_state :: "int list worker hstate" where
  "mixed_state = \<lparr>hs_world = (sample_worker [])\<lparr>wk_backoffs := [''x.org'' \<mapsto> \<lparr>bs_failures = 1, bs_until = 100\<rparr>]\<rparr>,
     hs_counters = None, hs_log = []\<rparr>"

text \<open>
  Giving up on a message reports recipients that already have it. A message for a local mailbox and
  a remote address is delivered locally, the remote domain is backed off, and no retry is left: the
  exhaustion hook gets the whole queued message instead of the remaining job, so the attempts say of
  the local mailbox first delivered and then exhausted.
\<close>

theorem exhaustion_covers_delivered_recipients:
  "map (\<lambda>row. (ar_recipient row, ar_status row)) (db_attempts (wk_db (hs_world (snd
     (HandleEvent (worker_handler mixed_config) identity_parser (\<lambda>_. Inr mixed_queued) [] mixed_state))))) =
   [(''l@home.org'', AttemptDelivered), (''l@home.org'', AttemptExhausted), (''b@x.org'', AttemptExhausted)]"
  by code_simp

end
