(* ===== verification/EventStream.thy ===== *)
theory EventStream
  imports GoBase
begin

text \<open>
  The consumer of event streams (\<open>internal/eventstream/redis.go\<close>, \<open>router.go\<close>): validation of its
  options, decoding of stream messages, the acknowledgement protocol with its dead-letter stream,
  one round of claiming and reading, and the routing of events to handlers. The Redis client is
  the record \<open>stream_client\<close> of its commands, acting on a state \<open>'r\<close> that the handler shares; the
  handler is a function on messages. \<open>cst_log\<close> is a history of what the consumer did. Log lines
  and contexts are left out.
\<close>

section \<open>Messages\<close>

record message =
  ms_ID :: string
  ms_Stream :: string
  ms_OutboxID :: string
  ms_PartitionKey :: string
  ms_Payload :: string

text \<open>A value of a stream entry: a string, a byte slice, or a value of another type.\<close>

datatype field_value = VStr string | VBytes string | VOther string

record xmessage =
  xm_ID :: string
  xm_Values :: "string \<rightharpoonup> field_value"

definition maxRedisMetadataBytes :: nat where "maxRedisMetadataBytes = 1024"
definition maxRedisPayloadBytes :: nat where "maxRedisPayloadBytes = 2 ^ 20"

abbreviation line_breaks :: string where "line_breaks \<equiv> [CHR 0x0D, CHR 0x0A]"

definition quoted_key :: "string \<Rightarrow> string" where
  "quoted_key k = [CHR 0x22] @ k @ [CHR 0x22]"

definition check_value :: "string \<Rightarrow> nat \<Rightarrow> string \<Rightarrow> string res" where
  "check_value key maxBytes v0 =
     (let v = go_TrimSpace v0 in
      if v = [] then Inl (''redis stream message has empty '' @ quoted_key key)
      else if go_ContainsAny v line_breaks \<and> key \<noteq> ''payload''
      then Inl (''redis stream message has invalid '' @ quoted_key key)
      else if maxBytes < length v then Inl (''redis stream message '' @ quoted_key key @ '' is too long'')
      else Inr v)"

definition stringValue :: "(string \<rightharpoonup> field_value) \<Rightarrow> string \<Rightarrow> nat \<Rightarrow> string res" where
  "stringValue values key maxBytes =
     (case values key of
        None \<Rightarrow> Inl (''redis stream message is missing '' @ quoted_key key)
      | Some (VStr v) \<Rightarrow> check_value key maxBytes v
      | Some (VBytes v) \<Rightarrow> check_value key maxBytes v
      | Some (VOther t) \<Rightarrow> Inl (''redis stream message field '' @ quoted_key key @ '' has unsupported type '' @ t))"

text \<open>\<open>jv\<close> is \<open>json.Valid\<close>.\<close>

definition decodeRedisMessage :: "(string \<Rightarrow> bool) \<Rightarrow> string \<Rightarrow> xmessage \<Rightarrow> message res" where
  "decodeRedisMessage jv stream m =
     (case stringValue (xm_Values m) ''outbox_id'' maxRedisMetadataBytes of
        Inl e \<Rightarrow> Inl e
      | Inr outboxID \<Rightarrow>
     (case stringValue (xm_Values m) ''partition_key'' maxRedisMetadataBytes of
        Inl e \<Rightarrow> Inl e
      | Inr partitionKey \<Rightarrow>
     (case stringValue (xm_Values m) ''payload'' maxRedisPayloadBytes of
        Inl e \<Rightarrow> Inl e
      | Inr payloadRaw \<Rightarrow>
          if \<not> jv payloadRaw
          then Inl (''redis stream message '' @ quoted_key (xm_ID m) @ '' has invalid json payload'')
          else Inr \<lparr>ms_ID = xm_ID m, ms_Stream = stream, ms_OutboxID = outboxID,
                    ms_PartitionKey = partitionKey, ms_Payload = payloadRaw\<rparr>)))"

section \<open>The text of a dead-letter error\<close>

definition maxRedisDeadLetterErrorBytes :: nat where "maxRedisDeadLetterErrorBytes = 2048"

function rune_loop :: "nat \<Rightarrow> string \<Rightarrow> string \<Rightarrow> string" where
  "rune_loop limit out v =
     (if v = [] then out
      else if limit < length out + length (next_rune v) then out
      else rune_loop limit (out @ next_rune v) (drop (max 1 (rune_len v)) v))"
  by pat_completeness auto
termination
  by (relation "measure (\<lambda>(limit, out, v). length v)") auto

declare rune_loop.simps [simp del]

definition redisDeadLetterError :: "string option \<Rightarrow> string" where
  "redisDeadLetterError err =
     (case err of
        None \<Rightarrow> []
      | Some text \<Rightarrow>
          let v = go_TrimSpace (map (\<lambda>c. if c \<in> set line_breaks then CHR '' '' else c) text) in
          if length v \<le> maxRedisDeadLetterErrorBytes then v else rune_loop maxRedisDeadLetterErrorBytes [] v)"

section \<open>Options\<close>

record consumer_options =
  op_Client :: bool
  op_Stream :: string
  op_Group :: string
  op_Consumer :: string
  op_Count :: int
  op_Block :: int
  op_ClaimIdle :: int
  op_MaxDeliveries :: int
  op_DeadLetterStream :: string
  op_Handler :: bool

record consumer =
  cs_stream :: string
  cs_group :: string
  cs_consumer :: string
  cs_count :: int
  cs_block :: int
  cs_claimIdle :: int
  cs_maxDeliveries :: int
  cs_deadLetterStream :: string

definition redisClaimStartID :: string where "redisClaimStartID = ''0-0''"
definition defaultRedisMaxDeliveries :: int where "defaultRedisMaxDeliveries = 10"

definition validateRedisConsumerIdentifier :: "string \<Rightarrow> string \<Rightarrow> string res" where
  "validateRedisConsumerIdentifier name value0 =
     (let value = go_TrimSpace value0 in
      if value = [] then Inl (name @ '' is required'')
      else if go_ContainsAny value line_breaks then Inl (name @ '' is invalid'')
      else if maxRedisMetadataBytes < length value then Inl (name @ '' is too long'')
      else Inr value)"

definition NewRedisConsumer :: "consumer_options \<Rightarrow> consumer res" where
  "NewRedisConsumer opts =
     (if \<not> op_Client opts then Inl ''redis client is required''
      else case validateRedisConsumerIdentifier ''redis stream'' (op_Stream opts) of
        Inl e \<Rightarrow> Inl e
      | Inr stream \<Rightarrow>
     (case validateRedisConsumerIdentifier ''redis consumer group'' (op_Group opts) of
        Inl e \<Rightarrow> Inl e
      | Inr grp \<Rightarrow>
     (case validateRedisConsumerIdentifier ''redis consumer name'' (op_Consumer opts) of
        Inl e \<Rightarrow> Inl e
      | Inr name \<Rightarrow>
          if \<not> op_Handler opts then Inl ''event handler is required''
          else if op_ClaimIdle opts < 0 then Inl ''redis consumer claim idle duration must not be negative''
          else if op_MaxDeliveries opts < 0 then Inl ''redis consumer max deliveries must not be negative''
          else let d = go_TrimSpace (op_DeadLetterStream opts);
                   dead = (if d = [] then stream @ ''.dead'' else d) in
            if go_ContainsAny dead line_breaks then Inl ''redis consumer dead-letter stream is invalid''
            else if maxRedisMetadataBytes < length dead then Inl ''redis consumer dead-letter stream is too long''
            else Inr \<lparr>cs_stream = stream, cs_group = grp, cs_consumer = name,
                      cs_count = (if op_Count opts \<le> 0 then 100 else op_Count opts),
                      cs_block = (if op_Block opts \<le> 0 then 1000000000 else op_Block opts),
                      cs_claimIdle = op_ClaimIdle opts,
                      cs_maxDeliveries = (if op_MaxDeliveries opts = 0 then defaultRedisMaxDeliveries else op_MaxDeliveries opts),
                      cs_deadLetterStream = dead\<rparr>)))"

section \<open>The Redis client, the handler and the state\<close>

datatype read_error = RedisNil | ReadError string

record 'r stream_client =
  sc_XGroupCreate :: "string \<Rightarrow> string \<Rightarrow> 'r \<Rightarrow> string option \<times> 'r"
  sc_XAck :: "string \<Rightarrow> string \<Rightarrow> string \<Rightarrow> 'r \<Rightarrow> string option \<times> 'r"
  sc_XAdd :: "string \<Rightarrow> (string \<times> string) list \<Rightarrow> 'r \<Rightarrow> string option \<times> 'r"
  sc_XPendingExt :: "string \<Rightarrow> string \<Rightarrow> string \<Rightarrow> 'r \<Rightarrow> (string + int list) \<times> 'r" \<comment> \<open>retry counts\<close>
  sc_XAutoClaim :: "consumer \<Rightarrow> string \<Rightarrow> 'r \<Rightarrow> (string + xmessage list \<times> string) \<times> 'r"
  sc_XReadGroup :: "consumer \<Rightarrow> 'r \<Rightarrow> (read_error + (string \<times> xmessage list) list) \<times> 'r"
  sc_json_valid :: "string \<Rightarrow> bool"
  sc_timestamp :: "'r \<Rightarrow> string"

type_synonym 'r event_handler = "message \<Rightarrow> 'r \<Rightarrow> string option \<times> 'r"

datatype consumer_event =
    CMalformed string
  | CHandled message "string option"
  | CDead message string int "string option"
  | CAcked string "string option"

record 'r cstate =
  cst_world :: 'r
  cst_claimStart :: string
  cst_log :: "consumer_event list"

definition redis_call :: "('r \<Rightarrow> 'a \<times> 'r) \<Rightarrow> 'r cstate \<Rightarrow> 'a \<times> 'r cstate" where
  "redis_call f st = (fst (f (cst_world st)), st\<lparr>cst_world := snd (f (cst_world st))\<rparr>)"

definition note_event :: "consumer_event \<Rightarrow> 'r cstate \<Rightarrow> 'r cstate" where
  "note_event ev st = st\<lparr>cst_log := cst_log st @ [ev]\<rparr>"

section \<open>One message\<close>

text \<open>The closure that \<open>processRedisMessages\<close> passes down.\<close>

definition ack_message :: "consumer \<Rightarrow> 'r stream_client \<Rightarrow> string \<Rightarrow> 'r cstate \<Rightarrow> string option \<times> 'r cstate" where
  "ack_message C R i st =
     (case redis_call (sc_XAck R (cs_stream C) (cs_group C) i) st of (r, st1) \<Rightarrow> (r, note_event (CAcked i r) st1))"

definition dead_letter_values :: "consumer \<Rightarrow> message \<Rightarrow> string \<Rightarrow> int \<Rightarrow> string \<Rightarrow> (string \<times> string) list" where
  "dead_letter_values C m err deliveries at =
     [(''original_stream'', ms_Stream m), (''group'', cs_group C), (''consumer'', cs_consumer C),
      (''original_id'', ms_ID m), (''outbox_id'', ms_OutboxID m), (''partition_key'', ms_PartitionKey m),
      (''payload'', ms_Payload m), (''error'', redisDeadLetterError (Some err)),
      (''deliveries'', go_Itoa deliveries), (''dead_lettered_at'', at)]"

definition deadLetter ::
    "consumer \<Rightarrow> 'r stream_client \<Rightarrow> message \<Rightarrow> string \<Rightarrow> int \<Rightarrow> 'r cstate \<Rightarrow> string option \<times> 'r cstate" where
  "deadLetter C R m err deliveries st =
     (case redis_call (sc_XAdd R (cs_deadLetterStream C)
              (dead_letter_values C m err deliveries (sc_timestamp R (cst_world st)))) st of
        (Some e, st1) \<Rightarrow>
          (Some (''write redis stream dead-letter message '' @ quoted_key (ms_ID m) @ '' to '' @
                 quoted_key (cs_deadLetterStream C) @ '': '' @ e),
           note_event (CDead m err deliveries (Some e)) st1)
      | (None, st1) \<Rightarrow> (None, note_event (CDead m err deliveries None) st1))"

definition deadLetterIfPoison ::
    "consumer \<Rightarrow> 'r stream_client \<Rightarrow> message \<Rightarrow> string \<Rightarrow> 'r cstate \<Rightarrow> (string + bool) \<times> 'r cstate" where
  "deadLetterIfPoison C R m err st =
     (if cs_maxDeliveries C \<le> 0 then (Inr False, st)
      else case redis_call (sc_XPendingExt R (ms_Stream m) (cs_group C) (ms_ID m)) st of
        (Inl e, st1) \<Rightarrow> (Inl (''inspect redis stream pending message '' @ quoted_key (ms_ID m) @ '': '' @ e), st1)
      | (Inr [], st1) \<Rightarrow> (Inr False, st1)
      | (Inr (deliveries # _), st1) \<Rightarrow>
          if deliveries < cs_maxDeliveries C then (Inr False, st1)
          else (case deadLetter C R m err deliveries st1 of
                  (Some e, st2) \<Rightarrow> (Inl e, st2)
                | (None, st2) \<Rightarrow>
                    (case ack_message C R (ms_ID m) st2 of
                       (Some e, st3) \<Rightarrow>
                         (Inl (''ack dead-lettered redis stream message '' @ quoted_key (ms_ID m) @ '': '' @ e), st3)
                     | (None, st3) \<Rightarrow> (Inr True, st3))))"

definition processRedisMessage ::
    "consumer \<Rightarrow> 'r stream_client \<Rightarrow> 'r event_handler \<Rightarrow> string \<Rightarrow> xmessage \<Rightarrow> 'r cstate \<Rightarrow>
     (string + bool) \<times> 'r cstate" where
  "processRedisMessage C R H stream xm st =
     (case decodeRedisMessage (sc_json_valid R) stream xm of
        Inl _ \<Rightarrow>
          (case ack_message C R (xm_ID xm) (note_event (CMalformed (xm_ID xm)) st) of
             (Some e, st1) \<Rightarrow> (Inl (''ack malformed redis stream message '' @ quoted_key (xm_ID xm) @ '': '' @ e), st1)
           | (None, st1) \<Rightarrow> (Inr True, st1))
      | Inr m \<Rightarrow>
          (case redis_call (H m) st of
             (Some err, st1) \<Rightarrow> deadLetterIfPoison C R m err (note_event (CHandled m (Some err)) st1)
           | (None, st1) \<Rightarrow>
               (case ack_message C R (xm_ID xm) (note_event (CHandled m None) st1) of
                  (Some e, st2) \<Rightarrow> (Inl (''ack redis stream message '' @ quoted_key (xm_ID xm) @ '': '' @ e), st2)
                | (None, st2) \<Rightarrow> (Inr True, st2))))"

section \<open>A round\<close>

text \<open>The number of acknowledged messages and, if the loop stopped, its error.\<close>

fun process_loop ::
    "consumer \<Rightarrow> 'r stream_client \<Rightarrow> 'r event_handler \<Rightarrow> string \<Rightarrow> xmessage list \<Rightarrow> nat \<Rightarrow> 'r cstate \<Rightarrow>
     (nat \<times> string option) \<times> 'r cstate" where
  "process_loop C R H stream [] processed st = ((processed, None), st)"
| "process_loop C R H stream (xm # xms) processed st =
     (case processRedisMessage C R H stream xm st of
        (Inl e, st1) \<Rightarrow> ((processed, Some e), st1)
      | (Inr acked, st1) \<Rightarrow> process_loop C R H stream xms (if acked then processed + 1 else processed) st1)"

definition processRedisMessages ::
    "consumer \<Rightarrow> 'r stream_client \<Rightarrow> 'r event_handler \<Rightarrow> string \<Rightarrow> xmessage list \<Rightarrow> 'r cstate \<Rightarrow>
     (nat \<times> string option) \<times> 'r cstate" where
  "processRedisMessages C R H stream xms st = process_loop C R H stream xms 0 st"

definition claimPending ::
    "consumer \<Rightarrow> 'r stream_client \<Rightarrow> 'r event_handler \<Rightarrow> 'r cstate \<Rightarrow> (nat \<times> string option) \<times> 'r cstate" where
  "claimPending C R H st =
     (if cs_claimIdle C \<le> 0 then ((0, None), st)
      else case redis_call (sc_XAutoClaim R C
             (if cst_claimStart st = [] then redisClaimStartID else cst_claimStart st)) st of
        (Inl e, st1) \<Rightarrow>
          ((0, Some (''claim pending redis stream messages '' @ quoted_key (cs_stream C) @ ''/'' @
                     quoted_key (cs_group C) @ '': '' @ e)), st1)
      | (Inr (xms, nextStart), st1) \<Rightarrow>
          let st2 = st1\<lparr>cst_claimStart := (if nextStart = [] then redisClaimStartID else nextStart)\<rparr> in
          if xms = [] then ((0, None), st2)
          else processRedisMessages C R H (cs_stream C) xms st2)"

fun streams_loop ::
    "consumer \<Rightarrow> 'r stream_client \<Rightarrow> 'r event_handler \<Rightarrow> (string \<times> xmessage list) list \<Rightarrow> nat \<Rightarrow> 'r cstate \<Rightarrow>
     (nat \<times> string option) \<times> 'r cstate" where
  "streams_loop C R H [] processed st = ((processed, None), st)"
| "streams_loop C R H ((stream, xms) # rest) processed st =
     (case processRedisMessages C R H stream xms st of
        ((_, Some e), st1) \<Rightarrow> ((processed, Some e), st1)
      | ((count, None), st1) \<Rightarrow> streams_loop C R H rest (processed + count) st1)"

definition ProcessOnce ::
    "consumer \<Rightarrow> 'r stream_client \<Rightarrow> 'r event_handler \<Rightarrow> 'r cstate \<Rightarrow> (nat \<times> string option) \<times> 'r cstate" where
  "ProcessOnce C R H st =
     (case claimPending C R H st of
        ((_, Some e), st1) \<Rightarrow> ((0, Some e), st1)
      | ((processed, None), st1) \<Rightarrow>
          (case redis_call (sc_XReadGroup R C) st1 of
             (Inl RedisNil, st2) \<Rightarrow> ((processed, None), st2)
           | (Inl (ReadError e), st2) \<Rightarrow>
               ((processed, Some (''read redis stream group '' @ quoted_key (cs_stream C) @ ''/'' @
                                  quoted_key (cs_group C) @ '': '' @ e)), st2)
           | (Inr streams, st2) \<Rightarrow> streams_loop C R H streams processed st2))"

definition isRedisBusyGroup :: "string \<Rightarrow> bool" where
  "isRedisBusyGroup e = go_Contains e ''BUSYGROUP''"

definition EnsureGroup :: "consumer \<Rightarrow> 'r stream_client \<Rightarrow> 'r cstate \<Rightarrow> string option \<times> 'r cstate" where
  "EnsureGroup C R st =
     (case redis_call (sc_XGroupCreate R (cs_stream C) (cs_group C)) st of
        (None, st1) \<Rightarrow> (None, st1)
      | (Some e, st1) \<Rightarrow>
          (if isRedisBusyGroup e then None
           else Some (''create redis stream group '' @ quoted_key (cs_stream C) @ ''/'' @
                      quoted_key (cs_group C) @ '': '' @ e), st1))"

text \<open>\<open>Run\<close> loops until its context is cancelled: these are its first \<open>n\<close> rounds.\<close>

fun run_rounds :: "nat \<Rightarrow> consumer \<Rightarrow> 'r stream_client \<Rightarrow> 'r event_handler \<Rightarrow> 'r cstate \<Rightarrow> 'r cstate" where
  "run_rounds 0 C R H st = st"
| "run_rounds (Suc n) C R H st = run_rounds n C R H (snd (ProcessOnce C R H st))"

definition consumer_Run ::
    "nat \<Rightarrow> consumer \<Rightarrow> 'r stream_client \<Rightarrow> 'r event_handler \<Rightarrow> 'r cstate \<Rightarrow> string option \<times> 'r cstate" where
  "consumer_Run n C R H st =
     (case EnsureGroup C R st of
        (Some e, st1) \<Rightarrow> (Some e, st1)
      | (None, st1) \<Rightarrow> (None, run_rounds n C R H st1))"

section \<open>Routing\<close>

definition maxEventNameBytes :: nat where "maxEventNameBytes = 200"

definition cleanEventName :: "string \<Rightarrow> string res" where
  "cleanEventName event0 =
     (let event = go_TrimSpace event0 in
      if event = [] then Inl ''event name is required''
      else if go_ContainsAny event line_breaks then Inl ''event name is invalid''
      else if maxEventNameBytes < length event then Inl ''event name is too long''
      else Inr event)"

text \<open>\<open>field\<close> is \<open>json.Unmarshal\<close> of the \<open>event\<close> field.\<close>

definition EventName :: "(string \<Rightarrow> string res) \<Rightarrow> string \<Rightarrow> string res" where
  "EventName field payload =
     (case field payload of
        Inl e \<Rightarrow> Inl (''decode event payload: '' @ e)
      | Inr event \<Rightarrow> (case cleanEventName event of
                       Inl e \<Rightarrow> Inl (''event payload has invalid event field: '' @ e)
                     | Inr name \<Rightarrow> Inr name))"

definition router_Register ::
    "string \<Rightarrow> 'r event_handler option \<Rightarrow> (string \<rightharpoonup> 'r event_handler) \<Rightarrow>
     string option \<times> (string \<rightharpoonup> 'r event_handler)" where
  "router_Register event handler hs =
     (case cleanEventName event of
        Inl e \<Rightarrow> (Some e, hs)
      | Inr name \<Rightarrow> (case handler of
                      None \<Rightarrow> (Some ''handler is required'', hs)
                    | Some h \<Rightarrow> (None, hs(name \<mapsto> h))))"

definition router_HandleEvent ::
    "(string \<Rightarrow> string res) \<Rightarrow> (string \<rightharpoonup> 'r event_handler) \<Rightarrow> 'r event_handler" where
  "router_HandleEvent field hs m w =
     (case EventName field (ms_Payload m) of
        Inl e \<Rightarrow> (Some e, w)
      | Inr name \<Rightarrow> (case hs name of None \<Rightarrow> (None, w) | Some h \<Rightarrow> h m w))"

fun multi_HandleEvent :: "'r event_handler option list \<Rightarrow> 'r event_handler" where
  "multi_HandleEvent [] m w = (None, w)"
| "multi_HandleEvent (None # hs) m w = multi_HandleEvent hs m w"
| "multi_HandleEvent (Some h # hs) m w =
     (case h m w of (Some e, w1) \<Rightarrow> (Some e, w1) | (None, w1) \<Rightarrow> multi_HandleEvent hs m w1)"

section \<open>What the consumer did with a message\<close>

text \<open>The history of one message: what it was, what the handler said, and how it ended.\<close>

inductive message_trace :: "consumer \<Rightarrow> consumer_event list \<Rightarrow> bool" for C where
  malformed [simp]: "message_trace C [CMalformed i, CAcked i r]"
| handled [simp]: "i = ms_ID m \<Longrightarrow> message_trace C [CHandled m None, CAcked i r]"
| failed [simp]: "message_trace C [CHandled m (Some e)]"
| stuck: "0 < cs_maxDeliveries C \<Longrightarrow> cs_maxDeliveries C \<le> n \<Longrightarrow>
    message_trace C [CHandled m (Some e), CDead m e n (Some x)]"
| dead: "0 < cs_maxDeliveries C \<Longrightarrow> cs_maxDeliveries C \<le> n \<Longrightarrow>
    message_trace C [CHandled m (Some e), CDead m e n None, CAcked (ms_ID m) r]"

definition acks_of :: "consumer_event list \<Rightarrow> string list" where
  "acks_of l = concat (map (\<lambda>ev. case ev of CAcked i None \<Rightarrow> [i] | _ \<Rightarrow> []) l)"

lemma acks_of_simps [simp]:
  "acks_of [] = []" "acks_of (l @ l') = acks_of l @ acks_of l'"
  "acks_of (CAcked i None # l) = i # acks_of l" "acks_of (CAcked i (Some e) # l) = acks_of l"
  "acks_of (CMalformed i # l) = acks_of l" "acks_of (CHandled m x # l) = acks_of l"
  "acks_of (CDead m e n x # l) = acks_of l"
  by (simp_all add: acks_of_def)

lemma redis_call_log: "redis_call f st = (r, st') \<Longrightarrow> cst_log st' = cst_log st"
  by (auto simp: redis_call_def)

lemma note_event_log [simp]: "cst_log (note_event ev st) = cst_log st @ [ev]"
  by (simp add: note_event_def)

lemma ack_message_log: "ack_message C R i st = (r, st') \<Longrightarrow> cst_log st' = cst_log st @ [CAcked i r]"
  by (auto simp: ack_message_def redis_call_def)

lemma deadLetter_log:
  "deadLetter C R m err n st = (r, st') \<Longrightarrow>
   \<exists>x. cst_log st' = cst_log st @ [CDead m err n x] \<and> (r = None \<longleftrightarrow> x = None)"
  by (auto simp: deadLetter_def dest: redis_call_log split: prod.splits option.splits)

lemma deadLetterIfPoison_log:
  assumes "deadLetterIfPoison C R m err st = (r, st')"
  shows "\<exists>l. cst_log st' = cst_log st @ l \<and> message_trace C (CHandled m (Some err) # l) \<and>
    acks_of l = (if r = Inr True then [ms_ID m] else [])"
proof -
  let ?p = "redis_call (sc_XPendingExt R (ms_Stream m) (cs_group C) (ms_ID m)) st"
  obtain p st1 where p: "?p = (p, st1)" by (cases ?p)
  show ?thesis
  proof (cases "cs_maxDeliveries C \<le> 0 \<or> (\<forall>n ns. p = Inr (n # ns) \<longrightarrow> n < cs_maxDeliveries C)")
    case True
    then have "cst_log st' = cst_log st" "r \<noteq> Inr True"
      using assms p redis_call_log [OF p]
      by (auto simp: deadLetterIfPoison_def split: if_splits sum.splits list.splits)
    then show ?thesis by (intro exI [of _ "[]"]) auto
  next
    case False
    then obtain n ns where n: "p = Inr (n # ns)" "\<not> cs_maxDeliveries C \<le> 0" "\<not> n < cs_maxDeliveries C" by blast
    obtain x st2 where x: "deadLetter C R m err n st1 = (x, st2)" by (cases "deadLetter C R m err n st1")
    obtain y where y: "cst_log st2 = cst_log st @ [CDead m err n y]" "x = None \<longleftrightarrow> y = None"
      using deadLetter_log [OF x] redis_call_log [OF p] by auto
    obtain z st3 where z: "ack_message C R (ms_ID m) st2 = (z, st3)" by (cases "ack_message C R (ms_ID m) st2")
    show ?thesis
    proof (cases x)
      case (Some e)
      then obtain e' where e': "y = Some e'" using y(2) by (cases y) auto
      have "r = Inl e" "st' = st2" using assms p n x Some by (simp_all add: deadLetterIfPoison_def)
      then show ?thesis using n y e' by (intro exI [of _ "[CDead m err n (Some e')]"]) (simp add: stuck)
    next
      case None
      have "st' = st3" "r = Inr True \<longleftrightarrow> z = None" using assms p n x None z
        by (auto simp: deadLetterIfPoison_def split: option.splits)
      then show ?thesis using n y None ack_message_log [OF z]
        by (intro exI [of _ "[CDead m err n None, CAcked (ms_ID m) z]"]) (cases z, simp_all add: dead)
    qed
  qed
qed

lemma decodeRedisMessage_ID: "decodeRedisMessage jv stream xm = Inr m \<Longrightarrow> ms_ID m = xm_ID xm"
  by (auto simp: decodeRedisMessage_def split: sum.splits if_splits)

lemma processRedisMessage_log:
  assumes "processRedisMessage C R H stream xm st = (r, st')"
  shows "\<exists>l. cst_log st' = cst_log st @ l \<and> message_trace C l \<and>
    acks_of l = (if r = Inr True then [xm_ID xm] else [])"
proof (cases "decodeRedisMessage (sc_json_valid R) stream xm")
  case (Inl e)
  obtain z st1 where z: "ack_message C R (xm_ID xm) (note_event (CMalformed (xm_ID xm)) st) = (z, st1)"
    by (cases "ack_message C R (xm_ID xm) (note_event (CMalformed (xm_ID xm)) st)")
  then show ?thesis using assms Inl ack_message_log [OF z]
    by (intro exI [of _ "[CMalformed (xm_ID xm), CAcked (xm_ID xm) z]"])
       (auto simp: processRedisMessage_def split: option.splits)
next
  case (Inr m)
  obtain h st1 where h: "redis_call (H m) st = (h, st1)" by (cases "redis_call (H m) st")
  show ?thesis
  proof (cases h)
    case None
    obtain z st2 where z: "ack_message C R (xm_ID xm) (note_event (CHandled m None) st1) = (z, st2)"
      by (cases "ack_message C R (xm_ID xm) (note_event (CHandled m None) st1)")
    then show ?thesis using assms Inr h None ack_message_log [OF z] redis_call_log [OF h] decodeRedisMessage_ID [OF Inr]
      by (intro exI [of _ "[CHandled m None, CAcked (ms_ID m) z]"])
         (auto simp: processRedisMessage_def split: option.splits)
  next
    case (Some e)
    then have "deadLetterIfPoison C R m e (note_event (CHandled m (Some e)) st1) = (r, st')"
      using assms Inr h by (simp add: processRedisMessage_def)
    from deadLetterIfPoison_log [OF this] obtain l where "cst_log st' = cst_log st @ CHandled m (Some e) # l"
      "message_trace C (CHandled m (Some e) # l)" "acks_of l = (if r = Inr True then [ms_ID m] else [])"
      using redis_call_log [OF h] by auto
    then show ?thesis using decodeRedisMessage_ID [OF Inr]
      by (intro exI [of _ "CHandled m (Some e) # l"]) simp
  qed
qed

text \<open>A part of a run extends the history by complete message traces.\<close>

definition extends_by_traces :: "consumer \<Rightarrow> 'r cstate \<Rightarrow> 'r cstate \<Rightarrow> nat \<Rightarrow> bool" where
  "extends_by_traces C st st' n \<longleftrightarrow>
     (\<exists>ts. cst_log st' = cst_log st @ concat ts \<and> list_all (message_trace C) ts \<and> length (acks_of (concat ts)) = n)"

lemma extends_refl: "cst_log st' = cst_log st \<Longrightarrow> extends_by_traces C st st' 0"
  unfolding extends_by_traces_def by (intro exI [of _ "[]"]) simp

lemma extends_trans:
  assumes "extends_by_traces C st st1 n" and "extends_by_traces C st1 st2 k"
  shows "extends_by_traces C st st2 (n + k)"
proof -
  obtain ts us where "cst_log st1 = cst_log st @ concat ts" "list_all (message_trace C) ts" "length (acks_of (concat ts)) = n"
    "cst_log st2 = cst_log st1 @ concat us" "list_all (message_trace C) us" "length (acks_of (concat us)) = k"
    using assms unfolding extends_by_traces_def by blast
  then show ?thesis unfolding extends_by_traces_def by (intro exI [of _ "ts @ us"]) simp
qed

lemma processRedisMessage_extends:
  assumes "processRedisMessage C R H stream xm st = (r, st')"
  shows "extends_by_traces C st st' (if r = Inr True then 1 else 0)"
proof -
  obtain l where "cst_log st' = cst_log st @ l" "message_trace C l" "acks_of l = (if r = Inr True then [xm_ID xm] else [])"
    using processRedisMessage_log [OF assms] by blast
  then show ?thesis unfolding extends_by_traces_def by (intro exI [of _ "[l]"]) simp
qed

lemma process_loop_extends:
  assumes "process_loop C R H stream xms k st = ((n, e), st')"
  shows "k \<le> n \<and> extends_by_traces C st st' (n - k)"
  using assms
proof (induction xms arbitrary: k st)
  case (Cons xm xms)
  obtain r st1 where r: "processRedisMessage C R H stream xm st = (r, st1)"
    by (cases "processRedisMessage C R H stream xm st")
  note one = processRedisMessage_extends [OF r]
  show ?case
  proof (cases r)
    case (Inl e)
    then show ?thesis using Cons.prems r one by auto
  next
    case (Inr acked)
    then have rest: "process_loop C R H stream xms (if acked then k + 1 else k) st1 = ((n, e), st')"
      using Cons.prems r by simp
    show ?thesis using Cons.IH [OF rest] extends_trans [OF one] Inr
      by (cases acked) (auto simp: Suc_diff_Suc dest!: extends_trans [OF one])
  qed
qed (auto intro: extends_refl)

lemma processRedisMessages_extends:
  "processRedisMessages C R H stream xms st = ((n, e), st') \<Longrightarrow> extends_by_traces C st st' n"
  using process_loop_extends [of C R H stream xms 0 st n e st'] by (simp add: processRedisMessages_def)

lemma streams_loop_extends:
  assumes "streams_loop C R H ss k st = ((n, e), st')"
  shows "\<exists>a. k + a \<ge> n \<and> (e = None \<longrightarrow> n = k + a) \<and> extends_by_traces C st st' a"
  using assms
proof (induction ss arbitrary: k st)
  case Nil
  then show ?case by (auto intro!: exI [of _ 0] extends_refl)
next
  case (Cons s ss)
  obtain stream xms where s: "s = (stream, xms)" by (cases s)
  obtain c x st1 where one: "processRedisMessages C R H stream xms st = ((c, x), st1)" by (metis prod.exhaust)
  note step = processRedisMessages_extends [OF one]
  show ?case
  proof (cases x)
    case (Some e')
    then show ?thesis using Cons.prems s one step by auto
  next
    case None
    then have "streams_loop C R H ss (k + c) st1 = ((n, e), st')" using Cons.prems s one by simp
    from Cons.IH [OF this] obtain a where a: "k + c + a \<ge> n" "e = None \<longrightarrow> n = k + c + a" "extends_by_traces C st1 st' a"
      by blast
    then show ?thesis using extends_trans [OF step a(3)] by (intro exI [of _ "c + a"]) auto
  qed
qed

lemma claimPending_extends:
  assumes "claimPending C R H st = ((n, e), st')"
  shows "extends_by_traces C st st' n"
proof (cases "cs_claimIdle C \<le> 0")
  case True
  then show ?thesis using assms by (auto simp: claimPending_def intro: extends_refl)
next
  case False
  let ?start = "if cst_claimStart st = [] then redisClaimStartID else cst_claimStart st"
  obtain x st1 where x: "redis_call (sc_XAutoClaim R C ?start) st = (x, st1)"
    by (cases "redis_call (sc_XAutoClaim R C ?start) st")
  note l = redis_call_log [OF x]
  show ?thesis
  proof (cases x)
    case (Inl err)
    then show ?thesis using assms False x l by (auto simp: claimPending_def intro: extends_refl)
  next
    case (Inr p)
    obtain xms nxt where p: "p = (xms, nxt)" by (cases p)
    define st2 where "st2 = st1\<lparr>cst_claimStart := (if nxt = [] then redisClaimStartID else nxt)\<rparr>"
    have st2: "extends_by_traces C st st2 0" using l by (intro extends_refl) (simp add: st2_def)
    have "((n, e), st') = (if xms = [] then ((0, None), st2) else processRedisMessages C R H (cs_stream C) xms st2)"
      using assms False x Inr p unfolding claimPending_def st2_def by (simp add: Let_def)
    then show ?thesis using st2 extends_trans [OF st2] processRedisMessages_extends [of C R H "cs_stream C" xms st2 n e st']
      by (auto split: if_splits)
  qed
qed

lemma ProcessOnce_extends:
  assumes "ProcessOnce C R H st = ((n, e), st')"
  shows "\<exists>a. n \<le> a \<and> (e = None \<longrightarrow> n = a) \<and> extends_by_traces C st st' a"
proof -
  obtain p x st1 where c: "claimPending C R H st = ((p, x), st1)" by (metis prod.exhaust)
  note claimed = claimPending_extends [OF c]
  obtain y st2 where y: "redis_call (sc_XReadGroup R C) st1 = (y, st2)" by (cases "redis_call (sc_XReadGroup R C) st1")
  have r: "extends_by_traces C st st2 p"
    using extends_trans [OF claimed extends_refl [OF redis_call_log [OF y]]] by simp
  show ?thesis
  proof (cases "\<exists>err. x = Some err")
    case True
    then show ?thesis using assms c claimed by (auto simp: ProcessOnce_def)
  next
    case False
    then have x: "x = None" by simp
    show ?thesis
    proof (cases y)
      case (Inl err)
      then show ?thesis using assms c x y r by (cases err) (auto simp: ProcessOnce_def)
    next
      case (Inr ss)
      then have "streams_loop C R H ss p st2 = ((n, e), st')" using assms c x y by (simp add: ProcessOnce_def)
      from streams_loop_extends [OF this] obtain a where a: "p + a \<ge> n" "e = None \<longrightarrow> n = p + a"
        "extends_by_traces C st2 st' a" by blast
      then show ?thesis using extends_trans [OF r a(3)] by (intro exI [of _ "p + a"]) simp
    qed
  qed
qed

section \<open>Properties\<close>

text \<open>
  C27. The acknowledgement protocol of a consumer, for every Redis client and every handler, over any
  number of rounds. What the consumer does to the messages it claims and reads is a sequence of
  complete message traces: an entry is acknowledged only if it could not be decoded, or its handler
  returned no error, or its handler failed, its number of deliveries had reached the configured
  maximum and a copy of it was written to the dead-letter stream; when the handler failed and the
  maximum is not reached, or when writing the dead letter fails, it is not acknowledged and
  stays pending.
\<close>

theorem consumer_ack_protocol:
  "\<exists>ts. cst_log (run_rounds n C R H st) = cst_log st @ concat ts \<and> list_all (message_trace C) ts"
proof -
  have "\<exists>a. extends_by_traces C st (run_rounds n C R H st) a"
  proof (induction n arbitrary: st)
    case (Suc n)
    obtain k e st1 where "ProcessOnce C R H st = ((k, e), st1)" by (metis prod.exhaust)
    then show ?case using ProcessOnce_extends Suc.IH [of st1] extends_trans by fastforce
  qed (auto intro: extends_refl)
  then show ?thesis unfolding extends_by_traces_def by blast
qed

text \<open>
  A round counts what it acknowledged: when \<open>ProcessOnce\<close> returns without an error, the number it
  returns is the number of entries that were successfully acknowledged in that round; with an
  error it is not more than that.
\<close>

theorem process_once_counts_acks:
  "\<exists>l. cst_log (snd (ProcessOnce C R H st)) = cst_log st @ l \<and>
     (if snd (fst (ProcessOnce C R H st)) = None then fst (fst (ProcessOnce C R H st)) = length (acks_of l)
      else fst (fst (ProcessOnce C R H st)) \<le> length (acks_of l))"
proof -
  obtain n e st' where p: "ProcessOnce C R H st = ((n, e), st')" by (metis prod.exhaust)
  from ProcessOnce_extends [OF p] show ?thesis unfolding p extends_by_traces_def by auto
qed

lemma set_next_rune: "set (next_rune v) \<subseteq> set v \<union> {CHR 0xEF, CHR 0xBF, CHR 0xBD}"
  by (auto simp: next_rune_def dest: in_set_takeD)

lemma rune_loop_bounds:
  "length out \<le> limit \<Longrightarrow> length (rune_loop limit out v) \<le> limit \<and>
   set (rune_loop limit out v) \<subseteq> set out \<union> set v \<union> {CHR 0xEF, CHR 0xBF, CHR 0xBD}"
proof (induction limit out v rule: rune_loop.induct)
  case (1 limit out v)
  show ?case
  proof (cases "v = [] \<or> limit < length out + length (next_rune v)")
    case True
    then show ?thesis using 1(2) by (auto simp: rune_loop.simps [of limit out v])
  next
    case False
    let ?v = "drop (max 1 (rune_len v)) v"
    have e: "rune_loop limit out v = rune_loop limit (out @ next_rune v) ?v"
      using False by (simp add: rune_loop.simps [of limit out v])
    have "length (rune_loop limit (out @ next_rune v) ?v) \<le> limit \<and>
        set (rune_loop limit (out @ next_rune v) ?v) \<subseteq> set (out @ next_rune v) \<union> set ?v \<union> {CHR 0xEF, CHR 0xBF, CHR 0xBD}"
      using False by (intro 1(1)) auto
    then show ?thesis unfolding e using set_next_rune [of v] set_drop_subset [of "max 1 (rune_len v)" v] by auto
  qed
qed

text \<open>
  What the dead-letter stream keeps of an error is bounded: at most 2048 bytes, without a line
  break, whatever the handler reported, cut between characters.
\<close>

theorem dead_letter_error_bounded:
  "length (redisDeadLetterError err) \<le> 2048 \<and> \<not> go_ContainsAny (redisDeadLetterError err) line_breaks"
proof (cases err)
  case None
  then show ?thesis by (simp add: redisDeadLetterError_def go_ContainsAny_iff)
next
  case (Some t)
  define v where "v = go_TrimSpace (map (\<lambda>c. if c \<in> set line_breaks then CHR '' '' else c) t)"
  have "set v \<inter> set line_breaks = {}" using set_go_TrimSpace unfolding v_def by fastforce
  moreover have "redisDeadLetterError err = (if length v \<le> 2048 then v else rune_loop 2048 [] v)"
    unfolding redisDeadLetterError_def v_def Some maxRedisDeadLetterErrorBytes_def by (simp only: option.case Let_def)
  ultimately show ?thesis using rune_loop_bounds [of "[]" 2048 v] by (auto simp: go_ContainsAny_iff)
qed

end
