(* ===== verification/Outbox.thy ===== *)
theory Outbox
  imports EventStream DeliveryJob "HOL-Library.Product_Lexorder" "HOL-Library.Multiset"
begin

text \<open>
  The transactional outbox (\<open>internal/outbox\<close>): the table with its claim, done and failed statements
  (\<open>postgres.go\<close>, \<open>postgres_sharded.go\<close>), the relay that publishes what it claims (\<open>relay.go\<close>),
  and the publisher to Redis streams (\<open>redis.go\<close>), whose entries the consumer of
  \<open>EventStream\<close> decodes. The table is a list of rows; the rows that concurrent transactions have
  locked, the order in which the database returns updated rows, the hash of a partition key and
  the outcome of a publication are parameters. Several relay workers, in one process or in many, are
  the step relation \<open>relay_step\<close>.
\<close>

section \<open>The table\<close>

datatype row_status = Pending | Processing | Done | Failed

record outbox_entry =
  ox_id :: string
  ox_topic :: string
  ox_partition_key :: string
  ox_payload :: string
  ox_status :: row_status
  ox_attempts :: int
  ox_available_at :: int
  ox_locked_at :: "int option"
  ox_created_at :: int
  ox_last_error :: "string option"
  ox_processed_at :: "int option"

record outbox_event =
  ev_ID :: string
  ev_Topic :: string
  ev_PartitionKey :: string
  ev_Payload :: string

definition event_of :: "outbox_entry \<Rightarrow> outbox_event" where
  "event_of r = \<lparr>ev_ID = ox_id r, ev_Topic = ox_topic r, ev_PartitionKey = ox_partition_key r, ev_Payload = ox_payload r\<rparr>"

record postgres_store =
  ps_db :: bool
  ps_maxAttempts :: int
  ps_lockTimeout :: int

definition NewPostgresStore :: "bool \<Rightarrow> int \<Rightarrow> postgres_store" where
  "NewPostgresStore db maxAttempts =
     \<lparr>ps_db = db, ps_maxAttempts = (if maxAttempts \<le> 0 then 10 else maxAttempts), ps_lockTimeout = 300000000000\<rparr>"

text \<open>What the database decides while it runs a statement.\<close>

record db_moment =
  dm_now :: int
  dm_locked :: "string set"
  dm_order :: "outbox_entry list \<Rightarrow> outbox_entry list"
  dm_error :: "string option"

section \<open>Claiming\<close>

definition is_candidate :: "int \<Rightarrow> int \<Rightarrow> outbox_entry \<Rightarrow> bool" where
  "is_candidate now lockTimeout r \<longleftrightarrow>
     (ox_status r = Pending \<and> ox_available_at r \<le> now) \<or>
     (ox_status r = Processing \<and> (case ox_locked_at r of None \<Rightarrow> False | Some t \<Rightarrow> t < now - lockTimeout))"

definition claim_row :: "int \<Rightarrow> outbox_entry \<Rightarrow> outbox_entry" where
  "claim_row now r = r\<lparr>ox_status := Processing, ox_attempts := ox_attempts r + 1, ox_last_error := None,
     ox_locked_at := Some now\<rparr>"

text \<open>The statement \<open>fetchPendingSQL\<close>: the candidates that pass the filter, in order of creation, up to
  the limit; of these the rows that nobody has locked; their update, and what it returns.\<close>

definition fetch_sql ::
    "(outbox_entry \<Rightarrow> bool) \<Rightarrow> int \<Rightarrow> int \<Rightarrow> db_moment \<Rightarrow> outbox_entry list \<Rightarrow> outbox_entry list \<times> outbox_entry list" where
  "fetch_sql keep limit lockTimeout M rows =
     (let candidate = take (nat limit) (sort_key (\<lambda>r. (ox_created_at r, ox_id r))
            (filter (\<lambda>r. is_candidate (dm_now M) lockTimeout r \<and> keep r) rows));
          picked = set (map ox_id (filter (\<lambda>r. ox_id r \<notin> dm_locked M) candidate));
          rows' = map (\<lambda>r. if ox_id r \<in> picked then claim_row (dm_now M) r else r) rows
      in (dm_order M (filter (\<lambda>r. ox_id r \<in> picked) rows'), rows'))"

definition fetch_limit :: "int \<Rightarrow> int" where
  "fetch_limit limit = (if limit \<le> 0 then 100 else limit)"

definition run_fetch ::
    "string \<Rightarrow> (outbox_entry \<Rightarrow> bool) \<Rightarrow> postgres_store \<Rightarrow> int \<Rightarrow> db_moment \<Rightarrow> outbox_entry list \<Rightarrow>
     (string + outbox_event list) \<times> outbox_entry list" where
  "run_fetch what keep P limit M rows =
     (if \<not> ps_db P then (Inl ''database handle is required'', rows)
      else case dm_error M of
        Some e \<Rightarrow> (Inl (what @ '': '' @ e), rows)
      | None \<Rightarrow> (case fetch_sql keep (fetch_limit limit) (ps_lockTimeout P) M rows of
                   (returned, rows') \<Rightarrow> (Inr (map event_of returned), rows')))"

definition FetchPending ::
    "postgres_store \<Rightarrow> int \<Rightarrow> db_moment \<Rightarrow> outbox_entry list \<Rightarrow> (string + outbox_event list) \<times> outbox_entry list" where
  "FetchPending P limit M rows = run_fetch ''claim pending outbox events'' (\<lambda>_. True) P limit M rows"

text \<open>The sharded store: \<open>hashtext\<close> of PostgreSQL is a parameter.\<close>

record sharded_store =
  sh_store :: postgres_store
  sh_TotalShards :: int
  sh_ShardIndex :: int

definition NewShardedPostgresStore :: "bool \<Rightarrow> int \<Rightarrow> int \<Rightarrow> int \<Rightarrow> sharded_store res" where
  "NewShardedPostgresStore db maxAttempts totalShards0 shardIndex =
     (let totalShards = (if totalShards0 < 1 then 1 else totalShards0) in
      if shardIndex < 0 \<or> totalShards \<le> shardIndex
      then Inl (''outbox: shardIndex '' @ go_Itoa shardIndex @ '' out of range [0, '' @ go_Itoa totalShards @ '')'')
      else Inr \<lparr>sh_store = NewPostgresStore db maxAttempts, sh_TotalShards = totalShards, sh_ShardIndex = shardIndex\<rparr>)"

definition in_shard :: "(string \<Rightarrow> int) \<Rightarrow> int \<Rightarrow> int \<Rightarrow> outbox_entry \<Rightarrow> bool" where
  "in_shard hashtext n i r \<longleftrightarrow> \<bar>hashtext (ox_partition_key r)\<bar> mod n = i"

definition sharded_FetchPending ::
    "(string \<Rightarrow> int) \<Rightarrow> sharded_store \<Rightarrow> int \<Rightarrow> db_moment \<Rightarrow> outbox_entry list \<Rightarrow>
     (string + outbox_event list) \<times> outbox_entry list" where
  "sharded_FetchPending hashtext S limit M rows =
     (if sh_TotalShards S \<le> 1 then FetchPending (sh_store S) limit M rows
      else run_fetch (''claim sharded outbox events (shard '' @ go_Itoa (sh_ShardIndex S) @ ''/'' @
             go_Itoa (sh_TotalShards S) @ '')'')
             (in_shard hashtext (sh_TotalShards S) (sh_ShardIndex S)) (sh_store S) limit M rows)"

section \<open>Marking\<close>

definition done_row :: "int \<Rightarrow> outbox_entry \<Rightarrow> outbox_entry" where
  "done_row now r = r\<lparr>ox_status := Done, ox_last_error := None, ox_locked_at := None, ox_processed_at := Some now\<rparr>"

definition failed_row :: "int \<Rightarrow> int \<Rightarrow> string \<Rightarrow> outbox_entry \<Rightarrow> outbox_entry" where
  "failed_row now maxAttempts message r =
     r\<lparr>ox_status := (if maxAttempts \<le> ox_attempts r then Failed else Pending),
       ox_last_error := Some message, ox_locked_at := None,
       ox_processed_at := (if maxAttempts \<le> ox_attempts r then Some now else ox_processed_at r)\<rparr>"

definition publishFailureMessage :: "string option \<Rightarrow> string" where
  "publishFailureMessage cause =
     truncateUTF8Bytes (go_TrimSpace (case cause of None \<Rightarrow> ''publish failed'' | Some e \<Rightarrow> e)) 2000"

definition run_mark ::
    "string \<Rightarrow> (outbox_entry \<Rightarrow> outbox_entry) \<Rightarrow> string list \<Rightarrow> postgres_store \<Rightarrow> db_moment \<Rightarrow> outbox_entry list \<Rightarrow>
     string option \<times> outbox_entry list" where
  "run_mark what f ids P M rows =
     (if \<not> ps_db P then (Some ''database handle is required'', rows)
      else if ids = [] then (None, rows)
      else case dm_error M of
        Some e \<Rightarrow> (Some (what @ '': '' @ e), rows)
      | None \<Rightarrow> (None, map (\<lambda>r. if ox_id r \<in> set ids then f r else r) rows))"

definition MarkDone :: "postgres_store \<Rightarrow> string \<Rightarrow> db_moment \<Rightarrow> outbox_entry list \<Rightarrow> string option \<times> outbox_entry list" where
  "MarkDone P i M rows = run_mark ''mark outbox event done'' (done_row (dm_now M)) [i] P M rows"

definition MarkDoneBatch ::
    "postgres_store \<Rightarrow> string list \<Rightarrow> db_moment \<Rightarrow> outbox_entry list \<Rightarrow> string option \<times> outbox_entry list" where
  "MarkDoneBatch P ids M rows = run_mark ''mark outbox events done'' (done_row (dm_now M)) ids P M rows"

definition MarkFailed ::
    "postgres_store \<Rightarrow> string \<Rightarrow> string option \<Rightarrow> db_moment \<Rightarrow> outbox_entry list \<Rightarrow> string option \<times> outbox_entry list" where
  "MarkFailed P i cause M rows =
     run_mark ''mark outbox event failed''
       (failed_row (dm_now M) (ps_maxAttempts P) (publishFailureMessage cause)) [i] P M rows"

text \<open>The batch joins the rows with the failures: the message of a row is that of its failure.\<close>

definition failure_message :: "(string \<times> string option) list \<Rightarrow> string \<Rightarrow> string" where
  "failure_message failures i =
     (case map_of failures i of None \<Rightarrow> [] | Some cause \<Rightarrow> publishFailureMessage cause)"

definition MarkFailedBatch ::
    "postgres_store \<Rightarrow> (string \<times> string option) list \<Rightarrow> db_moment \<Rightarrow> outbox_entry list \<Rightarrow>
     string option \<times> outbox_entry list" where
  "MarkFailedBatch P failures M rows =
     run_mark ''mark outbox events failed''
       (\<lambda>r. failed_row (dm_now M) (ps_maxAttempts P) (failure_message failures (ox_id r)) r)
       (map fst failures) P M rows"

section \<open>The relay\<close>

text \<open>The state of a relay: the table, the publisher's state, and the moments of the database calls to
  come.\<close>

record 'p relay_state =
  rl_rows :: "outbox_entry list"
  rl_pub :: 'p
  rl_moments :: "nat \<Rightarrow> db_moment"
  rl_calls :: nat

definition db_call :: "(db_moment \<Rightarrow> outbox_entry list \<Rightarrow> 'a \<times> outbox_entry list) \<Rightarrow> 'p relay_state \<Rightarrow> 'a \<times> 'p relay_state" where
  "db_call f s =
     (case f (rl_moments s (rl_calls s)) (rl_rows s) of
        (r, rows) \<Rightarrow> (r, s\<lparr>rl_rows := rows, rl_calls := rl_calls s + 1\<rparr>))"

type_synonym 'p publisher = "outbox_event \<Rightarrow> 'p \<Rightarrow> string option \<times> 'p"

definition pub_call :: "'p publisher \<Rightarrow> outbox_event \<Rightarrow> 'p relay_state \<Rightarrow> string option \<times> 'p relay_state" where
  "pub_call publish e s = (case publish e (rl_pub s) of (r, p) \<Rightarrow> (r, s\<lparr>rl_pub := p\<rparr>))"

fun publish_loop ::
    "'p publisher \<Rightarrow> outbox_event list \<Rightarrow> string list \<times> (string \<times> string option) list \<Rightarrow> 'p relay_state \<Rightarrow>
     (string list \<times> (string \<times> string option) list) \<times> 'p relay_state" where
  "publish_loop publish [] acc s = (acc, s)"
| "publish_loop publish (e # es) (doneIDs, failures) s =
     (case pub_call publish e s of
        (Some err, s1) \<Rightarrow> publish_loop publish es (doneIDs, failures @ [(ev_ID e, Some err)]) s1
      | (None, s1) \<Rightarrow> publish_loop publish es (doneIDs @ [ev_ID e], failures) s1)"

definition processBatch ::
    "postgres_store \<Rightarrow> 'p publisher \<Rightarrow> outbox_event list \<Rightarrow> 'p relay_state \<Rightarrow> (nat \<times> string option) \<times> 'p relay_state" where
  "processBatch P publish events s =
     (case publish_loop publish events ([], []) s of
        ((doneIDs, failures), s1) \<Rightarrow>
     (case (if failures \<noteq> [] then db_call (MarkFailedBatch P failures) s1 else (None, s1)) of
        (Some e, s2) \<Rightarrow> ((0, Some (''mark outbox event failures: '' @ e)), s2)
      | (None, s2) \<Rightarrow>
          if doneIDs = [] then ((0, None), s2)
          else (case db_call (MarkDoneBatch P doneIDs) s2 of
                  (Some e, s3) \<Rightarrow> ((0, Some (''mark outbox events done: '' @ e)), s3)
                | (None, s3) \<Rightarrow> ((length doneIDs, None), s3))))"

fun processIndividually ::
    "postgres_store \<Rightarrow> 'p publisher \<Rightarrow> outbox_event list \<Rightarrow> nat \<Rightarrow> 'p relay_state \<Rightarrow> (nat \<times> string option) \<times> 'p relay_state" where
  "processIndividually P publish [] processed s = ((processed, None), s)"
| "processIndividually P publish (e # es) processed s =
     (case pub_call publish e s of
        (Some err, s1) \<Rightarrow>
          (case db_call (MarkFailed P (ev_ID e) (Some err)) s1 of
             (Some x, s2) \<Rightarrow> ((processed, Some (''mark outbox event failed after publish error: '' @ x)), s2)
           | (None, s2) \<Rightarrow> processIndividually P publish es processed s2)
      | (None, s1) \<Rightarrow>
          (case db_call (MarkDone P (ev_ID e)) s1 of
             (Some x, s2) \<Rightarrow> ((processed, Some (''mark outbox event done: '' @ x)), s2)
           | (None, s2) \<Rightarrow> processIndividually P publish es (processed + 1) s2))"

text \<open>\<open>batch\<close>: the store is a \<open>BatchStore\<close>, as both PostgreSQL stores are.\<close>

definition relay_ProcessOnce ::
    "bool \<Rightarrow> postgres_store \<Rightarrow> 'p publisher \<Rightarrow> int \<Rightarrow> 'p relay_state \<Rightarrow> (nat \<times> string option) \<times> 'p relay_state" where
  "relay_ProcessOnce batch P publish batchSize s =
     (case db_call (FetchPending P batchSize) s of
        (Inl e, s1) \<Rightarrow> ((0, Some (''fetch pending outbox events: '' @ e)), s1)
      | (Inr events, s1) \<Rightarrow>
          if batch then processBatch P publish events s1 else processIndividually P publish events 0 s1)"

section \<open>The publisher\<close>

definition normalizeRedisStreamEvent :: "(string \<Rightarrow> bool) \<Rightarrow> outbox_event \<Rightarrow> outbox_event res" where
  "normalizeRedisStreamEvent jv e0 =
     (let e = \<lparr>ev_ID = go_TrimSpace (ev_ID e0), ev_Topic = go_TrimSpace (ev_Topic e0),
               ev_PartitionKey = go_TrimSpace (ev_PartitionKey e0), ev_Payload = go_TrimSpace (ev_Payload e0)\<rparr> in
      if ev_Topic e = [] then Inl ''outbox event topic is required''
      else if go_ContainsAny (ev_Topic e) line_breaks then Inl ''outbox event topic is invalid''
      else if ev_ID e = [] then Inl ''outbox event id is required''
      else if ev_Payload e = [] \<or> \<not> jv (ev_Payload e) then Inl ''outbox event payload must be valid json''
      else Inr e)"

definition redisStreamForEvent :: "string \<Rightarrow> string \<Rightarrow> string" where
  "redisStreamForEvent defaultStream topic0 =
     (let topic = go_TrimSpace topic0 in if topic \<noteq> [] then topic else go_TrimSpace defaultStream)"

definition stream_values :: "outbox_event \<Rightarrow> (string \<times> string) list" where
  "stream_values e = [(''outbox_id'', ev_ID e), (''partition_key'', ev_PartitionKey e), (''payload'', ev_Payload e)]"

text \<open>\<open>xadd\<close> is the XADD command of the client, with its error.\<close>

definition redis_Publish ::
    "bool \<Rightarrow> (string \<Rightarrow> bool) \<Rightarrow> (string \<Rightarrow> (string \<times> string) list \<Rightarrow> 'p \<Rightarrow> string option \<times> 'p) \<Rightarrow> string \<Rightarrow> 'p publisher" where
  "redis_Publish client jv xadd defaultStream e0 p =
     (if \<not> client then (Some ''redis client is required'', p)
      else case normalizeRedisStreamEvent jv e0 of
        Inl err \<Rightarrow> (Some err, p)
      | Inr e \<Rightarrow>
          (let stream = redisStreamForEvent defaultStream (ev_Topic e) in
           case xadd stream (stream_values e) p of
             (Some err, p1) \<Rightarrow> (Some (''publish outbox event to redis stream '' @ quoted_key stream @ '': '' @ err), p1)
           | (None, p1) \<Rightarrow> (None, p1)))"

section \<open>Relay workers\<close>

record relay_worker =
  wo_events :: "outbox_event list" \<comment> \<open>claimed, not yet published\<close>
  wo_done :: "string list"
  wo_failures :: "(string \<times> string option) list"

text \<open>\<open>sy_enqueued\<close> and \<open>sy_published\<close> are histories.\<close>

record relay_system =
  sy_rows :: "outbox_entry list"
  sy_workers :: "nat \<rightharpoonup> relay_worker"
  sy_enqueued :: "outbox_event list"
  sy_published :: "outbox_event list"

definition fresh_row :: "outbox_entry list \<Rightarrow> outbox_entry \<Rightarrow> bool" where
  "fresh_row rows r \<longleftrightarrow> ox_id r \<notin> ox_id ` set rows \<and> ox_status r = Pending"

definition orderly :: "db_moment \<Rightarrow> bool" where
  "orderly M \<longleftrightarrow> (\<forall>xs. mset (dm_order M xs) = mset xs)"

text \<open>One step of the producers or of a relay worker. A worker may stop at any point, because a database
  call failed or its process died.\<close>

inductive relay_step :: "postgres_store \<Rightarrow> int \<Rightarrow> relay_system \<Rightarrow> relay_system \<Rightarrow> bool" for P batchSize where
  enqueue: "fresh_row (sy_rows s) r \<Longrightarrow>
    relay_step P batchSize s (s\<lparr>sy_rows := sy_rows s @ [r], sy_enqueued := sy_enqueued s @ [event_of r]\<rparr>)"
| fetch: "sy_workers s i = None \<Longrightarrow> orderly M \<Longrightarrow> FetchPending P batchSize M (sy_rows s) = (Inr events, rows) \<Longrightarrow>
    relay_step P batchSize s (s\<lparr>sy_rows := rows,
      sy_workers := (sy_workers s)(i \<mapsto> \<lparr>wo_events = events, wo_done = [], wo_failures = []\<rparr>)\<rparr>)"
| published: "sy_workers s i = Some w \<Longrightarrow> wo_events w = e # es \<Longrightarrow>
    relay_step P batchSize s (s\<lparr>sy_published := sy_published s @ [e],
      sy_workers := (sy_workers s)(i \<mapsto> w\<lparr>wo_events := es, wo_done := wo_done w @ [ev_ID e]\<rparr>)\<rparr>)"
| refused: "sy_workers s i = Some w \<Longrightarrow> wo_events w = e # es \<Longrightarrow>
    relay_step P batchSize s (s\<lparr>sy_workers :=
      (sy_workers s)(i \<mapsto> w\<lparr>wo_events := es, wo_failures := wo_failures w @ [(ev_ID e, Some err)]\<rparr>)\<rparr>)"
| failures: "sy_workers s i = Some w \<Longrightarrow> wo_events w = [] \<Longrightarrow> wo_failures w \<noteq> [] \<Longrightarrow>
    MarkFailedBatch P (wo_failures w) M (sy_rows s) = (None, rows) \<Longrightarrow>
    relay_step P batchSize s (s\<lparr>sy_rows := rows, sy_workers := (sy_workers s)(i \<mapsto> w\<lparr>wo_failures := []\<rparr>)\<rparr>)"
| finish: "sy_workers s i = Some w \<Longrightarrow> wo_events w = [] \<Longrightarrow> wo_failures w = [] \<Longrightarrow>
    MarkDoneBatch P (wo_done w) M (sy_rows s) = (None, rows) \<Longrightarrow>
    relay_step P batchSize s (s\<lparr>sy_rows := rows, sy_workers := (sy_workers s)(i := None)\<rparr>)"
| stop: "relay_step P batchSize s (s\<lparr>sy_workers := (sy_workers s)(i := None)\<rparr>)"

definition relay_start :: relay_system where
  "relay_start = \<lparr>sy_rows = [], sy_workers = Map.empty, sy_enqueued = [], sy_published = []\<rparr>"

definition relay_reachable :: "postgres_store \<Rightarrow> int \<Rightarrow> relay_system \<Rightarrow> bool" where
  "relay_reachable P batchSize s \<longleftrightarrow> (relay_step P batchSize)\<^sup>*\<^sup>* relay_start s"

section \<open>The invariant\<close>

definition row_ok :: "int \<Rightarrow> outbox_event list \<Rightarrow> outbox_entry \<Rightarrow> bool" where
  "row_ok maxAttempts published r \<longleftrightarrow>
     (ox_status r = Done \<longrightarrow> event_of r \<in> set published) \<and>
     (ox_status r = Failed \<longrightarrow> maxAttempts \<le> ox_attempts r) \<and>
     (ox_status r = Processing \<longrightarrow> ox_locked_at r \<noteq> None)"

definition worker_ok :: "outbox_event list \<Rightarrow> outbox_event list \<Rightarrow> relay_worker \<Rightarrow> bool" where
  "worker_ok enqueued published w \<longleftrightarrow>
     set (wo_events w) \<subseteq> set enqueued \<and>
     (\<forall>i\<in>set (wo_done w). \<exists>e\<in>set enqueued. ev_ID e = i \<and> e \<in> set published)"

definition relay_inv :: "postgres_store \<Rightarrow> relay_system \<Rightarrow> bool" where
  "relay_inv P s \<longleftrightarrow>
     map event_of (sy_rows s) = sy_enqueued s \<and> distinct (map ev_ID (sy_enqueued s)) \<and>
     (\<forall>r\<in>set (sy_rows s). row_ok (ps_maxAttempts P) (sy_published s) r) \<and>
     (\<forall>w\<in>ran (sy_workers s). worker_ok (sy_enqueued s) (sy_published s) w)"

lemma event_of_simps [simp]:
  "ev_ID (event_of r) = ox_id r" "event_of (claim_row now r) = event_of r"
  "event_of (done_row now r) = event_of r" "event_of (failed_row now m msg r) = event_of r"
  by (simp_all add: event_of_def claim_row_def done_row_def failed_row_def)

lemma ox_id_simps [simp]:
  "ox_id (claim_row now r) = ox_id r" "ox_id (done_row now r) = ox_id r" "ox_id (failed_row now m msg r) = ox_id r"
  by (simp_all add: claim_row_def done_row_def failed_row_def)

lemma row_ok_updates:
  "row_ok m ps (claim_row now r)" "row_ok m ps (failed_row now m msg r)"
  "event_of r \<in> set ps \<Longrightarrow> row_ok m ps (done_row now r)"
  by (simp_all add: row_ok_def claim_row_def failed_row_def done_row_def event_of_def)

lemma FetchPending_rows:
  assumes "FetchPending P limit M rows = (Inr events, rows')" and "orderly M"
  shows "\<exists>picked. rows' = map (\<lambda>r. if ox_id r \<in> picked then claim_row (dm_now M) r else r) rows \<and>
    set events = event_of ` {r \<in> set rows. ox_id r \<in> picked} \<and>
    picked = ox_id ` set (filter (\<lambda>r. ox_id r \<notin> dm_locked M)
      (take (nat (fetch_limit limit)) (sort_key (\<lambda>r. (ox_created_at r, ox_id r))
        (filter (is_candidate (dm_now M) (ps_lockTimeout P)) rows))))"
proof -
  obtain returned where f: "fetch_sql (\<lambda>_. True) (fetch_limit limit) (ps_lockTimeout P) M rows = (returned, rows')"
    and events: "events = map event_of returned"
    using assms(1) by (auto simp: FetchPending_def run_fetch_def split: if_splits option.splits prod.splits)
  define picked where "picked = set (map ox_id (filter (\<lambda>r. ox_id r \<notin> dm_locked M)
    (take (nat (fetch_limit limit)) (sort_key (\<lambda>r. (ox_created_at r, ox_id r))
      (filter (\<lambda>r. is_candidate (dm_now M) (ps_lockTimeout P) r \<and> True) rows)))))"
  define R where "R = map (\<lambda>r. if ox_id r \<in> picked then claim_row (dm_now M) r else r) rows"
  have "fetch_sql (\<lambda>_. True) (fetch_limit limit) (ps_lockTimeout P) M rows =
      (dm_order M (filter (\<lambda>r. ox_id r \<in> picked) R), R)"
    unfolding fetch_sql_def Let_def R_def picked_def by (rule refl)
  then have rows': "rows' = map (\<lambda>r. if ox_id r \<in> picked then claim_row (dm_now M) r else r) rows"
    and ret: "returned = dm_order M (filter (\<lambda>r. ox_id r \<in> picked) rows')"
    using f by (simp_all add: R_def)
  have "set returned = set (filter (\<lambda>r. ox_id r \<in> picked) rows')"
    using assms(2) unfolding ret orderly_def by (metis set_mset_mset)
  moreover have "map event_of (filter (\<lambda>r. ox_id r \<in> picked) rows') = map event_of (filter (\<lambda>r. ox_id r \<in> picked) rows)"
    unfolding rows' by (induction rows) auto
  ultimately have "set events = set (map event_of (filter (\<lambda>r. ox_id r \<in> picked) rows))"
    unfolding events by (metis list.set_map)
  with rows' show ?thesis by (intro exI [of _ picked]) (auto simp: picked_def)
qed

lemma run_mark_rows:
  "run_mark what f ids P M rows = (None, rows') \<Longrightarrow>
   rows' = map (\<lambda>r. if ox_id r \<in> set ids then f r else r) rows"
  by (auto simp: run_mark_def map_idI split: if_splits option.splits)

lemma row_ok_mono: "row_ok m ps r \<Longrightarrow> set ps \<subseteq> set ps' \<Longrightarrow> row_ok m ps' r"
  by (auto simp: row_ok_def)

lemma worker_ok_mono:
  "worker_ok es ps w \<Longrightarrow> set es \<subseteq> set es' \<Longrightarrow> set ps \<subseteq> set ps' \<Longrightarrow> worker_ok es' ps' w"
  unfolding worker_ok_def by (meson subset_iff)

lemma relay_inv_step:
  assumes "relay_step P batchSize s s'" and inv: "relay_inv P s"
  shows "relay_inv P s'"
  using assms(1)
proof cases
  case (enqueue r)
  have "distinct (map ev_ID (sy_enqueued s @ [event_of r]))"
    using inv enqueue(2) unfolding relay_inv_def fresh_row_def by (auto simp flip: inv [unfolded relay_inv_def, THEN conjunct1])
  moreover have "row_ok (ps_maxAttempts P) (sy_published s) r" using enqueue(2) by (simp add: fresh_row_def row_ok_def)
  moreover have "\<forall>w\<in>ran (sy_workers s). worker_ok (sy_enqueued s @ [event_of r]) (sy_published s) w"
    using inv worker_ok_mono unfolding relay_inv_def by (metis Un_upper1 order_refl set_append)
  ultimately show ?thesis using inv unfolding enqueue(1) relay_inv_def by simp
next
  case (fetch i M events rows)
  obtain picked where p: "rows = map (\<lambda>r. if ox_id r \<in> picked then claim_row (dm_now M) r else r) (sy_rows s)"
    "set events = event_of ` {r \<in> set (sy_rows s). ox_id r \<in> picked}"
    using FetchPending_rows [OF fetch(4,3)] by blast
  have "map event_of rows = map event_of (sy_rows s)" unfolding p(1) by simp
  moreover have "\<forall>r\<in>set rows. row_ok (ps_maxAttempts P) (sy_published s) r"
    using inv row_ok_updates(1) unfolding p(1) relay_inv_def by auto
  moreover have "set events \<subseteq> set (sy_enqueued s)" 
    using p(2) inv by (auto simp: relay_inv_def simp flip: inv [unfolded relay_inv_def, THEN conjunct1])
  ultimately show ?thesis using inv unfolding fetch(1) relay_inv_def by (auto simp: ran_def worker_ok_def)
next
  case (published i w e es)
  have w: "worker_ok (sy_enqueued s) (sy_published s) w" using inv published(2) by (auto simp: relay_inv_def ran_def)
  then have "worker_ok (sy_enqueued s) (sy_published s @ [e]) (w\<lparr>wo_events := es, wo_done := wo_done w @ [ev_ID e]\<rparr>)"
    using published(3) unfolding worker_ok_def by fastforce
  moreover have "\<forall>v\<in>ran (sy_workers s). worker_ok (sy_enqueued s) (sy_published s @ [e]) v"
    using inv worker_ok_mono unfolding relay_inv_def by (metis Un_upper1 order_refl set_append)
  moreover have "\<forall>r\<in>set (sy_rows s). row_ok (ps_maxAttempts P) (sy_published s @ [e]) r"
    using inv row_ok_mono unfolding relay_inv_def by (metis Un_upper1 set_append)
  ultimately show ?thesis using inv unfolding published(1) relay_inv_def by (auto simp: ran_def)
next
  case (refused i w e es err)
  have "worker_ok (sy_enqueued s) (sy_published s) w" using inv refused(2) by (auto simp: relay_inv_def ran_def)
  then show ?thesis using inv refused(3) unfolding refused(1) relay_inv_def by (auto simp: ran_def worker_ok_def)
next
  case (failures i w M rows)
  note rows = run_mark_rows [OF failures(5) [unfolded MarkFailedBatch_def]]
  have "worker_ok (sy_enqueued s) (sy_published s) w" using inv failures(2) by (auto simp: relay_inv_def ran_def)
  moreover have "map event_of rows = map event_of (sy_rows s)" unfolding rows by simp
  moreover have "\<forall>r\<in>set rows. row_ok (ps_maxAttempts P) (sy_published s) r"
    using inv row_ok_updates(2) unfolding rows relay_inv_def by auto
  ultimately show ?thesis using inv unfolding failures(1) relay_inv_def by (auto simp: ran_def worker_ok_def)
next
  case (finish i w M rows)
  note rows = run_mark_rows [OF finish(5) [unfolded MarkDoneBatch_def]]
  have w: "worker_ok (sy_enqueued s) (sy_published s) w" using inv finish(2) by (auto simp: relay_inv_def ran_def)
  have "event_of r \<in> set (sy_published s)" if r: "r \<in> set (sy_rows s)" "ox_id r \<in> set (wo_done w)" for r
  proof -
    obtain e where e: "e \<in> set (sy_enqueued s)" "ev_ID e = ox_id r" "e \<in> set (sy_published s)"
      using w r(2) unfolding worker_ok_def by blast
    have "event_of r \<in> set (sy_enqueued s)" using inv r(1) unfolding relay_inv_def by (metis image_eqI list.set_map)
    then have "event_of r = e" using e inv unfolding relay_inv_def by (auto simp: distinct_map inj_on_def)
    with e(3) show ?thesis by simp
  qed
  then have "\<forall>r\<in>set rows. row_ok (ps_maxAttempts P) (sy_published s) r"
    using inv row_ok_updates(3) unfolding rows relay_inv_def by auto
  moreover have "map event_of rows = map event_of (sy_rows s)" unfolding rows by simp
  ultimately show ?thesis using inv unfolding finish(1) relay_inv_def by (auto simp: ran_def)
next
  case (stop i)
  then show ?thesis using inv by (auto simp: relay_inv_def ran_def)
qed

lemma relay_inv_reachable: "relay_reachable P batchSize s \<Longrightarrow> relay_inv P s"
  unfolding relay_reachable_def
proof (induction rule: rtranclp_induct)
  case base
  show ?case by (simp add: relay_inv_def relay_start_def)
qed (rule relay_inv_step)

section \<open>A relay's round is a run of a worker\<close>

text \<open>The publisher takes the event in some state.\<close>

definition accepts :: "'p publisher \<Rightarrow> outbox_event \<Rightarrow> bool" where
  "accepts publish e \<longleftrightarrow> (\<exists>p. fst (publish e p) = None)"

lemma pub_call_accepts: "pub_call publish e st = (None, st') \<Longrightarrow> accepts publish e"
  unfolding accepts_def by (intro exI [of _ "rl_pub st"]) (auto simp: pub_call_def split: prod.splits)

lemma publish_loop_run:
  assumes "publish_loop publish es (ds, fs) st = ((ds', fs'), st')"
    and "sy_workers s i = Some \<lparr>wo_events = es, wo_done = ds, wo_failures = fs\<rparr>"
  shows "rl_rows st' = rl_rows st \<and> rl_calls st' = rl_calls st \<and> rl_moments st' = rl_moments st \<and>
    (\<exists>ps. set ps \<subseteq> Collect (accepts publish) \<and> (relay_step P n)\<^sup>*\<^sup>* s (s\<lparr>sy_published := sy_published s @ ps,
       sy_workers := (sy_workers s)(i \<mapsto> \<lparr>wo_events = [], wo_done = ds', wo_failures = fs'\<rparr>)\<rparr>))"
  using assms
proof (induction es arbitrary: ds fs st s)
  case Nil
  then show ?case by (intro conjI exI [of _ "[]"]) (simp_all add: fun_upd_idem)
next
  case (Cons e es)
  obtain x st1 where x: "pub_call publish e st = (x, st1)" by (cases "pub_call publish e st")
  have same: "rl_rows st1 = rl_rows st" "rl_calls st1 = rl_calls st" "rl_moments st1 = rl_moments st"
    using x by (auto simp: pub_call_def split: prod.splits)
  show ?case
  proof (cases x)
    case None
    define s1 where "s1 = s\<lparr>sy_published := sy_published s @ [e],
      sy_workers := (sy_workers s)(i \<mapsto> \<lparr>wo_events = es, wo_done = ds @ [ev_ID e], wo_failures = fs\<rparr>)\<rparr>"
    have step: "relay_step P n s s1" using published [OF Cons.prems(2), of e es P n] by (simp add: s1_def)
    have l: "publish_loop publish es (ds @ [ev_ID e], fs) st1 = ((ds', fs'), st')" using Cons.prems(1) x None by simp
    have w: "sy_workers s1 i = Some \<lparr>wo_events = es, wo_done = ds @ [ev_ID e], wo_failures = fs\<rparr>"
      by (simp add: s1_def)
    from Cons.IH [OF l w] obtain ps where ps: "set ps \<subseteq> Collect (accepts publish)" "(relay_step P n)\<^sup>*\<^sup>* s1 (s1\<lparr>sy_published := sy_published s1 @ ps,
       sy_workers := (sy_workers s1)(i \<mapsto> \<lparr>wo_events = [], wo_done = ds', wo_failures = fs'\<rparr>)\<rparr>)" by blast
    have "set (e # ps) \<subseteq> Collect (accepts publish)" using ps(1) pub_call_accepts x None by auto
    moreover from ps(2) have "(relay_step P n)\<^sup>*\<^sup>* s (s\<lparr>sy_published := sy_published s @ (e # ps),
       sy_workers := (sy_workers s)(i \<mapsto> \<lparr>wo_events = [], wo_done = ds', wo_failures = fs'\<rparr>)\<rparr>)"
      using converse_rtranclp_into_rtranclp [of "relay_step P n", OF step] by (simp add: s1_def)
    moreover have "rl_rows st' = rl_rows st" "rl_calls st' = rl_calls st" "rl_moments st' = rl_moments st"
      using Cons.IH [OF l w] same by simp_all
    ultimately show ?thesis by blast
  next
    case (Some err)
    define s1 where "s1 = s\<lparr>sy_workers :=
      (sy_workers s)(i \<mapsto> \<lparr>wo_events = es, wo_done = ds, wo_failures = fs @ [(ev_ID e, Some err)]\<rparr>)\<rparr>"
    have step: "relay_step P n s s1" using refused [OF Cons.prems(2), of e es P n err] by (simp add: s1_def)
    have l: "publish_loop publish es (ds, fs @ [(ev_ID e, Some err)]) st1 = ((ds', fs'), st')"
      using Cons.prems(1) x Some by simp
    have w: "sy_workers s1 i = Some \<lparr>wo_events = es, wo_done = ds, wo_failures = fs @ [(ev_ID e, Some err)]\<rparr>"
      by (simp add: s1_def)
    from Cons.IH [OF l w] obtain ps where ps: "set ps \<subseteq> Collect (accepts publish)" "(relay_step P n)\<^sup>*\<^sup>* s1 (s1\<lparr>sy_published := sy_published s1 @ ps,
       sy_workers := (sy_workers s1)(i \<mapsto> \<lparr>wo_events = [], wo_done = ds', wo_failures = fs'\<rparr>)\<rparr>)" by blast
    from ps(2) have "(relay_step P n)\<^sup>*\<^sup>* s (s\<lparr>sy_published := sy_published s @ ps,
       sy_workers := (sy_workers s)(i \<mapsto> \<lparr>wo_events = [], wo_done = ds', wo_failures = fs'\<rparr>)\<rparr>)"
      using converse_rtranclp_into_rtranclp [of "relay_step P n", OF step] by (simp add: s1_def)
    moreover have "rl_rows st' = rl_rows st" "rl_calls st' = rl_calls st" "rl_moments st' = rl_moments st"
      using Cons.IH [OF l w] same by simp_all
    ultimately show ?thesis using ps(1) by blast
  qed
qed

lemma FetchPending_error: "FetchPending P limit M rows = (Inl e, rows') \<Longrightarrow> rows' = rows"
  by (auto simp: FetchPending_def run_fetch_def split: if_splits option.splits prod.splits)

lemma run_mark_error: "run_mark what f ids P M rows = (Some e, rows') \<Longrightarrow> rows' = rows"
  by (auto simp: run_mark_def split: if_splits option.splits)

lemma db_call_rows: "db_call f st = (r, st') \<Longrightarrow> f (rl_moments st (rl_calls st)) (rl_rows st) = (r, rl_rows st')"
  by (auto simp: db_call_def split: prod.splits)

lemma processBatch_run:
  assumes run: "processBatch P publish events st = (r, st')"
    and w: "sy_workers s i = Some \<lparr>wo_events = events, wo_done = [], wo_failures = []\<rparr>" and rows: "rl_rows st = sy_rows s"
  shows "\<exists>ps. set ps \<subseteq> Collect (accepts publish) \<and>
    (relay_step P n)\<^sup>*\<^sup>* s (s\<lparr>sy_rows := rl_rows st', sy_published := sy_published s @ ps, sy_workers := (sy_workers s)(i := None)\<rparr>)"
proof -
  obtain ds fs st1 where l: "publish_loop publish events ([], []) st = ((ds, fs), st1)" by (metis prod.exhaust)
  from publish_loop_run [OF l w, of P n] rows obtain ps where r1: "rl_rows st1 = sy_rows s"
    and ps: "set ps \<subseteq> Collect (accepts publish)" and run1: "(relay_step P n)\<^sup>*\<^sup>* s (s\<lparr>sy_published := sy_published s @ ps,
       sy_workers := (sy_workers s)(i \<mapsto> \<lparr>wo_events = [], wo_done = ds, wo_failures = fs\<rparr>)\<rparr>)" by auto
  define at where "at rows v = s\<lparr>sy_rows := rows, sy_published := sy_published s @ ps, sy_workers := (sy_workers s)(i := v)\<rparr>" for rows v
  have at: "sy_workers (at rows v) i = v" "sy_rows (at rows v) = rows"
    "(at rows v)\<lparr>sy_workers := (sy_workers (at rows v))(i := v')\<rparr> = at rows v'"
    "(at rows v)\<lparr>sy_rows := rows', sy_workers := (sy_workers (at rows v))(i := v')\<rparr> = at rows' v'" for rows rows' v v'
    by (simp_all add: at_def)
  have run1': "(relay_step P n)\<^sup>*\<^sup>* s (at (sy_rows s) (Some \<lparr>wo_events = [], wo_done = ds, wo_failures = fs\<rparr>))"
    using run1 by (simp add: at_def)
  have halt: "relay_step P n (at rows v) (at rows None)" for rows v
    using stop [of P n "at rows v" i] by (simp add: at(3))
  obtain x st2 where x: "(if fs \<noteq> [] then db_call (MarkFailedBatch P fs) st1 else (None, st1)) = (x, st2)"
    by (cases "if fs \<noteq> [] then db_call (MarkFailedBatch P fs) st1 else (None, st1)")
  obtain y st3 where y: "db_call (MarkDoneBatch P ds) st2 = (y, st3)" by (cases "db_call (MarkDoneBatch P ds) st2")
  have "(relay_step P n)\<^sup>*\<^sup>* s (at (rl_rows st') None)"
  proof (cases x)
    case (Some e)
    then have "fs \<noteq> []" and m: "db_call (MarkFailedBatch P fs) st1 = (Some e, st2)" using x by (auto split: if_splits)
    have "rl_rows st2 = rl_rows st1" using db_call_rows [OF m] run_mark_error unfolding MarkFailedBatch_def by blast
    moreover have "st' = st2" using run l x Some by (simp add: processBatch_def)
    ultimately show ?thesis using run1' halt r1 by (metis rtranclp.rtrancl_into_rtrancl)
  next
    case None
    have run2: "(relay_step P n)\<^sup>*\<^sup>* s (at (rl_rows st2) (Some \<lparr>wo_events = [], wo_done = ds, wo_failures = []\<rparr>))"
    proof (cases "fs = []")
      case True
      then show ?thesis using run1' x r1 by simp
    next
      case False
      then have m: "db_call (MarkFailedBatch P fs) st1 = (None, st2)" using x None by simp
      have "relay_step P n (at (sy_rows s) (Some \<lparr>wo_events = [], wo_done = ds, wo_failures = fs\<rparr>))
          (at (rl_rows st2) (Some \<lparr>wo_events = [], wo_done = ds, wo_failures = []\<rparr>))"
        using failures [of "at (sy_rows s) (Some \<lparr>wo_events = [], wo_done = ds, wo_failures = fs\<rparr>)" i
            "\<lparr>wo_events = [], wo_done = ds, wo_failures = fs\<rparr>" P _ "rl_rows st2" n]
          db_call_rows [OF m] False r1 by (simp add: at)
      then show ?thesis using run1' by (metis rtranclp.rtrancl_into_rtrancl)
    qed
    show ?thesis
    proof (cases "ds = [] \<or> y \<noteq> None")
      case True
      have "rl_rows st' = rl_rows st2"
      proof (cases "ds = []")
        case True
        then show ?thesis using run l x None by (simp add: processBatch_def)
      next
        case False
        then obtain e where e: "y = Some e" using True by auto
        then have "rl_rows st3 = rl_rows st2" using db_call_rows [OF y] run_mark_error unfolding MarkDoneBatch_def by blast
        then show ?thesis using run l x None y e False by (simp add: processBatch_def)
      qed
      then show ?thesis using run2 halt by (metis rtranclp.rtrancl_into_rtrancl)
    next
      case False
      then have m: "MarkDoneBatch P ds (rl_moments st2 (rl_calls st2)) (rl_rows st2) = (None, rl_rows st3)"
        using db_call_rows [OF y] by simp
      have "st' = st3" using run l x None y False by (simp add: processBatch_def)
      moreover have "relay_step P n (at (rl_rows st2) (Some \<lparr>wo_events = [], wo_done = ds, wo_failures = []\<rparr>)) (at (rl_rows st3) None)"
        using finish [of "at (rl_rows st2) (Some \<lparr>wo_events = [], wo_done = ds, wo_failures = []\<rparr>)" i
            "\<lparr>wo_events = [], wo_done = ds, wo_failures = []\<rparr>" P _ "rl_rows st3" n] m by (simp add: at)
      ultimately show ?thesis using run2 by (metis rtranclp.rtrancl_into_rtrancl)
    qed
  qed
  then show ?thesis using ps unfolding at_def by blast
qed

section \<open>Properties\<close>

text \<open>
  C26. A round of the relay refines the step relation of the workers: whatever the publisher and the
  database answer, \<open>ProcessOnce\<close> over the PostgreSQL store takes the table from one state of the
  system to another by steps of one worker that was idle before and is idle afterwards, and the events
  recorded as published are ones that the publisher took. So what holds in every reachable state of the relation holds for relays that run these rounds.
\<close>

theorem relay_round_refines:
  assumes "relay_ProcessOnce True P publish n st = (r, st')"
    and "rl_rows st = sy_rows s" and "sy_workers s i = None" and "orderly (rl_moments st (rl_calls st))"
  shows "\<exists>ps. set ps \<subseteq> Collect (accepts publish) \<and>
    (relay_step P n)\<^sup>*\<^sup>* s (s\<lparr>sy_rows := rl_rows st', sy_published := sy_published s @ ps\<rparr>)"
proof -
  obtain x st1 where x: "db_call (FetchPending P n) st = (x, st1)" by (cases "db_call (FetchPending P n) st")
  note f = db_call_rows [OF x]
  show ?thesis
  proof (cases x)
    case (Inl e)
    then have "rl_rows st' = sy_rows s"
      using assms(1,2) x f FetchPending_error by (auto simp: relay_ProcessOnce_def)
    then show ?thesis by (intro exI [of _ "[]"]) simp
  next
    case (Inr events)
    define s1 where "s1 = s\<lparr>sy_rows := rl_rows st1,
      sy_workers := (sy_workers s)(i \<mapsto> \<lparr>wo_events = events, wo_done = [], wo_failures = []\<rparr>)\<rparr>"
    have step: "relay_step P n s s1"
      using fetch [OF assms(3,4), of P n events "rl_rows st1"] f Inr assms(2) by (simp add: s1_def)
    have b: "processBatch P publish events st1 = (r, st')" using assms(1) x Inr by (simp add: relay_ProcessOnce_def)
    have "sy_workers s1 i = Some \<lparr>wo_events = events, wo_done = [], wo_failures = []\<rparr>" "rl_rows st1 = sy_rows s1"
      by (simp_all add: s1_def)
    from processBatch_run [OF b this] obtain ps where ps: "set ps \<subseteq> Collect (accepts publish)" and
      "(relay_step P n)\<^sup>*\<^sup>* s1 (s1\<lparr>sy_rows := rl_rows st', sy_published := sy_published s1 @ ps,
        sy_workers := (sy_workers s1)(i := None)\<rparr>)" by blast
    moreover have "(sy_workers s)(i := None) = sy_workers s" using assms(3) by (simp add: fun_upd_idem)
    ultimately have "(relay_step P n)\<^sup>*\<^sup>* s1 (s\<lparr>sy_rows := rl_rows st', sy_published := sy_published s @ ps\<rparr>)"
      by (simp add: s1_def)
    then show ?thesis using ps converse_rtranclp_into_rtranclp [of "relay_step P n", OF step] by blast
  qed
qed

definition sample_row :: outbox_entry where
  "sample_row = \<lparr>ox_id = ''e1'', ox_topic = ''mail.event'', ox_partition_key = ''m1'', ox_payload = ''{}'', ox_status = Pending,
     ox_attempts = 0, ox_available_at = 0, ox_locked_at = None, ox_created_at = 0, ox_last_error = None, ox_processed_at = None\<rparr>"

definition sample_moment :: "string option \<Rightarrow> db_moment" where
  "sample_moment e = \<lparr>dm_now = 1, dm_locked = {}, dm_order = (\<lambda>xs. xs), dm_error = e\<rparr>"

definition sample_relay :: "nat relay_state" where
  "sample_relay = \<lparr>rl_rows = [sample_row], rl_pub = 0, rl_moments = \<lambda>_. sample_moment None, rl_calls = 0\<rparr>"

definition sample_system :: relay_system where
  "sample_system = relay_start\<lparr>sy_rows := [sample_row], sy_enqueued := [event_of sample_row]\<rparr>"

theorem relay_round_refines_witness:
  "\<exists>st'. relay_ProcessOnce True (NewPostgresStore True 0) (\<lambda>e n. (None, n + 1)) 10 sample_relay = ((1, None), st') \<and>
     (\<exists>ps. (relay_step (NewPostgresStore True 0) 10)\<^sup>*\<^sup>* sample_system
        (sample_system\<lparr>sy_rows := rl_rows st', sy_published := sy_published sample_system @ ps\<rparr>))"
proof -
  let ?run = "relay_ProcessOnce True (NewPostgresStore True 0) (\<lambda>e n. (None, n + 1)) 10 sample_relay"
  have "fst ?run = (1, None)" by code_simp
  then obtain st' where run: "?run = ((1, None), st')" by (cases ?run) simp
  have "rl_rows sample_relay = sy_rows sample_system" "sy_workers sample_system 0 = None"
    "orderly (rl_moments sample_relay (rl_calls sample_relay))"
    by (simp_all add: sample_relay_def sample_system_def relay_start_def orderly_def sample_moment_def)
  from relay_round_refines [OF run this] run show ?thesis by blast
qed

definition claimable_later :: "int \<Rightarrow> outbox_entry \<Rightarrow> bool" where
  "claimable_later lockTimeout r \<longleftrightarrow> (\<exists>t. \<forall>now\<ge>t. is_candidate now lockTimeout r)"

lemma row_ok_outcomes:
  assumes "row_ok m ps r"
  shows "(ox_status r = Done \<and> event_of r \<in> set ps) \<or> (ox_status r = Failed \<and> m \<le> ox_attempts r) \<or> claimable_later T r"
proof (cases "ox_status r")
  case Pending
  then have "claimable_later T r" unfolding claimable_later_def
    by (intro exI [of _ "ox_available_at r"]) (simp add: is_candidate_def)
  then show ?thesis by blast
next
  case Processing
  then obtain t where "ox_locked_at r = Some t" using assms by (auto simp: row_ok_def)
  then have "claimable_later T r" unfolding claimable_later_def using Processing
    by (intro exI [of _ "t + T + 1"]) (auto simp: is_candidate_def)
  then show ?thesis by blast
qed (use assms in \<open>auto simp: row_ok_def\<close>)

text \<open>
  C7. The outbox loses no event. In every state that any number of producers and relay workers can
  reach, with workers stopping at any point and in any interleaving of their claims, publications
  and updates, every event that was enqueued still has its row, unchanged, and the row is done and
  the event was published, or it is failed after the maximal number of attempts, or it can
  be claimed (again) from some time on.
\<close>

theorem outbox_loses_no_event:
  assumes "relay_reachable P batchSize s" and "e \<in> set (sy_enqueued s)"
  shows "\<exists>r\<in>set (sy_rows s). event_of r = e \<and>
    ((ox_status r = Done \<and> e \<in> set (sy_published s)) \<or>
     (ox_status r = Failed \<and> ps_maxAttempts P \<le> ox_attempts r) \<or> claimable_later (ps_lockTimeout P) r)"
proof -
  note inv = relay_inv_reachable [OF assms(1), unfolded relay_inv_def]
  then have "e \<in> event_of ` set (sy_rows s)" using assms(2) by (metis list.set_map)
  then obtain r where r: "r \<in> set (sy_rows s)" "event_of r = e" by blast
  then show ?thesis using inv row_ok_outcomes [of "ps_maxAttempts P" "sy_published s" r "ps_lockTimeout P"] by blast
qed

lemma sample_system_reachable: "relay_reachable P n sample_system"
proof -
  have "relay_step P n relay_start sample_system"
    using enqueue [of relay_start sample_row P n]
    by (simp add: fresh_row_def relay_start_def sample_system_def sample_row_def)
  then show ?thesis by (simp add: relay_reachable_def)
qed

theorem outbox_loses_no_event_witness:
  "\<exists>r\<in>set (sy_rows sample_system). event_of r = event_of sample_row \<and>
    ((ox_status r = Done \<and> event_of sample_row \<in> set (sy_published sample_system)) \<or>
     (ox_status r = Failed \<and> ps_maxAttempts (NewPostgresStore True 3) \<le> ox_attempts r) \<or>
     claimable_later (ps_lockTimeout (NewPostgresStore True 3)) r)"
proof -
  have "event_of sample_row \<in> set (sy_enqueued sample_system)" by (simp add: sample_system_def)
  from outbox_loses_no_event [OF sample_system_reachable this] show ?thesis .
qed

text \<open>The entry that Redis stores for the values of an event.\<close>

definition stored_entry :: "string \<Rightarrow> outbox_event \<Rightarrow> xmessage" where
  "stored_entry i e = \<lparr>xm_ID = i, xm_Values = map_of (map (map_prod id VStr) (stream_values e))\<rparr>"

definition fits_consumer :: "outbox_event \<Rightarrow> bool" where
  "fits_consumer e \<longleftrightarrow> ev_PartitionKey e \<noteq> [] \<and> \<not> go_ContainsAny (ev_PartitionKey e) line_breaks \<and>
     \<not> go_ContainsAny (ev_ID e) line_breaks \<and> length (ev_ID e) \<le> 1024 \<and> length (ev_PartitionKey e) \<le> 1024 \<and>
     length (ev_Payload e) \<le> 2 ^ 20"

text \<open>
  C28. What the relay publishes the consumer reads back. An event that the publisher accepts arrives at
  the handler with the same outbox identifier, partition key and payload, if and only if
  its partition key is not empty, its identifiers have no line break and at most 1024 bytes, and its
  payload has at most 1 MiB; otherwise the consumer cannot decode the entry, acknowledges it and drops it.
\<close>

theorem published_event_is_decoded:
  assumes "normalizeRedisStreamEvent jv e0 = Inr e"
  shows "decodeRedisMessage jv stream (stored_entry i e) =
      Inr \<lparr>ms_ID = i, ms_Stream = stream, ms_OutboxID = ev_ID e, ms_PartitionKey = ev_PartitionKey e, ms_Payload = ev_Payload e\<rparr> \<longleftrightarrow>
    fits_consumer e"
proof -
  have n: "go_TrimSpace (ev_ID e) = ev_ID e" "go_TrimSpace (ev_PartitionKey e) = ev_PartitionKey e"
    "go_TrimSpace (ev_Payload e) = ev_Payload e" "ev_ID e \<noteq> []" "ev_Payload e \<noteq> []" "jv (ev_Payload e)"
    using assms by (auto simp: normalizeRedisStreamEvent_def Let_def split: if_splits)
  have v: "xm_Values (stored_entry i e) ''outbox_id'' = Some (VStr (ev_ID e))"
    "xm_Values (stored_entry i e) ''partition_key'' = Some (VStr (ev_PartitionKey e))"
    "xm_Values (stored_entry i e) ''payload'' = Some (VStr (ev_Payload e))"
    by (simp_all add: stored_entry_def stream_values_def)
  have c: "check_value key k x = Inr y \<longleftrightarrow>
      y = x \<and> x \<noteq> [] \<and> (go_ContainsAny x line_breaks \<longrightarrow> key = ''payload'') \<and> length x \<le> k"
    if "go_TrimSpace x = x" for key k x y
    using that by (auto simp: check_value_def Let_def)
  have i: "xm_ID (stored_entry i e) = i" by (simp add: stored_entry_def)
  show ?thesis
    using n(4-6) unfolding decodeRedisMessage_def stringValue_def v i
    by (auto simp: c [OF n(1)] c [OF n(2)] c [OF n(3)] fits_consumer_def
        maxRedisMetadataBytes_def maxRedisPayloadBytes_def split: sum.splits)
      (auto simp: check_value_def n Let_def split: if_splits)
qed

theorem published_event_is_decoded_witness:
  "decodeRedisMessage (\<lambda>_. True) ''mail.event'' (stored_entry ''1-0'' (event_of sample_row)) =
   Inr \<lparr>ms_ID = ''1-0'', ms_Stream = ''mail.event'', ms_OutboxID = ''e1'', ms_PartitionKey = ''m1'', ms_Payload = ''{}''\<rparr>"
proof -
  have n: "normalizeRedisStreamEvent (\<lambda>_. True) (event_of sample_row) = Inr (event_of sample_row)" by code_simp
  have "fits_consumer (event_of sample_row)"
    by (simp add: fits_consumer_def event_of_def sample_row_def go_ContainsAny_def)
  with published_event_is_decoded [OF n, of "''mail.event''" "''1-0''"] show ?thesis
    by (simp add: event_of_def sample_row_def)
qed

end
