(* ===== verification/OutboxDrain.thy ===== *)
theory OutboxDrain
  imports Outbox
begin

text \<open>
  The outbox is emptied. The other properties of \<open>Outbox\<close> say that no event is lost; here the rounds of
  one relay (\<open>Relay.runWorker\<close> in \<open>internal/outbox/relay.go\<close>) come to an end with each: while the database answers
  and nobody else holds the rows, the number of rounds that are needed is bounded by the attempts that are left.
\<close>

text \<open>The first \<open>n\<close> rounds of the loop of a worker; a round that fails is logged, and the loop goes on.\<close>

fun worker_rounds :: "postgres_store \<Rightarrow> 'p publisher \<Rightarrow> int \<Rightarrow> nat \<Rightarrow> 'p relay_state \<Rightarrow> 'p relay_state" where
  "worker_rounds P publish batchSize 0 s = s"
| "worker_rounds P publish batchSize (Suc n) s =
     worker_rounds P publish batchSize n (snd (relay_ProcessOnce True P publish batchSize s))"

text \<open>The database answers every call, nobody has locked a row, and every row is due.\<close>

definition healthy :: "'p relay_state \<Rightarrow> bool" where
  "healthy s \<longleftrightarrow> (\<forall>k. dm_error (rl_moments s k) = None \<and> dm_locked (rl_moments s k) = {} \<and> orderly (rl_moments s k) \<and>
     (\<forall>r\<in>set (rl_rows s). ox_available_at r \<le> dm_now (rl_moments s k)))"

text \<open>The attempts that a row has left.\<close>

definition attempts_left :: "int \<Rightarrow> outbox_entry \<Rightarrow> nat" where
  "attempts_left maxAttempts r = (if ox_status r = Pending then nat (max 1 (maxAttempts - ox_attempts r)) else 0)"

definition progress :: "int \<Rightarrow> bool \<Rightarrow> outbox_entry \<Rightarrow> outbox_entry \<Rightarrow> bool" where
  "progress m accepting r r' \<longleftrightarrow> event_of r' = event_of r \<and> ox_available_at r' = ox_available_at r \<and> ox_status r = Pending \<and>
     ox_status r' \<noteq> Processing \<and> attempts_left m r' < attempts_left m r \<and> (ox_status r' = Failed \<longrightarrow> m \<le> ox_attempts r') \<and>
     (accepting \<longrightarrow> ox_status r' = Done)"

lemma progress_marks:
  assumes "ox_status r = Pending"
  shows "progress m acc r (done_row t (claim_row u r))" "progress m acc r (done_row t (failed_row v m msg (claim_row u r)))"
    "\<not> acc \<Longrightarrow> progress m acc r (failed_row v m msg (claim_row u r))"
  using assms by (auto simp: progress_def attempts_left_def done_row_def failed_row_def claim_row_def event_of_def)

lemma publish_loop_ids:
  "publish_loop publish es (ds, fs) st = ((ds', fs'), st') \<Longrightarrow>
   rl_rows st' = rl_rows st \<and> rl_calls st' = rl_calls st \<and> rl_moments st' = rl_moments st \<and>
   set ds' \<union> fst ` set fs' = set ds \<union> fst ` set fs \<union> ev_ID ` set es \<and> ((\<forall>e p. fst (publish e p) = None) \<longrightarrow> fs' = fs)"
proof (induction es arbitrary: ds fs st)
  case (Cons e es)
  obtain x p where x: "publish e (rl_pub st) = (x, p)" by fastforce
  then have c: "pub_call publish e st = (x, st\<lparr>rl_pub := p\<rparr>)" by (simp add: pub_call_def)
  show ?case
  proof (cases x)
    case None
    then show ?thesis using Cons.IH [of "ds @ [ev_ID e]" fs "st\<lparr>rl_pub := p\<rparr>"] Cons.prems c by auto
  next
    case (Some err)
    have "\<not> (\<forall>e p. fst (publish e p) = None)" using x Some by (metis fst_conv option.distinct(1))
    then show ?thesis using Cons.IH [of ds "fs @ [(ev_ID e, Some err)]" "st\<lparr>rl_pub := p\<rparr>"] Cons.prems c Some by auto
  qed
qed simp

lemma run_mark_ok:
  "ps_db P \<Longrightarrow> dm_error M = None \<Longrightarrow> run_mark what f ids P M rows = (None, map (\<lambda>r. if ox_id r \<in> set ids then f r else r) rows)"
  by (auto simp: run_mark_def map_idI)

text \<open>A batch marks every row of its events.\<close>

lemma processBatch_marks:
  assumes "ps_db P" and "\<forall>k. dm_error (rl_moments s k) = None" and "processBatch P publish events s = (res, s')"
  shows "rl_moments s' = rl_moments s \<and> (\<exists>ds fs t u. set ds \<union> fst ` set fs = ev_ID ` set events \<and>
    ((\<forall>e p. fst (publish e p) = None) \<longrightarrow> fs = []) \<and>
    rl_rows s' = map (\<lambda>r. (if ox_id r \<in> set ds then done_row t else id)
      ((if ox_id r \<in> fst ` set fs then failed_row u (ps_maxAttempts P) (failure_message fs (ox_id r)) else id) r)) (rl_rows s))"
proof -
  obtain ds fs s1 where l: "publish_loop publish events ([], []) s = ((ds, fs), s1)" by (metis prod.exhaust)
  note loop = publish_loop_ids [OF l]
  define M where "M = rl_moments s (rl_calls s1)"
  define s2 where "s2 = (if fs = [] then s1 else s1\<lparr>rl_rows := map (\<lambda>r. if ox_id r \<in> set (map fst fs)
      then failed_row (dm_now M) (ps_maxAttempts P) (failure_message fs (ox_id r)) r else r) (rl_rows s1), rl_calls := rl_calls s1 + 1\<rparr>)"
  have marked: "(if fs \<noteq> [] then db_call (MarkFailedBatch P fs) s1 else (None, s1)) = (None, s2)"
    using assms(1,2) loop by (simp add: s2_def db_call_def MarkFailedBatch_def run_mark_ok M_def)
  have "rl_moments s2 = rl_moments s" using loop by (simp add: s2_def)
  define s3 where "s3 = s2\<lparr>rl_rows := map (\<lambda>r. if ox_id r \<in> set ds then done_row (dm_now (rl_moments s (rl_calls s2))) r else r) (rl_rows s2),
      rl_calls := rl_calls s2 + 1\<rparr>"
  have "db_call (MarkDoneBatch P ds) s2 = (None, s3)"
    using assms(1,2) \<open>rl_moments s2 = rl_moments s\<close> by (simp add: s3_def db_call_def MarkDoneBatch_def run_mark_ok)
  then have s': "s' = (if ds = [] then s2 else s3)"
    using assms(3) marked by (auto simp: processBatch_def l split: if_splits)
  have rows2: "rl_rows s2 = map (\<lambda>r. (if ox_id r \<in> fst ` set fs then failed_row (dm_now M) (ps_maxAttempts P) (failure_message fs (ox_id r)) else id) r) (rl_rows s)"
    using loop by (auto simp: s2_def)
  have "rl_rows s' = map (\<lambda>r. (if ox_id r \<in> set ds then done_row (dm_now (rl_moments s (rl_calls s2))) else id)
      ((if ox_id r \<in> fst ` set fs then failed_row (dm_now M) (ps_maxAttempts P) (failure_message fs (ox_id r)) else id) r)) (rl_rows s)"
    using s' by (auto simp: s3_def rows2)
  moreover have "rl_moments s' = rl_moments s" using s' \<open>rl_moments s2 = rl_moments s\<close> by (simp add: s3_def)
  ultimately show ?thesis using loop by (intro conjI exI [of _ ds] exI [of _ fs]) auto
qed

lemma drain_round:
  assumes db: "ps_db P" and h: "healthy s" and ids: "distinct (map ox_id (rl_rows s))"
    and idle: "\<forall>r\<in>set (rl_rows s). ox_status r \<noteq> Processing"
    and round: "relay_ProcessOnce True P publish batchSize s = (res, s')"
  shows "rl_moments s' = rl_moments s \<and> (\<exists>g. rl_rows s' = map g (rl_rows s) \<and>
    (\<forall>r\<in>set (rl_rows s). g r = r \<or> progress (ps_maxAttempts P) (\<forall>e p. fst (publish e p) = None) r (g r)) \<and>
    ((\<exists>r\<in>set (rl_rows s). ox_status r = Pending) \<longrightarrow>
      (\<exists>r\<in>set (rl_rows s). progress (ps_maxAttempts P) (\<forall>e p. fst (publish e p) = None) r (g r))))"
proof -
  let ?acc = "\<forall>e p. fst (publish e p) = None" and ?m = "ps_maxAttempts P" and ?rows = "rl_rows s"
  define M where "M = rl_moments s (rl_calls s)"
  have M: "dm_error M = None" "dm_locked M = {}" "orderly M" "\<forall>r\<in>set ?rows. ox_available_at r \<le> dm_now M"
    using h by (simp_all add: healthy_def M_def)
  obtain events rows1 where fetch: "FetchPending P batchSize M ?rows = (Inr events, rows1)"
  proof -
    obtain evs rs where "fetch_sql (\<lambda>_. True) (fetch_limit batchSize) (ps_lockTimeout P) M ?rows = (evs, rs)" by fastforce
    then show ?thesis using that db M(1) by (simp add: FetchPending_def run_fetch_def)
  qed
  define s1 where "s1 = s\<lparr>rl_rows := rows1, rl_calls := rl_calls s + 1\<rparr>"
  have batch: "processBatch P publish events s1 = (res, s')"
    using round fetch by (simp add: relay_ProcessOnce_def db_call_def s1_def flip: M_def)
  have ok: "\<forall>k. dm_error (rl_moments s1 k) = None" using h by (simp add: s1_def healthy_def)
  have s1: "rl_rows s1 = rows1" "rl_moments s1 = rl_moments s" by (simp_all add: s1_def)
  let ?cand = "take (nat (fetch_limit batchSize)) (sort_key (\<lambda>r. (ox_created_at r, ox_id r))
      (filter (is_candidate (dm_now M) (ps_lockTimeout P)) ?rows))"
  from FetchPending_rows [OF fetch M(3)] M(2) obtain picked where
    rows1: "rows1 = map (\<lambda>r. if ox_id r \<in> picked then claim_row (dm_now M) r else r) ?rows"
    and events: "set events = event_of ` {r \<in> set ?rows. ox_id r \<in> picked}"
    and picked: "picked = ox_id ` set ?cand" by auto
  note marked = processBatch_marks [OF db ok batch, unfolded s1]
  then have mom: "rl_moments s' = rl_moments s" by (rule conjunct1)
  from marked [THEN conjunct2] obtain ds fs t u where
    marks: "set ds \<union> fst ` set fs = ev_ID ` set events" "?acc \<longrightarrow> fs = []"
    and rows': "rl_rows s' = map (\<lambda>r. (if ox_id r \<in> set ds then done_row t else id)
      ((if ox_id r \<in> fst ` set fs then failed_row u ?m (failure_message fs (ox_id r)) else id) r)) rows1"
    by (elim exE conjE) (rule that)
  have ev: "ev_ID ` set events = {ox_id r | r. r \<in> set ?rows \<and> ox_id r \<in> picked}" by (auto simp: events image_iff)
  define g where "g r = (let r1 = (if ox_id r \<in> picked then claim_row (dm_now M) r else r) in
    (if ox_id r \<in> set ds then done_row t else id)
      ((if ox_id r \<in> fst ` set fs then failed_row u ?m (failure_message fs (ox_id r)) else id) r1))" for r
  have g: "rl_rows s' = map g ?rows" unfolding rows' rows1 g_def Let_def by simp
  have cand: "set ?cand \<subseteq> {r \<in> set ?rows. is_candidate (dm_now M) (ps_lockTimeout P) r}"
    using set_take_subset by fastforce
  have pend: "ox_status r = Pending" if "r \<in> set ?rows" "ox_id r \<in> picked" for r
  proof -
    from that picked obtain r2 where r2: "r2 \<in> set ?cand" "ox_id r2 = ox_id r" by auto
    then have "r2 \<in> set ?rows" "is_candidate (dm_now M) (ps_lockTimeout P) r2" using cand by auto
    moreover have "r2 = r" using ids that(1) r2(2) calculation(1) by (metis distinct_map inj_onD)
    ultimately show ?thesis using idle that(1) by (auto simp: is_candidate_def)
  qed
  have moved: "progress ?m ?acc r (g r)" if "r \<in> set ?rows" "ox_id r \<in> picked" for r
  proof -
    have "ox_id r \<in> set ds \<union> fst ` set fs" using marks(1) ev that by auto
    then show ?thesis
      using progress_marks [OF pend [OF that], where acc = ?acc and m = ?m] that marks(2)
      by (cases "ox_id r \<in> set ds"; cases "ox_id r \<in> fst ` set fs") (simp_all add: g_def, force)
  qed
  have still: "g r = r" if "r \<in> set ?rows" "ox_id r \<notin> picked" for r
  proof -
    have "ox_id r \<notin> set ds \<union> fst ` set fs" using marks(1) ev that by auto
    then show ?thesis using that by (simp add: g_def)
  qed
  have some: "\<exists>r\<in>set ?rows. ox_id r \<in> picked" if "r \<in> set ?rows" "ox_status r = Pending" for r
  proof -
    have "filter (is_candidate (dm_now M) (ps_lockTimeout P)) ?rows \<noteq> []"
      using that M(4) by (auto simp: filter_empty_conv is_candidate_def)
    moreover have "0 < nat (fetch_limit batchSize)" by (simp add: fetch_limit_def)
    ultimately have "?cand \<noteq> []"
      by (metis length_0_conv length_sort less_numeral_extra(3) take_eq_Nil)
    then obtain x where "x \<in> set ?cand" by (meson list.set_sel(1))
    then show ?thesis using cand picked by blast
  qed
  show ?thesis using mom g moved still some by (intro conjI exI [of _ g]) blast+
qed

lemma sum_list_less:
  "(\<forall>x\<in>set xs. f x \<le> h x) \<Longrightarrow> x \<in> set xs \<Longrightarrow> f x < (h x :: nat) \<Longrightarrow> sum_list (map f xs) < sum_list (map h xs)"
proof (induction xs)
  case (Cons a xs)
  then show ?case
    using sum_list_mono [of xs f h] by (cases "x = a") (auto simp: add_le_less_mono add_less_le_mono)
qed simp

text \<open>How the rows of a run differ from those it began with.\<close>

definition settled_row :: "int \<Rightarrow> bool \<Rightarrow> outbox_entry \<Rightarrow> outbox_entry \<Rightarrow> bool" where
  "settled_row m accepting r r' \<longleftrightarrow> event_of r' = event_of r \<and>
     (if ox_status r = Pending then (ox_status r' = Done \<or> \<not> accepting \<and> ox_status r' = Failed \<and> m \<le> ox_attempts r') else r' = r)"

lemma worker_rounds_settle:
  assumes "ps_db P"
  shows "healthy s \<Longrightarrow> distinct (map ox_id (rl_rows s)) \<Longrightarrow> \<forall>r\<in>set (rl_rows s). ox_status r \<noteq> Processing \<Longrightarrow>
    sum_list (map (attempts_left (ps_maxAttempts P)) (rl_rows s)) \<le> n \<Longrightarrow>
    list_all2 (settled_row (ps_maxAttempts P) (\<forall>e p. fst (publish e p) = None)) (rl_rows s)
      (rl_rows (worker_rounds P publish batchSize n s))"
proof (induction n arbitrary: s)
  case 0
  have "ox_status r \<noteq> Pending" if "r \<in> set (rl_rows s)" for r
  proof -
    have "attempts_left (ps_maxAttempts P) r = 0" using 0(4) that by simp
    then show ?thesis by (simp add: attempts_left_def split: if_splits)
  qed
  then show ?case by (auto simp: list_all2_same settled_row_def)
next
  case (Suc n)
  let ?m = "ps_maxAttempts P" and ?acc = "\<forall>e p. fst (publish e p) = None"
  obtain res s' where round: "relay_ProcessOnce True P publish batchSize s = (res, s')" by fastforce
  from drain_round [OF assms Suc.prems(1-3) round] obtain g where mom: "rl_moments s' = rl_moments s"
    and g: "rl_rows s' = map g (rl_rows s)"
    and each: "\<forall>r\<in>set (rl_rows s). g r = r \<or> progress ?m ?acc r (g r)"
    and one: "(\<exists>r\<in>set (rl_rows s). ox_status r = Pending) \<longrightarrow> (\<exists>r\<in>set (rl_rows s). progress ?m ?acc r (g r))" by blast
  have same: "ox_id (g r) = ox_id r" "ox_available_at (g r) = ox_available_at r" "ox_status (g r) \<noteq> Processing"
      "event_of (g r) = event_of r" if "r \<in> set (rl_rows s)" for r
    using each that Suc.prems(3) by (auto simp: progress_def) (metis event_of_simps(1))
  have "map ox_id (map g (rl_rows s)) = map ox_id (rl_rows s)" using same(1) by simp
  then have ids: "distinct (map ox_id (rl_rows s'))" using Suc.prems(2) unfolding g by metis
  have h: "healthy s'" using Suc.prems(1) same(2) by (auto simp: healthy_def mom g)
  have idle: "\<forall>r\<in>set (rl_rows s'). ox_status r \<noteq> Processing" using same(3) g by auto
  have less: "sum_list (map (attempts_left ?m) (rl_rows s')) \<le> n"
  proof (cases "\<exists>r\<in>set (rl_rows s). ox_status r = Pending")
    case True
    with one obtain r where r: "r \<in> set (rl_rows s)" "attempts_left ?m (g r) < attempts_left ?m r" by (auto simp: progress_def)
    have "\<forall>r\<in>set (rl_rows s). attempts_left ?m (g r) \<le> attempts_left ?m r" using each by (auto simp: progress_def)
    from sum_list_less [OF this r] Suc.prems(4) show ?thesis by (simp add: g o_def)
  next
    case False
    then have "attempts_left ?m (g r) = 0" if "r \<in> set (rl_rows s)" for r
      using each that by (auto simp: progress_def attempts_left_def)
    then have "sum_list (map (attempts_left ?m) (rl_rows s')) = 0" by (auto simp: g)
    then show ?thesis by linarith
  qed
  have "list_all2 (settled_row ?m ?acc) (rl_rows s') (rl_rows (worker_rounds P publish batchSize n s'))"
    by (rule Suc.IH [OF h ids idle less])
  then have "list_all2 (\<lambda>r. settled_row ?m ?acc (g r)) (rl_rows s) (rl_rows (worker_rounds P publish batchSize n s'))"
    by (simp add: g list_all2_map1)
  moreover have "settled_row ?m ?acc r r'" if "r \<in> set (rl_rows s)" "settled_row ?m ?acc (g r) r'" for r r'
    using that each same(3,4) by (cases "ox_status (g r)") (auto simp: settled_row_def progress_def split: if_splits)
  ultimately have "list_all2 (settled_row ?m ?acc) (rl_rows s) (rl_rows (worker_rounds P publish batchSize n s'))"
    by (rule list.rel_mono_strong)
  then show ?case by (simp add: round)
qed

text \<open>
  C3. The outbox is emptied. As long as the database answers, the rows are due and nobody else holds them, a relay
  that goes on polling settles every pending row, after at most as many rounds as the rows have attempts left: each is
  done, or the publisher has refused it the maximal number of times and it is failed. Where the publisher accepts every event
  no row is failed. Rows that were settled before are not touched. The size of a batch does not matter.
\<close>

theorem outbox_is_emptied:
  assumes "ps_db P" and "healthy s" and "distinct (map ox_id (rl_rows s))"
    and "list_all (\<lambda>r. ox_status r \<noteq> Processing) (rl_rows s)"
    and "sum_list (map (attempts_left (ps_maxAttempts P)) (rl_rows s)) \<le> n"
  shows "list_all2 (\<lambda>r r'. event_of r' = event_of r \<and>
      (if ox_status r = Pending
       then ox_status r' = Done \<or> (\<exists>e p. fst (publish e p) \<noteq> None) \<and> ox_status r' = Failed \<and> ps_maxAttempts P \<le> ox_attempts r'
       else r' = r))
    (rl_rows s) (rl_rows (worker_rounds P publish batchSize n s))"
proof -
  have "\<forall>r\<in>set (rl_rows s). ox_status r \<noteq> Processing" using assms(4) by (simp add: list_all_iff)
  from worker_rounds_settle [OF assms(1-3) this assms(5), where publish = publish and batchSize = batchSize] show ?thesis
    by (rule list_all2_mono) (auto simp: settled_row_def split: if_splits)
qed

theorem outbox_is_emptied_witness:
  "map ox_status (rl_rows (worker_rounds (NewPostgresStore True 3) (\<lambda>e n. (Some ''down'', n)) 10 3 sample_relay)) = [Failed]"
proof -
  let ?P = "NewPostgresStore True 3" and ?pub = "\<lambda>e n. (Some ''down'', n :: nat)"
  have h: "healthy sample_relay"
    by (simp add: healthy_def sample_relay_def sample_moment_def sample_row_def orderly_def)
  have "ps_db ?P" "distinct (map ox_id (rl_rows sample_relay))"
    "list_all (\<lambda>r. ox_status r \<noteq> Processing) (rl_rows sample_relay)"
    "sum_list (map (attempts_left (ps_maxAttempts ?P)) (rl_rows sample_relay)) \<le> 3" by code_simp+
  from outbox_is_emptied [OF this(1) h this(2-4), where publish = ?pub and batchSize = 10]
  have "list_all2 (\<lambda>r r'. ox_status r = Pending \<longrightarrow> ox_status r' = Done \<or> ox_status r' = Failed) (rl_rows sample_relay)
      (rl_rows (worker_rounds ?P ?pub 10 3 sample_relay))"
    by (rule list_all2_mono) (auto split: if_splits)
  moreover have "map (\<lambda>r. ox_status r = Done) (rl_rows (worker_rounds ?P ?pub 10 3 sample_relay)) = [False]" by code_simp
  ultimately show ?thesis by (auto simp: sample_relay_def sample_row_def list_all2_Cons1)
qed

end
