(* ===== verification/StateOps.thy ===== *)
theory StateOps
  imports GoBase
begin

text \<open>
  Operations that read and change a state and may fail: the shape of a Go handler whose calls return an
  error that ends it. An operation maps a state to a result, \<open>Inl\<close> an error or \<open>Inr\<close> a value, and
  the state after it; what was done before an error stays done.
\<close>

type_synonym ('s, 'e, 'a) op = "'s \<Rightarrow> ('e + 'a) \<times> 's"

text \<open>\<open>a, err := m(); if err != nil { return err }; f(a)\<close>\<close>

definition try_op :: "('s, 'e, 'a) op \<Rightarrow> ('a \<Rightarrow> ('s, 'e, 'b) op) \<Rightarrow> ('s, 'e, 'b) op" where
  "try_op m f s = (case m s of (Inl e, s1) \<Rightarrow> (Inl e, s1) | (Inr a, s1) \<Rightarrow> f a s1)"

definition ok_op :: "'a \<Rightarrow> ('s, 'e, 'a) op" where
  "ok_op a s = (Inr a, s)"

definition fail_op :: "'e \<Rightarrow> ('s, 'e, 'a) op" where
  "fail_op e s = (Inl e, s)"

text \<open>\<open>if err := check; err != nil { return err }\<close>\<close>

definition check_op :: "'e option \<Rightarrow> ('s, 'e, unit) op" where
  "check_op e = (case e of None \<Rightarrow> ok_op () | Some x \<Rightarrow> fail_op x)"

definition pure_op :: "'e + 'a \<Rightarrow> ('s, 'e, 'a) op" where
  "pure_op r s = (r, s)"

definition update_op :: "('s \<Rightarrow> 's) \<Rightarrow> ('s, 'e, unit) op" where
  "update_op f s = (Inr (), f s)"

definition get_op :: "('s \<Rightarrow> ('s, 'e, 'a) op) \<Rightarrow> ('s, 'e, 'a) op" where
  "get_op f s = f s s"

lemmas op_defs = ok_op_def fail_op_def pure_op_def update_op_def get_op_def

lemma try_op_Inl: "m s = (Inl e, s1) \<Longrightarrow> try_op m f s = (Inl e, s1)"
  by (simp add: try_op_def)

lemma try_op_Inr: "m s = (Inr a, s1) \<Longrightarrow> try_op m f s = f a s1"
  by (simp add: try_op_def)

lemma try_opE:
  assumes "try_op m f s = (r, s')"
  obtains (fail) e where "m s = (Inl e, s')" "r = Inl e"
    | (pass) a s1 where "m s = (Inr a, s1)" "f a s1 = (r, s')"
  using assms by (auto simp: try_op_def split: prod.splits sum.splits)

lemma try_op_InrE:
  assumes "try_op m f s = (Inr b, s')"
  obtains a s1 where "m s = (Inr a, s1)" "f a s1 = (Inr b, s')"
  using assms by (auto elim: try_opE)

lemma try_op_simps [simp]:
  "try_op (ok_op a) f s = f a s" "try_op (fail_op e) g s = (Inl e, s)"
  "try_op (update_op h) k s = k () (h s)" "try_op (check_op None) k s = k () s"
  "try_op (check_op (Some e)) k s = (Inl e, s)"
  by (simp_all add: try_op_def op_defs check_op_def)

lemma try_op_ok: "try_op (ok_op a) f = f a"
  by (rule ext) simp

lemma try_op_guard: "try_op (if \<not> c then fail_op e else ok_op ()) (\<lambda>_. m) = (if \<not> c then fail_op e else m)"
  by (rule ext) (simp add: fail_op_def)

lemma try_op_assoc: "try_op (try_op m f) g = try_op m (\<lambda>a. try_op (f a) g)"
  by (rule ext) (auto simp: try_op_def split: prod.splits sum.splits)

text \<open>What every run of an operation does to the state, as a relation that composes.\<close>

definition keeps :: "('s \<Rightarrow> 's \<Rightarrow> bool) \<Rightarrow> ('s, 'e, 'a) op \<Rightarrow> bool" where
  "keeps R m \<longleftrightarrow> (\<forall>s r s'. m s = (r, s') \<longrightarrow> R s s')"

lemma keepsI: "(\<And>s r s'. m s = (r, s') \<Longrightarrow> R s s') \<Longrightarrow> keeps R m"
  by (simp add: keeps_def)

lemma keepsD: "keeps R m \<Longrightarrow> m s = (r, s') \<Longrightarrow> R s s'"
  by (simp add: keeps_def)

lemma keeps_try_op:
  assumes "transp R" and "keeps R m" and "\<And>a. keeps R (f a)"
  shows "keeps R (try_op m f)"
proof (rule keepsI)
  fix s r s'
  assume "try_op m f s = (r, s')"
  then show "R s s'"
  proof (cases rule: try_opE)
    case (fail e)
    then show ?thesis using assms(2) by (blast dest: keepsD)
  next
    case (pass a s1)
    then show ?thesis using assms by (meson keepsD transpE)
  qed
qed

lemma keeps_ops:
  assumes "reflp R"
  shows "keeps R (ok_op a)" "keeps R (fail_op e)" "keeps R (pure_op x)" "keeps R (check_op c)"
  using assms by (auto intro!: keepsI simp: op_defs check_op_def reflpD split: option.splits)

end
