(* ===== verification/SmtpEnvelope.thy ===== *)
theory SmtpEnvelope
  imports DeliveryJob
begin

text \<open>
  The envelope of an inbound or submitted message: the errors of the SMTP service
  (\<open>internal/smtp/status.go\<close>), the options of MAIL and RCPT and their validation
  (\<open>extensions.go\<close>), the DSN options that are kept (\<open>dsn_options.go\<close>), and the receive policies
  (\<open>policy.go\<close>). The option types are those of the go-smtp library, with the fields the code reads.
\<close>

section \<open>Errors\<close>

text \<open>The errors that the library defines, and those of the service: a status code, an enhanced code, and
  the format and the arguments of its text. \<open>WrapErr\<close> is an error made with \<open>%w\<close>.\<close>

datatype lib_error = ErrAuthRequired | ErrDataTooLarge | ErrAuthFailed | ErrAuthUnsupported

datatype smtp_error =
    SMTPErr int "int \<times> int \<times> int" string "string list"
  | LibErr lib_error
  | PlainErr string
  | WrapErr string smtp_error
  | ErrMailboxFull

definition smtpPermanent :: "int \<Rightarrow> int \<times> int \<times> int \<Rightarrow> string \<Rightarrow> string list \<Rightarrow> smtp_error" where
  "smtpPermanent code enhanced fmt args = SMTPErr code enhanced fmt args"

definition smtpTemporary :: "int \<Rightarrow> int \<times> int \<times> int \<Rightarrow> string \<Rightarrow> string list \<Rightarrow> smtp_error" where
  "smtpTemporary code enhanced fmt args = SMTPErr code enhanced fmt args"

definition smtpBadSequence :: "string \<Rightarrow> smtp_error" where
  "smtpBadSequence command = smtpPermanent 503 (5, 5, 1) ''%s command is out of sequence'' [command]"

definition smtpAlreadyAuthenticated :: smtp_error where
  "smtpAlreadyAuthenticated = smtpPermanent 503 (5, 7, 0) ''session is already authenticated'' []"

definition smtpMailboxUnavailable :: "string \<Rightarrow> string list \<Rightarrow> smtp_error" where
  "smtpMailboxUnavailable fmt args = smtpPermanent 550 (5, 1, 1) fmt args"

definition smtpPolicyReject :: "string \<Rightarrow> string list \<Rightarrow> smtp_error" where
  "smtpPolicyReject fmt args = smtpPermanent 550 (5, 7, 1) fmt args"

definition smtpPolicyTempfail :: "string \<Rightarrow> string list \<Rightarrow> smtp_error" where
  "smtpPolicyTempfail fmt args = smtpTemporary 451 (4, 7, 1) fmt args"

definition smtpTooManyRecipients :: "int \<Rightarrow> smtp_error" where
  "smtpTooManyRecipients mx = smtpTemporary 452 (4, 5, 3) ''too many recipients; max %d'' [go_Itoa mx]"

definition smtpRateLimited :: "string \<Rightarrow> smtp_error" where
  "smtpRateLimited recipient = smtpTemporary 451 (4, 7, 1) ''rate limit exceeded for recipient %q'' [recipient]"

definition smtpBackpressure :: smtp_error where
  "smtpBackpressure = smtpTemporary 421 (4, 3, 2) ''service temporarily unavailable'' []"

definition smtpMailboxFull :: "string \<Rightarrow> smtp_error" where
  "smtpMailboxFull addr = smtpTemporary 452 (4, 2, 2) ''insufficient system storage for %q'' [addr]"

lemmas status_defs = smtpPermanent_def smtpTemporary_def smtpBadSequence_def smtpAlreadyAuthenticated_def
  smtpMailboxUnavailable_def smtpPolicyReject_def smtpPolicyTempfail_def smtpTooManyRecipients_def
  smtpRateLimited_def smtpBackpressure_def smtpMailboxFull_def

text \<open>\<open>errors.Is(err, mail.ErrMailboxFull)\<close>\<close>

fun is_mailbox_full :: "smtp_error \<Rightarrow> bool" where
  "is_mailbox_full ErrMailboxFull = True"
| "is_mailbox_full (WrapErr _ e) = is_mailbox_full e"
| "is_mailbox_full _ = False"

section \<open>The options of MAIL and RCPT\<close>

record mail_options =
  mo_Body :: string
  mo_Size :: int
  mo_RequireTLS :: bool
  mo_UTF8 :: bool
  mo_Return :: string
  mo_EnvelopeID :: string

record rcpt_options =
  ro_Notify :: "string list"
  ro_OriginalRecipientType :: string
  ro_OriginalRecipient :: string

record extension_support =
  es_SMTPUTF8 :: bool
  es_RequireTLS :: bool
  es_DSN :: bool
  es_BinaryMIME :: bool

definition upper_trim :: "string \<Rightarrow> string" where
  "upper_trim v = go_ToUpper (go_TrimSpace v)"

definition validDSNReturnOption :: "string \<Rightarrow> bool" where
  "validDSNReturnOption v \<longleftrightarrow> upper_trim v = ''FULL'' \<or> upper_trim v = ''HDRS''"

definition validDSNNotifyOption :: "string \<Rightarrow> bool" where
  "validDSNNotifyOption v \<longleftrightarrow> upper_trim v = ''NEVER'' \<or> upper_trim v = ''SUCCESS'' \<or>
     upper_trim v = ''FAILURE'' \<or> upper_trim v = ''DELAY''"

definition dsnNotifyNeverCombined :: "string list \<Rightarrow> bool" where
  "dsnNotifyNeverCombined values \<longleftrightarrow>
     \<not> length values \<le> 1 \<and> list_ex (\<lambda>v. upper_trim v = ''NEVER'') values"

definition isHexDigit :: "char \<Rightarrow> bool" where
  "isHexDigit c \<longleftrightarrow> is_digit c \<or> (65 \<le> byte_val c \<and> byte_val c \<le> 70) \<or> (97 \<le> byte_val c \<and> byte_val c \<le> 102)"

function validDSNXText :: "string \<Rightarrow> bool" where
  "validDSNXText v =
     (if v = [] then True
      else let c = hd v in
        if byte_val c < 33 \<or> 126 < byte_val c \<or> c = CHR ''='' then False
        else if c \<noteq> CHR ''+'' then validDSNXText (tl v)
        else if length v < 3 \<or> \<not> isHexDigit (v ! 1) \<or> \<not> isHexDigit (v ! 2) then False
        else validDSNXText (drop 3 v))"
  by pat_completeness auto
termination
  by (relation "measure length") auto

declare validDSNXText.simps [simp del]

definition validDSNEnvelopeID :: "string \<Rightarrow> bool" where
  "validDSNEnvelopeID value0 =
     (let v = go_TrimSpace value0 in if v = [] \<or> 100 < length v then False else validDSNXText v)"

definition validDSNAddressType :: "string \<Rightarrow> bool" where
  "validDSNAddressType v = list_all (\<lambda>c. is_lower c \<or> is_upper c \<or> is_digit c \<or> c = CHR ''-'') v"

definition validDSNOriginalRecipient :: "string \<Rightarrow> bool" where
  "validDSNOriginalRecipient v =
     (case go_Cut '';'' (go_TrimSpace v) of
        None \<Rightarrow> False
      | Some (addrType, encodedAddress) \<Rightarrow>
          if addrType = [] \<or> encodedAddress = [] then False
          else if \<not> validDSNAddressType addrType then False
          else validDSNXText encodedAddress)"

text \<open>Rune by rune: a printable character other than plus and equals stays, any other is written byte by
  byte. An invalid byte is the replacement character.\<close>

definition hex_upper :: "nat \<Rightarrow> char" where
  "hex_upper n = ''0123456789ABCDEF'' ! n"

definition xtext_byte :: "char \<Rightarrow> string" where
  "xtext_byte c = [CHR ''+'', hex_upper (byte_val c div 16), hex_upper (byte_val c mod 16)]"

definition xtext_plain :: "char \<Rightarrow> bool" where
  "xtext_plain c \<longleftrightarrow> 33 \<le> byte_val c \<and> byte_val c \<le> 126 \<and> c \<noteq> CHR ''+'' \<and> c \<noteq> CHR ''=''"

function encodeDSNXText :: "string \<Rightarrow> string" where
  "encodeDSNXText v =
     (if v = [] then []
      else (if xtext_plain (hd v) then [hd v] else concat (map xtext_byte (next_rune v))) @
           encodeDSNXText (drop (max 1 (rune_len v)) v))"
  by pat_completeness auto
termination
  by (relation "measure length") auto

declare encodeDSNXText.simps [simp del]

definition validRCPTOriginalRecipient :: "rcpt_options option \<Rightarrow> bool" where
  "validRCPTOriginalRecipient opts =
     (case opts of None \<Rightarrow> True
      | Some r \<Rightarrow>
          if go_TrimSpace (ro_OriginalRecipient r) = [] then True
          else if go_TrimSpace (ro_OriginalRecipientType r) = []
          then validDSNOriginalRecipient (ro_OriginalRecipient r)
          else if \<not> validDSNAddressType (ro_OriginalRecipientType r) then False
          else validDSNXText (encodeDSNXText (go_TrimSpace (ro_OriginalRecipient r))))"

definition validateMailOptions :: "mail_options option \<Rightarrow> extension_support \<Rightarrow> smtp_error option" where
  "validateMailOptions opts S =
     (case opts of None \<Rightarrow> None
      | Some m \<Rightarrow>
          if mo_UTF8 m \<and> \<not> es_SMTPUTF8 S then Some (smtpPermanent 555 (5, 5, 4) ''SMTPUTF8 is not supported'' [])
          else if mo_RequireTLS m \<and> \<not> es_RequireTLS S
          then Some (smtpPermanent 555 (5, 5, 4) ''REQUIRETLS is not supported'' [])
          else if mo_Return m \<noteq> [] \<and> \<not> es_DSN S
          then Some (smtpPermanent 555 (5, 5, 4) ''DSN RET is not supported'' [])
          else if mo_Return m \<noteq> [] \<and> \<not> validDSNReturnOption (mo_Return m)
          then Some (smtpPermanent 501 (5, 5, 4) ''invalid DSN RET option'' [])
          else if mo_EnvelopeID m \<noteq> [] \<and> \<not> es_DSN S
          then Some (smtpPermanent 555 (5, 5, 4) ''DSN ENVID is not supported'' [])
          else if mo_EnvelopeID m \<noteq> [] \<and> \<not> validDSNEnvelopeID (mo_EnvelopeID m)
          then Some (smtpPermanent 501 (5, 5, 4) ''invalid DSN ENVID option'' [])
          else if mo_Body m = ''BINARYMIME'' \<and> \<not> es_BinaryMIME S
          then Some (smtpPermanent 555 (5, 5, 4) ''BINARYMIME is not supported'' [])
          else None)"

definition validateAnnouncedMessageSize :: "mail_options option \<Rightarrow> int \<Rightarrow> smtp_error option" where
  "validateAnnouncedMessageSize opts maxBytes =
     (case opts of None \<Rightarrow> None
      | Some m \<Rightarrow>
          if mo_Size m \<le> 0 \<or> maxBytes \<le> 0 then None
          else if maxBytes < mo_Size m then Some (LibErr ErrDataTooLarge)
          else None)"

definition validateRcptOptions :: "rcpt_options option \<Rightarrow> extension_support \<Rightarrow> smtp_error option" where
  "validateRcptOptions opts S =
     (case opts of None \<Rightarrow> None
      | Some r \<Rightarrow>
          if ro_Notify r \<noteq> [] \<and> \<not> es_DSN S
          then Some (smtpPermanent 555 (5, 5, 4) ''DSN NOTIFY is not supported'' [])
          else if list_ex (\<lambda>v. \<not> validDSNNotifyOption v) (ro_Notify r)
          then Some (smtpPermanent 501 (5, 5, 4) ''invalid DSN NOTIFY option'' [])
          else if dsnNotifyNeverCombined (ro_Notify r)
          then Some (smtpPermanent 501 (5, 5, 4) ''DSN NOTIFY=NEVER cannot be combined'' [])
          else if ro_OriginalRecipient r \<noteq> [] \<and> \<not> es_DSN S
          then Some (smtpPermanent 555 (5, 5, 4) ''DSN ORCPT is not supported'' [])
          else if ro_OriginalRecipient r \<noteq> [] \<and> \<not> validRCPTOriginalRecipient opts
          then Some (smtpPermanent 501 (5, 5, 4) ''invalid DSN ORCPT option'' [])
          else None)"

definition mailOptionsUTF8 :: "mail_options option \<Rightarrow> bool" where
  "mailOptionsUTF8 opts = (case opts of None \<Rightarrow> False | Some m \<Rightarrow> mo_UTF8 m)"

function containsNonASCII :: "string \<Rightarrow> bool" where
  "containsNonASCII v =
     (if v = [] then False
      else if rune_len v = 0 then True
      else if 1 < rune_len v then True
      else containsNonASCII (drop (rune_len v) v))"
  by pat_completeness auto
termination
  by (relation "measure length") auto

declare containsNonASCII.simps [simp del]

definition validateSMTPUTF8Address :: "string \<Rightarrow> string \<Rightarrow> bool \<Rightarrow> bool \<Rightarrow> smtp_error option" where
  "validateSMTPUTF8Address raw normalized transactionUTF8 supportSMTPUTF8 =
     (if \<not> containsNonASCII raw \<and> \<not> containsNonASCII normalized then None
      else if \<not> supportSMTPUTF8
      then Some (smtpPermanent 553 (5, 6, 7) ''SMTPUTF8 is required for internationalized addresses'' [])
      else if \<not> transactionUTF8
      then Some (smtpPermanent 553 (5, 6, 7) ''MAIL FROM must declare SMTPUTF8 for internationalized addresses'' [])
      else None)"

section \<open>The DSN options of a message\<close>

record smtp_dsn_recipient =
  sd_Address :: string
  sd_Notify :: "string list"
  sd_OriginalRecipient :: string

record smtp_dsn =
  sd_Return :: string
  sd_EnvelopeID :: string
  sd_Recipients :: "smtp_dsn_recipient list"

definition no_dsn :: smtp_dsn where
  "no_dsn = \<lparr>sd_Return = [], sd_EnvelopeID = [], sd_Recipients = []\<rparr>"

definition normalizeDSNReturn :: "mail_options option \<Rightarrow> string" where
  "normalizeDSNReturn opts = (case opts of None \<Rightarrow> [] | Some m \<Rightarrow> upper_trim (mo_Return m))"

definition normalizeDSNEnvelopeID :: "mail_options option \<Rightarrow> string" where
  "normalizeDSNEnvelopeID opts = (case opts of None \<Rightarrow> [] | Some m \<Rightarrow> go_TrimSpace (mo_EnvelopeID m))"

definition normalizeDSNOriginalRecipient :: "rcpt_options option \<Rightarrow> string" where
  "normalizeDSNOriginalRecipient opts =
     (case opts of None \<Rightarrow> []
      | Some r \<Rightarrow>
          let a = go_TrimSpace (ro_OriginalRecipient r); t = go_TrimSpace (ro_OriginalRecipientType r) in
          if a = [] then [] else if t = [] then a
          else go_ToUpper t @ '';'' @ encodeDSNXText a)"

definition smtp_orderDSNNotify :: "string list \<Rightarrow> string list" where
  "smtp_orderDSNNotify values =
     (if length values \<le> 1 then values
      else filter (\<lambda>v. v \<in> set values) [''NEVER'', ''SUCCESS'', ''FAILURE'', ''DELAY''])"

definition normalizeDSNRecipientOptions :: "string \<Rightarrow> rcpt_options option \<Rightarrow> smtp_dsn_recipient" where
  "normalizeDSNRecipientOptions addr opts =
     \<lparr>sd_Address = go_ToLower (go_TrimSpace addr),
      sd_Notify = (case opts of None \<Rightarrow> []
        | Some r \<Rightarrow> smtp_orderDSNNotify (dedup_first (filter (\<lambda>v. v \<noteq> []) (map upper_trim (ro_Notify r))))),
      sd_OriginalRecipient = normalizeDSNOriginalRecipient opts\<rparr>"

fun upsertDSNRecipientOption :: "smtp_dsn_recipient list \<Rightarrow> smtp_dsn_recipient \<Rightarrow> smtp_dsn_recipient list" where
  "upsertDSNRecipientOption [] r = [r]"
| "upsertDSNRecipientOption (x # xs) r =
     (if sd_Address x = sd_Address r then r # xs else x # upsertDSNRecipientOption xs r)"

section \<open>Policies\<close>

record receive_policy =
  pl_MaxRecipients :: int
  pl_MaxBytes :: int

record inbound_policy =
  ip_Mode :: string
  ip_MaxRecipients :: int
  ip_MaxBytes :: int

definition defaultMaxRecipientsPerMessage :: int where "defaultMaxRecipientsPerMessage = 100"
definition defaultMaxMessageBytes :: int where "defaultMaxMessageBytes = 25 * 1024 * 1024"

definition normalizePolicy :: "receive_policy \<Rightarrow> int \<Rightarrow> receive_policy" where
  "normalizePolicy p legacyMaxMessageBytes =
     (let p = (if pl_MaxRecipients p \<le> 0 then p\<lparr>pl_MaxRecipients := defaultMaxRecipientsPerMessage\<rparr> else p);
          p = (if pl_MaxBytes p \<le> 0 then p\<lparr>pl_MaxBytes := legacyMaxMessageBytes\<rparr> else p)
      in if pl_MaxBytes p \<le> 0 then p\<lparr>pl_MaxBytes := defaultMaxMessageBytes\<rparr> else p)"

definition effectiveMaxBytes :: "int \<Rightarrow> inbound_policy option \<Rightarrow> int" where
  "effectiveMaxBytes globalLimit dp =
     (case dp of None \<Rightarrow> globalLimit
      | Some d \<Rightarrow>
          if ip_Mode d \<noteq> ''enforce'' \<or> ip_MaxBytes d \<le> 0 then globalLimit
          else if ip_MaxBytes d < globalLimit then ip_MaxBytes d else globalLimit)"

definition effectiveMaxRecipients :: "int \<Rightarrow> inbound_policy option \<Rightarrow> int" where
  "effectiveMaxRecipients globalMax dp =
     (case dp of None \<Rightarrow> globalMax
      | Some d \<Rightarrow>
          if ip_Mode d \<noteq> ''enforce'' \<or> ip_MaxRecipients d \<le> 0 then globalMax
          else if ip_MaxRecipients d < globalMax then ip_MaxRecipients d else globalMax)"

definition stricterPositiveLimit :: "int \<Rightarrow> int \<Rightarrow> int" where
  "stricterPositiveLimit a b = (if a \<le> 0 then b else if b \<le> 0 \<or> a < b then a else b)"

definition stricterPositiveLimit64 :: "int \<Rightarrow> int \<Rightarrow> int" where
  "stricterPositiveLimit64 a b = (if a \<le> 0 then b else if b \<le> 0 \<or> a < b then a else b)"

definition mergeInboundDomainPolicy :: "inbound_policy option \<Rightarrow> inbound_policy \<Rightarrow> inbound_policy option" where
  "mergeInboundDomainPolicy current nxt =
     (if ip_Mode nxt \<noteq> ''enforce'' then current
      else case current of None \<Rightarrow> Some nxt
        | Some c \<Rightarrow>
            if ip_Mode c \<noteq> ''enforce'' then Some nxt
            else Some (c\<lparr>ip_Mode := ''enforce'',
                        ip_MaxRecipients := stricterPositiveLimit (ip_MaxRecipients c) (ip_MaxRecipients nxt),
                        ip_MaxBytes := stricterPositiveLimit64 (ip_MaxBytes c) (ip_MaxBytes nxt)\<rparr>))"

section \<open>xtext\<close>

lemma hex_upper_facts:
  assumes "n < 16"
  shows "isHexDigit (hex_upper n)" "hex_upper n \<in> set ''0123456789ABCDEF''"
proof -
  have "list_all (\<lambda>n. isHexDigit (hex_upper n)) [0..<16]" by code_simp
  then show "isHexDigit (hex_upper n)" using assms by (simp add: list_all_iff)
  have "list_all (\<lambda>n. hex_upper n \<in> set ''0123456789ABCDEF'') [0..<16]" by code_simp
  then show "hex_upper n \<in> set ''0123456789ABCDEF''" using assms by (simp add: list_all_iff)
qed

lemma byte_nibbles: "byte_val c div 16 < 16" "byte_val c mod 16 < 16"
proof -
  have "byte_val c mod 256 < 256" by (rule mod_less_divisor) simp
  then have "byte_val c < 256" by simp
  then show "byte_val c div 16 < 16" by (simp add: less_mult_imp_div_less)
qed simp

lemma validDSNXText_plain: "xtext_plain c \<Longrightarrow> validDSNXText (c # s) = validDSNXText s"
  by (subst validDSNXText.simps) (auto simp: xtext_plain_def)

lemma validDSNXText_hex: "isHexDigit a \<Longrightarrow> isHexDigit b \<Longrightarrow> validDSNXText (CHR ''+'' # a # b # s) = validDSNXText s"
  by (subst validDSNXText.simps) simp

lemma validDSNXText_byte: "validDSNXText (xtext_byte c @ s) = validDSNXText s"
  unfolding xtext_byte_def append_Cons append_Nil by (rule validDSNXText_hex) (intro hex_upper_facts byte_nibbles)+

lemma validDSNXText_bytes: "validDSNXText (concat (map xtext_byte w) @ s) = validDSNXText s"
  by (induction w) (simp_all add: validDSNXText_byte)

lemma xtext_Nil [simp]: "validDSNXText []" "encodeDSNXText [] = []"
  by (simp_all add: validDSNXText.simps encodeDSNXText.simps)

lemma encodeDSNXText_Cons:
  "encodeDSNXText (c # s) = (if xtext_plain c then [c] else concat (map xtext_byte (next_rune (c # s)))) @
     encodeDSNXText (drop (max 1 (rune_len (c # s))) (c # s))"
  by (subst encodeDSNXText.simps) simp

lemma valid_encodeDSNXText: "validDSNXText (encodeDSNXText v)"
proof (induction v rule: encodeDSNXText.induct)
  case (1 v)
  show ?case
  proof (cases v)
    case Nil
    then show ?thesis by simp
  next
    case (Cons c s)
    then have "encodeDSNXText v = (if xtext_plain c then [c] else concat (map xtext_byte (next_rune v))) @
        encodeDSNXText (drop (max 1 (rune_len v)) v)"
      using encodeDSNXText_Cons [of c s] by simp
    then show ?thesis using 1 Cons by (simp add: validDSNXText_plain validDSNXText_bytes)
  qed
qed

text \<open>Reading xtext back.\<close>

definition hex_val :: "char \<Rightarrow> nat" where
  "hex_val c = (if is_digit c then byte_val c - 48 else if is_upper c then byte_val c - 55 else byte_val c - 87)"

function xtext_decode :: "string \<Rightarrow> string" where
  "xtext_decode v =
     (if v = [] then []
      else if hd v = CHR ''+'' \<and> 3 \<le> length v
      then char_of (16 * hex_val (v ! 1) + hex_val (v ! 2)) # xtext_decode (drop 3 v)
      else hd v # xtext_decode (tl v))"
  by pat_completeness auto
termination
  by (relation "measure length") auto

declare xtext_decode.simps [simp del]

lemma hex_val_upper: "n < 16 \<Longrightarrow> hex_val (hex_upper n) = n"
proof -
  assume n: "n < 16"
  have "list_all (\<lambda>n. hex_val (hex_upper n) = n) [0..<16]" by code_simp
  with n show ?thesis by (simp add: list_all_iff)
qed

lemma xtext_decode_plain: "xtext_plain c \<Longrightarrow> xtext_decode (c # s) = c # xtext_decode s"
  by (subst xtext_decode.simps) (simp add: xtext_plain_def)

lemma xtext_decode_byte: "xtext_decode (xtext_byte c @ s) = c # xtext_decode s"
proof -
  have "xtext_decode (xtext_byte c @ s) = char_of (16 * (byte_val c div 16) + byte_val c mod 16) # xtext_decode s"
    unfolding xtext_byte_def append_Cons append_Nil
    by (subst xtext_decode.simps) (simp add: hex_val_upper byte_nibbles)
  also have "16 * (byte_val c div 16) + byte_val c mod 16 = byte_val c" by (rule mult_div_mod_eq)
  finally show ?thesis by simp
qed

lemma xtext_decode_bytes: "xtext_decode (concat (map xtext_byte w) @ s) = w @ xtext_decode s"
  by (induction w) (simp_all add: xtext_decode_byte)

lemma xtext_decode_encode: "utf8_valid v \<Longrightarrow> xtext_decode (encodeDSNXText v) = v"
proof (induction v rule: encodeDSNXText.induct)
  case (1 v)
  show ?case
  proof (cases v)
    case Nil
    then show ?thesis by (simp add: xtext_decode.simps [of "[]"])
  next
    case (Cons c s)
    note r = utf8_valid_rune [OF "1.prems", unfolded Cons, simplified, folded Cons]
    have one: "max 1 (rune_len v) = rune_len v" using r by linarith
    have e: "encodeDSNXText v = (if xtext_plain c then [c] else concat (map xtext_byte (next_rune v))) @
        encodeDSNXText (drop (rune_len v) v)"
      using encodeDSNXText_Cons [of c s] Cons one by simp
    have ih: "xtext_decode (encodeDSNXText (drop (rune_len v) v)) = drop (rune_len v) v"
      using "1.IH" Cons r one by simp
    show ?thesis
    proof (cases "xtext_plain c")
      case True
      then have "rune_len v = 1" using Cons rune_len_ascii by (simp add: xtext_plain_def)
      then show ?thesis using e ih True Cons by (simp add: xtext_decode_plain)
    next
      case False
      then have "xtext_decode (encodeDSNXText v) = next_rune v @ drop (rune_len v) v"
        using e ih by (simp add: xtext_decode_bytes)
      then show ?thesis using r by simp
    qed
  qed
qed

lemma validDSNXText_graphic: "validDSNXText v \<Longrightarrow> c \<in> set v \<Longrightarrow> graphic c"
proof (induction v rule: validDSNXText.induct)
  case (1 v)
  then obtain d s where v: "v = d # s" by (cases v) auto
  note valid = "1.prems"(1) [unfolded validDSNXText.simps [of v], unfolded v, simplified, folded v]
  have d: "graphic d" using valid by (auto simp: graphic_def Let_def split: if_splits)
  have hex: "isHexDigit x \<Longrightarrow> graphic x" for x by (auto simp: isHexDigit_def is_digit_def graphic_def)
  have rng: "\<not> (byte_val d < 33 \<or> 126 < byte_val d \<or> d = CHR ''='')" using valid by (auto split: if_splits)
  show ?case
  proof (cases "d = CHR ''+''")
    case False
    then have "validDSNXText s" using valid v by (auto split: if_splits)
    then show ?thesis using "1.IH"(1) "1.prems"(2) v d False rng by auto
  next
    case True
    then obtain a b t where s: "s = a # b # t" "isHexDigit a" "isHexDigit b" "validDSNXText t"
      using valid v by (cases s; cases "tl s") (auto split: if_splits)
    then have "c = d \<or> c = a \<or> c = b \<or> c \<in> set t" using "1.prems"(2) v by auto
    then show ?thesis using d s hex "1.IH"(2) v True rng by auto
  qed
qed

lemma queued_xtext_eq: "validQueuedDSNXText v = validDSNXText v"
proof (induction v rule: validDSNXText.induct)
  case (1 v)
  have h: "isQueuedHexDigit = isHexDigit" by (rule ext) (simp add: isQueuedHexDigit_def isHexDigit_def)
  show ?case
    using 1 unfolding validDSNXText.simps [of v] validQueuedDSNXText.simps [of v] h by (simp add: Let_def)
qed

section \<open>Addresses, notification lists and limits\<close>

lemma containsNonASCII_iff: "containsNonASCII v \<longleftrightarrow> \<not> all_ascii v"
proof (induction v rule: containsNonASCII.induct)
  case (1 v)
  show ?case
  proof (cases v)
    case Nil
    then show ?thesis by (simp add: containsNonASCII.simps [of "[]"] all_ascii_def)
  next
    case (Cons c s)
    show ?thesis
    proof (cases "byte_val c < 0x80")
      case True
      then have "rune_len v = 1" using Cons rune_len_ascii by simp
      then show ?thesis using 1 Cons True by (simp add: containsNonASCII.simps [of "c # s"] all_ascii_def)
    next
      case False
      then have "rune_len v \<noteq> 1" using rune_len_cases [of c s] Cons by auto
      then show ?thesis using Cons False by (simp add: containsNonASCII.simps [of "c # s"] all_ascii_def)
    qed
  qed
qed

lemma smtp_order_eq: "smtp_orderDSNNotify = orderDSNNotify"
  by (rule ext) (simp add: smtp_orderDSNNotify_def orderDSNNotify_def dsn_notify_order_def)

lemma accepted_notify_canonical:
  assumes "validateRcptOptions (Some r) S = None"
  shows "dsn_canonical (sd_Notify (normalizeDSNRecipientOptions addr (Some r)))"
proof -
  define us where "us = filter (\<lambda>v. v \<noteq> []) (map upper_trim (ro_Notify r))"
  have ok: "list_all validDSNNotifyOption (ro_Notify r)" "\<not> dsnNotifyNeverCombined (ro_Notify r)"
    using assms by (auto simp: validateRcptOptions_def list_all_iff list_ex_iff split: if_splits)
  have "set (dedup_first us) \<subseteq> set dsn_notify_order"
    using ok(1) by (auto simp: us_def list_all_iff validDSNNotifyOption_def dsn_notify_order_def)
  moreover have "\<not> (''NEVER'' \<in> set (dedup_first us) \<and> 1 < length (dedup_first us))"
  proof
    assume a: "''NEVER'' \<in> set (dedup_first us) \<and> 1 < length (dedup_first us)"
    then have "''NEVER'' \<in> upper_trim ` set (ro_Notify r)" by (auto simp: us_def)
    moreover have "length (dedup_first us) \<le> length (ro_Notify r)"
    proof -
      have "length us \<le> length (map upper_trim (ro_Notify r))" unfolding us_def by (rule length_filter_le)
      then show ?thesis using length_dedup_from [of "{}" us] by simp
    qed
    ultimately show False using a ok(2) by (auto simp: dsnNotifyNeverCombined_def list_ex_iff)
  qed
  ultimately show ?thesis
    using order_canonical [of "dedup_first us"]
    by (simp add: normalizeDSNRecipientOptions_def smtp_order_eq us_def)
qed

lemma address_type_upper:
  assumes "validDSNAddressType t"
  shows "validDSNAddressType (go_ToUpper t)" "go_TrimSpace t = t" "CHR '';'' \<notin> set (go_ToUpper t)"
    "\<forall>c\<in>set (go_ToUpper t). graphic c"
proof -
  have g: "graphic c" if "is_lower c \<or> is_upper c \<or> is_digit c \<or> c = CHR ''-''" for c
    using that by (auto simp: is_lower_def is_upper_def is_digit_def graphic_def)
  have "all_ascii t" using assms
    by (auto simp: validDSNAddressType_def all_ascii_def list_all_iff is_lower_def is_upper_def is_digit_def)
  then have u: "go_ToUpper t = map upper_byte t" by (rule go_ToUpper_ascii)
  have up: "is_upper (upper_byte c) \<or> is_digit (upper_byte c) \<or> upper_byte c = CHR ''-''"
    if "is_lower c \<or> is_upper c \<or> is_digit c \<or> c = CHR ''-''" for c
    using that by (auto simp: upper_byte_def is_lower_def is_upper_def is_digit_def)
  show v: "validDSNAddressType (go_ToUpper t)"
    using assms up by (auto simp: u validDSNAddressType_def list_all_iff)
  show "go_TrimSpace t = t"
    using assms g by (intro go_TrimSpace_graphic) (auto simp: validDSNAddressType_def list_all_iff)
  show "\<forall>c\<in>set (go_ToUpper t). graphic c"
    using v g by (auto simp: validDSNAddressType_def list_all_iff)
  show "CHR '';'' \<notin> set (go_ToUpper t)"
    using v by (auto simp: validDSNAddressType_def list_all_iff is_lower_def is_upper_def is_digit_def)
qed

text \<open>An accepted original recipient is empty or a type and an xtext, in printable characters.\<close>

lemma accepted_original_recipient:
  assumes "validateRcptOptions (Some r) S = None" and "v = normalizeDSNOriginalRecipient (Some r)" and "v \<noteq> []"
  shows "validQueuedDSNOriginalRecipient v \<and> (\<forall>c\<in>set v. graphic c)"
proof -
  define a where "a = go_TrimSpace (ro_OriginalRecipient r)"
  define t where "t = ro_OriginalRecipientType r"
  have a: "a \<noteq> []" using assms(2,3) by (auto simp: normalizeDSNOriginalRecipient_def a_def Let_def)
  then have valid: "validRCPTOriginalRecipient (Some r)"
    using assms(1) by (auto simp: validateRcptOptions_def a_def split: if_splits)
  have at: "validDSNAddressType = list_all (\<lambda>c. is_lower c \<or> is_upper c \<or> is_digit c \<or> c = CHR ''-'')"
    by (rule ext) (simp add: validDSNAddressType_def)
  have gt: "graphic c" if "validDSNAddressType w" "c \<in> set w" for w c
    using that by (auto simp: at list_all_iff is_lower_def is_upper_def is_digit_def graphic_def)
  show ?thesis
  proof (cases "go_TrimSpace t = []")
    case True
    then have v: "v = a" using assms(2) a by (simp add: normalizeDSNOriginalRecipient_def a_def t_def Let_def)
    have o: "validDSNOriginalRecipient (ro_OriginalRecipient r)"
      using valid True a by (simp add: validRCPTOriginalRecipient_def t_def a_def)
    then obtain x y where xy: "go_Cut '';'' a = Some (x, y)" "x \<noteq> []" "y \<noteq> []" "validDSNAddressType x" "validDSNXText y"
      by (auto simp: validDSNOriginalRecipient_def a_def split: option.splits if_splits)
    have "a = x @ '';'' @ y" using go_Cut_append [OF xy(1)] .
    then have "\<forall>c\<in>set a. graphic c"
      using gt [OF xy(4)] validDSNXText_graphic [OF xy(5)] by (auto simp: graphic_def)
    moreover have "validQueuedDSNOriginalRecipient a"
      using xy by (simp add: validQueuedDSNOriginalRecipient_def a_def queued_xtext_eq at)
    ultimately show ?thesis by (simp add: v)
  next
    case False
    then have ty: "validDSNAddressType t" using valid a by (auto simp: validRCPTOriginalRecipient_def t_def a_def split: if_splits)
    note up = address_type_upper [OF ty]
    have v: "v = go_ToUpper t @ CHR '';'' # encodeDSNXText a"
      using assms(2) a False up(2) by (simp add: normalizeDSNOriginalRecipient_def a_def t_def Let_def)
    have xt: "validDSNXText (encodeDSNXText a)" by (rule valid_encodeDSNXText)
    have g: "\<forall>c\<in>set v. graphic c"
      using up(4) validDSNXText_graphic [OF xt] by (auto simp: v graphic_def)
    have ne: "encodeDSNXText a \<noteq> []" using a by (cases a) (auto simp: encodeDSNXText_Cons next_rune_def xtext_byte_def)
    have "go_Cut '';'' v = Some (go_ToUpper t, encodeDSNXText a)"
      unfolding v by (rule go_Cut_single_append [OF up(3)])
    moreover have "go_ToUpper t \<noteq> []" using False up(2) by (cases t rule: go_ToUpper.cases) auto
    ultimately have "validQueuedDSNOriginalRecipient v"
      using g up(1) xt ne by (simp add: validQueuedDSNOriginalRecipient_def go_TrimSpace_graphic queued_xtext_eq at)
    then show ?thesis using g by simp
  qed
qed

lemma effectiveMaxRecipients_merge:
  "effectiveMaxRecipients g (mergeInboundDomainPolicy cur p) =
     min (effectiveMaxRecipients g cur) (effectiveMaxRecipients g (Some p))"
  by (auto simp: effectiveMaxRecipients_def mergeInboundDomainPolicy_def stricterPositiveLimit_def split: option.splits)

lemma effectiveMaxBytes_merge:
  "effectiveMaxBytes g (mergeInboundDomainPolicy cur p) =
     min (effectiveMaxBytes g cur) (effectiveMaxBytes g (Some p))"
  by (auto simp: effectiveMaxBytes_def mergeInboundDomainPolicy_def stricterPositiveLimit64_def split: option.splits)

lemma effectiveMax_le: "effectiveMaxRecipients g dp \<le> g" "effectiveMaxBytes g dp \<le> g"
  by (auto simp: effectiveMaxRecipients_def effectiveMaxBytes_def split: option.splits)

lemma effectiveMax_pos:
  "0 < g \<Longrightarrow> 0 < effectiveMaxRecipients g dp" "0 < g \<Longrightarrow> 0 < effectiveMaxBytes g dp"
  by (auto simp: effectiveMaxRecipients_def effectiveMaxBytes_def split: option.splits)

lemma normalizePolicy_pos: "0 < pl_MaxRecipients (normalizePolicy p n)" "0 < pl_MaxBytes (normalizePolicy p n)"
  by (auto simp: normalizePolicy_def Let_def defaultMaxRecipientsPerMessage_def defaultMaxMessageBytes_def)

lemma strictest_step:
  fixes g q :: int
  assumes "finite S"
  shows "min (Min (insert g S)) (if q < g then q else g) = Min (insert g (insert q S))"
proof -
  have "Min (insert g (insert q S)) = min q (Min (insert g S))"
    using assms by (metis Min_insert finite_insert insert_commute insert_not_empty)
  moreover have "Min (insert g S) \<le> g" using assms by simp
  ultimately show ?thesis by (auto simp: min_def)
qed

definition enforced :: "(inbound_policy \<Rightarrow> int) \<Rightarrow> inbound_policy list \<Rightarrow> int set" where
  "enforced f ps = f ` {p \<in> set ps. ip_Mode p = ''enforce'' \<and> 0 < f p}"

lemma enforced_snoc:
  "enforced f (ps @ [p]) = (if ip_Mode p = ''enforce'' \<and> 0 < f p then insert (f p) (enforced f ps) else enforced f ps)"
  by (auto simp: enforced_def)

lemma finite_enforced [simp]: "finite (enforced f ps)"
  by (simp add: enforced_def)

section \<open>Properties\<close>

text \<open>
  The xtext encoding of an original recipient is valid xtext for any bytes, the delivery worker
  accepts exactly the same texts as xtext, and decoding gives back every valid UTF-8 address.
\<close>

theorem xtext_round_trip:
  assumes "utf8_valid v"
  shows "xtext_decode (encodeDSNXText v) = v \<and> validDSNXText (encodeDSNXText v) \<and>
    validQueuedDSNXText (encodeDSNXText v)"
  using assms by (simp add: xtext_decode_encode valid_encodeDSNXText queued_xtext_eq)

theorem xtext_round_trip_witness:
  "encodeDSNXText ''a+b=c@x.org'' = ''a+2Bb+3Dc@x.org'' \<and> xtext_decode ''a+2Bb+3Dc@x.org'' = ''a+b=c@x.org''"
proof -
  have "utf8_valid ''a+b=c@x.org''" by code_simp
  moreover have "encodeDSNXText ''a+b=c@x.org'' = ''a+2Bb+3Dc@x.org''" by code_simp
  ultimately show ?thesis using xtext_round_trip [of "''a+b=c@x.org''"] by simp
qed

text \<open>
  What RCPT accepts the delivery worker accepts, up to one limit: the options kept for a recipient
  whose address is in normal form pass the worker's check unchanged, unless the original recipient has
  more than 500 bytes; then the worker refuses the whole message.
\<close>

theorem accepted_dsn_options_survive_the_queue:
  assumes "validateRcptOptions (Some r) S = None"
    and "d = normalizeDSNRecipientOptions addr (Some r)"
    and "NormalizeAddress parse (sd_Address d) = Inr (sd_Address d)"
  shows "normalize_dsn_recipient parse \<lparr>dr_Address = sd_Address d, dr_Notify = sd_Notify d,
      dr_OriginalRecipient = sd_OriginalRecipient d\<rparr> =
    (if length (sd_OriginalRecipient d) \<le> 500
     then Inr \<lparr>dr_Address = sd_Address d, dr_Notify = sd_Notify d, dr_OriginalRecipient = sd_OriginalRecipient d\<rparr>
     else Inl ''mail.queued payload has oversized dsn original_recipient'')"
proof -
  define v where "v = sd_OriginalRecipient d"
  have v: "v = normalizeDSNOriginalRecipient (Some r)"
    by (simp add: v_def assms(2) normalizeDSNRecipientOptions_def)
  have n: "normalizeDSNNotify (sd_Notify d) = Inr (sd_Notify d)"
    using normalizeDSNNotify_fixed [OF accepted_notify_canonical [OF assms(1)]] by (simp add: assms(2))
  have g: "\<forall>c\<in>set v. graphic c" "v = [] \<or> validQueuedDSNOriginalRecipient v"
    using accepted_original_recipient [OF assms(1) v] by (cases "v = []"; simp)+
  have "go_TrimSpace v = v" using g(1) by (rule go_TrimSpace_graphic)
  moreover have "\<not> containsLineBreak v"
    using g(1) by (auto simp: containsLineBreak_def go_ContainsAny_iff graphic_def)
  ultimately show ?thesis
    using assms(3) n g(2) by (auto simp: normalize_dsn_recipient_def v_def [symmetric] Let_def queued_limits)
qed

definition sample_rcpt :: rcpt_options where
  "sample_rcpt = \<lparr>ro_Notify = [''delay'', ''Success''], ro_OriginalRecipientType = ''rfc822'',
     ro_OriginalRecipient = ''a+b@x.org''\<rparr>"

definition all_extensions :: extension_support where
  "all_extensions = \<lparr>es_SMTPUTF8 = True, es_RequireTLS = True, es_DSN = True, es_BinaryMIME = True\<rparr>"

theorem accepted_dsn_options_survive_the_queue_witness:
  "normalize_dsn_recipient Some \<lparr>dr_Address = ''b@x.org'', dr_Notify = [''SUCCESS'', ''DELAY''],
      dr_OriginalRecipient = ''RFC822;a+2Bb@x.org''\<rparr> =
   Inr \<lparr>dr_Address = ''b@x.org'', dr_Notify = [''SUCCESS'', ''DELAY''], dr_OriginalRecipient = ''RFC822;a+2Bb@x.org''\<rparr>"
proof -
  have v: "validateRcptOptions (Some sample_rcpt) all_extensions = None" by code_simp
  have d: "normalizeDSNRecipientOptions '' B@x.org'' (Some sample_rcpt) =
    \<lparr>sd_Address = ''b@x.org'', sd_Notify = [''SUCCESS'', ''DELAY''], sd_OriginalRecipient = ''RFC822;a+2Bb@x.org''\<rparr>"
    by code_simp
  have n: "NormalizeAddress Some ''b@x.org'' = Inr ''b@x.org''" by code_simp
  show ?thesis
    using accepted_dsn_options_survive_the_queue [OF v d [symmetric], of Some] n by simp
qed

text \<open>
  The limits of a message to several domains are the strictest ones: after any sequence of
  recipients, the number of recipients and the size allowed are the smallest of the limit of the
  server and the positive limits of the enforcing domains.
\<close>

theorem merged_policy_is_strictest:
  "effectiveMaxRecipients g (foldl mergeInboundDomainPolicy None ps) = Min (insert g (enforced ip_MaxRecipients ps)) \<and>
   effectiveMaxBytes b (foldl mergeInboundDomainPolicy None ps) = Min (insert b (enforced ip_MaxBytes ps))"
proof (induction ps rule: rev_induct)
  case Nil
  show ?case by (simp add: effectiveMaxRecipients_def effectiveMaxBytes_def enforced_def)
next
  case (snoc p ps)
  have le: "min (Min (insert g S)) g = Min (insert g S)" if "finite S" for g :: int and S
    using that by (simp add: min_absorb1)
  have "effectiveMaxRecipients g (Some p) = (if ip_Mode p = ''enforce'' \<and> 0 < ip_MaxRecipients p
      then (if ip_MaxRecipients p < g then ip_MaxRecipients p else g) else g)"
    and "effectiveMaxBytes b (Some p) = (if ip_Mode p = ''enforce'' \<and> 0 < ip_MaxBytes p
      then (if ip_MaxBytes p < b then ip_MaxBytes p else b) else b)"
    by (auto simp: effectiveMaxRecipients_def effectiveMaxBytes_def)
  then show ?case
    by (simp add: effectiveMaxRecipients_merge effectiveMaxBytes_merge snoc.IH enforced_snoc strictest_step le
        del: Min_insert)
qed

end
