(* ===== verification/SmtpSpool.thy ===== *)
theory SmtpSpool
  imports SmtpEnvelope
begin

text \<open>
  What the SMTP service writes: the spooled message and the headers that are added to it
  (\<open>internal/smtp/receiver_spool.go\<close>, \<open>spool_line.go\<close>, \<open>message_streaming.go\<close>), the trace header
  (\<open>received.go\<close>), the authentication results (\<open>authentication_header.go\<close>) and the path under which a
  message is stored. A spool file is the string of its bytes; creating, writing and rewinding a
  temporary file is taken to succeed here, and \<open>SmtpReceiver\<close> says where it may fail. The formats of a time
  and the formatter of the authres library are parameters.
\<close>

section \<open>Spooling\<close>

text \<open>What the client sends after DATA: the bytes, and the error the reader ends with, if any.\<close>

type_synonym data_reader = "string \<times> smtp_error option"

definition spoolMessage :: "data_reader \<Rightarrow> int \<Rightarrow> smtp_error + string" where
  "spoolMessage r maxBytes =
     (case r of (data, err) \<Rightarrow>
        if maxBytes < int (length data) then Inl (LibErr ErrDataTooLarge)
        else (case err of Some e \<Rightarrow> Inl (WrapErr ''spool smtp message: '' e) | None \<Rightarrow> Inr data))"

definition maxSMTPSpoolLineBytes :: nat where "maxSMTPSpoolLineBytes = 1000"

text \<open>The line, what follows it, and whether the file ended in it.\<close>

definition readSMTPSpoolLine :: "string \<Rightarrow> (string \<times> string \<times> bool) res" where
  "readSMTPSpoolLine s =
     (let line = (if CHR 0x0A \<in> set s then takeWhile (\<lambda>c. c \<noteq> CHR 0x0A) s @ [CHR 0x0A] else s) in
      if maxSMTPSpoolLineBytes < length line then Inl ''smtp spool line too long''
      else Inr (line, drop (length line) s, CHR 0x0A \<notin> set s))"

section \<open>Headers\<close>

record header_buffer =
  hb_prepend :: "string list"
  hb_afterTrace :: "string list"

definition NewHeaderBuffer :: header_buffer where
  "NewHeaderBuffer = \<lparr>hb_prepend = [], hb_afterTrace = []\<rparr>"

definition CRLF :: string where "CRLF = [CHR 0x0D, CHR 0x0A]"

definition with_crlf :: "string \<Rightarrow> string" where
  "with_crlf h = (if suffix CRLF h then h else h @ CRLF)"

definition AddPrepend :: "string \<Rightarrow> header_buffer \<Rightarrow> header_buffer" where
  "AddPrepend h hb = hb\<lparr>hb_prepend := hb_prepend hb @ [with_crlf h]\<rparr>"

definition AddAfterTrace :: "string \<Rightarrow> header_buffer \<Rightarrow> header_buffer" where
  "AddAfterTrace h hb = hb\<lparr>hb_afterTrace := hb_afterTrace hb @ [with_crlf h]\<rparr>"

definition is_continuation :: "string \<Rightarrow> bool" where
  "is_continuation line \<longleftrightarrow> line \<noteq> [] \<and> (hd line = CHR '' '' \<or> hd line = CHR 0x09)"

definition is_received :: "string \<Rightarrow> bool" where
  "is_received line \<longleftrightarrow> prefix ''received:'' (go_ToLower line)"

text \<open>The loop over the lines: what is written, and whether the headers were inserted.\<close>

lemma readSMTPSpoolLine_shorter:
  "readSMTPSpoolLine s = Inr (line, rest, False) \<Longrightarrow> length rest < length s"
  by (cases s) (auto simp: readSMTPSpoolLine_def Let_def split: if_splits)

function trace_loop :: "string list \<Rightarrow> bool \<Rightarrow> bool \<Rightarrow> string \<Rightarrow> (string \<times> bool) res" where
  "trace_loop headers inserted inTrace s =
     (case readSMTPSpoolLine s of
        Inl e \<Rightarrow> Inl e
      | Inr (line, rest, eof) \<Rightarrow>
          let ins = (line \<noteq> [] \<and> \<not> inserted \<and> \<not> is_received line \<and> \<not> (inTrace \<and> is_continuation line));
              out = (if ins then concat headers else []) @ line;
              inserted' = (inserted \<or> ins);
              inTrace' = (if line = [] then inTrace else is_received line \<or> (inTrace \<and> is_continuation line))
          in if eof then Inr (out, inserted')
             else (case trace_loop headers inserted' inTrace' rest of
                     Inl e \<Rightarrow> Inl e
                   | Inr (tail, ins') \<Rightarrow> Inr (out @ tail, ins')))"
  by pat_completeness auto
termination
  by (relation "measure (\<lambda>(h, i, t, s). length s)") (auto dest: readSMTPSpoolLine_shorter)

declare trace_loop.simps [simp del]

definition ApplyToFile :: "header_buffer \<Rightarrow> string \<Rightarrow> string res" where
  "ApplyToFile hb s =
     (case trace_loop (hb_afterTrace hb) False False s of
        Inl e \<Rightarrow> Inl (''read message for header apply: '' @ e)
      | Inr (out, inserted) \<Rightarrow>
          Inr (concat (hb_prepend hb) @ out @
               (if \<not> inserted \<and> hb_afterTrace hb \<noteq> [] then concat (hb_afterTrace hb) else [])))"

definition insertHeaderAfterTraceHeaders :: "string \<Rightarrow> string \<Rightarrow> string res" where
  "insertHeaderAfterTraceHeaders header s =
     (case trace_loop [header] False False s of
        Inl e \<Rightarrow> Inl (''read spooled message for header insert: '' @ e)
      | Inr (out, inserted) \<Rightarrow> Inr (if inserted then out else out @ header))"

definition prependHeaderToSpool :: "string \<Rightarrow> string \<Rightarrow> string" where
  "prependHeaderToSpool header s = header @ s"

section \<open>The trace header\<close>

record time_format =
  tf_Year :: "int \<Rightarrow> string"
  tf_Month :: "int \<Rightarrow> string"
  tf_RFC1123Z :: "int \<Rightarrow> string"

definition remoteHost :: "string \<Rightarrow> string" where
  "remoteHost remoteAddr0 =
     (let remoteAddr = go_TrimSpace remoteAddr0 in
      if remoteAddr = [] then []
      else case net_SplitHostPort remoteAddr of Some (host, _) \<Rightarrow> host | None \<Rightarrow> remoteAddr)"

definition sanitizeReceivedToken :: "string \<Rightarrow> string" where
  "sanitizeReceivedToken v =
     filter (\<lambda>c. c \<noteq> CHR 0x0A) (filter (\<lambda>c. c \<noteq> CHR 0x0D) (go_TrimSpace v))"

definition BuildReceivedHeaderWithProtocol ::
    "time_format \<Rightarrow> string \<Rightarrow> string \<Rightarrow> string \<Rightarrow> string \<Rightarrow> int \<Rightarrow> string" where
  "BuildReceivedHeaderWithProtocol F remoteAddr byDomain protocol0 id0 at =
     (let from = sanitizeReceivedToken (remoteHost remoteAddr);
          from = (if from = [] then ''unknown'' else from);
          byHost = sanitizeReceivedToken byDomain;
          byHost = (if byHost = [] then ''localhost'' else byHost);
          protocol = sanitizeReceivedToken protocol0;
          protocol = (if protocol = [] then ''ESMTP'' else protocol);
          ident = sanitizeReceivedToken id0;
          ident = (if ident = [] then go_Itoa at else ident)
      in ''Received: from '' @ from @ '' by '' @ byHost @ '' with '' @ protocol @ '' id '' @ ident @ ''; '' @
         tf_RFC1123Z F at @ CRLF)"

definition BuildReceivedHeader :: "time_format \<Rightarrow> string \<Rightarrow> string \<Rightarrow> string \<Rightarrow> int \<Rightarrow> string" where
  "BuildReceivedHeader F remoteAddr byDomain ident at =
     BuildReceivedHeaderWithProtocol F remoteAddr byDomain ''ESMTP'' ident at"

section \<open>Authentication results\<close>

record auth_check =
  ac_Result :: string
  ac_Reason :: string
  ac_Domain :: string
  ac_Identifier :: string
  ac_Policy :: string

record auth_results =
  au_AuthservID :: string
  au_SPF :: auth_check
  au_DKIM :: auth_check
  au_DMARC :: auth_check

datatype authres_value = ResultNone | ResultPass | ResultFail | ResultNeutral | ResultTempError | ResultPermError

datatype authres_result =
    SPFResult authres_value string string
  | DKIMResult authres_value string string string
  | DMARCResult authres_value string string

definition authResultValue :: "string \<Rightarrow> authres_value" where
  "authResultValue r =
     (if r = ''pass'' then ResultPass else if r = ''fail'' then ResultFail
      else if r = ''neutral'' then ResultNeutral else if r = ''temperror'' then ResultTempError
      else if r = ''permerror'' then ResultPermError else ResultNone)"

text \<open>\<open>strings.Map\<close> with the function that makes control characters blank.\<close>

function blank_controls :: "string \<Rightarrow> string" where
  "blank_controls v =
     (if v = [] then []
      else (if byte_val (hd v) < 0x20 \<or> byte_val (hd v) = 0x7F then '' '' else next_rune v) @
           blank_controls (drop (max 1 (rune_len v)) v))"
  by pat_completeness auto
termination
  by (relation "measure length") auto

declare blank_controls.simps [simp del]

definition maxAuthservIDBytes :: int where "maxAuthservIDBytes = 255"
definition maxAuthenticationValueBytes :: int where "maxAuthenticationValueBytes = 512"

definition sanitizeAuthenticationResultText :: "string \<Rightarrow> int \<Rightarrow> string" where
  "sanitizeAuthenticationResultText value0 maxBytes =
     (let v = go_Join (go_Fields (blank_controls (go_TrimSpace value0))) '' '' in
      if maxBytes \<le> 0 \<or> int (length v) \<le> maxBytes then v
      else go_TrimSpace (truncate_loop (take (nat maxBytes) v)))"

function fold_lines :: "string \<Rightarrow> string" where
  "fold_lines line =
     (if length line \<le> 78 then line
      else let cut = (case last_index (CHR '' '') (take 78 line) of Some i \<Rightarrow> if i = 0 then 78 else i | None \<Rightarrow> 78)
           in go_TrimRight (take cut line) '' '' @ CRLF @ '' '' @ fold_lines (go_TrimLeft (drop cut line) '' ''))"
  by pat_completeness auto
termination
proof (relation "measure length", simp)
  fix line :: string and cut
  assume l: "\<not> length line \<le> 78"
    and c: "cut = (case last_index (CHR '' '') (take 78 line) of Some i \<Rightarrow> if i = 0 then 78 else i | None \<Rightarrow> 78)"
  have "0 < cut" using c by (auto split: option.splits)
  then have "length (drop cut line) < length line" using l by simp
  moreover have "length (go_TrimLeft (drop cut line) '' '') \<le> length (drop cut line)"
    unfolding go_TrimLeft_def by (rule length_dropWhile_le)
  ultimately show "(go_TrimLeft (drop cut line) '' '', line) \<in> measure length" by simp
qed

declare fold_lines.simps [simp del]

definition foldHeaderLine :: "string \<Rightarrow> string" where
  "foldHeaderLine line = fold_lines line @ CRLF"

definition FormatAuthenticationResults :: "(string \<Rightarrow> authres_result list \<Rightarrow> string) \<Rightarrow> auth_results \<Rightarrow> string" where
  "FormatAuthenticationResults authres_Format r =
     (let serv = sanitizeAuthenticationResultText (au_AuthservID r) maxAuthservIDBytes;
          serv = (if serv = [] then ''localhost'' else serv);
          clean = (\<lambda>v. sanitizeAuthenticationResultText v maxAuthenticationValueBytes);
          formatted = authres_Format serv
            [SPFResult (authResultValue (ac_Result (au_SPF r))) (clean (ac_Reason (au_SPF r))) (clean (ac_Identifier (au_SPF r))),
             DKIMResult (authResultValue (ac_Result (au_DKIM r))) (clean (ac_Reason (au_DKIM r)))
               (clean (ac_Domain (au_DKIM r))) (clean (ac_Identifier (au_DKIM r))),
             DMARCResult (authResultValue (ac_Result (au_DMARC r))) (clean (ac_Reason (au_DMARC r))) (clean (ac_Domain (au_DMARC r)))]
      in foldHeaderLine (''Authentication-Results: '' @ formatted))"

text \<open>The flag says that the message goes to the spam folder.\<close>

definition enforceDMARCPolicy :: "bool \<Rightarrow> auth_results \<Rightarrow> smtp_error + bool" where
  "enforceDMARCPolicy enforce r =
     (if \<not> enforce \<or> ac_Result (au_DMARC r) \<noteq> ''fail'' then Inr False
      else let policy = go_ToLower (go_TrimSpace (ac_Policy (au_DMARC r))) in
        if policy = ''reject''
        then Inl (smtpPermanent 550 (5, 7, 1) ''message rejected due to DMARC policy for %s''
               [if ac_Domain (au_DMARC r) = [] then ''sender domain'' else ac_Domain (au_DMARC r)])
        else Inr (policy = ''quarantine''))"

section \<open>Where a message is stored\<close>

record smtp_mailbox =
  bx_CompanyID :: string
  bx_DomainID :: string
  bx_UserID :: string
  bx_Address :: string

definition segment_char :: "char \<Rightarrow> bool" where
  "segment_char c \<longleftrightarrow> is_lower c \<or> is_upper c \<or> is_digit c \<or> c = CHR ''-'' \<or> c = CHR ''_'' \<or> c = CHR ''.''"

function segment_loop :: "bool \<Rightarrow> string \<Rightarrow> string" where
  "segment_loop lastDash v =
     (if v = [] then []
      else if segment_char (hd v) then hd v # segment_loop False (tl v)
      else if \<not> lastDash then CHR ''-'' # segment_loop True (drop (max 1 (rune_len v)) v)
      else segment_loop True (drop (max 1 (rune_len v)) v))"
  by pat_completeness auto
termination
  by (relation "measure (\<lambda>(d, v). length v)") auto

declare segment_loop.simps [simp del]

definition sanitizeStorageSegment :: "string \<Rightarrow> string" where
  "sanitizeStorageSegment value0 =
     (let v = go_TrimSpace value0 in
      if v = [] then ''_''
      else let out = go_Trim (segment_loop False v) ''-.'' in if out = [] then ''_'' else out)"

definition BuildStoragePath :: "time_format \<Rightarrow> smtp_mailbox \<Rightarrow> string \<Rightarrow> int \<Rightarrow> string" where
  "BuildStoragePath F mailbox messageID receivedAt =
     go_Join [''mailstore'', sanitizeStorageSegment (bx_CompanyID mailbox), sanitizeStorageSegment (bx_DomainID mailbox),
       sanitizeStorageSegment (bx_UserID mailbox), ''maildir'', tf_Year F receivedAt, tf_Month F receivedAt,
       sanitizeStorageSegment messageID @ ''.eml''] ''/''"

section \<open>Inserting headers\<close>

text \<open>The lines of a file, each with its line feed, and the trace block at its start.\<close>

function file_lines :: "string \<Rightarrow> string list" where
  "file_lines s =
     (if s = [] then []
      else if CHR 0x0A \<in> set s
      then (takeWhile (\<lambda>c. c \<noteq> CHR 0x0A) s @ [CHR 0x0A]) # file_lines (tl (dropWhile (\<lambda>c. c \<noteq> CHR 0x0A) s))
      else [s])"
  by pat_completeness auto
termination
proof (relation "measure length", simp)
  fix s :: string
  assume "s \<noteq> []" "CHR 0x0A \<in> set s"
  then have "dropWhile (\<lambda>c. c \<noteq> CHR 0x0A) s \<noteq> []" by (simp add: dropWhile_eq_Nil_conv)
  then have "length (tl (dropWhile (\<lambda>c. c \<noteq> CHR 0x0A) s)) < length (dropWhile (\<lambda>c. c \<noteq> CHR 0x0A) s)" by simp
  also have "\<dots> \<le> length s" by (rule length_dropWhile_le)
  finally show "(tl (dropWhile (\<lambda>c. c \<noteq> CHR 0x0A) s), s) \<in> measure length" by simp
qed

declare file_lines.simps [simp del]

fun trace_block :: "bool \<Rightarrow> string list \<Rightarrow> string list" where
  "trace_block inTrace [] = []"
| "trace_block inTrace (l # ls) =
     (if is_received l \<or> (inTrace \<and> is_continuation l) then l # trace_block True ls else [])"

definition after_trace :: "bool \<Rightarrow> string list \<Rightarrow> string list" where
  "after_trace inTrace ls = drop (length (trace_block inTrace ls)) ls"

abbreviation first_line :: "string \<Rightarrow> string" where
  "first_line s \<equiv> takeWhile (\<lambda>c. c \<noteq> CHR 0x0A) s @ [CHR 0x0A]"

abbreviation later_lines :: "string \<Rightarrow> string" where
  "later_lines s \<equiv> tl (dropWhile (\<lambda>c. c \<noteq> CHR 0x0A) s)"

lemma file_lines_lf: "CHR 0x0A \<in> set s \<Longrightarrow> file_lines s = first_line s # file_lines (later_lines s)"
  by (rule trans [OF file_lines.simps]) auto

lemma file_lines_end: "CHR 0x0A \<notin> set s \<Longrightarrow> file_lines s = (if s = [] then [] else [s])"
  by (rule trans [OF file_lines.simps]) simp

lemma split_lf:
  assumes "CHR 0x0A \<in> set s"
  shows "s = first_line s @ later_lines s"
proof -
  define d where "d = dropWhile (\<lambda>c. c \<noteq> CHR 0x0A) s"
  have "d \<noteq> []" using assms by (auto simp: d_def dropWhile_eq_Nil_conv)
  moreover have "\<not> hd d \<noteq> CHR 0x0A" using \<open>d \<noteq> []\<close> unfolding d_def by (rule hd_dropWhile)
  ultimately have "d = CHR 0x0A # tl d" by (cases d) auto
  moreover have "s = takeWhile (\<lambda>c. c \<noteq> CHR 0x0A) s @ d" by (simp add: d_def)
  ultimately show ?thesis unfolding d_def by (metis append.assoc append_Cons append_Nil)
qed

lemma later_lines_shorter: "CHR 0x0A \<in> set s \<Longrightarrow> length (later_lines s) < length s"
  using split_lf [of s] by (metis (no_types, lifting) add_gr_0 length_append length_append_singleton
      less_add_same_cancel2 zero_less_Suc)

lemma concat_file_lines [simp]: "concat (file_lines s) = s"
proof (induction "length s" arbitrary: s rule: less_induct)
  case less
  show ?case
  proof (cases "CHR 0x0A \<in> set s")
    case True
    then show ?thesis
      using less [OF later_lines_shorter [OF True]] split_lf [OF True] by (simp add: file_lines_lf)
  qed (simp add: file_lines_end)
qed

lemma trace_block_append: "trace_block t ls @ after_trace t ls = ls"
proof -
  have "prefix (trace_block t ls) ls" by (induction t ls rule: trace_block.induct) auto
  then obtain zs where "ls = trace_block t ls @ zs" by (rule prefixE)
  then show ?thesis unfolding after_trace_def by (metis append_eq_conv_conj)
qed

lemma trace_block_Cons:
  "is_received l \<or> (t \<and> is_continuation l) \<Longrightarrow> trace_block t (l # ls) = l # trace_block True ls"
  "is_received l \<or> (t \<and> is_continuation l) \<Longrightarrow> after_trace t (l # ls) = after_trace True ls"
  "\<not> (is_received l \<or> (t \<and> is_continuation l)) \<Longrightarrow> trace_block t (l # ls) = []"
  "\<not> (is_received l \<or> (t \<and> is_continuation l)) \<Longrightarrow> after_trace t (l # ls) = l # ls"
  by (auto simp: after_trace_def)

text \<open>One round of the loop.\<close>

lemma trace_loop_lf:
  assumes "CHR 0x0A \<in> set s" and "l = first_line s"
  shows "trace_loop hs ins t s =
     (if 1000 < length l then Inl ''smtp spool line too long''
      else let tr = (is_received l \<or> (t \<and> is_continuation l)) in
        (case trace_loop hs (ins \<or> \<not> tr) tr (later_lines s) of
           Inl e \<Rightarrow> Inl e
         | Inr (tail, i) \<Rightarrow> Inr ((if \<not> ins \<and> \<not> tr then concat hs else []) @ l @ tail, i)))"
proof -
  have d: "drop (length l) s = later_lines s"
    using split_lf [OF assms(1)] unfolding assms(2) by (metis append_eq_conv_conj)
  have "readSMTPSpoolLine s = (if 1000 < length l then Inl ''smtp spool line too long'' else Inr (l, later_lines s, False))"
    using assms(1) d by (simp add: readSMTPSpoolLine_def assms(2) [symmetric] maxSMTPSpoolLineBytes_def Let_def)
  moreover have "l \<noteq> []" using assms(2) by simp
  ultimately show ?thesis
    by (subst trace_loop.simps) (cases "is_received l"; cases "t \<and> is_continuation l"; cases ins; simp add: Let_def split: sum.splits prod.splits)
qed

lemma trace_loop_end:
  assumes "CHR 0x0A \<notin> set s"
  shows "trace_loop hs ins t s =
     (if 1000 < length s then Inl ''smtp spool line too long''
      else let skip = (s = [] \<or> ins \<or> is_received s \<or> (t \<and> is_continuation s)) in
        Inr ((if skip then [] else concat hs) @ s, ins \<or> \<not> skip))"
  using assms by (subst trace_loop.simps) (auto simp: readSMTPSpoolLine_def maxSMTPSpoolLineBytes_def Let_def)

lemma trace_loop_inserted:
  "trace_loop hs True t s =
     (if \<forall>l\<in>set (file_lines s). length l \<le> 1000 then Inr (s, True) else Inl ''smtp spool line too long'')"
proof (induction "length s" arbitrary: t s rule: less_induct)
  case less
  show ?case
  proof (cases "CHR 0x0A \<in> set s")
    case True
    show ?thesis
      using less [OF later_lines_shorter [OF True]] split_lf [OF True]
      by (auto simp: trace_loop_lf [OF True refl] file_lines_lf [OF True] Let_def)
  next
    case False
    then show ?thesis by (auto simp: trace_loop_end file_lines_end Let_def)
  qed
qed

text \<open>The loop writes the headers between the trace block and the rest, if there is a rest.\<close>

lemma trace_loop_result:
  "trace_loop hs False t s =
     (if \<forall>l\<in>set (file_lines s). length l \<le> 1000
      then if after_trace t (file_lines s) = [] then Inr (s, False)
        else Inr (concat (trace_block t (file_lines s)) @ concat hs @ concat (after_trace t (file_lines s)), True)
      else Inl ''smtp spool line too long'')"
proof (induction "length s" arbitrary: t s rule: less_induct)
  case less
  show ?case
  proof (cases "CHR 0x0A \<in> set s")
    case True
    define l where "l = first_line s"
    define rest where "rest = later_lines s"
    have lines: "file_lines s = l # file_lines rest" by (simp add: file_lines_lf [OF True] l_def rest_def)
    have s: "s = l @ rest" using split_lf [OF True] by (simp add: l_def rest_def)
    note step = trace_loop_lf [OF True l_def, of hs False t, folded rest_def]
    note ih = less [OF later_lines_shorter [OF True], folded rest_def]
    show ?thesis
    proof (cases "is_received l \<or> (t \<and> is_continuation l)")
      case tr: True
      show ?thesis
        unfolding step lines trace_block_Cons(1,2) [OF tr] using ih [of True] tr by (simp add: s Let_def)
    next
      case tr: False
      show ?thesis
        unfolding step lines trace_block_Cons(3,4) [OF tr] using tr by (simp add: Let_def trace_loop_inserted)
    qed
  next
    case False
    then show ?thesis by (auto simp: trace_loop_end file_lines_end after_trace_def Let_def)
  qed
qed

lemma ApplyToFile_eq:
  "ApplyToFile hb s =
     (if \<forall>l\<in>set (file_lines s). length l \<le> 1000
      then Inr (concat (hb_prepend hb) @ concat (trace_block False (file_lines s)) @ concat (hb_afterTrace hb) @
             concat (after_trace False (file_lines s)))
      else Inl ''read message for header apply: smtp spool line too long'')"
proof -
  have "concat (trace_block False (file_lines s)) = s" if "after_trace False (file_lines s) = []"
    using trace_block_append [of False "file_lines s"] that concat_file_lines [of s] by (simp del: concat_file_lines)
  then show ?thesis by (auto simp: ApplyToFile_def trace_loop_result)
qed

lemma insertHeader_eq:
  "insertHeaderAfterTraceHeaders h s =
     (if \<forall>l\<in>set (file_lines s). length l \<le> 1000
      then Inr (concat (trace_block False (file_lines s)) @ h @ concat (after_trace False (file_lines s)))
      else Inl ''read spooled message for header insert: smtp spool line too long'')"
proof -
  have "concat (trace_block False (file_lines s)) = s" if "after_trace False (file_lines s) = []"
    using trace_block_append [of False "file_lines s"] that concat_file_lines [of s] by (simp del: concat_file_lines)
  then show ?thesis by (auto simp: insertHeaderAfterTraceHeaders_def trace_loop_result)
qed

lemma trace_block_trace: "l \<in> set (trace_block t ls) \<Longrightarrow> is_received l \<or> is_continuation l"
  by (induction t ls rule: trace_block.induct) (auto split: if_splits)

lemma after_trace_hd: "after_trace False ls = l # rest \<Longrightarrow> \<not> is_received l"
proof -
  have "after_trace t ls = l # rest \<Longrightarrow> \<not> is_received l" for t
    by (induction t ls rule: trace_block.induct) (auto simp: after_trace_def split: if_splits)
  then show "after_trace False ls = l # rest \<Longrightarrow> \<not> is_received l" .
qed

section \<open>Folding\<close>

abbreviation unspaced :: "string \<Rightarrow> string" where
  "unspaced s \<equiv> filter (\<lambda>c. c \<noteq> CHR '' '') s"

lemma go_TrimLeft_space: "unspaced (go_TrimLeft s '' '') = unspaced s" "set (go_TrimLeft s '' '') \<subseteq> set s"
  "go_TrimLeft s '' '' = [] \<or> hd (go_TrimLeft s '' '') \<noteq> CHR '' ''"
proof -
  show "unspaced (go_TrimLeft s '' '') = unspaced s" unfolding go_TrimLeft_def by (induction s) auto
  show "set (go_TrimLeft s '' '') \<subseteq> set s" unfolding go_TrimLeft_def by (rule set_dropWhileD [THEN subsetI])
  show "go_TrimLeft s '' '' = [] \<or> hd (go_TrimLeft s '' '') \<noteq> CHR '' ''"
    unfolding go_TrimLeft_def using hd_dropWhile [of "\<lambda>c. c \<in> set '' ''" s] by auto
qed

lemma go_TrimRight_space: "unspaced (go_TrimRight s '' '') = unspaced s" "set (go_TrimRight s '' '') \<subseteq> set s"
  "s \<noteq> [] \<Longrightarrow> hd s \<noteq> CHR '' '' \<Longrightarrow> go_TrimRight s '' '' \<noteq> []"
proof -
  have "unspaced (rev t) = rev (unspaced t)" for t by (simp add: rev_filter)
  then show "unspaced (go_TrimRight s '' '') = unspaced s"
    using go_TrimLeft_space(1) [of "rev s"] by (simp add: go_TrimRight_def go_TrimLeft_def)
  show sub: "set (go_TrimRight s '' '') \<subseteq> set s" by (rule set_mono_prefix [OF go_TrimRight_prefix])
  assume "s \<noteq> []" "hd s \<noteq> CHR '' ''"
  then have "hd s \<in> set (rev s)" "hd s \<noteq> CHR '' ''" by auto
  then show "go_TrimRight s '' '' \<noteq> []" unfolding go_TrimRight_def by (auto simp: dropWhile_eq_Nil_conv)
qed

lemma fold_lines_pieces:
  "\<exists>ps. ps \<noteq> [] \<and> fold_lines line = go_Join ps (CRLF @ '' '') \<and>
     list_all (\<lambda>p. length p \<le> 78 \<and> set p \<subseteq> set line) ps \<and> unspaced (concat ps) = unspaced line \<and>
     (line = [] \<or> hd line = CHR '' '' \<or> hd ps \<noteq> [])"
proof (induction line rule: fold_lines.induct)
  case (1 line)
  show ?case
  proof (cases "length line \<le> 78")
    case True
    then show ?thesis by (intro exI [of _ "[line]"]) (auto simp: fold_lines.simps)
  next
    case False
    define cut where "cut = (case last_index (CHR '' '') (take 78 line) of Some i \<Rightarrow> if i = 0 then 78 else i | None \<Rightarrow> 78)"
    define p where "p = go_TrimRight (take cut line) '' ''"
    define rest where "rest = go_TrimLeft (drop cut line) '' ''"
    have li: "last_index c s = Some i \<Longrightarrow> i < length s" for c i and s :: string
      by (auto simp: last_index_def dest: index_of_less)
    have "0 < cut" "cut \<le> 78" using li [of "CHR '' ''" "take 78 line"] False by (auto simp: cut_def split: option.splits)
    then have p: "length p \<le> 78" "set p \<subseteq> set line" "unspaced p = unspaced (take cut line)"
      and p0: "line = [] \<or> hd line = CHR '' '' \<or> p \<noteq> []"
      using length_go_TrimRight [of "take cut line" "'' ''"] go_TrimRight_space [of "take cut line"] set_take_subset [of cut line]
      by (auto simp: p_def hd_take)
    have eq: "fold_lines line = p @ CRLF @ '' '' @ fold_lines rest"
      using False by (subst fold_lines.simps) (simp add: Let_def cut_def [symmetric] p_def rest_def)
    from "1.IH" [OF False cut_def, folded rest_def] obtain ps where ps: "ps \<noteq> []"
      "fold_lines rest = go_Join ps (CRLF @ '' '')" "list_all (\<lambda>q. length q \<le> 78 \<and> set q \<subseteq> set rest) ps"
      "unspaced (concat ps) = unspaced rest" by blast
    have "set rest \<subseteq> set line" using go_TrimLeft_space(2) [of "drop cut line"] set_drop_subset [of cut line]
      by (auto simp: rest_def)
    then have all: "list_all (\<lambda>q. length q \<le> 78 \<and> set q \<subseteq> set line) (p # ps)"
      using ps(3) p by (auto simp: list_all_iff)
    have "unspaced (concat (p # ps)) = unspaced (take cut line) @ unspaced (drop cut line)"
      using p(3) ps(4) go_TrimLeft_space(1) [of "drop cut line"] by (simp add: rest_def)
    also have "\<dots> = unspaced line" by (metis append_take_drop_id filter_append)
    finally have "unspaced (concat (p # ps)) = unspaced line" .
    moreover have "fold_lines line = go_Join (p # ps) (CRLF @ '' '')" using eq ps(1,2) by (simp add: go_Join_Cons)
    ultimately show ?thesis using all p0 by (intro exI [of _ "p # ps"]) auto
  qed
qed

section \<open>Storage paths\<close>

lemma segment_loop_chars: "c \<in> set (segment_loop d v) \<Longrightarrow> segment_char c"
proof (induction d v rule: segment_loop.induct)
  case (1 d v)
  have dash: "segment_char (CHR ''-'')" by (simp add: segment_char_def)
  show ?case
    using 1 dash unfolding segment_loop.simps [of d v] by (auto split: if_splits)
qed

lemma go_Trim_ends:
  assumes "go_Trim s cs = c # t"
  shows "c \<notin> set cs" "set (go_Trim s cs) \<subseteq> set s"
proof -
  have "prefix (c # t) (go_TrimLeft s cs)" using go_TrimRight_prefix [of "go_TrimLeft s cs" cs] assms by (simp add: go_Trim_def)
  then obtain u where u: "go_TrimLeft s cs = c # t @ u" by (auto elim: prefixE)
  then show "c \<notin> set cs" using hd_dropWhile [of "\<lambda>x. x \<in> set cs" s] unfolding go_TrimLeft_def by auto
  have "set (go_TrimLeft s cs) \<subseteq> set s" unfolding go_TrimLeft_def by (rule set_dropWhileD [THEN subsetI])
  then show "set (go_Trim s cs) \<subseteq> set s" using u assms by auto
qed

lemma storage_segment:
  "sanitizeStorageSegment v \<noteq> [] \<and> list_all segment_char (sanitizeStorageSegment v) \<and>
   hd (sanitizeStorageSegment v) \<noteq> CHR ''.''"
proof -
  have u: "segment_char (CHR ''_'')" by (simp add: segment_char_def)
  define out where "out = go_Trim (segment_loop False (go_TrimSpace v)) ''-.''"
  have s: "sanitizeStorageSegment v = (if go_TrimSpace v = [] \<or> out = [] then ''_'' else out)"
    by (simp add: sanitizeStorageSegment_def out_def Let_def)
  show ?thesis
  proof (cases "go_TrimSpace v = [] \<or> out = []")
    case True
    then show ?thesis using u by (simp add: s)
  next
    case False
    then obtain c t where out: "out = c # t" by (cases out) auto
    note e = go_Trim_ends [OF out [unfolded out_def], folded out_def]
    have "list_all segment_char out" using e(2) segment_loop_chars by (auto simp: list_all_iff)
    then show ?thesis using e(1) out False by (simp add: s)
  qed
qed

lemma segment_char_graphic: "segment_char c \<Longrightarrow> graphic c \<and> c \<noteq> CHR ''/'' \<and> c \<noteq> CHR 0x5C"
  by (auto simp: segment_char_def graphic_def is_lower_def is_upper_def is_digit_def)

lemma clean_segments_id:
  "list_all (\<lambda>w. w \<noteq> [] \<and> w \<noteq> ''.'' \<and> w \<noteq> ''..'') ws \<Longrightarrow> clean_segments r out ws = rev out @ ws"
  by (induction ws arbitrary: out) auto

text \<open>A path of plain segments that ends in \<open>.eml\<close> is what the queue keeps.\<close>

lemma plain_path_accepted:
  assumes "list_all (\<lambda>w. w \<noteq> [] \<and> list_all segment_char w \<and> hd w \<noteq> CHR ''.'') ws" and "ws \<noteq> []"
    and "suffix ''.eml'' (last ws)" and "length (go_Join ws ''/'') \<le> 2048"
  shows "normalizeQueuedStoragePath (go_Join ws ''/'') = Inr (go_Join ws ''/'')"
proof -
  define p where "p = go_Join ws ''/''"
  have chars: "set (go_Join vs ''/'') \<subseteq> insert (CHR ''/'') (\<Union> (set ` set vs))" for vs
    by (induction vs "''/'' :: string" rule: go_Join.induct) auto
  have seg: "segment_char c \<or> c = CHR ''/''" if "c \<in> set p" for c
    using chars [of ws] that assms(1) by (auto simp: p_def list_all_iff)
  have "graphic (CHR ''/'')" by (simp add: graphic_def)
  then have g: "\<forall>c\<in>set p. graphic c" using seg segment_char_graphic by metis
  have ok: "list_all (\<lambda>w. w \<noteq> [] \<and> w \<noteq> ''.'' \<and> w \<noteq> ''..'') ws"
    using assms(1) by (auto simp: list_all_iff)
  have slash: "\<forall>w\<in>set ws. CHR ''/'' \<notin> set w" using assms(1) segment_char_graphic by (auto simp: list_all_iff)
  have split: "go_Split1 (CHR ''/'') p = ws" unfolding p_def by (rule go_Split1_Join [OF assms(2) slash])
  obtain w vs where ws: "ws = w # vs" using assms(2) by (cases ws) auto
  have hd: "p \<noteq> [] \<and> hd p = hd w \<and> w \<noteq> []" using ok by (cases vs) (auto simp: p_def ws list_all_iff)
  have root: "\<not> prefix ''/'' p" using hd slash ws by (cases p) auto
  have clean: "path_Clean p = p"
    using root hd by (simp add: path_Clean_def split clean_segments_id [OF ok]) (simp add: p_def)
  have "suffix (last ws) p"
    unfolding p_def using assms(2) by (induction ws "''/'' :: string" rule: go_Join.induct) (auto simp: suffix_def)
  then have "suffix ''.eml'' p" using assms(3) suffix_order.trans by blast
  moreover have "all_ascii p" using g by (auto simp: all_ascii_def list_all_iff graphic_def)
  ultimately have eml: "suffix ''.eml'' (go_ToLower p)"
    by (auto simp: go_ToLower_ascii suffix_def lower_byte_def is_upper_def)
  have "\<not> hasParentPathSegment p" using ok by (auto simp: hasParentPathSegment_def split list_ex_iff list_all_iff)
  moreover have "\<not> containsLineBreak p" using g by (auto simp: containsLineBreak_def go_ContainsAny_iff graphic_def)
  moreover have "\<not> go_Contains p [CHR 0x5C]" using seg segment_char_graphic by (auto simp: go_Contains_def go_Cut_single)
  moreover have "p \<noteq> ''.''" using hd assms(1) ws by auto
  moreover have "go_TrimSpace p = p" using g by (rule go_TrimSpace_graphic)
  ultimately show ?thesis
    using hd root clean eml assms(4) by (simp add: normalizeQueuedStoragePath_def p_def [symmetric] queued_limits)
qed

lemma sanitizeReceivedToken_line: "CHR 0x0D \<notin> set (sanitizeReceivedToken v) \<and> CHR 0x0A \<notin> set (sanitizeReceivedToken v)"
  by (simp add: sanitizeReceivedToken_def)

lemma go_Itoa_digits: "c \<in> set (go_Itoa i) \<Longrightarrow> is_digit c \<or> c = CHR ''-''"
  using itoa_nat_digits by (auto simp: go_Itoa_def list_all_iff split: if_splits)

section \<open>Properties\<close>

text \<open>
  Headers are inserted without touching the message. If no line of the message is longer than 1000
  bytes, the result of \<open>ApplyToFile\<close> is the prepended headers, the block of trace headers (Received and
  their continuation lines) at the start of the message, the other headers, and the rest of the
  message, which does not start with a Received header; otherwise it is an error. Inserting one header after the
  trace block does the same for that header.
\<close>

theorem headers_inserted_after_trace:
  "ApplyToFile hb s =
     (if list_all (\<lambda>l. length l \<le> 1000) (file_lines s)
      then Inr (concat (hb_prepend hb) @ concat (trace_block False (file_lines s)) @ concat (hb_afterTrace hb) @
             concat (after_trace False (file_lines s)))
      else Inl ''read message for header apply: smtp spool line too long'') \<and>
   insertHeaderAfterTraceHeaders h s =
     (if list_all (\<lambda>l. length l \<le> 1000) (file_lines s)
      then Inr (concat (trace_block False (file_lines s)) @ h @ concat (after_trace False (file_lines s)))
      else Inl ''read spooled message for header insert: smtp spool line too long'') \<and>
   concat (trace_block False (file_lines s)) @ concat (after_trace False (file_lines s)) = s \<and>
   list_all (\<lambda>l. is_received l \<or> is_continuation l) (trace_block False (file_lines s)) \<and>
   (case after_trace False (file_lines s) of [] \<Rightarrow> True | l # _ \<Rightarrow> \<not> is_received l)"
proof -
  have "concat (trace_block False (file_lines s)) @ concat (after_trace False (file_lines s)) = s"
    by (metis concat_append concat_file_lines trace_block_append)
  moreover have "list_all (\<lambda>l. is_received l \<or> is_continuation l) (trace_block False (file_lines s))"
    using trace_block_trace by (auto simp: list_all_iff)
  ultimately show ?thesis
    using after_trace_hd [of "file_lines s"] by (auto simp: ApplyToFile_eq insertHeader_eq list_all_iff split: list.splits)
qed

text \<open>
  The storage path that the SMTP service builds is one that the delivery worker accepts unchanged:
  whatever bytes the identifiers of the mailbox and of the message have, the path has eight plain
  segments and never leaves the store. Only its length can be refused.
\<close>

theorem stored_path_is_accepted:
  assumes "tf_Year F at \<noteq> [] \<and> list_all is_digit (tf_Year F at)"
    and "tf_Month F at \<noteq> [] \<and> list_all is_digit (tf_Month F at)"
    and "length (BuildStoragePath F m i at) \<le> 2048"
  shows "normalizeQueuedStoragePath (BuildStoragePath F m i at) = Inr (BuildStoragePath F m i at)"
proof -
  define P where "P w \<longleftrightarrow> w \<noteq> [] \<and> list_all segment_char w \<and> hd w \<noteq> CHR ''.''" for w
  have digit: "w \<noteq> [] \<and> list_all is_digit w \<Longrightarrow> P w" for w
    by (cases w) (auto simp: P_def list_all_iff segment_char_def is_digit_def)
  have lit: "P ''mailstore''" "P ''maildir''" "list_all segment_char ''.eml''"
    by (simp_all add: P_def segment_char_def is_lower_def is_upper_def is_digit_def)
  have seg: "P (sanitizeStorageSegment v)" for v using storage_segment [of v] by (simp add: P_def)
  have last: "P (sanitizeStorageSegment v @ ''.eml'')" for v using seg [of v] lit(3) by (auto simp: P_def)
  define ws where "ws = [''mailstore'', sanitizeStorageSegment (bx_CompanyID m), sanitizeStorageSegment (bx_DomainID m),
    sanitizeStorageSegment (bx_UserID m), ''maildir'', tf_Year F at, tf_Month F at, sanitizeStorageSegment i @ ''.eml'']"
  have "list_all P ws"
    by (simp only: ws_def list.pred_inject seg lit last digit [OF assms(1)] digit [OF assms(2)] simp_thms)
  then have all: "list_all (\<lambda>w. w \<noteq> [] \<and> list_all segment_char w \<and> hd w \<noteq> CHR ''.'') ws"
    by (simp add: P_def list_all_iff)
  have path: "BuildStoragePath F m i at = go_Join ws ''/''" by (simp add: BuildStoragePath_def ws_def)
  have "ws \<noteq> []" "suffix ''.eml'' (last ws)" by (simp_all add: ws_def suffix_def)
  from plain_path_accepted [OF all this] assms(3) show ?thesis unfolding path by blast
qed

definition sample_format :: time_format where
  "sample_format = \<lparr>tf_Year = \<lambda>_. ''2026'', tf_Month = \<lambda>_. ''05'', tf_RFC1123Z = \<lambda>_. ''Fri, 01 May 2026 00:00:00 +0000''\<rparr>"

definition sample_box :: smtp_mailbox where
  "sample_box = \<lparr>bx_CompanyID = ''../c'', bx_DomainID = ''x.org'', bx_UserID = ''..'', bx_Address = ''a@x.org''\<rparr>"

theorem stored_path_is_accepted_witness:
  "normalizeQueuedStoragePath ''mailstore/c/x.org/_/maildir/2026/05/m-1.eml'' =
   Inr ''mailstore/c/x.org/_/maildir/2026/05/m-1.eml''"
proof -
  have p: "BuildStoragePath sample_format sample_box ''m/1'' 0 = ''mailstore/c/x.org/_/maildir/2026/05/m-1.eml''"
    by code_simp
  have "tf_Year sample_format 0 \<noteq> [] \<and> list_all is_digit (tf_Year sample_format 0)"
    "tf_Month sample_format 0 \<noteq> [] \<and> list_all is_digit (tf_Month sample_format 0)"
    by (simp_all add: sample_format_def is_digit_def)
  from stored_path_is_accepted [OF this, of sample_box "''m/1''"] show ?thesis unfolding p by simp
qed

text \<open>
  No header injection: the Received header is a single line whatever the peer's address and the
  message id contain, and a folded header is one field: its lines have at most 78 bytes after the
  leading blank, every line break is followed by a blank except the last, and apart from
  blanks the text is unchanged.
\<close>

theorem headers_are_single_fields:
  assumes "CHR 0x0D \<notin> set (tf_RFC1123Z F at)" and "CHR 0x0A \<notin> set (tf_RFC1123Z F at)"
    and "CHR 0x0D \<notin> set line" and "CHR 0x0A \<notin> set line" and "line \<noteq> []" and "hd line \<noteq> CHR '' ''"
  shows "(\<exists>field. BuildReceivedHeaderWithProtocol F remote byDomain protocol ident at = field @ CRLF \<and>
      CHR 0x0D \<notin> set field \<and> CHR 0x0A \<notin> set field \<and> is_received field) \<and>
    (\<exists>ps. foldHeaderLine line = go_Join ps (CRLF @ '' '') @ CRLF \<and> ps \<noteq> [] \<and> hd ps \<noteq> [] \<and>
      list_all (\<lambda>p. length p \<le> 78 \<and> CHR 0x0D \<notin> set p \<and> CHR 0x0A \<notin> set p) ps \<and> unspaced (concat ps) = unspaced line)"
proof -
  define tok where "tok v d = (if sanitizeReceivedToken v = [] then d else sanitizeReceivedToken v)" for v and d :: string
  define field where "field = ''Received: from '' @ tok (remoteHost remote) ''unknown'' @ '' by '' @ tok byDomain ''localhost'' @
    '' with '' @ tok protocol ''ESMTP'' @ '' id '' @ tok ident (go_Itoa at) @ ''; '' @ tf_RFC1123Z F at"
  have no: "c \<notin> set (tok v d)" if "c = CHR 0x0D \<or> c = CHR 0x0A" "c \<notin> set d" for c v d
    using that sanitizeReceivedToken_line by (auto simp: tok_def)
  have it: "c \<notin> set (go_Itoa at)" if "c = CHR 0x0D \<or> c = CHR 0x0A" for c
    using that go_Itoa_digits [of c at] by (auto simp: is_digit_def)
  have "BuildReceivedHeaderWithProtocol F remote byDomain protocol ident at = field @ CRLF"
    by (simp add: BuildReceivedHeaderWithProtocol_def field_def tok_def Let_def)
  moreover have "CHR 0x0D \<notin> set field" "CHR 0x0A \<notin> set field"
    using assms(1,2) no it by (simp_all add: field_def)
  moreover have "is_received field"
  proof -
    have "lower_byte (CHR ''R'') = CHR ''r''" "lower_byte (CHR ''e'') = CHR ''e''" "lower_byte (CHR ''c'') = CHR ''c''"
      "lower_byte (CHR ''i'') = CHR ''i''" "lower_byte (CHR ''v'') = CHR ''v''" "lower_byte (CHR ''d'') = CHR ''d''"
      "lower_byte (CHR '':'') = CHR '':''"
      by code_simp+
    then show ?thesis by (simp add: is_received_def field_def)
  qed
  ultimately have received: "\<exists>field. BuildReceivedHeaderWithProtocol F remote byDomain protocol ident at = field @ CRLF \<and>
      CHR 0x0D \<notin> set field \<and> CHR 0x0A \<notin> set field \<and> is_received field" by blast
  from fold_lines_pieces [of line] obtain ps where "ps \<noteq> []" "fold_lines line = go_Join ps (CRLF @ '' '')"
    "list_all (\<lambda>p. length p \<le> 78 \<and> set p \<subseteq> set line) ps" "unspaced (concat ps) = unspaced line"
    "line = [] \<or> hd line = CHR '' '' \<or> hd ps \<noteq> []" by blast
  then have "\<exists>ps. foldHeaderLine line = go_Join ps (CRLF @ '' '') @ CRLF \<and> ps \<noteq> [] \<and> hd ps \<noteq> [] \<and>
      list_all (\<lambda>p. length p \<le> 78 \<and> CHR 0x0D \<notin> set p \<and> CHR 0x0A \<notin> set p) ps \<and> unspaced (concat ps) = unspaced line"
    using assms by (intro exI [of _ ps]) (auto simp: foldHeaderLine_def list_all_iff)
  with received show ?thesis by blast
qed

theorem headers_are_single_fields_witness:
  "\<exists>field. BuildReceivedHeaderWithProtocol sample_format ''1.2.3.4'' ''mx.org'' ''ESMTP'' ''m1'' 0 = field @ CRLF \<and> is_received field"
proof -
  have "CHR 0x0D \<notin> set (tf_RFC1123Z sample_format 0)" "CHR 0x0A \<notin> set (tf_RFC1123Z sample_format 0)"
    by (simp_all add: sample_format_def)
  from headers_are_single_fields [OF this, of "''Subject: x''" "''1.2.3.4''" "''mx.org''" "''ESMTP''" "''m1''"]
  show ?thesis by auto
qed

end
