(* ===== verification/SmtpService.thy ===== *)
theory SmtpService
  imports StateOps SmtpSpool
begin

text \<open>
  What the two SMTP services have in common, the inbound one (\<open>SmtpReceiver\<close>) and submission
  (\<open>SmtpSubmission\<close>): the events of the hooks (\<open>internal/smtp/hooks.go\<close>), the state of a session with the
  world behind the interfaces and the history of the calls that matter for what happens to mail, the calls
  as operations on it, and the lemmas on which calls leave the session and the history alone.
  Metrics, log lines and latency traces are left out.
\<close>

section \<open>Messages, users and events\<close>

text \<open>The fields of \<open>message.ParsedMessage\<close> that are read.\<close>

record parsed_address =
  pa_Name :: string
  pa_Address :: string

text \<open>The fields of \<open>message.ParsedMessage\<close> that are read.\<close>

record parsed_message =
  pm_MessageID :: string
  pm_Subject :: string
  pm_Date :: int
  pm_From :: parsed_address
  pm_To :: "parsed_address list"
  pm_Cc :: "parsed_address list"
  pm_Bcc :: "parsed_address list"
  pm_InReplyTo :: string
  pm_References :: "string list"
  pm_HasAttachment :: bool

definition no_check :: auth_check where
  "no_check = \<lparr>ac_Result = [], ac_Reason = [], ac_Domain = [], ac_Identifier = [], ac_Policy = []\<rparr>"

definition no_results :: auth_results where
  "no_results = \<lparr>au_AuthservID = [], au_SPF = no_check, au_DKIM = no_check, au_DMARC = no_check\<rparr>"

record submission_user =
  su_CompanyID :: string
  su_DomainID :: string
  su_UserID :: string
  su_Address :: string
  su_Role :: string
  su_DisplayName :: string
  su_AuthorizedAddresses :: "string list"
  su_MustChangePassword :: bool

definition no_user :: submission_user where
  "no_user = \<lparr>su_CompanyID = [], su_DomainID = [], su_UserID = [], su_Address = [], su_Role = [], su_DisplayName = [],
     su_AuthorizedAddresses = [], su_MustChangePassword = False\<rparr>"

datatype stage =
    StageAuthenticated | StageMailFrom | StageRcpt | StageBackpressureChecked | StageSpooled | StageParsed
  | StageAuthenticationChecked | StageDedupChecked | StageStored | StageRecorded
  | StageLogout

fun stage_name :: "stage \<Rightarrow> string" where
  "stage_name StageAuthenticated = ''authenticated''"
| "stage_name StageMailFrom = ''mail_from''"
| "stage_name StageRcpt = ''rcpt''"
| "stage_name StageBackpressureChecked = ''backpressure_checked''"
| "stage_name StageSpooled = ''spooled''"
| "stage_name StageParsed = ''parsed''"
| "stage_name StageAuthenticationChecked = ''authentication_checked''"
| "stage_name StageDedupChecked = ''dedup_checked''"
| "stage_name StageStored = ''stored''"
| "stage_name StageRecorded = ''recorded''"
| "stage_name StageLogout = ''logout''"

text \<open>An event of the hooks; the name of the spool file is left out, and a time is 0 where Go has the zero time.\<close>

record smtp_event =
  se_Stage :: stage
  se_RemoteAddr :: string
  se_EnvelopeFrom :: string
  se_Mailbox :: "smtp_mailbox option"
  se_SubmissionUser :: submission_user
  se_Recipients :: "string list"
  se_DSN :: smtp_dsn
  se_StoragePath :: string
  se_Parsed :: "parsed_message option"
  se_Authentication :: auth_results
  se_ReceivedAt :: int
  se_SubmittedAt :: int
  se_Size :: int
  se_Duplicate :: bool

type_synonym 'w hook = "smtp_event \<Rightarrow> 'w \<Rightarrow> smtp_error option \<times> 'w"

section \<open>The state of a service and its calls\<close>

text \<open>The history: logins, resolved recipients, and what was done with the messages, which are recorded as \<open>'m\<close>.\<close>

datatype 'm smtp_call =
    CAuth string bool
  | CResolve string "smtp_mailbox option"
  | CDedup string string "smtp_error + bool"
  | CPut string string "smtp_error option"
  | CDelete string
  | CRecord 'm "smtp_error option"

record ('n, 'm, 'w) service =
  rs_session :: 'n
  rs_world :: 'w
  rs_calls :: "'m smtp_call list"

type_synonym ('n, 'm, 'w, 'x, 'a) sop = "(('n, 'm, 'w, 'x) service_scheme, smtp_error, 'a) op"

definition call_op :: "('w \<Rightarrow> 'a \<times> 'w) \<Rightarrow> ('n, 'm, 'w, 'x, 'a) sop" where
  "call_op f s = (case f (rs_world s) of (a, w) \<Rightarrow> (Inr a, s\<lparr>rs_world := w\<rparr>))"

definition note_op :: "'m smtp_call \<Rightarrow> ('n, 'm, 'w, 'x, unit) sop" where
  "note_op c = update_op (\<lambda>s. s\<lparr>rs_calls := rs_calls s @ [c]\<rparr>)"

definition session_op :: "('n \<Rightarrow> 'n) \<Rightarrow> ('n, 'm, 'w, 'x, unit) sop" where
  "session_op f = update_op (\<lambda>s. s\<lparr>rs_session := f (rs_session s)\<rparr>)"

text \<open>\<open>defer s.Reset()\<close>\<close>

definition then_session :: "('n \<Rightarrow> 'n) \<Rightarrow> ('n, 'm, 'w, 'x, 'a) sop \<Rightarrow> ('n, 'm, 'w, 'x, 'a) sop" where
  "then_session f m s = (case m s of (r, s1) \<Rightarrow> (r, s1\<lparr>rs_session := f (rs_session s1)\<rparr>))"

text \<open>A call that returns an error or a value, with the wrapping of its error.\<close>

definition wrapped :: "(smtp_error \<Rightarrow> smtp_error) \<Rightarrow> smtp_error + 'a \<Rightarrow> ('s, smtp_error, 'a) op" where
  "wrapped f r = pure_op (case r of Inl e \<Rightarrow> Inl (f e) | Inr a \<Rightarrow> Inr a)"

definition wrapped_err :: "(smtp_error \<Rightarrow> smtp_error) \<Rightarrow> smtp_error option \<Rightarrow> ('s, smtp_error, unit) op" where
  "wrapped_err f r = check_op (map_option f r)"

text \<open>An operation on a temporary file: \<open>io\<close> says whether it fails.\<close>

definition io_op :: "(string \<Rightarrow> 'w \<Rightarrow> smtp_error option \<times> 'w) \<Rightarrow> string \<Rightarrow> ('n, 'm, 'w, 'x, unit) sop" where
  "io_op io what = try_op (call_op (io what)) (\<lambda>r. wrapped_err (WrapErr (what @ '': '')) r)"

text \<open>The hooks are asked in order; the first error ends the command.\<close>

fun emit_hooks :: "string \<Rightarrow> 'w hook list \<Rightarrow> smtp_event \<Rightarrow> ('n, 'm, 'w, 'x, unit) sop" where
  "emit_hooks label [] ev = ok_op ()"
| "emit_hooks label (h # hs) ev =
     try_op (call_op (h ev)) (\<lambda>r.
     try_op (wrapped_err (WrapErr (label @ stage_name (se_Stage ev) @ '': '')) r) (\<lambda>_. emit_hooks label hs ev))"

definition deleteStoredMessage :: "(string \<Rightarrow> 'w \<Rightarrow> smtp_error option \<times> 'w) \<Rightarrow> string \<Rightarrow> ('n, 'm, 'w, 'x, unit) sop" where
  "deleteStoredMessage del path =
     (if go_TrimSpace path = [] then ok_op ()
      else try_op (call_op (del path)) (\<lambda>_. note_op (CDelete path)))"

text \<open>\<open>if err := m(); err != nil { deleteStoredMessage(path); return f(err) }\<close>\<close>

definition or_delete ::
    "(string \<Rightarrow> 'w \<Rightarrow> smtp_error option \<times> 'w) \<Rightarrow> string \<Rightarrow> (smtp_error \<Rightarrow> smtp_error) \<Rightarrow>
     ('n, 'm, 'w, 'x, unit) sop \<Rightarrow> ('n, 'm, 'w, 'x, unit) sop" where
  "or_delete del path f m s =
     (case m s of (Inr u, s1) \<Rightarrow> (Inr u, s1)
      | (Inl e, s1) \<Rightarrow> try_op (deleteStoredMessage del path) (\<lambda>_. fail_op (f e)) s1)"

definition mailboxAddresses :: "smtp_mailbox list \<Rightarrow> string list" where
  "mailboxAddresses bs = map bx_Address bs"

definition res_err :: "'a res \<Rightarrow> smtp_error + 'a" where
  "res_err r = (case r of Inl e \<Rightarrow> Inl (PlainErr e) | Inr a \<Rightarrow> Inr a)"

section \<open>Operations that leave the session and the history alone\<close>

definition silent :: "('n, 'm, 'w, 'x) service_scheme \<Rightarrow> ('n, 'm, 'w, 'x) service_scheme \<Rightarrow> bool" where
  "silent s s' \<longleftrightarrow> rs_session s' = rs_session s \<and> rs_calls s' = rs_calls s \<and> service.more s' = service.more s"

named_theorems silents

lemma silent_refl: "reflp silent" and silent_trans: "transp silent"
  by (auto simp: silent_def reflp_def transp_def)

lemmas silent_ops [silents] = keeps_ops [OF silent_refl]

lemma silent_try [silents]: "keeps silent m \<Longrightarrow> (\<And>a. keeps silent (f a)) \<Longrightarrow> keeps silent (try_op m f)"
  by (rule keeps_try_op [OF silent_trans])

lemma silent_call [silents]: "keeps silent (call_op f)"
  by (auto intro!: keepsI simp: call_op_def silent_def split: prod.splits)

lemma silent_wrapped [silents]: "keeps silent (wrapped f r)" "keeps silent (wrapped_err f r')"
  by (auto simp: wrapped_def wrapped_err_def intro: silents)

lemma silent_io [silents]: "keeps silent (io_op io what)"
  by (auto simp: io_op_def intro: silents)

lemma silent_emit_hooks [silents]: "keeps silent (emit_hooks label hs ev)"
  by (induction hs) (auto intro: silents)

lemma silent_if [silents]: "keeps silent m \<Longrightarrow> keeps silent m' \<Longrightarrow> keeps silent (if c then m else m')"
  by simp

lemma silentD: "keeps silent m \<Longrightarrow> m s = (r, s') \<Longrightarrow> rs_session s' = rs_session s \<and> rs_calls s' = rs_calls s"
  by (auto dest: keepsD simp: silent_def)

lemma silent_tryE:
  assumes "try_op m f s = (r, s')" and "keeps silent m"
  obtains (fail) e where "m s = (Inl e, s')" "r = Inl e" "rs_session s' = rs_session s" "rs_calls s' = rs_calls s"
    | (pass) a s1 where "m s = (Inr a, s1)" "f a s1 = (r, s')" "rs_session s1 = rs_session s" "rs_calls s1 = rs_calls s"
  using assms by (auto elim!: try_opE dest: silentD)

lemmas io_tryE = silent_tryE [OF _ silent_io, consumes 1, case_names fail pass]
lemmas hooks_tryE = silent_tryE [OF _ silent_emit_hooks, consumes 1, case_names fail pass]

section \<open>Stored messages are recorded or deleted\<close>

lemma deleteStored_run:
  assumes "deleteStoredMessage del path s = (r, s')" and "go_TrimSpace path \<noteq> []"
  shows "r = Inr () \<and> rs_session s' = rs_session s \<and> rs_calls s' = rs_calls s @ [CDelete path]"
  using assms
  by (auto simp: deleteStoredMessage_def try_op_def call_op_def note_op_def update_op_def split: prod.splits)

lemma or_delete_run:
  assumes "or_delete del path f m s = (r, s')" and "keeps silent m" and "go_TrimSpace path \<noteq> []"
  shows "rs_session s' = rs_session s \<and>
    (case r of Inr _ \<Rightarrow> rs_calls s' = rs_calls s | Inl _ \<Rightarrow> rs_calls s' = rs_calls s @ [CDelete path])"
proof (cases "m s")
  case (Pair r1 s1)
  with assms(2) have s1: "rs_session s1 = rs_session s" "rs_calls s1 = rs_calls s" by (auto dest: silentD)
  show ?thesis
  proof (cases r1)
    case (Inl e)
    with assms(1) Pair have "try_op (deleteStoredMessage del path) (\<lambda>_. fail_op (f e)) s1 = (r, s')"
      by (simp add: or_delete_def)
    then show ?thesis
      by (cases rule: try_opE) (auto dest!: deleteStored_run [OF _ assms(3)] simp: fail_op_def s1)
  next
    case (Inr u)
    with assms(1) Pair s1 show ?thesis by (auto simp: or_delete_def)
  qed
qed

text \<open>What follows the storing of an object: the hooks, the record, and the hooks again; \<open>c\<close> notes the record.\<close>

lemma after_put_run:
  assumes "try_op (or_delete del path g m) (\<lambda>_. try_op (call_op f) (\<lambda>r. try_op (note_op (c r)) (\<lambda>_.
      try_op (or_delete del path h (check_op r)) (\<lambda>_. m')))) s = (res, s')"
    and "keeps silent m" and "keeps silent m'" and "go_TrimSpace path \<noteq> []"
  shows "rs_session s' = rs_session s \<and>
    (\<exists>cs. rs_calls s' = rs_calls s @ cs \<and>
      (isl res \<and> (cs = [CDelete path] \<or> (\<exists>e. cs = [c (Some e), CDelete path])) \<or> cs = [c None]))"
  using assms(1)
proof (cases rule: try_opE)
  case (fail e)
  with or_delete_run [OF fail(1) assms(2,4)] show ?thesis by auto
next
  case (pass a s1)
  from or_delete_run [OF pass(1) assms(2,4)]
  have s1: "rs_session s1 = rs_session s" "rs_calls s1 = rs_calls s" by simp_all
  obtain r w where fw: "f (rs_world s1) = (r, w)" by (cases "f (rs_world s1)")
  define s2 where "s2 = s1\<lparr>rs_world := w, rs_calls := rs_calls s1 @ [c r]\<rparr>"
  from pass(2) fw have go: "try_op (or_delete del path h (check_op r)) (\<lambda>_. m') s2 = (res, s')"
    by (simp add: try_op_def call_op_def note_op_def update_op_def s2_def)
  show ?thesis
  proof (cases r)
    case None
    with go have "m' s2 = (res, s')" by (simp add: try_op_def or_delete_def check_op_def ok_op_def)
    from silentD [OF assms(3) this] s1 None show ?thesis by (simp add: s2_def)
  next
    case (Some e)
    from go show ?thesis
    proof (cases rule: try_opE)
      case (fail e')
      with or_delete_run [OF fail(1) silent_ops(4) assms(4)] s1 Some show ?thesis by (auto simp: s2_def)
    next
      case (pass u s3)
      from pass(1) Some have False
        by (auto simp: or_delete_def check_op_def fail_op_def try_op_def split: prod.splits sum.splits)
      then show ?thesis ..
    qed
  qed
qed

text \<open>
  Every object that was put is recorded under its path, or deleted, before anything else happens: a scan of the
  history with the path of the object that waits for it, and whether its record was refused. \<open>f\<close> is
  the storage path in a record.
\<close>

primrec settled :: "('m \<Rightarrow> string) \<Rightarrow> 'm smtp_call list \<Rightarrow> (string \<times> bool) option \<Rightarrow> bool" where
  "settled f [] pending \<longleftrightarrow> pending = None"
| "settled f (c # cs) pending \<longleftrightarrow>
     (case pending of
        None \<Rightarrow> settled f cs (case c of CPut path _ None \<Rightarrow> Some (path, False) | _ \<Rightarrow> None)
      | Some (path, failed) \<Rightarrow>
          (case c of
             CDelete q \<Rightarrow> q = path \<and> settled f cs None
           | CRecord m r \<Rightarrow> \<not> failed \<and> f m = path \<and> settled f cs (if r = None then None else Some (path, True))
           | _ \<Rightarrow> False))"

definition no_orphans :: "('m \<Rightarrow> string) \<Rightarrow> 'm smtp_call list \<Rightarrow> bool" where
  "no_orphans f cs \<longleftrightarrow> settled f cs None"

lemma no_orphans_Nil [simp]: "no_orphans f []"
  by (simp add: no_orphans_def)

lemma settled_append: "settled f cs pending \<Longrightarrow> settled f cs' None \<Longrightarrow> settled f (cs @ cs') pending"
  by (induction cs arbitrary: pending) (auto split: option.splits prod.splits smtp_call.splits if_splits)

lemma no_orphans_append: "no_orphans f cs \<Longrightarrow> no_orphans f cs' \<Longrightarrow> no_orphans f (cs @ cs')"
  by (simp add: no_orphans_def settled_append)

lemma stored_path_not_blank: "go_TrimSpace (BuildStoragePath F b i at) \<noteq> []"
proof -
  have "go_TrimSpace (BuildStoragePath F b i at) = BuildStoragePath F b i at"
    by (rule go_TrimSpace_graphic_ends) (simp_all add: BuildStoragePath_def graphic_def)
  then show ?thesis by (simp add: BuildStoragePath_def)
qed

end
