(* ===== verification/SmtpReceiver.thy ===== *)
theory SmtpReceiver
  imports SmtpService
begin

text \<open>
  The inbound SMTP service: \<open>internal/smtp/receiver.go\<close> and \<open>receiver_auth.go\<close>. The go-smtp library
  reads the commands and calls the methods of a session; each method is an operation on the session, the
  shared tracker of failed logins, the world behind the interfaces of the receiver, and the history of
  the calls that matter for what happens to mail. Interfaces that may be nil are options. A temporary file is a
  string; \<open>rv_io\<close> decides whether an operation on it fails.
\<close>

section \<open>Data\<close>

record received_message =
  rm_EnvelopeFrom :: string
  rm_Mailbox :: smtp_mailbox
  rm_DSN :: smtp_dsn
  rm_StoragePath :: string
  rm_Parsed :: parsed_message
  rm_Authentication :: auth_results
  rm_ReceivedAt :: int
  rm_Size :: int
  rm_FolderSystemType :: string

record auth_request =
  aq_RemoteAddr :: string
  aq_EnvelopeFrom :: string
  aq_Recipients :: "string list"
  aq_Parsed :: parsed_message
  aq_RawMessage :: string
  aq_Size :: int

section \<open>The receiver\<close>

text \<open>An authenticator, with or without the role of the user.\<close>

datatype 'w smtp_authenticator =
    AuthWithRole "string \<Rightarrow> string \<Rightarrow> string \<Rightarrow> 'w \<Rightarrow> (smtp_error + string) \<times> 'w"
  | AuthPlain "string \<Rightarrow> string \<Rightarrow> string \<Rightarrow> 'w \<Rightarrow> smtp_error option \<times> 'w"

record 'w receiver =
  rv_put :: "string \<Rightarrow> string \<Rightarrow> 'w \<Rightarrow> smtp_error option \<times> 'w"
  rv_delete :: "string \<Rightarrow> 'w \<Rightarrow> smtp_error option \<times> 'w"
  rv_resolve :: "string \<Rightarrow> 'w \<Rightarrow> (smtp_error + smtp_mailbox) \<times> 'w"
  rv_record :: "received_message \<Rightarrow> 'w \<Rightarrow> smtp_error option \<times> 'w"
  rv_dedup :: "string \<Rightarrow> string \<Rightarrow> 'w \<Rightarrow> (smtp_error + bool) \<times> 'w" \<comment> \<open>message id, recipient\<close>
  rv_rate :: "stage \<Rightarrow> string \<Rightarrow> string \<Rightarrow> 'w \<Rightarrow> (smtp_error + bool) \<times> 'w"
  rv_backpressure :: "'w \<Rightarrow> (smtp_error + bool) \<times> 'w"
  rv_verify :: "(auth_request \<Rightarrow> 'w \<Rightarrow> (smtp_error + auth_results) \<times> 'w) option"
  rv_authenticator :: "'w smtp_authenticator option"
  rv_relay :: "(string \<Rightarrow> 'w \<Rightarrow> (smtp_error + bool) \<times> 'w) option"
  rv_domain_policy :: "(string \<Rightarrow> 'w \<Rightarrow> (smtp_error + inbound_policy) \<times> 'w) option"
  rv_bulk :: "(string \<Rightarrow> string \<Rightarrow> 'w \<Rightarrow> bool \<times> 'w) option"
  rv_hooks :: "'w hook list"
  rv_id :: "'w \<Rightarrow> string \<times> 'w"
  rv_clock :: "'w \<Rightarrow> int \<times> 'w"
  rv_now :: "'w \<Rightarrow> int \<times> 'w" \<comment> \<open>time.Now()\<close>
  rv_io :: "string \<Rightarrow> 'w \<Rightarrow> smtp_error option \<times> 'w"
  rv_requireAuth :: bool
  rv_dmarcEnforce :: bool
  rv_support :: extension_support
  rv_addReceivedHeader :: bool
  rv_receivedDomain :: string
  rv_policy :: receive_policy
  rv_parse_address :: addr_parser
  rv_parse_message :: "string \<Rightarrow> smtp_error + parsed_message"
  rv_format :: time_format
  rv_authres :: "string \<Rightarrow> authres_result list \<Rightarrow> string"
  rv_date :: "int \<Rightarrow> string" \<comment> \<open>RFC 3339 with nanoseconds\<close>
  rv_sha256 :: "string \<Rightarrow> string" \<comment> \<open>16 bytes in hexadecimal\<close>

section \<open>The session and its state\<close>

record smtp_session =
  sn_from :: string
  sn_mailStarted :: bool
  sn_recipients :: "smtp_mailbox list"
  sn_dsn :: smtp_dsn
  sn_smtpUTF8 :: bool
  sn_remoteAddr :: string
  sn_authenticated :: bool
  sn_authenticatedUser :: string
  sn_authenticatedUserRole :: string
  sn_domainPolicy :: "inbound_policy option"

record authFailureTracker =
  at_failures :: "string \<rightharpoonup> int list"
  at_window :: int
  at_maxFails :: int

definition newAuthFailureTracker :: authFailureTracker where
  "newAuthFailureTracker = \<lparr>at_failures = Map.empty, at_window = 10 * 60 * 1000000000, at_maxFails = 10\<rparr>"

definition failures_at :: "authFailureTracker \<Rightarrow> string \<Rightarrow> int list" where
  "failures_at t ip = (case at_failures t ip of None \<Rightarrow> [] | Some l \<Rightarrow> l)"

definition at_record :: "int \<Rightarrow> string \<Rightarrow> authFailureTracker \<Rightarrow> bool \<times> authFailureTracker" where
  "at_record now ip t =
     (let cutoff = now - at_window t;
          prev = failures_at t ip;
          fresh = filter (\<lambda>ts. cutoff < ts) prev @ [now]
      in (at_maxFails t < int (length fresh),
          if prev \<noteq> [] \<and> length fresh = 1
          then t\<lparr>at_failures := (at_failures t)(ip \<mapsto> [now])\<rparr>
          else t\<lparr>at_failures := (at_failures t)(ip \<mapsto> fresh)\<rparr>))"

definition at_isLocked :: "int \<Rightarrow> string \<Rightarrow> authFailureTracker \<Rightarrow> bool \<times> authFailureTracker" where
  "at_isLocked now ip t =
     (let cutoff = now - at_window t;
          count = length (filter (\<lambda>ts. cutoff < ts) (failures_at t ip))
      in (at_maxFails t \<le> int count,
          if count = 0 then t\<lparr>at_failures := (at_failures t)(ip := None)\<rparr> else t))"

record 'w rstate = "(smtp_session, received_message, 'w) service" +
  rs_tracker :: authFailureTracker

type_synonym receiver_call = "received_message smtp_call"

type_synonym ('w, 'a) rop = "('w rstate, smtp_error, 'a) op"

section \<open>Helpers\<close>

definition normalizeReversePath :: "addr_parser \<Rightarrow> string \<Rightarrow> smtp_error + string" where
  "normalizeReversePath parse from =
     (if go_TrimSpace (go_Trim from ''<>'') = [] then Inr [] else res_err (NormalizeAddress parse from))"

definition session_event :: "stage \<Rightarrow> smtp_session \<Rightarrow> smtp_event" where
  "session_event st n =
     \<lparr>se_Stage = st, se_RemoteAddr = sn_remoteAddr n, se_EnvelopeFrom = sn_from n, se_Mailbox = None, se_SubmissionUser = no_user,
      se_Recipients = mailboxAddresses (sn_recipients n), se_DSN = sn_dsn n, se_StoragePath = [], se_Parsed = None,
      se_Authentication = no_results, se_ReceivedAt = 0, se_SubmittedAt = 0, se_Size = 0, se_Duplicate = False\<rparr>"

definition emit :: "'w receiver \<Rightarrow> smtp_event \<Rightarrow> ('w, unit) rop" where
  "emit R ev = emit_hooks ''smtp hook '' (rv_hooks R) ev"

definition clearEnvelope :: "smtp_session \<Rightarrow> smtp_session" where
  "clearEnvelope n = n\<lparr>sn_from := [], sn_mailStarted := False, sn_recipients := [], sn_dsn := no_dsn,
     sn_smtpUTF8 := False, sn_domainPolicy := None\<rparr>"

definition Reset :: "('w, unit) rop" where
  "Reset = session_op clearEnvelope"

definition Logout :: "('w, unit) rop" where
  "Logout = session_op (\<lambda>n. (clearEnvelope n)\<lparr>sn_authenticated := False, sn_authenticatedUserRole := []\<rparr>)"

section \<open>Authentication\<close>

definition authorizeRelay :: "'w receiver \<Rightarrow> string \<Rightarrow> ('w, unit) rop" where
  "authorizeRelay R remoteAddr =
     (case rv_relay R of None \<Rightarrow> ok_op ()
      | Some allow \<Rightarrow>
          try_op (call_op (allow remoteAddr)) (\<lambda>r.
          try_op (wrapped (WrapErr ''authorize smtp relay: '') r) (\<lambda>allowed.
          if allowed then ok_op ()
          else fail_op (smtpPolicyReject ''remote address %q is not trusted for this SMTP boundary'' [remoteAddr]))))"

text \<open>\<open>Auth\<close> returns the server of the mechanism, whose callback is \<open>auth_plain\<close>.\<close>

definition Auth :: "'w receiver \<Rightarrow> string \<Rightarrow> ('w, unit) rop" where
  "Auth R mech = get_op (\<lambda>s.
     if rv_authenticator R = None \<or> \<not> go_EqualFold mech ''PLAIN'' then fail_op (LibErr ErrAuthUnsupported)
     else if sn_authenticated (rs_session s) then fail_op smtpAlreadyAuthenticated
     else try_op (call_op (rv_now R)) (\<lambda>now.
          try_op (update_op (\<lambda>s. s\<lparr>rs_tracker := snd (at_isLocked now (sn_remoteAddr (rs_session s)) (rs_tracker s))\<rparr>)) (\<lambda>_.
          if fst (at_isLocked now (sn_remoteAddr (rs_session s)) (rs_tracker s))
          then fail_op (SMTPErr 421 (4, 7, 0) ''Too many authentication failures, try later'' [])
          else ok_op ())))"

definition auth_failed :: "'w receiver \<Rightarrow> string \<Rightarrow> ('w, unit) rop" where
  "auth_failed R username =
     try_op (note_op (CAuth username False)) (\<lambda>_.
     try_op (call_op (rv_now R)) (\<lambda>now.
     try_op (update_op (\<lambda>s. s\<lparr>rs_tracker := snd (at_record now (sn_remoteAddr (rs_session s)) (rs_tracker s))\<rparr>)) (\<lambda>_.
     fail_op (LibErr ErrAuthFailed))))"

definition auth_plain :: "'w receiver \<Rightarrow> string \<Rightarrow> string \<Rightarrow> string \<Rightarrow> ('w, unit) rop" where
  "auth_plain R identity username password =
     (case rv_authenticator R of None \<Rightarrow> fail_op (LibErr ErrAuthUnsupported)
      | Some a \<Rightarrow>
          try_op (case a of
              AuthWithRole f \<Rightarrow> try_op (call_op (f identity username password)) (\<lambda>r.
                (case r of Inl e \<Rightarrow> auth_failed R username
                 | Inr role \<Rightarrow> session_op (\<lambda>n. n\<lparr>sn_authenticatedUserRole := role\<rparr>)))
            | AuthPlain f \<Rightarrow> try_op (call_op (f identity username password)) (\<lambda>r.
                (case r of Some e \<Rightarrow> auth_failed R username | None \<Rightarrow> ok_op ()))) (\<lambda>_.
          try_op (note_op (CAuth username True)) (\<lambda>_.
          try_op (session_op (\<lambda>n. n\<lparr>sn_authenticated := True, sn_authenticatedUser := username\<rparr>)) (\<lambda>_.
          get_op (\<lambda>s. emit R \<lparr>se_Stage = StageAuthenticated, se_RemoteAddr = sn_remoteAddr (rs_session s),
            se_EnvelopeFrom = [], se_Mailbox = None, se_SubmissionUser = no_user, se_Recipients = [], se_DSN = no_dsn, se_StoragePath = [],
            se_Parsed = None, se_Authentication = no_results, se_ReceivedAt = 0, se_SubmittedAt = 0, se_Size = 0, se_Duplicate = False\<rparr>)))))"

section \<open>MAIL and RCPT\<close>

definition bulk_check :: "'w receiver \<Rightarrow> smtp_session \<Rightarrow> string \<Rightarrow> ('w, unit) rop" where
  "bulk_check R n from =
     (case rv_bulk R of None \<Rightarrow> ok_op ()
      | Some allow \<Rightarrow>
          if sn_authenticatedUser n = [] then ok_op ()
          else try_op (call_op (allow (sn_authenticatedUser n) (sn_authenticatedUserRole n))) (\<lambda>ok.
               if ok then ok_op () else fail_op (smtpRateLimited from)))"

definition Mail :: "'w receiver \<Rightarrow> string \<Rightarrow> mail_options option \<Rightarrow> ('w, unit) rop" where
  "Mail R from opts = get_op (\<lambda>s. let n = rs_session s in
     if rv_requireAuth R \<and> \<not> sn_authenticated n then fail_op (LibErr ErrAuthRequired)
     else
     try_op (authorizeRelay R (sn_remoteAddr n)) (\<lambda>_.
     try_op (bulk_check R n from) (\<lambda>_.
     try_op (session_op clearEnvelope) (\<lambda>_.
     try_op (check_op (validateMailOptions opts (rv_support R))) (\<lambda>_.
     try_op (check_op (validateAnnouncedMessageSize opts (pl_MaxBytes (rv_policy R)))) (\<lambda>_.
     try_op (pure_op (normalizeReversePath (rv_parse_address R) from)) (\<lambda>normalized.
     try_op (check_op (validateSMTPUTF8Address from normalized (mailOptionsUTF8 opts) (es_SMTPUTF8 (rv_support R)))) (\<lambda>_.
     session_op (\<lambda>n. n\<lparr>sn_from := normalized, sn_mailStarted := True, sn_smtpUTF8 := mailOptionsUTF8 opts,
       sn_dsn := (sn_dsn n)\<lparr>sd_Return := normalizeDSNReturn opts, sd_EnvelopeID := normalizeDSNEnvelopeID opts\<rparr>\<rparr>)))))))))"

definition next_domain_policy ::
    "'w receiver \<Rightarrow> inbound_policy option \<Rightarrow> smtp_mailbox \<Rightarrow> ('w, inbound_policy option) rop" where
  "next_domain_policy R cur mailbox =
     (case rv_domain_policy R of None \<Rightarrow> ok_op cur
      | Some lookup \<Rightarrow>
          try_op (call_op (lookup (bx_DomainID mailbox))) (\<lambda>r.
          case r of
            Inl e \<Rightarrow> fail_op (smtpPolicyTempfail ''domain policy lookup failed for recipient %q'' [bx_Address mailbox])
          | Inr dp \<Rightarrow> ok_op (mergeInboundDomainPolicy cur dp)))"

definition resolve_recipient :: "'w receiver \<Rightarrow> string \<Rightarrow> ('w, smtp_mailbox) rop" where
  "resolve_recipient R recipient =
     try_op (call_op (rv_resolve R recipient)) (\<lambda>r.
     try_op (note_op (CResolve recipient (case r of Inl _ \<Rightarrow> None | Inr b \<Rightarrow> Some b))) (\<lambda>_.
     wrapped (\<lambda>_. smtpMailboxUnavailable ''recipient %q not found'' [recipient]) r))"

definition Rcpt :: "'w receiver \<Rightarrow> string \<Rightarrow> rcpt_options option \<Rightarrow> ('w, unit) rop" where
  "Rcpt R recipient opts = get_op (\<lambda>s. let n = rs_session s in
     if rv_requireAuth R \<and> \<not> sn_authenticated n then fail_op (LibErr ErrAuthRequired)
     else if \<not> sn_mailStarted n then fail_op (smtpBadSequence ''RCPT'')
     else
     try_op (check_op (validateRcptOptions opts (rv_support R))) (\<lambda>_.
     try_op (call_op (rv_rate R StageRcpt (sn_remoteAddr n) recipient)) (\<lambda>r.
     try_op (wrapped (WrapErr ''check rcpt rate limit: '') r) (\<lambda>allowed.
     if \<not> allowed then fail_op (smtpRateLimited recipient)
     else
     try_op (resolve_recipient R recipient) (\<lambda>mailbox.
     try_op (check_op (validateSMTPUTF8Address recipient (bx_Address mailbox) (sn_smtpUTF8 n) (es_SMTPUTF8 (rv_support R)))) (\<lambda>_.
     try_op (next_domain_policy R (sn_domainPolicy n) mailbox) (\<lambda>dp.
     let maxRecipients = effectiveMaxRecipients (pl_MaxRecipients (rv_policy R)) dp in
     if maxRecipients \<le> int (length (sn_recipients n)) then fail_op (smtpTooManyRecipients maxRecipients)
     else session_op (\<lambda>n. n\<lparr>sn_domainPolicy := dp, sn_recipients := sn_recipients n @ [mailbox],
       sn_dsn := (sn_dsn n)\<lparr>sd_Recipients := upsertDSNRecipientOption (sd_Recipients (sn_dsn n))
         (normalizeDSNRecipientOptions (bx_Address mailbox) opts)\<rparr>\<rparr>))))))))"

section \<open>DATA\<close>

definition FallbackMessageID ::
    "(string \<Rightarrow> string) \<Rightarrow> (int \<Rightarrow> string) \<Rightarrow> string \<Rightarrow> string list \<Rightarrow> int \<Rightarrow> string \<Rightarrow> string" where
  "FallbackMessageID sha256 fmt_date envelopeFrom recipients date subject =
     (let parts = [go_ToLower (go_TrimSpace envelopeFrom)] @
            sort (map (\<lambda>r. go_ToLower (go_TrimSpace r)) recipients) @
            (if date = 0 then [] else [fmt_date date]) @ [go_TrimSpace subject]
      in ''<missing-'' @ sha256 (go_Join parts [CHR 0x00]) @ ''@gogomail.local>'')"

text \<open>What is known of the message when it goes to the recipients.\<close>

record prepared_message =
  pp_ID :: string
  pp_Content :: string
  pp_Parsed :: parsed_message
  pp_Authentication :: auth_results
  pp_ReceivedAt :: int
  pp_Quarantine :: bool

definition message_event :: "stage \<Rightarrow> smtp_session \<Rightarrow> parsed_message \<Rightarrow> int \<Rightarrow> smtp_event" where
  "message_event st n parsed sz = (session_event st n)\<lparr>se_Parsed := Some parsed, se_Size := sz\<rparr>"

definition verifyAuthentication ::
    "'w receiver \<Rightarrow> smtp_session \<Rightarrow> string \<Rightarrow> parsed_message \<Rightarrow> ('w, auth_results) rop" where
  "verifyAuthentication R n spooled parsed =
     (case rv_verify R of None \<Rightarrow> ok_op no_results
      | Some verify \<Rightarrow>
          try_op (io_op (rv_io R) ''rewind spooled message for authentication'') (\<lambda>_.
          try_op (call_op (verify \<lparr>aq_RemoteAddr = sn_remoteAddr n, aq_EnvelopeFrom = sn_from n,
             aq_Recipients = mailboxAddresses (sn_recipients n), aq_Parsed = parsed, aq_RawMessage = spooled,
             aq_Size = int (length spooled)\<rparr>)) (\<lambda>r.
          wrapped (WrapErr ''verify smtp authentication results: '') r)))"

definition check_backpressure :: "'w receiver \<Rightarrow> ('w, unit) rop" where
  "check_backpressure R =
     try_op (call_op (rv_backpressure R)) (\<lambda>r.
     try_op (wrapped (WrapErr ''check backpressure: '') r) (\<lambda>accepted.
     if accepted then ok_op () else fail_op smtpBackpressure))"

text \<open>The results of the authentication checks: their event, and the header buffer with them.\<close>

definition authenticated_headers ::
    "'w receiver \<Rightarrow> smtp_session \<Rightarrow> parsed_message \<Rightarrow> int \<Rightarrow> int \<Rightarrow> auth_results \<Rightarrow> header_buffer \<Rightarrow> ('w, header_buffer) rop" where
  "authenticated_headers R n parsed at sz results hb =
     (if rv_verify R = None then ok_op hb
      else try_op (emit R ((message_event StageAuthenticationChecked n parsed sz)
             \<lparr>se_Authentication := results, se_ReceivedAt := at\<rparr>)) (\<lambda>_.
           ok_op (AddAfterTrace (FormatAuthenticationResults (rv_authres R) results) hb)))"

text \<open>From the backpressure check to the file that is stored.\<close>

definition prepare_message :: "'w receiver \<Rightarrow> smtp_session \<Rightarrow> data_reader \<Rightarrow> ('w, prepared_message) rop" where
  "prepare_message R n r =
     try_op (check_backpressure R) (\<lambda>_.
     try_op (emit R (session_event StageBackpressureChecked n)) (\<lambda>_.
     try_op (io_op (rv_io R) ''create smtp spool file'') (\<lambda>_.
     try_op (pure_op (spoolMessage r (effectiveMaxBytes (pl_MaxBytes (rv_policy R)) (sn_domainPolicy n)))) (\<lambda>spooled.
     let sz = int (length spooled) in
     try_op (call_op (rv_id R)) (\<lambda>messageID.
     try_op (call_op (rv_clock R)) (\<lambda>at.
     let hb = (if rv_addReceivedHeader R
               then AddPrepend (BuildReceivedHeader (rv_format R) (sn_remoteAddr n) (rv_receivedDomain R) messageID at) NewHeaderBuffer
               else NewHeaderBuffer) in
     try_op (emit R ((session_event StageSpooled n)\<lparr>se_Size := sz\<rparr>)) (\<lambda>_.
     try_op (io_op (rv_io R) ''rewind spooled message for parse'') (\<lambda>_.
     try_op (wrapped (WrapErr ''parse smtp message: '') (rv_parse_message R spooled)) (\<lambda>parsed0.
     let missing = (pm_MessageID parsed0 = []);
         parsed = (if missing then parsed0\<lparr>pm_MessageID := FallbackMessageID (rv_sha256 R) (rv_date R) (sn_from n)
                     (mailboxAddresses (sn_recipients n)) (pm_Date parsed0) (pm_Subject parsed0)\<rparr> else parsed0);
         hb = (if missing then AddAfterTrace (''Message-ID: '' @ pm_MessageID parsed @ CRLF) hb else hb) in
     try_op (emit R (message_event StageParsed n parsed sz)) (\<lambda>_.
     try_op (verifyAuthentication R n spooled parsed) (\<lambda>results.
     try_op (pure_op (enforceDMARCPolicy (rv_dmarcEnforce R) results)) (\<lambda>quarantine.
     try_op (authenticated_headers R n parsed at sz results hb) (\<lambda>hb.
     try_op (io_op (rv_io R) ''apply headers'') (\<lambda>_.
     try_op (wrapped (WrapErr ''apply headers: '') (res_err (ApplyToFile hb spooled))) (\<lambda>content.
     ok_op \<lparr>pp_ID = messageID, pp_Content = content, pp_Parsed = parsed, pp_Authentication = results,
       pp_ReceivedAt = at, pp_Quarantine = quarantine\<rparr>)))))))))))))))"

definition recipient_event :: "stage \<Rightarrow> smtp_session \<Rightarrow> prepared_message \<Rightarrow> smtp_mailbox \<Rightarrow> smtp_event" where
  "recipient_event st n p b =
     (session_event st n)\<lparr>se_Mailbox := Some b, se_Parsed := Some (pp_Parsed p), se_Authentication := pp_Authentication p,
        se_ReceivedAt := pp_ReceivedAt p, se_Size := int (length (pp_Content p))\<rparr>"

definition received_for :: "smtp_session \<Rightarrow> prepared_message \<Rightarrow> string \<Rightarrow> smtp_mailbox \<Rightarrow> received_message" where
  "received_for n p path b =
     \<lparr>rm_EnvelopeFrom = sn_from n, rm_Mailbox = b, rm_DSN = sn_dsn n, rm_StoragePath = path, rm_Parsed = pp_Parsed p,
      rm_Authentication = pp_Authentication p, rm_ReceivedAt = pp_ReceivedAt p, rm_Size = int (length (pp_Content p)),
      rm_FolderSystemType = (if pp_Quarantine p then ''spam'' else ''inbox'')\<rparr>"

definition record_error :: "smtp_mailbox \<Rightarrow> smtp_error \<Rightarrow> smtp_error" where
  "record_error b e =
     (if is_mailbox_full e then smtpMailboxFull (bx_Address b)
      else WrapErr (''record message for '' @ bx_Address b @ '': '') e)"

definition store_recipient :: "'w receiver \<Rightarrow> smtp_session \<Rightarrow> prepared_message \<Rightarrow> smtp_mailbox \<Rightarrow> ('w, unit) rop" where
  "store_recipient R n p b =
     (let path = BuildStoragePath (rv_format R) b (pp_ID p) (pp_ReceivedAt p); m = received_for n p path b in
     try_op (io_op (rv_io R) ''rewind spooled message for store'') (\<lambda>_.
     try_op (call_op (rv_put R path (pp_Content p))) (\<lambda>r.
     try_op (note_op (CPut path (pp_Content p) r)) (\<lambda>_.
     try_op (wrapped_err (WrapErr (''store message for '' @ bx_Address b @ '': '')) r) (\<lambda>_.
     try_op (or_delete (rv_delete R) path id (emit R ((recipient_event StageStored n p b)\<lparr>se_StoragePath := path\<rparr>))) (\<lambda>_.
     try_op (call_op (rv_record R m)) (\<lambda>r.
     try_op (note_op (CRecord m r)) (\<lambda>_.
     try_op (or_delete (rv_delete R) path (record_error b) (check_op r)) (\<lambda>_.
     emit R ((recipient_event StageRecorded n p b)\<lparr>se_StoragePath := path\<rparr>))))))))))"

definition deliver_recipient :: "'w receiver \<Rightarrow> smtp_session \<Rightarrow> prepared_message \<Rightarrow> smtp_mailbox \<Rightarrow> ('w, unit) rop" where
  "deliver_recipient R n p b =
     try_op (call_op (rv_dedup R (pm_MessageID (pp_Parsed p)) (bx_Address b))) (\<lambda>r.
     try_op (note_op (CDedup (pm_MessageID (pp_Parsed p)) (bx_Address b) r)) (\<lambda>_.
     try_op (wrapped (WrapErr (''check duplicate message for '' @ bx_Address b @ '': '')) r) (\<lambda>shouldProcess.
     try_op (emit R ((recipient_event StageDedupChecked n p b)\<lparr>se_Duplicate := \<not> shouldProcess\<rparr>)) (\<lambda>_.
     if \<not> shouldProcess then ok_op () else store_recipient R n p b))))"

fun recipients_loop :: "'w receiver \<Rightarrow> smtp_session \<Rightarrow> prepared_message \<Rightarrow> smtp_mailbox list \<Rightarrow> ('w, unit) rop" where
  "recipients_loop R n p [] = ok_op ()"
| "recipients_loop R n p (b # bs) = try_op (deliver_recipient R n p b) (\<lambda>_. recipients_loop R n p bs)"

definition Data :: "'w receiver \<Rightarrow> data_reader \<Rightarrow> ('w, unit) rop" where
  "Data R r = get_op (\<lambda>s. let n = rs_session s in
     if rv_requireAuth R \<and> \<not> sn_authenticated n then fail_op (LibErr ErrAuthRequired)
     else if \<not> sn_mailStarted n then fail_op (smtpBadSequence ''DATA'')
     else if sn_recipients n = [] then fail_op (smtpBadSequence ''DATA'')
     else then_session clearEnvelope (try_op (prepare_message R n r) (\<lambda>p. recipients_loop R n p (sn_recipients n))))"

section \<open>Sessions\<close>

datatype smtp_command =
    CmdAuth string string string string \<comment> \<open>mechanism, identity, user name, password\<close>
  | CmdMail string "mail_options option"
  | CmdRcpt string "rcpt_options option"
  | CmdData data_reader
  | CmdReset
  | CmdLogout

fun session_do :: "'w receiver \<Rightarrow> smtp_command \<Rightarrow> ('w, unit) rop" where
  "session_do R (CmdAuth mech identity user pass) = try_op (Auth R mech) (\<lambda>_. auth_plain R identity user pass)"
| "session_do R (CmdMail from opts) = Mail R from opts"
| "session_do R (CmdRcpt recipient opts) = Rcpt R recipient opts"
| "session_do R (CmdData r) = Data R r"
| "session_do R CmdReset = Reset"
| "session_do R CmdLogout = Logout"

definition new_session :: "string \<Rightarrow> smtp_session" where
  "new_session remoteAddr =
     \<lparr>sn_from = [], sn_mailStarted = False, sn_recipients = [], sn_dsn = no_dsn, sn_smtpUTF8 = False,
      sn_remoteAddr = remoteAddr, sn_authenticated = False, sn_authenticatedUser = [], sn_authenticatedUserRole = [],
      sn_domainPolicy = None\<rparr>"

text \<open>One session among others: between its commands the shared tracker and the world may change.\<close>

inductive session_step :: "'w receiver \<Rightarrow> 'w rstate \<Rightarrow> 'w rstate \<Rightarrow> bool" for R where
  command: "session_do R c s = (r, s') \<Longrightarrow> session_step R s s'"
| others: "session_step R s (s\<lparr>rs_tracker := t, rs_world := w\<rparr>)"

definition session_start :: "string \<Rightarrow> authFailureTracker \<Rightarrow> 'w \<Rightarrow> 'w rstate" where
  "session_start remoteAddr t w =
     \<lparr>rs_session = new_session remoteAddr, rs_world = w, rs_calls = [], rs_tracker = t\<rparr>"

definition session_reachable :: "'w receiver \<Rightarrow> 'w rstate \<Rightarrow> bool" where
  "session_reachable R s \<longleftrightarrow> (\<exists>a t w. (session_step R)\<^sup>*\<^sup>* (session_start a t w) s)"

end
