(* ===== verification/SmtpSession.thy ===== *)
theory SmtpSession
  imports SmtpReceiver
begin

text \<open>
  What the sessions of the inbound SMTP service guarantee: what DATA does for every recipient and in which
  order, that a stored message that is not recorded is deleted again, and what holds in every reachable
  session. The end of the theory evaluates runs of the model that show where a message is lost.
\<close>

section \<open>Silent parts of the commands\<close>

lemma silent_emit [silents]: "keeps silent (emit R ev)"
  by (simp add: emit_def silent_emit_hooks)

lemma silent_backpressure [silents]: "keeps silent (check_backpressure R)"
  unfolding check_backpressure_def by (intro silents)

lemma silent_verify [silents]: "keeps silent (verifyAuthentication R n sp parsed)"
  by (cases "rv_verify R") (auto simp: verifyAuthentication_def intro!: silents)

lemma silent_authenticated [silents]: "keeps silent (authenticated_headers R n parsed at sz results hb)"
  unfolding authenticated_headers_def by (intro silents)

lemma silent_prepare [silents]: "keeps silent (prepare_message R n r)"
  unfolding prepare_message_def Let_def by (intro silents)

section \<open>What DATA leaves in the history\<close>

lemmas emit_tryE = silent_tryE [OF _ silent_emit, consumes 1, case_names fail pass]

definition path_for :: "'w receiver \<Rightarrow> prepared_message \<Rightarrow> smtp_mailbox \<Rightarrow> string" where
  "path_for R p b = BuildStoragePath (rv_format R) b (pp_ID p) (pp_ReceivedAt p)"

definition dedup_call :: "prepared_message \<Rightarrow> smtp_mailbox \<Rightarrow> smtp_error + bool \<Rightarrow> receiver_call" where
  "dedup_call p b r = CDedup (pm_MessageID (pp_Parsed p)) (bx_Address b) r"

definition put_call :: "'w receiver \<Rightarrow> prepared_message \<Rightarrow> smtp_mailbox \<Rightarrow> smtp_error option \<Rightarrow> receiver_call" where
  "put_call R p b r = CPut (path_for R p b) (pp_Content p) r"

definition record_call ::
    "'w receiver \<Rightarrow> smtp_session \<Rightarrow> prepared_message \<Rightarrow> smtp_mailbox \<Rightarrow> smtp_error option \<Rightarrow> receiver_call" where
  "record_call R n p b r = CRecord (received_for n p (path_for R p b) b) r"

lemmas trace_call_defs = dedup_call_def put_call_def record_call_def

text \<open>The calls made for one recipient, and whether the loop goes on to the following recipient after them.\<close>

inductive recipient_trace ::
    "'w receiver \<Rightarrow> smtp_session \<Rightarrow> prepared_message \<Rightarrow> smtp_mailbox \<Rightarrow> bool \<Rightarrow> receiver_call list \<Rightarrow> bool" for R n p b where
  unknown: "recipient_trace R n p b False [dedup_call p b (Inl e)]"
| duplicate: "recipient_trace R n p b ok [dedup_call p b (Inr False)]"
| not_stored: "recipient_trace R n p b False [dedup_call p b (Inr True)]"
| put_failed: "recipient_trace R n p b False [dedup_call p b (Inr True), put_call R p b (Some e)]"
| refused: "recipient_trace R n p b False [dedup_call p b (Inr True), put_call R p b None, CDelete (path_for R p b)]"
| not_recorded: "recipient_trace R n p b False
    [dedup_call p b (Inr True), put_call R p b None, record_call R n p b (Some e), CDelete (path_for R p b)]"
| recorded: "recipient_trace R n p b ok [dedup_call p b (Inr True), put_call R p b None, record_call R n p b None]"

inductive_simps recipient_trace_goes_on: "recipient_trace R n p b True cs"

lemma recipient_trace_accepted:
  "recipient_trace R n p b True cs \<longleftrightarrow> cs = [dedup_call p b (Inr False)] \<or>
     cs = [dedup_call p b (Inr True), put_call R p b None, record_call R n p b None]"
  unfolding recipient_trace_goes_on by blast

inductive recipients_trace ::
    "'w receiver \<Rightarrow> smtp_session \<Rightarrow> prepared_message \<Rightarrow> smtp_mailbox list \<Rightarrow> bool \<Rightarrow> receiver_call list \<Rightarrow> bool" for R n p where
  all_done: "recipients_trace R n p [] True []"
| go_on: "recipient_trace R n p b True cs \<Longrightarrow> recipients_trace R n p bs ok cs' \<Longrightarrow> recipients_trace R n p (b # bs) ok (cs @ cs')"
| stopped: "recipient_trace R n p b False cs \<Longrightarrow> recipients_trace R n p (b # bs) False cs"

lemma path_not_blank: "go_TrimSpace (path_for R p b) \<noteq> []"
  by (simp add: path_for_def stored_path_not_blank)

lemma store_recipient_trace:
  assumes "store_recipient R n p b s = (res, s')" and "rs_calls s = cs @ [dedup_call p b (Inr True)]"
  shows "rs_session s' = rs_session s \<and>
    (\<exists>cs'. rs_calls s' = cs @ cs' \<and> recipient_trace R n p b (\<not> isl res) cs')"
  using assms(1) unfolding store_recipient_def Let_def path_for_def [symmetric] put_call_def [symmetric] record_call_def [symmetric]
proof (cases rule: io_tryE)
  case (fail e)
  then show ?thesis using assms(2) by (auto intro: recipient_trace.intros)
next
  case (pass u s1)
  obtain r w where fw: "rv_put R (path_for R p b) (pp_Content p) (rs_world s1) = (r, w)"
    by (cases "rv_put R (path_for R p b) (pp_Content p) (rs_world s1)")
  define s2 where "s2 = s1\<lparr>rs_world := w, rs_calls := rs_calls s1 @ [put_call R p b r]\<rparr>"
  have s2: "rs_session s2 = rs_session s" "rs_calls s2 = cs @ [dedup_call p b (Inr True), put_call R p b r]"
    using pass(3,4) assms(2) by (simp_all add: s2_def)
  from pass(2) fw show ?thesis
  proof (cases r)
    case None
    with pass(2) fw have "try_op (or_delete (rv_delete R) (path_for R p b) id (emit R ((recipient_event StageStored n p b)\<lparr>se_StoragePath := path_for R p b\<rparr>))) (\<lambda>_.
      try_op (call_op (rv_record R (received_for n p (path_for R p b) b))) (\<lambda>r. try_op (note_op (record_call R n p b r)) (\<lambda>_.
      try_op (or_delete (rv_delete R) (path_for R p b) (record_error b) (check_op r)) (\<lambda>_. emit R ((recipient_event StageRecorded n p b)\<lparr>se_StoragePath := path_for R p b\<rparr>))))) s2 = (res, s')"
      by (simp add: try_op_Inr call_op_def note_op_def update_op_def s2_def wrapped_err_def check_op_def ok_op_def)
    from after_put_run [OF this silent_emit silent_emit path_not_blank] s2 None
    show ?thesis by (auto intro: recipient_trace.intros)
  next
    case (Some e)
    with pass(2) fw have "res = Inl (WrapErr (''store message for '' @ bx_Address b @ '': '') e) \<and> s' = s2"
      by (simp add: try_op_def call_op_def note_op_def update_op_def s2_def wrapped_err_def check_op_def fail_op_def)
    with s2 Some show ?thesis by (auto intro: recipient_trace.intros)
  qed
qed

lemma deliver_recipient_trace:
  assumes "deliver_recipient R n p b s = (res, s')"
  shows "rs_session s' = rs_session s \<and>
    (\<exists>cs. rs_calls s' = rs_calls s @ cs \<and> recipient_trace R n p b (\<not> isl res) cs)"
proof -
  obtain r w where fw: "rv_dedup R (pm_MessageID (pp_Parsed p)) (bx_Address b) (rs_world s) = (r, w)"
    by (cases "rv_dedup R (pm_MessageID (pp_Parsed p)) (bx_Address b) (rs_world s)")
  define s1 where "s1 = s\<lparr>rs_world := w, rs_calls := rs_calls s @ [dedup_call p b r]\<rparr>"
  show ?thesis
  proof (cases r)
    case (Inl e)
    with assms fw show ?thesis
      by (auto simp: deliver_recipient_def try_op_def call_op_def note_op_def update_op_def wrapped_def pure_op_def
          dedup_call_def intro!: recipient_trace.unknown [unfolded dedup_call_def])
  next
    case (Inr process)
    with assms fw have go: "try_op (emit R ((recipient_event StageDedupChecked n p b)\<lparr>se_Duplicate := \<not> process\<rparr>)) (\<lambda>_.
        if \<not> process then ok_op () else store_recipient R n p b) s1 = (res, s')"
      by (simp add: deliver_recipient_def try_op_Inr call_op_def note_op_def update_op_def wrapped_def pure_op_def
          dedup_call_def s1_def)
    from go show ?thesis
    proof (cases rule: emit_tryE)
      case (fail e)
      then show ?thesis using Inr by (cases process) (auto simp: s1_def intro: recipient_trace.intros)
    next
      case (pass u s2)
      show ?thesis
      proof (cases process)
        case True
        with pass have "store_recipient R n p b s2 = (res, s')" by simp
        from store_recipient_trace [OF this, of "rs_calls s"] pass(3,4) Inr True show ?thesis by (simp add: s1_def)
      next
        case False
        with pass Inr show ?thesis by (auto simp: s1_def ok_op_def intro: recipient_trace.intros)
      qed
    qed
  qed
qed

lemma recipients_loop_trace:
  "recipients_loop R n p bs s = (res, s') \<Longrightarrow> rs_session s' = rs_session s \<and>
    (\<exists>cs. rs_calls s' = rs_calls s @ cs \<and> recipients_trace R n p bs (\<not> isl res) cs)"
proof (induction bs arbitrary: s)
  case Nil
  then show ?case by (auto simp: ok_op_def intro: recipients_trace.intros)
next
  case (Cons b bs)
  from Cons.prems have "try_op (deliver_recipient R n p b) (\<lambda>_. recipients_loop R n p bs) s = (res, s')" by simp
  then show ?case
  proof (cases rule: try_opE)
    case (fail e)
    with deliver_recipient_trace [OF fail(1)] show ?thesis by (auto intro: recipients_trace.intros)
  next
    case (pass u s1)
    from deliver_recipient_trace [OF pass(1)] obtain cs
      where cs: "rs_session s1 = rs_session s" "rs_calls s1 = rs_calls s @ cs" "recipient_trace R n p b True cs" by auto
    from Cons.IH [OF pass(2)] obtain cs'
      where "rs_session s' = rs_session s1" "rs_calls s' = rs_calls s1 @ cs'" "recipients_trace R n p bs (\<not> isl res) cs'" by auto
    with cs show ?thesis by (auto intro: recipients_trace.go_on)
  qed
qed

text \<open>The headers that the receiver adds to a message, which it parses to \<open>parsed\<close>: the Received header at the front; after
  the trace headers of the message a Message-ID, if the client gave none, and the authentication results.\<close>

definition added_headers :: "'w receiver \<Rightarrow> smtp_session \<Rightarrow> parsed_message \<Rightarrow> prepared_message \<Rightarrow> header_buffer" where
  "added_headers R n parsed p =
     \<lparr>hb_prepend = (if rv_addReceivedHeader R
        then [with_crlf (BuildReceivedHeader (rv_format R) (sn_remoteAddr n) (rv_receivedDomain R) (pp_ID p) (pp_ReceivedAt p))] else []),
      hb_afterTrace = (if pm_MessageID parsed = [] then [with_crlf (''Message-ID: '' @ pm_MessageID (pp_Parsed p) @ CRLF)] else []) @
        (if rv_verify R = None then [] else [with_crlf (FormatAuthenticationResults (rv_authres R) (pp_Authentication p))])\<rparr>"

lemma authenticated_headers_run:
  assumes "authenticated_headers R n parsed at sz results hb s = (Inr hb', s')"
  shows "hb' = (if rv_verify R = None then hb else AddAfterTrace (FormatAuthenticationResults (rv_authres R) results) hb)"
  using assms by (auto simp: authenticated_headers_def ok_op_def elim!: try_op_InrE split: if_splits)

lemma prepare_message_content:
  assumes "prepare_message R n r s = (Inr p, s')"
  shows "\<exists>spooled parsed. spoolMessage r (effectiveMaxBytes (pl_MaxBytes (rv_policy R)) (sn_domainPolicy n)) = Inr spooled \<and>
    rv_parse_message R spooled = Inr parsed \<and> ApplyToFile (added_headers R n parsed p) spooled = Inr (pp_Content p) \<and>
    enforceDMARCPolicy (rv_dmarcEnforce R) (pp_Authentication p) = Inr (pp_Quarantine p) \<and>
    pm_MessageID (pp_Parsed p) \<noteq> []"
  using assms unfolding prepare_message_def Let_def
proof (elim try_op_InrE, goal_cases)
  case (1 u1 s1 u2 s2 u3 s3 spooled s4 i s5 at s6 u7 s7 u8 s8 parsed s9 u10 s10 results s11 q s12 hb s13 u14 s14 content s15)
  define parsed' where "parsed' = (if pm_MessageID parsed = []
    then parsed\<lparr>pm_MessageID := FallbackMessageID (rv_sha256 R) (rv_date R) (sn_from n) (mailboxAddresses (sn_recipients n))
      (pm_Date parsed) (pm_Subject parsed)\<rparr> else parsed)"
  note st = 1 [folded parsed'_def]
  have p: "p = \<lparr>pp_ID = i, pp_Content = content, pp_Parsed = parsed', pp_Authentication = results, pp_ReceivedAt = at, pp_Quarantine = q\<rparr>"
    using st(16) by (simp add: ok_op_def)
  have hb: "hb = added_headers R n parsed p"
    using authenticated_headers_run [OF st(13)]
    by (simp add: p added_headers_def AddPrepend_def AddAfterTrace_def NewHeaderBuffer_def)
  have "spoolMessage r (effectiveMaxBytes (pl_MaxBytes (rv_policy R)) (sn_domainPolicy n)) = Inr spooled"
    "rv_parse_message R spooled = Inr parsed" "ApplyToFile hb spooled = Inr content"
    "enforceDMARCPolicy (rv_dmarcEnforce R) results = Inr q"
    using st(4,9,12,15) by (auto simp: pure_op_def wrapped_def res_err_def split: sum.splits)
  moreover have "pm_MessageID parsed' \<noteq> []" by (simp add: parsed'_def FallbackMessageID_def)
  ultimately show ?case using hb by (intro exI [of _ spooled] exI [of _ parsed]) (simp add: p)
qed

text \<open>What a DATA command does: refused at once, or the loop over the recipients and the reset.\<close>

lemma Data_cases:
  assumes "Data R r s = (res, s')"
  obtains (refused) e where "res = Inl e" "s' = s"
    | (not_prepared) e where "res = Inl e" "rs_calls s' = rs_calls s" "rs_session s' = clearEnvelope (rs_session s)"
    | (looped) p cs s1 where "prepare_message R (rs_session s) r s = (Inr p, s1)"
        "rs_calls s' = rs_calls s @ cs" "recipients_trace R (rs_session s) p (sn_recipients (rs_session s)) (\<not> isl res) cs"
        "rs_session s' = clearEnvelope (rs_session s)" "sn_recipients (rs_session s) \<noteq> []" "sn_mailStarted (rs_session s)"
        "rv_requireAuth R \<longrightarrow> sn_authenticated (rs_session s)"
proof -
  let ?n = "rs_session s"
  let ?run = "try_op (prepare_message R ?n r) (\<lambda>p. recipients_loop R ?n p (sn_recipients ?n))"
  show ?thesis
  proof (cases "rv_requireAuth R \<and> \<not> sn_authenticated ?n \<or> \<not> sn_mailStarted ?n \<or> sn_recipients ?n = []")
    case True
    with assms obtain e where "res = Inl e" "s' = s"
      by (auto simp: Data_def get_op_def Let_def fail_op_def split: if_splits)
    then show ?thesis by (rule refused)
  next
    case False
    then have guards: "sn_recipients ?n \<noteq> []" "sn_mailStarted ?n" "rv_requireAuth R \<longrightarrow> sn_authenticated ?n" by auto
    from False assms have "then_session clearEnvelope ?run s = (res, s')"
      by (auto simp: Data_def get_op_def Let_def split: if_splits)
    then obtain s2 where s2: "?run s = (res, s2)" "s' = s2\<lparr>rs_session := clearEnvelope (rs_session s2)\<rparr>"
      by (auto simp: then_session_def split: prod.splits)
    from s2(1) show ?thesis
    proof (cases rule: try_opE)
      case (fail e)
      with silentD [OF silent_prepare fail(1)] s2(2) show ?thesis by (intro not_prepared) simp_all
    next
      case (pass p s1)
      from silentD [OF silent_prepare pass(1)] have s1: "rs_session s1 = ?n" "rs_calls s1 = rs_calls s" by simp_all
      from recipients_loop_trace [OF pass(2)] s1 obtain cs
        where "rs_session s2 = ?n" "rs_calls s2 = rs_calls s @ cs"
          "recipients_trace R ?n p (sn_recipients ?n) (\<not> isl res) cs" by auto
      with pass(1) s2(2) guards show ?thesis by (intro looped) simp_all
    qed
  qed
qed

lemma recipients_trace_accepted:
  "recipients_trace R n p bs ok cs \<Longrightarrow> ok \<Longrightarrow>
   \<exists>css. cs = concat css \<and> list_all2 (\<lambda>b c. recipient_trace R n p b True c) bs css"
proof (induction rule: recipients_trace.induct)
  case all_done
  show ?case by (rule exI [of _ "[]"]) simp
next
  case (go_on b cs bs ok cs')
  then obtain css where "cs' = concat css" "list_all2 (\<lambda>b c. recipient_trace R n p b True c) bs css" by auto
  with go_on show ?case by (intro exI [of _ "cs # css"]) simp
qed simp

lemma no_orphans_recipient: "recipient_trace R n p b ok cs \<Longrightarrow> no_orphans rm_StoragePath cs"
  by (induction rule: recipient_trace.induct) (simp_all add: trace_call_defs received_for_def no_orphans_def)

lemma no_orphans_recipients: "recipients_trace R n p bs ok cs \<Longrightarrow> no_orphans rm_StoragePath cs"
  by (induction rule: recipients_trace.induct) (auto intro: no_orphans_append no_orphans_recipient)

text \<open>What one DATA command adds to the history, on every way out of it.\<close>

lemma Data_history:
  assumes "Data R r s = (res, s')"
  shows "\<exists>cs. rs_calls s' = rs_calls s @ cs \<and> no_orphans rm_StoragePath cs \<and>
    (\<forall>m e. CRecord m e \<in> set cs \<longrightarrow> rm_Mailbox m \<in> set (sn_recipients (rs_session s)) \<and>
       (rv_requireAuth R \<longrightarrow> sn_authenticated (rs_session s)))"
proof -
  have rec: "recipient_trace R n p b ok cs \<Longrightarrow> CRecord m e \<in> set cs \<Longrightarrow> rm_Mailbox m = b" for n p b ok cs m e
    by (induction rule: recipient_trace.induct) (auto simp: trace_call_defs received_for_def)
  have recs: "recipients_trace R n p bs ok cs \<Longrightarrow> CRecord m e \<in> set cs \<Longrightarrow> rm_Mailbox m \<in> set bs" for n p bs ok cs m e
    by (induction rule: recipients_trace.induct) (auto dest: rec)
  from assms show ?thesis
    by (cases rule: Data_cases) (auto dest: recs intro: no_orphans_recipients)
qed

section \<open>What the other commands do\<close>

lemma silent_domain_policy [silents]: "keeps silent (next_domain_policy R cur b)"
  by (cases "rv_domain_policy R") (auto simp: next_domain_policy_def split: sum.splits intro!: silents)

lemma silent_relay [silents]: "keeps silent (authorizeRelay R a)"
  by (cases "rv_relay R") (auto simp: authorizeRelay_def intro!: silents)

lemma silent_bulk [silents]: "keeps silent (bulk_check R n a)"
  by (cases "rv_bulk R") (auto simp: bulk_check_def intro!: silents)

lemma resolve_recipient_run:
  assumes "resolve_recipient R a s = (res, s')"
  shows "rs_session s' = rs_session s \<and>
    rs_calls s' = rs_calls s @ [CResolve a (case res of Inl _ \<Rightarrow> None | Inr b \<Rightarrow> Some b)]"
  using assms
  by (auto simp: resolve_recipient_def try_op_def call_op_def note_op_def update_op_def wrapped_def pure_op_def
      split: prod.splits sum.splits)

text \<open>RCPT in three parts: the checks, the resolution with its checks, and the change of the session.\<close>

definition rcpt_checks :: "'w receiver \<Rightarrow> smtp_session \<Rightarrow> string \<Rightarrow> rcpt_options option \<Rightarrow> ('w, unit) rop" where
  "rcpt_checks R n a opts =
     try_op (check_op (validateRcptOptions opts (rv_support R))) (\<lambda>_.
     try_op (call_op (rv_rate R StageRcpt (sn_remoteAddr n) a)) (\<lambda>r.
     try_op (wrapped (WrapErr ''check rcpt rate limit: '') r) (\<lambda>allowed.
     if \<not> allowed then fail_op (smtpRateLimited a) else ok_op ())))"

definition rcpt_policy :: "'w receiver \<Rightarrow> smtp_session \<Rightarrow> string \<Rightarrow> smtp_mailbox \<Rightarrow> ('w, inbound_policy option) rop" where
  "rcpt_policy R n a b =
     try_op (check_op (validateSMTPUTF8Address a (bx_Address b) (sn_smtpUTF8 n) (es_SMTPUTF8 (rv_support R)))) (\<lambda>_.
     next_domain_policy R (sn_domainPolicy n) b)"

definition with_recipient :: "inbound_policy option \<Rightarrow> smtp_mailbox \<Rightarrow> rcpt_options option \<Rightarrow> smtp_session \<Rightarrow> smtp_session" where
  "with_recipient dp b opts n = n\<lparr>sn_domainPolicy := dp, sn_recipients := sn_recipients n @ [b],
     sn_dsn := (sn_dsn n)\<lparr>sd_Recipients := upsertDSNRecipientOption (sd_Recipients (sn_dsn n))
       (normalizeDSNRecipientOptions (bx_Address b) opts)\<rparr>\<rparr>"

lemma silent_rcpt [silents]: "keeps silent (rcpt_checks R n a opts)" "keeps silent (rcpt_policy R n a b)"
  unfolding rcpt_checks_def rcpt_policy_def by (intro silents)+

lemma Rcpt_split:
  assumes "rv_requireAuth R \<longrightarrow> sn_authenticated (rs_session s)" and "sn_mailStarted (rs_session s)"
  shows "Rcpt R a opts s =
    try_op (rcpt_checks R (rs_session s) a opts) (\<lambda>_.
    try_op (resolve_recipient R a) (\<lambda>b.
    try_op (rcpt_policy R (rs_session s) a b) (\<lambda>dp.
    if effectiveMaxRecipients (pl_MaxRecipients (rv_policy R)) dp \<le> int (length (sn_recipients (rs_session s)))
    then fail_op (smtpTooManyRecipients (effectiveMaxRecipients (pl_MaxRecipients (rv_policy R)) dp))
    else session_op (with_recipient dp b opts)))) s"
proof -
  have guards: "(rv_requireAuth R \<and> \<not> sn_authenticated (rs_session s)) = False" "(\<not> sn_mailStarted (rs_session s)) = False"
    using assms by auto
  show ?thesis
    unfolding Rcpt_def get_op_def Let_def guards if_False rcpt_checks_def rcpt_policy_def try_op_assoc try_op_guard
      with_recipient_def ..
qed

lemma Rcpt_cases:
  assumes "Rcpt R a opts s = (res, s')"
  obtains (same) cs where "rs_session s' = rs_session s" "rs_calls s' = rs_calls s @ cs" "set cs \<subseteq> range (CResolve a)"
    | (added) b dp where "res = Inr ()" "sn_mailStarted (rs_session s)" "rv_requireAuth R \<longrightarrow> sn_authenticated (rs_session s)"
        "rs_calls s' = rs_calls s @ [CResolve a (Some b)]"
        "int (length (sn_recipients (rs_session s))) < effectiveMaxRecipients (pl_MaxRecipients (rv_policy R)) dp"
        "rs_session s' = with_recipient dp b opts (rs_session s)"
proof (cases "(rv_requireAuth R \<longrightarrow> sn_authenticated (rs_session s)) \<and> sn_mailStarted (rs_session s)")
  case False
  with assms have "s' = s" by (auto simp: Rcpt_def get_op_def Let_def fail_op_def split: if_splits)
  then show ?thesis by (intro same [of "[]"]) simp_all
next
  case True
  from assms show ?thesis
    unfolding Rcpt_split [OF conjunct1 [OF True] conjunct2 [OF True]]
  proof (cases rule: try_opE)
    case (fail e)
    with silentD [OF silent_rcpt(1) fail(1)] show ?thesis by (intro same [of "[]"]) simp_all
  next
    case (pass u s1)
    from silentD [OF silent_rcpt(1) pass(1)] have s1: "rs_session s1 = rs_session s" "rs_calls s1 = rs_calls s" by simp_all
    from pass(2) show ?thesis
    proof (cases rule: try_opE)
      case (fail e)
      with resolve_recipient_run [OF fail(1)] s1 show ?thesis by (intro same [of "[CResolve a None]"]) auto
    next
      case (pass b s2)
      from resolve_recipient_run [OF pass(1)] s1
      have s2: "rs_session s2 = rs_session s" "rs_calls s2 = rs_calls s @ [CResolve a (Some b)]" by simp_all
      from pass(2) show ?thesis
      proof (cases rule: try_opE)
        case (fail e)
        with silentD [OF silent_rcpt(2) fail(1)] s2 show ?thesis by (intro same [of "[CResolve a (Some b)]"]) auto
      next
        case (pass dp s3)
        with silentD [OF silent_rcpt(2) pass(1)] s2 True show ?thesis
          by (cases "effectiveMaxRecipients (pl_MaxRecipients (rv_policy R)) dp \<le> int (length (sn_recipients (rs_session s)))")
             (intro same [of "[CResolve a (Some b)]"] added [of b dp];
              auto simp: fail_op_def session_op_def update_op_def)+
      qed
    qed
  qed
qed

lemma Mail_cases:
  assumes "Mail R from opts s = (res, s')"
  shows "rs_calls s' = rs_calls s \<and>
    (rs_session s' = rs_session s \<or> rs_session s' = clearEnvelope (rs_session s) \<or>
     (\<exists>normalized. rs_session s' = (clearEnvelope (rs_session s))\<lparr>sn_from := normalized, sn_mailStarted := True,
          sn_smtpUTF8 := mailOptionsUTF8 opts,
          sn_dsn := no_dsn\<lparr>sd_Return := normalizeDSNReturn opts, sd_EnvelopeID := normalizeDSNEnvelopeID opts\<rparr>\<rparr>) \<and>
     (rv_requireAuth R \<longrightarrow> sn_authenticated (rs_session s)))"
proof (cases "rv_requireAuth R \<and> \<not> sn_authenticated (rs_session s)")
  case True
  with assms show ?thesis by (auto simp: Mail_def get_op_def Let_def fail_op_def)
next
  case False
  let ?n = "rs_session s"
  let ?before = "try_op (authorizeRelay R (sn_remoteAddr ?n)) (\<lambda>_. bulk_check R ?n from)"
  let ?after = "try_op (check_op (validateMailOptions opts (rv_support R))) (\<lambda>_.
     try_op (check_op (validateAnnouncedMessageSize opts (pl_MaxBytes (rv_policy R)))) (\<lambda>_.
     try_op (pure_op (normalizeReversePath (rv_parse_address R) from)) (\<lambda>normalized.
     try_op (check_op (validateSMTPUTF8Address from normalized (mailOptionsUTF8 opts) (es_SMTPUTF8 (rv_support R)))) (\<lambda>_.
     ok_op normalized))))"
  let ?start = "\<lambda>normalized. session_op (\<lambda>n. n\<lparr>sn_from := normalized, sn_mailStarted := True, sn_smtpUTF8 := mailOptionsUTF8 opts,
       sn_dsn := (sn_dsn n)\<lparr>sd_Return := normalizeDSNReturn opts, sd_EnvelopeID := normalizeDSNEnvelopeID opts\<rparr>\<rparr>)"
  have quiet: "keeps silent ?before" "keeps silent ?after" by (intro silents)+
  have guard: "(rv_requireAuth R \<and> \<not> sn_authenticated ?n) = False" using False by simp
  from assms have "try_op ?before (\<lambda>_. try_op (session_op clearEnvelope) (\<lambda>_. try_op ?after ?start)) s = (res, s')"
    unfolding Mail_def get_op_def Let_def guard if_False try_op_assoc try_op_ok .
  then show ?thesis
  proof (cases rule: try_opE)
    case (fail e)
    with silentD [OF quiet(1) fail(1)] False show ?thesis by simp
  next
    case (pass u s1)
    let ?s2 = "s1\<lparr>rs_session := clearEnvelope (rs_session s1)\<rparr>"
    from silentD [OF quiet(1) pass(1)] have s1: "rs_session s1 = ?n" "rs_calls s1 = rs_calls s" by simp_all
    from pass(2) have "try_op ?after ?start ?s2 = (res, s')" by (simp add: session_op_def)
    then show ?thesis
    proof (cases rule: try_opE)
      case (fail e)
      with silentD [OF quiet(2) fail(1)] s1 False show ?thesis by simp
    next
      case (pass normalized s3)
      with silentD [OF quiet(2) pass(1)] s1 False show ?thesis
        by (auto simp: session_op_def update_op_def clearEnvelope_def)
    qed
  qed
qed

text \<open>A login changes who is authenticated and nothing of the envelope.\<close>

lemma Auth_run:
  assumes "Auth R mech s = (res, s')"
  shows "rs_session s' = rs_session s \<and> rs_calls s' = rs_calls s"
  using assms
  by (auto simp: Auth_def get_op_def fail_op_def try_op_def call_op_def update_op_def ok_op_def
      split: if_splits prod.splits sum.splits)

lemma auth_failed_run:
  assumes "auth_failed R u s = (res, s')"
  shows "rs_session s' = rs_session s \<and> rs_calls s' = rs_calls s @ [CAuth u False] \<and> isl res"
  using assms
  by (auto simp: auth_failed_def fail_op_def try_op_def call_op_def update_op_def note_op_def split: prod.splits)

definition login_change :: "string \<Rightarrow> 'w rstate \<Rightarrow> 'w rstate \<Rightarrow> bool" where
  "login_change user s s' \<longleftrightarrow> (\<exists>x y z cs. rs_calls s' = rs_calls s @ cs \<and>
     rs_session s' = (rs_session s)\<lparr>sn_authenticated := x, sn_authenticatedUser := y, sn_authenticatedUserRole := z\<rparr> \<and>
     set cs \<subseteq> range (CAuth user) \<and> (x \<longrightarrow> sn_authenticated (rs_session s) \<or> CAuth user True \<in> set cs))"

lemma login_change_None:
  "rs_session s' = (rs_session s)\<lparr>sn_authenticatedUserRole := z\<rparr> \<Longrightarrow> rs_calls s' = rs_calls s @ cs \<Longrightarrow>
   set cs \<subseteq> range (CAuth user) \<Longrightarrow> login_change user s s'"
  unfolding login_change_def
  by (rule exI [of _ "sn_authenticated (rs_session s)"], rule exI [of _ "sn_authenticatedUser (rs_session s)"]) auto

lemma auth_plain_run:
  assumes "auth_plain R i user pass s = (res, s')"
  shows "login_change user s s'"
proof (cases "rv_authenticator R")
  case None
  with assms have "s' = s" by (simp add: auth_plain_def fail_op_def)
  then show ?thesis by (intro login_change_None [where cs = "[]" and z = "sn_authenticatedUserRole (rs_session s)"]) simp_all
next
  case (Some a)
  let ?check = "case a of
              AuthWithRole f \<Rightarrow> try_op (call_op (f i user pass)) (\<lambda>r.
                (case r of Inl e \<Rightarrow> auth_failed R user
                 | Inr role \<Rightarrow> session_op (\<lambda>n. n\<lparr>sn_authenticatedUserRole := role\<rparr>)))
            | AuthPlain f \<Rightarrow> try_op (call_op (f i user pass)) (\<lambda>r.
                (case r of Some e \<Rightarrow> auth_failed R user | None \<Rightarrow> ok_op ()))"
  have check: "\<exists>z cs. rs_session s1 = (rs_session s)\<lparr>sn_authenticatedUserRole := z\<rparr> \<and> rs_calls s1 = rs_calls s @ cs \<and>
      set cs \<subseteq> range (CAuth user)" if run: "?check s = (r1, s1)" for r1 s1
  proof -
    note role = exI [of _ "sn_authenticatedUserRole (rs_session s)"]
    show ?thesis
    proof (cases a)
      case (AuthWithRole f)
      with run show ?thesis
        by (auto simp: try_op_def call_op_def session_op_def update_op_def split: prod.splits sum.splits
            dest!: auth_failed_run intro: role rangeI)
    next
      case (AuthPlain f)
      with run show ?thesis
        by (auto simp: try_op_def call_op_def ok_op_def split: prod.splits option.splits
            dest!: auth_failed_run intro!: role rangeI)
    qed
  qed
  let ?login = "try_op (note_op (CAuth user True)) (\<lambda>_.
          try_op (session_op (\<lambda>n. n\<lparr>sn_authenticated := True, sn_authenticatedUser := user\<rparr>)) (\<lambda>_.
          get_op (\<lambda>s. emit R \<lparr>se_Stage = StageAuthenticated, se_RemoteAddr = sn_remoteAddr (rs_session s),
            se_EnvelopeFrom = [], se_Mailbox = None, se_SubmissionUser = no_user, se_Recipients = [], se_DSN = no_dsn, se_StoragePath = [],
            se_Parsed = None, se_Authentication = no_results, se_ReceivedAt = 0, se_SubmittedAt = 0, se_Size = 0, se_Duplicate = False\<rparr>)))"
  have "auth_plain R i user pass = try_op ?check (\<lambda>_. ?login)"
    unfolding auth_plain_def Some option.case ..
  with assms have "try_op ?check (\<lambda>_. ?login) s = (res, s')" by simp
  then show ?thesis
  proof (cases rule: try_opE)
    case (fail e)
    with check [OF fail(1)] show ?thesis by (auto intro: login_change_None)
  next
    case (pass u s1)
    from check [OF pass(1)] obtain z cs where s1: "rs_session s1 = (rs_session s)\<lparr>sn_authenticatedUserRole := z\<rparr>"
      "rs_calls s1 = rs_calls s @ cs" "set cs \<subseteq> range (CAuth user)" by auto
    from pass(2) obtain ev where "emit R ev (s1\<lparr>rs_calls := rs_calls s1 @ [CAuth user True],
        rs_session := (rs_session s1)\<lparr>sn_authenticated := True, sn_authenticatedUser := user\<rparr>\<rparr>) = (res, s')"
      by (auto simp: note_op_def session_op_def get_op_def try_op_def update_op_def)
    from silentD [OF silent_emit this] s1 show ?thesis
      unfolding login_change_def
      by (rule_tac x = True in exI, rule_tac x = user in exI, rule_tac x = z in exI, rule_tac x = "cs @ [CAuth user True]" in exI)
         auto
  qed
qed

section \<open>What holds in every reachable session\<close>

text \<open>Every message is recorded for a mailbox that was resolved before, and after a login where one is required.\<close>

definition justified :: "bool \<Rightarrow> receiver_call list \<Rightarrow> bool" where
  "justified required cs \<longleftrightarrow> (\<forall>before m r after. cs = before @ CRecord m r # after \<longrightarrow>
     (\<exists>a. CResolve a (Some (rm_Mailbox m)) \<in> set before) \<and> (required \<longrightarrow> (\<exists>u. CAuth u True \<in> set before)))"

lemma justified_Nil [simp]: "justified required []"
  by (simp add: justified_def)

lemma justified_append:
  assumes "justified required cs"
    and "\<And>m r. CRecord m r \<in> set cs' \<Longrightarrow>
      (\<exists>a. CResolve a (Some (rm_Mailbox m)) \<in> set cs) \<and> (required \<longrightarrow> (\<exists>u. CAuth u True \<in> set cs))"
  shows "justified required (cs @ cs')"
  unfolding justified_def
proof (intro allI impI)
  fix before m r after
  assume split: "cs @ cs' = before @ CRecord m r # after"
  then consider us where "cs = before @ CRecord m r # us" | us where "before = cs @ us" "cs' = us @ CRecord m r # after"
    by (auto simp: append_eq_append_conv2 Cons_eq_append_conv append_eq_Cons_conv)
  then show "(\<exists>a. CResolve a (Some (rm_Mailbox m)) \<in> set before) \<and> (required \<longrightarrow> (\<exists>u. CAuth u True \<in> set before))"
  proof cases
    case 1
    then show ?thesis using assms(1) unfolding justified_def by blast
  next
    case 2
    then show ?thesis using assms(2) [of m r] by auto
  qed
qed

definition session_ok :: "'w receiver \<Rightarrow> 'w rstate \<Rightarrow> bool" where
  "session_ok R s \<longleftrightarrow> (let n = rs_session s; cs = rs_calls s in
     (sn_authenticated n \<longrightarrow> (\<exists>u. CAuth u True \<in> set cs)) \<and>
     (sn_mailStarted n \<and> rv_requireAuth R \<longrightarrow> (\<exists>u. CAuth u True \<in> set cs)) \<and>
     (\<not> sn_mailStarted n \<longrightarrow> sn_from n = [] \<and> sn_recipients n = [] \<and> sn_dsn n = no_dsn \<and> sn_domainPolicy n = None) \<and>
     (\<forall>b\<in>set (sn_recipients n). \<exists>a. CResolve a (Some b) \<in> set cs) \<and>
     (sn_recipients n \<noteq> [] \<longrightarrow>
        int (length (sn_recipients n)) \<le> effectiveMaxRecipients (pl_MaxRecipients (rv_policy R)) (sn_domainPolicy n)) \<and>
     justified (rv_requireAuth R) cs \<and> no_orphans rm_StoragePath cs)"

lemma session_ok_clear:
  assumes "session_ok R s" and "rs_session s' = clearEnvelope (rs_session s)" and "rs_calls s' = rs_calls s"
  shows "session_ok R s'"
  using assms by (auto simp: session_ok_def Let_def clearEnvelope_def)

lemma unrecorded:
  assumes "set cs \<subseteq> range (CResolve a) \<or> set cs \<subseteq> range (CAuth u)"
  shows "CRecord m r \<notin> set cs" and "no_orphans rm_StoragePath cs"
proof -
  show "CRecord m r \<notin> set cs" using assms by auto
  have "settled rm_StoragePath cs None" using assms by (induction cs) auto
  then show "no_orphans rm_StoragePath cs" by (simp add: no_orphans_def)
qed

lemma session_ok_extend:
  assumes "session_ok R s" and "rs_session s' = rs_session s" and "rs_calls s' = rs_calls s @ cs"
    and "justified (rv_requireAuth R) (rs_calls s @ cs)" and "no_orphans rm_StoragePath (rs_calls s @ cs)"
  shows "session_ok R s'"
  using assms by (simp add: session_ok_def Let_def) blast

lemma session_ok_more_calls:
  assumes "session_ok R s" and "rs_session s' = rs_session s" and "rs_calls s' = rs_calls s @ cs"
    and "set cs \<subseteq> range (CResolve a) \<or> set cs \<subseteq> range (CAuth u)"
  shows "session_ok R s'"
  using assms(1-3) unrecorded [OF assms(4)]
  by (auto simp: session_ok_def Let_def intro: justified_append no_orphans_append)

lemma Rcpt_ok:
  assumes "session_ok R s" and "Rcpt R a opts s = (res, s')"
  shows "session_ok R s'"
  using assms(2)
proof (cases rule: Rcpt_cases)
  case (same cs)
  then show ?thesis using assms(1) by (auto intro: session_ok_more_calls)
next
  case (added b dp)
  have "no_orphans rm_StoragePath (rs_calls s @ [CResolve a (Some b)])" "justified (rv_requireAuth R) (rs_calls s @ [CResolve a (Some b)])"
    using assms(1) unrecorded [of "[CResolve a (Some b)]" a]
    by (auto simp: session_ok_def Let_def intro: justified_append no_orphans_append)
  with added assms(1) show ?thesis
    by (auto simp: session_ok_def Let_def with_recipient_def)
qed

lemma login_ok:
  assumes "session_ok R s" and "login_change u s s'"
  shows "session_ok R s'"
proof -
  from assms(2) obtain x y z cs where s': "rs_calls s' = rs_calls s @ cs"
     "rs_session s' = (rs_session s)\<lparr>sn_authenticated := x, sn_authenticatedUser := y, sn_authenticatedUserRole := z\<rparr>"
     "set cs \<subseteq> range (CAuth u)" "x \<longrightarrow> sn_authenticated (rs_session s) \<or> CAuth u True \<in> set cs"
    by (auto simp: login_change_def)
  have "no_orphans rm_StoragePath (rs_calls s @ cs)" "justified (rv_requireAuth R) (rs_calls s @ cs)"
    using assms(1) unrecorded [of cs _ u] s'(3)
    by (auto simp: session_ok_def Let_def intro: justified_append no_orphans_append)
  with s' assms(1) show ?thesis by (auto simp: session_ok_def Let_def)
qed

lemma Data_ok:
  assumes "session_ok R s" and "Data R r s = (res, s')"
  shows "session_ok R s'"
proof -
  from Data_history [OF assms(2)] obtain cs where cs: "rs_calls s' = rs_calls s @ cs" "no_orphans rm_StoragePath cs"
    "\<And>m e. CRecord m e \<in> set cs \<Longrightarrow> rm_Mailbox m \<in> set (sn_recipients (rs_session s)) \<and>
       (rv_requireAuth R \<longrightarrow> sn_authenticated (rs_session s))" by auto
  have "no_orphans rm_StoragePath (rs_calls s @ cs)" "justified (rv_requireAuth R) (rs_calls s @ cs)"
    using assms(1) cs by (auto simp: session_ok_def Let_def intro!: justified_append no_orphans_append)
  moreover have "rs_session s' = rs_session s \<or> rs_session s' = clearEnvelope (rs_session s)"
    using assms(2) by (cases rule: Data_cases) auto
  moreover from calculation(1,2) cs(1) have "session_ok R (s\<lparr>rs_calls := rs_calls s'\<rparr>)"
    by (intro session_ok_extend [OF assms(1)]) simp_all
  ultimately show ?thesis
    using session_ok_clear [of R "s\<lparr>rs_calls := rs_calls s'\<rparr>" s'] session_ok_extend [OF assms(1) _ cs(1)] by auto
qed

lemma Mail_ok:
  assumes "session_ok R s" and "Mail R from opts s = (res, s')"
  shows "session_ok R s'"
proof -
  from Mail_cases [OF assms(2)] have calls: "rs_calls s' = rs_calls s" by simp
  from Mail_cases [OF assms(2)] consider
      "rs_session s' = rs_session s" | "rs_session s' = clearEnvelope (rs_session s)"
    | normalized where "rs_session s' = (clearEnvelope (rs_session s))\<lparr>sn_from := normalized, sn_mailStarted := True,
          sn_smtpUTF8 := mailOptionsUTF8 opts,
          sn_dsn := no_dsn\<lparr>sd_Return := normalizeDSNReturn opts, sd_EnvelopeID := normalizeDSNEnvelopeID opts\<rparr>\<rparr>"
        "rv_requireAuth R \<longrightarrow> sn_authenticated (rs_session s)" by blast
  then show ?thesis
  proof cases
    case 1
    with assms(1) calls show ?thesis by (simp add: session_ok_def)
  next
    case 2
    with assms(1) calls show ?thesis by (rule_tac session_ok_clear)
  next
    case 3
    have "rv_requireAuth R \<longrightarrow> (\<exists>u. CAuth u True \<in> set (rs_calls s))"
      using assms(1) 3(2) by (simp add: session_ok_def Let_def)
    with assms(1) calls 3(1) show ?thesis by (simp add: session_ok_def Let_def clearEnvelope_def)
  qed
qed

lemma Logout_ok:
  assumes "session_ok R s" and "Logout s = (res, s')"
  shows "session_ok R s'"
  using assms by (simp add: Logout_def session_op_def update_op_def session_ok_def Let_def clearEnvelope_def) force

lemma session_do_ok:
  assumes "session_ok R s" and "session_do R c s = (res, s')"
  shows "session_ok R s'"
proof (cases c)
  case (CmdAuth mech i user pass)
  with assms(2) have "try_op (Auth R mech) (\<lambda>_. auth_plain R i user pass) s = (res, s')" by simp
  then show ?thesis
  proof (cases rule: try_opE)
    case (fail e)
    with Auth_run [OF fail(1)] assms(1) show ?thesis by (auto intro: session_ok_more_calls [where cs = "[]"])
  next
    case (pass u s1)
    with Auth_run [OF pass(1)] assms(1) have "session_ok R s1" by (auto intro: session_ok_more_calls [where cs = "[]"])
    with auth_plain_run [OF pass(2)] show ?thesis by (auto intro: login_ok)
  qed
next
  case CmdReset
  with assms show ?thesis by (auto simp: Reset_def session_op_def update_op_def intro: session_ok_clear)
qed (use assms in \<open>auto intro: Mail_ok Rcpt_ok Data_ok Logout_ok\<close>)

lemma session_ok_reachable:
  assumes "session_reachable R s"
  shows "session_ok R s"
proof -
  from assms obtain a t w where "(session_step R)\<^sup>*\<^sup>* (session_start a t w) s" by (auto simp: session_reachable_def)
  then show ?thesis
  proof (induction rule: rtranclp_induct)
    case base
    show ?case by (simp add: session_ok_def session_start_def new_session_def)
  next
    case (step s1 s2)
    from step.hyps(2) show ?case
    proof cases
      case (command c r)
      then show ?thesis using step.IH by (auto intro: session_do_ok)
    next
      case (others t w)
      then show ?thesis using step.IH by (auto simp: session_ok_def)
    qed
  qed
qed

section \<open>A small world\<close>

text \<open>
  A world for concrete runs: the keys of the deduplicator (kept for a day in Redis), the objects of the store, the
  bytes left in the quota of the one user, and the recorded messages. Both addresses belong to that user, and the
  message id of every message is \<open><1@b>\<close>. Nothing else ever fails.
\<close>

record small_world =
  sw_keys :: "(string \<times> string) list"
  sw_store :: "(string \<times> string) list"
  sw_quota :: int
  sw_records :: "(string \<times> string) list" \<comment> \<open>address, storage path\<close>

definition small_box :: "string \<Rightarrow> smtp_mailbox" where
  "small_box a = \<lparr>bx_CompanyID = ''c'', bx_DomainID = ''d'', bx_UserID = ''u'', bx_Address = a\<rparr>"

definition small_parsed :: parsed_message where
  "small_parsed = \<lparr>pm_MessageID = ''<1@b>'', pm_Subject = [], pm_Date = 0, pm_From = \<lparr>pa_Name = [], pa_Address = ''s@b.kr''\<rparr>,
     pm_To = [], pm_Cc = [], pm_Bcc = [], pm_InReplyTo = [], pm_References = [], pm_HasAttachment = False\<rparr>"

definition small_receiver :: "small_world receiver" where
  "small_receiver =
     \<lparr>rv_put = \<lambda>path content w. (None, w\<lparr>sw_store := (path, content) # filter (\<lambda>o'. fst o' \<noteq> path) (sw_store w)\<rparr>),
      rv_delete = \<lambda>path w. (None, w\<lparr>sw_store := filter (\<lambda>o'. fst o' \<noteq> path) (sw_store w)\<rparr>),
      rv_resolve = \<lambda>a w. (if a = ''kim@a.kr'' \<or> a = ''info@a.kr'' then Inr (small_box a) else Inl (PlainErr ''not found''), w),
      rv_record = \<lambda>m w. (if sw_quota w < rm_Size m then (Some ErrMailboxFull, w)
        else (None, w\<lparr>sw_quota := sw_quota w - rm_Size m,
          sw_records := sw_records w @ [(bx_Address (rm_Mailbox m), rm_StoragePath m)]\<rparr>)),
      rv_dedup = \<lambda>mid a w. (if (mid, a) \<in> set (sw_keys w) then (Inr False, w)
        else (Inr True, w\<lparr>sw_keys := (mid, a) # sw_keys w\<rparr>)),
      rv_rate = \<lambda>_ _ _ w. (Inr True, w), rv_backpressure = \<lambda>w. (Inr True, w), rv_verify = None,
      rv_authenticator = None, rv_relay = None, rv_domain_policy = None, rv_bulk = None, rv_hooks = [],
      rv_id = \<lambda>w. (''m1'', w), rv_clock = \<lambda>w. (0, w), rv_now = \<lambda>w. (0, w), rv_io = \<lambda>_ w. (None, w),
      rv_requireAuth = False, rv_dmarcEnforce = False, rv_support = all_extensions, rv_addReceivedHeader = False,
      rv_receivedDomain = [], rv_policy = \<lparr>pl_MaxRecipients = 100, pl_MaxBytes = 1000\<rparr>,
      rv_parse_address = \<lambda>s. Some s, rv_parse_message = \<lambda>_. Inr small_parsed, rv_format = sample_format,
      rv_authres = \<lambda>_ _. [], rv_date = \<lambda>_. [], rv_sha256 = \<lambda>_. []\<rparr>"

definition small_start :: "int \<Rightarrow> small_world rstate" where
  "small_start quota = session_start ''1.2.3.4'' newAuthFailureTracker
     \<lparr>sw_keys = [], sw_store = [], sw_quota = quota, sw_records = []\<rparr>"

text \<open>The results of a list of commands, and the state after them.\<close>

fun commands :: "'w receiver \<Rightarrow> smtp_command list \<Rightarrow> 'w rstate \<Rightarrow> (smtp_error + unit) list \<times> 'w rstate" where
  "commands R [] s = ([], s)"
| "commands R (c # cs) s =
     (case session_do R c s of (r, s1) \<Rightarrow> (case commands R cs s1 of (rs, s2) \<Rightarrow> (r # rs, s2)))"

lemma commands_reachable: "session_reachable R s \<Longrightarrow> session_reachable R (snd (commands R cs s))"
proof (induction cs arbitrary: s)
  case (Cons c cs)
  obtain r s1 where run: "session_do R c s = (r, s1)" by (cases "session_do R c s")
  with Cons.prems have "session_reachable R s1"
    unfolding session_reachable_def by (meson rtranclp.rtrancl_into_rtrancl session_step.command)
  from Cons.IH [OF this] run show ?case by (cases "commands R cs s1") simp
qed simp

lemma start_reachable: "session_reachable R (session_start a t w)"
  by (auto simp: session_reachable_def)

definition one_recipient :: "string \<Rightarrow> smtp_command list" where
  "one_recipient a = [CmdMail ''s@b.kr'' None, CmdRcpt a None, CmdData (''hello'', None)]"

definition two_recipients :: "smtp_command list" where
  "two_recipients = [CmdMail ''s@b.kr'' None, CmdRcpt ''kim@a.kr'' None, CmdRcpt ''info@a.kr'' None, CmdData (''hello'', None)]"

definition small_view :: "(smtp_error + unit) list \<times> small_world rstate \<Rightarrow>
    (smtp_error + unit) list \<times> (string \<times> string) list \<times> (string \<times> string) list" where
  "small_view run = (fst run, sw_records (rs_world (snd run)), sw_store (rs_world (snd run)))"

definition ready :: "small_world rstate" where
  "ready = snd (commands small_receiver [CmdMail ''s@b.kr'' None, CmdRcpt ''kim@a.kr'' None] (small_start 6))"

definition more_quota :: "int \<Rightarrow> small_world rstate \<Rightarrow> small_world rstate" where
  "more_quota q s = s\<lparr>rs_world := (rs_world s)\<lparr>sw_quota := q\<rparr>\<rparr>"

text \<open>The same receiver with authentication required, every password accepted, and a hook that refuses each login.\<close>

definition guarded_receiver :: "small_world receiver" where
  "guarded_receiver = small_receiver\<lparr>rv_authenticator := Some (AuthPlain (\<lambda>_ _ _ w. (None, w))), rv_requireAuth := True,
     rv_hooks := [\<lambda>ev w. (if se_Stage ev = StageAuthenticated then Some (PlainErr ''denied'') else None, w)]\<rparr>"

section \<open>Properties\<close>



text \<open>
  C5. The session is safe in every reachable state, whatever the other sessions do between its commands.
  Recipients are taken only after MAIL; each of them was resolved to a local mailbox and their number is within
  the limit of the service and of the strictest domain. No message is ever recorded for a mailbox that was
  not resolved before (the service is no open relay), nor before a successful login where one is required.
  Every object written to the store is recorded, or deleted again, before anything else happens.
\<close>

theorem session_is_safe:
  assumes "session_reachable R s"
  shows "(\<not> sn_mailStarted (rs_session s) \<longrightarrow> sn_recipients (rs_session s) = [] \<and> sn_domainPolicy (rs_session s) = None) \<and>
    (\<forall>b\<in>set (sn_recipients (rs_session s)). \<exists>a. CResolve a (Some b) \<in> set (rs_calls s)) \<and>
    (sn_recipients (rs_session s) \<noteq> [] \<longrightarrow> int (length (sn_recipients (rs_session s))) \<le>
       effectiveMaxRecipients (pl_MaxRecipients (rv_policy R)) (sn_domainPolicy (rs_session s))) \<and>
    (\<forall>before m r after. rs_calls s = before @ CRecord m r # after \<longrightarrow>
       (\<exists>a. CResolve a (Some (rm_Mailbox m)) \<in> set before) \<and>
       (rv_requireAuth R \<longrightarrow> (\<exists>u. CAuth u True \<in> set before))) \<and>
    no_orphans rm_StoragePath (rs_calls s)"
  using session_ok_reachable [OF assms] unfolding session_ok_def Let_def justified_def by blast

theorem session_is_safe_witness:
  "no_orphans rm_StoragePath (rs_calls (snd (commands small_receiver two_recipients (small_start 6))))"
proof -
  have "session_reachable small_receiver (snd (commands small_receiver two_recipients (small_start 6)))"
    unfolding small_start_def by (rule commands_reachable [OF start_reachable])
  from session_is_safe [OF this] show ?thesis by blast
qed

text \<open>
  A message that was answered with 250 can be lost. Two addresses of one user share the storage path, and the key
  of the deduplicator is set before the message is recorded. When the quota of the user takes the
  message once, the second record fails: DATA answers 452 and the rollback deletes the object of the first,
  recorded message. The client sends the message again, as it must: now both addresses are duplicates, DATA
  succeeds, the first address keeps a record without an object, and the second never gets one.
\<close>

theorem retried_message_is_lost:
  "let first = commands small_receiver two_recipients (small_start 6);
       again = commands small_receiver two_recipients (more_quota 1000 (snd first))
   in small_view first =
        ([Inr (), Inr (), Inr (), Inl (smtpMailboxFull ''info@a.kr'')],
         [(''kim@a.kr'', ''mailstore/c/d/u/maildir/2026/05/m1.eml'')], []) \<and>
      small_view again =
        ([Inr (), Inr (), Inr (), Inr ()],
         [(''kim@a.kr'', ''mailstore/c/d/u/maildir/2026/05/m1.eml'')], [])"
  by code_simp

text \<open>
  A login that a hook refuses takes effect: the session is marked authenticated before the hooks are
  asked. AUTH answers with the error of the hook, and MAIL, RCPT and DATA of the same session are accepted although
  authentication is required, while without the login the message is refused.
\<close>

theorem refused_login_takes_effect:
  "small_view (commands guarded_receiver (CmdAuth ''PLAIN'' [] ''kim'' ''pw'' # one_recipient ''kim@a.kr'') (small_start 6)) =
     ([Inl (WrapErr ''smtp hook authenticated: '' (PlainErr ''denied'')), Inr (), Inr (), Inr ()],
      [(''kim@a.kr'', ''mailstore/c/d/u/maildir/2026/05/m1.eml'')],
      [(''mailstore/c/d/u/maildir/2026/05/m1.eml'', ''hello'')]) \<and>
   small_view (commands guarded_receiver (one_recipient ''kim@a.kr'') (small_start 6)) =
     ([Inl (LibErr ErrAuthRequired), Inl (LibErr ErrAuthRequired), Inl (LibErr ErrAuthRequired)], [], [])"
  by code_simp

end
