(* ===== verification/SmtpSubmission.thy ===== *)
theory SmtpSubmission
  imports SmtpService
begin

text \<open>
  Message submission by authenticated users: \<open>internal/smtp/submission.go\<close>. The methods of a session are operations
  on the state of \<open>SmtpService\<close>; the interfaces of the receiver are functions on a world. The report on RFC
  compliance is only observed by metrics and handed to the recorder, which ignores it; it is left out.
\<close>

section \<open>Data\<close>

record submitted_message =
  sm_EnvelopeFrom :: string
  sm_User :: submission_user
  sm_Recipients :: "string list"
  sm_DSN :: smtp_dsn
  sm_StoragePath :: string
  sm_Parsed :: parsed_message
  sm_SubmittedAt :: int
  sm_Size :: int

record 'w submission =
  sv_put :: "string \<Rightarrow> string \<Rightarrow> 'w \<Rightarrow> smtp_error option \<times> 'w"
  sv_delete :: "string \<Rightarrow> 'w \<Rightarrow> smtp_error option \<times> 'w"
  sv_authenticate :: "string \<Rightarrow> string \<Rightarrow> string \<Rightarrow> 'w \<Rightarrow> (smtp_error + submission_user) \<times> 'w"
  sv_record :: "submitted_message \<Rightarrow> 'w \<Rightarrow> smtp_error option \<times> 'w"
  sv_domain_policy :: "(string \<Rightarrow> 'w \<Rightarrow> (smtp_error + inbound_policy) \<times> 'w) option"
  sv_bulk :: "(string \<Rightarrow> string \<Rightarrow> 'w \<Rightarrow> bool \<times> 'w) option"
  sv_hooks :: "'w hook list"
  sv_id :: "'w \<Rightarrow> string \<times> 'w"
  sv_clock :: "'w \<Rightarrow> int \<times> 'w"
  sv_random :: "'w \<Rightarrow> string \<times> 'w" \<comment> \<open>\<open>randomMessageID\<close>\<close>
  sv_io :: "string \<Rightarrow> 'w \<Rightarrow> smtp_error option \<times> 'w"
  sv_support :: extension_support
  sv_addReceivedHeader :: bool
  sv_receivedDomain :: string
  sv_policy :: receive_policy
  sv_parse_address :: addr_parser
  sv_parse_message :: "string \<Rightarrow> smtp_error + parsed_message"
  sv_format :: time_format

record submission_session =
  ss_user :: submission_user
  ss_from :: string
  ss_recipients :: "string list"
  ss_dsn :: smtp_dsn
  ss_smtpUTF8 :: bool
  ss_remoteAddr :: string
  ss_domainPolicy :: "inbound_policy option"
  ss_domainPolicyLoaded :: bool

type_synonym 'w sub_state = "(submission_session, submitted_message, 'w) service"
type_synonym ('w, 'a) vop = "('w sub_state, smtp_error, 'a) op"

definition submission_emit :: "'w submission \<Rightarrow> smtp_event \<Rightarrow> ('w, unit) vop" where
  "submission_emit V ev = get_op (\<lambda>s. emit_hooks ''submission hook '' (sv_hooks V)
     (if se_RemoteAddr ev = [] then ev\<lparr>se_RemoteAddr := ss_remoteAddr (rs_session s)\<rparr> else ev))"

definition submission_event :: "stage \<Rightarrow> submission_session \<Rightarrow> smtp_event" where
  "submission_event st n =
     \<lparr>se_Stage = st, se_RemoteAddr = [], se_EnvelopeFrom = ss_from n, se_Mailbox = None, se_SubmissionUser = ss_user n,
      se_Recipients = ss_recipients n, se_DSN = ss_dsn n, se_StoragePath = [], se_Parsed = None,
      se_Authentication = no_results, se_ReceivedAt = 0, se_SubmittedAt = 0, se_Size = 0, se_Duplicate = False\<rparr>"

definition clear_submission :: "submission_session \<Rightarrow> submission_session" where
  "clear_submission n = n\<lparr>ss_from := [], ss_recipients := [], ss_dsn := no_dsn, ss_smtpUTF8 := False\<rparr>"

definition clearDomainPolicy :: "submission_session \<Rightarrow> submission_session" where
  "clearDomainPolicy n = n\<lparr>ss_domainPolicy := None, ss_domainPolicyLoaded := False\<rparr>"

definition submission_Reset :: "('w, unit) vop" where
  "submission_Reset = session_op clear_submission"

definition submission_Logout :: "('w, unit) vop" where
  "submission_Logout = session_op (\<lambda>n. clearDomainPolicy ((clear_submission n)\<lparr>ss_user := no_user\<rparr>))"

text \<open>The policy of the user's domain, looked up once for a login.\<close>

definition currentDomainPolicy :: "'w submission \<Rightarrow> ('w, inbound_policy option) vop" where
  "currentDomainPolicy V = get_op (\<lambda>s. let n = rs_session s in
     if ss_domainPolicyLoaded n then ok_op (ss_domainPolicy n)
     else try_op (session_op (\<lambda>n. n\<lparr>ss_domainPolicyLoaded := True\<rparr>)) (\<lambda>_.
       case sv_domain_policy V of None \<Rightarrow> ok_op None
       | Some lookup \<Rightarrow>
           if su_DomainID (ss_user n) = [] then ok_op None
           else try_op (call_op (lookup (su_DomainID (ss_user n)))) (\<lambda>r.
             case r of Inl _ \<Rightarrow> ok_op None
             | Inr dp \<Rightarrow> try_op (session_op (\<lambda>n. n\<lparr>ss_domainPolicy := Some dp\<rparr>)) (\<lambda>_. ok_op (Some dp)))))"

section \<open>AUTH, MAIL and RCPT\<close>

definition submission_Auth :: "string \<Rightarrow> ('w, unit) vop" where
  "submission_Auth mech = get_op (\<lambda>s.
     if \<not> go_EqualFold mech ''PLAIN'' then fail_op (LibErr ErrAuthUnsupported)
     else if su_UserID (ss_user (rs_session s)) \<noteq> [] then fail_op smtpAlreadyAuthenticated
     else ok_op ())"

definition submission_auth_plain :: "'w submission \<Rightarrow> string \<Rightarrow> string \<Rightarrow> string \<Rightarrow> ('w, unit) vop" where
  "submission_auth_plain V identity username password =
     try_op (call_op (sv_authenticate V identity username password)) (\<lambda>r.
     case r of
       Inl _ \<Rightarrow> try_op (note_op (CAuth username False)) (\<lambda>_. fail_op (LibErr ErrAuthFailed))
     | Inr user \<Rightarrow>
         if su_MustChangePassword user
         then try_op (note_op (CAuth username False)) (\<lambda>_. fail_op (LibErr ErrAuthFailed))
         else
         try_op (submission_emit V
           \<lparr>se_Stage = StageAuthenticated, se_RemoteAddr = [], se_EnvelopeFrom = [], se_Mailbox = None,
            se_SubmissionUser = user, se_Recipients = [], se_DSN = no_dsn, se_StoragePath = [], se_Parsed = None,
            se_Authentication = no_results, se_ReceivedAt = 0, se_SubmittedAt = 0, se_Size = 0, se_Duplicate = False\<rparr>) (\<lambda>_.
         try_op (note_op (CAuth username True)) (\<lambda>_.
         session_op (\<lambda>n. clearDomainPolicy (n\<lparr>ss_user := user\<rparr>)))))"

definition submissionSenderAllowed :: "string \<Rightarrow> submission_user \<Rightarrow> bool" where
  "submissionSenderAllowed addr user \<longleftrightarrow>
     go_EqualFold addr (su_Address user) \<or> list_ex (go_EqualFold addr) (su_AuthorizedAddresses user)"

definition submission_bulk_check :: "'w submission \<Rightarrow> submission_user \<Rightarrow> string \<Rightarrow> ('w, unit) vop" where
  "submission_bulk_check V user from =
     (case sv_bulk V of None \<Rightarrow> ok_op ()
      | Some allow \<Rightarrow>
          if su_UserID user = [] then ok_op ()
          else try_op (call_op (allow (su_UserID user) (su_Role user))) (\<lambda>ok.
               if ok then ok_op () else fail_op (smtpRateLimited from)))"

definition submission_Mail :: "'w submission \<Rightarrow> string \<Rightarrow> mail_options option \<Rightarrow> ('w, unit) vop" where
  "submission_Mail V from opts = get_op (\<lambda>s. let user = ss_user (rs_session s) in
     if su_UserID user = [] then fail_op (LibErr ErrAuthRequired)
     else
     try_op (session_op clear_submission) (\<lambda>_.
     try_op (check_op (validateMailOptions opts (sv_support V))) (\<lambda>_.
     try_op (check_op (validateAnnouncedMessageSize opts (pl_MaxBytes (sv_policy V)))) (\<lambda>_.
     try_op (pure_op (res_err (NormalizeAddress (sv_parse_address V) from))) (\<lambda>normalized.
     try_op (check_op (validateSMTPUTF8Address from normalized (mailOptionsUTF8 opts) (es_SMTPUTF8 (sv_support V)))) (\<lambda>_.
     if \<not> submissionSenderAllowed normalized user
     then fail_op (smtpPolicyReject ''mail from %q is not allowed for authenticated user'' [normalized])
     else
     try_op (submission_bulk_check V user from) (\<lambda>_.
     try_op (session_op (\<lambda>n. n\<lparr>ss_from := normalized, ss_smtpUTF8 := mailOptionsUTF8 opts,
       ss_dsn := (ss_dsn n)\<lparr>sd_Return := normalizeDSNReturn opts, sd_EnvelopeID := normalizeDSNEnvelopeID opts\<rparr>\<rparr>)) (\<lambda>_.
     get_op (\<lambda>s. submission_emit V (submission_event StageMailFrom (rs_session s)))))))))))"

definition submission_Rcpt :: "'w submission \<Rightarrow> string \<Rightarrow> rcpt_options option \<Rightarrow> ('w, unit) vop" where
  "submission_Rcpt V recipient opts = get_op (\<lambda>s. let n = rs_session s in
     if su_UserID (ss_user n) = [] then fail_op (LibErr ErrAuthRequired)
     else if ss_from n = [] then fail_op (smtpBadSequence ''RCPT'')
     else
     try_op (check_op (validateRcptOptions opts (sv_support V))) (\<lambda>_.
     try_op (currentDomainPolicy V) (\<lambda>dp.
     let maxRecipients = effectiveMaxRecipients (pl_MaxRecipients (sv_policy V)) dp in
     if maxRecipients \<le> int (length (ss_recipients n)) then fail_op (smtpTooManyRecipients maxRecipients)
     else
     try_op (pure_op (res_err (NormalizeAddress (sv_parse_address V) recipient))) (\<lambda>normalized.
     try_op (check_op (validateSMTPUTF8Address recipient normalized (ss_smtpUTF8 n) (es_SMTPUTF8 (sv_support V)))) (\<lambda>_.
     try_op (session_op (\<lambda>n. n\<lparr>ss_recipients := ss_recipients n @ [normalized],
       ss_dsn := (ss_dsn n)\<lparr>sd_Recipients := upsertDSNRecipientOption (sd_Recipients (ss_dsn n))
         (normalizeDSNRecipientOptions normalized opts)\<rparr>\<rparr>)) (\<lambda>_.
     get_op (\<lambda>s. submission_emit V (submission_event StageRcpt (rs_session s)))))))))"

section \<open>DATA\<close>

definition submittedMessageID :: "string \<Rightarrow> string \<Rightarrow> string \<Rightarrow> string" where
  "submittedMessageID random ident0 fromAddress =
     (let domain = (case go_Cut ''@'' (go_TrimSpace fromAddress) of
            None \<Rightarrow> ''localhost''
          | Some (_, d) \<Rightarrow> if go_TrimSpace d = [] then ''localhost'' else d);
          ident = sanitizeReceivedToken ident0;
          ident = (if ident = [] then random else ident)
      in ''<'' @ ident @ ''@'' @ go_ToLower (go_TrimSpace domain) @ ''>'')"

definition bulkRecipientThreshold :: nat where "bulkRecipientThreshold = 5"

definition messageHasListUnsubscribe :: "string \<Rightarrow> bool" where
  "messageHasListUnsubscribe spooled =
     (let lower = go_ToLower (take (16 * 1024) spooled)
      in go_Contains lower (CHR 0x0A # ''list-unsubscribe:'') \<or> prefix ''list-unsubscribe:'' lower)"

definition unsubscribe_header :: "string \<Rightarrow> string" where
  "unsubscribe_header from =
     ''List-Unsubscribe: <mailto:unsubscribe@'' @ (case go_Cut ''@'' from of None \<Rightarrow> [] | Some (_, d) \<Rightarrow> d) @
     ''?subject=unsubscribe>'' @ CRLF @ ''List-Unsubscribe-Post: List-Unsubscribe=One-Click'' @ CRLF"

definition submission_event_parsed :: "stage \<Rightarrow> submission_session \<Rightarrow> parsed_message \<Rightarrow> string \<Rightarrow> smtp_event" where
  "submission_event_parsed st n parsed content =
     (submission_event st n)\<lparr>se_Parsed := Some parsed, se_Size := int (length content)\<rparr>"

text \<open>What is known of the message when it is stored: its id, its bytes, what was parsed, and the time.\<close>

record prepared_submission =
  ps_ID :: string
  ps_Content :: string
  ps_Parsed :: parsed_message
  ps_SubmittedAt :: int

text \<open>A message without a message id gets one.\<close>

definition with_message_id ::
    "'w submission \<Rightarrow> submission_user \<Rightarrow> string \<Rightarrow> parsed_message \<Rightarrow> string \<Rightarrow> ('w, parsed_message \<times> string) vop" where
  "with_message_id V user ident parsed spooled =
     (if pm_MessageID parsed \<noteq> [] then ok_op (parsed, spooled)
      else
      try_op (if sanitizeReceivedToken ident = [] then call_op (sv_random V) else ok_op []) (\<lambda>random.
      let mid = submittedMessageID random ident (su_Address user) in
      try_op (io_op (sv_io V) ''insert message id'') (\<lambda>_.
      try_op (pure_op (res_err (insertHeaderAfterTraceHeaders (''Message-ID: '' @ mid @ CRLF) spooled))) (\<lambda>content.
      ok_op (parsed\<lparr>pm_MessageID := mid\<rparr>, content)))))"

text \<open>A message to many recipients gets the List-Unsubscribe headers.\<close>

definition with_unsubscribe :: "'w submission \<Rightarrow> submission_session \<Rightarrow> string \<Rightarrow> ('w, string) vop" where
  "with_unsubscribe V n spooled =
     (if bulkRecipientThreshold \<le> length (ss_recipients n) \<and> \<not> messageHasListUnsubscribe spooled
      then
      try_op (io_op (sv_io V) ''insert list-unsubscribe'') (\<lambda>_.
      pure_op (res_err (insertHeaderAfterTraceHeaders (unsubscribe_header (ss_from n)) spooled)))
      else ok_op spooled)"

definition spool_submission ::
    "'w submission \<Rightarrow> submission_session \<Rightarrow> data_reader \<Rightarrow> inbound_policy option \<Rightarrow> ('w, prepared_submission) vop" where
  "spool_submission V n r dp =
     try_op (io_op (sv_io V) ''create smtp spool file'') (\<lambda>_.
     try_op (pure_op (spoolMessage r (effectiveMaxBytes (pl_MaxBytes (sv_policy V)) dp))) (\<lambda>spooled.
     try_op (call_op (sv_id V)) (\<lambda>ident.
     try_op (call_op (sv_clock V)) (\<lambda>at.
     try_op (if sv_addReceivedHeader V
             then try_op (io_op (sv_io V) ''prepend received header'') (\<lambda>_.
                  ok_op (prependHeaderToSpool (BuildReceivedHeaderWithProtocol (sv_format V) (ss_remoteAddr n)
                    (sv_receivedDomain V) ''ESMTPA'' ident at) spooled))
             else ok_op spooled) (\<lambda>spooled.
     try_op (submission_emit V ((submission_event StageSpooled n)\<lparr>se_Size := int (length spooled)\<rparr>)) (\<lambda>_.
     try_op (io_op (sv_io V) ''rewind submitted message for parse'') (\<lambda>_.
     try_op (wrapped (WrapErr ''parse submitted message: '') (sv_parse_message V spooled)) (\<lambda>parsed.
     try_op (with_message_id V (ss_user n) ident parsed spooled) (\<lambda>(parsed, spooled).
     try_op (with_unsubscribe V n spooled) (\<lambda>content.
     try_op (submission_emit V (submission_event_parsed StageParsed n parsed content)) (\<lambda>_.
     ok_op \<lparr>ps_ID = ident, ps_Content = content, ps_Parsed = parsed, ps_SubmittedAt = at\<rparr>)))))))))))"

definition prepare_submission :: "'w submission \<Rightarrow> submission_session \<Rightarrow> data_reader \<Rightarrow> ('w, prepared_submission) vop" where
  "prepare_submission V n r =
     try_op (currentDomainPolicy V) (\<lambda>dp.
     let maxRecipients = effectiveMaxRecipients (pl_MaxRecipients (sv_policy V)) dp in
     if maxRecipients < int (length (ss_recipients n)) then fail_op (smtpTooManyRecipients maxRecipients)
     else spool_submission V n r dp)"

definition submission_box :: "submission_user \<Rightarrow> smtp_mailbox" where
  "submission_box user = \<lparr>bx_CompanyID = su_CompanyID user, bx_DomainID = su_DomainID user, bx_UserID = su_UserID user,
     bx_Address = su_Address user\<rparr>"

definition submitted_for :: "submission_session \<Rightarrow> prepared_submission \<Rightarrow> string \<Rightarrow> submitted_message" where
  "submitted_for n p path =
     \<lparr>sm_EnvelopeFrom = ss_from n, sm_User = ss_user n, sm_Recipients = ss_recipients n, sm_DSN = ss_dsn n,
      sm_StoragePath = path, sm_Parsed = ps_Parsed p, sm_SubmittedAt = ps_SubmittedAt p,
      sm_Size = int (length (ps_Content p))\<rparr>"

definition stored_event :: "stage \<Rightarrow> submission_session \<Rightarrow> prepared_submission \<Rightarrow> string \<Rightarrow> smtp_event" where
  "stored_event st n p path = (submission_event_parsed st n (ps_Parsed p) (ps_Content p))
     \<lparr>se_StoragePath := path, se_SubmittedAt := ps_SubmittedAt p\<rparr>"

definition submitted_error :: "submission_user \<Rightarrow> smtp_error \<Rightarrow> smtp_error" where
  "submitted_error user e =
     (if is_mailbox_full e then smtpMailboxFull (su_Address user) else WrapErr ''record submitted message: '' e)"

definition store_submission :: "'w submission \<Rightarrow> submission_session \<Rightarrow> prepared_submission \<Rightarrow> ('w, unit) vop" where
  "store_submission V n p =
     (let path = BuildStoragePath (sv_format V) (submission_box (ss_user n)) (ps_ID p) (ps_SubmittedAt p);
          m = submitted_for n p path in
     try_op (io_op (sv_io V) ''rewind submitted message for store'') (\<lambda>_.
     try_op (call_op (sv_put V path (ps_Content p))) (\<lambda>r.
     try_op (note_op (CPut path (ps_Content p) r)) (\<lambda>_.
     try_op (wrapped_err (WrapErr ''store submitted message: '') r) (\<lambda>_.
     try_op (or_delete (sv_delete V) path id (submission_emit V (stored_event StageStored n p path))) (\<lambda>_.
     try_op (call_op (sv_record V m)) (\<lambda>r.
     try_op (note_op (CRecord m r)) (\<lambda>_.
     try_op (or_delete (sv_delete V) path (submitted_error (ss_user n)) (check_op r)) (\<lambda>_.
     submission_emit V (stored_event StageRecorded n p path))))))))))"

definition submission_Data :: "'w submission \<Rightarrow> data_reader \<Rightarrow> ('w, unit) vop" where
  "submission_Data V r = get_op (\<lambda>s. let n = rs_session s in
     if su_UserID (ss_user n) = [] then fail_op (LibErr ErrAuthRequired)
     else if ss_from n = [] then fail_op (smtpBadSequence ''DATA'')
     else if ss_recipients n = [] then fail_op (smtpBadSequence ''DATA'')
     else then_session clear_submission (try_op (prepare_submission V n r) (store_submission V n)))"

section \<open>Sessions\<close>

datatype submission_command =
    SubAuth string string string string \<comment> \<open>mechanism, identity, user name, password\<close>
  | SubMail string "mail_options option"
  | SubRcpt string "rcpt_options option"
  | SubData data_reader
  | SubReset
  | SubLogout

fun submission_do :: "'w submission \<Rightarrow> submission_command \<Rightarrow> ('w, unit) vop" where
  "submission_do V (SubAuth mech identity user pass) =
     try_op (submission_Auth mech) (\<lambda>_. submission_auth_plain V identity user pass)"
| "submission_do V (SubMail from opts) = submission_Mail V from opts"
| "submission_do V (SubRcpt recipient opts) = submission_Rcpt V recipient opts"
| "submission_do V (SubData r) = submission_Data V r"
| "submission_do V SubReset = submission_Reset"
| "submission_do V SubLogout = submission_Logout"

definition submission_start :: "string \<Rightarrow> 'w \<Rightarrow> 'w sub_state" where
  "submission_start remoteAddr w =
     \<lparr>rs_session = \<lparr>ss_user = no_user, ss_from = [], ss_recipients = [], ss_dsn = no_dsn, ss_smtpUTF8 = False,
        ss_remoteAddr = remoteAddr, ss_domainPolicy = None, ss_domainPolicyLoaded = False\<rparr>,
      rs_world = w, rs_calls = []\<rparr>"

text \<open>One session among others: between its commands the world may change.\<close>

inductive submission_step :: "'w submission \<Rightarrow> 'w sub_state \<Rightarrow> 'w sub_state \<Rightarrow> bool" for V where
  command: "submission_do V c s = (r, s') \<Longrightarrow> submission_step V s s'"
| others: "submission_step V s (s\<lparr>rs_world := w\<rparr>)"

definition submission_reachable :: "'w submission \<Rightarrow> 'w sub_state \<Rightarrow> bool" where
  "submission_reachable V s \<longleftrightarrow> (\<exists>a w. (submission_step V)\<^sup>*\<^sup>* (submission_start a w) s)"

section \<open>Silent parts of the commands\<close>

lemma silent_get [silents]: "(\<And>s. keeps silent (f s)) \<Longrightarrow> keeps silent (get_op f)"
  unfolding keeps_def get_op_def by blast

lemma silent_case_prod [silents]: "(\<And>x y. keeps silent (f x y)) \<Longrightarrow> keeps silent (case p of (x, y) \<Rightarrow> f x y)"
  by (cases p) simp

lemma silent_submission_emit [silents]: "keeps silent (submission_emit V ev)"
  unfolding submission_emit_def by (intro silents)

lemmas submission_emit_tryE = silent_tryE [OF _ silent_submission_emit, consumes 1, case_names fail pass]

lemma silent_submission_bulk [silents]: "keeps silent (submission_bulk_check V u a)"
  by (cases "sv_bulk V") (auto simp: submission_bulk_check_def intro!: silents)

lemma silent_message_id [silents]: "keeps silent (with_message_id V u i parsed spooled)"
  unfolding with_message_id_def Let_def by (intro silents)

lemma silent_unsubscribe [silents]: "keeps silent (with_unsubscribe V n spooled)"
  unfolding with_unsubscribe_def by (intro silents)

text \<open>The lookup of the domain's policy changes what the session knows of it, and nothing else.\<close>

definition policy_known :: "'w sub_state \<Rightarrow> bool" where
  "policy_known s \<longleftrightarrow> (ss_domainPolicyLoaded (rs_session s) \<or> ss_domainPolicy (rs_session s) = None)"

definition policy_change :: "'w sub_state \<Rightarrow> 'w sub_state \<Rightarrow> bool" where
  "policy_change s s' \<longleftrightarrow> rs_calls s' = rs_calls s \<and> (policy_known s \<longrightarrow> policy_known s') \<and>
     clearDomainPolicy (rs_session s') = clearDomainPolicy (rs_session s)"

lemma policy_changeD:
  assumes "policy_change s s'"
  shows "rs_calls s' = rs_calls s" and "ss_user (rs_session s') = ss_user (rs_session s)"
    and "ss_from (rs_session s') = ss_from (rs_session s)" and "ss_recipients (rs_session s') = ss_recipients (rs_session s)"
    and "ss_dsn (rs_session s') = ss_dsn (rs_session s)" and "policy_known s \<Longrightarrow> policy_known s'"
proof -
  have eq: "clearDomainPolicy (rs_session s') = clearDomainPolicy (rs_session s)" using assms by (simp add: policy_change_def)
  note field = arg_cong [OF eq, unfolded clearDomainPolicy_def]
  show "ss_user (rs_session s') = ss_user (rs_session s)" using field [of ss_user] by simp
  show "ss_from (rs_session s') = ss_from (rs_session s)" using field [of ss_from] by simp
  show "ss_recipients (rs_session s') = ss_recipients (rs_session s)" using field [of ss_recipients] by simp
  show "ss_dsn (rs_session s') = ss_dsn (rs_session s)" using field [of ss_dsn] by simp
qed (use assms in \<open>auto simp: policy_change_def\<close>)

lemma policy_change_same: "rs_session s' = rs_session s \<Longrightarrow> rs_calls s' = rs_calls s \<Longrightarrow> policy_change s s'"
  by (simp add: policy_change_def policy_known_def)

lemma policy_change_trans: "transp policy_change"
  by (rule transpI) (auto simp: policy_change_def)

lemma policy_change_silent: "keeps silent m \<Longrightarrow> keeps policy_change m"
  by (auto intro!: keepsI policy_change_same dest: silentD)

lemma currentDomainPolicy_run:
  assumes "currentDomainPolicy V s = (r, s')"
  shows "policy_change s s' \<and> (\<exists>dp. r = Inr dp \<and> (policy_known s \<longrightarrow> dp = ss_domainPolicy (rs_session s')))"
proof (cases "ss_domainPolicyLoaded (rs_session s)")
  case True
  with assms show ?thesis
    by (auto simp: currentDomainPolicy_def get_op_def Let_def ok_op_def intro: policy_change_same)
next
  case False
  with assms show ?thesis
    by (auto simp: currentDomainPolicy_def get_op_def Let_def ok_op_def session_op_def update_op_def try_op_def call_op_def
        policy_change_def policy_known_def clearDomainPolicy_def split: option.splits if_splits prod.splits sum.splits)
qed

lemma policy_change_current: "keeps policy_change (currentDomainPolicy V)"
  by (auto intro!: keepsI dest: currentDomainPolicy_run)

lemma silent_spool [silents]: "keeps silent (spool_submission V n r dp)"
  unfolding spool_submission_def by (intro silents)

lemma prepare_submission_change: "keeps policy_change (prepare_submission V n r)"
  unfolding prepare_submission_def Let_def
  by (rule keeps_try_op [OF policy_change_trans policy_change_current], rule policy_change_silent) (intro silents)

lemma insertHeader_subseq:
  assumes "insertHeaderAfterTraceHeaders h s = Inr t"
  shows "subseq s t"
proof -
  from assms have t: "t = concat (trace_block False (file_lines s)) @ h @ concat (after_trace False (file_lines s))"
    by (auto simp: insertHeader_eq split: if_splits)
  have s: "s = concat (trace_block False (file_lines s)) @ concat (after_trace False (file_lines s))"
    using trace_block_append [of False "file_lines s"] concat_file_lines [of s] by (metis concat_append)
  show ?thesis by (subst s, subst t) (intro list_emb_append_mono subseq_order.refl list_emb_append2)
qed

lemma submittedMessageID_not_empty [simp]: "submittedMessageID random i a \<noteq> []"
  by (simp add: submittedMessageID_def Let_def)

lemma with_message_id_run:
  assumes "with_message_id V u i parsed sp s = (Inr (parsed', sp'), s')"
  shows "subseq sp sp' \<and> pm_MessageID parsed' \<noteq> []"
proof (cases "pm_MessageID parsed = []")
  case True
  with assms show ?thesis
    unfolding with_message_id_def Let_def
    by (auto elim!: try_op_InrE simp: pure_op_def ok_op_def res_err_def
        split: sum.splits dest: insertHeader_subseq)
next
  case False
  with assms show ?thesis by (simp add: with_message_id_def ok_op_def)
qed

lemma with_unsubscribe_run:
  assumes "with_unsubscribe V n sp s = (Inr sp', s')"
  shows "subseq sp sp'"
  using assms unfolding with_unsubscribe_def
  by (auto elim!: try_op_InrE simp: pure_op_def ok_op_def res_err_def split: if_splits sum.splits dest: insertHeader_subseq)

lemma spool_submission_content:
  assumes "spool_submission V n r dp s = (Inr p, s')"
  shows "\<exists>data. spoolMessage r (effectiveMaxBytes (pl_MaxBytes (sv_policy V)) dp) = Inr data \<and> subseq data (ps_Content p) \<and>
    pm_MessageID (ps_Parsed p) \<noteq> []"
proof -
  have received: "subseq sp sp'" if "(if c then try_op m (\<lambda>_. ok_op (prependHeaderToSpool h sp)) else ok_op sp) s1 = (Inr sp', s2)"
    for c h sp sp' s1 s2 and m :: "('a, unit) vop"
    using that by (auto elim!: try_op_InrE simp: ok_op_def prependHeaderToSpool_def split: if_splits intro: list_emb_append2)
  from assms show ?thesis
    unfolding spool_submission_def
    by (elim try_op_InrE)
       (auto simp: pure_op_def ok_op_def dest!: received with_message_id_run with_unsubscribe_run elim!: try_op_InrE
         intro: subseq_order.trans)
qed

section \<open>What DATA leaves in the history\<close>

definition submission_path :: "'w submission \<Rightarrow> submission_session \<Rightarrow> prepared_submission \<Rightarrow> string" where
  "submission_path V n p = BuildStoragePath (sv_format V) (submission_box (ss_user n)) (ps_ID p) (ps_SubmittedAt p)"

definition submission_put ::
    "'w submission \<Rightarrow> submission_session \<Rightarrow> prepared_submission \<Rightarrow> smtp_error option \<Rightarrow> submitted_message smtp_call" where
  "submission_put V n p r = CPut (submission_path V n p) (ps_Content p) r"

definition submission_record ::
    "'w submission \<Rightarrow> submission_session \<Rightarrow> prepared_submission \<Rightarrow> smtp_error option \<Rightarrow> submitted_message smtp_call" where
  "submission_record V n p r = CRecord (submitted_for n p (submission_path V n p)) r"

lemmas submission_call_defs = submission_put_def submission_record_def

text \<open>The calls made for a message, and whether DATA can succeed after them.\<close>

inductive submission_trace ::
    "'w submission \<Rightarrow> submission_session \<Rightarrow> prepared_submission \<Rightarrow> bool \<Rightarrow> submitted_message smtp_call list \<Rightarrow> bool" for V n p where
  not_stored: "submission_trace V n p False []"
| put_failed: "submission_trace V n p False [submission_put V n p (Some e)]"
| refused: "submission_trace V n p False [submission_put V n p None, CDelete (submission_path V n p)]"
| not_recorded: "submission_trace V n p False
    [submission_put V n p None, submission_record V n p (Some e), CDelete (submission_path V n p)]"
| recorded: "submission_trace V n p ok [submission_put V n p None, submission_record V n p None]"

inductive_simps submission_trace_done: "submission_trace V n p True cs"

lemma submission_trace_accepted:
  "submission_trace V n p True cs \<longleftrightarrow> cs = [submission_put V n p None, submission_record V n p None]"
  unfolding submission_trace_done by blast

lemma submission_path_not_blank: "go_TrimSpace (submission_path V n p) \<noteq> []"
  by (simp add: submission_path_def stored_path_not_blank)

lemma store_submission_trace:
  assumes "store_submission V n p s = (res, s')"
  shows "rs_session s' = rs_session s \<and>
    (\<exists>cs. rs_calls s' = rs_calls s @ cs \<and> submission_trace V n p (\<not> isl res) cs)"
  using assms unfolding store_submission_def Let_def submission_path_def [symmetric] submission_put_def [symmetric] submission_record_def [symmetric]
proof (cases rule: io_tryE)
  case (fail e)
  then show ?thesis by (auto intro: submission_trace.intros)
next
  case (pass u s1)
  obtain r w where fw: "sv_put V (submission_path V n p) (ps_Content p) (rs_world s1) = (r, w)"
    by (cases "sv_put V (submission_path V n p) (ps_Content p) (rs_world s1)")
  define s2 where "s2 = s1\<lparr>rs_world := w, rs_calls := rs_calls s1 @ [submission_put V n p r]\<rparr>"
  have s2: "rs_session s2 = rs_session s" "rs_calls s2 = rs_calls s @ [submission_put V n p r]"
    using pass(3,4) by (simp_all add: s2_def)
  show ?thesis
  proof (cases r)
    case None
    with pass(2) fw have "try_op (or_delete (sv_delete V) (submission_path V n p) id (submission_emit V (stored_event StageStored n p (submission_path V n p)))) (\<lambda>_.
      try_op (call_op (sv_record V (submitted_for n p (submission_path V n p)))) (\<lambda>r. try_op (note_op (submission_record V n p r)) (\<lambda>_.
      try_op (or_delete (sv_delete V) (submission_path V n p) (submitted_error (ss_user n)) (check_op r)) (\<lambda>_.
      submission_emit V (stored_event StageRecorded n p (submission_path V n p)))))) s2 = (res, s')"
      by (simp add: try_op_Inr call_op_def note_op_def update_op_def s2_def wrapped_err_def check_op_def ok_op_def)
    from after_put_run [OF this silent_submission_emit silent_submission_emit submission_path_not_blank] s2 None
    show ?thesis by (auto intro: submission_trace.intros)
  next
    case (Some e)
    with pass(2) fw have "res = Inl (WrapErr ''store submitted message: '' e) \<and> s' = s2"
      by (simp add: try_op_def call_op_def note_op_def update_op_def s2_def wrapped_err_def check_op_def fail_op_def)
    with s2 Some show ?thesis by (auto intro: submission_trace.intros)
  qed
qed

lemma submission_Data_cases:
  assumes "submission_Data V r s = (res, s')"
  obtains (refused) e where "res = Inl e" "s' = s"
    | (not_prepared) e s1 where "res = Inl e" "policy_change s s1" "rs_calls s' = rs_calls s1"
        "rs_session s' = clear_submission (rs_session s1)"
    | (prepared) p s1 cs where "prepare_submission V (rs_session s) r s = (Inr p, s1)" "policy_change s s1"
        "rs_calls s' = rs_calls s @ cs" "submission_trace V (rs_session s) p (\<not> isl res) cs"
        "rs_session s' = clear_submission (rs_session s1)" "su_UserID (ss_user (rs_session s)) \<noteq> []"
        "ss_from (rs_session s) \<noteq> []" "ss_recipients (rs_session s) \<noteq> []"
proof -
  let ?n = "rs_session s"
  let ?run = "try_op (prepare_submission V ?n r) (store_submission V ?n)"
  show ?thesis
  proof (cases "su_UserID (ss_user ?n) = [] \<or> ss_from ?n = [] \<or> ss_recipients ?n = []")
    case True
    with assms obtain e where "res = Inl e" "s' = s"
      by (auto simp: submission_Data_def get_op_def Let_def fail_op_def split: if_splits)
    then show ?thesis by (rule refused)
  next
    case False
    with assms have "then_session clear_submission ?run s = (res, s')"
      by (simp add: submission_Data_def get_op_def Let_def)
    then obtain s2 where s2: "?run s = (res, s2)" "s' = s2\<lparr>rs_session := clear_submission (rs_session s2)\<rparr>"
      by (auto simp: then_session_def split: prod.splits)
    from s2(1) show ?thesis
    proof (cases rule: try_opE)
      case (fail e)
      with keepsD [OF prepare_submission_change fail(1)] s2(2) show ?thesis by (intro not_prepared [of e s2]) simp_all
    next
      case (pass p s1)
      from keepsD [OF prepare_submission_change pass(1)] have ch: "policy_change s s1" .
      from store_submission_trace [OF pass(2)] policy_changeD(1) [OF ch] obtain cs
        where "rs_session s2 = rs_session s1" "rs_calls s2 = rs_calls s @ cs" "submission_trace V ?n p (\<not> isl res) cs" by auto
      with pass(1) ch s2(2) False show ?thesis by (intro prepared) simp_all
    qed
  qed
qed

section \<open>What the other commands do\<close>

lemma submission_Mail_run:
  assumes "submission_Mail V from opts s = (res, s')"
  shows "rs_calls s' = rs_calls s \<and>
    (rs_session s' = rs_session s \<or> rs_session s' = clear_submission (rs_session s) \<or>
     (\<exists>normalized. rs_session s' = (clear_submission (rs_session s))\<lparr>ss_from := normalized,
          ss_smtpUTF8 := mailOptionsUTF8 opts,
          ss_dsn := no_dsn\<lparr>sd_Return := normalizeDSNReturn opts, sd_EnvelopeID := normalizeDSNEnvelopeID opts\<rparr>\<rparr> \<and>
        submissionSenderAllowed normalized (ss_user (rs_session s)) \<and> su_UserID (ss_user (rs_session s)) \<noteq> []))"
proof (cases "su_UserID (ss_user (rs_session s)) = []")
  case True
  with assms show ?thesis by (simp add: submission_Mail_def get_op_def Let_def fail_op_def)
next
  case False
  let ?u = "ss_user (rs_session s)"
  let ?s1 = "s\<lparr>rs_session := clear_submission (rs_session s)\<rparr>"
  let ?checks = "try_op (check_op (validateMailOptions opts (sv_support V))) (\<lambda>_.
     try_op (check_op (validateAnnouncedMessageSize opts (pl_MaxBytes (sv_policy V)))) (\<lambda>_.
     try_op (pure_op (res_err (NormalizeAddress (sv_parse_address V) from))) (\<lambda>normalized.
     try_op (check_op (validateSMTPUTF8Address from normalized (mailOptionsUTF8 opts) (es_SMTPUTF8 (sv_support V)))) (\<lambda>_.
     ok_op normalized))))"
  let ?allowed = "\<lambda>normalized. if \<not> submissionSenderAllowed normalized ?u
     then fail_op (smtpPolicyReject ''mail from %q is not allowed for authenticated user'' [normalized])
     else try_op (submission_bulk_check V ?u from) (\<lambda>_.
     try_op (session_op (\<lambda>n. n\<lparr>ss_from := normalized, ss_smtpUTF8 := mailOptionsUTF8 opts,
       ss_dsn := (ss_dsn n)\<lparr>sd_Return := normalizeDSNReturn opts, sd_EnvelopeID := normalizeDSNEnvelopeID opts\<rparr>\<rparr>)) (\<lambda>_.
     get_op (\<lambda>s. submission_emit V (submission_event StageMailFrom (rs_session s)))))"
  have quiet: "keeps silent ?checks" by (intro silents)
  from False assms have "try_op ?checks ?allowed ?s1 = (res, s')"
    by (simp add: submission_Mail_def get_op_def Let_def session_op_def try_op_assoc try_op_ok)
  then show ?thesis
  proof (cases rule: try_opE)
    case (fail e)
    with silentD [OF quiet fail(1)] show ?thesis by simp
  next
    case (pass a s2)
    from silentD [OF quiet pass(1)] have s2: "rs_session s2 = clear_submission (rs_session s)" "rs_calls s2 = rs_calls s" by simp_all
    show ?thesis
    proof (cases "submissionSenderAllowed a ?u")
      case False
      with pass(2) s2 show ?thesis by (simp add: fail_op_def)
    next
      case True
      note allowed = this
      with pass(2) have "try_op (submission_bulk_check V ?u from) (\<lambda>_.
         try_op (session_op (\<lambda>n. n\<lparr>ss_from := a, ss_smtpUTF8 := mailOptionsUTF8 opts,
         ss_dsn := (ss_dsn n)\<lparr>sd_Return := normalizeDSNReturn opts, sd_EnvelopeID := normalizeDSNEnvelopeID opts\<rparr>\<rparr>)) (\<lambda>_.
         get_op (\<lambda>s. submission_emit V (submission_event StageMailFrom (rs_session s))))) s2 = (res, s')" by simp
      then show ?thesis
      proof (cases rule: silent_tryE [OF _ silent_submission_bulk, consumes 1, case_names fail pass])
        case (fail e)
        with s2 show ?thesis by simp
      next
        case (pass u s3)
        from pass(2) obtain ev where "submission_emit V ev (s3\<lparr>rs_session := (rs_session s3)\<lparr>ss_from := a,
           ss_smtpUTF8 := mailOptionsUTF8 opts, ss_dsn := (ss_dsn (rs_session s3))\<lparr>sd_Return := normalizeDSNReturn opts,
           sd_EnvelopeID := normalizeDSNEnvelopeID opts\<rparr>\<rparr>\<rparr>) = (res, s')"
          by (auto simp: session_op_def get_op_def)
        from silentD [OF silent_submission_emit this] pass(3,4) s2 allowed \<open>su_UserID ?u \<noteq> []\<close> show ?thesis
          by (auto simp: clear_submission_def)
      qed
    qed
  qed
qed

lemma submission_Rcpt_run:
  assumes "submission_Rcpt V a opts s = (res, s')"
  shows "\<exists>s1. policy_change s s1 \<and> rs_calls s' = rs_calls s \<and>
    (rs_session s' = rs_session s1 \<or>
     (\<exists>normalized d. NormalizeAddress (sv_parse_address V) a = Inr normalized \<and> ss_from (rs_session s) \<noteq> [] \<and>
        rs_session s' = (rs_session s1)\<lparr>ss_recipients := ss_recipients (rs_session s) @ [normalized], ss_dsn := d\<rparr>))"
proof (cases "su_UserID (ss_user (rs_session s)) = [] \<or> ss_from (rs_session s) = []")
  case True
  with assms have "s' = s" by (auto simp: submission_Rcpt_def get_op_def Let_def fail_op_def split: if_splits)
  then show ?thesis by (intro exI [of _ s]) (auto intro: policy_change_same)
next
  case False
  let ?n = "rs_session s"
  let ?finish = "\<lambda>dp. let maxRecipients = effectiveMaxRecipients (pl_MaxRecipients (sv_policy V)) dp in
     if maxRecipients \<le> int (length (ss_recipients ?n)) then fail_op (smtpTooManyRecipients maxRecipients)
     else
     try_op (pure_op (res_err (NormalizeAddress (sv_parse_address V) a))) (\<lambda>normalized.
     try_op (check_op (validateSMTPUTF8Address a normalized (ss_smtpUTF8 ?n) (es_SMTPUTF8 (sv_support V)))) (\<lambda>_.
     try_op (session_op (\<lambda>n. n\<lparr>ss_recipients := ss_recipients n @ [normalized],
       ss_dsn := (ss_dsn n)\<lparr>sd_Recipients := upsertDSNRecipientOption (sd_Recipients (ss_dsn n))
         (normalizeDSNRecipientOptions normalized opts)\<rparr>\<rparr>)) (\<lambda>_.
     get_op (\<lambda>s. submission_emit V (submission_event StageRcpt (rs_session s))))))"
  from False assms have "try_op (check_op (validateRcptOptions opts (sv_support V))) (\<lambda>_.
      try_op (currentDomainPolicy V) ?finish) s = (res, s')"
    by (simp add: submission_Rcpt_def get_op_def Let_def)
  then have "s' = s \<or> try_op (currentDomainPolicy V) ?finish s = (res, s')"
    by (cases "validateRcptOptions opts (sv_support V)") simp_all
  then show ?thesis
  proof
    assume "s' = s"
    then show ?thesis by (intro exI [of _ s]) (auto intro: policy_change_same)
  next
    assume "try_op (currentDomainPolicy V) ?finish s = (res, s')"
    then show ?thesis
    proof (cases rule: try_opE)
      case (fail e)
      with currentDomainPolicy_run [OF fail(1)] show ?thesis by simp
    next
      case (pass dp s1)
      from currentDomainPolicy_run [OF pass(1)] have ch: "policy_change s s1" by simp
      from pass(2) policy_changeD [OF ch] False show ?thesis
        by (intro exI [of _ s1] conjI ch)
           (auto simp: Let_def fail_op_def pure_op_def res_err_def session_op_def get_op_def try_op_def [of "pure_op _"]
             check_op_def ok_op_def try_op_def [of "check_op _"]
             split: if_splits sum.splits option.splits dest!: silentD [OF silent_submission_emit])
    qed
  qed
qed

section \<open>What holds in every reachable session\<close>

definition accepted_user :: "'w submission \<Rightarrow> submission_user \<Rightarrow> bool" where
  "accepted_user V user \<longleftrightarrow> \<not> su_MustChangePassword user \<and> (\<exists>i a p w w'. sv_authenticate V i a p w = (Inr user, w'))"

definition normalized_list :: "'w submission \<Rightarrow> string list \<Rightarrow> bool" where
  "normalized_list V rs \<longleftrightarrow> list_all (\<lambda>r. \<exists>raw. NormalizeAddress (sv_parse_address V) raw = Inr r) rs"

definition submitted_ok :: "'w submission \<Rightarrow> submitted_message \<Rightarrow> bool" where
  "submitted_ok V m \<longleftrightarrow> accepted_user V (sm_User m) \<and> submissionSenderAllowed (sm_EnvelopeFrom m) (sm_User m) \<and>
     sm_Recipients m \<noteq> [] \<and> normalized_list V (sm_Recipients m) \<and>
     int (length (sm_Recipients m)) \<le> pl_MaxRecipients (sv_policy V) \<and> pm_MessageID (sm_Parsed m) \<noteq> []"

definition submission_ok :: "'w submission \<Rightarrow> 'w sub_state \<Rightarrow> bool" where
  "submission_ok V s \<longleftrightarrow> (let n = rs_session s; cs = rs_calls s in
     (su_UserID (ss_user n) \<noteq> [] \<longrightarrow> accepted_user V (ss_user n)) \<and>
     (ss_from n \<noteq> [] \<longrightarrow> su_UserID (ss_user n) \<noteq> [] \<and> submissionSenderAllowed (ss_from n) (ss_user n)) \<and>
     (ss_recipients n \<noteq> [] \<longrightarrow> ss_from n \<noteq> []) \<and> normalized_list V (ss_recipients n) \<and>
     (\<forall>m r. CRecord m r \<in> set cs \<longrightarrow> submitted_ok V m) \<and> no_orphans sm_StoragePath cs)"

lemma submission_ok_fields:
  assumes "submission_ok V s" and "ss_user (rs_session s') = ss_user (rs_session s)"
    and "ss_from (rs_session s') = ss_from (rs_session s) \<and> ss_recipients (rs_session s') = ss_recipients (rs_session s) \<or>
         ss_from (rs_session s') = [] \<and> ss_recipients (rs_session s') = []"
    and "rs_calls s' = rs_calls s"
  shows "submission_ok V s'"
  using assms by (auto simp: submission_ok_def Let_def normalized_list_def)

lemma submission_ok_change: "submission_ok V s \<Longrightarrow> policy_change s s' \<Longrightarrow> submission_ok V s'"
  by (erule submission_ok_fields) (simp_all add: policy_changeD)

lemma submission_Mail_ok:
  assumes "submission_ok V s" and "submission_Mail V from opts s = (res, s')"
  shows "submission_ok V s'"
proof -
  from submission_Mail_run [OF assms(2)] have calls: "rs_calls s' = rs_calls s" by simp
  from submission_Mail_run [OF assms(2)] consider "rs_session s' = rs_session s" | "rs_session s' = clear_submission (rs_session s)"
    | a u d where "rs_session s' = (clear_submission (rs_session s))\<lparr>ss_from := a, ss_smtpUTF8 := u, ss_dsn := d\<rparr>"
        "submissionSenderAllowed a (ss_user (rs_session s))" "su_UserID (ss_user (rs_session s)) \<noteq> []" by blast
  then show ?thesis
  proof cases
    case 3
    with assms(1) calls show ?thesis by (auto simp: submission_ok_def Let_def clear_submission_def normalized_list_def)
  qed (use assms(1) calls in \<open>auto simp: clear_submission_def intro: submission_ok_fields\<close>)
qed

lemma submission_Rcpt_ok:
  assumes "submission_ok V s" and "submission_Rcpt V a opts s = (res, s')"
  shows "submission_ok V s'"
proof -
  from submission_Rcpt_run [OF assms(2)] obtain s1 where s1: "policy_change s s1" "rs_calls s' = rs_calls s"
    "rs_session s' = rs_session s1 \<or> (\<exists>normalized d. NormalizeAddress (sv_parse_address V) a = Inr normalized \<and>
        ss_from (rs_session s) \<noteq> [] \<and>
        rs_session s' = (rs_session s1)\<lparr>ss_recipients := ss_recipients (rs_session s) @ [normalized], ss_dsn := d\<rparr>)" by blast
  from policy_changeD [OF s1(1)] s1(2,3) assms(1) show ?thesis
    by (auto simp: submission_ok_def Let_def normalized_list_def)
qed

lemma submission_trace_orphans: "submission_trace V n p ok cs \<Longrightarrow> no_orphans sm_StoragePath cs"
  by (induction rule: submission_trace.induct)
     (simp_all add: submission_call_defs submitted_for_def no_orphans_def)

lemma submission_trace_record: "submission_trace V n p ok cs \<Longrightarrow> CRecord m r \<in> set cs \<Longrightarrow>
    m = submitted_for n p (submission_path V n p)"
  by (induction rule: submission_trace.induct) (auto simp: submission_call_defs)

lemma effectiveMaxRecipients_le: "effectiveMaxRecipients k dp \<le> k"
  by (simp add: effectiveMaxRecipients_def split: option.splits)

lemma prepare_submission_content:
  assumes "prepare_submission V n r s = (Inr p, s')" and "policy_known s"
  shows "\<exists>data dp. dp = ss_domainPolicy (rs_session s') \<and>
    spoolMessage r (effectiveMaxBytes (pl_MaxBytes (sv_policy V)) dp) = Inr data \<and> subseq data (ps_Content p) \<and>
    int (length (ss_recipients n)) \<le> effectiveMaxRecipients (pl_MaxRecipients (sv_policy V)) dp \<and>
    pm_MessageID (ps_Parsed p) \<noteq> []"
proof -
  from assms(1) obtain dp s1 where dp: "currentDomainPolicy V s = (Inr dp, s1)"
    and rest: "(if effectiveMaxRecipients (pl_MaxRecipients (sv_policy V)) dp < int (length (ss_recipients n))
       then fail_op (smtpTooManyRecipients (effectiveMaxRecipients (pl_MaxRecipients (sv_policy V)) dp))
       else spool_submission V n r dp) s1 = (Inr p, s')"
    by (auto simp: prepare_submission_def Let_def elim: try_op_InrE)
  from rest have run: "spool_submission V n r dp s1 = (Inr p, s')"
    and fits: "int (length (ss_recipients n)) \<le> effectiveMaxRecipients (pl_MaxRecipients (sv_policy V)) dp"
    by (auto simp: fail_op_def split: if_splits)
  from silentD [OF silent_spool run] currentDomainPolicy_run [OF dp] assms(2)
  have "dp = ss_domainPolicy (rs_session s')" by simp
  with spool_submission_content [OF run] fits show ?thesis by blast
qed

lemma submission_Data_ok:
  assumes "submission_ok V s" and "policy_known s" and "submission_Data V r s = (res, s')"
  shows "submission_ok V s'"
  using assms(3)
proof (cases rule: submission_Data_cases)
  case refused
  with assms(1) show ?thesis by simp
next
  case (not_prepared e s1)
  with submission_ok_change [OF assms(1) not_prepared(2)] show ?thesis
    by (auto simp: clear_submission_def intro: submission_ok_fields)
next
  case (prepared p s1 cs)
  let ?n = "rs_session s"
  from prepare_submission_content [OF prepared(1) assms(2)] effectiveMaxRecipients_le
  have p: "int (length (ss_recipients ?n)) \<le> pl_MaxRecipients (sv_policy V)" "pm_MessageID (ps_Parsed p) \<noteq> []"
    by (auto intro: order_trans)
  have "submitted_ok V (submitted_for ?n p path)" for path
    using p prepared(6,7,8) assms(1) by (simp add: submitted_ok_def submitted_for_def submission_ok_def Let_def)
  then have "CRecord m r \<in> set cs \<Longrightarrow> submitted_ok V m" for m r
    using submission_trace_record [OF prepared(4)] by metis
  with prepared(3,5) policy_changeD(2) [OF prepared(2)] submission_trace_orphans [OF prepared(4)] assms(1) show ?thesis
    by (auto simp: submission_ok_def Let_def clear_submission_def normalized_list_def intro: no_orphans_append)
qed

definition submission_inv :: "'w submission \<Rightarrow> 'w sub_state \<Rightarrow> bool" where
  "submission_inv V s \<longleftrightarrow> submission_ok V s \<and> policy_known s"

lemma policy_known_same: "rs_session s' = rs_session s \<Longrightarrow> policy_known s' = policy_known s"
  by (simp add: policy_known_def)

lemma submission_policy_known:
  assumes "policy_known s"
  shows "submission_Mail V from opts s = (res, s') \<Longrightarrow> policy_known s'"
    and "submission_Rcpt V a ropts s = (res, s') \<Longrightarrow> policy_known s'"
    and "submission_Data V r s = (res, s') \<Longrightarrow> policy_known s'"
proof -
  show "submission_Mail V from opts s = (res, s') \<Longrightarrow> policy_known s'"
    using assms by (auto dest!: submission_Mail_run simp: policy_known_def clear_submission_def)
  show "submission_Rcpt V a ropts s = (res, s') \<Longrightarrow> policy_known s'"
    using assms by (auto dest!: submission_Rcpt_run dest: policy_changeD(6) simp: policy_known_def)
  show "submission_Data V r s = (res, s') \<Longrightarrow> policy_known s'"
    using assms by (auto elim!: submission_Data_cases dest!: policy_changeD(6) simp: policy_known_def clear_submission_def)
qed

lemma submission_login_run:
  assumes "submission_auth_plain V i a p s = (res, s')"
  shows "(\<exists>cs. set cs \<subseteq> {CAuth a True, CAuth a False} \<and> rs_calls s' = rs_calls s @ cs) \<and>
    (rs_session s' = rs_session s \<or>
     (\<exists>user. accepted_user V user \<and> rs_session s' = clearDomainPolicy ((rs_session s)\<lparr>ss_user := user\<rparr>)))"
proof -
  obtain r w where auth: "sv_authenticate V i a p (rs_world s) = (r, w)" by (cases "sv_authenticate V i a p (rs_world s)")
  have refused: ?thesis if "s' = s\<lparr>rs_world := w, rs_calls := rs_calls s @ [CAuth a False]\<rparr>"
    using that by auto
  show ?thesis
  proof (cases r)
    case (Inl e)
    with assms auth show ?thesis
      by (intro refused) (simp add: submission_auth_plain_def try_op_Inr call_op_def note_op_def fail_op_def)
  next
    case (Inr user)
    show ?thesis
    proof (cases "su_MustChangePassword user")
      case True
      with assms auth Inr show ?thesis
        by (intro refused) (simp add: submission_auth_plain_def try_op_Inr call_op_def note_op_def fail_op_def)
    next
      case False
      let ?s1 = "s\<lparr>rs_world := w\<rparr>"
      from assms auth Inr False obtain ev where "try_op (submission_emit V ev) (\<lambda>_. try_op (note_op (CAuth a True)) (\<lambda>_.
          session_op (\<lambda>n. clearDomainPolicy (n\<lparr>ss_user := user\<rparr>)))) ?s1 = (res, s')"
        by (auto simp: submission_auth_plain_def try_op_Inr call_op_def)
      then show ?thesis
      proof (cases rule: submission_emit_tryE)
        case (fail e)
        then show ?thesis by (auto intro: exI [of _ "[]"])
      next
        case (pass u s1)
        moreover have "accepted_user V user" using auth Inr False unfolding accepted_user_def by blast
        ultimately show ?thesis
          by (intro conjI exI [of _ "[CAuth a True]"] disjI2 exI [of _ user])
             (auto simp: note_op_def session_op_def update_op_def)
      qed
    qed
  qed
qed

lemma submission_login_inv:
  assumes "submission_inv V s" and "submission_do V (SubAuth mech i a p) s = (res, s')"
  shows "submission_inv V s'"
proof (cases "su_UserID (ss_user (rs_session s)) = []")
  case False
  with assms show ?thesis by (auto simp: submission_Auth_def get_op_def fail_op_def try_op_def split: if_splits)
next
  case True
  then have empty: "ss_from (rs_session s) = []" "ss_recipients (rs_session s) = []"
    using assms(1) by (auto simp: submission_inv_def submission_ok_def Let_def)
  from assms(2) True have "s' = s \<or> submission_auth_plain V i a p s = (res, s')"
    by (auto simp: submission_Auth_def get_op_def fail_op_def ok_op_def try_op_def split: if_splits)
  then show ?thesis
  proof
    assume run: "submission_auth_plain V i a p s = (res, s')"
    obtain cs where cs: "set cs \<subseteq> {CAuth a True, CAuth a False}" "rs_calls s' = rs_calls s @ cs"
      using submission_login_run [OF run] by blast
    from cs(1) have "settled sm_StoragePath cs None" by (induction cs) auto
    with cs assms(1) have calls: "no_orphans sm_StoragePath (rs_calls s')" "\<forall>m r. CRecord m r \<in> set (rs_calls s') \<longrightarrow> submitted_ok V m"
      by (auto simp: submission_inv_def submission_ok_def Let_def no_orphans_def intro: settled_append)
    have "rs_session s' = rs_session s \<or>
        (\<exists>user. accepted_user V user \<and> rs_session s' = clearDomainPolicy ((rs_session s)\<lparr>ss_user := user\<rparr>))"
      using submission_login_run [OF run] by blast
    then show ?thesis
    proof (elim disjE exE conjE)
      assume "rs_session s' = rs_session s"
      with assms(1) calls show ?thesis by (simp add: submission_inv_def submission_ok_def Let_def policy_known_def)
    next
      fix user
      assume "accepted_user V user" "rs_session s' = clearDomainPolicy ((rs_session s)\<lparr>ss_user := user\<rparr>)"
      with calls empty show ?thesis
        by (simp add: submission_inv_def submission_ok_def Let_def policy_known_def clearDomainPolicy_def normalized_list_def)
    qed
  qed (use assms(1) in simp)
qed

lemma submission_Logout_inv:
  assumes "submission_inv V s" and "submission_Logout s = (res, s')"
  shows "submission_inv V s'"
proof -
  from assms(2) have s': "rs_calls s' = rs_calls s" "rs_session s' = clearDomainPolicy ((clear_submission (rs_session s))\<lparr>ss_user := no_user\<rparr>)"
    by (auto simp: submission_Logout_def session_op_def update_op_def)
  from assms(1) show ?thesis
    unfolding submission_inv_def submission_ok_def Let_def policy_known_def s'
    by (simp add: clear_submission_def clearDomainPolicy_def normalized_list_def no_user_def)
qed

lemma submission_do_inv:
  assumes "submission_inv V s" and "submission_do V c s = (res, s')"
  shows "submission_inv V s'"
proof (cases c)
  case (SubAuth mech i a p)
  with assms show ?thesis using submission_login_inv by metis
next
  case SubReset
  with assms show ?thesis
    by (auto simp: submission_inv_def submission_Reset_def session_op_def update_op_def policy_known_def clear_submission_def
        intro: submission_ok_fields)
next
  case SubLogout
  with assms submission_Logout_inv show ?thesis by (metis submission_do.simps(6))
qed (use assms submission_policy_known in \<open>auto simp: submission_inv_def
       intro: submission_Mail_ok submission_Rcpt_ok submission_Data_ok\<close>)

lemma submission_inv_reachable:
  assumes "submission_reachable V s"
  shows "submission_inv V s"
proof -
  from assms obtain a w where "(submission_step V)\<^sup>*\<^sup>* (submission_start a w) s" by (auto simp: submission_reachable_def)
  then show ?thesis
  proof (induction rule: rtranclp_induct)
    case base
    show ?case
      by (simp add: submission_inv_def submission_ok_def submission_start_def no_user_def policy_known_def normalized_list_def)
  next
    case (step s1 s2)
    from step.hyps(2) show ?case
    proof cases
      case (command c r)
      then show ?thesis using step.IH by (auto intro: submission_do_inv)
    next
      case (others w)
      then show ?thesis using step.IH by (simp add: submission_inv_def submission_ok_def policy_known_def)
    qed
  qed
qed

section \<open>A small world\<close>

text \<open>One user, every password accepted, and the messages that were recorded as the world; nothing else ever fails.\<close>

definition small_user :: submission_user where
  "small_user = no_user\<lparr>su_CompanyID := ''c'', su_DomainID := ''d'', su_UserID := ''u'', su_Address := ''kim@a.kr''\<rparr>"

definition small_submission :: "submitted_message list submission" where
  "small_submission =
     \<lparr>sv_put = \<lambda>_ _ w. (None, w), sv_delete = \<lambda>_ w. (None, w), sv_authenticate = \<lambda>_ _ _ w. (Inr small_user, w),
      sv_record = \<lambda>m w. (None, w @ [m]), sv_domain_policy = Some (\<lambda>_ w. (Inl (PlainErr ''down''), w)), sv_bulk = None,
      sv_hooks = [\<lambda>ev w. (if se_Stage ev = StageRcpt \<and> ''bad@x.kr'' \<in> set (se_Recipients ev) then Some (PlainErr ''denied'') else None, w)],
      sv_id = \<lambda>w. (''m1'', w), sv_clock = \<lambda>w. (0, w), sv_random = \<lambda>w. ([], w), sv_io = \<lambda>_ w. (None, w),
      sv_support = all_extensions, sv_addReceivedHeader = False, sv_receivedDomain = [],
      sv_policy = \<lparr>pl_MaxRecipients = 100, pl_MaxBytes = 1000\<rparr>, sv_parse_address = \<lambda>s. Some s,
      sv_parse_message = \<lambda>_. Inr \<lparr>pm_MessageID = ''<1@b>'', pm_Subject = [], pm_Date = 0,
        pm_From = \<lparr>pa_Name = [], pa_Address = ''kim@a.kr''\<rparr>, pm_To = [], pm_Cc = [], pm_Bcc = [], pm_InReplyTo = [], pm_References = [], pm_HasAttachment = False\<rparr>,
      sv_format = sample_format\<rparr>"

fun submission_commands ::
    "'w submission \<Rightarrow> submission_command list \<Rightarrow> 'w sub_state \<Rightarrow> (smtp_error + unit) list \<times> 'w sub_state" where
  "submission_commands V [] s = ([], s)"
| "submission_commands V (c # cs) s =
     (case submission_do V c s of (r, s1) \<Rightarrow> (case submission_commands V cs s1 of (rs, s2) \<Rightarrow> (r # rs, s2)))"

lemma submission_commands_reachable:
  "submission_reachable V s \<Longrightarrow> submission_reachable V (snd (submission_commands V cs s))"
proof (induction cs arbitrary: s)
  case (Cons c cs)
  obtain r s1 where run: "submission_do V c s = (r, s1)" by (cases "submission_do V c s")
  with Cons.prems have "submission_reachable V s1"
    unfolding submission_reachable_def by (meson rtranclp.rtrancl_into_rtrancl submission_step.command)
  from Cons.IH [OF this] run show ?case by (cases "submission_commands V cs s1") simp
qed simp

definition submission_ready :: "submitted_message list sub_state" where
  "submission_ready = snd (submission_commands small_submission
     [SubAuth ''plain'' [] ''kim'' ''pw'', SubMail ''kim@a.kr'' None, SubRcpt ''lee@x.kr'' None] (submission_start ''1.2.3.4'' []))"

lemma submission_start_reachable: "submission_reachable V (submission_start a w)"
  by (auto simp: submission_reachable_def)

lemma submission_ready_reachable: "submission_reachable small_submission submission_ready"
  unfolding submission_ready_def by (rule submission_commands_reachable [OF submission_start_reachable])

section \<open>Properties\<close>

text \<open>
  C8. Only what a user may send is submitted. In every reachable state of a session, whatever happens in the
  world between its commands, each message that was handed to the recorder belongs to a user the authenticator accepted
  and who need not change the password; its envelope sender is an address of that user; it has recipients, all
  normalised and not more than the policy allows, and a message id. The same holds for the envelope under
  construction, and every object written to the store is recorded, or deleted again, before anything else happens.
\<close>

theorem submission_is_safe:
  assumes "submission_reachable V s"
  shows "(\<forall>m r. CRecord m r \<in> set (rs_calls s) \<longrightarrow> submitted_ok V m) \<and>
    (ss_from (rs_session s) \<noteq> [] \<longrightarrow>
       accepted_user V (ss_user (rs_session s)) \<and> submissionSenderAllowed (ss_from (rs_session s)) (ss_user (rs_session s))) \<and>
    (ss_recipients (rs_session s) \<noteq> [] \<longrightarrow> ss_from (rs_session s) \<noteq> []) \<and>
    no_orphans sm_StoragePath (rs_calls s)"
  using submission_inv_reachable [OF assms] unfolding submission_inv_def submission_ok_def Let_def by blast

theorem submission_is_safe_witness: "accepted_user small_submission (ss_user (rs_session submission_ready))"
proof -
  have "ss_from (rs_session submission_ready) \<noteq> []" by code_simp
  with submission_is_safe [OF submission_ready_reachable] show ?thesis by blast
qed

text \<open>
  C14. A message that DATA accepts is stored and handed to the recorder. If DATA answers without an error in a
  reachable session, the reader ended without one and within the limits of the service and the domain, the calls made are
  exactly one object stored and one record of it, both without an error; the record has the envelope of the
  session, the path and the size of the object, and a message id, and the client's bytes are all in the object in
  their order. The envelope is cleared.
\<close>

theorem accepted_submission_is_stored:
  assumes "submission_reachable V s" and "submission_Data V (data, err) s = (Inr (), s')"
  shows "err = None \<and> ss_from (rs_session s') = [] \<and> ss_recipients (rs_session s') = [] \<and>
    (\<exists>p dp. rs_calls s' = rs_calls s @ [submission_put V (rs_session s) p None, submission_record V (rs_session s) p None] \<and>
       subseq data (ps_Content p) \<and> pm_MessageID (ps_Parsed p) \<noteq> [] \<and>
       int (length data) \<le> effectiveMaxBytes (pl_MaxBytes (sv_policy V)) dp \<and>
       int (length (ss_recipients (rs_session s))) \<le> effectiveMaxRecipients (pl_MaxRecipients (sv_policy V)) dp \<and>
       dp = ss_domainPolicy (rs_session s'))"
  using assms(2)
proof (cases rule: submission_Data_cases)
  case (prepared p s1 cs)
  have "policy_known s" using submission_inv_reachable [OF assms(1)] by (simp add: submission_inv_def)
  from prepare_submission_content [OF prepared(1) this] obtain spooled where
    sp: "spoolMessage (data, err) (effectiveMaxBytes (pl_MaxBytes (sv_policy V)) (ss_domainPolicy (rs_session s1))) = Inr spooled"
    and p: "subseq spooled (ps_Content p)" "pm_MessageID (ps_Parsed p) \<noteq> []"
      "int (length (ss_recipients (rs_session s))) \<le> effectiveMaxRecipients (pl_MaxRecipients (sv_policy V)) (ss_domainPolicy (rs_session s1))"
    by blast
  from sp have "err = None" "spooled = data"
    "int (length data) \<le> effectiveMaxBytes (pl_MaxBytes (sv_policy V)) (ss_domainPolicy (rs_session s1))"
    by (auto simp: spoolMessage_def split: if_splits option.splits)
  with p prepared(3,4,5) show ?thesis
    by (auto simp: clear_submission_def submission_trace_accepted intro!: exI [of _ p])
qed auto

theorem accepted_submission_is_stored_witness:
  "\<exists>p. rs_calls (snd (submission_Data small_submission (''hello'', None) submission_ready)) =
     rs_calls submission_ready @ [submission_put small_submission (rs_session submission_ready) p None,
       submission_record small_submission (rs_session submission_ready) p None] \<and> subseq ''hello'' (ps_Content p)"
proof -
  have "fst (submission_Data small_submission (''hello'', None) submission_ready) = Inr ()" by code_simp
  then have "submission_Data small_submission (''hello'', None) submission_ready =
      (Inr (), snd (submission_Data small_submission (''hello'', None) submission_ready))" by (simp add: prod_eq_iff)
  from accepted_submission_is_stored [OF submission_ready_reachable this] show ?thesis by blast
qed

text \<open>
  A recipient that a hook refuses is mailed all the same: RCPT adds the address to the envelope before the
  hooks are asked, and leaves it there when one refuses. The client sees the error for that recipient,
  goes on with the others, and DATA records the message for all of them.
\<close>

theorem refused_recipient_is_mailed:
  "let run = submission_commands small_submission
       [SubRcpt ''bad@x.kr'' None, SubData (''hello'', None)] submission_ready
   in fst run = [Inl (WrapErr ''submission hook rcpt: '' (PlainErr ''denied'')), Inr ()] \<and>
      map sm_Recipients (rs_world (snd run)) = [[''lee@x.kr'', ''bad@x.kr'']]"
  by code_simp

text \<open>
  When the lookup of the domain's policy fails, the domain has no limits: the failure is
  remembered as the absence of a policy, and as long as the login lasts every later question gets the same answer without
  another lookup, whatever the world is by then.
\<close>

theorem failed_lookup_lifts_limits:
  assumes "sv_domain_policy V = Some lookup" and "su_DomainID (ss_user (rs_session s)) \<noteq> []"
    and "\<not> ss_domainPolicyLoaded (rs_session s)" and "ss_domainPolicy (rs_session s) = None"
    and "lookup (su_DomainID (ss_user (rs_session s))) (rs_world s) = (Inl e, w)"
  shows "\<exists>s'. currentDomainPolicy V s = (Inr None, s') \<and>
    (\<forall>w'. currentDomainPolicy V (s'\<lparr>rs_world := w'\<rparr>) = (Inr None, s'\<lparr>rs_world := w'\<rparr>)) \<and>
    effectiveMaxRecipients k None = k \<and> effectiveMaxBytes b None = b"
  using assms
  by (simp add: currentDomainPolicy_def get_op_def Let_def session_op_def update_op_def try_op_def call_op_def ok_op_def
      effectiveMaxRecipients_def effectiveMaxBytes_def)

theorem failed_lookup_lifts_limits_witness:
  "\<exists>s'. currentDomainPolicy small_submission
     (snd (submission_commands small_submission [SubAuth ''plain'' [] ''kim'' ''pw''] (submission_start ''1.2.3.4'' []))) = (Inr None, s')"
proof -
  let ?s = "snd (submission_commands small_submission [SubAuth ''plain'' [] ''kim'' ''pw''] (submission_start ''1.2.3.4'' []))"
  have lookup: "sv_domain_policy small_submission = Some (\<lambda>_ w. (Inl (PlainErr ''down''), w))" by (simp add: small_submission_def)
  have "su_DomainID (ss_user (rs_session ?s)) \<noteq> []" "\<not> ss_domainPolicyLoaded (rs_session ?s)" "ss_domainPolicy (rs_session ?s) = None"
    by code_simp+
  from failed_lookup_lifts_limits [OF lookup this] show ?thesis by blast
qed

end
