(* ===== verification/MailQuota.thy ===== *)
theory MailQuota
  imports StateOps SmtpEnvelope
begin

text \<open>
  The quota ledgers of the mail database (\<open>internal/maildb/quota.go\<close>): every user, domain and company has the
  bytes it uses and a limit, 0 for none; a message is charged to all three in the transaction that records it.
  The sums of the quota check are not wrapped to 64 bits as in Go: where they would wrap, the column refuses the update. The
  tables are lists of rows with a unique id. \<open>fails\<close> gives the error of the statements that the database
  refuses. A transaction is an operation whose changes are dropped when it ends in an error.
\<close>

section \<open>The tables\<close>

record quota_row =
  q_id :: string
  q_parent :: string \<comment> \<open>the domain of a user, the company of a domain\<close>
  q_used :: int
  q_limit :: int \<comment> \<open>\<open>COALESCE(quota_limit, 0)\<close>\<close>
  q_active :: bool \<comment> \<open>\<open>status = 'active'\<close>\<close>

record quota_db =
  qd_users :: "quota_row list"
  qd_domains :: "quota_row list"
  qd_companies :: "quota_row list"

type_synonym 'x quota_state = "'x quota_db_scheme"
type_synonym ('x, 'a) dop = "('x quota_db_scheme, smtp_error, 'a) op"

definition find_row :: "string \<Rightarrow> quota_row list \<Rightarrow> quota_row option" where
  "find_row i rows = find (\<lambda>r. q_id r = i) rows"

text \<open>\<open>UPDATE ... SET quota_used = f(quota_used) WHERE id = $1\<close>\<close>

definition update_used :: "string \<Rightarrow> (int \<Rightarrow> int) \<Rightarrow> quota_row list \<Rightarrow> quota_row list" where
  "update_used i f rows = map (\<lambda>r. if q_id r = i then r\<lparr>q_used := f (q_used r)\<rparr> else r) rows"

text \<open>The join of a user with its domain and company.\<close>

definition ledgers :: "string \<Rightarrow> 'x quota_state \<Rightarrow> (quota_row \<times> quota_row \<times> quota_row) option" where
  "ledgers userID db =
     (case find_row userID (qd_users db) of None \<Rightarrow> None
      | Some u \<Rightarrow> (case find_row (q_parent u) (qd_domains db) of None \<Rightarrow> None
        | Some d \<Rightarrow> (case find_row (q_parent d) (qd_companies db) of None \<Rightarrow> None | Some c \<Rightarrow> Some (u, d, c))))"

section \<open>Statements and transactions\<close>

definition sql :: "(string \<Rightarrow> string option) \<Rightarrow> string \<Rightarrow> ('x quota_state \<Rightarrow> 'x quota_state) \<Rightarrow> ('x, unit) dop" where
  "sql fails what f =
     (case fails what of Some e \<Rightarrow> fail_op (WrapErr (what @ '': '') (PlainErr e)) | None \<Rightarrow> update_op f)"

definition query :: "(string \<Rightarrow> string option) \<Rightarrow> string \<Rightarrow> ('x quota_state \<Rightarrow> 'a) \<Rightarrow> ('x, 'a) dop" where
  "query fails what f =
     (case fails what of Some e \<Rightarrow> fail_op (WrapErr (what @ '': '') (PlainErr e)) | None \<Rightarrow> get_op (\<lambda>s. ok_op (f s)))"

definition in_transaction :: "('x, 'a) dop \<Rightarrow> ('x, 'a) dop" where
  "in_transaction m db = (case m db of (Inl e, _) \<Rightarrow> (Inl e, db) | (Inr a, db') \<Rightarrow> (Inr a, db'))"

section \<open>Charging and releasing\<close>

definition over_quota :: "int \<Rightarrow> quota_row \<Rightarrow> bool" where
  "over_quota amount r \<longleftrightarrow> 0 < q_limit r \<and> q_limit r < q_used r + amount"

definition adjust_ledgers ::
    "(string \<Rightarrow> string option) \<Rightarrow> string \<Rightarrow> string \<Rightarrow> string \<Rightarrow> string \<Rightarrow> (int \<Rightarrow> int) \<Rightarrow> ('x, unit) dop" where
  "adjust_ledgers fails verb userID domainID companyID f =
     try_op (sql fails (verb @ '' user quota'') (\<lambda>db. db\<lparr>qd_users := update_used userID f (qd_users db)\<rparr>)) (\<lambda>_.
     try_op (sql fails (verb @ '' domain quota'') (\<lambda>db. db\<lparr>qd_domains := update_used domainID f (qd_domains db)\<rparr>)) (\<lambda>_.
     sql fails (verb @ '' company quota'') (\<lambda>db. db\<lparr>qd_companies := update_used companyID f (qd_companies db)\<rparr>)))"

definition checkAndIncrementUserQuota :: "(string \<Rightarrow> string option) \<Rightarrow> string \<Rightarrow> int \<Rightarrow> ('x, unit) dop" where
  "checkAndIncrementUserQuota fails userID amount =
     (if amount \<le> 0 then ok_op ()
      else
      try_op (query fails ''read quota ledger'' (ledgers userID)) (\<lambda>found.
      case found of None \<Rightarrow> fail_op (PlainErr ''user not found for quota check'')
      | Some (u, d, c) \<Rightarrow>
          if over_quota amount u then fail_op (WrapErr ''user'' ErrMailboxFull)
          else if over_quota amount d then fail_op (WrapErr ''domain'' ErrMailboxFull)
          else if over_quota amount c then fail_op (WrapErr ''company'' ErrMailboxFull)
          else adjust_ledgers fails ''increment'' userID (q_id d) (q_id c) (\<lambda>used. used + amount)))"

definition released :: "int \<Rightarrow> int \<Rightarrow> int" where
  "released amount used = max 0 (used - amount)"

definition decrementUserQuota :: "(string \<Rightarrow> string option) \<Rightarrow> string \<Rightarrow> int \<Rightarrow> ('x, unit) dop" where
  "decrementUserQuota fails userID amount =
     (if amount \<le> 0 then ok_op ()
      else
      try_op (query fails ''read quota ledger for decrement'' (ledgers userID)) (\<lambda>found.
      case found of None \<Rightarrow> fail_op (PlainErr ''user not found for quota decrement'')
      | Some (u, d, c) \<Rightarrow> adjust_ledgers fails ''decrement'' userID (q_id d) (q_id c) (released amount)))"

text \<open>
  \<open>decrementUserQuotasSQL\<close>: the bytes per user, per domain and per company, each table updated once. A
  user that does not exist counts for nothing.
\<close>

definition user_usage :: "(string \<times> int) list \<Rightarrow> string \<Rightarrow> int" where
  "user_usage input i = sum_list (map snd (filter (\<lambda>(u, bytes). u = i \<and> 0 < bytes) input))"

definition domain_usage :: "(string \<times> int) list \<Rightarrow> quota_row list \<Rightarrow> string \<Rightarrow> int" where
  "domain_usage input users i = sum_list (map (\<lambda>u. user_usage input (q_id u)) (filter (\<lambda>u. q_parent u = i) users))"

definition company_usage :: "(string \<times> int) list \<Rightarrow> quota_row list \<Rightarrow> quota_row list \<Rightarrow> string \<Rightarrow> int" where
  "company_usage input users domains i =
     sum_list (map (\<lambda>d. domain_usage input users (q_id d)) (filter (\<lambda>d. q_parent d = i) domains))"

definition release_rows :: "(string \<Rightarrow> int) \<Rightarrow> quota_row list \<Rightarrow> quota_row list" where
  "release_rows usage rows =
     map (\<lambda>r. if usage (q_id r) = 0 then r else r\<lparr>q_used := released (usage (q_id r)) (q_used r)\<rparr>) rows"

definition decrement_quotas_sql :: "(string \<times> int) list \<Rightarrow> 'x quota_state \<Rightarrow> 'x quota_state" where
  "decrement_quotas_sql input db =
     db\<lparr>qd_users := release_rows (user_usage input) (qd_users db),
        qd_domains := release_rows (domain_usage input (qd_users db)) (qd_domains db),
        qd_companies := release_rows (company_usage input (qd_users db) (qd_domains db)) (qd_companies db)\<rparr>"

definition decrementUserQuotas :: "(string \<Rightarrow> string option) \<Rightarrow> string list \<Rightarrow> int list \<Rightarrow> ('x, unit) dop" where
  "decrementUserQuotas fails userIDs sizes =
     (if userIDs = [] \<or> sizes = [] then ok_op ()
      else if length userIDs \<noteq> length sizes then fail_op (PlainErr ''quota decrement input length mismatch'')
      else sql fails ''decrement quota ledgers'' (decrement_quotas_sql (zip userIDs sizes)))"

section \<open>Lemmas on the tables\<close>

definition row_ids :: "quota_row list \<Rightarrow> string list" where
  "row_ids rows = map q_id rows"

definition used_below :: "string \<Rightarrow> quota_row list \<Rightarrow> int" where
  "used_below i rows = sum_list (map q_used (filter (\<lambda>r. q_parent r = i) rows))"

lemma find_rowD: "find_row i rows = Some r \<Longrightarrow> r \<in> set rows \<and> q_id r = i"
  by (auto simp: find_row_def find_Some_iff)

lemma row_ids_simps [simp]:
  "row_ids (update_used i f rows) = row_ids rows" "row_ids (release_rows g rows) = row_ids rows"
  by (simp_all add: row_ids_def update_used_def release_rows_def)

lemma find_row_update:
  "find_row j (update_used i f rows) =
     map_option (\<lambda>r. if j = i then r\<lparr>q_used := f (q_used r)\<rparr> else r) (find_row j rows)"
  by (induction rows) (auto simp: find_row_def update_used_def)

lemma update_absent: "i \<notin> set (row_ids rows) \<Longrightarrow> update_used i f rows = rows"
  by (induction rows) (auto simp: update_used_def row_ids_def)

lemma used_below_update:
  assumes "distinct (row_ids rows)"
  shows "used_below p (update_used i f rows) =
    used_below p rows + (case find_row i rows of None \<Rightarrow> 0 | Some r \<Rightarrow> if q_parent r = p then f (q_used r) - q_used r else 0)"
  using assms
proof (induction rows)
  case Nil
  show ?case by (simp add: used_below_def update_used_def find_row_def)
next
  case (Cons r rows)
  show ?case
  proof (cases "q_id r = i")
    case True
    with Cons.prems have "update_used i f rows = rows" by (intro update_absent) (simp add: row_ids_def)
    with True show ?thesis by (simp add: used_below_def update_used_def find_row_def)
  next
    case False
    with Cons show ?thesis by (simp add: used_below_def update_used_def find_row_def row_ids_def split: option.splits)
  qed
qed

text \<open>The ledgers agree with each other, and no limit is exceeded.\<close>

definition unique_ids :: "'x quota_state \<Rightarrow> bool" where
  "unique_ids db \<longleftrightarrow> distinct (row_ids (qd_users db)) \<and> distinct (row_ids (qd_domains db)) \<and> distinct (row_ids (qd_companies db))"

definition balanced :: "'x quota_state \<Rightarrow> bool" where
  "balanced db \<longleftrightarrow> unique_ids db \<and>
     list_all (\<lambda>d. q_used d = used_below (q_id d) (qd_users db)) (qd_domains db) \<and>
     list_all (\<lambda>c. q_used c = used_below (q_id c) (qd_domains db)) (qd_companies db)"

definition within_limits :: "'x quota_state \<Rightarrow> bool" where
  "within_limits db \<longleftrightarrow> list_all (\<lambda>r. q_limit r \<le> 0 \<or> q_used r \<le> q_limit r) (qd_users db @ qd_domains db @ qd_companies db)"

definition adjusted :: "string \<Rightarrow> string \<Rightarrow> string \<Rightarrow> (int \<Rightarrow> int) \<Rightarrow> 'x quota_state \<Rightarrow> 'x quota_state" where
  "adjusted u d c f db = db\<lparr>qd_users := update_used u f (qd_users db), qd_domains := update_used d f (qd_domains db),
     qd_companies := update_used c f (qd_companies db)\<rparr>"

lemma adjust_ledgers_run:
  assumes "adjust_ledgers fails verb u d c f db = (Inr (), db')"
  shows "db' = adjusted u d c f db"
  using assms
  by (auto simp: adjust_ledgers_def sql_def adjusted_def update_op_def try_op_def fail_op_def split: option.splits)

lemma ledgersD:
  assumes "ledgers i db = Some (u, d, c)"
  shows "find_row i (qd_users db) = Some u" and "find_row (q_id d) (qd_domains db) = Some d"
    and "find_row (q_id c) (qd_companies db) = Some c" and "q_parent u = q_id d" and "q_parent d = q_id c" and "q_id u = i"
proof -
  from assms have f: "find_row i (qd_users db) = Some u" "find_row (q_parent u) (qd_domains db) = Some d"
    "find_row (q_parent d) (qd_companies db) = Some c"
    by (auto simp: ledgers_def split: option.splits)
  with find_rowD [OF f(1)] find_rowD [OF f(2)] find_rowD [OF f(3)]
  show "find_row i (qd_users db) = Some u" "find_row (q_id d) (qd_domains db) = Some d"
    "find_row (q_id c) (qd_companies db) = Some c" "q_parent u = q_id d" "q_parent d = q_id c" "q_id u = i" by simp_all
qed

lemma list_all_update:
  assumes "distinct (row_ids rows)" and "find_row i rows = Some r" and "list_all P rows"
    and "P' (r\<lparr>q_used := f (q_used r)\<rparr>)" and "\<And>x. x \<in> set rows \<Longrightarrow> q_id x \<noteq> i \<Longrightarrow> P x \<Longrightarrow> P' x"
  shows "list_all P' (update_used i f rows)"
proof -
  have r: "r \<in> set rows" "q_id r = i" using find_rowD [OF assms(2)] by simp_all
  have "x = r" if "x \<in> set rows" "q_id x = i" for x
    using assms(1) that r by (auto simp: row_ids_def distinct_map inj_on_def)
  with assms(3,4,5) show ?thesis by (auto simp: list_all_iff update_used_def)
qed

text \<open>One amount on a user, the domain of the user and the company of the domain keeps the balance.\<close>

lemma balanced_adjusted:
  assumes "balanced db" and l: "ledgers i db = Some (u, d, c)" and "\<And>r. r \<in> {u, d, c} \<Longrightarrow> f (q_used r) = q_used r + k"
  shows "balanced (adjusted i (q_id d) (q_id c) f db)"
proof -
  note L = ledgersD [OF l]
  have dist: "distinct (row_ids (qd_users db))" "distinct (row_ids (qd_domains db))" "distinct (row_ids (qd_companies db))"
    and bal: "list_all (\<lambda>d. q_used d = used_below (q_id d) (qd_users db)) (qd_domains db)"
      "list_all (\<lambda>c. q_used c = used_below (q_id c) (qd_domains db)) (qd_companies db)"
    using assms(1) by (auto simp: balanced_def unique_ids_def)
  have f: "f (q_used u) - q_used u = k" "f (q_used d) = q_used d + k" "f (q_used c) = q_used c + k" using assms(3) by auto
  have bu: "used_below p (update_used i f (qd_users db)) = used_below p (qd_users db) + (if q_id d = p then k else 0)" for p
    using used_below_update [OF dist(1), of p i f] L f by simp
  have bd: "used_below p (update_used (q_id d) f (qd_domains db)) = used_below p (qd_domains db) + (if q_id c = p then k else 0)" for p
    using used_below_update [OF dist(2), of p "q_id d" f] L f by simp
  have "list_all (\<lambda>r. q_used r = used_below (q_id r) (update_used i f (qd_users db))) (update_used (q_id d) f (qd_domains db))"
    by (rule list_all_update [OF dist(2) L(2) bal(1)])
       (use bal(1) find_rowD [OF L(2)] f(2) in \<open>auto simp: bu list_all_iff\<close>)
  moreover have "list_all (\<lambda>r. q_used r = used_below (q_id r) (update_used (q_id d) f (qd_domains db))) (update_used (q_id c) f (qd_companies db))"
    by (rule list_all_update [OF dist(3) L(3) bal(2)])
       (use bal(2) find_rowD [OF L(3)] f(3) in \<open>auto simp: bd list_all_iff\<close>)
  ultimately show ?thesis using dist by (simp add: balanced_def unique_ids_def adjusted_def)
qed

lemma within_adjusted:
  assumes "balanced db" and "within_limits db" and l: "ledgers i db = Some (u, d, c)"
    and "\<And>r. r \<in> {u, d, c} \<Longrightarrow> q_limit r \<le> 0 \<or> f (q_used r) \<le> q_limit r"
  shows "within_limits (adjusted i (q_id d) (q_id c) f db)"
proof -
  let ?P = "\<lambda>r. q_limit r \<le> 0 \<or> q_used r \<le> q_limit r"
  note L = ledgersD [OF l]
  have dist: "distinct (row_ids (qd_users db))" "distinct (row_ids (qd_domains db))" "distinct (row_ids (qd_companies db))"
    using assms(1) by (auto simp: balanced_def unique_ids_def)
  have all: "list_all ?P (qd_users db)" "list_all ?P (qd_domains db)" "list_all ?P (qd_companies db)"
    using assms(2) by (auto simp: within_limits_def)
  have "list_all ?P (update_used i f (qd_users db))"
    by (rule list_all_update [OF dist(1) L(1) all(1)]) (use assms(4) in auto)
  moreover have "list_all ?P (update_used (q_id d) f (qd_domains db))"
    by (rule list_all_update [OF dist(2) L(2) all(2)]) (use assms(4) in auto)
  moreover have "list_all ?P (update_used (q_id c) f (qd_companies db))"
    by (rule list_all_update [OF dist(3) L(3) all(3)]) (use assms(4) in auto)
  ultimately show ?thesis by (simp add: within_limits_def adjusted_def)
qed

lemma ledgers_adjusted:
  assumes "ledgers i db = Some (u, d, c)"
  shows "ledgers i (adjusted i (q_id d) (q_id c) f db) =
    Some (u\<lparr>q_used := f (q_used u)\<rparr>, d\<lparr>q_used := f (q_used d)\<rparr>, c\<lparr>q_used := f (q_used c)\<rparr>)"
  using ledgersD [OF assms] by (simp add: ledgers_def adjusted_def find_row_update)

lemma charge_run:
  assumes "checkAndIncrementUserQuota fails i amount db = (Inr (), db')"
  shows "amount \<le> 0 \<and> db' = db \<or>
    (\<exists>u d c. 0 < amount \<and> ledgers i db = Some (u, d, c) \<and> \<not> over_quota amount u \<and> \<not> over_quota amount d \<and> \<not> over_quota amount c \<and>
       db' = adjusted i (q_id d) (q_id c) (\<lambda>used. used + amount) db)"
  using assms
  by (auto simp: checkAndIncrementUserQuota_def query_def ok_op_def get_op_def fail_op_def try_op_def
      split: if_splits option.splits prod.splits dest: adjust_ledgers_run)

lemma release_run:
  assumes "decrementUserQuota fails i amount db = (Inr (), db')"
  shows "amount \<le> 0 \<and> db' = db \<or>
    (\<exists>u d c. 0 < amount \<and> ledgers i db = Some (u, d, c) \<and> db' = adjusted i (q_id d) (q_id c) (released amount) db)"
  using assms
  by (auto simp: decrementUserQuota_def query_def ok_op_def get_op_def fail_op_def try_op_def
      split: if_splits option.splits prod.splits dest: adjust_ledgers_run)

text \<open>What a charge makes of the ledgers: the rows of the user, of the domain of the user and of the company of the domain
  grow by the amount, and no other row changes.\<close>

definition charged :: "string \<Rightarrow> int \<Rightarrow> 'x quota_state \<Rightarrow> 'x quota_state \<Rightarrow> bool" where
  "charged i amount db db' \<longleftrightarrow>
     (if amount \<le> 0 then quota_db.truncate db' = quota_db.truncate db
      else \<exists>u d c. ledgers i db = Some (u, d, c) \<and>
        qd_users db' = map (\<lambda>r. if q_id r = i then r\<lparr>q_used := q_used r + amount\<rparr> else r) (qd_users db) \<and>
        qd_domains db' = map (\<lambda>r. if q_id r = q_id d then r\<lparr>q_used := q_used r + amount\<rparr> else r) (qd_domains db) \<and>
        qd_companies db' = map (\<lambda>r. if q_id r = q_id c then r\<lparr>q_used := q_used r + amount\<rparr> else r) (qd_companies db))"

lemma charge_charged:
  assumes "checkAndIncrementUserQuota fails i amount db = (Inr (), db')"
  shows "charged i amount db db'"
  using charge_run [OF assms] by (auto simp: charged_def adjusted_def update_used_def)

lemma charged_truncate:
  assumes "quota_db.truncate db' = quota_db.truncate (db1 :: 'x quota_state)" and "charged i amount db db1"
  shows "charged i amount db db'"
proof -
  have "qd_users db' = qd_users db1" "qd_domains db' = qd_domains db1" "qd_companies db' = qd_companies db1"
    using assms(1) by (simp_all add: quota_db.defs)
  then show ?thesis using assms by (simp add: charged_def)
qed

section \<open>One statement for many messages\<close>

lemma released_released: "0 \<le> a \<Longrightarrow> 0 \<le> b \<Longrightarrow> released a (released b x) = released (b + a) x"
  by (auto simp: released_def max_def)

lemma user_usage_nonneg: "0 \<le> user_usage input i"
  unfolding user_usage_def by (rule sum_list_nonneg) auto

lemma domain_usage_nonneg: "0 \<le> domain_usage input users i"
  unfolding domain_usage_def by (rule sum_list_nonneg) (auto simp: user_usage_nonneg)

lemma company_usage_nonneg: "0 \<le> company_usage input users domains i"
  unfolding company_usage_def by (rule sum_list_nonneg) (auto simp: domain_usage_nonneg)

text \<open>Releasing first an amount on one row and then what the rest of the input asks for is releasing both at once.\<close>

lemma release_rows_step:
  assumes "0 < b" and "\<And>j. 0 \<le> g j" and "\<And>j. j \<in> set (row_ids rows) \<Longrightarrow> g' j = g j + (if j = i then b else 0)"
  shows "release_rows g' rows = release_rows g (update_used i (released b) rows)"
  using assms(3)
proof (induction rows)
  case (Cons r rows)
  have g': "g' (q_id r) = g (q_id r) + (if q_id r = i then b else 0)" using Cons.prems by (simp add: row_ids_def)
  have IH: "release_rows g' rows = release_rows g (update_used i (released b) rows)"
    using Cons.prems by (intro Cons.IH) (simp add: row_ids_def)
  have both: "released (g i) (released b x) = released (b + g i) x" for x
    using assms(1) assms(2) [of i] by (intro released_released) simp_all
  have pos: "b + g i \<noteq> 0" "g i + b \<noteq> 0" using assms(1) assms(2) [of i] by simp_all
  show ?case
    using IH g' pos both
    by (cases "q_id r = i"; cases "g i = 0") (simp_all add: release_rows_def update_used_def add.commute)
qed (simp add: release_rows_def update_used_def)

lemma sum_list_step:
  assumes "distinct (row_ids rows)" and "find_row i rows = Some r" and "\<And>x. x \<in> set rows \<Longrightarrow> g' (q_id x) = g (q_id x) + (if q_id x = i then b else 0)"
  shows "sum_list (map (\<lambda>x. g' (q_id x)) (filter (\<lambda>x. q_parent x = p) rows)) =
    sum_list (map (\<lambda>x. g (q_id x)) (filter (\<lambda>x. q_parent x = p) rows)) + (if p = q_parent r then b else (0::int))"
  using assms
proof (induction rows)
  case (Cons x rows)
  show ?case
  proof (cases "q_id x = i")
    case True
    have other: "q_id y \<noteq> i" if "y \<in> set rows" for y
      using Cons.prems(1) True that by (simp add: row_ids_def) (metis imageI)
    have "sum_list (map (\<lambda>x. g' (q_id x)) (filter (\<lambda>x. q_parent x = p) rows)) =
      sum_list (map (\<lambda>x. g (q_id x)) (filter (\<lambda>x. q_parent x = p) rows))"
      using Cons.prems(3) by (intro arg_cong [where f = sum_list] map_cong) (simp_all add: other)
    with True Cons.prems show ?thesis by (auto simp: find_row_def)
  next
    case False
    with Cons show ?thesis by (auto simp: find_row_def row_ids_def)
  qed
qed (simp add: find_row_def)

lemma usage_updated [simp]:
  "domain_usage input (update_used i f users) = domain_usage input users"
  "company_usage input (update_used i f users) domains = company_usage input users domains"
  "company_usage input users (update_used i f domains) = company_usage input users domains"
proof -
  have same: "sum_list (map (\<lambda>u. g (q_id u)) (filter (\<lambda>u. q_parent u = p) (update_used i f rows))) =
      sum_list (map (\<lambda>u. g (q_id u)) (filter (\<lambda>u. q_parent u = p) rows))" for g :: "string \<Rightarrow> int" and p rows
    by (induction rows) (auto simp: update_used_def)
  show d: "domain_usage input (update_used i f users) = domain_usage input users"
    by (rule ext) (simp add: domain_usage_def same)
  show "company_usage input (update_used i f users) domains = company_usage input users domains"
    "company_usage input users (update_used i f domains) = company_usage input users domains"
    by (rule ext, simp add: company_usage_def d same)+
qed

lemma decrement_quotas_sql_step:
  assumes "0 < b" and "unique_ids db" and l: "ledgers i db = Some (u, d, c)"
  shows "decrement_quotas_sql ((i, b) # input) db = decrement_quotas_sql input (adjusted i (q_id d) (q_id c) (released b) db)"
proof -
  note L = ledgersD [OF l]
  have dist: "distinct (row_ids (qd_users db))" "distinct (row_ids (qd_domains db))"
    using assms(2) by (auto simp: unique_ids_def)
  have u: "user_usage ((i, b) # input) j = user_usage input j + (if j = i then b else 0)" for j
    using assms(1) by (simp add: user_usage_def)
  have d: "domain_usage ((i, b) # input) (qd_users db) p = domain_usage input (qd_users db) p + (if p = q_id d then b else 0)" for p
    unfolding domain_usage_def by (subst sum_list_step [OF dist(1) L(1), where g = "user_usage input" and b = b]) (simp_all add: u L)
  have c: "company_usage ((i, b) # input) (qd_users db) (qd_domains db) p =
      company_usage input (qd_users db) (qd_domains db) p + (if p = q_id c then b else 0)" for p
    unfolding company_usage_def
    by (subst sum_list_step [OF dist(2) L(2), where g = "domain_usage input (qd_users db)" and b = b]) (simp_all add: d L)
  show ?thesis
    unfolding decrement_quotas_sql_def adjusted_def
    using release_rows_step [where rows = "qd_users db" and i = i and g = "user_usage input"
        and g' = "user_usage ((i, b) # input)", OF assms(1) user_usage_nonneg u]
      release_rows_step [where rows = "qd_domains db" and i = "q_id d" and g = "domain_usage input (qd_users db)"
        and g' = "domain_usage ((i, b) # input) (qd_users db)", OF assms(1) domain_usage_nonneg d]
      release_rows_step [where rows = "qd_companies db" and i = "q_id c" and g = "company_usage input (qd_users db) (qd_domains db)"
        and g' = "company_usage ((i, b) # input) (qd_users db) (qd_domains db)", OF assms(1) company_usage_nonneg c]
    by simp
qed

lemma ledgers_shape:
  assumes "ledgers i db = Some l"
  shows "\<exists>l'. ledgers i (adjusted j d c f db) = Some l'"
proof -
  obtain u d' c' where l: "l = (u, d', c')" by (cases l) auto
  note L = ledgersD [OF assms [unfolded l]]
  show ?thesis using L by (auto simp: ledgers_def adjusted_def find_row_update)
qed

section \<open>Properties\<close>

definition sample_quotas :: quota_db where
  "sample_quotas = \<lparr>qd_users = [\<lparr>q_id = ''u'', q_parent = ''d'', q_used = 10, q_limit = 100, q_active = True\<rparr>, \<lparr>q_id = ''v'', q_parent = ''d'', q_used = 5, q_limit = 0, q_active = True\<rparr>],
     qd_domains = [\<lparr>q_id = ''d'', q_parent = ''c'', q_used = 15, q_limit = 60, q_active = True\<rparr>],
     qd_companies = [\<lparr>q_id = ''c'', q_parent = [], q_used = 15, q_limit = 0, q_active = True\<rparr>]\<rparr>"

lemma sample_quotas_ok: "balanced sample_quotas" "within_limits sample_quotas"
  by (simp_all add: sample_quotas_def balanced_def unique_ids_def within_limits_def row_ids_def used_below_def)

text \<open>
  C10. Charging a message is all or nothing. In a transaction, whatever statement the database refuses, either
  nothing is changed, or the user, the domain and the company are each charged the size of the message and none of them
  exceeds its limit afterwards. The used bytes of every domain stay the sum over its users, those of every
  company the sum over its domains, and all limits stay kept.
\<close>

theorem charging_keeps_quotas:
  assumes "balanced db" and "within_limits db"
  shows "case in_transaction (checkAndIncrementUserQuota fails i amount) db of
      (Inl e, db') \<Rightarrow> db' = db
    | (Inr _, db') \<Rightarrow> balanced db' \<and> within_limits db' \<and>
        (if amount \<le> 0 then db' = db
         else \<exists>u d c. ledgers i db = Some (u, d, c) \<and>
           ledgers i db' = Some (u\<lparr>q_used := q_used u + amount\<rparr>, d\<lparr>q_used := q_used d + amount\<rparr>, c\<lparr>q_used := q_used c + amount\<rparr>))"
proof (cases "checkAndIncrementUserQuota fails i amount db")
  case (Pair r db1)
  show ?thesis
  proof (cases r)
    case (Inl e)
    with Pair show ?thesis by (simp add: in_transaction_def)
  next
    case (Inr x)
    from charge_run [of fails i amount db db1] Pair Inr consider "amount \<le> 0" "db1 = db"
      | u d c where "0 < amount" "ledgers i db = Some (u, d, c)" "\<not> over_quota amount u" "\<not> over_quota amount d" "\<not> over_quota amount c"
          "db1 = adjusted i (q_id d) (q_id c) (\<lambda>used. used + amount) db" by auto
    then show ?thesis
    proof cases
      case 1
      with Pair Inr assms show ?thesis by (simp add: in_transaction_def)
    next
      case 2
      have "balanced db1" unfolding 2(6) by (rule balanced_adjusted [OF assms(1) 2(2)]) simp
      moreover have "within_limits db1"
        unfolding 2(6) by (rule within_adjusted [OF assms 2(2)]) (use 2(3-5) in \<open>auto simp: over_quota_def\<close>)
      moreover from 2 have "\<not> amount \<le> 0" "ledgers i db1 = Some (u\<lparr>q_used := q_used u + amount\<rparr>,
          d\<lparr>q_used := q_used d + amount\<rparr>, c\<lparr>q_used := q_used c + amount\<rparr>)"
        using ledgers_adjusted [OF 2(2)] by simp_all
      ultimately show ?thesis using Pair Inr 2(2) by (simp add: in_transaction_def)
    qed
  qed
qed

theorem charging_keeps_quotas_witness:
  "balanced (snd (in_transaction (checkAndIncrementUserQuota (\<lambda>_. None) ''u'' 45) sample_quotas))"
proof -
  have "fst (in_transaction (checkAndIncrementUserQuota (\<lambda>_. None) ''u'' 45) sample_quotas) = Inr ()" by code_simp
  with charging_keeps_quotas [OF sample_quotas_ok, where fails = "\<lambda>_. None" and i = "''u''" and amount = 45] show ?thesis
    by (auto split: prod.splits sum.splits)
qed

lemma used_below_ge:
  assumes "list_all (\<lambda>r. 0 \<le> q_used r) rows" and "find_row i rows = Some r"
  shows "q_used r \<le> used_below (q_parent r) rows"
  using assms
proof (induction rows)
  case (Cons x rows)
  have "0 \<le> used_below p rows" for p
    unfolding used_below_def using Cons.prems(1) by (intro sum_list_nonneg) (auto simp: list_all_iff)
  with Cons show ?case by (auto simp: used_below_def find_row_def split: if_splits intro: order_trans)
qed (simp add: find_row_def)

text \<open>
  Releasing what was charged keeps the ledgers in balance: if no user's count is negative and the user has at
  least the bytes that are released, the clamping at zero never acts, user, domain and company each lose
  exactly these bytes, and all limits stay kept.
\<close>

theorem releasing_keeps_quotas:
  assumes "balanced db" and "within_limits db" and "list_all (\<lambda>r. 0 \<le> q_used r) (qd_users db)"
    and "decrementUserQuota fails i amount db = (Inr (), db')" and "0 < amount"
    and "ledgers i db = Some (u, d, c)" and "amount \<le> q_used u"
  shows "balanced db' \<and> within_limits db' \<and>
    ledgers i db' = Some (u\<lparr>q_used := q_used u - amount\<rparr>, d\<lparr>q_used := q_used d - amount\<rparr>, c\<lparr>q_used := q_used c - amount\<rparr>)"
proof -
  note L = ledgersD [OF assms(6)]
  from release_run [OF assms(4)] assms(5,6) have db': "db' = adjusted i (q_id d) (q_id c) (released amount) db" by auto
  have bal: "q_used x = used_below (q_id x) (qd_users db)" if "x \<in> set (qd_domains db)" for x
    using assms(1) that by (auto simp: balanced_def list_all_iff)
  have nonneg: "list_all (\<lambda>r. 0 \<le> q_used r) (qd_domains db)"
    unfolding list_all_iff
  proof
    fix x assume "x \<in> set (qd_domains db)"
    then show "0 \<le> q_used x"
      using assms(3) by (auto simp: bal used_below_def list_all_iff intro!: sum_list_nonneg)
  qed
  have "q_used c = used_below (q_id c) (qd_domains db)"
    using assms(1) find_rowD [OF L(3)] by (auto simp: balanced_def list_all_iff)
  with used_below_ge [OF nonneg L(2)] used_below_ge [OF assms(3) L(1)] bal [of d] find_rowD [OF L(2)] L assms(7)
  have enough: "amount \<le> q_used d" "amount \<le> q_used c" by auto
  have f: "released amount (q_used r) = q_used r + (- amount)" if "r \<in> {u, d, c}" for r
    using that assms(7) enough by (auto simp: released_def)
  have "balanced db'" unfolding db' by (rule balanced_adjusted [OF assms(1,6) f])
  moreover have "within_limits db'"
    unfolding db'
  proof (rule within_adjusted [OF assms(1,2,6)])
    fix r assume r: "r \<in> {u, d, c}"
    have "r \<in> set (qd_users db @ qd_domains db @ qd_companies db)" using r find_rowD [OF L(1)] find_rowD [OF L(2)] find_rowD [OF L(3)] by auto
    then have "q_limit r \<le> 0 \<or> q_used r \<le> q_limit r" using assms(2) by (auto simp: within_limits_def list_all_iff)
    with f [OF r] assms(5) show "q_limit r \<le> 0 \<or> released amount (q_used r) \<le> q_limit r" by auto
  qed
  ultimately show ?thesis using ledgers_adjusted [OF assms(6), of "released amount"] db' f by simp
qed

theorem releasing_keeps_quotas_witness:
  "balanced (snd (decrementUserQuota (\<lambda>_. None) ''u'' 7 sample_quotas))"
proof -
  have run: "decrementUserQuota (\<lambda>_. None) ''u'' 7 sample_quotas = (Inr (), snd (decrementUserQuota (\<lambda>_. None) ''u'' 7 sample_quotas))"
    by (simp add: prod_eq_iff) code_simp
  have nonneg: "list_all (\<lambda>r. 0 \<le> q_used r) (qd_users sample_quotas)" by (simp add: sample_quotas_def)
  have l: "ledgers ''u'' sample_quotas = Some (\<lparr>q_id = ''u'', q_parent = ''d'', q_used = 10, q_limit = 100, q_active = True\<rparr>,
      \<lparr>q_id = ''d'', q_parent = ''c'', q_used = 15, q_limit = 60, q_active = True\<rparr>, \<lparr>q_id = ''c'', q_parent = [], q_used = 15, q_limit = 0, q_active = True\<rparr>)"
    by (simp add: ledgers_def sample_quotas_def find_row_def)
  from releasing_keeps_quotas [OF sample_quotas_ok nonneg run _ l] show ?thesis by simp
qed

text \<open>
  The statement that releases many messages at once does what releasing them one after the other does, in
  any database with unique ids where the users and their domains and companies exist: the grouping by user, domain
  and company and the single clamping per row change nothing.
\<close>

theorem batch_release_is_sequential:
  assumes "unique_ids db" and "list_all (\<lambda>(i, b). ledgers i db \<noteq> None) input"
  shows "decrement_quotas_sql input db = fold (\<lambda>(i, b) db. snd (decrementUserQuota (\<lambda>_. None) i b db)) input db"
  using assms
proof (induction input arbitrary: db)
  case Nil
  show ?case
    by (simp add: decrement_quotas_sql_def release_rows_def user_usage_def domain_usage_def company_usage_def sum_list_0 map_idI)
next
  case (Cons x input)
  obtain i b where x: "x = (i, b)" by (cases x)
  show ?case
  proof (cases "0 < b")
    case False
    then have "user_usage (x # input) = user_usage input" by (simp add: user_usage_def x fun_eq_iff)
    then have "domain_usage (x # input) = domain_usage input" "company_usage (x # input) = company_usage input"
      by (simp_all add: domain_usage_def company_usage_def fun_eq_iff)
    with \<open>user_usage (x # input) = user_usage input\<close> have "decrement_quotas_sql (x # input) db = decrement_quotas_sql input db"
      by (simp add: decrement_quotas_sql_def)
    with False Cons show ?thesis by (simp add: x decrementUserQuota_def ok_op_def)
  next
    case True
    from Cons.prems(2) obtain u d c where l: "ledgers i db = Some (u, d, c)" by (auto simp: x)
    have one: "snd (decrementUserQuota (\<lambda>_. None) i b db) = adjusted i (q_id d) (q_id c) (released b) db"
      using True l
      by (simp add: decrementUserQuota_def query_def get_op_def try_op_def ok_op_def adjust_ledgers_def sql_def update_op_def adjusted_def)
    have "unique_ids (adjusted i (q_id d) (q_id c) (released b) db)"
      using Cons.prems(1) by (simp add: unique_ids_def adjusted_def)
    moreover have "list_all (\<lambda>(j, _). ledgers j (adjusted i (q_id d) (q_id c) (released b) db) \<noteq> None) input"
      using Cons.prems(2) ledgers_shape by (fastforce simp: list_all_iff)
    ultimately show ?thesis
      using Cons.IH decrement_quotas_sql_step [OF True Cons.prems(1) l] by (simp add: x one)
  qed
qed

theorem batch_release_is_sequential_witness:
  "decrement_quotas_sql [(''u'', 4), (''v'', 9), (''u'', 2)] sample_quotas =
     fold (\<lambda>(i, b) db. snd (decrementUserQuota (\<lambda>_. None) i b db)) [(''u'', 4), (''v'', 9), (''u'', 2)] sample_quotas"
  by (rule batch_release_is_sequential)
     (use sample_quotas_ok(1) in \<open>simp_all add: balanced_def ledgers_def sample_quotas_def find_row_def\<close>)

end
