(* ===== verification/SubmissionQueue.thy ===== *)
theory SubmissionQueue
  imports SmtpSubmission MailQuota Outbox
begin

text \<open>
  From a submitted message to the outbox: \<open>internal/maildb/submission.go\<close>, \<open>outgoing.go\<close> and the DSN part of
  \<open>repository.go\<close>. \<open>RecordSubmitted\<close> turns the message into an outgoing one, and \<open>RecordOutgoing\<close>
  charges the quota, files the message in the Sent folder and inserts the event \<open>mail.queued\<close> for the delivery worker,
  all in one transaction. \<open>json.Marshal\<close>, the ids and times of the database and the errors of its
  statements are in the environment. The end of the theory follows the message to the decoder of the worker.
\<close>

section \<open>The outgoing message\<close>

record outgoing_message =
  om_CompanyID :: string
  om_DomainID :: string
  om_UserID :: string
  om_ComposeIntent :: string
  om_SourceMessageID :: string
  om_RFCMessageID :: string
  om_InReplyTo :: string
  om_ThreadID :: string
  om_Subject :: string
  om_From :: address
  om_To :: "address list"
  om_Cc :: "address list"
  om_Bcc :: "address list"
  om_DSN :: smtp_dsn
  om_SentAt :: int
  om_ScheduledAt :: int
  om_Size :: int
  om_HasAttachment :: bool
  om_StoragePath :: string
  om_Farm :: farm

definition outboundFromParsed :: "parsed_address list \<Rightarrow> address list" where
  "outboundFromParsed as = map (\<lambda>a. \<lparr>Name = pa_Name a, Email = pa_Address a\<rparr>) as"

fun bcc_loop :: "addr_parser \<Rightarrow> string set \<Rightarrow> string list \<Rightarrow> address list" where
  "bcc_loop parse seen [] = []"
| "bcc_loop parse seen (r # rs) =
     (case NormalizeAddress parse r of
        Inl _ \<Rightarrow> bcc_loop parse seen rs
      | Inr n \<Rightarrow> if n \<in> seen then bcc_loop parse seen rs
                 else \<lparr>Name = [], Email = n\<rparr> # bcc_loop parse (insert n seen) rs)"

definition submittedBccRecipients :: "addr_parser \<Rightarrow> parsed_message \<Rightarrow> string list \<Rightarrow> address list" where
  "submittedBccRecipients parse parsed envelopeRecipients =
     outboundFromParsed (pm_Bcc parsed) @
     bcc_loop parse (set (map (\<lambda>a. go_ToLower (pa_Address a)) (pm_To parsed @ pm_Cc parsed @ pm_Bcc parsed))) envelopeRecipients"

fun firstNonEmpty :: "string list \<Rightarrow> string" where
  "firstNonEmpty [] = []"
| "firstNonEmpty (v # vs) = (if go_TrimSpace v \<noteq> [] then v else firstNonEmpty vs)"

text \<open>\<open>outbound.GenerateMessageID\<close>; the time and the random bytes are \<open>stamp\<close>.\<close>

definition GenerateMessageID :: "string \<Rightarrow> string \<Rightarrow> string" where
  "GenerateMessageID stamp domain0 =
     (let domain = go_TrimSpace domain0; domain = (if domain = [] then ''localhost'' else domain)
      in ''<'' @ stamp @ ''@'' @ domain @ ''>'')"

definition emptyGeneratedMessageID :: "string \<Rightarrow> string \<Rightarrow> string \<Rightarrow> string" where
  "emptyGeneratedMessageID stamp messageID from =
     (if go_TrimSpace messageID \<noteq> [] then messageID
      else GenerateMessageID stamp (case go_Cut ''@'' from of None \<Rightarrow> ''localhost'' | Some (_, d) \<Rightarrow> d))"

definition normalizeOutgoingIntent :: "string \<Rightarrow> string" where
  "normalizeOutgoingIntent intent =
     (let i = go_ToLower (go_TrimSpace intent) in if i = ''reply'' \<or> i = ''forward'' then i else ''new'')"

definition storedEventDSN :: "smtp_dsn \<Rightarrow> dsn_options" where
  "storedEventDSN d = \<lparr>dsn_Return = sd_Return d, dsn_EnvelopeID = sd_EnvelopeID d,
     dsn_Recipients = map (\<lambda>r. \<lparr>dr_Address = sd_Address r, dr_Notify = sd_Notify r,
       dr_OriginalRecipient = sd_OriginalRecipient r\<rparr>) (sd_Recipients d)\<rparr>"

text \<open>The event: the fields that the worker reads, and those it does not.\<close>

record outgoing_payload = queued_message +
  oq_ComposeIntent :: string
  oq_SourceMessageID :: string
  oq_InReplyTo :: string
  oq_ThreadID :: string
  oq_SentAt :: int

definition outgoingEventPayload :: "string \<Rightarrow> outgoing_message \<Rightarrow> outgoing_payload" where
  "outgoingEventPayload messageID msg =
     \<lparr>qm_Event = ''mail.queued'', qm_MessageID = messageID, qm_RFCMessageID = om_RFCMessageID msg,
      qm_CompanyID = om_CompanyID msg, qm_DomainID = om_DomainID msg, qm_UserID = om_UserID msg,
      qm_Farm = NormalizeFarm (om_Farm msg), qm_From = om_From msg, qm_To = om_To msg, qm_Cc = om_Cc msg, qm_Bcc = om_Bcc msg,
      qm_DSN = storedEventDSN (om_DSN msg), qm_Subject = om_Subject msg, qm_StoragePath = om_StoragePath msg,
      qm_Size = om_Size msg, qm_RetryAttempt = 0, oq_ComposeIntent = normalizeOutgoingIntent (om_ComposeIntent msg),
      oq_SourceMessageID = go_TrimSpace (om_SourceMessageID msg), oq_InReplyTo = om_InReplyTo msg,
      oq_ThreadID = om_ThreadID msg, oq_SentAt = om_SentAt msg\<rparr>"

section \<open>The database\<close>

record folder_row =
  fo_id :: string
  fo_user :: string
  fo_system_type :: string
  fo_type :: string
  fo_full_path :: string
  fo_order_index :: int
  fo_created_at :: int

record message_row =
  mr_id :: string
  mr_domain :: string
  mr_user :: string
  mr_folder :: string
  mr_intent :: string
  mr_source :: string
  mr_rfc_message_id :: string
  mr_in_reply_to :: string
  mr_thread_id :: string
  mr_subject :: string
  mr_from :: address
  mr_to :: "address list"
  mr_cc :: "address list"
  mr_bcc :: "address list"
  mr_received_at :: "int option"
  mr_sent_at :: "int option"
  mr_draft_updated_at :: "int option"
  mr_created_at :: int
  mr_size :: int
  mr_has_attachment :: bool
  mr_storage_path :: string
  mr_active :: bool

record address_row =
  ua_user :: string
  ua_domain :: string
  ua_address :: string
  ua_address_ace :: string

record mail_db = quota_db +
  md_folders :: "folder_row list"
  md_messages :: "message_row list"
  md_outbox :: "outbox_entry list"
  md_addresses :: "address_row list"

record db_env =
  de_fails :: "string \<Rightarrow> string option"
  de_folder_id :: string
  de_message_id :: string
  de_outbox_id :: string
  de_now :: int \<comment> \<open>\<open>now()\<close> of the database\<close>
  de_time :: int \<comment> \<open>\<open>time.Now()\<close>\<close>
  de_stamp :: string
  de_marshal :: "outgoing_payload \<Rightarrow> string"

type_synonym 'a mop = "(mail_db, smtp_error, 'a) op"

definition sentFolderID :: "db_env \<Rightarrow> string \<Rightarrow> string mop" where
  "sentFolderID E userID =
     try_op (query (de_fails E) ''lookup sent folder''
       (\<lambda>db. sort_key fo_created_at (filter (\<lambda>f. fo_user f = userID \<and> fo_system_type f = ''sent'') (md_folders db)))) (\<lambda>rows.
     case rows of
       f # _ \<Rightarrow> ok_op (fo_id f)
     | [] \<Rightarrow>
         try_op (sql (de_fails E) ''create sent folder'' (\<lambda>db. db\<lparr>md_folders := md_folders db @
           [\<lparr>fo_id = de_folder_id E, fo_user = userID, fo_system_type = ''sent'',
             fo_type = ''system'', fo_full_path = ''/Sent'', fo_order_index = 0, fo_created_at = de_now E\<rparr>]\<rparr>)) (\<lambda>_.
         ok_op (de_folder_id E)))"

definition source_rows :: "string \<Rightarrow> string \<Rightarrow> mail_db \<Rightarrow> message_row list" where
  "source_rows userID source db =
     filter (\<lambda>m. mr_user m = go_TrimSpace userID \<and> mr_id m = source \<and> mr_active m) (md_messages db)"

definition ensureOutgoingSource :: "db_env \<Rightarrow> string \<Rightarrow> string \<Rightarrow> unit mop" where
  "ensureOutgoingSource E userID source0 =
     (let source = go_TrimSpace source0 in
      if source = [] then ok_op ()
      else try_op (query (de_fails E) ''verify outgoing source message'' (source_rows userID source)) (\<lambda>rows.
           if rows = [] then fail_op (PlainErr ''source message not found'') else ok_op ()))"

definition outgoingThread :: "db_env \<Rightarrow> string \<Rightarrow> string \<Rightarrow> (string \<times> string) mop" where
  "outgoingThread E userID source0 =
     (let source = go_TrimSpace source0 in
      if source = [] then ok_op ([], [])
      else try_op (query (de_fails E) ''resolve outgoing thread'' (source_rows userID source)) (\<lambda>rows.
           case rows of [] \<Rightarrow> fail_op (PlainErr ''source message not found'')
           | m # _ \<Rightarrow> ok_op (if mr_thread_id m = [] then mr_id m else mr_thread_id m, mr_rfc_message_id m)))"

definition outgoing_row :: "db_env \<Rightarrow> string \<Rightarrow> outgoing_message \<Rightarrow> message_row" where
  "outgoing_row E folderID msg =
     \<lparr>mr_id = de_message_id E, mr_domain = om_DomainID msg, mr_user = om_UserID msg, mr_folder = folderID,
      mr_intent = normalizeOutgoingIntent (om_ComposeIntent msg), mr_source = go_TrimSpace (om_SourceMessageID msg),
      mr_rfc_message_id = om_RFCMessageID msg, mr_in_reply_to = om_InReplyTo msg, mr_thread_id = om_ThreadID msg,
      mr_subject = om_Subject msg, mr_from = om_From msg, mr_to = om_To msg, mr_cc = om_Cc msg, mr_bcc = om_Bcc msg,
      mr_received_at = None, mr_sent_at = Some (om_SentAt msg), mr_draft_updated_at = None, mr_created_at = de_now E,
      mr_size = om_Size msg, mr_has_attachment = om_HasAttachment msg,
      mr_storage_path = om_StoragePath msg, mr_active = True\<rparr>"

definition outgoing_event :: "db_env \<Rightarrow> string \<Rightarrow> outgoing_message \<Rightarrow> outbox_entry" where
  "outgoing_event E messageID msg =
     \<lparr>ox_id = de_outbox_id E, ox_topic = ''mail.outbound.'' @ NormalizeFarm (om_Farm msg), ox_partition_key = messageID,
      ox_payload = de_marshal E (outgoingEventPayload messageID msg), ox_status = Pending, ox_attempts = 0,
      ox_available_at = max (de_now E) (if om_ScheduledAt msg = 0 then de_time E else om_ScheduledAt msg),
      ox_locked_at = None, ox_created_at = de_now E, ox_last_error = None, ox_processed_at = None\<rparr>"

definition insertOutgoingOutbox :: "db_env \<Rightarrow> string \<Rightarrow> outgoing_message \<Rightarrow> unit mop" where
  "insertOutgoingOutbox E messageID msg =
     sql (de_fails E) ''insert outgoing outbox event'' (\<lambda>db. db\<lparr>md_outbox := md_outbox db @ [outgoing_event E messageID msg]\<rparr>)"

definition RecordOutgoing :: "db_env \<Rightarrow> outgoing_message \<Rightarrow> string mop" where
  "RecordOutgoing E msg = in_transaction (
     try_op (sql (de_fails E) ''begin outgoing message transaction'' (\<lambda>db. db)) (\<lambda>_.
     try_op (checkAndIncrementUserQuota (de_fails E) (om_UserID msg) (om_Size msg)) (\<lambda>_.
     try_op (sentFolderID E (om_UserID msg)) (\<lambda>folderID.
     try_op (ensureOutgoingSource E (om_UserID msg) (om_SourceMessageID msg)) (\<lambda>_.
     try_op (outgoingThread E (om_UserID msg) (om_SourceMessageID msg)) (\<lambda>(threadID, inReplyTo).
     let msg = msg\<lparr>om_InReplyTo := inReplyTo, om_ThreadID := threadID\<rparr> in
     try_op (sql (de_fails E) ''insert outgoing message metadata''
       (\<lambda>db. db\<lparr>md_messages := md_messages db @ [outgoing_row E folderID msg]\<rparr>)) (\<lambda>_.
     try_op (insertOutgoingOutbox E (de_message_id E) msg) (\<lambda>_.
     try_op (sql (de_fails E) ''commit outgoing message transaction'' (\<lambda>db. db)) (\<lambda>_.
     ok_op (de_message_id E))))))))))"

definition submitted_outgoing :: "db_env \<Rightarrow> addr_parser \<Rightarrow> submitted_message \<Rightarrow> outgoing_message" where
  "submitted_outgoing E parse m =
     (let tos = outboundFromParsed (pm_To (sm_Parsed m));
          ccs = outboundFromParsed (pm_Cc (sm_Parsed m));
          bccs = submittedBccRecipients parse (sm_Parsed m) (sm_Recipients m)
      in \<lparr>om_CompanyID = su_CompanyID (sm_User m), om_DomainID = su_DomainID (sm_User m), om_UserID = su_UserID (sm_User m),
          om_ComposeIntent = [], om_SourceMessageID = [],
          om_RFCMessageID = emptyGeneratedMessageID (de_stamp E) (pm_MessageID (sm_Parsed m)) (su_Address (sm_User m)),
          om_InReplyTo = [], om_ThreadID = [], om_Subject = pm_Subject (sm_Parsed m),
          om_From = \<lparr>Name = firstNonEmpty [pa_Name (pm_From (sm_Parsed m)), su_DisplayName (sm_User m)],
                     Email = firstNonEmpty [sm_EnvelopeFrom m, su_Address (sm_User m)]\<rparr>,
          om_To = tos, om_Cc = ccs, om_Bcc = bccs, om_DSN = sm_DSN m, om_SentAt = sm_SubmittedAt m, om_ScheduledAt = 0,
          om_Size = sm_Size m, om_HasAttachment = False, om_StoragePath = sm_StoragePath m,
          om_Farm = Classify False (int (length tos) + int (length ccs) + int (length bccs)) 0\<rparr>)"

definition RecordSubmitted :: "db_env \<Rightarrow> addr_parser \<Rightarrow> submitted_message \<Rightarrow> string mop" where
  "RecordSubmitted E parse m = RecordOutgoing E (submitted_outgoing E parse m)"

section \<open>Recording\<close>

lemma checkQuota_frame:
  assumes "checkAndIncrementUserQuota fails i amount (db :: mail_db) = (Inr (), db')"
  shows "md_folders db' = md_folders db \<and> md_messages db' = md_messages db \<and> md_outbox db' = md_outbox db"
  using charge_run [OF assms] by (auto simp: adjusted_def)

lemma sql_run: "sql fails what f db = (Inr u, db') \<Longrightarrow> db' = f db"
  by (auto simp: sql_def fail_op_def update_op_def split: option.splits)

lemma query_run: "query fails what f db = (Inr a, db') \<Longrightarrow> a = f db \<and> db' = db"
  by (auto simp: query_def fail_op_def get_op_def ok_op_def split: option.splits)

text \<open>The tables that the quota does not concern, and those it does.\<close>

lemma sentFolderID_run:
  assumes "sentFolderID E i db = (Inr folderID, db')"
  shows "quota_db.truncate db' = quota_db.truncate db \<and> md_messages db' = md_messages db \<and> md_outbox db' = md_outbox db \<and>
    (\<exists>f\<in>set (md_folders db'). fo_id f = folderID \<and> fo_user f = i \<and> fo_system_type f = ''sent'')"
proof -
  let ?rows = "sort_key fo_created_at (filter (\<lambda>f. fo_user f = i \<and> fo_system_type f = ''sent'') (md_folders db))"
  show ?thesis
  proof (cases ?rows)
    case Nil
    with assms show ?thesis
      by (auto simp: sentFolderID_def ok_op_def quota_db.defs elim!: try_op_InrE dest!: query_run sql_run)
  next
    case (Cons f rest)
    have "f \<in> set ?rows" by (simp add: Cons)
    then have "f \<in> set (md_folders db) \<and> fo_user f = i \<and> fo_system_type f = ''sent''" by simp
    with assms Cons show ?thesis
      by (auto simp: sentFolderID_def ok_op_def elim!: try_op_InrE dest!: query_run)
  qed
qed

lemma RecordOutgoing_run:
  assumes "RecordOutgoing E msg db = (Inr i, db')" and "go_TrimSpace (om_SourceMessageID msg) = []"
  shows "\<exists>folderID db1. checkAndIncrementUserQuota (de_fails E) (om_UserID msg) (om_Size msg) db = (Inr (), db1) \<and>
    quota_db.truncate db' = quota_db.truncate db1 \<and> i = de_message_id E \<and>
    (\<exists>f\<in>set (md_folders db'). fo_id f = folderID \<and> fo_user f = om_UserID msg \<and> fo_system_type f = ''sent'') \<and>
    md_messages db' = md_messages db @ [outgoing_row E folderID (msg\<lparr>om_InReplyTo := [], om_ThreadID := []\<rparr>)] \<and>
    md_outbox db' = md_outbox db @ [outgoing_event E (de_message_id E) (msg\<lparr>om_InReplyTo := [], om_ThreadID := []\<rparr>)]"
proof -
  let ?msg = "msg\<lparr>om_InReplyTo := [], om_ThreadID := []\<rparr>"
  have none: "ensureOutgoingSource E u (om_SourceMessageID msg) = ok_op ()" "outgoingThread E u (om_SourceMessageID msg) = ok_op ([], [])" for u
    using assms(2) by (simp_all add: ensureOutgoingSource_def outgoingThread_def)
  from assms(1) obtain db1 db2 folderID where
    charge: "checkAndIncrementUserQuota (de_fails E) (om_UserID msg) (om_Size msg) db = (Inr (), db1)" and
    folder: "sentFolderID E (om_UserID msg) db1 = (Inr folderID, db2)" and
    i: "i = de_message_id E" and
    db': "db' = db2\<lparr>md_messages := md_messages db2 @ [outgoing_row E folderID ?msg],
      md_outbox := md_outbox db2 @ [outgoing_event E (de_message_id E) ?msg]\<rparr>"
    by (auto simp: RecordOutgoing_def in_transaction_def none Let_def ok_op_def insertOutgoingOutbox_def
        split: prod.splits sum.splits elim!: try_op_InrE dest!: sql_run)
  from checkQuota_frame [OF charge] sentFolderID_run [OF folder] charge i show ?thesis
    unfolding db' by (intro exI [of _ folderID] exI [of _ db1]) (auto simp: quota_db.defs)
qed

section \<open>The recipients of the queued message\<close>

lemma bcc_loop_emails:
  assumes "list_all (\<lambda>r. NormalizeAddress parse r = Inr r) rs"
  shows "set (map Email (bcc_loop parse seen rs)) = set rs - seen"
  using assms by (induction parse seen rs rule: bcc_loop.induct) auto

lemma recipients_from_set:
  "set (map Email (recipients_from parse seen as)) =
     {n. \<exists>a\<in>set as. NormalizeAddress parse (Email a) = Inr n} - seen"
  by (induction parse seen as rule: recipients_from.induct) (auto split: sum.splits)

lemma normalizeAddressList_all:
  "list_all (\<lambda>a. NormalizeAddress parse (Email a) = Inr (f (Email a))) as \<Longrightarrow>
   normalizeAddressList parse fld as = Inr (map (\<lambda>a. a\<lparr>Email := f (Email a)\<rparr>) as)"
  by (induction as) auto

lemma normalizeAddressList_fails:
  "a \<in> set as \<Longrightarrow> NormalizeAddress parse (Email a) = Inl e \<Longrightarrow> \<exists>e. normalizeAddressList parse fld as = Inl e"
  by (induction as) (auto split: sum.splits)

text \<open>An address that is parsed to its lower case, which is parsed to itself.\<close>

definition readable :: "addr_parser \<Rightarrow> string \<Rightarrow> bool" where
  "readable parse a \<longleftrightarrow> NormalizeAddress parse a = Inr (go_ToLower a) \<and> NormalizeAddress parse (go_ToLower a) = Inr (go_ToLower a)"

definition header_addresses :: "parsed_message \<Rightarrow> string list" where
  "header_addresses p = map pa_Address (pm_To p @ pm_Cc p @ pm_Bcc p)"

definition queued_payload :: "db_env \<Rightarrow> addr_parser \<Rightarrow> submitted_message \<Rightarrow> queued_message" where
  "queued_payload E parse m = queued_message.truncate (outgoingEventPayload (de_message_id E)
     ((submitted_outgoing E parse m)\<lparr>om_InReplyTo := [], om_ThreadID := []\<rparr>))"

lemma queued_payload_fields:
  "qm_To (queued_payload E parse m) = outboundFromParsed (pm_To (sm_Parsed m))"
  "qm_Cc (queued_payload E parse m) = outboundFromParsed (pm_Cc (sm_Parsed m))"
  "qm_Bcc (queued_payload E parse m) = submittedBccRecipients parse (sm_Parsed m) (sm_Recipients m)"
  "qm_Event (queued_payload E parse m) = ''mail.queued''" "qm_MessageID (queued_payload E parse m) = de_message_id E"
  "qm_RFCMessageID (queued_payload E parse m) = emptyGeneratedMessageID (de_stamp E) (pm_MessageID (sm_Parsed m)) (su_Address (sm_User m))"
  "Email (qm_From (queued_payload E parse m)) = firstNonEmpty [sm_EnvelopeFrom m, su_Address (sm_User m)]"
  "qm_DSN (queued_payload E parse m) = storedEventDSN (sm_DSN m)" "qm_StoragePath (queued_payload E parse m) = sm_StoragePath m"
  by (simp_all add: queued_payload_def outgoingEventPayload_def submitted_outgoing_def queued_message.defs Let_def)

lemma queued_emails:
  assumes "list_all (\<lambda>r. NormalizeAddress parse r = Inr r) (sm_Recipients m)"
    and "list_all (readable parse) (header_addresses (sm_Parsed m))"
  shows "{n. \<exists>a\<in>set (qm_To (queued_payload E parse m) @ qm_Cc (queued_payload E parse m) @ qm_Bcc (queued_payload E parse m)).
      NormalizeAddress parse (Email a) = Inr n} =
    set (sm_Recipients m) \<union> set (map go_ToLower (header_addresses (sm_Parsed m)))" (is "?N = ?R \<union> ?H")
proof -
  let ?p = "sm_Parsed m"
  let ?loop = "bcc_loop parse (set (map (\<lambda>a. go_ToLower (pa_Address a)) (pm_To ?p @ pm_Cc ?p @ pm_Bcc ?p))) (sm_Recipients m)"
  have H: "?H = set (map (\<lambda>a. go_ToLower (pa_Address a)) (pm_To ?p @ pm_Cc ?p @ pm_Bcc ?p))"
    by (simp add: header_addresses_def image_image)
  have loop: "set (map Email ?loop) = ?R - ?H" unfolding H by (rule bcc_loop_emails [OF assms(1)])
  have header: "NormalizeAddress parse a = Inr (go_ToLower a)" if "a \<in> set (header_addresses ?p)" for a
    using assms(2) that by (simp add: list_all_iff readable_def)
  have env: "NormalizeAddress parse r = Inr r" if "r \<in> ?R" for r using assms(1) that by (simp add: list_all_iff)
  have emails: "map Email (qm_To (queued_payload E parse m) @ qm_Cc (queued_payload E parse m) @ qm_Bcc (queued_payload E parse m)) =
      header_addresses ?p @ map Email ?loop"
    by (simp add: queued_payload_fields outboundFromParsed_def submittedBccRecipients_def header_addresses_def)
  have "?N = {n. \<exists>e\<in>set (header_addresses ?p @ map Email ?loop). NormalizeAddress parse e = Inr n}"
    unfolding emails [symmetric] by auto
  also have "\<dots> = {n. \<exists>e\<in>set (header_addresses ?p). NormalizeAddress parse e = Inr n} \<union>
      {n. \<exists>e\<in>?R - ?H. NormalizeAddress parse e = Inr n}"
    unfolding loop [symmetric] by auto
  also have "\<dots> = ?H \<union> (?R - ?H)"
    using header env by auto
  finally show ?thesis by auto
qed

lemma balanced_truncate: "quota_db.truncate db' = quota_db.truncate (db :: 'x quota_state) \<Longrightarrow> balanced db \<Longrightarrow> balanced (db' :: 'x quota_state)"
  by (simp add: quota_db.defs balanced_def unique_ids_def)

lemma within_limits_truncate:
  "quota_db.truncate db' = quota_db.truncate (db :: 'x quota_state) \<Longrightarrow> within_limits db \<Longrightarrow> within_limits (db' :: 'x quota_state)"
  by (simp add: quota_db.defs within_limits_def)

lemma charge_keeps:
  assumes "checkAndIncrementUserQuota fails i amount db = (Inr (), db')" and "balanced db" and "within_limits db"
  shows "balanced db' \<and> within_limits db'"
  using charge_run [OF assms(1)]
proof (elim disjE exE conjE)
  fix u d c
  assume l: "ledgers i db = Some (u, d, c)" and db': "db' = adjusted i (q_id d) (q_id c) (\<lambda>used. used + amount) db"
    and fits: "\<not> over_quota amount u" "\<not> over_quota amount d" "\<not> over_quota amount c"
  show ?thesis
    unfolding db'
    by (rule conjI, rule balanced_adjusted [OF assms(2) l], simp, rule within_adjusted [OF assms(2,3) l])
       (use fits in \<open>auto simp: over_quota_def\<close>)
qed (use assms in simp)

lemma bcc_loop_length: "length (bcc_loop parse seen rs) \<le> length rs"
  by (induction parse seen rs rule: bcc_loop.induct) (auto split: sum.splits)

lemma queued_count:
  "queuedRawRecipientCount (queued_payload E parse m) \<le> length (header_addresses (sm_Parsed m)) + length (sm_Recipients m)"
  "length (header_addresses (sm_Parsed m)) \<le> queuedRawRecipientCount (queued_payload E parse m)"
  using bcc_loop_length [of parse _ "sm_Recipients m"]
  by (simp_all add: queuedRawRecipientCount_def queued_payload_fields submittedBccRecipients_def outboundFromParsed_def header_addresses_def)

text \<open>What decoding does to a message whose addresses are readable: their lower case, and the same recipients.\<close>

lemma decode_readable:
  assumes "qm_Event q = ''mail.queued''" and "go_TrimSpace (qm_MessageID q) \<noteq> []"
    and "\<not> containsLineBreak (go_TrimSpace (qm_MessageID q))" and "\<not> containsLineBreak (go_TrimSpace (qm_RFCMessageID q))"
    and "length (go_TrimSpace (qm_MessageID q)) \<le> 200" and "length (go_TrimSpace (qm_RFCMessageID q)) \<le> 500"
    and "go_TrimSpace (Email (qm_From q)) = Email (qm_From q)" and "NormalizeAddress parse (Email (qm_From q)) = Inr (Email (qm_From q))"
    and "Email (qm_From q) \<noteq> []"
    and "queuedRawRecipientCount q \<le> 100" and "queuedRawRecipientCount q \<noteq> 0"
    and all: "list_all (\<lambda>a. readable parse (Email a)) (qm_To q @ qm_Cc q @ qm_Bcc q)"
    and "normalizeQueuedDSNOptions parse (qm_DSN q) = Inr d" and "normalizeQueuedStoragePath (qm_StoragePath q) = Inr (qm_StoragePath q)"
  shows "\<exists>q'. DecodeQueuedMessage parse (Inr q) = Inr q' \<and> qm_StoragePath q' = qm_StoragePath q \<and>
    Email (qm_From q') = Email (qm_From q) \<and> qm_UserID q' = qm_UserID q \<and>
    {n. \<exists>a\<in>set (qm_To q' @ qm_Cc q' @ qm_Bcc q'). NormalizeAddress parse (Email a) = Inr n} =
    {n. \<exists>a\<in>set (qm_To q @ qm_Cc q @ qm_Bcc q). NormalizeAddress parse (Email a) = Inr n}"
proof -
  let ?low = "map (\<lambda>a. a\<lparr>Email := go_ToLower (Email a)\<rparr>)"
  have each: "list_all (\<lambda>a. NormalizeAddress parse (Email a) = Inr (go_ToLower (Email a))) (qm_To q)"
    "list_all (\<lambda>a. NormalizeAddress parse (Email a) = Inr (go_ToLower (Email a))) (qm_Cc q)"
    "list_all (\<lambda>a. NormalizeAddress parse (Email a) = Inr (go_ToLower (Email a))) (qm_Bcc q)"
    using all by (auto simp: list_all_iff readable_def)
  note lists = each [THEN normalizeAddressList_all]
  define q' where "q' = q\<lparr>qm_MessageID := go_TrimSpace (qm_MessageID q), qm_RFCMessageID := go_TrimSpace (qm_RFCMessageID q),
    qm_To := ?low (qm_To q), qm_Cc := ?low (qm_Cc q), qm_Bcc := ?low (qm_Bcc q), qm_Farm := NormalizeFarm (qm_Farm q), qm_DSN := d\<rparr>"
  have count: "queuedRawRecipientCount (q\<lparr>qm_MessageID := x, qm_RFCMessageID := y\<rparr>) = queuedRawRecipientCount q"
    "queuedRawRecipientCount q' = queuedRawRecipientCount q" for x y
    by (simp_all add: queuedRawRecipientCount_def q'_def)
  have "DecodeQueuedMessage parse (Inr q) = Inr q'"
    using assms count lists
    by (simp add: DecodeQueuedMessage_def Let_def queued_limits normalizeQueuedRecipients_def q'_def not_less)
  moreover have "{n. \<exists>a\<in>set (qm_To q' @ qm_Cc q' @ qm_Bcc q'). NormalizeAddress parse (Email a) = Inr n} =
    {n. \<exists>a\<in>set (qm_To q @ qm_Cc q @ qm_Bcc q). NormalizeAddress parse (Email a) = Inr n}"
  proof -
    define A where "A = set (qm_To q @ qm_Cc q @ qm_Bcc q)"
    have A: "set (qm_To q' @ qm_Cc q' @ qm_Bcc q') = (\<lambda>a. a\<lparr>Email := go_ToLower (Email a)\<rparr>) ` A"
      by (simp add: q'_def A_def image_Un)
    have "NormalizeAddress parse (go_ToLower (Email a)) = NormalizeAddress parse (Email a)" if "a \<in> A" for a
      using all that by (auto simp: A_def list_all_iff readable_def)
    then show ?thesis unfolding A A_def [symmetric] by (simp cong: bex_cong)
  qed
  ultimately show ?thesis by (intro exI [of _ q']) (simp add: q'_def)
qed

lemma decode_success:
  assumes "DecodeQueuedMessage parse (Inr q) = Inr q'"
  shows "\<exists>x y f q2. \<not> 100 < queuedRawRecipientCount (q\<lparr>qm_MessageID := x, qm_RFCMessageID := y, qm_From := f\<rparr>) \<and>
    normalizeQueuedRecipients parse (q\<lparr>qm_MessageID := x, qm_RFCMessageID := y, qm_From := f\<rparr>) = Inr q2"
  using assms unfolding DecodeQueuedMessage_def Let_def queued_limits
  by (simp split: sum.splits if_splits) blast+

section \<open>Properties\<close>

definition sample_submitted :: submitted_message where
  "sample_submitted = \<lparr>sm_EnvelopeFrom = ''kim@a.kr'', sm_User = small_user, sm_Recipients = [''lee@x.kr'', ''cho@y.kr''], sm_DSN = SmtpEnvelope.no_dsn,
     sm_StoragePath = ''mailstore/c/d/u/maildir/2026/05/m1.eml'',
     sm_Parsed = \<lparr>pm_MessageID = ''<1@b>'', pm_Subject = [], pm_Date = 0, pm_From = \<lparr>pa_Name = [], pa_Address = ''kim@a.kr''\<rparr>,
       pm_To = [\<lparr>pa_Name = [], pa_Address = ''Lee@x.kr''\<rparr>, \<lparr>pa_Name = [], pa_Address = ''list@z.kr''\<rparr>], pm_Cc = [], pm_Bcc = [], pm_InReplyTo = [], pm_References = [], pm_HasAttachment = False\<rparr>,
     sm_SubmittedAt = 0, sm_Size = 5\<rparr>"

definition sample_env :: db_env where
  "sample_env = \<lparr>de_fails = \<lambda>_. None, de_folder_id = ''f1'', de_message_id = ''id1'', de_outbox_id = ''o1'', de_now = 7, de_time = 9,
     de_stamp = ''1'', de_marshal = \<lambda>_. ''json''\<rparr>"

definition sample_db :: mail_db where
  "sample_db = quota_db.extend sample_quotas \<lparr>md_folders = [], md_messages = [], md_outbox = [], md_addresses = []\<rparr>"

text \<open>The unmarshaller that reads the payload of \<open>sample_submitted\<close>.\<close>

definition sample_unmarshal :: "string \<Rightarrow> queued_message res" where
  "sample_unmarshal s = (if s = ''json'' then Inr (queued_payload sample_env Some sample_submitted) else Inl ''invalid character'')"

text \<open>
  C15. Recording a submission is all or nothing. Whatever statement the database refuses, an error leaves the
  database as it was. Otherwise the size of the message is charged to the user, the domain of the user and the company of the
  domain, and to no other ledger; one message is added, in the Sent folder of the user and with the path and size of the stored
  object, and one pending event for the worker, with the message as its partition key and the time from which it is
  available not before now; the ledgers stay balanced and within their limits.
\<close>

theorem recording_is_atomic:
  assumes "balanced db" and "within_limits db"
  shows "case RecordSubmitted E parse m db of
      (Inl e, db') \<Rightarrow> db' = db
    | (Inr i, db') \<Rightarrow> balanced db' \<and> within_limits db' \<and> charged (su_UserID (sm_User m)) (sm_Size m) db db' \<and>
        (\<exists>row ev. md_messages db' = md_messages db @ [row] \<and> md_outbox db' = md_outbox db @ [ev] \<and>
           (\<exists>f\<in>set (md_folders db'). fo_id f = mr_folder row \<and> fo_user f = mr_user row \<and> fo_system_type f = ''sent'') \<and>
           mr_id row = i \<and> mr_user row = su_UserID (sm_User m) \<and> mr_storage_path row = sm_StoragePath m \<and> mr_size row = sm_Size m \<and>
           ox_status ev = Pending \<and> ox_partition_key ev = i \<and> de_now E \<le> ox_available_at ev \<and>
           ox_payload ev = de_marshal E (outgoingEventPayload i ((submitted_outgoing E parse m)\<lparr>om_InReplyTo := [], om_ThreadID := []\<rparr>)))"
proof (cases "RecordSubmitted E parse m db")
  case (Pair r db')
  show ?thesis
  proof (cases r)
    case (Inl e)
    with Pair show ?thesis
      by (auto simp: RecordSubmitted_def RecordOutgoing_def in_transaction_def split: prod.splits sum.splits)
  next
    case (Inr i)
    let ?msg = "submitted_outgoing E parse m"
    have src: "go_TrimSpace (om_SourceMessageID ?msg) = []" by (simp add: submitted_outgoing_def Let_def)
    from Pair Inr have "RecordOutgoing E ?msg db = (Inr i, db')" by (simp add: RecordSubmitted_def)
    from RecordOutgoing_run [OF this src] obtain folderID db1 where
      charge: "checkAndIncrementUserQuota (de_fails E) (om_UserID ?msg) (om_Size ?msg) db = (Inr (), db1)" and
      run: "quota_db.truncate db' = quota_db.truncate db1" "i = de_message_id E"
        "\<exists>f\<in>set (md_folders db'). fo_id f = folderID \<and> fo_user f = om_UserID ?msg \<and> fo_system_type f = ''sent''"
        "md_messages db' = md_messages db @ [outgoing_row E folderID (?msg\<lparr>om_InReplyTo := [], om_ThreadID := []\<rparr>)]"
        "md_outbox db' = md_outbox db @ [outgoing_event E (de_message_id E) (?msg\<lparr>om_InReplyTo := [], om_ThreadID := []\<rparr>)]"
      by blast
    from charge_keeps [OF charge assms] balanced_truncate [OF run(1)] within_limits_truncate [OF run(1)]
    have "balanced db' \<and> within_limits db'" by simp
    moreover have "charged (su_UserID (sm_User m)) (sm_Size m) db db'"
      using charged_truncate [OF run(1) charge_charged [OF charge]] by (simp add: submitted_outgoing_def Let_def)
    ultimately show ?thesis using run(2-5) Pair Inr
      by (auto simp: outgoing_row_def outgoing_event_def submitted_outgoing_def Let_def)
  qed
qed

lemma sample_db_ok: "balanced sample_db" "within_limits sample_db"
  using sample_quotas_ok
  by (simp_all add: sample_db_def quota_db.defs balanced_def unique_ids_def within_limits_def)

lemma sample_recorded: "fst (RecordSubmitted sample_env Some sample_submitted sample_db) = Inr ''id1''"
  by code_simp

theorem recording_is_atomic_witness:
  "\<exists>ev. md_outbox (snd (RecordSubmitted sample_env Some sample_submitted sample_db)) = [ev] \<and> ox_partition_key ev = ''id1''"
proof -
  have "md_outbox sample_db = []" by (simp add: sample_db_def quota_db.defs)
  with recording_is_atomic [OF sample_db_ok, where E = sample_env and parse = Some and m = sample_submitted] sample_recorded show ?thesis
    by (auto split: prod.splits)
qed

text \<open>
  C9. An accepted submission reaches the worker with all its recipients. If the recorder has stored it, its addresses
  are readable, there are at most 100 of them, and its ids, sender, DSN options and path are ones the worker takes, then
  the worker decodes the payload of the event to a message of the same sender, user and path whose
  distinct recipients are those of the envelope together with all addresses of the header fields To, Cc and Bcc, also
  the ones that are not in the envelope.
\<close>

theorem recorded_submission_reaches_the_worker:
  assumes "RecordSubmitted E parse m db = (Inr i, db')"
    and "unmarshal (de_marshal E (outgoingEventPayload i ((submitted_outgoing E parse m)\<lparr>om_InReplyTo := [], om_ThreadID := []\<rparr>))) =
           Inr (queued_payload E parse m)"
    and "list_all (\<lambda>r. readable parse r \<and> go_ToLower r = r) (sm_Recipients m)"
    and "list_all (readable parse) (header_addresses (sm_Parsed m))"
    and "sm_Recipients m \<noteq> []" and "length (header_addresses (sm_Parsed m)) + length (sm_Recipients m) \<le> 100"
    and "go_TrimSpace i \<noteq> []" and "\<not> containsLineBreak (go_TrimSpace i)" and "length (go_TrimSpace i) \<le> 200"
    and "go_TrimSpace (pm_MessageID (sm_Parsed m)) \<noteq> []" and "\<not> containsLineBreak (go_TrimSpace (pm_MessageID (sm_Parsed m)))"
    and "length (go_TrimSpace (pm_MessageID (sm_Parsed m))) \<le> 500"
    and "go_TrimSpace (sm_EnvelopeFrom m) = sm_EnvelopeFrom m" and "sm_EnvelopeFrom m \<noteq> []"
    and "NormalizeAddress parse (sm_EnvelopeFrom m) = Inr (sm_EnvelopeFrom m)"
    and "normalizeQueuedDSNOptions parse (storedEventDSN (sm_DSN m)) = Inr d"
    and "normalizeQueuedStoragePath (sm_StoragePath m) = Inr (sm_StoragePath m)"
  shows "\<exists>q. DecodeQueuedMessage parse (unmarshal (ox_payload (last (md_outbox db')))) = Inr q \<and>
    set (map Email (qm_Recipients parse q)) = set (sm_Recipients m) \<union> set (map go_ToLower (header_addresses (sm_Parsed m))) \<and>
    Email (qm_From q) = sm_EnvelopeFrom m \<and> qm_StoragePath q = sm_StoragePath m \<and> qm_UserID q = su_UserID (sm_User m)"
proof -
  let ?q = "queued_payload E parse m"
  have src: "go_TrimSpace (om_SourceMessageID (submitted_outgoing E parse m)) = []" by (simp add: submitted_outgoing_def Let_def)
  from RecordOutgoing_run [OF assms(1) [unfolded RecordSubmitted_def] src] have i: "i = de_message_id E"
    and payload: "unmarshal (ox_payload (last (md_outbox db'))) = Inr ?q"
    using assms(2) by (auto simp: outgoing_event_def)
  have env: "list_all (\<lambda>r. NormalizeAddress parse r = Inr r) (sm_Recipients m)"
    using assms(3) by (simp add: list_all_iff readable_def)
  have loop: "a \<in> set (bcc_loop parse seen rs) \<Longrightarrow> \<exists>r\<in>set rs. NormalizeAddress parse r = Inr (Email a)" for a seen rs
    by (induction parse seen rs rule: bcc_loop.induct) (auto split: sum.splits if_splits)
  have all: "list_all (\<lambda>a. readable parse (Email a)) (qm_To ?q @ qm_Cc ?q @ qm_Bcc ?q)"
    using assms(3,4) env loop
    by (fastforce simp: list_all_iff queued_payload_fields outboundFromParsed_def submittedBccRecipients_def header_addresses_def)
  note emails = queued_emails [OF env assms(4), of E]
  have nonzero: "queuedRawRecipientCount ?q \<noteq> 0"
  proof
    assume "queuedRawRecipientCount ?q = 0"
    then have "qm_To ?q @ qm_Cc ?q @ qm_Bcc ?q = []" by (simp add: queuedRawRecipientCount_def)
    with emails assms(5) show False by auto
  qed
  have "\<exists>q'. DecodeQueuedMessage parse (Inr ?q) = Inr q' \<and> qm_StoragePath q' = qm_StoragePath ?q \<and>
    Email (qm_From q') = Email (qm_From ?q) \<and> qm_UserID q' = qm_UserID ?q \<and>
    {n. \<exists>a\<in>set (qm_To q' @ qm_Cc q' @ qm_Bcc q'). NormalizeAddress parse (Email a) = Inr n} =
    {n. \<exists>a\<in>set (qm_To ?q @ qm_Cc ?q @ qm_Bcc ?q). NormalizeAddress parse (Email a) = Inr n}"
    by (rule decode_readable [where d = d])
       (use assms i all nonzero queued_count(1) [of E parse m] in
         \<open>simp_all add: queued_payload_fields emptyGeneratedMessageID_def\<close>)
  then obtain q' where q': "DecodeQueuedMessage parse (Inr ?q) = Inr q'" "qm_StoragePath q' = sm_StoragePath m"
    "Email (qm_From q') = sm_EnvelopeFrom m" "qm_UserID q' = qm_UserID ?q"
    and same: "{n. \<exists>a\<in>set (qm_To q' @ qm_Cc q' @ qm_Bcc q'). NormalizeAddress parse (Email a) = Inr n} =
      set (sm_Recipients m) \<union> set (map go_ToLower (header_addresses (sm_Parsed m)))"
    using assms(13,14) unfolding emails by (auto simp: queued_payload_fields)
  have "qm_UserID ?q = su_UserID (sm_User m)"
    by (simp add: queued_payload_def outgoingEventPayload_def submitted_outgoing_def queued_message.defs Let_def)
  moreover have "set (map Email (qm_Recipients parse q')) = set (sm_Recipients m) \<union> set (map go_ToLower (header_addresses (sm_Parsed m)))"
    unfolding qm_Recipients_def recipients_from_set using same by simp
  ultimately show ?thesis unfolding payload using q' by (intro exI [of _ q']) simp
qed

theorem recorded_submission_reaches_the_worker_witness:
  "\<exists>q. DecodeQueuedMessage Some (sample_unmarshal (ox_payload (last (md_outbox (snd (RecordSubmitted sample_env Some sample_submitted sample_db)))))) = Inr q \<and>
     set (map Email (qm_Recipients Some q)) = {''lee@x.kr'', ''cho@y.kr'', ''list@z.kr''}"
proof -
  have run: "RecordSubmitted sample_env Some sample_submitted sample_db =
      (Inr ''id1'', snd (RecordSubmitted sample_env Some sample_submitted sample_db))"
    using sample_recorded by (simp add: prod_eq_iff)
  have json: "sample_unmarshal (de_marshal sample_env (outgoingEventPayload ''id1''
      ((submitted_outgoing sample_env Some sample_submitted)\<lparr>om_InReplyTo := [], om_ThreadID := []\<rparr>))) =
      Inr (queued_payload sample_env Some sample_submitted)"
    by (simp add: sample_unmarshal_def sample_env_def)
  have d: "normalizeQueuedDSNOptions Some (storedEventDSN (sm_DSN sample_submitted)) = Inr \<lparr>dsn_Return = [], dsn_EnvelopeID = [], dsn_Recipients = []\<rparr>"
    by code_simp
  have addresses: "list_all (\<lambda>r. readable Some r \<and> go_ToLower r = r) (sm_Recipients sample_submitted)"
    "list_all (readable Some) (header_addresses (sm_Parsed sample_submitted))"
    "set (sm_Recipients sample_submitted) \<union> set (map go_ToLower (header_addresses (sm_Parsed sample_submitted))) =
      {''lee@x.kr'', ''cho@y.kr'', ''list@z.kr''}"
    unfolding readable_def by code_simp+
  have rest: "sm_Recipients sample_submitted \<noteq> []"
    "length (header_addresses (sm_Parsed sample_submitted)) + length (sm_Recipients sample_submitted) \<le> 100"
    "go_TrimSpace ''id1'' \<noteq> []" "\<not> containsLineBreak (go_TrimSpace ''id1'')" "length (go_TrimSpace ''id1'') \<le> 200"
    "go_TrimSpace (pm_MessageID (sm_Parsed sample_submitted)) \<noteq> []"
    "\<not> containsLineBreak (go_TrimSpace (pm_MessageID (sm_Parsed sample_submitted)))"
    "length (go_TrimSpace (pm_MessageID (sm_Parsed sample_submitted))) \<le> 500"
    "go_TrimSpace (sm_EnvelopeFrom sample_submitted) = sm_EnvelopeFrom sample_submitted" "sm_EnvelopeFrom sample_submitted \<noteq> []"
    "NormalizeAddress Some (sm_EnvelopeFrom sample_submitted) = Inr (sm_EnvelopeFrom sample_submitted)"
    by code_simp+
  have path: "normalizeQueuedStoragePath (sm_StoragePath sample_submitted) = Inr (sm_StoragePath sample_submitted)" by code_simp
  from recorded_submission_reaches_the_worker [where E = sample_env and parse = Some and m = sample_submitted and
      i = "''id1''" and unmarshal = sample_unmarshal, OF run json addresses(1,2) rest d path] addresses(3) show ?thesis by auto
qed

definition picky_parser :: addr_parser where
  "picky_parser s = (if s = ''list@z.kr'' then None else Some s)"

lemma bad_header_is_refused:
  assumes "(\<exists>a. a \<in> set (header_addresses (sm_Parsed m)) \<and> isl (NormalizeAddress parse a)) \<or>
      100 < length (header_addresses (sm_Parsed m))"
  shows "isl (DecodeQueuedMessage parse (Inr (queued_payload E parse m)))"
proof -
  let ?q = "queued_payload E parse m"
  have "100 < queuedRawRecipientCount (?q\<lparr>qm_MessageID := x, qm_RFCMessageID := y, qm_From := f\<rparr>) \<or>
    isl (normalizeQueuedRecipients parse (?q\<lparr>qm_MessageID := x, qm_RFCMessageID := y, qm_From := f\<rparr>))" for x y f
    using assms
  proof
    assume "100 < length (header_addresses (sm_Parsed m))"
    with queued_count(2) [of m E parse] show ?thesis by (simp add: queuedRawRecipientCount_def)
  next
    assume "\<exists>a. a \<in> set (header_addresses (sm_Parsed m)) \<and> isl (NormalizeAddress parse a)"
    then obtain a e where "a \<in> set (header_addresses (sm_Parsed m))" "NormalizeAddress parse a = Inl e"
      by (auto simp: isl_def)
    moreover have "map Email (qm_To ?q @ qm_Cc ?q @ qm_Bcc ?q) = header_addresses (sm_Parsed m) @ map Email (bcc_loop parse
        (set (map (\<lambda>a. go_ToLower (pa_Address a)) (pm_To (sm_Parsed m) @ pm_Cc (sm_Parsed m) @ pm_Bcc (sm_Parsed m)))) (sm_Recipients m))"
      by (simp add: header_addresses_def queued_payload_fields outboundFromParsed_def submittedBccRecipients_def)
    ultimately have "a \<in> set (map Email (qm_To ?q @ qm_Cc ?q @ qm_Bcc ?q))" by simp
    then obtain b where "b \<in> set (qm_To ?q) \<or> b \<in> set (qm_Cc ?q) \<or> b \<in> set (qm_Bcc ?q)" "NormalizeAddress parse (Email b) = Inl e"
      using \<open>NormalizeAddress parse a = Inl e\<close> by auto
    then show ?thesis
      using normalizeAddressList_fails [of b "qm_To ?q" parse e "''to''"] normalizeAddressList_fails [of b "qm_Cc ?q" parse e "''cc''"]
        normalizeAddressList_fails [of b "qm_Bcc ?q" parse e "''bcc''"]
      by (auto simp: normalizeQueuedRecipients_def split: sum.splits)
  qed
  then have "\<nexists>q'. DecodeQueuedMessage parse (Inr ?q) = Inr q'"
    using decode_success [of parse ?q] by fastforce
  then show ?thesis by (cases "DecodeQueuedMessage parse (Inr ?q)") auto
qed

lemma sql_healthy: "sql (\<lambda>_. None) what f db = (Inr (), f db)"
  by (simp add: sql_def update_op_def)

lemma query_healthy: "query (\<lambda>_. None) what f db = (Inr (f db), db)"
  by (simp add: query_def get_op_def ok_op_def)

text \<open>A database that answers takes every submission that the quota allows.\<close>

lemma RecordSubmitted_healthy:
  assumes "de_fails E = (\<lambda>_. None)"
    and "fst (checkAndIncrementUserQuota (\<lambda>_. None) (su_UserID (sm_User m)) (sm_Size m) db) = Inr ()"
  shows "\<exists>db'. RecordSubmitted E parse m db = (Inr (de_message_id E), db')"
proof -
  let ?msg = "submitted_outgoing E parse m"
  have msg: "om_UserID ?msg = su_UserID (sm_User m)" "om_Size ?msg = sm_Size m" "om_SourceMessageID ?msg = []"
    by (simp_all add: submitted_outgoing_def Let_def)
  have trim: "go_TrimSpace [] = []" by code_simp
  obtain db1 where charge: "checkAndIncrementUserQuota (\<lambda>_. None) (su_UserID (sm_User m)) (sm_Size m) db = (Inr (), db1)"
    using assms(2) by (cases "checkAndIncrementUserQuota (\<lambda>_. None) (su_UserID (sm_User m)) (sm_Size m) db") auto
  have "\<exists>i db2. sentFolderID E u db1 = (Inr i, db2)" for u
    by (auto simp: sentFolderID_def assms(1) try_op_def query_healthy sql_healthy ok_op_def split: list.splits)
  then obtain i db2 where "sentFolderID E (su_UserID (sm_User m)) db1 = (Inr i, db2)" by blast
  then show ?thesis
    by (simp add: RecordSubmitted_def RecordOutgoing_def in_transaction_def try_op_def assms(1) sql_healthy msg charge
        ensureOutgoingSource_def outgoingThread_def trim ok_op_def insertOutgoingOutbox_def Let_def)
qed

text \<open>
  C31. One bad address keeps a submission from everyone. A message whose header names an address that the worker
  cannot parse, or whose header names more than 100 addresses, is recorded by any database that answers, if the user has the
  quota: \<open>RecordSubmitted\<close> gives the client its id and adds one event to the outbox. But the worker refuses the payload
  of that event, read back by an unmarshaller that is faithful to it, so that none of the recipients gets the
  message.
\<close>

theorem unreadable_header_blocks_delivery:
  assumes "(\<exists>a. a \<in> set (header_addresses (sm_Parsed m)) \<and> isl (NormalizeAddress parse a)) \<or>
      100 < length (header_addresses (sm_Parsed m))"
    and "de_fails E = (\<lambda>_. None)"
    and "fst (checkAndIncrementUserQuota (\<lambda>_. None) (su_UserID (sm_User m)) (sm_Size m) db) = Inr ()"
    and "unmarshal (de_marshal E (outgoingEventPayload (de_message_id E)
           ((submitted_outgoing E parse m)\<lparr>om_InReplyTo := [], om_ThreadID := []\<rparr>))) = Inr (queued_payload E parse m)"
  shows "\<exists>db' ev. RecordSubmitted E parse m db = (Inr (de_message_id E), db') \<and> md_outbox db' = md_outbox db @ [ev] \<and>
    isl (DecodeQueuedMessage parse (unmarshal (ox_payload ev)))"
proof -
  obtain db' where db': "RecordSubmitted E parse m db = (Inr (de_message_id E), db')"
    using RecordSubmitted_healthy [OF assms(2,3)] by blast
  have src: "go_TrimSpace (om_SourceMessageID (submitted_outgoing E parse m)) = []" by (simp add: submitted_outgoing_def Let_def)
  from RecordOutgoing_run [OF db' [unfolded RecordSubmitted_def] src] have "md_outbox db' = md_outbox db @
      [outgoing_event E (de_message_id E) ((submitted_outgoing E parse m)\<lparr>om_InReplyTo := [], om_ThreadID := []\<rparr>)]" by blast
  with db' show ?thesis using bad_header_is_refused [OF assms(1), of E] assms(4) by (simp add: outgoing_event_def)
qed

definition picky_unmarshal :: "string \<Rightarrow> queued_message res" where
  "picky_unmarshal s = (if s = ''json'' then Inr (queued_payload sample_env picky_parser sample_submitted) else Inl ''invalid character'')"

theorem unreadable_header_blocks_delivery_witness:
  "\<exists>db' ev. RecordSubmitted sample_env picky_parser sample_submitted sample_db = (Inr ''id1'', db') \<and> md_outbox db' = [ev] \<and>
     isl (DecodeQueuedMessage picky_parser (picky_unmarshal (ox_payload ev)))"
proof -
  have "isl (NormalizeAddress picky_parser ''list@z.kr'')" "''list@z.kr'' \<in> set (header_addresses (sm_Parsed sample_submitted))"
    by code_simp+
  then have bad: "(\<exists>a. a \<in> set (header_addresses (sm_Parsed sample_submitted)) \<and> isl (NormalizeAddress picky_parser a)) \<or>
      100 < length (header_addresses (sm_Parsed sample_submitted))" by blast
  have quota: "fst (checkAndIncrementUserQuota (\<lambda>_. None) (su_UserID (sm_User sample_submitted)) (sm_Size sample_submitted) sample_db) = Inr ()"
    by code_simp
  have e: "de_fails sample_env = (\<lambda>_. None)" "de_message_id sample_env = ''id1''" "md_outbox sample_db = []"
    by (simp_all add: sample_env_def sample_db_def quota_db.defs)
  have codec: "picky_unmarshal (de_marshal sample_env x) = Inr (queued_payload sample_env picky_parser sample_submitted)" for x
    by (simp add: picky_unmarshal_def sample_env_def)
  from unreadable_header_blocks_delivery [where unmarshal = picky_unmarshal, OF bad e(1) quota codec] e show ?thesis by simp
qed

end
