(* ===== verification/MessageRecord.thy ===== *)
theory MessageRecord
  imports SubmissionQueue SmtpReceiver
begin

text \<open>
  The mail database on the side of the inbound receiver: \<open>internal/maildb/repository.go\<close>. \<open>ResolveRecipient\<close>
  looks up the mailbox of an address; \<open>Record\<close> files a received message in one transaction: it charges the
  quota, finds the folder and the thread, adds the row of the message and the event \<open>mail.stored\<close>. The
  environment extends that of \<open>SubmissionQueue\<close>; where a query with \<open>LIMIT 1\<close> leaves the order open, the
  environment chooses it.
\<close>

section \<open>Resolving a recipient\<close>

definition normalizeAddressACE :: "addr_parser \<Rightarrow> string \<Rightarrow> string res" where
  "normalizeAddressACE parse raw =
     (case NormalizeAddress parse raw of Inl e \<Rightarrow> Inl e | Inr a \<Rightarrow> Inr (go_ToLower (go_TrimSpace a)))"

definition recipient_rows :: "string \<Rightarrow> mail_db \<Rightarrow> smtp_mailbox list" where
  "recipient_rows addressACE db =
     [\<lparr>bx_CompanyID = q_parent d, bx_DomainID = ua_domain a, bx_UserID = ua_user a, bx_Address = ua_address a\<rparr>.
       a \<leftarrow> md_addresses db, ua_address_ace a = addressACE,
       u \<leftarrow> qd_users db, q_id u = ua_user a \<and> q_active u,
       d \<leftarrow> qd_domains db, q_id d = ua_domain a \<and> q_active d]"

definition ResolveRecipient :: "(string \<Rightarrow> string option) \<Rightarrow> addr_parser \<Rightarrow> string \<Rightarrow> smtp_mailbox mop" where
  "ResolveRecipient fails parse addr =
     (case normalizeAddressACE parse addr of
        Inl e \<Rightarrow> fail_op (PlainErr e)
      | Inr addressACE \<Rightarrow>
          try_op (query fails ''resolve recipient'' (recipient_rows addressACE)) (\<lambda>rows.
          case rows of [] \<Rightarrow> fail_op (PlainErr ''recipient not found'') | b # _ \<Rightarrow> ok_op b))"

section \<open>The thread of a message\<close>

definition threadCandidates :: "string \<Rightarrow> string list \<Rightarrow> string list" where
  "threadCandidates inReplyTo references = references @ (if go_TrimSpace inReplyTo \<noteq> [] then [inReplyTo] else [])"

definition angle_candidate :: "string \<Rightarrow> string" where
  "angle_candidate c =
     (let c = (if prefix ''<'' c then c else ''<'' @ c) in if suffix ''>'' c then c else c @ ''>'')"

fun candidates_loop :: "string set \<Rightarrow> string list \<Rightarrow> string list" where
  "candidates_loop seen [] = []"
| "candidates_loop seen (c0 # cs) =
     (let c = go_TrimSpace c0 in
      if c = [] then candidates_loop seen cs
      else if go_ToLower (angle_candidate c) \<in> seen then candidates_loop seen cs
      else angle_candidate c # candidates_loop (insert (go_ToLower (angle_candidate c)) seen) cs)"

definition normalizeThreadCandidates :: "string list \<Rightarrow> string list" where
  "normalizeThreadCandidates cs = candidates_loop {} cs"

section \<open>The event\<close>

record stored_payload =
  sp_message_id :: string
  sp_rfc_message_id :: string
  sp_in_reply_to :: string
  sp_references :: "string list"
  sp_company_id :: string
  sp_domain_id :: string
  sp_user_id :: string
  sp_folder_id :: string
  sp_recipient :: string
  sp_subject :: string
  sp_storage_path :: string
  sp_received_at :: int
  sp_size :: int
  sp_envelope_from :: string
  sp_dsn :: dsn_options
  sp_authentication_results :: auth_results

definition storedEventPayload :: "string \<Rightarrow> string \<Rightarrow> received_message \<Rightarrow> stored_payload" where
  "storedEventPayload messageID folderID m =
     \<lparr>sp_message_id = messageID, sp_rfc_message_id = pm_MessageID (rm_Parsed m), sp_in_reply_to = pm_InReplyTo (rm_Parsed m),
      sp_references = pm_References (rm_Parsed m), sp_company_id = bx_CompanyID (rm_Mailbox m),
      sp_domain_id = bx_DomainID (rm_Mailbox m), sp_user_id = bx_UserID (rm_Mailbox m), sp_folder_id = go_TrimSpace folderID,
      sp_recipient = bx_Address (rm_Mailbox m), sp_subject = pm_Subject (rm_Parsed m), sp_storage_path = rm_StoragePath m,
      sp_received_at = rm_ReceivedAt m, sp_size = rm_Size m, sp_envelope_from = rm_EnvelopeFrom m,
      sp_dsn = storedEventDSN (rm_DSN m), sp_authentication_results = rm_Authentication m\<rparr>"

section \<open>Recording\<close>

record record_env = db_env +
  re_pick_folder :: nat \<comment> \<open>which row a query with \<open>LIMIT 1\<close> yields\<close>
  re_pick_message :: nat
  re_system_folder_id :: "string \<Rightarrow> string" \<comment> \<open>the id of a new system folder, by its path\<close>
  re_marshal :: "stored_payload \<Rightarrow> string"

definition pick_row :: "nat \<Rightarrow> 'a list \<Rightarrow> 'a option" where
  "pick_row k rows = (if rows = [] then None else Some (rows ! (k mod length rows)))"

definition system_folder :: "record_env \<Rightarrow> string \<Rightarrow> string \<Rightarrow> mail_db \<Rightarrow> folder_row option" where
  "system_folder E userID systemType db =
     pick_row (re_pick_folder E) (filter (\<lambda>f. fo_user f = userID \<and> fo_type f = ''system'' \<and> fo_system_type f = systemType) (md_folders db))"

definition folder_type :: "string \<Rightarrow> string" where
  "folder_type t = (if go_TrimSpace t = [] then ''inbox'' else go_TrimSpace t)"

lemma trim_inbox: "go_TrimSpace ''inbox'' = ''inbox''"
  by code_simp

function deliveryFolderID :: "record_env \<Rightarrow> string \<Rightarrow> string \<Rightarrow> string mop" where
  "deliveryFolderID E userID systemType0 =
     (let systemType = folder_type systemType0 in
      try_op (query (de_fails E) (''lookup '' @ systemType @ '' folder'') (system_folder E userID systemType)) (\<lambda>row.
      case row of
        Some f \<Rightarrow> ok_op (fo_id f)
      | None \<Rightarrow> if systemType \<noteq> ''inbox'' then deliveryFolderID E userID ''inbox''
              else fail_op (PlainErr ''inbox folder not found'')))"
  by pat_completeness auto

termination
  by (relation "measure (\<lambda>(E, u, t). if folder_type t = ''inbox'' then 0 else 1)")
     (auto simp: folder_type_def trim_inbox split: if_splits)

declare deliveryFolderID.simps [simp del]

definition thread_row :: "record_env \<Rightarrow> string \<Rightarrow> string list \<Rightarrow> mail_db \<Rightarrow> message_row option" where
  "thread_row E userID candidates db =
     first_some (\<lambda>c. pick_row (re_pick_message E)
       (filter (\<lambda>r. mr_user r = go_TrimSpace userID \<and> mr_rfc_message_id r = c) (md_messages db))) candidates"

definition resolveThreadID :: "record_env \<Rightarrow> string \<Rightarrow> string list \<Rightarrow> string mop" where
  "resolveThreadID E userID candidates0 =
     (let candidates = normalizeThreadCandidates candidates0 in
      if candidates = [] then ok_op []
      else try_op (query (de_fails E) ''resolve message thread'' (thread_row E userID candidates)) (\<lambda>row.
           case row of None \<Rightarrow> ok_op []
           | Some r \<Rightarrow> ok_op (if mr_thread_id r = [] then mr_id r else mr_thread_id r)))"

definition emptyToNull :: "string \<Rightarrow> string" where
  "emptyToNull v = (if go_TrimSpace v = [] then [] else v)"

definition received_row :: "record_env \<Rightarrow> string \<Rightarrow> string \<Rightarrow> received_message \<Rightarrow> message_row" where
  "received_row E folderID threadID m =
     \<lparr>mr_id = de_message_id E, mr_domain = bx_DomainID (rm_Mailbox m), mr_user = bx_UserID (rm_Mailbox m), mr_folder = folderID,
      mr_intent = ''new'', mr_source = [], mr_rfc_message_id = emptyToNull (pm_MessageID (rm_Parsed m)),
      mr_in_reply_to = emptyToNull (pm_InReplyTo (rm_Parsed m)), mr_thread_id = threadID, mr_subject = pm_Subject (rm_Parsed m),
      mr_from = \<lparr>Name = pa_Name (pm_From (rm_Parsed m)), Email = pa_Address (pm_From (rm_Parsed m))\<rparr>,
      mr_to = outboundFromParsed (pm_To (rm_Parsed m)), mr_cc = outboundFromParsed (pm_Cc (rm_Parsed m)),
      mr_bcc = outboundFromParsed (pm_Bcc (rm_Parsed m)), mr_received_at = Some (rm_ReceivedAt m), mr_sent_at = None,
      mr_draft_updated_at = None, mr_created_at = de_now E, mr_size = rm_Size m,
      mr_has_attachment = pm_HasAttachment (rm_Parsed m), mr_storage_path = rm_StoragePath m, mr_active = True\<rparr>"

definition stored_outbox_event :: "record_env \<Rightarrow> string \<Rightarrow> string \<Rightarrow> received_message \<Rightarrow> outbox_entry" where
  "stored_outbox_event E messageID folderID m =
     \<lparr>ox_id = de_outbox_id E, ox_topic = ''mail.event'', ox_partition_key = messageID,
      ox_payload = re_marshal E (storedEventPayload messageID folderID m), ox_status = Pending, ox_attempts = 0,
      ox_available_at = de_now E, ox_locked_at = None, ox_created_at = de_now E, ox_last_error = None, ox_processed_at = None\<rparr>"

definition insertStoredOutbox :: "record_env \<Rightarrow> string \<Rightarrow> string \<Rightarrow> received_message \<Rightarrow> unit mop" where
  "insertStoredOutbox E messageID folderID m =
     sql (de_fails E) ''insert mail.stored outbox event'' (\<lambda>db. db\<lparr>md_outbox := md_outbox db @ [stored_outbox_event E messageID folderID m]\<rparr>)"

text \<open>\<open>deliveryFolderID\<close> reads through another connection than the transaction; what the transaction has
  changed by then are the ledgers, which it does not read.\<close>

definition Record :: "record_env \<Rightarrow> received_message \<Rightarrow> string mop" where
  "Record E m = in_transaction (
     try_op (sql (de_fails E) ''begin record message transaction'' (\<lambda>db. db)) (\<lambda>_.
     try_op (checkAndIncrementUserQuota (de_fails E) (bx_UserID (rm_Mailbox m)) (rm_Size m)) (\<lambda>_.
     try_op (deliveryFolderID E (bx_UserID (rm_Mailbox m)) (rm_FolderSystemType m)) (\<lambda>folderID.
     try_op (resolveThreadID E (bx_UserID (rm_Mailbox m))
       (threadCandidates (pm_InReplyTo (rm_Parsed m)) (pm_References (rm_Parsed m)))) (\<lambda>threadID.
     try_op (sql (de_fails E) ''insert message metadata''
       (\<lambda>db. db\<lparr>md_messages := md_messages db @ [received_row E folderID threadID m]\<rparr>)) (\<lambda>_.
     try_op (insertStoredOutbox E (de_message_id E) folderID m) (\<lambda>_.
     try_op (sql (de_fails E) ''commit record message transaction'' (\<lambda>db. db)) (\<lambda>_.
     ok_op (de_message_id E)))))))))"


section \<open>What recording does\<close>

lemma pick_row_in: "pick_row k rows = Some r \<Longrightarrow> r \<in> set rows"
  by (auto simp: pick_row_def split: if_splits)

lemma pick_row_some: "pick_row k rows \<noteq> None \<longleftrightarrow> rows \<noteq> []"
  by (simp add: pick_row_def)

lemma deliveryFolderID_step:
  assumes "deliveryFolderID E u t db = (Inr i, db')"
  shows "case system_folder E u (folder_type t) db of
      Some f \<Rightarrow> db' = db \<and> i = fo_id f
    | None \<Rightarrow> folder_type t \<noteq> ''inbox'' \<and> deliveryFolderID E u ''inbox'' db = (Inr i, db')"
proof -
  have "try_op (query (de_fails E) (''lookup '' @ folder_type t @ '' folder'') (system_folder E u (folder_type t))) (\<lambda>row.
      case row of Some f \<Rightarrow> ok_op (fo_id f)
      | None \<Rightarrow> if folder_type t \<noteq> ''inbox'' then deliveryFolderID E u ''inbox''
              else fail_op (PlainErr ''inbox folder not found'')) db = (Inr i, db')"
    using assms unfolding deliveryFolderID.simps [of E u t] Let_def .
  then show ?thesis
  proof (rule try_op_InrE)
    fix row s1
    assume "query (de_fails E) (''lookup '' @ folder_type t @ '' folder'') (system_folder E u (folder_type t)) db = (Inr row, s1)"
    from query_run [OF this] have row: "row = system_folder E u (folder_type t) db" "s1 = db" by simp_all
    assume "(case row of Some f \<Rightarrow> ok_op (fo_id f)
      | None \<Rightarrow> if folder_type t \<noteq> ''inbox'' then deliveryFolderID E u ''inbox''
              else fail_op (PlainErr ''inbox folder not found'')) s1 = (Inr i, db')"
    with row show ?thesis by (auto simp: ok_op_def fail_op_def split: if_splits option.splits)
  qed
qed

lemma system_folder_some:
  assumes "system_folder E u t db = Some f"
  shows "f \<in> set (md_folders db) \<and> fo_user f = u \<and> fo_type f = ''system'' \<and> fo_system_type f = t"
  using pick_row_in [OF assms [unfolded system_folder_def]] by simp

lemma system_folder_none:
  "system_folder E u t db = None \<longleftrightarrow>
   \<not> list_ex (\<lambda>f. fo_user f = u \<and> fo_type f = ''system'' \<and> fo_system_type f = t) (md_folders db)"
  by (simp add: system_folder_def pick_row_def filter_empty_conv list_ex_iff)

lemma deliveryFolderID_run:
  assumes "deliveryFolderID E u t db = (Inr i, db')"
  shows "db' = db \<and> (\<exists>f\<in>set (md_folders db). fo_id f = i \<and> fo_user f = u \<and> fo_type f = ''system'' \<and>
    (fo_system_type f = folder_type t \<or> fo_system_type f = ''inbox'' \<and> system_folder E u (folder_type t) db = None))"
proof (cases "system_folder E u (folder_type t) db")
  case (Some f)
  with deliveryFolderID_step [OF assms] system_folder_some [OF Some] show ?thesis by auto
next
  case None
  with deliveryFolderID_step [OF assms] have again: "deliveryFolderID E u ''inbox'' db = (Inr i, db')" by simp
  have inbox: "folder_type ''inbox'' = ''inbox''" by (simp add: folder_type_def trim_inbox)
  show ?thesis
  proof (cases "system_folder E u ''inbox'' db")
    case (Some f)
    with deliveryFolderID_step [OF again] system_folder_some [OF Some] None inbox show ?thesis by auto
  next
    case None
    with deliveryFolderID_step [OF again] inbox show ?thesis by simp
  qed
qed

lemma resolveThreadID_run:
  assumes "resolveThreadID E u cs db = (Inr t, db')"
  shows "db' = db \<and> t = (case thread_row E u (normalizeThreadCandidates cs) db of None \<Rightarrow> []
    | Some r \<Rightarrow> if mr_thread_id r = [] then mr_id r else mr_thread_id r)"
proof (cases "normalizeThreadCandidates cs = []")
  case True
  with assms show ?thesis by (simp add: resolveThreadID_def ok_op_def thread_row_def)
next
  case False
  with assms show ?thesis
    by (auto simp: resolveThreadID_def ok_op_def elim!: try_op_InrE dest!: query_run split: option.splits)
qed


lemma Record_run:
  assumes "Record E m db = (Inr i, db')"
  shows "\<exists>folderID threadID db1.
    checkAndIncrementUserQuota (de_fails E) (bx_UserID (rm_Mailbox m)) (rm_Size m) db = (Inr (), db1) \<and>
    deliveryFolderID E (bx_UserID (rm_Mailbox m)) (rm_FolderSystemType m) db1 = (Inr folderID, db1) \<and>
    threadID = (case thread_row E (bx_UserID (rm_Mailbox m))
        (normalizeThreadCandidates (threadCandidates (pm_InReplyTo (rm_Parsed m)) (pm_References (rm_Parsed m)))) db1 of None \<Rightarrow> []
      | Some r \<Rightarrow> if mr_thread_id r = [] then mr_id r else mr_thread_id r) \<and>
    i = de_message_id E \<and>
    db' = db1\<lparr>md_messages := md_messages db1 @ [received_row E folderID threadID m],
      md_outbox := md_outbox db1 @ [stored_outbox_event E i folderID m]\<rparr>"
proof -
  from assms obtain db1 db2 db3 folderID threadID where
    charge: "checkAndIncrementUserQuota (de_fails E) (bx_UserID (rm_Mailbox m)) (rm_Size m) db = (Inr (), db1)" and
    folder: "deliveryFolderID E (bx_UserID (rm_Mailbox m)) (rm_FolderSystemType m) db1 = (Inr folderID, db2)" and
    thread: "resolveThreadID E (bx_UserID (rm_Mailbox m))
      (threadCandidates (pm_InReplyTo (rm_Parsed m)) (pm_References (rm_Parsed m))) db2 = (Inr threadID, db3)" and
    i: "i = de_message_id E" and
    db': "db' = db3\<lparr>md_messages := md_messages db3 @ [received_row E folderID threadID m],
      md_outbox := md_outbox db3 @ [stored_outbox_event E (de_message_id E) folderID m]\<rparr>"
    by (auto simp: Record_def in_transaction_def ok_op_def insertStoredOutbox_def
        split: prod.splits sum.splits elim!: try_op_InrE dest!: sql_run)
  from deliveryFolderID_run [OF folder] have db2: "db2 = db1" by simp
  from resolveThreadID_run [OF thread] show ?thesis
    using charge folder i unfolding db' db2 by (intro exI [of _ folderID] exI [of _ threadID] exI [of _ db1]) simp
qed

lemma Record_error: "Record E m db = (Inl e, db') \<Longrightarrow> db' = db"
  by (auto simp: Record_def in_transaction_def split: prod.splits sum.splits)

section \<open>Properties\<close>

text \<open>
  C16. Recording a received message is all or nothing. Whatever statement the database refuses, an error leaves the
  database as it was. Otherwise the size of the message is charged to the user, the domain of the user and the company of the
  domain, and to no other ledger; one message is added for the user of the mailbox, with the path and size of
  the stored object, in the system folder that the receiver asked for, or in the inbox where there is no such
  folder; and one event \<open>mail.stored\<close> about it, available at once. The message joins the thread of the first
  of the messages it refers to that the user has. The ledgers stay balanced and within their limits.
\<close>

theorem receiving_is_atomic:
  assumes "balanced db" and "within_limits db"
  shows "case Record E m db of
      (Inl e, db') \<Rightarrow> db' = db
    | (Inr i, db') \<Rightarrow> balanced db' \<and> within_limits db' \<and> charged (bx_UserID (rm_Mailbox m)) (rm_Size m) db db' \<and>
        (\<exists>row ev f. md_messages db' = md_messages db @ [row] \<and> md_outbox db' = md_outbox db @ [ev] \<and>
           mr_id row = i \<and> mr_user row = bx_UserID (rm_Mailbox m) \<and> mr_storage_path row = rm_StoragePath m \<and>
           mr_size row = rm_Size m \<and> mr_received_at row = Some (rm_ReceivedAt m) \<and> mr_active row \<and>
           f \<in> set (md_folders db') \<and> fo_id f = mr_folder row \<and> fo_user f = mr_user row \<and> fo_type f = ''system'' \<and>
           (fo_system_type f = folder_type (rm_FolderSystemType m) \<or>
            fo_system_type f = ''inbox'' \<and> system_folder E (mr_user row) (folder_type (rm_FolderSystemType m)) db = None) \<and>
           mr_thread_id row = (case thread_row E (mr_user row)
               (normalizeThreadCandidates (threadCandidates (pm_InReplyTo (rm_Parsed m)) (pm_References (rm_Parsed m)))) db of None \<Rightarrow> []
             | Some r \<Rightarrow> if mr_thread_id r = [] then mr_id r else mr_thread_id r) \<and>
           ox_topic ev = ''mail.event'' \<and> ox_status ev = Pending \<and> ox_partition_key ev = i \<and>
           ox_payload ev = re_marshal E (storedEventPayload i (mr_folder row) m))"
proof (cases "Record E m db")
  case (Pair r db')
  show ?thesis
  proof (cases r)
    case (Inl e)
    with Pair show ?thesis by (auto dest: Record_error)
  next
    case (Inr i)
    let ?u = "bx_UserID (rm_Mailbox m)"
    from Record_run [OF Pair [unfolded Inr]] obtain folderID threadID db1 where
      charge: "checkAndIncrementUserQuota (de_fails E) ?u (rm_Size m) db = (Inr (), db1)" and
      folder: "deliveryFolderID E ?u (rm_FolderSystemType m) db1 = (Inr folderID, db1)" and
      thread: "threadID = (case thread_row E ?u
          (normalizeThreadCandidates (threadCandidates (pm_InReplyTo (rm_Parsed m)) (pm_References (rm_Parsed m)))) db1 of None \<Rightarrow> []
        | Some r \<Rightarrow> if mr_thread_id r = [] then mr_id r else mr_thread_id r)" and
      i: "i = de_message_id E" and
      db': "db' = db1\<lparr>md_messages := md_messages db1 @ [received_row E folderID threadID m],
        md_outbox := md_outbox db1 @ [stored_outbox_event E i folderID m]\<rparr>" by blast
    note same = checkQuota_frame [OF charge]
    have "balanced db' \<and> within_limits db' \<and> charged ?u (rm_Size m) db db'"
      using charge_keeps [OF charge assms] balanced_truncate [of db' db1] within_limits_truncate [of db' db1]
        charged_truncate [OF _ charge_charged [OF charge], of db'] by (simp add: db' quota_db.defs)
    moreover have "thread_row E ?u cs db1 = thread_row E ?u cs db" "system_folder E ?u t db1 = system_folder E ?u t db" for cs t
      using same by (simp_all add: thread_row_def system_folder_def)
    moreover from deliveryFolderID_run [OF folder] same obtain f where "f \<in> set (md_folders db1)" "fo_id f = folderID" "fo_user f = ?u"
      "fo_type f = ''system''" "fo_system_type f = folder_type (rm_FolderSystemType m) \<or>
        fo_system_type f = ''inbox'' \<and> system_folder E ?u (folder_type (rm_FolderSystemType m)) db1 = None" by blast
    ultimately show ?thesis
      using Pair Inr same i
      by (simp add: db' thread received_row_def stored_outbox_event_def) blast
  qed
qed

definition sample_record_env :: record_env where
  "sample_record_env = db_env.extend sample_env
     \<lparr>re_pick_folder = 0, re_pick_message = 0, re_system_folder_id = (\<lambda>path. ''s'' @ path), re_marshal = \<lambda>_. ''json''\<rparr>"

definition sample_mail_db :: mail_db where
  "sample_mail_db = sample_db\<lparr>md_folders := [\<lparr>fo_id = ''in'', fo_user = ''u'', fo_system_type = ''inbox'', fo_type = ''system'',
     fo_full_path = ''/Inbox'', fo_order_index = 0, fo_created_at = 0\<rparr>],
     md_addresses := [\<lparr>ua_user = ''u'', ua_domain = ''d'', ua_address = ''Kim@a.kr'', ua_address_ace = ''kim@a.kr''\<rparr>]\<rparr>"

definition sample_received :: received_message where
  "sample_received = \<lparr>rm_EnvelopeFrom = ''s@b.kr'',
     rm_Mailbox = \<lparr>bx_CompanyID = ''c'', bx_DomainID = ''d'', bx_UserID = ''u'', bx_Address = ''Kim@a.kr''\<rparr>,
     rm_DSN = SmtpEnvelope.no_dsn, rm_StoragePath = ''mailstore/c/d/u/maildir/2026/05/m1.eml'',
     rm_Parsed = sm_Parsed sample_submitted, rm_Authentication = no_results, rm_ReceivedAt = 3, rm_Size = 5,
     rm_FolderSystemType = ''spam''\<rparr>"

lemma sample_mail_db_ok: "balanced sample_mail_db" "within_limits sample_mail_db"
  using sample_db_ok by (simp_all add: sample_mail_db_def balanced_def unique_ids_def within_limits_def)

theorem receiving_is_atomic_witness:
  "\<exists>row. md_messages (snd (Record sample_record_env sample_received sample_mail_db)) = [row] \<and> mr_user row = ''u'' \<and> mr_folder row = ''in''"
proof -
  have "fst (Record sample_record_env sample_received sample_mail_db) = Inr ''id1''"
    "map mr_folder (md_messages (snd (Record sample_record_env sample_received sample_mail_db))) = [''in'']"
    "md_messages sample_mail_db = []" by code_simp+
  with receiving_is_atomic [OF sample_mail_db_ok, where E = sample_record_env and m = sample_received] show ?thesis
    by (auto simp: sample_received_def split: prod.splits)
qed

text \<open>Only addresses of active users in active domains are resolved.\<close>

lemma resolved_recipient:
  assumes "ResolveRecipient fails parse addr db = (Inr b, db')"
  shows "db' = db \<and> (\<exists>a\<in>set (md_addresses db). \<exists>u\<in>set (qd_users db). \<exists>d\<in>set (qd_domains db).
    normalizeAddressACE parse addr = Inr (ua_address_ace a) \<and> q_id u = ua_user a \<and> q_active u \<and> q_id d = ua_domain a \<and> q_active d \<and>
    b = \<lparr>bx_CompanyID = q_parent d, bx_DomainID = q_id d, bx_UserID = q_id u, bx_Address = ua_address a\<rparr>)"
proof -
  from assms obtain ace rows where ace: "normalizeAddressACE parse addr = Inr ace"
    and q: "query fails ''resolve recipient'' (recipient_rows ace) db = (Inr rows, db')" and rows: "\<exists>bs. rows = b # bs"
    by (auto simp: ResolveRecipient_def fail_op_def ok_op_def elim!: try_op_InrE dest: query_run split: sum.splits list.splits)
  from query_run [OF q] rows have "b \<in> set (recipient_rows ace db)" "db' = db" by (auto intro: list.set_intros(1))
  then obtain a u d where "a \<in> set (md_addresses db)" "u \<in> set (qd_users db)" "d \<in> set (qd_domains db)"
    "ua_address_ace a = ace" "q_id u = ua_user a" "q_active u" "q_id d = ua_domain a" "q_active d"
    "b = \<lparr>bx_CompanyID = q_parent d, bx_DomainID = ua_domain a, bx_UserID = ua_user a, bx_Address = ua_address a\<rparr>"
    by (auto simp: recipient_rows_def split: if_splits)
  with ace \<open>db' = db\<close> show ?thesis by (intro conjI bexI [of _ a] bexI [of _ u] bexI [of _ d]) simp_all
qed

end
