(* ===== verification/InboxListing.thy ===== *)
theory InboxListing
  imports MessageRecord Pop3Mailbox "HOL-Library.Product_Lexorder"
begin

text \<open>
  The inbox as POP3 sees it: the query and the cursor behind the listing loop of \<open>Pop3Mailbox\<close>, from
  \<open>internal/maildb/pagination.go\<close> (cursors), \<open>messages.go\<close> (\<open>ListPOP3InboxMessagesPage\<close>, \<open>ListFolders\<close>) and
  \<open>admin_users.go\<close> (\<open>createSystemFolders\<close>), over the tables of \<open>SubmissionQueue\<close>. A time is its number of nanoseconds
  since 1970, and None the zero time of Go. An id is a UUID in its canonical text, whose order as a
  text is the order of the \<open>uuid\<close> type.
\<close>

section \<open>Cursors\<close>

definition isUUIDLike :: "string \<Rightarrow> bool" where
  "isUUIDLike value0 =
     (let v = go_ToLower (go_TrimSpace value0) in
      length v = 36 \<and>
      list_all (\<lambda>(i, c). if i \<in> {8, 13, 18, 23} then c = CHR ''-''
        else is_digit c \<or> (97 \<le> byte_val c \<and> byte_val c \<le> 102)) (enumerate 0 v))"

definition EncodeMessageListCursor :: "list_cursor \<Rightarrow> string res" where
  "EncodeMessageListCursor cursor =
     (case cur_at cursor of
        None \<Rightarrow> Inl ''cursor timestamp is required''
      | Some at \<Rightarrow>
          if go_TrimSpace (cur_id cursor) = [] then Inl ''cursor message id is required''
          else Inr (b64_RawURLEncode (go_Itoa (wrap64 at) @ '':'' @ go_TrimSpace (cur_id cursor))))"

definition validateMessageListCursor :: "list_cursor \<Rightarrow> list_cursor res" where
  "validateMessageListCursor cursor =
     (if cur_at cursor = None then Inl ''cursor timestamp is required''
      else if go_TrimSpace (cur_id cursor) = [] then Inl ''cursor message id is required''
      else if \<not> isUUIDLike (go_TrimSpace (cur_id cursor)) then Inl ''cursor message id must be a UUID''
      else Inr (cursor\<lparr>cur_id := go_TrimSpace (cur_id cursor)\<rparr>))"

text \<open>The older form of a cursor is a JSON object; \<open>unmarshal\<close> is \<open>json.Unmarshal\<close>.\<close>

definition decodeMessageListCursorRaw :: "(string \<Rightarrow> list_cursor res) \<Rightarrow> string \<Rightarrow> list_cursor res" where
  "decodeMessageListCursorRaw unmarshal raw =
     (if prefix ''{'' raw
      then (case unmarshal raw of Inl e \<Rightarrow> Inl (''unmarshal message list cursor: '' @ e) | Inr c \<Rightarrow> validateMessageListCursor c)
      else (case go_Cut '':'' raw of
          None \<Rightarrow> Inl ''message list cursor payload is malformed''
        | Some (nanos, ident) \<Rightarrow>
            (case go_Atoi nanos of
               None \<Rightarrow> Inl ''parse message list cursor timestamp''
             | Some n \<Rightarrow> validateMessageListCursor \<lparr>cur_at = Some n, cur_id = ident\<rparr>)))"

definition MessageListCursorMaxBytes :: nat where "MessageListCursorMaxBytes = 1024"

definition DecodeMessageListCursor :: "(string \<Rightarrow> list_cursor res) \<Rightarrow> string \<Rightarrow> list_cursor res" where
  "DecodeMessageListCursor unmarshal value0 =
     (let v = go_TrimSpace value0 in
      if v = [] then Inr zero_cursor
      else if MessageListCursorMaxBytes < length v then Inl ''message list cursor is too long''
      else case b64_RawURLDecode v of
          None \<Rightarrow> Inl ''decode message list cursor''
        | Some raw \<Rightarrow> decodeMessageListCursorRaw unmarshal raw)"

section \<open>The query\<close>

definition message_at :: "message_row \<Rightarrow> int" where
  "message_at r =
     (case mr_received_at r of Some t \<Rightarrow> t
      | None \<Rightarrow> (case mr_sent_at r of Some t \<Rightarrow> t
        | None \<Rightarrow> (case mr_draft_updated_at r of Some t \<Rightarrow> t | None \<Rightarrow> mr_created_at r)))"

definition list_key :: "message_row \<Rightarrow> int \<times> string" where
  "list_key r = (message_at r, mr_id r)"

definition inbox_rows :: "string \<Rightarrow> string \<Rightarrow> mail_db \<Rightarrow> message_row list" where
  "inbox_rows userID folderID db = filter (\<lambda>r. mr_user r = userID \<and> mr_folder r = folderID \<and> mr_active r) (md_messages db)"

definition before_cursor :: "list_cursor \<Rightarrow> message_row \<Rightarrow> bool" where
  "before_cursor cursor r \<longleftrightarrow>
     (let cursorID = go_TrimSpace (cur_id cursor) in
      cursorID = [] \<or> (case cur_at cursor of None \<Rightarrow> False | Some at \<Rightarrow> list_key r < (at, cursorID)))"

definition row_summary :: "message_row \<Rightarrow> message_summary" where
  "row_summary r = \<lparr>ms_id = mr_id r, ms_received = Some (message_at r), ms_size = mr_size r\<rparr>"

definition ListPOP3InboxMessagesPage ::
    "(string \<Rightarrow> string option) \<Rightarrow> mail_db \<Rightarrow> string \<Rightarrow> string \<Rightarrow> int \<Rightarrow> list_cursor \<Rightarrow> message_summary list res" where
  "ListPOP3InboxMessagesPage fails db userID folderID limit cursor =
     (case fails ''list pop3 inbox message page'' of
        Some e \<Rightarrow> Inl (''list pop3 inbox message page: '' @ e)
      | None \<Rightarrow> Inr (map row_summary (take (NormalizeMessageListLimit limit + 1)
          (rev (sort_key list_key (filter (before_cursor cursor)
             (inbox_rows (go_TrimSpace userID) (go_TrimSpace folderID) db)))))))"

section \<open>The folders\<close>

definition system_folder_row :: "record_env \<Rightarrow> string \<Rightarrow> string \<times> string \<times> int \<Rightarrow> folder_row" where
  "system_folder_row E userID p =
     (case p of (path, t, i) \<Rightarrow>
        \<lparr>fo_id = re_system_folder_id E path, fo_user = userID, fo_system_type = t, fo_type = ''system'', fo_full_path = path,
         fo_order_index = i, fo_created_at = de_now E\<rparr>)"

definition createSystemFolders :: "record_env \<Rightarrow> string \<Rightarrow> folder_row list \<Rightarrow> folder_row list" where
  "createSystemFolders E userID fs =
     fs @ map (system_folder_row E userID)
       (filter (\<lambda>(path, _). \<not> list_ex (\<lambda>f. fo_user f = userID \<and> fo_full_path f = path) fs)
         [(''/Inbox'', ''inbox'', 0), (''/Drafts'', ''drafts'', 1), (''/Sent'', ''sent'', 2), (''/Spam'', ''spam'', 3), (''/Trash'', ''trash'', 4)])"

text \<open>\<open>ORDER BY type DESC, order_index ASC, full_path ASC\<close>, as stable sorts; of the columns only those that POP3 reads.\<close>

definition folder_rows :: "string \<Rightarrow> mail_db \<Rightarrow> folder list" where
  "folder_rows userID db =
     map (\<lambda>f. \<lparr>fld_id = fo_id f, fld_systemType = fo_system_type f\<rparr>)
       (rev (sort_key fo_type (rev (sort_key fo_order_index (sort_key fo_full_path
         (filter (\<lambda>f. fo_user f = userID) (md_folders db)))))))"

definition ListFolders :: "record_env \<Rightarrow> string \<Rightarrow> folder list mop" where
  "ListFolders E userID =
     try_op (sql (de_fails E) ''create system folders: create system folders''
       (\<lambda>db. db\<lparr>md_folders := createSystemFolders E userID (md_folders db)\<rparr>)) (\<lambda>_.
     query (de_fails E) ''list folders'' (folder_rows userID))"

section \<open>Cursors are read back\<close>

lemma go_Atoi_Itoa_signed: "- (2 ^ 63) \<le> i \<Longrightarrow> i \<le> max_int64 \<Longrightarrow> go_Atoi (go_Itoa i) = Some i"
proof (cases "0 \<le> i")
  case False
  assume "- (2 ^ 63) \<le> i" "i \<le> max_int64"
  then show ?thesis
    using False itoa_nat_digits [of "nat (- i)"] by (simp add: go_Itoa_def go_Atoi_def atoi_digits_def)
qed (simp add: go_Atoi_Itoa)

lemma go_Itoa_shape:
  "go_Itoa i \<noteq> []" "CHR '':'' \<notin> set (go_Itoa i)" "hd (go_Itoa i) \<noteq> CHR ''{''"
proof -
  have digits: "list_all is_digit (itoa_nat n)" "itoa_nat n \<noteq> []" for n by (simp_all add: itoa_nat_digits)
  have no: "\<not> is_digit (CHR '':'')" "\<not> is_digit (CHR ''{'')" by (simp_all add: is_digit_def)
  show "go_Itoa i \<noteq> []" by (simp add: go_Itoa_def)
  have "CHR '':'' \<notin> set (itoa_nat n)" for n
    using digits(1) [of n] no(1) by (metis list_all_iff)
  then show "CHR '':'' \<notin> set (go_Itoa i)" by (simp add: go_Itoa_def)
  have "hd (itoa_nat n) \<noteq> CHR ''{''" for n
    using digits [of n] no(2) by (cases "itoa_nat n") auto
  then show "hd (go_Itoa i) \<noteq> CHR ''{''" by (simp add: go_Itoa_def)
qed

lemma itoa_nat_length: "n < 10 ^ k \<Longrightarrow> 0 < k \<Longrightarrow> length (itoa_nat n) \<le> k"
proof (induction n arbitrary: k rule: itoa_nat.induct)
  case (1 n)
  show ?case
  proof (cases "n < 10")
    case True
    with 1(3) show ?thesis by (subst itoa_nat.simps) simp
  next
    case False
    with 1(2,3) have k: "1 < k" by (cases "k = 1") auto
    then have "n div 10 < 10 ^ (k - 1)" using 1(2) by (cases k) (auto simp: less_mult_imp_div_less mult.commute)
    with 1(1) [OF False, of "k - 1"] k False show ?thesis by (subst itoa_nat.simps) auto
  qed
qed

lemma go_Itoa_length: "- (2 ^ 63) \<le> i \<Longrightarrow> i \<le> max_int64 \<Longrightarrow> length (go_Itoa i) \<le> 20"
proof -
  assume i: "- (2 ^ 63) \<le> i" "i \<le> max_int64"
  then have "nat i < 10 ^ 19" "nat (- i) < 10 ^ 19" by (simp_all add: max_int64_def nat_less_iff)
  then have "length (itoa_nat (nat i)) \<le> 19" "length (itoa_nat (nat (- i))) \<le> 19"
    by (simp_all add: itoa_nat_length)
  then show ?thesis by (simp add: go_Itoa_def)
qed

lemma b64_encode_length: "length (b64_encode al None s) \<le> 2 * length s"
  by (induction al "None :: char option" s rule: b64_encode.induct) auto

lemma b64_encode_nonempty: "s \<noteq> [] \<Longrightarrow> b64_encode al pad s \<noteq> []"
  by (cases "(al, pad, s)" rule: b64_encode.cases) auto

lemma b64_url_graphic: "\<forall>c\<in>set (b64_RawURLEncode s). graphic c"
proof -
  have "\<forall>c\<in>set b64_url. graphic c" by (simp add: b64_url_def graphic_def)
  moreover have "set (b64_RawURLEncode s) \<subseteq> set b64_url \<union> set_option None"
    by (rule b64_encode_chars) (simp add: b64_url_facts)
  ultimately show ?thesis by auto
qed

text \<open>The text of a UUID as the database prints it.\<close>

definition canonical_uuid :: "string \<Rightarrow> bool" where
  "canonical_uuid i \<longleftrightarrow> isUUIDLike i \<and> go_TrimSpace i = i \<and> go_ToLower i = i"

lemma canonical_uuidD: "canonical_uuid i \<Longrightarrow> isUUIDLike i \<and> go_TrimSpace i = i \<and> length i = 36 \<and> i \<noteq> []"
proof -
  assume "canonical_uuid i"
  then have i: "isUUIDLike i" "go_TrimSpace i = i" "go_ToLower i = i" by (simp_all add: canonical_uuid_def)
  then have "length i = 36" unfolding isUUIDLike_def Let_def by simp
  with i show ?thesis by auto
qed

definition time64 :: "int \<Rightarrow> bool" where
  "time64 t \<longleftrightarrow> - (2 ^ 63) \<le> t \<and> t \<le> max_int64"

lemma cursor_round_trip:
  assumes "time64 t" and "canonical_uuid i"
  shows "\<exists>enc. EncodeMessageListCursor \<lparr>cur_at = Some t, cur_id = i\<rparr> = Inr enc \<and> go_TrimSpace enc \<noteq> [] \<and>
    DecodeMessageListCursor unmarshal enc = Inr \<lparr>cur_at = Some t, cur_id = i\<rparr>"
proof -
  let ?raw = "go_Itoa t @ CHR '':'' # i"
  from assms(1) have t: "wrap64 t = t" "go_Atoi (go_Itoa t) = Some t" "length (go_Itoa t) \<le> 20"
    by (simp_all add: time64_def wrap64_id go_Atoi_Itoa_signed go_Itoa_length)
  from canonical_uuidD [OF assms(2)] have i: "isUUIDLike i" "go_TrimSpace i = i" "length i = 36" "i \<noteq> []" by simp_all
  have trim: "go_TrimSpace (b64_RawURLEncode ?raw) = b64_RawURLEncode ?raw"
    by (rule go_TrimSpace_graphic) (rule b64_url_graphic)
  have "length (b64_RawURLEncode ?raw) \<le> 2 * length ?raw" by (rule b64_encode_length)
  also have "\<dots> \<le> 1024" using t(3) i(3) by simp
  finally have len: "length (b64_RawURLEncode ?raw) \<le> 1024" .
  have ne: "b64_RawURLEncode ?raw \<noteq> []" by (rule b64_encode_nonempty) simp
  have notjson: "\<not> prefix ''{'' ?raw"
    using go_Itoa_shape(1,3) [of t] by (cases "go_Itoa t") auto
  have "go_Cut '':'' ?raw = Some (go_Itoa t, i)"
    by (rule go_Cut_single_append) (rule go_Itoa_shape)
  with notjson i t have raw: "decodeMessageListCursorRaw unmarshal ?raw = Inr \<lparr>cur_at = Some t, cur_id = i\<rparr>"
    by (simp add: decodeMessageListCursorRaw_def validateMessageListCursor_def)
  have "EncodeMessageListCursor \<lparr>cur_at = Some t, cur_id = i\<rparr> = Inr (b64_RawURLEncode ?raw)"
    using i t by (simp add: EncodeMessageListCursor_def)
  moreover have "DecodeMessageListCursor unmarshal (b64_RawURLEncode ?raw) = Inr \<lparr>cur_at = Some t, cur_id = i\<rparr>"
    using trim len ne raw by (simp add: DecodeMessageListCursor_def Let_def MessageListCursorMaxBytes_def)
  ultimately show ?thesis using trim ne by auto
qed


section \<open>The pages of the inbox\<close>

text \<open>The rows of the inbox in the order of the query, newest first.\<close>

definition listed_rows :: "string \<Rightarrow> string \<Rightarrow> mail_db \<Rightarrow> message_row list" where
  "listed_rows userID folderID db = rev (sort_key list_key (inbox_rows userID folderID db))"

lemma set_listed_rows: "set (listed_rows u f db) = set (inbox_rows u f db)"
  by (simp add: listed_rows_def)

lemma listed_rows_descending:
  assumes "distinct (map mr_id (inbox_rows u f db))"
  shows "sorted_wrt (\<lambda>a b. list_key b < list_key a) (listed_rows u f db)"
proof -
  have "inj_on mr_id (set (inbox_rows u f db))" using assms by (simp add: distinct_map)
  then have "inj_on list_key (set (inbox_rows u f db))" by (auto simp: inj_on_def list_key_def)
  moreover have "distinct (inbox_rows u f db)" using assms by (simp add: distinct_map)
  ultimately have "distinct (map list_key (sort_key list_key (inbox_rows u f db)))" by (simp add: distinct_map)
  moreover have "sorted (map list_key (sort_key list_key (inbox_rows u f db)))" by simp
  ultimately have "sorted_wrt (<) (map list_key (sort_key list_key (inbox_rows u f db)))"
    by (simp add: strict_sorted_iff)
  then show ?thesis by (simp add: listed_rows_def sorted_wrt_rev sorted_wrt_map)
qed

lemma rows_after:
  assumes "sorted_wrt (\<lambda>a b. list_key b < list_key a) L" and "k < length L"
  shows "filter (\<lambda>r. list_key r < list_key (L ! k)) L = drop (Suc k) L"
proof -
  have L: "L = take (Suc k) L @ drop (Suc k) L" by simp
  have "\<not> list_key r < list_key (L ! k)" if "r \<in> set (take (Suc k) L)" for r
  proof -
    from that obtain j where "j \<le> k" "r = L ! j" by (auto simp: in_set_conv_nth less_Suc_eq_le)
    with assms show ?thesis
      by (cases "j = k") (auto dest: sorted_wrt_nth_less [where i = j and j = k])
  qed
  moreover have "list_key r < list_key (L ! k)" if "r \<in> set (drop (Suc k) L)" for r
  proof -
    from that obtain j where "j < length L - Suc k" "r = L ! (Suc k + j)" by (auto simp: in_set_conv_nth)
    with assms show ?thesis by (auto dest: sorted_wrt_nth_less [where i = k and j = "Suc k + j"])
  qed
  ultimately show ?thesis by (subst L, subst filter_append) (simp add: filter_empty_conv filter_id_conv)
qed

lemma page_rows:
  assumes "fails ''list pop3 inbox message page'' = None" and "go_TrimSpace u = u" and "go_TrimSpace f = f"
  shows "ListPOP3InboxMessagesPage fails db u f (int MessageListMaxLimit) cursor =
    Inr (map row_summary (take 201 (filter (before_cursor cursor) (listed_rows u f db))))"
  using assms
  by (simp add: ListPOP3InboxMessagesPage_def NormalizeMessageListLimit_def MessageListMaxLimit_def listed_rows_def
      filter_sort flip: rev_filter)

lemma first_page: "filter (before_cursor zero_cursor) L = L"
proof -
  have "go_TrimSpace [] = []" by code_simp
  then have "before_cursor zero_cursor r" for r by (simp add: before_cursor_def zero_cursor_def)
  then show ?thesis by simp
qed


lemma next_page:
  assumes "sorted_wrt (\<lambda>a b. list_key b < list_key a) L" and "k < length L" and "go_TrimSpace (mr_id (L ! k)) = mr_id (L ! k)"
    and "mr_id (L ! k) \<noteq> []"
  shows "filter (before_cursor \<lparr>cur_at = Some (message_at (L ! k)), cur_id = mr_id (L ! k)\<rparr>) L = drop (Suc k) L"
proof -
  have "before_cursor \<lparr>cur_at = Some (message_at (L ! k)), cur_id = mr_id (L ! k)\<rparr> = (\<lambda>r. list_key r < list_key (L ! k))"
    using assms(3,4) by (auto simp: before_cursor_def list_key_def Let_def)
  with rows_after [OF assms(1,2)] show ?thesis by simp
qed

text \<open>The loop, after \<open>k\<close> rows.\<close>

lemma listing_loop:
  assumes "sorted_wrt (\<lambda>a b. list_key b < list_key a) L"
    and ok: "list_all (\<lambda>r. canonical_uuid (mr_id r) \<and> time64 (message_at r)) L"
    and page: "\<And>c. page c = Inr (map row_summary (take 201 (filter (before_cursor c) L)))"
    and "filter (before_cursor cursor) L = drop k L"
  shows "listInboxMessages_loop page EncodeMessageListCursor (DecodeMessageListCursor unmarshal) acc cursor =
    Some (Inr (acc @ map (inbox_msg \<circ> row_summary) (drop k L)))"
  using assms(4)
proof (induction "length L - k" arbitrary: k acc cursor rule: less_induct)
  case less
  let ?rows = "take 201 (drop k L)"
  have rows: "page cursor = Inr (map row_summary ?rows)" using page less(2) by simp
  have limit: "NormalizeMessageListLimit (int MessageListMaxLimit) = 200"
    by (simp add: NormalizeMessageListLimit_def MessageListMaxLimit_def)
  show ?case
  proof (cases "length L - k \<le> 200")
    case True
    then have all: "?rows = drop k L" by simp
    have "\<exists>p. NewMessageListPage EncodeMessageListCursor (map row_summary (drop k L)) (int MessageListMaxLimit) = Inr p \<and>
        \<not> pg_hasMore p \<and> pg_messages p = map row_summary (drop k L)"
    proof (cases "drop k L = []")
      case False
      then have "last (drop k L) \<in> set L" by (meson in_set_dropD last_in_set)
      with ok have "canonical_uuid (mr_id (last (drop k L)))" "time64 (message_at (last (drop k L)))"
        by (auto simp: list_all_iff)
      from cursor_round_trip [OF this(2,1)] obtain enc where
        "EncodeMessageListCursor \<lparr>cur_at = Some (message_at (last (drop k L))), cur_id = mr_id (last (drop k L))\<rparr> = Inr enc" by blast
      with False True show ?thesis
        by (simp add: NewMessageListPage_def limit Let_def last_map row_summary_def del: last_drop)
    qed (simp add: NewMessageListPage_def limit Let_def)
    then show ?thesis
      by (subst listInboxMessages_loop.simps) (auto simp: rows all)
  next
    case False
    define j where "j = k + 199"
    from False have j: "j < length L" "take 200 ?rows = take 200 (drop k L)" by (simp_all add: j_def)
    have last: "last (take 200 (drop k L)) = L ! j"
      using False by (simp add: last_conv_nth j_def)
    from ok j(1) have r: "canonical_uuid (mr_id (L ! j))" "time64 (message_at (L ! j))" by (simp_all add: list_all_length)
    from canonical_uuidD [OF r(1)] have idj: "go_TrimSpace (mr_id (L ! j)) = mr_id (L ! j)" "mr_id (L ! j) \<noteq> []" by simp_all
    from cursor_round_trip [OF r(2,1)] obtain enc where
      enc: "EncodeMessageListCursor \<lparr>cur_at = Some (message_at (L ! j)), cur_id = mr_id (L ! j)\<rparr> = Inr enc" "go_TrimSpace enc \<noteq> []"
      and dec: "DecodeMessageListCursor unmarshal enc = Inr \<lparr>cur_at = Some (message_at (L ! j)), cur_id = mr_id (L ! j)\<rparr>"
      by blast
    have lens: "length ?rows = 201" using False by simp
    from False have notall: "\<not> length L \<le> k" by simp
    have "NewMessageListPage EncodeMessageListCursor (map row_summary ?rows) (int MessageListMaxLimit) =
        Inr \<lparr>pg_messages = map row_summary (take 200 (drop k L)), pg_limit = 200, pg_hasMore = True, pg_next = enc\<rparr>"
      using lens enc(1) idj(2) last j(2) notall
      by (simp add: NewMessageListPage_def limit Let_def take_map last_map row_summary_def del: take_take)
    then have step: "listInboxMessages_loop page EncodeMessageListCursor (DecodeMessageListCursor unmarshal) acc cursor =
        listInboxMessages_loop page EncodeMessageListCursor (DecodeMessageListCursor unmarshal)
          (acc @ map inbox_msg (map row_summary (take 200 (drop k L)))) \<lparr>cur_at = Some (message_at (L ! j)), cur_id = mr_id (L ! j)\<rparr>"
      by (subst listInboxMessages_loop.simps) (simp add: rows enc(2) dec)
    have "length L - (k + 200) < length L - k" using False by simp
    moreover have "Suc j = k + 200" by (simp add: j_def)
    moreover have "drop k L = take 200 (drop k L) @ drop (k + 200) L" by (metis append_take_drop_id drop_drop add.commute)
    ultimately show ?thesis
      unfolding step using less(1) [of "k + 200"] next_page [OF assms(1) j(1) idj]
      by (metis append.assoc map_append map_map)
  qed
qed


section \<open>Properties\<close>

text \<open>
  C18. Opening an inbox always comes to an end, with every message once. However many messages there are, the
  loop over the pages returns; it lists exactly the active messages of the user in the folder, newest first
  and by id among those of one time, each once: no page overlaps the one before it or leaves a gap,
  also where many messages have the same time. The cursor is read back as it was written, for
  times that fit into 64 bits of nanoseconds.
\<close>

theorem inbox_listing_is_complete:
  assumes "fails ''list pop3 inbox message page'' = None" and "go_TrimSpace u = u" and "go_TrimSpace f = f"
    and "distinct (map mr_id (inbox_rows u f db))"
    and "list_all (\<lambda>r. canonical_uuid (mr_id r) \<and> time64 (message_at r)) (inbox_rows u f db)"
  shows "\<exists>rows. listInboxMessages_loop (ListPOP3InboxMessagesPage fails db u f (int MessageListMaxLimit))
      EncodeMessageListCursor (DecodeMessageListCursor unmarshal) [] zero_cursor = Some (Inr (map (inbox_msg \<circ> row_summary) rows)) \<and>
    set rows = set (inbox_rows u f db) \<and> distinct rows \<and>
    sorted_wrt (\<lambda>a b. message_at b < message_at a \<or> message_at b = message_at a \<and> mr_id b < mr_id a) rows"
proof -
  let ?L = "listed_rows u f db"
  note desc = listed_rows_descending [OF assms(4)]
  have ok: "list_all (\<lambda>r. canonical_uuid (mr_id r) \<and> time64 (message_at r)) ?L"
    using assms(5) by (simp add: list_all_iff set_listed_rows)
  have page: "ListPOP3InboxMessagesPage fails db u f (int MessageListMaxLimit) c =
      Inr (map row_summary (take 201 (filter (before_cursor c) ?L)))" for c
    using assms(1-3) by (rule page_rows)
  from listing_loop [where page = "ListPOP3InboxMessagesPage fails db u f (int MessageListMaxLimit)", OF desc ok page,
      of zero_cursor 0 unmarshal "[]"]
  have "listInboxMessages_loop (ListPOP3InboxMessagesPage fails db u f (int MessageListMaxLimit))
      EncodeMessageListCursor (DecodeMessageListCursor unmarshal) [] zero_cursor = Some (Inr (map (inbox_msg \<circ> row_summary) ?L))"
    by (simp add: first_page)
  moreover have "distinct ?L" using assms(4) by (simp add: listed_rows_def distinct_map)
  moreover have "sorted_wrt (\<lambda>a b. message_at b < message_at a \<or> message_at b = message_at a \<and> mr_id b < mr_id a) ?L"
    using desc by (rule sorted_wrt_mono_rel [rotated]) (auto simp: list_key_def)
  ultimately show ?thesis by (intro exI [of _ ?L]) (simp add: set_listed_rows)
qed

definition sample_uuid :: "char \<Rightarrow> string" where
  "sample_uuid c = replicate 8 c @ ''-'' @ replicate 4 c @ ''-'' @ replicate 4 c @ ''-'' @ replicate 4 c @ ''-'' @ replicate 12 c"

definition sample_inbox_row :: "char \<Rightarrow> int \<Rightarrow> message_row" where
  "sample_inbox_row c t = (received_row sample_record_env ''in'' [] sample_received)\<lparr>mr_id := sample_uuid c, mr_received_at := Some t\<rparr>"

definition sample_inbox :: mail_db where
  "sample_inbox = sample_mail_db\<lparr>md_messages := [sample_inbox_row (CHR ''a'') 5, sample_inbox_row (CHR ''c'') 7, sample_inbox_row (CHR ''b'') 7]\<rparr>"

theorem inbox_listing_is_complete_witness:
  "\<exists>msgs. listInboxMessages_loop (ListPOP3InboxMessagesPage (\<lambda>_. None) sample_inbox ''u'' ''in'' (int MessageListMaxLimit))
      EncodeMessageListCursor (DecodeMessageListCursor (\<lambda>_. Inl [])) [] zero_cursor = Some (Inr msgs) \<and> length msgs = 3"
proof -
  have rows: "inbox_rows ''u'' ''in'' sample_inbox = md_messages sample_inbox" by code_simp
  have trim: "go_TrimSpace ''u'' = ''u''" "go_TrimSpace ''in'' = ''in''" by code_simp+
  have d: "distinct (map mr_id (inbox_rows ''u'' ''in'' sample_inbox))" by code_simp
  have ok: "list_all (\<lambda>r. canonical_uuid (mr_id r) \<and> time64 (message_at r)) (inbox_rows ''u'' ''in'' sample_inbox)"
    unfolding canonical_uuid_def time64_def by code_simp
  from inbox_listing_is_complete [where fails = "\<lambda>_. None" and unmarshal = "\<lambda>_. Inl []", OF refl trim d ok] obtain rows where
    loop: "listInboxMessages_loop (ListPOP3InboxMessagesPage (\<lambda>_. None) sample_inbox ''u'' ''in'' (int MessageListMaxLimit))
      EncodeMessageListCursor (DecodeMessageListCursor (\<lambda>_. Inl [])) [] zero_cursor = Some (Inr (map (inbox_msg \<circ> row_summary) rows))"
    and set: "set rows = set (inbox_rows ''u'' ''in'' sample_inbox)" "distinct rows" by blast
  have "distinct (inbox_rows ''u'' ''in'' sample_inbox)" using d by (simp add: distinct_map)
  moreover have "length (inbox_rows ''u'' ''in'' sample_inbox) = 3" by code_simp
  ultimately have "length rows = 3" using set by (metis distinct_card)
  with loop show ?thesis by simp
qed

end
