(* ===== verification/ObjectStore.thy ===== *)
theory ObjectStore
  imports DeliveryJob StateOps
begin

text \<open>
  The object store on the local file system: \<open>internal/storage/path.go\<close>, \<open>local.go\<close> and \<open>prefix_delete.go\<close>. The
  directory of the store is a tree of files, directories and symbolic links; the entries of a directory are in the order of
  their names, as \<open>os.ReadDir\<close> gives them. \<open>io\<close> says which call of the system fails, by the name of the call
  and its path; closing a file that was read and reading a range of it do not. The root of the store is no link. One operation runs at a time;
  contexts, times of objects and the log are left out, as are the quoted paths in the texts of errors.
\<close>

section \<open>Paths\<close>

definition MaxObjectPathBytes :: nat where "MaxObjectPathBytes = 1024"
definition MaxObjectPathSegmentBytes :: nat where "MaxObjectPathSegmentBytes = 255"
definition DefaultListLimit :: int where "DefaultListLimit = 100"
definition MaxListLimit :: int where "MaxListLimit = 1000"
definition MaxListCursorBytes :: nat where "MaxListCursorBytes = 2048"

lemmas storage_limits = MaxObjectPathBytes_def MaxObjectPathSegmentBytes_def DefaultListLimit_def MaxListLimit_def MaxListCursorBytes_def

definition hex_digit :: "char \<Rightarrow> nat option" where
  "hex_digit c =
     (if is_digit c then Some (byte_val c - 48)
      else if 97 \<le> byte_val c \<and> byte_val c \<le> 102 then Some (byte_val c - 87)
      else if 65 \<le> byte_val c \<and> byte_val c \<le> 70 then Some (byte_val c - 55) else None)"

text \<open>\<open>url.PathUnescape\<close>.\<close>

fun url_PathUnescape :: "string \<Rightarrow> string option" where
  "url_PathUnescape [] = Some []"
| "url_PathUnescape (c # s) =
     (if c \<noteq> CHR 0x25 then map_option ((#) c) (url_PathUnescape s)
      else (case s of
          a # b # r \<Rightarrow> (case (hex_digit a, hex_digit b) of
              (Some x, Some y) \<Rightarrow> map_option ((#) (char_of (16 * x + y))) (url_PathUnescape r)
            | _ \<Rightarrow> None)
        | _ \<Rightarrow> None))"

fun encoded_separator :: "nat \<Rightarrow> string \<Rightarrow> bool" where
  "encoded_separator 0 v = False"
| "encoded_separator (Suc n) v =
     (if go_Contains (go_ToLower v) (CHR 0x25 # ''2f'') \<or> go_Contains (go_ToLower v) (CHR 0x25 # ''5c'') then True
      else case url_PathUnescape v of
          None \<Rightarrow> False
        | Some decoded \<Rightarrow> if decoded = v then False else encoded_separator n decoded)"

definition storageContainsEncodedPathSeparator :: "string \<Rightarrow> bool" where
  "storageContainsEncodedPathSeparator v = encoded_separator 4 v"

text \<open>The checks that \<open>ValidateObjectPath\<close> and \<open>ValidateObjectPrefix\<close> have in common.\<close>

fun segments_error :: "string list \<Rightarrow> string option" where
  "segments_error [] = None"
| "segments_error (s # ss) =
     (if s = ''.'' \<or> s = ''..'' \<or> go_TrimSpace s = [] then Some '' contains an invalid segment''
      else if MaxObjectPathSegmentBytes < length s then Some '' segment is too long''
      else segments_error ss)"

definition path_error :: "string \<Rightarrow> string \<Rightarrow> string option" where
  "path_error what p =
     (if MaxObjectPathBytes < length p then Some (what @ '' is too long'')
      else if \<not> utf8_valid p then Some (what @ '' must be valid UTF-8'')
      else if go_ContainsAny p [CHR 0x0D, CHR 0x0A] then Some (what @ '' must not contain newlines'')
      else if go_Contains p [CHR 0x5C] then Some (what @ '' must use forward slash separators'')
      else if storageContainsEncodedPathSeparator p then Some (what @ '' must not contain percent-encoded path separators'')
      else if prefix ''/'' p then Some (what @ '' must be relative'')
      else case segments_error (go_Split1 (CHR ''/'') p) of
        Some e \<Rightarrow> Some (what @ e)
      | None \<Rightarrow> if path_Clean p \<noteq> p then Some (what @ '' must be canonical'') else None)"

definition ValidateObjectPath :: "string \<Rightarrow> string res" where
  "ValidateObjectPath objectPath0 =
     (let p = go_TrimSpace objectPath0 in
      if p = [] then Inl ''storage path is required''
      else case path_error ''storage path'' p of Some e \<Rightarrow> Inl e | None \<Rightarrow> Inr p)"

definition ValidateObjectPrefix :: "string \<Rightarrow> string res" where
  "ValidateObjectPrefix prefix0 =
     (let p = go_TrimSuffix (go_TrimSpace prefix0) ''/'' in
      if p = [] then Inr []
      else case path_error ''storage prefix'' p of Some e \<Rightarrow> Inl e | None \<Rightarrow> Inr p)"

definition NormalizeListLimit :: "int \<Rightarrow> int" where
  "NormalizeListLimit limit =
     (if limit \<le> 0 then DefaultListLimit else if MaxListLimit < limit then MaxListLimit else limit)"

definition ValidateListCursor :: "string \<Rightarrow> string res" where
  "ValidateListCursor cursor =
     (if cursor = [] then Inr []
      else if go_TrimSpace cursor = [] then Inr []
      else if go_TrimSpace cursor \<noteq> cursor then Inl ''storage list cursor must not contain leading or trailing whitespace''
      else if MaxListCursorBytes < length cursor then Inl ''storage list cursor is too long''
      else if \<not> utf8_valid cursor then Inl ''storage list cursor must be valid UTF-8''
      else if list_ex (\<lambda>c. byte_val c < 0x20 \<or> byte_val c = 0x7F) cursor
      then Inl ''storage list cursor must not contain control characters''
      else Inr cursor)"

text \<open>The arithmetic is that of \<open>int64\<close>.\<close>

definition ValidateRangeRequest :: "int \<times> int \<Rightarrow> (int \<times> int) res" where
  "ValidateRangeRequest req =
     (if fst req < 0 then Inl ''storage range offset must not be negative''
      else if snd req \<le> 0 then Inl ''storage range length must be positive''
      else if wrap64 (wrap64 (max_int64 - snd req) + 1) < fst req then Inl ''storage range end overflows''
      else Inr req)"

section \<open>The file system\<close>

datatype fs = File string | Dir "(string \<times> fs) list" | Link

datatype os_error = NotExist | OsError string

type_synonym io = "string \<Rightarrow> string list \<Rightarrow> string option"

fun entry_put :: "string \<Rightarrow> 'a \<Rightarrow> (string \<times> 'a) list \<Rightarrow> (string \<times> 'a) list" where
  "entry_put s n [] = [(s, n)]"
| "entry_put s n ((t, m) # es) =
     (if s = t then (s, n) # es else if s < t then (s, n) # (t, m) # es else (t, m) # entry_put s n es)"

definition entry_del :: "string \<Rightarrow> (string \<times> 'a) list \<Rightarrow> (string \<times> 'a) list" where
  "entry_del s es = filter (\<lambda>e. fst e \<noteq> s) es"

text \<open>A component that is a link would be followed by the system; the store has tested it before.\<close>

fun node_at :: "fs \<Rightarrow> string list \<Rightarrow> os_error + fs" where
  "node_at n [] = Inr n"
| "node_at (Dir es) (s # ss) = (case map_of es s of None \<Rightarrow> Inl NotExist | Some m \<Rightarrow> node_at m ss)"
| "node_at _ (s # ss) = Inl (OsError ''not a directory'')"

fun set_at :: "string list \<Rightarrow> fs \<Rightarrow> fs \<Rightarrow> fs" where
  "set_at [] n t = n"
| "set_at (s # ss) n (Dir es) =
     (if ss = [] then Dir (entry_put s n es)
      else case map_of es s of None \<Rightarrow> Dir es | Some m \<Rightarrow> Dir (entry_put s (set_at ss n m) es))"
| "set_at (s # ss) n t = t"

fun del_at :: "string list \<Rightarrow> fs \<Rightarrow> fs" where
  "del_at [] t = t"
| "del_at (s # ss) (Dir es) =
     (if ss = [] then Dir (entry_del s es)
      else case map_of es s of None \<Rightarrow> Dir es | Some m \<Rightarrow> Dir (entry_put s (del_at ss m) es))"
| "del_at (s # ss) t = t"

definition os_Lstat :: "io \<Rightarrow> fs \<Rightarrow> string list \<Rightarrow> os_error + fs" where
  "os_Lstat io t p = (case io ''lstat'' p of Some e \<Rightarrow> Inl (OsError e) | None \<Rightarrow> node_at t p)"

fun os_error_text :: "os_error \<Rightarrow> string" where
  "os_error_text NotExist = ''file does not exist''"
| "os_error_text (OsError e) = e"

definition segments :: "string \<Rightarrow> string list" where
  "segments p = go_Split1 (CHR ''/'') p"

section \<open>Reading and writing objects\<close>

fun rejectSymlinkComponents :: "io \<Rightarrow> fs \<Rightarrow> string list \<Rightarrow> string list \<Rightarrow> os_error option" where
  "rejectSymlinkComponents io t current [] = None"
| "rejectSymlinkComponents io t current (s # ss) =
     (case os_Lstat io t (current @ [s]) of
        Inl e \<Rightarrow> Some e
      | Inr Link \<Rightarrow> Some (OsError ''storage path component is a symbolic link'')
      | Inr _ \<Rightarrow> rejectSymlinkComponents io t (current @ [s]) ss)"

definition localObjectInfo :: "io \<Rightarrow> fs \<Rightarrow> string list \<Rightarrow> os_error + string" where
  "localObjectInfo io t p =
     (case os_Lstat io t p of
        Inl e \<Rightarrow> Inl e
      | Inr Link \<Rightarrow> Inl (OsError ''storage object is a symbolic link'')
      | Inr (Dir _) \<Rightarrow> Inl (OsError ''storage object is a directory'')
      | Inr (File c) \<Rightarrow> Inr c)"

fun ensure_dirs :: "io \<Rightarrow> fs \<Rightarrow> string list \<Rightarrow> string list \<Rightarrow> string option \<times> fs" where
  "ensure_dirs io t current [] = (None, t)"
| "ensure_dirs io t current (s # ss) =
     (let p = current @ [s] in
      case os_Lstat io t p of
        Inr Link \<Rightarrow> (Some ''storage path component is a symbolic link'', t)
      | Inr (File _) \<Rightarrow> (Some ''storage path component is not a directory'', t)
      | Inr (Dir _) \<Rightarrow> ensure_dirs io t p ss
      | Inl (OsError e) \<Rightarrow> (Some e, t)
      | Inl NotExist \<Rightarrow>
          (case io ''mkdir'' p of
             Some e \<Rightarrow> (Some e, t)
           | None \<Rightarrow> (case io ''lstat again'' p of
                 Some e \<Rightarrow> (Some e, set_at p (Dir []) t)
               | None \<Rightarrow> ensure_dirs io (set_at p (Dir []) t) p ss)))"

text \<open>The directory of the store may not exist yet; nothing is found under it then, as in an empty one.\<close>

type_synonym root = "fs option"

type_synonym 'a store_op = "(root, string, 'a) op"

definition root_tree :: "root \<Rightarrow> fs" where
  "root_tree r = (case r of None \<Rightarrow> Dir [] | Some t \<Rightarrow> t)"

definition ensureRootDir :: "io \<Rightarrow> unit store_op" where
  "ensureRootDir io r =
     (case io ''lstat'' [] of Some e \<Rightarrow> (Inl e, r)
      | None \<Rightarrow> (case r of
          Some Link \<Rightarrow> (Inl ''storage root is a symbolic link'', r)
        | Some (File _) \<Rightarrow> (Inl ''storage root is not a directory'', r)
        | Some (Dir _) \<Rightarrow> (Inr (), r)
        | None \<Rightarrow> (case io ''mkdirall'' [] of Some e \<Rightarrow> (Inl e, r)
            | None \<Rightarrow> (case io ''lstat again'' [] of Some e \<Rightarrow> (Inl e, Some (Dir []))
                | None \<Rightarrow> (Inr (), Some (Dir []))))))"

text \<open>There is no other process, so the parent that was walked to is not swapped for a link, and its resolution can only fail.\<close>

definition resolve_parent :: "io \<Rightarrow> string list \<Rightarrow> string option" where
  "resolve_parent io current =
     (if current = [] then None
      else case io ''evalsymlinks'' current of
          Some e \<Rightarrow> Some (''resolve storage parent directory: '' @ e)
        | None \<Rightarrow> map_option ((@) ''resolve storage root: '') (io ''evalsymlinks'' []))"

definition ensureObjectParentDir :: "io \<Rightarrow> string \<Rightarrow> unit store_op" where
  "ensureObjectParentDir io objectPath0 =
     try_op (pure_op (ValidateObjectPath objectPath0)) (\<lambda>objectPath.
     try_op (ensureRootDir io) (\<lambda>_ r.
       (case ensure_dirs io (root_tree r) [] (butlast (segments objectPath)) of
          (Some e, t) \<Rightarrow> (Inl e, Some t)
        | (None, t) \<Rightarrow> (case resolve_parent io (butlast (segments objectPath)) of
              Some e \<Rightarrow> (Inl e, Some t)
            | None \<Rightarrow> (Inr (), Some t)))))"

definition safePath :: "string \<Rightarrow> string list res" where
  "safePath p =
     (case ValidateObjectPath p of Inl e \<Rightarrow> Inl (''unsafe storage path: '' @ e) | Inr objectPath \<Rightarrow> Inr (segments objectPath))"

definition rejectSymlinkParentComponents :: "io \<Rightarrow> root \<Rightarrow> string list \<Rightarrow> os_error option" where
  "rejectSymlinkParentComponents io r full = rejectSymlinkComponents io (root_tree r) [] (butlast full)"

definition rejectSymlinkPathComponents :: "io \<Rightarrow> root \<Rightarrow> string \<Rightarrow> os_error option" where
  "rejectSymlinkPathComponents io r objectPath0 =
     (case ValidateObjectPath objectPath0 of
        Inl e \<Rightarrow> Some (OsError (''unsafe storage path: '' @ e))
      | Inr objectPath \<Rightarrow> rejectSymlinkComponents io (root_tree r) [] (segments objectPath))"

definition os_Remove :: "io \<Rightarrow> fs \<Rightarrow> string list \<Rightarrow> os_error + fs" where
  "os_Remove io t p =
     (case io ''remove'' p of Some e \<Rightarrow> Inl (OsError e)
      | None \<Rightarrow> (case node_at t p of
            Inl e \<Rightarrow> Inl e
          | Inr (Dir (_ # _)) \<Rightarrow> Inl (OsError ''directory not empty'')
          | Inr _ \<Rightarrow> Inr (del_at p t)))"

definition os_Rename :: "io \<Rightarrow> fs \<Rightarrow> string list \<Rightarrow> string list \<Rightarrow> string + fs" where
  "os_Rename io t src dst =
     (case io ''rename'' dst of Some e \<Rightarrow> Inl e
      | None \<Rightarrow> (case (node_at t src, node_at t (butlast dst), node_at t dst) of
            (Inr n, Inr (Dir _), Inr (Dir _)) \<Rightarrow> Inl ''file exists''
          | (Inr n, Inr (Dir _), _) \<Rightarrow> Inr (set_at dst n (del_at src t))
          | _ \<Rightarrow> Inl ''file does not exist''))"

text \<open>\<open>os.CreateTemp\<close>: \<open>tmp\<close> is the random part of the name that it ends up with.\<close>

definition temp_path :: "string \<Rightarrow> string list \<Rightarrow> string list" where
  "temp_path tmp full = butlast full @ [''.'' @ last full @ ''.'' @ tmp @ ''.tmp'']"

definition os_CreateTemp :: "io \<Rightarrow> fs \<Rightarrow> string list \<Rightarrow> string + fs" where
  "os_CreateTemp io t p =
     (case io ''create'' p of Some e \<Rightarrow> Inl e
      | None \<Rightarrow> (case node_at t p of
            Inl NotExist \<Rightarrow> Inr (set_at p (File []) t)
          | Inl (OsError e) \<Rightarrow> Inl e
          | Inr _ \<Rightarrow> Inl ''file exists''))"

text \<open>A body is the bytes that are read from it and the error after them, if it ends with one. When a write fails,
  nothing of the body is taken to be in the file.\<close>

type_synonym body = "string \<times> string option"

definition write_error :: "io \<Rightarrow> string list \<Rightarrow> body \<Rightarrow> string option" where
  "write_error io tmpPath body = (case io ''write'' tmpPath of None \<Rightarrow> snd body | Some e \<Rightarrow> Some e)"

definition commit_object :: "io \<Rightarrow> string list \<Rightarrow> string list \<Rightarrow> body \<Rightarrow> fs \<Rightarrow> string option \<times> fs" where
  "commit_object io tmpPath fullPath body t =
     (let t1 = set_at tmpPath (File (if io ''write'' tmpPath = None then fst body else [])) t in
      case write_error io tmpPath body of Some e \<Rightarrow> (Some (''write storage object: '' @ e), t1)
      | None \<Rightarrow> (case io ''close'' tmpPath of Some e \<Rightarrow> (Some (''close storage object: '' @ e), t1)
      | None \<Rightarrow> (case io ''chmod'' tmpPath of Some e \<Rightarrow> (Some (''set storage object permissions: '' @ e), t1)
      | None \<Rightarrow> (case os_Rename io t1 tmpPath fullPath of
            Inl e \<Rightarrow> (Some (''commit storage object: '' @ e), t1)
          | Inr t2 \<Rightarrow> (None, t2)))))"

definition remove_temp :: "io \<Rightarrow> string list \<Rightarrow> fs \<Rightarrow> fs" where
  "remove_temp io p t = (case os_Remove io t p of Inl _ \<Rightarrow> t | Inr t1 \<Rightarrow> t1)"

definition put_file :: "io \<Rightarrow> string \<Rightarrow> string list \<Rightarrow> body \<Rightarrow> unit store_op" where
  "put_file io tmp fullPath body r =
     (case os_CreateTemp io (root_tree r) (temp_path tmp fullPath) of
        Inl e \<Rightarrow> (Inl (''open temporary storage object: '' @ e), r)
      | Inr t \<Rightarrow> (case commit_object io (temp_path tmp fullPath) fullPath body t of
            (Some e, t1) \<Rightarrow> (Inl e, Some (remove_temp io (temp_path tmp fullPath) t1))
          | (None, t1) \<Rightarrow> (Inr (), Some t1)))"

definition local_Put :: "io \<Rightarrow> string \<Rightarrow> string \<Rightarrow> body option \<Rightarrow> unit store_op" where
  "local_Put io tmp p body0 =
     (case body0 of None \<Rightarrow> fail_op ''storage body is required''
      | Some body \<Rightarrow>
          try_op (pure_op (safePath p)) (\<lambda>fullPath r.
            (case ensureObjectParentDir io p r of
               (Inl e, r1) \<Rightarrow> (Inl (''create storage directory: '' @ e), r1)
             | (Inr _, r1) \<Rightarrow> put_file io tmp fullPath body r1)))"

text \<open>An operation that only reads.\<close>

definition open_object :: "io \<Rightarrow> string \<Rightarrow> string \<Rightarrow> root \<Rightarrow> (string list \<times> string) res" where
  "open_object io what p r =
     (case safePath p of Inl e \<Rightarrow> Inl e
      | Inr full \<Rightarrow> (case rejectSymlinkParentComponents io r full of
            Some e \<Rightarrow> Inl (os_error_text e)
          | None \<Rightarrow> (case localObjectInfo io (root_tree r) full of
                Inl e \<Rightarrow> Inl (what @ os_error_text e)
              | Inr c \<Rightarrow> Inr (full, c))))"

definition local_Get :: "io \<Rightarrow> string \<Rightarrow> root \<Rightarrow> body res" where
  "local_Get io p r =
     (case open_object io ''open storage object: '' p r of Inl e \<Rightarrow> Inl e
      | Inr (full, c) \<Rightarrow> (case io ''open'' full of
            Some e \<Rightarrow> Inl (''open storage object: '' @ e)
          | None \<Rightarrow> Inr (c, io ''read'' full)))"

text \<open>The rest of the file behind the offset, and how many bytes may be read of it.\<close>

definition local_GetRange :: "io \<Rightarrow> string \<Rightarrow> int \<times> int \<Rightarrow> root \<Rightarrow> (string \<times> int) res" where
  "local_GetRange io p req r =
     (case ValidateRangeRequest req of Inl e \<Rightarrow> Inl e
      | Inr v \<Rightarrow> (case open_object io ''open storage object range: '' p r of Inl e \<Rightarrow> Inl e
      | Inr (full, c) \<Rightarrow> (case io ''open'' full of
            Some e \<Rightarrow> Inl (''open storage object range: '' @ e)
          | None \<Rightarrow> (case io ''seek'' full of
                Some e \<Rightarrow> Inl (''seek storage object range: '' @ e)
              | None \<Rightarrow> Inr (drop (nat (fst v)) c, snd v)))))"

text \<open>One \<open>Read\<close> into a buffer of \<open>k\<close> bytes: the bytes, whether the error is \<open>EOF\<close> or another, and the reader after it.\<close>

datatype read_end = ReadMore | ReadEOF | ReadUnexpectedEOF

definition limited_Read :: "nat \<Rightarrow> string \<times> int \<Rightarrow> (string \<times> read_end) \<times> string \<times> int" where
  "limited_Read k rd =
     (case rd of (rest, remaining) \<Rightarrow>
        if remaining \<le> 0 then (([], ReadEOF), rd)
        else let k1 = (if remaining < int k then nat remaining else k);
                 got = take k1 rest; left = wrap64 (remaining - int (length got)) in
          if rest = []
          then (([], if 0 < left then ReadUnexpectedEOF else ReadEOF), ([], left))
          else ((got, ReadMore), (drop k1 rest, left)))"

text \<open>\<open>io.ReadAll\<close>, with a buffer that has room for \<open>Suc k\<close> bytes at each call.\<close>

function read_all :: "nat \<Rightarrow> string \<times> int \<Rightarrow> string \<times> read_end" where
  "read_all k rd =
     (case limited_Read (Suc k) rd of
        ((got, ReadMore), rd1) \<Rightarrow> (case read_all k rd1 of (rest, e) \<Rightarrow> (got @ rest, e))
      | ((got, e), _) \<Rightarrow> (got, e))"
  by pat_completeness auto

termination read_all
  by (relation "measure (\<lambda>(k, rd). length (fst rd))")
    (auto simp: limited_Read_def Let_def split: if_splits prod.splits)

declare read_all.simps [simp del]

record object_info =
  oi_Path :: string
  oi_Size :: int

definition local_Stat :: "io \<Rightarrow> string \<Rightarrow> root \<Rightarrow> object_info res" where
  "local_Stat io p r =
     (case ValidateObjectPath p of Inl e \<Rightarrow> Inl (''unsafe storage path: '' @ e)
      | Inr objectPath \<Rightarrow> (case open_object io ''stat storage object: '' objectPath r of
            Inl e \<Rightarrow> Inl e
          | Inr (full, c) \<Rightarrow> Inr \<lparr>oi_Path = objectPath, oi_Size = int (length c)\<rparr>))"

definition local_Delete :: "io \<Rightarrow> string \<Rightarrow> unit store_op" where
  "local_Delete io p =
     try_op (pure_op (safePath p)) (\<lambda>full r.
       case rejectSymlinkParentComponents io r full of
         Some NotExist \<Rightarrow> (Inr (), r)
       | Some (OsError e) \<Rightarrow> (Inl e, r)
       | None \<Rightarrow> (case localObjectInfo io (root_tree r) full of
             Inl NotExist \<Rightarrow> (Inr (), r)
           | Inl (OsError e) \<Rightarrow> (Inl (''delete storage object: '' @ e), r)
           | Inr _ \<Rightarrow> (case os_Remove io (root_tree r) full of
                 Inl NotExist \<Rightarrow> (Inr (), r)
               | Inl (OsError e) \<Rightarrow> (Inl (''delete storage object: '' @ e), r)
               | Inr t \<Rightarrow> (Inr (), Some t))))"

text \<open>Two paths of one operation, both checked.\<close>

definition both_paths :: "string \<Rightarrow> string \<Rightarrow> (string \<times> string) res" where
  "both_paths sourcePath destPath =
     (case ValidateObjectPath sourcePath of Inl e \<Rightarrow> Inl (''unsafe source storage path: '' @ e)
      | Inr s \<Rightarrow> (case ValidateObjectPath destPath of Inl e \<Rightarrow> Inl (''unsafe destination storage path: '' @ e)
          | Inr d \<Rightarrow> Inr (s, d)))"

definition local_Copy :: "io \<Rightarrow> string \<Rightarrow> string \<Rightarrow> string \<Rightarrow> unit store_op" where
  "local_Copy io tmp sourcePath destPath =
     try_op (pure_op (both_paths sourcePath destPath)) (\<lambda>(s, d) r.
       if s = d then (Inr (), r)
       else case local_Get io s r of
           Inl e \<Rightarrow> (Inl (''open source storage object: '' @ e), r)
         | Inr body \<Rightarrow> (case local_Put io tmp d (Some body) r of
               (Inl e, r1) \<Rightarrow> (Inl (''copy storage object: '' @ e), r1)
             | (Inr _, r1) \<Rightarrow> (Inr (), r1)))"

text \<open>The rename of \<open>Move\<close> fails with \<open>EXDEV\<close> when the two ends are not on one device.\<close>

definition EXDEV :: string where "EXDEV = ''invalid cross-device link''"

definition copy_and_delete :: "io \<Rightarrow> string \<Rightarrow> string \<Rightarrow> string \<Rightarrow> unit store_op" where
  "copy_and_delete io tmp s d r =
     (case local_Copy io tmp s d r of
        (Inl e, r1) \<Rightarrow> (Inl (''move storage object: rename fallback copy failed: '' @ e), r1)
      | (Inr _, r1) \<Rightarrow> (case local_Delete io s r1 of
            (Inl e, r2) \<Rightarrow> (Inl (''move storage object: rename fallback delete failed: '' @ e), r2)
          | (Inr _, r2) \<Rightarrow> (Inr (), r2)))"

definition local_Move :: "io \<Rightarrow> string \<Rightarrow> string \<Rightarrow> string \<Rightarrow> unit store_op" where
  "local_Move io tmp sourcePath destPath =
     try_op (pure_op (both_paths sourcePath destPath)) (\<lambda>(s, d) r.
       if s = d then (Inr (), r)
       else case open_object io ''move source storage object: '' s r of
           Inl e \<Rightarrow> (Inl e, r)
         | Inr (srcFull, c) \<Rightarrow> (case safePath d of
             Inl e \<Rightarrow> (Inl e, r)
           | Inr destFull \<Rightarrow> (case ensureObjectParentDir io d r of
               (Inl e, r1) \<Rightarrow> (Inl (''create destination storage directory: '' @ e), r1)
             | (Inr _, r1) \<Rightarrow> (case os_Rename io (root_tree r1) srcFull destFull of
                 Inr t \<Rightarrow> (Inr (), Some t)
               | Inl e \<Rightarrow> (if e = EXDEV then copy_and_delete io tmp s d r1
                           else (Inl (''move storage object: '' @ e), r1))))))"

text \<open>The check of readiness; what it reads back is at most one byte longer than what it expects.\<close>

definition probe_body :: string where
  "probe_body = ''gogomail storage readiness'' @ [CHR 0x0A]"

definition probe_path :: "int \<Rightarrow> string" where
  "probe_path now = ''health/readiness-'' @ go_Itoa now @ ''.txt''"

definition read_probe :: "int \<Rightarrow> body \<Rightarrow> string res" where
  "read_probe n body =
     (if int (length (fst body)) \<le> n then (case snd body of Some e \<Rightarrow> Inl e | None \<Rightarrow> Inr (fst body))
      else Inr (take (nat (n + 1)) (fst body)))"

definition check_body :: "string \<Rightarrow> string \<Rightarrow> string \<Rightarrow> body \<Rightarrow> string option" where
  "check_body reading what expected body =
     (case read_probe (int (length expected)) body of
        Inl e \<Rightarrow> Some (reading @ '': '' @ e)
      | Inr got \<Rightarrow> if got \<noteq> expected then Some (what @ '' mismatch'') else None)"

definition check_object :: "io \<Rightarrow> string \<Rightarrow> root \<Rightarrow> string option" where
  "check_object io p r =
     (case local_Get io p r of Inl e \<Rightarrow> Some (''read readiness probe: '' @ e)
      | Inr body \<Rightarrow> (case check_body ''read readiness probe body'' ''readiness probe body'' probe_body body of Some e \<Rightarrow> Some e
      | None \<Rightarrow> (case local_Stat io p r of Inl e \<Rightarrow> Some (''stat readiness probe: '' @ e)
      | Inr oi \<Rightarrow>
          (if oi_Path oi \<noteq> p \<or> oi_Size oi \<noteq> int (length probe_body) then Some ''readiness probe metadata mismatch''
           else case local_GetRange io p (0, int (length ''gogomail'')) r of
               Inl e \<Rightarrow> Some (''range readiness probe: '' @ e)
             | Inr rd \<Rightarrow> (case read_all 511 rd of
                   (_, ReadUnexpectedEOF) \<Rightarrow> Some ''read range readiness probe body: unexpected EOF''
                 | (got, _) \<Rightarrow> check_body ''read range readiness probe body'' ''readiness probe range body'' ''gogomail'' (got, None))))))"

definition local_Check :: "io \<Rightarrow> string \<Rightarrow> int \<Rightarrow> unit store_op" where
  "local_Check io tmp now r =
     (case local_Put io tmp (probe_path now) (Some (probe_body, None)) r of
        (Inl e, r1) \<Rightarrow> (Inl (''write readiness probe: '' @ e), r1)
      | (Inr _, r1) \<Rightarrow> (case check_object io (probe_path now) r1 of
            Some e \<Rightarrow> (Inl e, snd (local_Delete io (probe_path now) r1))
          | None \<Rightarrow> (case local_Delete io (probe_path now) r1 of
                (Inl e, r2) \<Rightarrow> (Inl (''delete readiness probe: '' @ e), r2)
              | (Inr _, r2) \<Rightarrow> (Inr (), r2))))"

section \<open>Listing\<close>

record list_options =
  lo_Prefix :: string
  lo_Limit :: int
  lo_Cursor :: string

record list_page =
  lp_Objects :: "object_info list"
  lp_NextCursor :: string
  lp_HasMore :: bool

abbreviation "empty_page \<equiv> \<lparr>lp_Objects = [], lp_NextCursor = [], lp_HasMore = False\<rparr>"

text \<open>The calls that \<open>filepath.WalkDir\<close> makes: directories and links are passed over by the function it is given.\<close>

datatype walk_event = WalkError string | WalkFile "string list" string

fun walk :: "io \<Rightarrow> string list \<Rightarrow> fs \<Rightarrow> walk_event list"
and walk_entries :: "io \<Rightarrow> string list \<Rightarrow> (string \<times> fs) list \<Rightarrow> walk_event list" where
  "walk io p (File c) = [WalkFile p c]"
| "walk io p Link = []"
| "walk io p (Dir es) =
     (case io ''readdir'' p of Some e \<Rightarrow> [WalkError e] | None \<Rightarrow> walk_entries io p es)"
| "walk_entries io p [] = []"
| "walk_entries io p ((s, n) # es) = walk io (p @ [s]) n @ walk_entries io p es"

definition is_temp_name :: "string \<Rightarrow> bool" where
  "is_temp_name base \<longleftrightarrow> prefix ''.'' base \<and> suffix ''.tmp'' base"

fun list_loop :: "io \<Rightarrow> string \<Rightarrow> int \<Rightarrow> walk_event list \<Rightarrow> list_page \<Rightarrow> list_page res" where
  "list_loop io cursor limit [] page = Inr page"
| "list_loop io cursor limit (WalkError e # es) page = Inl (''list storage objects: '' @ e)"
| "list_loop io cursor limit (WalkFile p c # es) page =
     (if is_temp_name (last p) then list_loop io cursor limit es page
      else case ValidateObjectPath (go_Join p ''/'') of
          Inl e \<Rightarrow> Inl (''list storage objects: unsafe listed storage path: '' @ e)
        | Inr objectPath \<Rightarrow>
            (if cursor \<noteq> [] \<and> objectPath \<le> cursor then list_loop io cursor limit es page
             else if limit \<le> int (length (lp_Objects page)) then Inr (page\<lparr>lp_HasMore := True\<rparr>)
             else case io ''info'' p of
                 Some e \<Rightarrow> Inl (''list storage objects: stat listed storage object: '' @ e)
               | None \<Rightarrow> list_loop io cursor limit es
                   (page\<lparr>lp_Objects := lp_Objects page @ [\<lparr>oi_Path = objectPath, oi_Size = int (length c)\<rparr>],
                         lp_NextCursor := objectPath\<rparr>)))"

definition list_dir :: "io \<Rightarrow> string \<Rightarrow> int \<Rightarrow> string list \<Rightarrow> fs \<Rightarrow> list_page res" where
  "list_dir io cursor limit p n =
     (case io ''walk'' p of Some e \<Rightarrow> Inl (''list storage objects: '' @ e)
      | None \<Rightarrow> (case list_loop io cursor limit (walk io p n) empty_page of
            Inl e \<Rightarrow> Inl e
          | Inr page \<Rightarrow> Inr (if lp_HasMore page then page else page\<lparr>lp_NextCursor := []\<rparr>)))"

definition local_List :: "io \<Rightarrow> list_options \<Rightarrow> root \<Rightarrow> list_page res" where
  "local_List io opts r =
     (case ValidateObjectPrefix (lo_Prefix opts) of Inl e \<Rightarrow> Inl (''unsafe storage prefix: '' @ e)
      | Inr pre \<Rightarrow> (case ValidateListCursor (lo_Cursor opts) of Inl e \<Rightarrow> Inl e
      | Inr cursor \<Rightarrow>
          (let dir = (if pre = [] then [] else segments pre) in
           case (if pre = [] then None else rejectSymlinkPathComponents io r pre) of
             Some NotExist \<Rightarrow> Inr empty_page
           | Some (OsError e) \<Rightarrow> Inl (''stat storage prefix: '' @ e)
           | None \<Rightarrow> (case os_Lstat io (root_tree r) dir of
               Inl NotExist \<Rightarrow> Inr empty_page
             | Inl (OsError e) \<Rightarrow> Inl (''stat storage prefix: '' @ e)
             | Inr Link \<Rightarrow> Inl ''stat storage prefix: storage path component is a symbolic link''
             | Inr (File c) \<Rightarrow>
                 (if pre = [] then Inl ''stat storage prefix: storage prefix is not a directory''
                  else if cursor \<noteq> [] \<and> pre \<le> cursor then Inr empty_page
                  else Inr (empty_page\<lparr>lp_Objects := [\<lparr>oi_Path = pre, oi_Size = int (length c)\<rparr>]\<rparr>))
             | Inr (Dir es) \<Rightarrow> list_dir io cursor (NormalizeListLimit (lo_Limit opts)) dir (Dir es)))))"

section \<open>Deleting a prefix\<close>

text \<open>\<open>DeletePrefix\<close> works on any store: \<open>st_List\<close> and \<open>st_Delete\<close> are the two operations it calls.\<close>

record delete_result =
  dr_Deleted :: int
  dr_NextCursor :: string
  dr_HasMore :: bool

definition objectPathMatchesPrefix :: "string \<Rightarrow> string \<Rightarrow> bool" where
  "objectPathMatchesPrefix objectPath pre =
     (if pre = [] then False else objectPath = pre \<or> prefix (pre @ ''/'') objectPath)"

fun delete_objects ::
  "(string \<Rightarrow> ('s, string, unit) op) \<Rightarrow> string \<Rightarrow> object_info list \<Rightarrow> delete_result \<Rightarrow> 's \<Rightarrow> (string option \<times> delete_result) \<times> 's" where
  "delete_objects st_Delete pre [] res0 s = ((None, res0), s)"
| "delete_objects st_Delete pre (ob # obs) res0 s =
     (case ValidateObjectPath (oi_Path ob) of
        Inl e \<Rightarrow> ((Some (''storage prefix listing returned unsafe object path: '' @ e), res0), s)
      | Inr objectPath \<Rightarrow>
          (if \<not> objectPathMatchesPrefix objectPath pre
           then ((Some ''storage prefix listing returned object path outside requested prefix'', res0), s)
           else case st_Delete objectPath s of
               (Inl e, s1) \<Rightarrow> ((Some (''delete storage prefix object: '' @ e), res0), s1)
             | (Inr _, s1) \<Rightarrow> delete_objects st_Delete pre obs (res0\<lparr>dr_Deleted := dr_Deleted res0 + 1\<rparr>) s1))"

definition DeletePrefix ::
  "(list_options \<Rightarrow> 's \<Rightarrow> list_page res) \<Rightarrow> (string \<Rightarrow> ('s, string, unit) op) \<Rightarrow> list_options
    \<Rightarrow> 's \<Rightarrow> (string option \<times> delete_result) \<times> 's" where
  "DeletePrefix st_List st_Delete opts s =
     (let none = \<lparr>dr_Deleted = 0, dr_NextCursor = [], dr_HasMore = False\<rparr> in
      case ValidateObjectPrefix (lo_Prefix opts) of Inl e \<Rightarrow> ((Some (''unsafe storage prefix: '' @ e), none), s)
      | Inr pre \<Rightarrow> (if pre = [] then ((Some ''storage prefix is required'', none), s)
      else case ValidateListCursor (lo_Cursor opts) of Inl e \<Rightarrow> ((Some e, none), s)
      | Inr cursor \<Rightarrow> (case st_List \<lparr>lo_Prefix = pre, lo_Limit = lo_Limit opts, lo_Cursor = cursor\<rparr> s of
          Inl e \<Rightarrow> ((Some e, none), s)
        | Inr page \<Rightarrow>
            (let res0 = \<lparr>dr_Deleted = 0, dr_NextCursor = lp_NextCursor page, dr_HasMore = lp_HasMore page\<rparr> in
             if lp_HasMore page \<and> lp_NextCursor page = []
             then ((Some ''storage prefix listing is truncated without a continuation cursor'', res0), s)
             else delete_objects st_Delete pre (lp_Objects page) res0 s))))"

section \<open>What the store holds\<close>

text \<open>The contract: a store is a map from paths to contents. Everything else of the tree is not seen by its clients.\<close>

fun obj_at :: "fs \<Rightarrow> string list \<Rightarrow> string option" where
  "obj_at (File c) [] = Some c"
| "obj_at (Dir es) (s # ss) = (case map_of es s of None \<Rightarrow> None | Some m \<Rightarrow> obj_at m ss)"
| "obj_at _ _ = None"

definition objects :: "root \<Rightarrow> string list \<Rightarrow> string option" where
  "objects r = obj_at (root_tree r)"

lemma root_tree_simps [simp]: "root_tree (Some t) = t" "root_tree None = Dir []"
  by (simp_all add: root_tree_def)

lemma map_of_entry_put [simp]: "map_of (entry_put s n es) u = (if u = s then Some n else map_of es u)"
  by (induction s n es rule: entry_put.induct) auto

lemma map_of_entry_del [simp]: "map_of (entry_del s es) u = (if u = s then None else map_of es u)"
  by (induction es) (auto simp: entry_del_def)

lemma node_at_append:
  "node_at t (p @ q) = (case node_at t p of Inl e \<Rightarrow> Inl e | Inr n \<Rightarrow> node_at n q)"
  by (induction t p rule: node_at.induct) (auto split: option.splits)

lemma obj_at_node: "obj_at t p = (case node_at t p of Inr (File c) \<Rightarrow> Some c | _ \<Rightarrow> None)"
proof (induction t p rule: node_at.induct)
  case (1 n)
  then show ?case by (cases n) auto
qed (auto split: option.splits)

lemma obj_at_Some_iff: "obj_at t p = Some c \<longleftrightarrow> node_at t p = Inr (File c)"
  by (auto simp: obj_at_node split: sum.splits fs.splits)

lemma node_at_dirs:
  assumes "node_at t (p @ q) = Inr n" and "q \<noteq> []"
  obtains es where "node_at t p = Inr (Dir es)"
proof (cases "node_at t p")
  case (Inl e)
  then show ?thesis using assms by (simp add: node_at_append)
next
  case (Inr m)
  then show ?thesis using assms that by (cases m; cases q) (auto simp: node_at_append)
qed

lemma obj_at_leaf: "obj_at (File c) q = (if q = [] then Some c else None)" "obj_at Link q = None" "obj_at (Dir []) q = None"
  by (cases q; simp)+

lemma obj_at_set_at:
  "p \<noteq> [] \<Longrightarrow> node_at t (butlast p) = Inr (Dir es) \<Longrightarrow>
   obj_at (set_at p n t) q = (if prefix p q then obj_at n (drop (length p) q) else obj_at t q)"
proof (induction p arbitrary: t es q)
  case (Cons s ss)
  show ?case
  proof (cases t)
    case (Dir es')
    show ?thesis
    proof (cases "ss = []")
      case True
      then show ?thesis using Dir by (cases q) auto
    next
      case False
      then obtain m where m: "map_of es' s = Some m" and d: "node_at m (butlast ss) = Inr (Dir es)"
        using Cons.prems Dir by (auto split: option.splits)
      show ?thesis using Cons.IH [OF False d] False Dir m by (cases q) auto
    qed
  qed (use Cons.prems in \<open>auto split: if_splits\<close>)
qed simp

lemma obj_at_del_at: "p \<noteq> [] \<Longrightarrow> obj_at (del_at p t) q = (if prefix p q then None else obj_at t q)"
proof (induction p arbitrary: t q)
  case (Cons s ss)
  then show ?case by (cases t; cases q; cases "ss = []") (auto simp: obj_at_leaf split: option.splits)
qed simp

lemma node_at_set_at_same:
  "p \<noteq> [] \<Longrightarrow> node_at t (butlast p) = Inr (Dir es) \<Longrightarrow> node_at (set_at p n t) p = Inr n"
proof (induction p arbitrary: t)
  case (Cons s ss)
  then show ?case by (cases t; cases "ss = []") (auto split: option.splits if_splits)
qed simp

lemma node_at_del_dir:
  "p \<noteq> [] \<Longrightarrow> node_at t q = Inr (Dir es) \<Longrightarrow> \<not> prefix p q \<Longrightarrow> \<exists>es'. node_at (del_at p t) q = Inr (Dir es')"
proof (induction p arbitrary: t q)
  case (Cons s ss)
  then show ?case by (cases t; cases q; cases "ss = []") (auto split: option.splits)
qed simp

lemma node_at_set_parent:
  "p \<noteq> [] \<Longrightarrow> node_at t (butlast p) = Inr (Dir es) \<Longrightarrow> \<exists>es'. node_at (set_at p n t) (butlast p) = Inr (Dir es')"
proof (induction p arbitrary: t)
  case (Cons s ss)
  then show ?case by (cases t; cases "ss = []") (auto split: option.splits)
qed simp

section \<open>The operations implement the map\<close>

lemma ensure_dirs_objects:
  "node_at t current = Inr (Dir es) \<Longrightarrow> ensure_dirs io t current ss = (e, t') \<Longrightarrow>
   obj_at t' = obj_at t \<and> (e = None \<longrightarrow> (\<exists>es'. node_at t' (current @ ss) = Inr (Dir es')))"
proof (induction io t current ss arbitrary: es rule: ensure_dirs.induct)
  case (2 io t current s ss)
  let ?p = "current @ [s]"
  have new: "obj_at (set_at ?p (Dir []) t) = obj_at t" if "node_at t ?p = Inl NotExist"
  proof (rule ext)
    fix q
    have "obj_at t q = None" if "prefix ?p q"
    proof -
      from that obtain zs where "q = ?p @ zs" by (auto simp: prefix_def)
      then show ?thesis using \<open>node_at t ?p = Inl NotExist\<close> node_at_append [of t ?p zs] by (simp add: obj_at_node)
    qed
    then show "obj_at (set_at ?p (Dir []) t) q = obj_at t q"
      using obj_at_set_at [of ?p t es "Dir []" q] 2(3) by (simp add: obj_at_leaf)
  qed
  show ?case
  proof (cases "os_Lstat io t ?p")
    case (Inl a)
    show ?thesis
    proof (cases a)
      case NotExist
      then have nx: "node_at t ?p = Inl NotExist"
        using Inl by (auto simp: os_Lstat_def split: option.splits)
      have at: "node_at (set_at ?p (Dir []) t) ?p = Inr (Dir [])"
        using node_at_set_at_same [of ?p t es] 2(3) by simp
      show ?thesis using Inl NotExist 2(1)[OF refl Inl NotExist _ _ at] 2(4) new [OF nx]
        by (auto simp: Let_def split: option.splits)
    qed (use Inl 2(4) in \<open>auto simp: Let_def\<close>)
  next
    case (Inr n)
    then have at: "node_at t ?p = Inr n" by (auto simp: os_Lstat_def split: option.splits)
    show ?thesis
    proof (cases n)
      case (Dir es')
      then show ?thesis using Inr 2(2)[OF refl Inr Dir] at 2(4) by (auto simp: Let_def)
    qed (use Inr 2(4) in \<open>auto simp: Let_def\<close>)
  qed
qed simp

lemma ensureObjectParentDir_objects:
  assumes "ensureObjectParentDir io p r = (res, r')"
  shows "objects r' = objects r"
    and "res = Inr () \<Longrightarrow> \<exists>k es. ValidateObjectPath p = Inr k \<and> node_at (root_tree r') (butlast (segments k)) = Inr (Dir es)"
proof -
  have dirs: "obj_at t = obj_at (Dir es) \<and> (e = None \<longrightarrow> (\<exists>es'. node_at t ss = Inr (Dir es')))"
    if "ensure_dirs io (Dir es) [] ss = (e, t)" for ss e t es
    using ensure_dirs_objects [OF _ that, of es] by simp
  have root: "obj_at (root_tree r1) = obj_at (root_tree r) \<and> (a = Inr () \<longrightarrow> (\<exists>es. root_tree r1 = Dir es))"
    if "ensureRootDir io r = (a, r1)" for a r1
    using that by (auto simp: ensureRootDir_def root_tree_def split: option.splits fs.splits)
  show "objects r' = objects r"
    and "res = Inr () \<Longrightarrow> \<exists>k es. ValidateObjectPath p = Inr k \<and> node_at (root_tree r') (butlast (segments k)) = Inr (Dir es)"
    using assms unfolding ensureObjectParentDir_def
    by (auto elim!: try_opE dest!: root dirs simp: pure_op_def objects_def split: prod.splits option.splits)
qed

text \<open>A renamed file.\<close>

lemma os_Rename_objects:
  assumes "os_Rename io t src dst = Inr t'" and "node_at t src = Inr (File c)" and "src \<noteq> []" "dst \<noteq> []" "src \<noteq> dst"
  shows "obj_at t' = (obj_at t)(src := None, dst := Some c)"
proof (rule ext)
  fix q
  from assms obtain es where d: "node_at t (butlast dst) = Inr (Dir es)" and nd: "\<And>es. node_at t dst \<noteq> Inr (Dir es)"
    and t': "t' = set_at dst (File c) (del_at src t)"
    by (auto simp: os_Rename_def split: option.splits sum.splits fs.splits)
  have "\<not> prefix src (butlast dst)"
  proof
    assume "prefix src (butlast dst)"
    then obtain zs where "butlast dst = src @ zs" by (auto simp: prefix_def)
    then have "node_at (File c) zs = Inr (Dir es)" using assms(2) d by (simp add: node_at_append)
    then show False by (cases zs) auto
  qed
  then obtain es' where d': "node_at (del_at src t) (butlast dst) = Inr (Dir es')"
    using node_at_del_dir [OF assms(3) d] by blast
  have below: "obj_at t q = None" if "prefix u q" "q \<noteq> u" "\<And>es. node_at t u \<noteq> Inr (Dir es)" for u
    using that by (auto simp: prefix_def obj_at_node neq_Nil_conv elim: node_at_dirs [of t u] split: sum.splits fs.splits)
  have "obj_at t q = None" if "prefix src q" "q \<noteq> src" using below [of src] that assms(2) by simp
  moreover have "obj_at t q = None" if "prefix dst q" "q \<noteq> dst" using below [of dst] that nd by blast
  ultimately show "obj_at t' q = ((obj_at t)(src := None, dst := Some c)) q"
    using obj_at_set_at [OF assms(4) d', of "File c" q] obj_at_del_at [OF assms(3), of t q] assms(5)
    by (auto simp: t' obj_at_leaf prefix_def)
qed

lemma temp_path_facts:
  assumes "full \<noteq> []"
  shows "temp_path tmp full \<noteq> full" "temp_path tmp full \<noteq> []" "is_temp_name (last (temp_path tmp full))"
proof -
  have "length (last (temp_path tmp full)) \<noteq> length (last full)" by (simp add: temp_path_def)
  then show "temp_path tmp full \<noteq> full" by metis
  show "is_temp_name (last (temp_path tmp full))"
    by (auto simp: temp_path_def is_temp_name_def suffix_def)
qed (use assms in \<open>simp_all add: temp_path_def\<close>)

lemma segments_nonempty [simp]: "segments p \<noteq> []"
  by (simp add: segments_def)

lemma safePath_iff: "safePath p = Inr full \<longleftrightarrow> (\<exists>k. ValidateObjectPath p = Inr k \<and> full = segments k)"
  by (auto simp: safePath_def split: sum.splits)

lemma remove_temp_objects:
  assumes "p \<noteq> []"
  shows "q \<noteq> p \<Longrightarrow> node_at t p = Inr (File c) \<Longrightarrow> obj_at (remove_temp io p t) q = obj_at t q"
    and "io ''remove'' p = None \<Longrightarrow> node_at t p = Inr (File c) \<Longrightarrow> obj_at (remove_temp io p t) p = None"
proof -
  have "obj_at t q = None" if "prefix p q" "q \<noteq> p" "node_at t p = Inr (File c)" for q
  proof -
    from that obtain zs where "q = p @ zs" "zs \<noteq> []" by (auto simp: prefix_def)
    then show ?thesis using that(3) by (cases zs) (simp_all add: obj_at_node node_at_append)
  qed
  then show "q \<noteq> p \<Longrightarrow> node_at t p = Inr (File c) \<Longrightarrow> obj_at (remove_temp io p t) q = obj_at t q"
    and "io ''remove'' p = None \<Longrightarrow> node_at t p = Inr (File c) \<Longrightarrow> obj_at (remove_temp io p t) p = None"
    using obj_at_del_at [OF assms]
    by (auto simp: remove_temp_def os_Remove_def split: option.splits sum.splits fs.splits)
qed

text \<open>The file is under its temporary name until it is renamed.\<close>

lemma put_file_objects:
  assumes put: "put_file io tmp full body r = (res, r')" and full: "full \<noteq> []"
    and dir: "node_at (root_tree r) (butlast full) = Inr (Dir es)"
  shows "res = Inr () \<Longrightarrow> snd body = None \<and> objects r' = (objects r)(full := Some (fst body))"
    and "res = Inl e \<Longrightarrow> q \<noteq> temp_path tmp full \<or> io ''remove'' q = None \<Longrightarrow> objects r' q = objects r q"
proof -
  let ?t = "root_tree r" and ?p = "temp_path tmp full"
  have p: "butlast ?p = butlast full" by (simp add: temp_path_def)
  note facts = temp_path_facts [OF full, of tmp]
  have shown: "(res = Inr () \<longrightarrow> snd body = None \<and> objects r' = (objects r)(full := Some (fst body))) \<and>
    (\<forall>e. res = Inl e \<longrightarrow> q \<noteq> ?p \<or> io ''remove'' q = None \<longrightarrow> objects r' q = objects r q)" for q
  proof (cases "os_CreateTemp io ?t ?p")
    case (Inl a)
    then show ?thesis using put by (auto simp: put_file_def)
  next
    case (Inr t)
    then have t: "t = set_at ?p (File []) ?t" and free: "node_at ?t ?p = Inl NotExist"
      by (auto simp: os_CreateTemp_def split: option.splits sum.splits os_error.splits)
    define c where "c = (if io ''write'' ?p = None then fst body else [])"
    obtain es1 where es1: "node_at t (butlast ?p) = Inr (Dir es1)"
      using node_at_set_parent [OF facts(2), of ?t es] dir t p by auto
    let ?t1 = "set_at ?p (File c) t"
    have at: "node_at ?t1 ?p = Inr (File c)" by (rule node_at_set_at_same [OF facts(2) es1])
    have none: "obj_at ?t q = None" if "prefix ?p q" for q
      using that free node_at_append [of ?t ?p] by (auto simp: prefix_def obj_at_node)
    have t1: "obj_at ?t1 q = (if q = ?p then Some c else obj_at ?t q)" for q
      using obj_at_set_at [OF facts(2) es1, of "File c" q] none [of q]
        obj_at_set_at [OF facts(2), of ?t es "File []" q] dir
      by (auto simp: t p obj_at_leaf prefix_def)
    show ?thesis
    proof (cases "commit_object io ?p full body t")
      case (Pair err t2)
      show ?thesis
      proof (cases err)
        case None
        from Pair None have w: "io ''write'' ?p = None" "snd body = None" and ren: "os_Rename io ?t1 ?p full = Inr t2"
          by (auto simp: commit_object_def write_error_def Let_def c_def split: option.splits sum.splits if_splits)
        have "obj_at t2 = (obj_at ?t1)(?p := None, full := Some c)"
          by (rule os_Rename_objects [OF ren at facts(2) full facts(1)])
        then have "obj_at t2 = (obj_at ?t)(full := Some (fst body))"
          using t1 none [of ?p] w(1) by (auto simp: c_def fun_eq_iff)
        then show ?thesis using put Inr Pair None w by (auto simp: put_file_def objects_def)
      next
        case (Some e)
        then have t2: "t2 = ?t1" using Pair
          by (auto simp: commit_object_def Let_def c_def split: option.splits sum.splits if_splits)
        have kept: "obj_at (remove_temp io ?p ?t1) q = obj_at ?t q" if "q \<noteq> ?p \<or> io ''remove'' q = None"
          using that none [of ?p] t1 remove_temp_objects(2) [OF facts(2) _ at, of io]
            remove_temp_objects(1) [OF facts(2) _ at, of q io] by (cases "q = ?p") auto
        have "res = Inl e \<and> r' = Some (remove_temp io ?p ?t1)"
          using put Inr Pair Some t2 by (auto simp: put_file_def)
        then show ?thesis using kept by (simp add: objects_def)
      qed
    qed
  qed
  then show "res = Inr () \<Longrightarrow> snd body = None \<and> objects r' = (objects r)(full := Some (fst body))"
    and "res = Inl e \<Longrightarrow> q \<noteq> ?p \<or> io ''remove'' q = None \<Longrightarrow> objects r' q = objects r q"
    by blast+
qed

lemma local_Put_objects:
  assumes put: "local_Put io tmp p body r = (res, r')"
  shows "res = Inr () \<Longrightarrow> \<exists>k c. ValidateObjectPath p = Inr k \<and> body = Some (c, None) \<and>
      objects r' = (objects r)(segments k := Some c)"
    and "res = Inl e \<Longrightarrow> \<not> is_temp_name (last q) \<or> io ''remove'' q = None \<Longrightarrow> objects r' q = objects r q"
proof -
  have shown: "(res = Inr () \<longrightarrow> (\<exists>k c. ValidateObjectPath p = Inr k \<and> body = Some (c, None) \<and>
      objects r' = (objects r)(segments k := Some c))) \<and>
    (\<forall>e. res = Inl e \<longrightarrow> \<not> is_temp_name (last q) \<or> io ''remove'' q = None \<longrightarrow> objects r' q = objects r q)" for q
  proof (cases body)
    case None
    then show ?thesis using put by (auto simp: local_Put_def fail_op_def)
  next
    case (Some b)
    show ?thesis
    proof (cases "ValidateObjectPath p")
      case (Inl e)
      then show ?thesis using put Some by (auto simp: local_Put_def pure_op_def try_op_def safePath_def)
    next
      case (Inr k)
      obtain a r1 where par: "ensureObjectParentDir io p r = (a, r1)" by fastforce
      note same = ensureObjectParentDir_objects(1) [OF par]
      show ?thesis
      proof (cases a)
        case (Inl e)
        then show ?thesis using put Some Inr par same by (auto simp: local_Put_def pure_op_def try_op_def safePath_def)
      next
        case (Inr u)
        with ensureObjectParentDir_objects(2) [OF par] \<open>ValidateObjectPath p = Inr k\<close>
        obtain es where dir: "node_at (root_tree r1) (butlast (segments k)) = Inr (Dir es)" by auto
        from put Some Inr \<open>ValidateObjectPath p = Inr k\<close> par have f: "put_file io tmp (segments k) b r1 = (res, r')"
          by (auto simp: local_Put_def pure_op_def try_op_def safePath_def)
        have ok: "res = Inr () \<Longrightarrow> snd b = None \<and> objects r' = (objects r)(segments k := Some (fst b))"
          using put_file_objects(1) [OF f segments_nonempty dir] same by simp
        have bad: "objects r' q = objects r q" if "res = Inl e" "\<not> is_temp_name (last q) \<or> io ''remove'' q = None" for e
        proof -
          have "q \<noteq> temp_path tmp (segments k) \<or> io ''remove'' q = None"
            using that(2) temp_path_facts(3) [OF segments_nonempty, of tmp k] by auto
          then show ?thesis using put_file_objects(2) [OF f segments_nonempty dir that(1)] same by simp
        qed
        show ?thesis
        proof (intro conjI allI impI)
          assume "res = Inr ()"
          then show "\<exists>k c. ValidateObjectPath p = Inr k \<and> body = Some (c, None) \<and>
              objects r' = (objects r)(segments k := Some c)"
            using ok Some \<open>ValidateObjectPath p = Inr k\<close> by (cases b) simp
        qed (use bad in blast)
      qed
    qed
  qed
  show "res = Inr () \<Longrightarrow> \<exists>k c. ValidateObjectPath p = Inr k \<and> body = Some (c, None) \<and>
      objects r' = (objects r)(segments k := Some c)"
    and "res = Inl e \<Longrightarrow> \<not> is_temp_name (last q) \<or> io ''remove'' q = None \<Longrightarrow> objects r' q = objects r q"
    using shown [of q] by simp_all
qed

lemma rejectSymlinkComponents_NotExist:
  "rejectSymlinkComponents io t current ss = Some NotExist \<Longrightarrow>
   \<exists>u v. ss = u @ v \<and> node_at t (current @ u) = Inl NotExist"
proof (induction io t current ss rule: rejectSymlinkComponents.induct)
  case (2 io t current s ss)
  have step: ?case if "\<exists>u v. ss = u @ v \<and> node_at t ((current @ [s]) @ u) = Inl NotExist"
    using that by (metis append.assoc append_Cons append_Nil)
  show ?case
  proof (cases "os_Lstat io t (current @ [s])")
    case (Inl a)
    then have "node_at t (current @ [s]) = Inl NotExist"
      using 2(3) by (auto simp: os_Lstat_def split: option.splits)
    then show ?thesis by (metis append_Cons append_Nil)
  next
    case (Inr n)
    then show ?thesis using 2 step by (cases n) auto
  qed
qed simp

lemma local_Delete_objects:
  assumes del: "local_Delete io p r = (res, r')"
  shows "res = Inr () \<Longrightarrow> \<exists>k. ValidateObjectPath p = Inr k \<and> objects r' = (objects r)(segments k := None)"
    and "res = Inl e \<Longrightarrow> objects r' = objects r"
proof -
  have gone1: "objects r full = None" if "rejectSymlinkParentComponents io r full = Some NotExist" for r full
  proof -
    from that rejectSymlinkComponents_NotExist obtain u v
      where "butlast full = u @ v" "node_at (root_tree r) ([] @ u) = Inl NotExist"
      unfolding rejectSymlinkParentComponents_def by blast
    moreover from this have "full = u @ (v @ [last full]) \<or> full = []"
      by (metis append.assoc append_butlast_last_id)
    ultimately show ?thesis using node_at_append [of "root_tree r" u "v @ [last full]"]
      by (auto simp: objects_def obj_at_node)
  qed
  have gone2: "objects r full = None" if "localObjectInfo io (root_tree r) full = Inl NotExist" for r full
    using that by (auto simp: localObjectInfo_def os_Lstat_def objects_def obj_at_node split: option.splits sum.splits fs.splits)
  have removed: "objects (Some t) = (objects r)(full := None)"
    if "os_Remove io (root_tree r) full = Inr t" "localObjectInfo io (root_tree r) full = Inr c" "full \<noteq> []" for r full t c
  proof -
    from that(2) have at: "node_at (root_tree r) full = Inr (File c)"
      by (auto simp: localObjectInfo_def os_Lstat_def split: option.splits sum.splits fs.splits)
    with that(1) have t: "t = remove_temp io full (root_tree r)" "io ''remove'' full = None"
      by (auto simp: remove_temp_def os_Remove_def split: option.splits)
    show ?thesis
      using remove_temp_objects [OF that(3), where t = "root_tree r" and io = io] at t by (auto simp: objects_def fun_eq_iff)
  qed
  have never: "localObjectInfo io (root_tree r) full = Inr c \<Longrightarrow> os_Remove io (root_tree r) full \<noteq> Inl NotExist" for r full c
    by (auto simp: os_Remove_def localObjectInfo_def os_Lstat_def split: option.splits sum.splits fs.splits)
  from del show "res = Inr () \<Longrightarrow> \<exists>k. ValidateObjectPath p = Inr k \<and> objects r' = (objects r)(segments k := None)"
    and "res = Inl e \<Longrightarrow> objects r' = objects r"
    unfolding local_Delete_def
    by (auto elim!: try_opE simp: pure_op_def safePath_iff gone1 gone2 removed never fun_upd_idem
        split: option.splits os_error.splits sum.splits)
qed

lemma local_Get_object:
  assumes "open_object io what p r = Inr (full, c)"
  shows "\<exists>k. ValidateObjectPath p = Inr k \<and> full = segments k \<and> objects r full = Some c"
  using assms
  by (auto simp: open_object_def safePath_iff localObjectInfo_def os_Lstat_def objects_def obj_at_Some_iff
      split: sum.splits option.splits fs.splits)

lemma segments_inject: "segments a = segments b \<longleftrightarrow> a = b"
  by (metis go_Join_Split1 segments_def)

lemma ValidateObjectPath_idem: "ValidateObjectPath p = Inr k \<Longrightarrow> ValidateObjectPath k = Inr k"
  by (auto simp: ValidateObjectPath_def Let_def split: if_splits option.splits)

text \<open>A system in which nothing that a read needs fails.\<close>

definition readable_io :: "io \<Rightarrow> bool" where
  "readable_io io \<longleftrightarrow> (\<forall>c q. c \<in> {''lstat'', ''open'', ''read'', ''seek''} \<longrightarrow> io c q = None)"

lemma rejectSymlinkComponents_dirs:
  "node_at t (current @ ss @ z) = Inr n \<Longrightarrow> z \<noteq> [] \<Longrightarrow> \<forall>q. io ''lstat'' q = None \<Longrightarrow>
   rejectSymlinkComponents io t current ss = None"
proof (induction io t current ss rule: rejectSymlinkComponents.induct)
  case (2 io t current s ss)
  then obtain es where "node_at t (current @ [s]) = Inr (Dir es)"
    using node_at_dirs [of t "current @ [s]" "ss @ z" n thesis] by auto
  then show ?case using 2 by (simp add: os_Lstat_def)
qed simp

lemma open_object_complete:
  assumes "ValidateObjectPath p = Inr k" and "objects r (segments k) = Some c" and "readable_io io"
  shows "open_object io what p r = Inr (segments k, c)"
proof -
  have at: "node_at (root_tree r) ([] @ butlast (segments k) @ [last (segments k)]) = Inr (File c)"
    using assms(2) by (simp add: objects_def obj_at_Some_iff)
  then have "rejectSymlinkParentComponents io r (segments k) = None"
    using rejectSymlinkComponents_dirs [OF at] assms(3)
    by (simp add: rejectSymlinkParentComponents_def readable_io_def)
  then show ?thesis
    using assms at by (simp add: open_object_def safePath_def localObjectInfo_def os_Lstat_def readable_io_def)
qed

lemma local_Get_complete:
  "ValidateObjectPath p = Inr k \<Longrightarrow> objects r (segments k) = Some c \<Longrightarrow> readable_io io \<Longrightarrow> local_Get io p r = Inr (c, None)"
  by (simp add: local_Get_def open_object_complete readable_io_def)

text \<open>The paths whose objects an operation has changed, and those of temporary files that could not be removed.\<close>

definition changed :: "root \<Rightarrow> root \<Rightarrow> string list set" where
  "changed r r' = {q. objects r' q \<noteq> objects r q}"

definition left_over :: "io \<Rightarrow> string list set" where
  "left_over io = {q. is_temp_name (last q) \<and> io ''remove'' q \<noteq> None}"

lemma local_Put_cases:
  assumes "local_Put io tmp p body r = (res, r')"
  obtains (stored) k c where "res = Inr ()" "ValidateObjectPath p = Inr k" "body = Some (c, None)"
      "objects r' = (objects r)(segments k := Some c)"
    | (failed) e where "res = Inl e" "changed r r' \<subseteq> left_over io"
proof (cases res)
  case (Inl e)
  have "changed r r' \<subseteq> left_over io"
  proof
    fix q
    assume "q \<in> changed r r'"
    then have ne: "objects r' q \<noteq> objects r q" by (simp add: changed_def)
    have "is_temp_name (last q) \<and> io ''remove'' q \<noteq> None"
    proof (rule ccontr)
      assume "\<not> (is_temp_name (last q) \<and> io ''remove'' q \<noteq> None)"
      then have "\<not> is_temp_name (last q) \<or> io ''remove'' q = None" by blast
      from local_Put_objects(2) [OF assms Inl this] ne show False by simp
    qed
    then show "q \<in> left_over io" by (simp add: left_over_def)
  qed
  then show ?thesis using Inl that(2) by blast
next
  case (Inr u)
  then show ?thesis using local_Put_objects(1) [OF assms] that(1) by auto
qed

text \<open>C17. Writing an object is atomic: when \<open>Put\<close> reports success, the object holds all of the body and no other object has
  changed; when it reports an error, every object is what it was, whichever call of the system failed and also when the body
  ended early. All that can stay behind is a temporary file that the system would not remove.\<close>

theorem put_is_atomic:
  "case local_Put io tmp p body r of
     (Inr _, r') \<Rightarrow> (\<exists>k c. ValidateObjectPath p = Inr k \<and> body = Some (c, None) \<and>
        objects r' = (objects r)(segments k := Some c))
   | (Inl _, r') \<Rightarrow> changed r r' \<subseteq> left_over io"
proof -
  obtain res r' where put: "local_Put io tmp p body r = (res, r')" by fastforce
  then show ?thesis
  proof (cases rule: local_Put_cases)
    case (stored k c)
    then show ?thesis unfolding put by simp
  qed (simp add: put)
qed

text \<open>What was put is read back, by the same path, however much else the store holds.\<close>

theorem put_then_get:
  assumes "local_Put io tmp p (Some (c, e)) r = (Inr u, r')" and "readable_io io"
  shows "local_Get io p r' = Inr (c, None)"
  using assms(1)
proof (cases rule: local_Put_cases)
  case (stored k c')
  then show ?thesis using local_Get_complete [OF stored(2) _ assms(2)] by simp
qed simp

lemma put_then_get_witness:
  "local_Get (\<lambda>_ _. None) ''a/b'' (snd (local_Put (\<lambda>_ _. None) ''1'' ''a/b'' (Some (''data'', None)) None)) = Inr (''data'', None)"
proof -
  have "fst (local_Put (\<lambda>_ _. None) ''1'' ''a/b'' (Some (''data'', None)) None) = Inr ()" by code_simp
  then show ?thesis
    using put_then_get [of "\<lambda>_ _. None" "''1''" "''a/b''" "''data''" None None "()"
        "snd (local_Put (\<lambda>_ _. None) ''1'' ''a/b'' (Some (''data'', None)) None)"]
    by (simp add: readable_io_def prod_eq_iff)
qed

lemma local_Copy_cases:
  assumes "local_Copy io tmp p q r = (res, r')"
  obtains (same) s where "res = Inr ()" "both_paths p q = Inr (s, s)" "r' = r"
    | (copied) s d c where "res = Inr ()" "both_paths p q = Inr (s, d)" "s \<noteq> d" "objects r (segments s) = Some c"
      "objects r' = (objects r)(segments d := Some c)"
    | (failed) e where "res = Inl e" "changed r r' \<subseteq> left_over io"
proof (cases "both_paths p q")
  case (Inl e)
  then show ?thesis using assms that(3) by (auto simp: local_Copy_def try_op_def pure_op_def changed_def)
next
  case (Inr sd)
  then obtain s d where sd: "both_paths p q = Inr (s, d)" by (cases sd) auto
  then have ok: "ValidateObjectPath s = Inr s" "ValidateObjectPath d = Inr d"
    by (auto simp: both_paths_def dest: ValidateObjectPath_idem split: sum.splits)
  show ?thesis
  proof (cases "s = d")
    case True
    then show ?thesis using assms sd that(1) by (auto simp: local_Copy_def try_op_def pure_op_def)
  next
    case False
    show ?thesis
    proof (cases "local_Get io s r")
      case (Inl e)
      then show ?thesis using assms sd False that(3) by (auto simp: local_Copy_def try_op_def pure_op_def changed_def)
    next
      case (Inr body)
      then have got: "objects r (segments s) = Some (fst body)"
        using ok(1) by (auto simp: local_Get_def dest!: local_Get_object split: sum.splits option.splits)
      obtain a r1 where put: "local_Put io tmp d (Some body) r = (a, r1)" by fastforce
      then show ?thesis
      proof (cases rule: local_Put_cases)
        case (stored k c)
        then show ?thesis using assms sd False Inr put got ok(2) that(2) [of s d c]
          by (auto simp: local_Copy_def try_op_def pure_op_def)
      next
        case (failed e)
        then show ?thesis using assms sd False Inr put that(3)
          by (auto simp: local_Copy_def try_op_def pure_op_def)
      qed
    qed
  qed
qed

lemma open_object_Inr:
  "open_object io what p r = Inr (full, c) \<Longrightarrow> node_at (root_tree r) full = Inr (File c) \<and> safePath p = Inr full"
  by (auto simp: open_object_def localObjectInfo_def os_Lstat_def split: sum.splits option.splits fs.splits)

text \<open>Whatever happens to a move, the content is not lost: it is under the one path or the other.\<close>

lemma local_Move_cases:
  assumes "local_Move io tmp p q r = (res, r')"
  obtains (same) s where "res = Inr ()" "both_paths p q = Inr (s, s)" "r' = r"
    | (moved) s d c where "res = Inr ()" "both_paths p q = Inr (s, d)" "s \<noteq> d" "objects r (segments s) = Some c"
      "objects r' = (objects r)(segments s := None, segments d := Some c)"
    | (copied) s d c e where "res = Inl e" "both_paths p q = Inr (s, d)" "s \<noteq> d" "objects r (segments s) = Some c"
      "objects r' = (objects r)(segments d := Some c)"
    | (failed) e where "res = Inl e" "changed r r' \<subseteq> left_over io"
proof (cases "both_paths p q")
  case (Inl e)
  then show ?thesis using assms that(4) by (auto simp: local_Move_def try_op_def pure_op_def changed_def)
next
  case (Inr sd)
  then obtain s d where sd: "both_paths p q = Inr (s, d)" by (cases sd) auto
  then have ok: "ValidateObjectPath s = Inr s" "ValidateObjectPath d = Inr d"
    by (auto simp: both_paths_def dest: ValidateObjectPath_idem split: sum.splits)
  show ?thesis
  proof (cases "s = d")
    case True
    then show ?thesis using assms sd that(1) by (auto simp: local_Move_def try_op_def pure_op_def)
  next
    case False
    then have neq: "segments s \<noteq> segments d" by (simp add: segments_inject)
    show ?thesis
    proof (cases "open_object io ''move source storage object: '' s r")
      case (Inl e)
      then show ?thesis using assms sd False that(4) by (auto simp: local_Move_def try_op_def pure_op_def changed_def)
    next
      case (Inr fc)
      then obtain c where op: "open_object io ''move source storage object: '' s r = Inr (segments s, c)"
        and got: "objects r (segments s) = Some c"
        using ok(1) by (cases fc) (auto dest: local_Get_object)
      obtain a r1 where par: "ensureObjectParentDir io d r = (a, r1)" by fastforce
      note kept = ensureObjectParentDir_objects(1) [OF par]
      have move: "local_Move io tmp p q r = (case a of
          Inl e \<Rightarrow> (Inl (''create destination storage directory: '' @ e), r1)
        | Inr _ \<Rightarrow> (case os_Rename io (root_tree r1) (segments s) (segments d) of
            Inr t \<Rightarrow> (Inr (), Some t)
          | Inl e \<Rightarrow> (if e = EXDEV then copy_and_delete io tmp s d r1
                     else (Inl (''move storage object: '' @ e), r1))))"
        using sd False op par ok(2) by (simp add: local_Move_def try_op_def pure_op_def safePath_def)
      show ?thesis
      proof (cases "\<exists>u t. a = Inr u \<and> os_Rename io (root_tree r1) (segments s) (segments d) = Inr t")
        case True
        then obtain t where t: "os_Rename io (root_tree r1) (segments s) (segments d) = Inr t" and a: "a = Inr ()" by auto
        have at: "node_at (root_tree r1) (segments s) = Inr (File c)"
          using got kept by (metis objects_def obj_at_Some_iff)
        have "objects (Some t) = (objects r)(segments s := None, segments d := Some c)"
          using os_Rename_objects [OF t at segments_nonempty segments_nonempty neq] kept by (simp add: objects_def)
        then show ?thesis using assms move a t sd False got that(2) by auto
      next
        case False': False
        show ?thesis
        proof (cases "\<exists>u. a = Inr u \<and> os_Rename io (root_tree r1) (segments s) (segments d) = Inl EXDEV")
          case False
          then show ?thesis using assms move False' kept that(4)
            by (auto simp: changed_def split: sum.splits if_splits)
        next
          case True
          then have cd: "copy_and_delete io tmp s d r1 = (res, r')" using assms move by auto
          obtain b r2 where cp: "local_Copy io tmp s d r1 = (b, r2)" by fastforce
          have sd': "both_paths s d = Inr (s, d)" using ok by (simp add: both_paths_def)
          from cp show ?thesis
          proof (cases rule: local_Copy_cases)
            case (same s')
            then show ?thesis using sd' \<open>s \<noteq> d\<close> by simp
          next
            case (copied s' d' c')
            then have r2: "objects r2 = (objects r)(segments d := Some c)" using sd' kept got by simp
            obtain x r3 where del: "local_Delete io s r2 = (x, r3)" by fastforce
            show ?thesis
            proof (cases x)
              case (Inl e)
              then show ?thesis
                using cd cp copied del local_Delete_objects(2) [OF del Inl] r2 sd \<open>s \<noteq> d\<close> got that(3)
                by (auto simp: copy_and_delete_def)
            next
              case (Inr u)
              then have "objects r3 = (objects r2)(segments s := None)" using local_Delete_objects(1) [OF del] ok(1) by simp
              then have "objects r3 = (objects r)(segments s := None, segments d := Some c)"
                using r2 neq by (simp add: fun_upd_twist)
              then show ?thesis using cd cp copied del Inr sd \<open>s \<noteq> d\<close> got that(2) by (auto simp: copy_and_delete_def)
            qed
          next
            case (failed e)
            then show ?thesis using cd cp kept that(4) by (auto simp: copy_and_delete_def changed_def)
          qed
        qed
      qed
    qed
  qed
qed

text \<open>C19. The operations of the local store implement those of a map from paths to contents: a successful \<open>Delete\<close> removes
  one key, a \<open>Copy\<close> writes the content of one key under another, a \<open>Move\<close> does both in one step, and a failed one has
  changed nothing but temporary files. The exception is a move between two devices that could copy the object and then not
  delete it: the object is under both paths then, and is never lost.\<close>

theorem local_store_implements_a_map:
  "(case local_Delete io p r of
      (Inr _, r') \<Rightarrow> (\<exists>k. ValidateObjectPath p = Inr k \<and> objects r' = (objects r)(segments k := None))
    | (Inl _, r') \<Rightarrow> objects r' = objects r) \<and>
   (case local_Copy io tmp p q r of
      (Inr _, r') \<Rightarrow> (\<exists>s d. both_paths p q = Inr (s, d) \<and>
         (s = d \<and> r' = r \<or> s \<noteq> d \<and> (\<exists>c. objects r (segments s) = Some c \<and> objects r' = (objects r)(segments d := Some c))))
    | (Inl _, r') \<Rightarrow> changed r r' \<subseteq> left_over io) \<and>
   (case local_Move io tmp p q r of
      (Inr _, r') \<Rightarrow> (\<exists>s d. both_paths p q = Inr (s, d) \<and>
         (s = d \<and> r' = r \<or> s \<noteq> d \<and> (\<exists>c. objects r (segments s) = Some c \<and>
            objects r' = (objects r)(segments s := None, segments d := Some c))))
    | (Inl _, r') \<Rightarrow> changed r r' \<subseteq> left_over io \<or>
         (\<exists>s d c. both_paths p q = Inr (s, d) \<and> s \<noteq> d \<and> objects r (segments s) = Some c \<and>
            objects r' = (objects r)(segments d := Some c)))" (is "?delete \<and> ?copy \<and> ?move")
proof (intro conjI)
  obtain a r1 where del: "local_Delete io p r = (a, r1)" by fastforce
  show ?delete using local_Delete_objects [OF del] unfolding del by (cases a) auto
  obtain b r2 where cp: "local_Copy io tmp p q r = (b, r2)" by fastforce
  then show ?copy by (cases rule: local_Copy_cases) (simp_all add: cp)
  obtain c r3 where mv: "local_Move io tmp p q r = (c, r3)" by fastforce
  then show ?move by (cases rule: local_Move_cases) (simp_all add: mv)
qed

section \<open>Ranges\<close>

text \<open>A range is accepted exactly when its offset is not negative, its length is positive and its last byte has a
  position that is an \<open>int64\<close>: the check itself does not wrap around for any two \<open>int64\<close> values.\<close>

theorem range_check_does_not_wrap:
  assumes "- (2 ^ 63) \<le> off" "off \<le> max_int64" "- (2 ^ 63) \<le> len" "len \<le> max_int64"
  shows "(\<exists>v. ValidateRangeRequest (off, len) = Inr v) = (0 \<le> off \<and> 0 < len \<and> off + len - 1 \<le> max_int64)"
proof -
  have "wrap64 (wrap64 (max_int64 - len) + 1) = max_int64 - len + 1" if "0 < len"
    using that assms by (simp add: wrap64_id_nonneg max_int64_def)
  then show ?thesis by (auto simp: ValidateRangeRequest_def)
qed

lemma range_check_does_not_wrap_witness:
  "(\<exists>v. ValidateRangeRequest (max_int64, 1) = Inr v) = (0 \<le> max_int64 \<and> (0::int) < 1 \<and> max_int64 + 1 - 1 \<le> max_int64)"
  using range_check_does_not_wrap [of max_int64 1] by (simp add: max_int64_def)

lemma limited_Read_cases:
  "limited_Read (Suc k) (rest, remaining) =
     (if remaining \<le> 0 then (([], ReadEOF), (rest, remaining))
      else if rest = [] then (([], if 0 < wrap64 remaining then ReadUnexpectedEOF else ReadEOF), ([], wrap64 remaining))
      else let k1 = (if remaining < int (Suc k) then nat remaining else Suc k) in
        ((take k1 rest, ReadMore), (drop k1 rest, wrap64 (remaining - int (min (length rest) k1)))))"
  by (auto simp: limited_Read_def Let_def min_def)

lemma read_all_slice:
  "0 \<le> remaining \<Longrightarrow> remaining \<le> max_int64 \<Longrightarrow>
   read_all k (rest, remaining) =
     (take (nat remaining) rest, if remaining \<le> int (length rest) then ReadEOF else ReadUnexpectedEOF)"
proof (induction k "(rest, remaining)" arbitrary: rest remaining rule: read_all.induct)
  case (1 k)
  show ?case
  proof (cases "remaining \<le> 0 \<or> rest = []")
    case True
    then show ?thesis using 1(2,3) by (auto simp: limited_Read_cases wrap64_id_nonneg read_all.simps [of k "(rest, remaining)"])
  next
    case False
    define k1 where "k1 = (if remaining < int (Suc k) then nat remaining else Suc k)"
    define n where "n = min (length rest) k1"
    have n: "0 < n" "int n \<le> remaining" "take k1 rest = take n rest" "drop k1 rest = drop n rest" "n \<le> length rest"
      using False by (auto simp: n_def k1_def min_def)
    have left: "wrap64 (remaining - int n) = remaining - int n"
      using n 1(3) by (intro wrap64_id_nonneg) auto
    have "limited_Read (Suc k) (rest, remaining) =
        ((take k1 rest, ReadMore), (drop k1 rest, wrap64 (remaining - int (min (length rest) k1))))"
      unfolding k1_def using False by (simp add: limited_Read_cases Let_def)
    then have lr: "limited_Read (Suc k) (rest, remaining) = ((take n rest, ReadMore), (drop n rest, remaining - int n))"
      using left n by (simp flip: n_def)
    have ih: "read_all k (drop n rest, remaining - int n) =
        (take (nat (remaining - int n)) (drop n rest), if remaining - int n \<le> int (length (drop n rest)) then ReadEOF else ReadUnexpectedEOF)"
      using 1(1)[OF lr [symmetric] refl refl] 1(3) n by simp
    have "nat remaining = n + nat (remaining - int n)" using n by linarith
    then have "take n rest @ take (nat (remaining - int n)) (drop n rest) = take (nat remaining) rest"
      by (metis take_add)
    then show ?thesis using n ih by (simp add: read_all.simps [of k "(rest, remaining)"] lr)
  qed
qed

text \<open>C40. A range that the store opens and that is read to its end gives exactly the bytes of the object from the offset on,
  as many as were asked for, and ends regularly just when the object has them all; this is so for every size of the buffer.\<close>

theorem range_reads_the_slice:
  assumes "ValidateObjectPath p = Inr k" and "objects r (segments k) = Some c" and "readable_io io"
    and "ValidateRangeRequest (off, len) = Inr v" and "len \<le> max_int64"
  shows "case local_GetRange io p (off, len) r of Inl _ \<Rightarrow> False
    | Inr rd \<Rightarrow> read_all n rd = (take (nat len) (drop (nat off) c),
        if off + len \<le> int (length c) then ReadEOF else ReadUnexpectedEOF)"
proof -
  have v: "v = (off, len)" "0 \<le> off" "0 < len" using assms(4) by (auto simp: ValidateRangeRequest_def split: if_splits)
  have "local_GetRange io p (off, len) r = Inr (drop (nat off) c, len)"
    using assms v open_object_complete [OF assms(1,2,3)] by (simp add: local_GetRange_def readable_io_def)
  then show ?thesis using read_all_slice [of len n "drop (nat off) c"] v assms(5) by auto
qed

lemma range_reads_the_slice_witness:
  "read_all 1 (''world'', 3) = (''wor'', ReadEOF)"
proof -
  have "ValidateObjectPath ''a'' = Inr ''a''" "ValidateRangeRequest (6, 3) = Inr (6, 3)" "segments ''a'' = [''a'']"
    "(3::int) \<le> max_int64" "local_GetRange (\<lambda>_ _. None) ''a'' (6, 3) (Some (Dir [(''a'', File ''hello world'')])) = Inr (''world'', 3)"
    by code_simp+
  then show ?thesis
    using range_reads_the_slice [of "''a''" "''a''" "Some (Dir [(''a'', File ''hello world'')])" "''hello world''" "\<lambda>_ _. None" 6 3 "(6, 3)" 1]
    by (simp add: objects_def readable_io_def)
qed

section \<open>Listing and deleting a prefix\<close>

text \<open>The contract that \<open>DeletePrefix\<close> relies on: what a store holds under a canonical path, that \<open>Delete\<close> takes out the
  one object that it is given, and that a page that does not ask for more has every object of the prefix that is not hidden.\<close>

locale object_store =
  fixes content :: "'s \<Rightarrow> string \<Rightarrow> 'c option" and hidden :: "string \<Rightarrow> bool"
    and st_List :: "list_options \<Rightarrow> 's \<Rightarrow> list_page res" and st_Delete :: "string \<Rightarrow> ('s, string, unit) op"
  assumes delete_one: "st_Delete k s = (res, s') \<Longrightarrow> ValidateObjectPath k = Inr k \<Longrightarrow>
      (\<forall>q. q \<noteq> k \<longrightarrow> content s' q = content s q) \<and> (res = Inr () \<longrightarrow> content s' k = None)"
    and list_all: "st_List \<lparr>lo_Prefix = pre, lo_Limit = limit, lo_Cursor = []\<rparr> s = Inr page \<Longrightarrow> \<not> lp_HasMore page \<Longrightarrow>
      ValidateObjectPrefix pre = Inr pre \<Longrightarrow> pre \<noteq> [] \<Longrightarrow> ValidateObjectPath k = Inr k \<Longrightarrow>
      content s k = Some c \<Longrightarrow> objectPathMatchesPrefix k pre \<Longrightarrow> \<not> hidden k \<Longrightarrow> k \<in> oi_Path ` set (lp_Objects page)"
begin

lemma delete_objects_scope:
  "delete_objects st_Delete pre obs r0 s = ((e, r1), s') \<Longrightarrow> \<not> objectPathMatchesPrefix q pre \<Longrightarrow> content s' q = content s q"
proof (induction obs arbitrary: r0 s)
  case (Cons ob obs)
  show ?case
  proof (cases "ValidateObjectPath (oi_Path ob)")
    case (Inr k)
    show ?thesis
    proof (cases "objectPathMatchesPrefix k pre")
      case True
      obtain a s1 where del: "st_Delete k s = (a, s1)" by fastforce
      have "content s1 q = content s q"
        using delete_one [OF del ValidateObjectPath_idem [OF Inr]] Cons.prems(2) True by auto
      then show ?thesis using Cons Inr True del by (cases a) auto
    qed (use Cons.prems Inr in simp)
  qed (use Cons.prems in simp)
qed simp

lemma delete_objects_done:
  "delete_objects st_Delete pre obs r0 s = ((None, r1), s') \<Longrightarrow> ValidateObjectPath q = Inr q \<Longrightarrow>
   content s q = None \<or> q \<in> oi_Path ` set obs \<Longrightarrow> content s' q = None"
proof (induction obs arbitrary: r0 s)
  case (Cons ob obs)
  then obtain k where k: "ValidateObjectPath (oi_Path ob) = Inr k" and m: "objectPathMatchesPrefix k pre"
    by (auto split: sum.splits if_splits)
  obtain a s1 where del: "st_Delete k s = (a, s1)" by fastforce
  then have a: "a = Inr ()" using Cons.prems(1) k m by (cases a) auto
  have step: "content s1 q = None \<or> q \<in> oi_Path ` set obs"
    using delete_one [OF del ValidateObjectPath_idem [OF k]] Cons.prems(2,3) a k by (cases "q = k") auto
  show ?case using Cons.IH [OF _ Cons.prems(2) step] Cons.prems(1) k m del a by simp
qed simp

lemma delete_prefix_scope:
  assumes "DeletePrefix st_List st_Delete opts s = ((e, r1), s')"
    and "\<And>pre. ValidateObjectPrefix (lo_Prefix opts) = Inr pre \<Longrightarrow> \<not> objectPathMatchesPrefix q pre"
  shows "content s' q = content s q"
  using assms delete_objects_scope
  by (auto simp: DeletePrefix_def Let_def split: sum.splits if_splits)

lemma delete_prefix_done:
  assumes "DeletePrefix st_List st_Delete opts s = ((None, r1), s')" and "\<not> dr_HasMore r1" and "lo_Cursor opts = []"
    and "ValidateObjectPrefix (lo_Prefix opts) = Inr pre" and "ValidateObjectPrefix pre = Inr pre"
    and "ValidateObjectPath q = Inr q" and "objectPathMatchesPrefix q pre" and "\<not> hidden q"
  shows "content s' q = None"
proof -
  have more: "delete_objects st_Delete pre obs r0 s = ((e, r1), s') \<Longrightarrow> dr_HasMore r1 = dr_HasMore r0" for obs r0 s e
    by (induction obs arbitrary: r0 s) (auto split: sum.splits if_splits prod.splits)
  from assms obtain page where page: "st_List \<lparr>lo_Prefix = pre, lo_Limit = lo_Limit opts, lo_Cursor = []\<rparr> s = Inr page"
    and del: "delete_objects st_Delete pre (lp_Objects page)
        \<lparr>dr_Deleted = 0, dr_NextCursor = lp_NextCursor page, dr_HasMore = lp_HasMore page\<rparr> s = ((None, r1), s')"
    and ne: "pre \<noteq> []"
    by (auto simp: DeletePrefix_def Let_def ValidateListCursor_def split: sum.splits if_splits)
  have "\<not> lp_HasMore page" using more [OF del] assms(2) by simp
  then have "content s q = None \<or> q \<in> oi_Path ` set (lp_Objects page)"
    using list_all [OF page _ assms(5) ne assms(6) _ assms(7,8)] by (cases "content s q") auto
  then show ?thesis by (rule delete_objects_done [OF del assms(6)])
qed

end

text \<open>The local store keeps the contract.\<close>

lemma walk_finds:
  "(\<forall>e. WalkError e \<notin> set (walk io p n)) \<Longrightarrow> obj_at n q = Some c \<Longrightarrow> WalkFile (p @ q) c \<in> set (walk io p n)"
  "(\<forall>e. WalkError e \<notin> set (walk_entries io p es)) \<Longrightarrow> map_of es s = Some m \<Longrightarrow> obj_at m q = Some c \<Longrightarrow>
    WalkFile (p @ s # q) c \<in> set (walk_entries io p es)"
proof (induction io p n and io p es arbitrary: q and s m q rule: walk_walk_entries.induct)
  case (1 io p c)
  then show ?case by (cases q) auto
next
  case (2 io p)
  then show ?case by (cases q) auto
next
  case (3 io p es)
  then show ?case by (cases q) (auto split: option.splits)
next
  case (5 io p s n es)
  then show ?case by (auto split: if_splits)
qed simp

lemma list_loop_all:
  "list_loop io [] limit evs page = Inr page' \<Longrightarrow> \<not> lp_HasMore page' \<Longrightarrow> \<not> lp_HasMore page \<Longrightarrow>
   (\<forall>e. WalkError e \<notin> set evs) \<and> set (lp_Objects page) \<subseteq> set (lp_Objects page') \<and>
   (WalkFile p c \<in> set evs \<longrightarrow> \<not> is_temp_name (last p) \<longrightarrow> ValidateObjectPath (go_Join p ''/'') = Inr k \<longrightarrow>
     k \<in> oi_Path ` set (lp_Objects page'))"
  by (induction io "[] :: string" limit evs page rule: list_loop.induct)
    (auto intro: rev_image_eqI split: if_splits sum.splits option.splits)

lemma go_Split1_append: "go_Split1 d (a @ d # b) = go_Split1 d a @ go_Split1 d b"
  by (induction d a rule: go_Split1.induct) (auto split: list.splits)

lemma matching_segments:
  assumes "objectPathMatchesPrefix k pre"
  obtains q where "segments k = segments pre @ q"
  using assms by (auto simp: objectPathMatchesPrefix_def segments_def prefix_def go_Split1_append split: if_splits)

lemma path_error_what: "path_error what p = None \<longleftrightarrow> path_error what' p = None"
  by (simp add: path_error_def split: option.splits)

lemma prefix_is_path:
  assumes "ValidateObjectPrefix pre = Inr pre" and "pre \<noteq> []"
  shows "ValidateObjectPath pre = Inr pre"
proof -
  have t: "go_TrimSuffix (go_TrimSpace pre) ''/'' = pre" and e: "path_error ''storage prefix'' pre = None"
    using assms by (auto simp: ValidateObjectPrefix_def Let_def split: if_splits option.splits)
  have "go_TrimSpace pre = pre"
  proof (cases "suffix ''/'' (go_TrimSpace pre)")
    case True
    then have "length (go_TrimSuffix (go_TrimSpace pre) ''/'') < length (go_TrimSpace pre)"
      by (auto simp: go_TrimSuffix_def suffix_def)
    then show ?thesis using t length_go_TrimSpace [of pre] by simp
  next
    case False
    then show ?thesis using t by (simp add: go_TrimSuffix_def)
  qed
  then show ?thesis using assms(2) e path_error_what [of "''storage prefix''" pre "''storage path''"]
    by (simp add: ValidateObjectPath_def)
qed

lemma local_List_all:
  assumes page: "local_List io \<lparr>lo_Prefix = pre, lo_Limit = limit, lo_Cursor = []\<rparr> r = Inr page" "\<not> lp_HasMore page"
    and pre: "ValidateObjectPrefix pre = Inr pre" "pre \<noteq> []" and k: "ValidateObjectPath k = Inr k"
    and c: "objects r (segments k) = Some c" and m: "objectPathMatchesPrefix k pre"
    and shown: "\<not> is_temp_name (last (segments k))"
  shows "k \<in> oi_Path ` set (lp_Objects page)"
proof -
  let ?t = "root_tree r"
  obtain q where q: "segments k = segments pre @ q" using matching_segments [OF m] .
  have at: "node_at ?t (segments pre @ q) = Inr (File c)" using c q by (simp add: objects_def obj_at_Some_iff)
  have there: "rejectSymlinkComponents io ?t [] (segments pre) \<noteq> Some NotExist"
  proof
    assume "rejectSymlinkComponents io ?t [] (segments pre) = Some NotExist"
    then obtain u v where "segments pre = u @ v" "node_at ?t ([] @ u) = Inl NotExist"
      using rejectSymlinkComponents_NotExist by blast
    then show False using at node_at_append [of ?t u "v @ q"] by simp
  qed
  obtain n where n: "node_at ?t (segments pre) = Inr n" and nq: "node_at n q = Inr (File c)"
    using at by (auto simp: node_at_append split: sum.splits)
  show ?thesis
  proof (cases n)
    case (File c')
    then have "q = []" using nq by (cases q) auto
    then have "k = pre" using q segments_inject by simp
    then show ?thesis
      using page(1) pre there n File prefix_is_path [OF pre]
      by (auto simp: local_List_def ValidateListCursor_def Let_def rejectSymlinkPathComponents_def os_Lstat_def
          split: option.splits os_error.splits)
  next
    case Link
    then show ?thesis using nq by (cases q) auto
  next
    case (Dir es)
    from page(1) pre there n Dir prefix_is_path [OF pre]
    have "list_dir io [] (NormalizeListLimit limit) (segments pre) (Dir es) = Inr page"
      by (auto simp: local_List_def ValidateListCursor_def Let_def rejectSymlinkPathComponents_def os_Lstat_def
          split: option.splits os_error.splits)
    then obtain page' where loop: "list_loop io [] (NormalizeListLimit limit) (walk io (segments pre) (Dir es)) empty_page = Inr page'"
      and same: "lp_Objects page = lp_Objects page'" "\<not> lp_HasMore page'"
      using page(2) by (auto simp: list_dir_def split: option.splits sum.splits if_splits)
    have "WalkFile (segments k) c \<in> set (walk io (segments pre) (Dir es))"
      using walk_finds(1) [of io "segments pre" "Dir es" q c] list_loop_all [OF loop same(2)] nq Dir q
      by (simp add: obj_at_Some_iff)
    then show ?thesis
      using list_loop_all [OF loop same(2), of "segments k" c k] shown k same(1)
      by (simp add: segments_def go_Join_Split1)
  qed
qed

interpretation local_store: object_store "\<lambda>r k. objects r (segments k)" "\<lambda>k. is_temp_name (last (segments k))"
  "local_List io" "local_Delete io" for io
proof (unfold_locales, goal_cases)
  case (1 k r res r')
  then show ?case
    using local_Delete_objects [OF 1(1)] by (cases res) (auto simp: segments_inject)
next
  case (2 pre limit r page k c)
  then show ?case by (rule local_List_all)
qed

text \<open>C34. Deleting a prefix: once \<open>DeletePrefix\<close> reports no error and nothing left to do, from the start of the listing, no
  object of the prefix is in the store except files with the name of a temporary one, and every other object is what it was.\<close>

theorem delete_prefix_is_complete:
  assumes "DeletePrefix (local_List io) (local_Delete io) opts r = ((None, done1), r')" and "\<not> dr_HasMore done1"
    and "lo_Cursor opts = []" and "ValidateObjectPrefix (lo_Prefix opts) = Inr pre" and "ValidateObjectPrefix pre = Inr pre"
    and "ValidateObjectPath k = Inr k" and "\<not> is_temp_name (last (segments k))"
  shows "objects r' (segments k) = (if objectPathMatchesPrefix k pre then None else objects r (segments k))"
proof (cases "objectPathMatchesPrefix k pre")
  case True
  then show ?thesis using local_store.delete_prefix_done [OF assms(1-6) _ assms(7)] by simp
next
  case False
  then show ?thesis using local_store.delete_prefix_scope [OF assms(1), of k] assms(4) by simp
qed

definition sample_store :: root where
  "sample_store = Some (Dir [(''a'', Dir [(''x'', File ''1'')]), (''a-b'', File ''22'')])"

lemma delete_prefix_is_complete_witness:
  "objects (snd (DeletePrefix (local_List (\<lambda>_ _. None)) (local_Delete (\<lambda>_ _. None))
     \<lparr>lo_Prefix = ''a'', lo_Limit = 0, lo_Cursor = []\<rparr> sample_store)) [''a'', ''x''] = None"
proof -
  let ?run = "DeletePrefix (local_List (\<lambda>_ _. None)) (local_Delete (\<lambda>_ _. None))
     \<lparr>lo_Prefix = ''a'', lo_Limit = 0, lo_Cursor = []\<rparr> sample_store"
  have run: "?run = ((None, \<lparr>dr_Deleted = 1, dr_NextCursor = [], dr_HasMore = False\<rparr>), snd ?run)" by code_simp
  have "ValidateObjectPrefix ''a'' = Inr ''a''" "ValidateObjectPath ''a/x'' = Inr ''a/x''" "segments ''a/x'' = [''a'', ''x'']"
    "\<not> is_temp_name (last (segments ''a/x''))" "objectPathMatchesPrefix ''a/x'' ''a''" by code_simp+
  then show ?thesis using delete_prefix_is_complete [OF run, of "''a''" "''a/x''"] by simp
qed

text \<open>Listing page by page can miss objects: a cursor is compared with whole paths, but directories are walked by the names
  of their entries, and \<open>a-b\<close> comes after everything in \<open>a\<close> though \<open>a-b\<close> is less than \<open>a/x\<close>. With pages
  of one object the second page of this store is empty and says that there is no more; one page of two has both objects.\<close>

theorem pages_can_miss_objects:
  "map oi_Path (lp_Objects (projr (local_List (\<lambda>_ _. None) \<lparr>lo_Prefix = [], lo_Limit = 2, lo_Cursor = []\<rparr> sample_store))) = [''a/x'', ''a-b''] \<and>
   local_List (\<lambda>_ _. None) \<lparr>lo_Prefix = [], lo_Limit = 1, lo_Cursor = []\<rparr> sample_store =
     Inr \<lparr>lp_Objects = [\<lparr>oi_Path = ''a/x'', oi_Size = 1\<rparr>], lp_NextCursor = ''a/x'', lp_HasMore = True\<rparr> \<and>
   local_List (\<lambda>_ _. None) \<lparr>lo_Prefix = [], lo_Limit = 1, lo_Cursor = ''a/x''\<rparr> sample_store = Inr empty_page"
  by (intro conjI) code_simp+

end
