(* ===== verification/MailArrival.thy ===== *)
theory MailArrival
  imports SmtpSession InboxListing ObjectStore
begin

text \<open>
  The inbound receiver as \<open>internal/app/run_smtp.go\<close> wires it: its store is the local one, its resolver and its recorder
  are the mail database. The world is the tables, the directory of the store, and the rest (limits, hooks, keys of the
  deduplicator), on which everything else works. The property is that of the whole way in: accepted mail can be read from the
  mailbox of every recipient.
\<close>

section \<open>The wiring\<close>

record 'x mail_world =
  mw_db :: mail_db
  mw_store :: root
  mw_rest :: 'x

text \<open>What the database and the file system do at a call may depend on the world.\<close>

record 'x arrival_config =
  ac_env :: "'x mail_world \<Rightarrow> record_env"
  ac_io :: "'x mail_world \<Rightarrow> io"
  ac_temp :: "'x mail_world \<Rightarrow> string"
  ac_read :: "'x mail_world \<Rightarrow> string option" \<comment> \<open>an error of reading the spool file\<close>

definition on_rest :: "('x \<Rightarrow> 'a \<times> 'x) \<Rightarrow> 'x mail_world \<Rightarrow> 'a \<times> 'x mail_world" where
  "on_rest f w = (case f (mw_rest w) of (a, x) \<Rightarrow> (a, w\<lparr>mw_rest := x\<rparr>))"

definition on_store :: "('x mail_world \<Rightarrow> unit store_op) \<Rightarrow> 'x mail_world \<Rightarrow> smtp_error option \<times> 'x mail_world" where
  "on_store f w = (case f w (mw_store w) of
     (Inl e, r) \<Rightarrow> (Some (PlainErr e), w\<lparr>mw_store := r\<rparr>) | (Inr _, r) \<Rightarrow> (None, w\<lparr>mw_store := r\<rparr>))"

definition on_mail_db :: "('x mail_world \<Rightarrow> 'a mop) \<Rightarrow> 'x mail_world \<Rightarrow> (smtp_error + 'a) \<times> 'x mail_world" where
  "on_mail_db f w = (case f w (mw_db w) of (r, db) \<Rightarrow> (r, w\<lparr>mw_db := db\<rparr>))"

fun rest_authenticator :: "'x smtp_authenticator \<Rightarrow> 'x mail_world smtp_authenticator" where
  "rest_authenticator (AuthWithRole f) = AuthWithRole (\<lambda>i u p. on_rest (f i u p))"
| "rest_authenticator (AuthPlain f) = AuthPlain (\<lambda>i u p. on_rest (f i u p))"

definition wired_receiver :: "'x arrival_config \<Rightarrow> 'x receiver \<Rightarrow> 'x mail_world receiver" where
  "wired_receiver C R =
     \<lparr>rv_put = \<lambda>path content. on_store (\<lambda>w. local_Put (ac_io C w) (ac_temp C w) path (Some (content, ac_read C w))),
      rv_delete = \<lambda>path. on_store (\<lambda>w. local_Delete (ac_io C w) path),
      rv_resolve = \<lambda>a. on_mail_db (\<lambda>w. ResolveRecipient (de_fails (ac_env C w)) (rv_parse_address R) a),
      rv_record = \<lambda>m w. (case on_mail_db (\<lambda>w. Record (ac_env C w) m) w of
         (Inl e, w1) \<Rightarrow> (Some e, w1) | (Inr _, w1) \<Rightarrow> (None, w1)),
      rv_dedup = \<lambda>mid a. on_rest (rv_dedup R mid a),
      rv_rate = \<lambda>st ra k. on_rest (rv_rate R st ra k),
      rv_backpressure = on_rest (rv_backpressure R),
      rv_verify = map_option (\<lambda>f q. on_rest (f q)) (rv_verify R),
      rv_authenticator = map_option rest_authenticator (rv_authenticator R),
      rv_relay = map_option (\<lambda>f a. on_rest (f a)) (rv_relay R),
      rv_domain_policy = map_option (\<lambda>f d. on_rest (f d)) (rv_domain_policy R),
      rv_bulk = map_option (\<lambda>f u r. on_rest (f u r)) (rv_bulk R),
      rv_hooks = map (\<lambda>h ev. on_rest (h ev)) (rv_hooks R),
      rv_id = on_rest (rv_id R), rv_clock = on_rest (rv_clock R), rv_now = on_rest (rv_now R),
      rv_io = \<lambda>what. on_rest (rv_io R what),
      rv_requireAuth = rv_requireAuth R, rv_dmarcEnforce = rv_dmarcEnforce R, rv_support = rv_support R,
      rv_addReceivedHeader = rv_addReceivedHeader R, rv_receivedDomain = rv_receivedDomain R, rv_policy = rv_policy R,
      rv_parse_address = rv_parse_address R, rv_parse_message = rv_parse_message R, rv_format = rv_format R,
      rv_authres = rv_authres R, rv_date = rv_date R, rv_sha256 = rv_sha256 R\<rparr>"

section \<open>What leaves the tables and the store alone\<close>

definition quiet :: "('n, 'm, 'x mail_world, 'y) service_scheme \<Rightarrow> ('n, 'm, 'x mail_world, 'y) service_scheme \<Rightarrow> bool" where
  "quiet s s' \<longleftrightarrow> mw_db (rs_world s') = mw_db (rs_world s) \<and> mw_store (rs_world s') = mw_store (rs_world s)"

named_theorems quiets

lemma quiet_refl: "reflp quiet" and quiet_trans: "transp quiet"
  by (auto simp: quiet_def reflp_def transp_def)

lemmas quiet_ops [quiets] = keeps_ops [OF quiet_refl]

lemma quiet_try [quiets]: "keeps quiet m \<Longrightarrow> (\<And>a. keeps quiet (f a)) \<Longrightarrow> keeps quiet (try_op m f)"
  by (rule keeps_try_op [OF quiet_trans])

lemma quiet_call [quiets]: "keeps quiet (call_op (on_rest f))"
  by (auto intro!: keepsI simp: call_op_def on_rest_def quiet_def split: prod.splits)

lemma quiet_note [quiets]: "keeps quiet (note_op c)"
  by (auto intro!: keepsI simp: note_op_def update_op_def quiet_def)

lemma quiet_wrapped [quiets]: "keeps quiet (wrapped f r)" "keeps quiet (wrapped_err f r')"
  by (auto simp: wrapped_def wrapped_err_def intro: quiets)

lemma quiet_if [quiets]: "keeps quiet m \<Longrightarrow> keeps quiet m' \<Longrightarrow> keeps quiet (if c then m else m')"
  by simp

lemma quiet_hooks: "keeps quiet (emit_hooks label (map (\<lambda>h ev. on_rest (h ev)) hs) ev)"
  by (induction hs) (auto intro: quiets)

lemma wired_fields [simp]:
  "rv_requireAuth (wired_receiver C R) = rv_requireAuth R" "rv_dmarcEnforce (wired_receiver C R) = rv_dmarcEnforce R"
  "rv_policy (wired_receiver C R) = rv_policy R" "rv_format (wired_receiver C R) = rv_format R"
  "rv_hooks (wired_receiver C R) = map (\<lambda>h ev. on_rest (h ev)) (rv_hooks R)"
  "rv_io (wired_receiver C R) = (\<lambda>what. on_rest (rv_io R what))"
  "rv_dedup (wired_receiver C R) = (\<lambda>mid a. on_rest (rv_dedup R mid a))"
  "rv_backpressure (wired_receiver C R) = on_rest (rv_backpressure R)"
  "rv_id (wired_receiver C R) = on_rest (rv_id R)" "rv_clock (wired_receiver C R) = on_rest (rv_clock R)"
  "rv_verify (wired_receiver C R) = map_option (\<lambda>f q. on_rest (f q)) (rv_verify R)"
  by (simp_all add: wired_receiver_def)

lemma quiet_emit [quiets]: "keeps quiet (emit (wired_receiver C R) ev)"
  by (simp add: emit_def quiet_hooks)

lemma quiet_io [quiets]: "keeps quiet (io_op (rv_io (wired_receiver C R)) what)"
  by (auto simp: io_op_def intro: quiets)

lemma quiet_backpressure [quiets]: "keeps quiet (check_backpressure (wired_receiver C R))"
  unfolding check_backpressure_def wired_fields by (intro quiets)

lemma quiet_verify [quiets]: "keeps quiet (verifyAuthentication (wired_receiver C R) n sp parsed)"
  by (cases "rv_verify R") (auto simp: verifyAuthentication_def simp del: wired_fields(6) intro!: quiets)

lemma quiet_authenticated [quiets]: "keeps quiet (authenticated_headers (wired_receiver C R) n parsed at sz results hb)"
  unfolding authenticated_headers_def by (intro quiets)

lemma quiet_prepare: "keeps quiet (prepare_message (wired_receiver C R) n r)"
  unfolding prepare_message_def Let_def wired_fields(9,10) by (intro quiets)

lemma quietD: "keeps quiet m \<Longrightarrow> m s = (r, s') \<Longrightarrow> mw_db (rs_world s') = mw_db (rs_world s) \<and> mw_store (rs_world s') = mw_store (rs_world s)"
  by (auto dest: keepsD simp: quiet_def)

section \<open>Mail in a mailbox\<close>

text \<open>A mailbox has a message: an active row in the inbox of the user, or for suspicious mail (\<open>q\<close>) in the spam folder if
  the user has one, with the size of the message, and an object with this content at the path of the row.\<close>

definition has_system_folder :: "string \<Rightarrow> string \<Rightarrow> mail_db \<Rightarrow> bool" where
  "has_system_folder u t db \<longleftrightarrow> list_ex (\<lambda>f. fo_user f = u \<and> fo_type f = ''system'' \<and> fo_system_type f = t) (md_folders db)"

definition filed :: "string \<Rightarrow> bool \<Rightarrow> smtp_mailbox \<Rightarrow> 'x mail_world \<Rightarrow> bool" where
  "filed content q b w \<longleftrightarrow>
     (\<exists>row f k. f \<in> set (md_folders (mw_db w)) \<and> fo_user f = bx_UserID b \<and> fo_type f = ''system'' \<and>
        fo_system_type f = (if q \<and> has_system_folder (bx_UserID b) ''spam'' (mw_db w) then ''spam'' else ''inbox'') \<and>
        row \<in> set (inbox_rows (bx_UserID b) (fo_id f) (mw_db w)) \<and> mr_size row = int (length content) \<and>
        ValidateObjectPath (mr_storage_path row) = Inr k \<and> objects (mw_store w) (segments k) = Some content)"

lemma system_folder_None: "system_folder E u t db = None \<Longrightarrow> \<not> has_system_folder u t db"
  by (simp add: system_folder_none has_system_folder_def)

lemma Record_files:
  assumes "Record E m db = (Inr i, db')"
  shows "md_folders db' = md_folders db \<and> (\<exists>row f. md_messages db' = md_messages db @ [row] \<and> f \<in> set (md_folders db) \<and>
    fo_user f = bx_UserID (rm_Mailbox m) \<and> fo_type f = ''system'' \<and>
    (fo_system_type f = folder_type (rm_FolderSystemType m) \<or>
     fo_system_type f = ''inbox'' \<and> \<not> has_system_folder (bx_UserID (rm_Mailbox m)) (folder_type (rm_FolderSystemType m)) db) \<and>
    mr_user row = bx_UserID (rm_Mailbox m) \<and> mr_folder row = fo_id f \<and> mr_active row \<and>
    mr_storage_path row = rm_StoragePath m \<and> mr_size row = rm_Size m)"
proof -
  from Record_run [OF assms] obtain folderID threadID db1 where
    charge: "checkAndIncrementUserQuota (de_fails E) (bx_UserID (rm_Mailbox m)) (rm_Size m) db = (Inr (), db1)"
    and folder: "deliveryFolderID E (bx_UserID (rm_Mailbox m)) (rm_FolderSystemType m) db1 = (Inr folderID, db1)"
    and db': "db' = db1\<lparr>md_messages := md_messages db1 @ [received_row E folderID threadID m],
      md_outbox := md_outbox db1 @ [stored_outbox_event E i folderID m]\<rparr>" by blast
  have same: "has_system_folder u t db1 = has_system_folder u t db" for u t
    using checkQuota_frame [OF charge] by (simp add: has_system_folder_def)
  from deliveryFolderID_run [OF folder] obtain f where f: "f \<in> set (md_folders db1)" "fo_id f = folderID"
    "fo_user f = bx_UserID (rm_Mailbox m)" "fo_type f = ''system''"
    "fo_system_type f = folder_type (rm_FolderSystemType m) \<or>
     fo_system_type f = ''inbox'' \<and> \<not> has_system_folder (bx_UserID (rm_Mailbox m)) (folder_type (rm_FolderSystemType m)) db"
    using system_folder_None same by blast
  from checkQuota_frame [OF charge] f show ?thesis
    by (simp add: db') (rule exI [of _ f], simp add: received_row_def)
qed

lemma folder_types: "folder_type ''inbox'' = ''inbox''" "folder_type ''spam'' = ''spam''"
  by code_simp+

lemma or_delete_Inr: "or_delete del path f m s = (Inr u, s') \<Longrightarrow> m s = (Inr u, s')"
  by (auto simp: or_delete_def try_op_def fail_op_def split: prod.splits sum.splits)

lemma op_runs:
  "call_op f s = (Inr a, s') \<Longrightarrow> f (rs_world s) = (a, rs_world s')"
  "note_op c s = (Inr u, s') \<Longrightarrow> rs_world s' = rs_world s"
  "wrapped_err g r s = (Inr u, s') \<Longrightarrow> r = None \<and> s' = s"
  "check_op r s = (Inr u, s') \<Longrightarrow> r = None \<and> s' = s"
  by (auto simp: call_op_def note_op_def update_op_def wrapped_err_def check_op_def ok_op_def fail_op_def
      split: prod.splits option.splits)

lemma wired_put:
  assumes "rv_put (wired_receiver C R) path content w = (None, w')"
  shows "mw_db w' = mw_db w \<and> (\<exists>k. ValidateObjectPath path = Inr k \<and>
    objects (mw_store w') = (objects (mw_store w))(segments k := Some content))"
proof -
  obtain a r where put: "local_Put (ac_io C w) (ac_temp C w) path (Some (content, ac_read C w)) (mw_store w) = (a, r)" by fastforce
  with assms have "a = Inr ()" "w' = w\<lparr>mw_store := r\<rparr>"
    by (auto simp: wired_receiver_def on_store_def split: sum.splits)
  then show ?thesis using local_Put_objects(1) [OF put] by auto
qed

lemma wired_record:
  assumes "rv_record (wired_receiver C R) m w = (None, w')"
  shows "mw_store w' = mw_store w \<and> (\<exists>i. Record (ac_env C w) m (mw_db w) = (Inr i, mw_db w'))"
  using assms by (auto simp: wired_receiver_def on_mail_db_def split: prod.splits sum.splits)

text \<open>A recipient that is stored: the store gains the object at its path, and the tables the record of it.\<close>

lemma wired_store_recipient:
  assumes "store_recipient (wired_receiver C R) n p b s = (Inr (), s')"
  shows "\<exists>k E i. ValidateObjectPath (BuildStoragePath (rv_format R) b (pp_ID p) (pp_ReceivedAt p)) = Inr k \<and>
    objects (mw_store (rs_world s')) = (objects (mw_store (rs_world s)))(segments k := Some (pp_Content p)) \<and>
    Record E (received_for n p (BuildStoragePath (rv_format R) b (pp_ID p) (pp_ReceivedAt p)) b) (mw_db (rs_world s)) =
      (Inr i, mw_db (rs_world s'))"
  using assms unfolding store_recipient_def Let_def
proof (elim try_op_InrE, goal_cases)
  case (1 u1 s1 r s2 u3 s3 u4 s4 u5 s5 r' s6 u7 s7 u8 s8)
  note st = 1
  have put: "rv_put (wired_receiver C R) (BuildStoragePath (rv_format R) b (pp_ID p) (pp_ReceivedAt p)) (pp_Content p) (rs_world s1) =
      (None, rs_world s4)" "rs_world s3 = rs_world s2"
    using op_runs(1) [OF st(2)] op_runs(2) [OF st(3)] op_runs(3) [OF st(4)] by simp_all
  have rec: "rv_record (wired_receiver C R) (received_for n p (BuildStoragePath (rv_format R) b (pp_ID p) (pp_ReceivedAt p)) b) (rs_world s5) =
      (None, rs_world s8)"
    using op_runs(1) [OF st(6)] op_runs(2) [OF st(7)] op_runs(4) [OF or_delete_Inr [OF st(8)]] by simp
  show ?case
    using quietD [OF quiet_io st(1)] wired_put [OF put(1)] quietD [OF quiet_emit or_delete_Inr [OF st(5)]]
      wired_record [OF rec] quietD [OF quiet_emit st(9)] by auto
qed

lemma filed_by_record:
  assumes "Record E (received_for n p path b) db = (Inr i, mw_db w)" and "ValidateObjectPath path = Inr k"
    and "objects (mw_store w) (segments k) = Some (pp_Content p)"
  shows "filed (pp_Content p) (pp_Quarantine p) b w"
proof -
  let ?t = "if pp_Quarantine p then ''spam'' else ''inbox''"
  from Record_files [OF assms(1)] obtain row f where r:
    "md_folders (mw_db w) = md_folders db" "md_messages (mw_db w) = md_messages db @ [row]" "f \<in> set (md_folders db)"
    "fo_user f = bx_UserID b" "fo_type f = ''system''"
    "mr_user row = bx_UserID b" "mr_folder row = fo_id f" "mr_active row" "mr_storage_path row = path"
    "mr_size row = int (length (pp_Content p))"
    and t: "fo_system_type f = folder_type ?t \<or> fo_system_type f = ''inbox'' \<and> \<not> has_system_folder (bx_UserID b) (folder_type ?t) db"
    by (auto simp: received_for_def)
  have same: "has_system_folder (bx_UserID b) x (mw_db w) = has_system_folder (bx_UserID b) x db" for x
    using r(1) by (simp add: has_system_folder_def)
  have "has_system_folder (bx_UserID b) (fo_system_type f) db"
    using r(3,4,5) by (auto simp: has_system_folder_def list_ex_iff)
  then have "fo_system_type f = (if pp_Quarantine p \<and> has_system_folder (bx_UserID b) ''spam'' (mw_db w) then ''spam'' else ''inbox'')"
    using t same by (cases "pp_Quarantine p") (auto simp: folder_types)
  with r assms(2,3) show ?thesis
    unfolding filed_def by (intro exI [of _ row] exI [of _ f] exI [of _ k]) (auto simp: inbox_rows_def)
qed

text \<open>Storing another copy of the message keeps what is filed.\<close>

lemma filed_kept:
  assumes "filed c q b w" and "Record E m (mw_db w) = (Inr i, mw_db w')"
    and "objects (mw_store w') = (objects (mw_store w))(u := Some c)"
  shows "filed c q b w'"
proof -
  from Record_files [OF assms(2)] obtain row where
    db: "md_folders (mw_db w') = md_folders (mw_db w)" "md_messages (mw_db w') = md_messages (mw_db w) @ [row]" by auto
  have same: "has_system_folder x t (mw_db w') = has_system_folder x t (mw_db w)" for x t
    using db(1) by (simp add: has_system_folder_def)
  from assms(1) show ?thesis unfolding filed_def same
    by (elim exE) (rule exI, rule exI, rule exI, auto simp: db inbox_rows_def assms(3))
qed

lemma filed_quiet: "filed c q b w \<Longrightarrow> mw_db w' = mw_db w \<Longrightarrow> mw_store w' = mw_store w \<Longrightarrow> filed c q b w'"
  by (simp add: filed_def)

text \<open>One recipient: the message was a duplicate for it, or is filed.\<close>

lemma wired_deliver_recipient:
  assumes "deliver_recipient (wired_receiver C R) n p b s = (Inr (), s')"
  shows "(dedup_call p b (Inr False) \<in> set (rs_calls s') \<or> filed (pp_Content p) (pp_Quarantine p) b (rs_world s')) \<and>
    (\<forall>b'. filed (pp_Content p) (pp_Quarantine p) b' (rs_world s) \<longrightarrow> filed (pp_Content p) (pp_Quarantine p) b' (rs_world s'))"
  using assms unfolding deliver_recipient_def
proof (elim try_op_InrE, goal_cases)
  case (1 r s1 u2 s2 process s3 u4 s4)
  have before: "mw_db (rs_world s4) = mw_db (rs_world s) \<and> mw_store (rs_world s4) = mw_store (rs_world s)"
    using quietD [OF quiet_call 1(1) [unfolded wired_fields]] quietD [OF quiet_note 1(2)] quietD [OF quiet_wrapped(1) 1(3)]
      quietD [OF quiet_emit 1(4)] by simp
  have calls: "dedup_call p b (Inr process) \<in> set (rs_calls s4)"
  proof -
    have "r = Inr process" using 1(3) by (auto simp: wrapped_def pure_op_def split: sum.splits)
    moreover have "rs_calls s2 = rs_calls s1 @ [dedup_call p b r]" using 1(2) by (simp add: note_op_def update_op_def dedup_call_def) auto
    moreover have "rs_calls s3 = rs_calls s2" using 1(3) by (auto simp: wrapped_def pure_op_def)
    ultimately show ?thesis using silentD [OF silent_emit 1(4)] by simp
  qed
  show ?case
  proof (cases process)
    case False
    then have "s' = s4" using 1(5) by (simp add: ok_op_def)
    then show ?thesis using calls False before filed_quiet [of _ _ _ "rs_world s" "rs_world s4"] by simp
  next
    case True
    then have "store_recipient (wired_receiver C R) n p b s4 = (Inr (), s')" using 1(5) by simp
    from wired_store_recipient [OF this] obtain k E i where k:
      "ValidateObjectPath (BuildStoragePath (rv_format R) b (pp_ID p) (pp_ReceivedAt p)) = Inr k"
      "objects (mw_store (rs_world s')) = (objects (mw_store (rs_world s4)))(segments k := Some (pp_Content p))"
      "Record E (received_for n p (BuildStoragePath (rv_format R) b (pp_ID p) (pp_ReceivedAt p)) b) (mw_db (rs_world s4)) =
        (Inr i, mw_db (rs_world s'))" by blast
    have "filed (pp_Content p) (pp_Quarantine p) b (rs_world s')"
      by (rule filed_by_record [OF k(3,1)]) (simp add: k(2))
    moreover have "filed (pp_Content p) (pp_Quarantine p) b' (rs_world s')" if "filed (pp_Content p) (pp_Quarantine p) b' (rs_world s)" for b'
    proof -
      have "filed (pp_Content p) (pp_Quarantine p) b' (rs_world s4)" by (rule filed_quiet [OF that]) (use before in simp_all)
      then show ?thesis by (rule filed_kept [OF _ k(3,2)])
    qed
    ultimately show ?thesis by blast
  qed
qed

lemma wired_recipients:
  "recipients_loop (wired_receiver C R) n p bs s = (Inr (), s') \<Longrightarrow>
   (\<forall>b\<in>set bs. dedup_call p b (Inr False) \<in> set (rs_calls s') \<or> filed (pp_Content p) (pp_Quarantine p) b (rs_world s')) \<and>
   (\<forall>b'. filed (pp_Content p) (pp_Quarantine p) b' (rs_world s) \<longrightarrow> filed (pp_Content p) (pp_Quarantine p) b' (rs_world s'))"
proof (induction bs arbitrary: s)
  case Nil
  then show ?case by (simp add: ok_op_def)
next
  case (Cons b bs)
  then obtain s1 where one: "deliver_recipient (wired_receiver C R) n p b s = (Inr (), s1)"
    and rest: "recipients_loop (wired_receiver C R) n p bs s1 = (Inr (), s')"
    by (auto elim!: try_op_InrE)
  have "set (rs_calls s1) \<subseteq> set (rs_calls s')" using recipients_loop_trace [OF rest] by auto
  then show ?case using wired_deliver_recipient [OF one] Cons.IH [OF rest] by auto
qed

section \<open>The whole way in\<close>

lemma ApplyToFile_parts:
  assumes "ApplyToFile hb s = Inr content"
  shows "\<exists>a b. s = a @ b \<and> content = concat (hb_prepend hb) @ a @ concat (hb_afterTrace hb) @ b"
proof -
  have "s = concat (trace_block False (file_lines s)) @ concat (after_trace False (file_lines s))"
    by (simp add: trace_block_append flip: concat_append)
  with assms show ?thesis by (auto simp: ApplyToFile_eq split: if_splits)
qed

text \<open>
  C2. Mail that is accepted has arrived. When the receiver, with the local store and the mail database behind it, answers
  DATA without an error, the reader ended without one, and the message \<open>p\<close> is the one that \<open>prepare_message\<close> made of the
  data of the client: its content is the data with the headers of the server (\<open>added_headers\<close>) at the front and at one
  place inside, and it is under quarantine exactly when the DMARC policy says so of its authentication results. For every
  recipient either the deduplicator said that the mailbox has the message, or the mailbox has it: an active row of the
  user with the size of the message and the path of an object of the store with this content, in the spam folder if the
  message is under quarantine and the user has such a folder, and in the inbox otherwise. Nothing is assumed of the calls of
  the database and the file system: those that fail make DATA fail.
\<close>

theorem accepted_mail_arrives:
  assumes "Data (wired_receiver C R) (data, err) s = (Inr (), s')"
  shows "err = None \<and>
    (\<exists>p s1 parsed a b. prepare_message (wired_receiver C R) (rs_session s) (data, None) s = (Inr p, s1) \<and>
      rv_parse_message (wired_receiver C R) data = Inr parsed \<and>
      data = a @ b \<and> pp_Content p = concat (hb_prepend (added_headers (wired_receiver C R) (rs_session s) parsed p)) @ a @
        concat (hb_afterTrace (added_headers (wired_receiver C R) (rs_session s) parsed p)) @ b \<and>
      enforceDMARCPolicy (rv_dmarcEnforce R) (pp_Authentication p) = Inr (pp_Quarantine p) \<and>
      list_all (\<lambda>bx. dedup_call p bx (Inr False) \<in> set (rs_calls s') \<or> filed (pp_Content p) (pp_Quarantine p) bx (rs_world s'))
        (sn_recipients (rs_session s)))"
proof -
  let ?W = "wired_receiver C R" and ?n = "rs_session s"
  from assms obtain p s1 s2 where prep: "prepare_message ?W ?n (data, err) s = (Inr p, s1)"
    and loop: "recipients_loop ?W ?n p (sn_recipients ?n) s1 = (Inr (), s2)"
    and s': "s' = s2\<lparr>rs_session := clearEnvelope (rs_session s2)\<rparr>"
    by (auto simp: Data_def get_op_def Let_def then_session_def fail_op_def elim!: try_op_InrE split: if_splits prod.splits)
  from prepare_message_content [OF prep] obtain spooled parsed where
    sp: "spoolMessage (data, err) (effectiveMaxBytes (pl_MaxBytes (rv_policy ?W)) (sn_domainPolicy ?n)) = Inr spooled"
    and ap: "rv_parse_message ?W spooled = Inr parsed" "ApplyToFile (added_headers ?W ?n parsed p) spooled = Inr (pp_Content p)"
    and dm: "enforceDMARCPolicy (rv_dmarcEnforce R) (pp_Authentication p) = Inr (pp_Quarantine p)" by auto
  from sp have data: "err = None" "spooled = data"
    by (auto simp: spoolMessage_def split: if_splits option.splits)
  obtain a b where ab: "data = a @ b" "pp_Content p = concat (hb_prepend (added_headers ?W ?n parsed p)) @ a @
      concat (hb_afterTrace (added_headers ?W ?n parsed p)) @ b"
    using ApplyToFile_parts [OF ap(2)] data by blast
  have "list_all (\<lambda>bx. dedup_call p bx (Inr False) \<in> set (rs_calls s') \<or>
      filed (pp_Content p) (pp_Quarantine p) bx (rs_world s')) (sn_recipients ?n)"
    using wired_recipients [OF loop] s' by (simp add: list_all_iff)
  with prep ap(1) ab dm data show ?thesis by blast
qed

text \<open>A receiver whose limits allow everything, over an empty store and the tables of \<open>sample_mail_db\<close>.\<close>

definition sample_arrival :: "small_world arrival_config" where
  "sample_arrival = \<lparr>ac_env = \<lambda>_. sample_record_env, ac_io = \<lambda>_ _ _. None, ac_temp = \<lambda>_. ''t'', ac_read = \<lambda>_. None\<rparr>"

definition sample_mail_world :: "small_world mail_world" where
  "sample_mail_world = \<lparr>mw_db = sample_mail_db, mw_store = None,
     mw_rest = \<lparr>sw_keys = [], sw_store = [], sw_quota = 6, sw_records = []\<rparr>\<rparr>"

definition sample_arrival_state :: "small_world mail_world rstate" where
  "sample_arrival_state = snd (commands (wired_receiver sample_arrival small_receiver)
     [CmdMail ''s@b.kr'' None, CmdRcpt ''kim@a.kr'' None] (session_start ''1.2.3.4'' newAuthFailureTracker sample_mail_world))"

theorem accepted_mail_arrives_witness:
  "\<exists>content q. filed content q \<lparr>bx_CompanyID = ''c'', bx_DomainID = ''d'', bx_UserID = ''u'', bx_Address = ''Kim@a.kr''\<rparr>
     (rs_world (snd (Data (wired_receiver sample_arrival small_receiver) (''hello'', None) sample_arrival_state)))"
proof -
  let ?s' = "snd (Data (wired_receiver sample_arrival small_receiver) (''hello'', None) sample_arrival_state)"
  have "fst (Data (wired_receiver sample_arrival small_receiver) (''hello'', None) sample_arrival_state) = Inr ()" by code_simp
  then have "Data (wired_receiver sample_arrival small_receiver) (''hello'', None) sample_arrival_state = (Inr (), ?s')"
    by (simp add: prod_eq_iff)
  from accepted_mail_arrives [OF this] obtain p where
    p: "list_all (\<lambda>bx. dedup_call p bx (Inr False) \<in> set (rs_calls ?s') \<or> filed (pp_Content p) (pp_Quarantine p) bx (rs_world ?s'))
      (sn_recipients (rs_session sample_arrival_state))" by blast
  moreover have "sn_recipients (rs_session sample_arrival_state) =
      [\<lparr>bx_CompanyID = ''c'', bx_DomainID = ''d'', bx_UserID = ''u'', bx_Address = ''Kim@a.kr''\<rparr>]" by code_simp
  moreover have "list_all (\<lambda>c. case c of CDedup _ _ (Inr False) \<Rightarrow> False | _ \<Rightarrow> True) (rs_calls ?s')" by code_simp
  then have "dedup_call p bx (Inr False) \<notin> set (rs_calls ?s')" for bx by (auto simp: list_all_iff dedup_call_def)
  ultimately show ?thesis by auto
qed

end
