(* ===== verification/ServiceLimits.thy ===== *)
theory ServiceLimits
  imports SmtpReceiver Complex_Main
begin

text \<open>
  What the SMTP services ask before they take mail: the deduplicator (\<open>internal/dedup/redis.go\<close>), the fixed windows of
  \<open>internal/ratelimit\<close>, the state of back-pressure and the manager that sets it (\<open>internal/backpressure\<close>), and the
  token buckets of bulk senders (\<open>internal/smtp/bulk_isolation.go\<close>). Redis is a parameter: a record of the commands that
  the code sends, each with the time at which it runs, over a state of its own; what is documented of them is a hypothesis
  (\<open>counter_laws\<close>, \<open>string_laws\<close>), where a command that reports an error may still have been carried out. The
  time to live of a key is exact (Redis is given whole seconds, which differs for a fraction of a second only). The commands of one
  call run at one time. Times are nanoseconds. Hashes, the parser of IP addresses and the JSON codec are
  parameters too; of the floating point numbers the rounding is left out.
\<close>

section \<open>Redis\<close>

text \<open>\<open>GET\<close> of a key that is not there is \<open>None\<close>; a key that is not there, or does not expire, has a negative
  \<open>TTL\<close>.\<close>

record 'w redis =
  rd_Incr :: "int \<Rightarrow> string \<Rightarrow> 'w \<Rightarrow> int res \<times> 'w"
  rd_Expire :: "int \<Rightarrow> string \<Rightarrow> int \<Rightarrow> 'w \<Rightarrow> string option \<times> 'w"
  rd_TTL :: "int \<Rightarrow> string \<Rightarrow> 'w \<Rightarrow> int res \<times> 'w"
  rd_SetNX :: "int \<Rightarrow> string \<Rightarrow> string \<Rightarrow> int \<Rightarrow> 'w \<Rightarrow> bool res \<times> 'w"
  rd_Get :: "int \<Rightarrow> string \<Rightarrow> 'w \<Rightarrow> string option res \<times> 'w"
  rd_Set :: "int \<Rightarrow> string \<Rightarrow> string \<Rightarrow> 'w \<Rightarrow> string option \<times> 'w"
  rd_Info :: "int \<Rightarrow> string \<Rightarrow> 'w \<Rightarrow> string res \<times> 'w"
  rd_XLen :: "int \<Rightarrow> string \<Rightarrow> 'w \<Rightarrow> int res \<times> 'w"

text \<open>The counters of a state: a number and the time at which it goes away.\<close>

type_synonym 'w counters = "'w \<Rightarrow> string \<Rightarrow> (int \<times> int option) option"

definition live_entry :: "int \<Rightarrow> (int \<times> int option) option \<Rightarrow> (int \<times> int option) option" where
  "live_entry now x =
     (case x of Some (n, Some t) \<Rightarrow> if now < t then x else None | _ \<Rightarrow> x)"

definition incremented :: "int \<Rightarrow> (int \<times> int option) option \<Rightarrow> int \<times> int option" where
  "incremented now x = (case live_entry now x of None \<Rightarrow> (1, None) | Some (n, t) \<Rightarrow> (n + 1, t))"

definition expiring :: "int \<Rightarrow> int \<Rightarrow> (int \<times> int option) option \<Rightarrow> (int \<times> int option) option" where
  "expiring now ttl x = map_option (\<lambda>(n, _). (n, Some (now + ttl))) (live_entry now x)"

definition counter_laws :: "'w redis \<Rightarrow> 'w counters \<Rightarrow> bool" where
  "counter_laws D cs \<longleftrightarrow>
     (\<forall>now k w. case rd_Incr D now k w of
         (Inr n, w1) \<Rightarrow> n = fst (incremented now (cs w k)) \<and> cs w1 = (cs w)(k \<mapsto> incremented now (cs w k))
       | (Inl _, w1) \<Rightarrow> cs w1 = cs w \<or> cs w1 = (cs w)(k \<mapsto> incremented now (cs w k))) \<and>
     (\<forall>now k ttl w. case rd_Expire D now k ttl w of
         (None, w1) \<Rightarrow> cs w1 = (cs w)(k := expiring now ttl (cs w k))
       | (Some _, w1) \<Rightarrow> cs w1 = cs w \<or> cs w1 = (cs w)(k := expiring now ttl (cs w k)))"

section \<open>The deduplicator\<close>

definition dedup_ttl :: "int \<Rightarrow> int" where
  "dedup_ttl ttl = (if ttl \<le> 0 then 24 * 3600 * 1000000000 else ttl)"

definition dedup_key :: "(string \<Rightarrow> string) \<Rightarrow> string \<Rightarrow> string \<Rightarrow> string" where
  "dedup_key sha256 messageID recipient =
     ''dedup:v2:'' @ sha256 (go_TrimSpace messageID) @ '':'' @ sha256 (go_ToLower (go_TrimSpace recipient))"

definition CheckAndSet ::
    "'w redis option \<Rightarrow> (string \<Rightarrow> string) \<Rightarrow> int \<Rightarrow> int \<Rightarrow> string \<Rightarrow> string \<Rightarrow> 'w \<Rightarrow> bool res \<times> 'w" where
  "CheckAndSet client sha256 ttl now messageID recipient w =
     (case client of None \<Rightarrow> (Inr True, w)
      | Some D \<Rightarrow> rd_SetNX D now (dedup_key sha256 messageID recipient) ''1'' ttl w)"

section \<open>Fixed windows\<close>

record 'w window_limiter =
  wl_client :: "'w redis option"
  wl_limit :: int
  wl_window :: int

definition NewRedisLimiter :: "'w redis option \<Rightarrow> int \<Rightarrow> int \<Rightarrow> 'w window_limiter" where
  "NewRedisLimiter client limit window =
     \<lparr>wl_client = client, wl_limit = (if limit \<le> 0 then 60 else limit),
      wl_window = (if window \<le> 0 then 60 * 1000000000 else window)\<rparr>"

text \<open>\<open>netip.ParseAddr\<close> and \<open>netip.ParseAddrPort\<close>, with the address unmapped and printed.\<close>

definition RemoteBucket :: "(string \<Rightarrow> string option) \<Rightarrow> (string \<Rightarrow> string option) \<Rightarrow> string \<Rightarrow> string" where
  "RemoteBucket parse_addr parse_addr_port remoteAddr0 =
     (let remoteAddr = go_TrimSpace remoteAddr0 in
      if remoteAddr = [] then ''unknown''
      else case parse_addr remoteAddr of Some a \<Rightarrow> a
        | None \<Rightarrow> (case parse_addr_port remoteAddr of None \<Rightarrow> ''unknown'' | Some a \<Rightarrow> a))"

definition limiter_key :: "(string \<Rightarrow> string option) \<Rightarrow> (string \<Rightarrow> string option) \<Rightarrow> stage \<Rightarrow> string \<Rightarrow> string" where
  "limiter_key parse_addr parse_addr_port st remoteAddr =
     ''ratelimit:'' @ stage_name st @ '':'' @ RemoteBucket parse_addr parse_addr_port remoteAddr"

definition limiter_Allow :: "'w window_limiter \<Rightarrow> int \<Rightarrow> string \<Rightarrow> 'w \<Rightarrow> bool res \<times> 'w" where
  "limiter_Allow L now key w =
     (case wl_client L of None \<Rightarrow> (Inr True, w)
      | Some D \<Rightarrow>
     (case rd_Incr D now key w of
        (Inl e, w1) \<Rightarrow> (Inl e, w1)
      | (Inr count, w1) \<Rightarrow>
          (case (if count = 1 then rd_Expire D now key (wl_window L) w1 else (None, w1)) of
             (Some e, w2) \<Rightarrow> (Inl e, w2)
           | (None, w2) \<Rightarrow> (Inr (count \<le> wl_limit L), w2))))"

text \<open>The limiter of the HTTP services, which also says how long to wait.\<close>

text \<open>One character of the name: a byte is kept or replaced, and so is all of a longer character.\<close>

definition namespace_rune :: "string \<Rightarrow> char" where
  "namespace_rune s =
     (let c = hd s in if is_lower c \<or> is_digit c \<or> c \<in> {CHR ''-'', CHR ''_'', CHR '':''} then c else CHR ''_'')"

function namespace_loop :: "string \<Rightarrow> string \<Rightarrow> string" where
  "namespace_loop out s =
     (if s = [] then out
      else let out1 = out @ [namespace_rune s] in
        if 96 \<le> length out1 then out1 else namespace_loop out1 (drop (max 1 (rune_len s)) s))"
  by pat_completeness auto
termination
  by (relation "measure (\<lambda>(out, s). length s)") auto

declare namespace_loop.simps [simp del]

definition normalizeLimiterNamespace :: "string \<Rightarrow> string" where
  "normalizeLimiterNamespace namespace0 =
     (let namespace = go_TrimSpace (go_ToLower namespace0) in
      if namespace = [] then ''generic''
      else let b = namespace_loop [] namespace in if b = [] then ''generic'' else b)"

definition fixedWindowRedisKey :: "(string \<Rightarrow> string) \<Rightarrow> string \<Rightarrow> string \<Rightarrow> string" where
  "fixedWindowRedisKey sha256 namespace key =
     ''ratelimit:'' @ normalizeLimiterNamespace namespace @ '':'' @ sha256 (go_TrimSpace key)"

record decision =
  dc_Allowed :: bool
  dc_RetryAfter :: int

record 'w fixed_window_limiter = "'w window_limiter" +
  wl_namespace :: string

definition NewRedisFixedWindowLimiter :: "'w redis option \<Rightarrow> string \<Rightarrow> int \<Rightarrow> int \<Rightarrow> 'w fixed_window_limiter" where
  "NewRedisFixedWindowLimiter client namespace limit window =
     \<lparr>wl_client = client, wl_limit = (if limit \<le> 0 then 60 else limit),
      wl_window = (if window \<le> 0 then 60 * 1000000000 else window), wl_namespace = normalizeLimiterNamespace namespace\<rparr>"

definition fixed_Allow ::
    "(string \<Rightarrow> string) \<Rightarrow> 'w fixed_window_limiter \<Rightarrow> int \<Rightarrow> string \<Rightarrow> 'w \<Rightarrow> decision res \<times> 'w" where
  "fixed_Allow sha256 L now key w =
     (case wl_client L of None \<Rightarrow> (Inr \<lparr>dc_Allowed = True, dc_RetryAfter = 0\<rparr>, w)
      | Some D \<Rightarrow>
     (let redisKey = fixedWindowRedisKey sha256 (wl_namespace L) key in
      case rd_Incr D now redisKey w of
        (Inl e, w1) \<Rightarrow> (Inl e, w1)
      | (Inr count, w1) \<Rightarrow>
          (case (if count = 1 then rd_Expire D now redisKey (wl_window L) w1 else (None, w1)) of
             (Some e, w2) \<Rightarrow> (Inl e, w2)
           | (None, w2) \<Rightarrow>
               if count \<le> wl_limit L then (Inr \<lparr>dc_Allowed = True, dc_RetryAfter = 0\<rparr>, w2)
               else (case rd_TTL D now redisKey w2 of
                   (Inl e, w3) \<Rightarrow> (Inl e, w3)
                 | (Inr ttl, w3) \<Rightarrow> (Inr \<lparr>dc_Allowed = False, dc_RetryAfter = (if ttl \<le> 0 then wl_window L else ttl)\<rparr>, w3)))))"

section \<open>The state of back-pressure\<close>

record bp_state =
  st_Level :: string
  st_Reason :: string
  st_UpdatedAt :: "int option"
  st_Until :: "int option"

record state_update =
  su_Level :: string
  su_Reason :: string
  su_Until :: "int option"

record 'w backpressure =
  bp_client :: "'w redis option"
  bp_key :: string
  bp_marshal :: "bp_state \<Rightarrow> string res"
  bp_unmarshal :: "string \<Rightarrow> bp_state res"

definition DefaultStateKey :: string where "DefaultStateKey = ''backpressure:smtp:state''"

definition NewRedisBackpressure ::
    "'w redis option \<Rightarrow> (bp_state \<Rightarrow> string res) \<Rightarrow> (string \<Rightarrow> bp_state res) \<Rightarrow> string \<Rightarrow> 'w backpressure" where
  "NewRedisBackpressure client marshal unmarshal key =
     \<lparr>bp_client = client, bp_key = (if go_TrimSpace key = [] then DefaultStateKey else key), bp_marshal = marshal,
      bp_unmarshal = unmarshal\<rparr>"

definition normalizeLevel :: "string \<Rightarrow> string" where
  "normalizeLevel level0 = (let level = go_ToLower (go_TrimSpace level0) in if level = [] then ''normal'' else level)"

definition validLevel :: "string \<Rightarrow> bool" where
  "validLevel level \<longleftrightarrow> level \<in> {''normal'', ''warning'', ''danger'', ''critical''}"

definition acceptsState :: "string \<Rightarrow> bool" where
  "acceptsState state0 =
     (let state = normalizeLevel state0 in
      if state \<in> {[], ''normal'', ''warning''} then True
      else if state \<in> {''danger'', ''critical''} then False else True)"

abbreviation normal_state :: bp_state where
  "normal_state \<equiv> \<lparr>st_Level = ''normal'', st_Reason = [], st_UpdatedAt = None, st_Until = None\<rparr>"

definition decodeState :: "(string \<Rightarrow> bp_state res) \<Rightarrow> int \<Rightarrow> string \<Rightarrow> bp_state res" where
  "decodeState unmarshal now raw0 =
     (let raw = go_TrimSpace raw0 in
      if raw = [] then Inr normal_state
      else if prefix ''{'' raw then
        (case unmarshal raw of
           Inl e \<Rightarrow> Inl (''decode backpressure state: '' @ e)
         | Inr s \<Rightarrow>
             (let s1 = s\<lparr>st_Level := normalizeLevel (st_Level s)\<rparr> in
              Inr (if st_UpdatedAt s1 = None then s1\<lparr>st_UpdatedAt := Some now\<rparr> else s1)))
      else Inr (normal_state\<lparr>st_Level := normalizeLevel raw, st_UpdatedAt := Some now\<rparr>))"

text \<open>\<open>quoted\<close> is the text of \<open>%q\<close>.\<close>

definition normalizeStateUpdate :: "(string \<Rightarrow> string) \<Rightarrow> int \<Rightarrow> state_update \<Rightarrow> bp_state res" where
  "normalizeStateUpdate quoted now u =
     (let level = normalizeLevel (su_Level u); reason = go_TrimSpace (su_Reason u) in
      if \<not> validLevel level then Inl (''unsupported backpressure level '' @ quoted (su_Level u))
      else if go_ContainsAny reason [CHR 0x0D, CHR 0x0A] then Inl ''reason must not contain newlines''
      else if 512 < length reason then Inl ''reason is too long''
      else Inr \<lparr>st_Level = level, st_Reason = reason, st_UpdatedAt = Some now, st_Until = su_Until u\<rparr>)"

definition bp_State :: "'w backpressure \<Rightarrow> int \<Rightarrow> 'w \<Rightarrow> bp_state res \<times> 'w" where
  "bp_State b now w =
     (case bp_client b of None \<Rightarrow> (Inr normal_state, w)
      | Some D \<Rightarrow>
     (case rd_Get D now (bp_key b) w of
        (Inr None, w1) \<Rightarrow> (Inr normal_state, w1)
      | (Inl e, w1) \<Rightarrow> (Inl e, w1)
      | (Inr (Some raw), w1) \<Rightarrow>
          (case decodeState (bp_unmarshal b) now raw of
             Inl e \<Rightarrow> (Inl e, w1)
           | Inr state \<Rightarrow>
               (case st_Until state of
                  Some u \<Rightarrow> if u < now then (Inr normal_state, w1) else (Inr state, w1)
                | None \<Rightarrow> (Inr state, w1)))))"

definition bp_Accept :: "'w backpressure \<Rightarrow> int \<Rightarrow> 'w \<Rightarrow> bool res \<times> 'w" where
  "bp_Accept b now w =
     (if bp_client b = None then (Inr True, w)
      else case bp_State b now w of (Inl e, w1) \<Rightarrow> (Inl e, w1) | (Inr state, w1) \<Rightarrow> (Inr (acceptsState (st_Level state)), w1))"

definition SetState :: "(string \<Rightarrow> string) \<Rightarrow> 'w backpressure \<Rightarrow> int \<Rightarrow> state_update \<Rightarrow> 'w \<Rightarrow> bp_state res \<times> 'w" where
  "SetState quoted b now u w =
     (case bp_client b of None \<Rightarrow> (Inl ''redis client is required'', w)
      | Some D \<Rightarrow>
     (case normalizeStateUpdate quoted now u of Inl e \<Rightarrow> (Inl e, w)
      | Inr state \<Rightarrow>
     (case bp_marshal b state of Inl e \<Rightarrow> (Inl (''marshal backpressure state: '' @ e), w)
      | Inr raw \<Rightarrow>
     (case rd_Set D now (bp_key b) raw w of (Some e, w1) \<Rightarrow> (Inl e, w1) | (None, w1) \<Rightarrow> (Inr state, w1)))))"

section \<open>The manager of back-pressure\<close>

text \<open>Thresholds are rational numbers.\<close>

record auto_config =
  ac_CheckInterval :: int
  ac_WarningThreshold :: rat
  ac_DangerThreshold :: rat
  ac_CriticalThreshold :: rat
  ac_QueueWarningDepth :: int
  ac_QueueDangerDepth :: int
  ac_QueueCriticalDepth :: int
  ac_MonitorStreams :: "string list"
  ac_InstanceID :: string
  ac_LeaderLockTTL :: int

text \<open>\<open>hostname\<close> is the answer of the system, with the time in its place when it has none.\<close>

definition setDefaults :: "string option \<Rightarrow> int \<Rightarrow> auto_config \<Rightarrow> auto_config" where
  "setDefaults hostname now c0 =
     (let c1 = c0\<lparr>ac_CheckInterval := (if ac_CheckInterval c0 \<le> 0 then 5000000000 else ac_CheckInterval c0),
                 ac_WarningThreshold := (if ac_WarningThreshold c0 \<le> 0 then 70 / 100 else ac_WarningThreshold c0),
                 ac_DangerThreshold := (if ac_DangerThreshold c0 \<le> 0 then 85 / 100 else ac_DangerThreshold c0),
                 ac_CriticalThreshold := (if ac_CriticalThreshold c0 \<le> 0 then 95 / 100 else ac_CriticalThreshold c0),
                 ac_QueueWarningDepth := (if ac_QueueWarningDepth c0 \<le> 0 then 10000 else ac_QueueWarningDepth c0),
                 ac_QueueDangerDepth := (if ac_QueueDangerDepth c0 \<le> 0 then 50000 else ac_QueueDangerDepth c0),
                 ac_QueueCriticalDepth := (if ac_QueueCriticalDepth c0 \<le> 0 then 100000 else ac_QueueCriticalDepth c0),
                 ac_InstanceID := (if ac_InstanceID c0 \<noteq> [] then ac_InstanceID c0
                    else ''auto-bp:'' @ (case hostname of Some h \<Rightarrow> h | None \<Rightarrow> go_Itoa now))\<rparr>
      in c1\<lparr>ac_LeaderLockTTL := (if ac_LeaderLockTTL c1 \<le> 0 then wrap64 (3 * ac_CheckInterval c1) else ac_LeaderLockTTL c1)\<rparr>)"

definition leaderKeyFor :: "string \<Rightarrow> string" where
  "leaderKeyFor stateKey = stateKey @ '':auto-leader''"

record 'w auto_manager =
  am_client :: "'w redis"
  am_bp :: "'w backpressure"
  am_cfg :: auto_config
  am_leaderKey :: string
  am_currentLevel :: string

definition NewAutoBackpressureManager ::
    "string option \<Rightarrow> int \<Rightarrow> 'w redis \<Rightarrow> 'w backpressure \<Rightarrow> auto_config \<Rightarrow> 'w auto_manager" where
  "NewAutoBackpressureManager hostname now client bp cfg =
     \<lparr>am_client = client, am_bp = bp, am_cfg = setDefaults hostname now cfg, am_leaderKey = leaderKeyFor (bp_key bp),
      am_currentLevel = ''normal''\<rparr>"

definition levelFromRatio :: "rat \<Rightarrow> rat \<Rightarrow> rat \<Rightarrow> rat \<Rightarrow> string" where
  "levelFromRatio ratio warn danger critical =
     (if critical \<le> ratio then ''critical'' else if danger \<le> ratio then ''danger''
      else if warn \<le> ratio then ''warning'' else ''normal'')"

definition levelFromDepth :: "int \<Rightarrow> int \<Rightarrow> int \<Rightarrow> int \<Rightarrow> string" where
  "levelFromDepth depth warn danger critical =
     (if critical \<le> depth then ''critical'' else if danger \<le> depth then ''danger''
      else if warn \<le> depth then ''warning'' else ''normal'')"

definition levelOrder :: "string \<Rightarrow> nat" where
  "levelOrder l = (if l = ''warning'' then 1 else if l = ''danger'' then 2 else if l = ''critical'' then 3 else 0)"

definition higherLevel :: "string \<Rightarrow> string \<Rightarrow> string" where
  "higherLevel a b = (if levelOrder b \<le> levelOrder a then a else b)"

fun parseInt64_loop :: "int \<Rightarrow> string \<Rightarrow> int" where
  "parseInt64_loop v [] = v"
| "parseInt64_loop v (c # s) = (if \<not> is_digit c then v else parseInt64_loop (wrap64 (v * 10 + int (byte_val c - 48))) s)"

definition parseInt64 :: "string \<Rightarrow> int" where "parseInt64 s = parseInt64_loop 0 s"

text \<open>The two numbers that the lines of \<open>INFO memory\<close> give, the last ones of each name.\<close>

definition after_colon :: "string \<Rightarrow> int \<Rightarrow> int" where
  "after_colon line v = (case go_Cut '':'' line of None \<Rightarrow> v | Some (_, after) \<Rightarrow> parseInt64 (go_TrimSpace after))"

fun memory_lines :: "string list \<Rightarrow> int \<times> int \<Rightarrow> int \<times> int" where
  "memory_lines [] (used, most) = (used, most)"
| "memory_lines (line0 # ls) (used, most) =
     (let line = go_TrimSpace line0 in
      if prefix ''used_memory:'' line then memory_lines ls (after_colon line used, most)
      else if prefix ''maxmemory:'' line then memory_lines ls (used, after_colon line most)
      else memory_lines ls (used, most))"

definition memoryLevel :: "'w auto_manager \<Rightarrow> int \<Rightarrow> 'w \<Rightarrow> string \<times> 'w" where
  "memoryLevel m now w =
     (case rd_Info (am_client m) now ''memory'' w of
        (Inl _, w1) \<Rightarrow> (am_currentLevel m, w1)
      | (Inr info, w1) \<Rightarrow>
          (case memory_lines (go_Split1 (CHR 0x0A) info) (0, 0) of (usedMemory, maxMemory) \<Rightarrow>
             if maxMemory \<le> 0 then (''normal'', w1)
             else (levelFromRatio (of_int usedMemory / of_int maxMemory) (ac_WarningThreshold (am_cfg m))
                     (ac_DangerThreshold (am_cfg m)) (ac_CriticalThreshold (am_cfg m)), w1)))"

fun streams_depth :: "'w redis \<Rightarrow> int \<Rightarrow> string list \<Rightarrow> int \<Rightarrow> 'w \<Rightarrow> int \<times> 'w" where
  "streams_depth D now [] depth w = (depth, w)"
| "streams_depth D now (s # ss) depth w =
     (case rd_XLen D now s w of
        (Inl _, w1) \<Rightarrow> streams_depth D now ss depth w1
      | (Inr n, w1) \<Rightarrow> streams_depth D now ss (wrap64 (depth + n)) w1)"

definition queueLevel :: "'w auto_manager \<Rightarrow> int \<Rightarrow> 'w \<Rightarrow> string \<times> 'w" where
  "queueLevel m now w =
     (if ac_MonitorStreams (am_cfg m) = [] then (''normal'', w)
      else case streams_depth (am_client m) now (ac_MonitorStreams (am_cfg m)) 0 w of (depth, w1) \<Rightarrow>
        (levelFromDepth depth (ac_QueueWarningDepth (am_cfg m)) (ac_QueueDangerDepth (am_cfg m))
           (ac_QueueCriticalDepth (am_cfg m)), w1))"

definition computeLevel :: "'w auto_manager \<Rightarrow> int \<Rightarrow> 'w \<Rightarrow> string \<times> 'w" where
  "computeLevel m now w =
     (case memoryLevel m now w of (memLevel, w1) \<Rightarrow>
      case queueLevel m now w1 of (queueLevel', w2) \<Rightarrow> (higherLevel memLevel queueLevel', w2))"

text \<open>The script of the leader lock: the server runs it as one command, and stops it at a command that fails.\<close>

definition leaderElectScript :: "'w redis \<Rightarrow> int \<Rightarrow> string \<Rightarrow> string \<Rightarrow> int \<Rightarrow> 'w \<Rightarrow> int res \<times> 'w" where
  "leaderElectScript D now key instanceID ttl w =
     (case rd_Get D now key w of
        (Inl e, w1) \<Rightarrow> (Inl e, w1)
      | (Inr current, w1) \<Rightarrow>
          if current = Some instanceID then
            (case rd_Expire D now key ttl w1 of (Some e, w2) \<Rightarrow> (Inl e, w2) | (None, w2) \<Rightarrow> (Inr 1, w2))
          else if current = None then
            (case rd_SetNX D now key instanceID ttl w1 of
               (Inl e, w2) \<Rightarrow> (Inl e, w2) | (Inr set_ok, w2) \<Rightarrow> (Inr (if set_ok then 1 else 0), w2))
          else (Inr 0, w1))"

text \<open>\<open>Milliseconds()\<close> drops what is below a millisecond.\<close>

definition isLeader :: "'w auto_manager \<Rightarrow> int \<Rightarrow> 'w \<Rightarrow> bool \<times> 'w" where
  "isLeader m now w =
     (let ttlMs = ac_LeaderLockTTL (am_cfg m) div 1000000 in
      case leaderElectScript (am_client m) now (am_leaderKey m) (ac_InstanceID (am_cfg m)) (ttlMs * 1000000) w of
        (Inl _, w1) \<Rightarrow> (False, w1) | (Inr r, w1) \<Rightarrow> (r = 1, w1))"

definition auto_check :: "(string \<Rightarrow> string) \<Rightarrow> int \<Rightarrow> 'w auto_manager \<times> 'w \<Rightarrow> 'w auto_manager \<times> 'w" where
  "auto_check quoted now mw =
     (case mw of (m, w) \<Rightarrow>
      case isLeader m now w of (leader, w1) \<Rightarrow>
        if \<not> leader then (m, w1)
        else (case computeLevel m now w1 of (level, w2) \<Rightarrow>
          if level = am_currentLevel m then (m, w2)
          else (m\<lparr>am_currentLevel := level\<rparr>,
                snd (SetState quoted (am_bp m) now \<lparr>su_Level = level, su_Reason = ''auto-backpressure'', su_Until = None\<rparr> w2))))"

text \<open>The loop of the goroutine, over the times of its ticks.\<close>

definition auto_run :: "(string \<Rightarrow> string) \<Rightarrow> int list \<Rightarrow> 'w auto_manager \<times> 'w \<Rightarrow> 'w auto_manager \<times> 'w" where
  "auto_run quoted ticks mw = fold (auto_check quoted) ticks mw"

section \<open>Token buckets\<close>

record token_bucket =
  tb_lastRefresh :: int
  tb_tokensLeft :: int
  tb_maxTokens :: int
  tb_refillRate :: int

definition NewTokenBucket :: "int \<Rightarrow> int \<Rightarrow> token_bucket" where
  "NewTokenBucket now maxRate =
     \<lparr>tb_lastRefresh = now, tb_tokensLeft = maxRate, tb_maxTokens = maxRate, tb_refillRate = maxRate\<rparr>"

text \<open>\<open>int(elapsed * rate)\<close>, with the elapsed time in seconds; the clock does not run backwards.\<close>

definition tokensToAdd :: "int \<Rightarrow> token_bucket \<Rightarrow> int" where
  "tokensToAdd now b = (now - tb_lastRefresh b) * tb_refillRate b div 1000000000"

definition bucket_Allow :: "int \<Rightarrow> token_bucket \<Rightarrow> bool \<times> token_bucket" where
  "bucket_Allow now b =
     (let left = min (tb_maxTokens b) (tb_tokensLeft b + tokensToAdd now b) in
      if 0 < left then (True, b\<lparr>tb_lastRefresh := now, tb_tokensLeft := left - 1\<rparr>)
      else (False, b\<lparr>tb_lastRefresh := now, tb_tokensLeft := left\<rparr>))"

record bulk_limiter =
  bl_rate :: int
  bl_role :: string
  bl_buckets :: "string \<rightharpoonup> token_bucket"

definition NewBulkSenderLimiter :: "int \<Rightarrow> string \<Rightarrow> bulk_limiter" where
  "NewBulkSenderLimiter bulkRate bulkRole =
     \<lparr>bl_rate = (if bulkRate \<le> 0 then 100 else bulkRate), bl_role = (if bulkRole = [] then ''bulk_user'' else bulkRole),
      bl_buckets = Map.empty\<rparr>"

definition IsBulkUser :: "bulk_limiter \<Rightarrow> string \<Rightarrow> bool" where
  "IsBulkUser L role = (role = bl_role L)"

definition AllowSubmission :: "int \<Rightarrow> string \<Rightarrow> string \<Rightarrow> bulk_limiter \<Rightarrow> bool \<times> bulk_limiter" where
  "AllowSubmission now userID userRole L =
     (if userRole \<noteq> bl_role L then (True, L)
      else let b = (case bl_buckets L userID of None \<Rightarrow> NewTokenBucket now (bl_rate L) | Some b \<Rightarrow> b) in
        (case bucket_Allow now b of (ok, b1) \<Rightarrow> (ok, L\<lparr>bl_buckets := (bl_buckets L)(userID \<mapsto> b1)\<rparr>)))"

section \<open>How much a fixed window lets through\<close>

fun allowed_calls :: "'w window_limiter \<Rightarrow> string \<Rightarrow> int list \<Rightarrow> 'w \<Rightarrow> int" where
  "allowed_calls L key [] w = 0"
| "allowed_calls L key (t # ts) w =
     (case limiter_Allow L t key w of (r, w1) \<Rightarrow> (if r = Inr True then 1 else 0) + allowed_calls L key ts w1)"

definition counted :: "(int \<times> int option) option \<Rightarrow> bool" where
  "counted x \<longleftrightarrow> (case x of None \<Rightarrow> True | Some (n, _) \<Rightarrow> 0 \<le> n)"

text \<open>What a counter still lets through before the time \<open>T\<close>.\<close>

definition credit :: "int \<Rightarrow> int \<Rightarrow> int \<Rightarrow> (int \<times> int option) option \<Rightarrow> int" where
  "credit limit T now x =
     (case live_entry now x of None \<Rightarrow> limit
      | Some (n, None) \<Rightarrow> max 0 (limit - n)
      | Some (n, Some e) \<Rightarrow> max 0 (limit - n) + (if e < T then limit else 0))"

lemmas counter_defs = live_entry_def incremented_def expiring_def counted_def credit_def

lemma credit_nonneg: "0 \<le> limit \<Longrightarrow> 0 \<le> credit limit T now x"
  by (auto simp: counter_defs split: option.splits prod.splits)

lemma credit_le: "0 \<le> limit \<Longrightarrow> counted x \<Longrightarrow> credit limit T now x \<le> 2 * limit"
  by (auto simp: counter_defs split: option.splits prod.splits)

lemma credit_later: "0 \<le> limit \<Longrightarrow> now \<le> later \<Longrightarrow> later < T \<Longrightarrow> credit limit T later x \<le> credit limit T now x"
  by (auto simp: counter_defs split: option.splits prod.splits)

lemma counter_Incr:
  assumes "counter_laws D cs" and "rd_Incr D now k w = (r, w1)"
  shows "cs w1 k \<in> (if isl r then {cs w k, Some (incremented now (cs w k))} else {Some (incremented now (cs w k))})"
    and "\<And>n. r = Inr n \<Longrightarrow> n = fst (incremented now (cs w k))"
proof -
  have *: "case rd_Incr D now k w of
         (Inr n, w1) \<Rightarrow> n = fst (incremented now (cs w k)) \<and> cs w1 = (cs w)(k \<mapsto> incremented now (cs w k))
       | (Inl _, w1) \<Rightarrow> cs w1 = cs w \<or> cs w1 = (cs w)(k \<mapsto> incremented now (cs w k))"
    by (rule assms(1) [unfolded counter_laws_def, THEN conjunct1, THEN spec, THEN spec, THEN spec])
  show "cs w1 k \<in> (if isl r then {cs w k, Some (incremented now (cs w k))} else {Some (incremented now (cs w k))})"
    using * by (cases r) (auto simp: assms(2))
  show "\<And>n. r = Inr n \<Longrightarrow> n = fst (incremented now (cs w k))"
    using * by (simp add: assms(2))
qed

lemma counter_Expire:
  assumes "counter_laws D cs" and "rd_Expire D now k ttl w = (e, w1)"
  shows "cs w1 k \<in> (if e = None then {expiring now ttl (cs w k)} else {cs w k, expiring now ttl (cs w k)})"
proof -
  have "case rd_Expire D now k ttl w of
         (None, w1) \<Rightarrow> cs w1 = (cs w)(k := expiring now ttl (cs w k))
       | (Some _, w1) \<Rightarrow> cs w1 = cs w \<or> cs w1 = (cs w)(k := expiring now ttl (cs w k))"
    by (rule assms(1) [unfolded counter_laws_def, THEN conjunct2, THEN spec, THEN spec, THEN spec, THEN spec])
  then show ?thesis by (cases e) (auto simp: assms(2))
qed

text \<open>The counter after a call is the old one, the next number, or the next number with a new end when it is one.\<close>

lemma limiter_entry:
  assumes "counter_laws D cs" and "wl_client L = Some D" and "limiter_Allow L now key w = (r, w1)"
  defines "x \<equiv> incremented now (cs w key)"
  shows "(isl r \<and> cs w1 key = cs w key) \<or>
     cs w1 key = Some x \<and> (fst x = 1 \<longrightarrow> isl r) \<and> (\<forall>b. r = Inr b \<longrightarrow> b = (fst x \<le> wl_limit L)) \<or>
     fst x = 1 \<and> cs w1 key = expiring now (wl_window L) (Some x) \<and> (\<forall>b. r = Inr b \<longrightarrow> b = (1 \<le> wl_limit L))"
proof -
  obtain ri wi where i: "rd_Incr D now key w = (ri, wi)" by (cases "rd_Incr D now key w") auto
  note inc = counter_Incr [OF assms(1) i, folded x_def]
  show ?thesis
  proof (cases ri)
    case (Inl e)
    then show ?thesis using inc(1) assms(2,3) i by (auto simp: limiter_Allow_def)
  next
    case (Inr n)
    then have n: "n = fst x" and c: "cs wi key = Some x" using inc by auto
    obtain re we where e: "rd_Expire D now key (wl_window L) wi = (re, we)"
      by (cases "rd_Expire D now key (wl_window L) wi") auto
    note ex = counter_Expire [OF assms(1) e, unfolded c]
    show ?thesis
    proof (cases "fst x = 1")
      case True
      then show ?thesis using assms(2,3) i e Inr n ex
        by (cases re) (auto simp: limiter_Allow_def)
    next
      case False
      then show ?thesis using assms(2,3) i Inr n c by (auto simp: limiter_Allow_def)
    qed
  qed
qed

lemma limiter_credit:
  assumes "counter_laws D cs" and "wl_client L = Some D" and "0 < wl_limit L"
    and "now < T" and "T \<le> now + wl_window L" and "counted (cs w key)" and "limiter_Allow L now key w = (r, w1)"
  shows "(if r = Inr True then 1 else 0) + credit (wl_limit L) T now (cs w1 key) \<le> credit (wl_limit L) T now (cs w key)"
    and "counted (cs w1 key)"
proof -
  define x where "x = incremented now (cs w key)"
  have x: "1 \<le> fst x" and xs: "credit (wl_limit L) T now (Some x) \<le> credit (wl_limit L) T now (cs w key)"
    and xt: "fst x \<le> wl_limit L \<Longrightarrow> 1 + credit (wl_limit L) T now (Some x) \<le> credit (wl_limit L) T now (cs w key)"
    using assms(3,4,6) by (auto simp: x_def counter_defs split: option.splits prod.splits if_splits)
  have xe: "fst x = 1 \<Longrightarrow> 1 + credit (wl_limit L) T now (expiring now (wl_window L) (Some x)) \<le> credit (wl_limit L) T now (cs w key)"
    using assms(3-6) by (auto simp: x_def counter_defs split: option.splits prod.splits if_splits)
  have cx: "counted (Some x)" "counted (expiring now (wl_window L) (Some x))"
    using x by (auto simp: counter_defs split: option.splits prod.splits)
  note cases = limiter_entry [OF assms(1,2,7), folded x_def]
  show "counted (cs w1 key)" using cases cx assms(6) by auto
  show "(if r = Inr True then 1 else 0) + credit (wl_limit L) T now (cs w1 key) \<le> credit (wl_limit L) T now (cs w key)"
    using cases
  proof (elim disjE conjE)
    assume "isl r" "cs w1 key = cs w key"
    then show ?thesis by auto
  next
    assume "cs w1 key = Some x" and "\<forall>b. r = Inr b \<longrightarrow> b = (fst x \<le> wl_limit L)"
    then show ?thesis using xs xt by auto
  next
    assume "fst x = 1" and "cs w1 key = expiring now (wl_window L) (Some x)"
    then show ?thesis using xe by auto
  qed
qed

lemma allowed_calls_credit:
  assumes "counter_laws D cs" and "wl_client L = Some D" and "0 < wl_limit L"
  shows "sorted (now # ts) \<Longrightarrow> \<forall>t\<in>set (now # ts). t < T \<and> T \<le> t + wl_window L \<Longrightarrow> counted (cs w key) \<Longrightarrow>
     allowed_calls L key ts w \<le> credit (wl_limit L) T now (cs w key)"
proof (induction ts arbitrary: now w)
  case Nil
  then show ?case using credit_nonneg assms(3) by simp
next
  case (Cons t ts)
  obtain r w1 where a: "limiter_Allow L t key w = (r, w1)" by (cases "limiter_Allow L t key w") auto
  have t: "t < T" "T \<le> t + wl_window L" "now \<le> t" using Cons.prems by auto
  note step = limiter_credit [OF assms t(1,2) Cons.prems(3) a]
  have "allowed_calls L key ts w1 \<le> credit (wl_limit L) T t (cs w1 key)"
    by (rule Cons.IH) (use Cons.prems step(2) in auto)
  moreover have "credit (wl_limit L) T t (cs w key) \<le> credit (wl_limit L) T now (cs w key)"
    using credit_later [OF _ t(3,1)] assms(3) by simp
  ultimately show ?case using step(1) a by auto
qed

text \<open>A server that only counts, for the witnesses; \<open>forgets\<close> says that \<open>EXPIRE\<close> fails.\<close>

definition counting_redis :: "bool \<Rightarrow> (string \<Rightarrow> (int \<times> int option) option) redis" where
  "counting_redis forgets =
     \<lparr>rd_Incr = (\<lambda>now k w. (Inr (fst (incremented now (w k))), w(k \<mapsto> incremented now (w k)))),
      rd_Expire = (\<lambda>now k ttl w. if forgets then (Some ''i/o timeout'', w) else (None, w(k := expiring now ttl (w k)))),
      rd_TTL = (\<lambda>now k w. (Inl ''no TTL'', w)), rd_SetNX = (\<lambda>now k v ttl w. (Inl ''no SETNX'', w)),
      rd_Get = (\<lambda>now k w. (Inl ''no GET'', w)), rd_Set = (\<lambda>now k v w. (Some ''no SET'', w)),
      rd_Info = (\<lambda>now s w. (Inl ''no INFO'', w)), rd_XLen = (\<lambda>now k w. (Inl ''no XLEN'', w))\<rparr>"

lemma counting_redis_laws: "counter_laws (counting_redis forgets) (\<lambda>w. w)"
  by (simp add: counter_laws_def counting_redis_def)

text \<open>
  C22. In any stretch of time that is no longer than one window, at most twice the limit of calls for one key are let
  through, whatever state the counter is in at the start and whichever commands fail.
\<close>
theorem fixed_window_limit:
  assumes "counter_laws D cs" and "wl_client L = Some D" and "0 < wl_limit L" and "counted (cs w key)"
    and "sorted ts" and "\<forall>t\<in>set ts. t0 \<le> t \<and> t < t0 + wl_window L"
  shows "allowed_calls L key ts w \<le> 2 * wl_limit L"
proof (cases ts)
  case Nil
  then show ?thesis using assms(3) by simp
next
  case (Cons t us)
  have "allowed_calls L key ts w \<le> credit (wl_limit L) (t0 + wl_window L) t (cs w key)"
    by (rule allowed_calls_credit [OF assms(1-3)]) (use assms(4-6) Cons in auto)
  also have "\<dots> \<le> 2 * wl_limit L" using credit_le assms(3,4) by simp
  finally show ?thesis .
qed

theorem fixed_window_limit_witness:
  "allowed_calls (NewRedisLimiter (Some (counting_redis False)) 2 10) ''k'' [5, 6, 7, 8, 13, 13, 14] [''k'' \<mapsto> (0, Some 7)] \<le> 4"
  using fixed_window_limit [OF counting_redis_laws [of False], of "NewRedisLimiter (Some (counting_redis False)) 2 10"
      "[''k'' \<mapsto> (0, Some 7)]" "''k''" "[5, 6, 7, 8, 13, 13, 14]" 5]
  by (simp add: NewRedisLimiter_def counted_def del: allowed_calls.simps)

lemma unlimited_counter:
  assumes "counter_laws D cs" and "wl_client L = Some D" and "0 < wl_limit L"
  shows "cs w key = Some (n, None) \<Longrightarrow> 0 < n \<Longrightarrow> allowed_calls L key ts w \<le> max 0 (wl_limit L - n)"
proof (induction ts arbitrary: w n)
  case Nil
  then show ?case by simp
next
  case (Cons t ts)
  obtain r w1 where a: "limiter_Allow L t key w = (r, w1)" by (cases "limiter_Allow L t key w") auto
  have x: "incremented t (cs w key) = (n + 1, None)" using Cons.prems by (simp add: incremented_def live_entry_def)
  from limiter_entry [OF assms(1,2) a, unfolded x] Cons.prems
  consider "isl r" "cs w1 key = Some (n, None)"
    | "\<forall>b. r = Inr b \<longrightarrow> b = (n + 1 \<le> wl_limit L)" "cs w1 key = Some (n + 1, None)" by auto
  then show ?case
  proof cases
    case 1
    then show ?thesis using Cons.IH [OF 1(2) Cons.prems(2)] a by (cases r) simp_all
  next
    case 2
    have "allowed_calls L key ts w1 \<le> max 0 (wl_limit L - (n + 1))" using Cons.IH [OF 2(2)] Cons.prems(2) by simp
    then show ?thesis using 2(1) a by (cases r) auto
  qed
qed

text \<open>
  C35. The counter and its end are set by two commands, and only the first call sets the end. When \<open>EXPIRE\<close> fails, the
  call reports an error and the counter stays for ever: of all later calls, at whatever time, fewer than the limit are let
  through, so the address is refused from then on.
\<close>
theorem failed_expiry_blocks_forever:
  assumes "counter_laws D cs" and "wl_client L = Some D" and "0 < wl_limit L" and "live_entry now (cs w key) = None"
    and "rd_Incr D now key w = (Inr 1, w1)" and "rd_Expire D now key (wl_window L) w1 = (Some e, w2)" and "cs w2 = cs w1"
  shows "limiter_Allow L now key w = (Inl e, w2) \<and> (\<forall>ts. allowed_calls L key ts w2 < wl_limit L)"
proof -
  have "cs w2 key = Some (1, None)"
    using counter_Incr(1) [OF assms(1,5)] assms(4,7) by (simp add: incremented_def)
  then have "allowed_calls L key ts w2 \<le> max 0 (wl_limit L - 1)" for ts
    using unlimited_counter [OF assms(1-3), of w2 key 1 ts] by simp
  moreover have "max 0 (wl_limit L - 1) < wl_limit L" using assms(3) by simp
  ultimately show ?thesis using assms(2,5,6) by (auto simp: limiter_Allow_def intro: le_less_trans)
qed

theorem failed_expiry_blocks_forever_witness:
  "\<forall>ts. allowed_calls (NewRedisLimiter (Some (counting_redis True)) 2 10) ''k'' ts [''k'' \<mapsto> (1, None)] < 2"
  using failed_expiry_blocks_forever [OF counting_redis_laws [of True], of "NewRedisLimiter (Some (counting_redis True)) 2 10"
      5 Map.empty "''k''" "[''k'' \<mapsto> (1, None)]" "''i/o timeout''" "[''k'' \<mapsto> (1, None)]"]
  by (simp add: NewRedisLimiter_def counting_redis_def live_entry_def incremented_def del: allowed_calls.simps)

section \<open>Levels\<close>

text \<open>Values of keys that do not expire: commands on other keys leave them alone.\<close>

definition string_laws :: "'w redis \<Rightarrow> ('w \<Rightarrow> string \<Rightarrow> string option) \<Rightarrow> bool" where
  "string_laws D val \<longleftrightarrow>
     (\<forall>now k w v. val w k = Some v \<longrightarrow> isl (fst (rd_Get D now k w)) \<or> fst (rd_Get D now k w) = Inr (Some v)) \<and>
     (\<forall>now k w. val (snd (rd_Get D now k w)) = val w) \<and>
     (\<forall>now k v w j. j \<noteq> k \<longrightarrow> (\<forall>ttl. val (snd (rd_SetNX D now k v ttl w)) j = val w j)) \<and>
     (\<forall>now k w j. j \<noteq> k \<longrightarrow> (\<forall>ttl. val (snd (rd_Expire D now k ttl w)) j = val w j)) \<and>
     (\<forall>now s w. val (snd (rd_Info D now s w)) = val w) \<and>
     (\<forall>now k w. val (snd (rd_XLen D now k w)) = val w) \<and>
     (\<forall>now k v w. case rd_Set D now k v w of (None, w1) \<Rightarrow> val w1 = (val w)(k \<mapsto> v)
        | (Some _, w1) \<Rightarrow> val w1 = val w \<or> val w1 = (val w)(k \<mapsto> v))"

lemma string_laws_D:
  assumes "string_laws D val"
  shows "val w k = Some v \<Longrightarrow> isl (fst (rd_Get D now k w)) \<or> fst (rd_Get D now k w) = Inr (Some v)"
    and "val (snd (rd_Get D now k w)) = val w"
    and "j \<noteq> k \<Longrightarrow> val (snd (rd_SetNX D now k v' ttl w)) j = val w j"
    and "j \<noteq> k \<Longrightarrow> val (snd (rd_Expire D now k ttl w)) j = val w j"
    and "val (snd (rd_Info D now s w)) = val w"
    and "val (snd (rd_XLen D now k w)) = val w"
  using assms by (auto simp: string_laws_def)

lemma leader_val:
  assumes "string_laws D val" and "j \<noteq> k"
  shows "val (snd (leaderElectScript D now k i ttl w)) j = val w j"
proof -
  obtain r w1 where g: "rd_Get D now k w = (r, w1)" by (cases "rd_Get D now k w") auto
  have "val w1 = val w" using string_laws_D(2) [OF assms(1), of now k w] g by simp
  moreover obtain e w2 where "rd_Expire D now k ttl w1 = (e, w2)" by (cases "rd_Expire D now k ttl w1") auto
  moreover obtain s w3 where "rd_SetNX D now k i ttl w1 = (s, w3)" by (cases "rd_SetNX D now k i ttl w1") auto
  ultimately show ?thesis using string_laws_D(4) [OF assms, of now ttl w1] string_laws_D(3) [OF assms, of now i ttl w1] g
    by (auto simp: leaderElectScript_def split: sum.splits option.splits)
qed

lemma streams_val: "string_laws D val \<Longrightarrow> val (snd (streams_depth D now ss n w)) = val w"
proof (induction D now ss n w rule: streams_depth.induct)
  case (2 D now s ss depth w)
  obtain r w1 where "rd_XLen D now s w = (r, w1)" by (cases "rd_XLen D now s w") auto
  moreover from this have "val w1 = val w" using string_laws_D(6) [OF "2.prems", of now s w] by simp
  ultimately show ?case using "2.IH" "2.prems" by (cases r) auto
qed simp

lemma computeLevel_val:
  assumes "string_laws (am_client m) val"
  shows "val (snd (computeLevel m now w)) = val w"
proof -
  have "val (snd (memoryLevel m now w)) = val w" for w
    using string_laws_D(5) [OF assms, of now "''memory''" w]
    by (auto simp: memoryLevel_def split: prod.splits sum.splits)
  moreover have "val (snd (queueLevel m now w)) = val w" for w
    using streams_val [OF assms, of now _ 0 w] by (auto simp: queueLevel_def split: prod.splits) (metis snd_conv)
  ultimately show ?thesis by (auto simp: computeLevel_def split: prod.splits) (metis snd_conv)
qed

text \<open>A check that computes the level it remembers leaves the manager and the state alone.\<close>

lemma quiet_check:
  assumes "string_laws (am_client m) val" and "fst (computeLevel m now (snd (isLeader m now w))) = am_currentLevel m"
    and "j \<noteq> am_leaderKey m"
  shows "\<exists>w1. auto_check quoted now (m, w) = (m, w1) \<and> val w1 j = val w j"
proof -
  obtain b w1 where l: "isLeader m now w = (b, w1)" by (cases "isLeader m now w") auto
  have v1: "val w1 j = val w j"
    using leader_val [OF assms(1,3), of now "ac_InstanceID (am_cfg m)" _ w] l
    by (auto simp: isLeader_def Let_def split: prod.splits sum.splits) (metis snd_conv)+
  obtain lv w2 where c: "computeLevel m now w1 = (lv, w2)" by (cases "computeLevel m now w1") auto
  have "val w2 = val w1" using computeLevel_val [OF assms(1), of now w1] c by simp
  then show ?thesis using v1 l c assms(2) by (auto simp: auto_check_def)
qed

lemma quiet_run:
  assumes "string_laws (am_client m) val" and "\<And>now w. fst (computeLevel m now w) = am_currentLevel m"
    and "j \<noteq> am_leaderKey m"
  shows "\<exists>w1. auto_run quoted ticks (m, w) = (m, w1) \<and> val w1 j = val w j"
proof (induction ticks arbitrary: w)
  case Nil
  then show ?case by (simp add: auto_run_def)
next
  case (Cons t ticks)
  obtain w1 where "auto_check quoted t (m, w) = (m, w1)" and "val w1 j = val w j"
    using quiet_check [OF assms(1) _ assms(3), of t w quoted] assms(2) by auto
  then show ?case using Cons.IH [of w1] by (simp add: auto_run_def)
qed

text \<open>A value of the state key that refuses mail at every time.\<close>

definition refuses :: "'w backpressure \<Rightarrow> string \<Rightarrow> bool" where
  "refuses b raw \<longleftrightarrow>
     (\<forall>now. case decodeState (bp_unmarshal b) now raw of Inl _ \<Rightarrow> False
        | Inr s \<Rightarrow> st_Until s = None \<and> \<not> acceptsState (st_Level s))"

lemma refused_by_state:
  assumes "string_laws D val" and "bp_client b = Some D" and "val w (bp_key b) = Some raw" and "refuses b raw"
  shows "fst (bp_Accept b now w) \<noteq> Inr True"
proof -
  obtain r w1 where g: "rd_Get D now (bp_key b) w = (r, w1)" by (cases "rd_Get D now (bp_key b) w") auto
  then consider "isl r" | "r = Inr (Some raw)" using string_laws_D(1) [OF assms(1,3), of now] by auto
  then show ?thesis
    using assms(2,4) g by cases
      (auto simp: bp_Accept_def bp_State_def refuses_def split: sum.splits option.splits elim!: allE [of _ now])
qed

text \<open>
  C36. A manager writes the state only when the level it computes differs from the one it remembers, and it starts by
  remembering the normal level. So when the last manager went down while the state refused mail, a new one that finds
  every level normal never writes: the state stays and the services refuse all mail, however long it runs.
\<close>
theorem stale_level_is_kept:
  assumes "string_laws D val" and "bp_client b = Some D" and "val w (bp_key b) = Some raw" and "refuses b raw"
    and "m = NewAutoBackpressureManager hostname started D b cfg" and "\<And>now w. fst (computeLevel m now w) = ''normal''"
  shows "\<exists>w1. auto_run quoted ticks (m, w) = (m, w1) \<and> val w1 (bp_key b) = Some raw \<and> fst (bp_Accept b now w1) \<noteq> Inr True"
proof -
  have m: "am_client m = D" "am_currentLevel m = ''normal''" "bp_key b \<noteq> am_leaderKey m"
    using assms(5) by (simp_all add: NewAutoBackpressureManager_def leaderKeyFor_def)
  obtain w1 where "auto_run quoted ticks (m, w) = (m, w1)" and v: "val w1 (bp_key b) = val w (bp_key b)"
    using quiet_run [of m val "bp_key b" quoted ticks w] assms(1,6) m by auto
  then show ?thesis using refused_by_state [OF assms(1,2) _ assms(4), of w1 now] assms(3) by auto
qed

text \<open>A server of values, with no limit of memory.\<close>

definition string_redis :: "(string \<rightharpoonup> string) redis" where
  "string_redis =
     \<lparr>rd_Incr = (\<lambda>now k w. (Inl ''no INCR'', w)), rd_Expire = (\<lambda>now k ttl w. (None, w)),
      rd_TTL = (\<lambda>now k w. (Inr (- 1), w)),
      rd_SetNX = (\<lambda>now k v ttl w. if w k = None then (Inr True, w(k \<mapsto> v)) else (Inr False, w)),
      rd_Get = (\<lambda>now k w. (Inr (w k), w)), rd_Set = (\<lambda>now k v w. (None, w(k \<mapsto> v))),
      rd_Info = (\<lambda>now s w. (Inr ''used_memory:5'', w)), rd_XLen = (\<lambda>now k w. (Inr 0, w))\<rparr>"

definition sample_auto :: auto_config where
  "sample_auto = \<lparr>ac_CheckInterval = 0, ac_WarningThreshold = 0, ac_DangerThreshold = 0, ac_CriticalThreshold = 0,
     ac_QueueWarningDepth = 0, ac_QueueDangerDepth = 0, ac_QueueCriticalDepth = 0, ac_MonitorStreams = [],
     ac_InstanceID = ''mx1'', ac_LeaderLockTTL = 0\<rparr>"

definition sample_pressure :: "(string \<rightharpoonup> string) backpressure" where
  "sample_pressure = NewRedisBackpressure (Some string_redis) (\<lambda>_. Inl ''no json'') (\<lambda>_. Inl ''no json'') ''k''"

lemma string_redis_laws: "string_laws string_redis (\<lambda>w. w)"
  by (simp add: string_laws_def string_redis_def)

lemma sample_memory: "memory_lines (go_Split1 (CHR 0x0A) ''used_memory:5'') (0, 0) = (5, 0)"
  by code_simp

lemma sample_normal: "fst (computeLevel (NewAutoBackpressureManager None 0 string_redis sample_pressure sample_auto) now w) = ''normal''"
  by (simp add: computeLevel_def memoryLevel_def queueLevel_def NewAutoBackpressureManager_def setDefaults_def sample_auto_def
      string_redis_def Let_def higherLevel_def sample_memory del: go_Split1.simps)

lemma sample_critical: "go_TrimSpace ''critical'' = ''critical''" "normalizeLevel ''critical'' = ''critical''"
  "\<not> acceptsState ''critical''"
  by code_simp+

theorem stale_level_is_kept_witness:
  "\<exists>w1. auto_run id [5, 10, 15] (NewAutoBackpressureManager None 0 string_redis sample_pressure sample_auto, [''k'' \<mapsto> ''critical'']) =
      (NewAutoBackpressureManager None 0 string_redis sample_pressure sample_auto, w1) \<and> w1 ''k'' = Some ''critical'' \<and>
      fst (bp_Accept sample_pressure 20 w1) \<noteq> Inr True"
proof -
  have key: "bp_key sample_pressure = ''k''" by (simp add: sample_pressure_def NewRedisBackpressure_def go_TrimSpace_def) code_simp
  have "refuses sample_pressure ''critical''"
    by (simp add: refuses_def decodeState_def sample_critical)
  then show ?thesis
    using stale_level_is_kept [OF string_redis_laws, of sample_pressure "[''k'' \<mapsto> ''critical'']" "''critical''"
        "NewAutoBackpressureManager None 0 string_redis sample_pressure sample_auto" None 0 sample_auto id "[5, 10, 15]" 20]
    by (simp add: key sample_normal) (simp add: sample_pressure_def NewRedisBackpressure_def)
qed

section \<open>What a bulk sender gets\<close>

fun bulk_calls :: "string \<Rightarrow> string \<Rightarrow> int list \<Rightarrow> bulk_limiter \<Rightarrow> int" where
  "bulk_calls user role [] L = 0"
| "bulk_calls user role (t # ts) L =
     (case AllowSubmission t user role L of (ok, L1) \<Rightarrow> (if ok then 1 else 0) + bulk_calls user role ts L1)"

lemma bulk_step:
  assumes "bl_buckets L user = Some b"
  shows "AllowSubmission t user (bl_role L) L =
     (fst (bucket_Allow t b), L\<lparr>bl_buckets := (bl_buckets L)(user \<mapsto> snd (bucket_Allow t b))\<rparr>)"
  using assms by (simp add: AllowSubmission_def split_beta)

lemma bulk_new:
  assumes "bl_buckets L user = None"
  shows "AllowSubmission t user (bl_role L) L =
     (fst (bucket_Allow t (NewTokenBucket t (bl_rate L))),
      L\<lparr>bl_buckets := (bl_buckets L)(user \<mapsto> snd (bucket_Allow t (NewTokenBucket t (bl_rate L))))\<rparr>)"
  using assms by (simp add: AllowSubmission_def Let_def split_beta)

text \<open>Every token that is taken was there at the start or has been earned since.\<close>

lemma bucket_pays:
  assumes "0 \<le> tb_tokensLeft b" and "0 \<le> tb_refillRate b" and "tb_lastRefresh b \<le> t" and "bucket_Allow t b = (ok, b1)"
  shows "(if ok then 1000000000 else 0) + (tb_tokensLeft b1 * 1000000000 - tb_lastRefresh b1 * tb_refillRate b1)
           \<le> tb_tokensLeft b * 1000000000 - tb_lastRefresh b * tb_refillRate b"
    and "tb_maxTokens b = tb_refillRate b \<Longrightarrow> 0 \<le> tb_tokensLeft b1" and "tb_lastRefresh b1 = t"
    and "tb_refillRate b1 = tb_refillRate b" and "tb_maxTokens b1 = tb_maxTokens b"
proof -
  have "tokensToAdd t b * 1000000000 \<le> (t - tb_lastRefresh b) * tb_refillRate b"
    unfolding tokensToAdd_def by simp
  then have "tokensToAdd t b * 1000000000 \<le> t * tb_refillRate b - tb_lastRefresh b * tb_refillRate b"
    by (simp add: left_diff_distrib)
  then show "(if ok then 1000000000 else 0) + (tb_tokensLeft b1 * 1000000000 - tb_lastRefresh b1 * tb_refillRate b1)
           \<le> tb_tokensLeft b * 1000000000 - tb_lastRefresh b * tb_refillRate b"
    using assms(4) by (auto simp: bucket_Allow_def Let_def min_def split: if_splits)
  have "0 \<le> tokensToAdd t b"
    unfolding tokensToAdd_def using assms(2,3) by (simp add: pos_imp_zdiv_nonneg_iff)
  then show "tb_maxTokens b = tb_refillRate b \<Longrightarrow> 0 \<le> tb_tokensLeft b1"
    using assms(1,2,4) by (auto simp: bucket_Allow_def Let_def min_def split: if_splits)
qed (use assms(4) in \<open>auto simp: bucket_Allow_def Let_def split: if_splits\<close>)

lemma bulk_calls_pay:
  assumes "bl_buckets L user = Some b" and "0 \<le> tb_tokensLeft b" and "tb_refillRate b = R" and "0 \<le> R"
    and "tb_maxTokens b = R" and "sorted (tb_lastRefresh b # ts)" and "\<forall>t\<in>set (tb_lastRefresh b # ts). t \<le> T"
  shows "bulk_calls user (bl_role L) ts L * 1000000000 \<le> tb_tokensLeft b * 1000000000 + (T - tb_lastRefresh b) * R"
  using assms
proof (induction ts arbitrary: L b)
  case Nil
  then show ?case by simp
next
  case (Cons t ts)
  obtain ok b1 where a: "bucket_Allow t b = (ok, b1)" by (cases "bucket_Allow t b") auto
  have t: "tb_lastRefresh b \<le> t" using Cons.prems by simp
  note p = bucket_pays [OF Cons.prems(2) _ t a, unfolded Cons.prems(3), OF Cons.prems(4)]
  let ?L = "L\<lparr>bl_buckets := (bl_buckets L)(user \<mapsto> b1)\<rparr>"
  have "bulk_calls user (bl_role ?L) ts ?L * 1000000000 \<le> tb_tokensLeft b1 * 1000000000 + (T - tb_lastRefresh b1) * R"
    by (rule Cons.IH) (use p Cons.prems in auto)
  then show ?case
    using p(1,3,4) bulk_step [OF Cons.prems(1), of t] a by (auto simp: left_diff_distrib split: if_splits)
qed

text \<open>
  A bulk sender is let through at most as often as one second's worth of messages and what the time between the first and
  the last call has earned.
\<close>
theorem bulk_rate_bound:
  assumes "sorted (t0 # ts)" and "\<forall>t\<in>set (t0 # ts). t \<le> T" and "L = NewBulkSenderLimiter rate role" and "R = bl_rate L"
  shows "bulk_calls user (bl_role L) (t0 # ts) L * 1000000000 \<le> R * 1000000000 + (T - t0) * R"
proof -
  have R: "0 < R" "bl_buckets L user = None" using assms(3,4) by (simp_all add: NewBulkSenderLimiter_def)
  let ?b = "NewTokenBucket t0 R"
  let ?L = "L\<lparr>bl_buckets := (bl_buckets L)(user \<mapsto> ?b)\<rparr>"
  have "bulk_calls user (bl_role ?L) (t0 # ts) ?L * 1000000000
      \<le> tb_tokensLeft ?b * 1000000000 + (T - tb_lastRefresh ?b) * R"
    by (rule bulk_calls_pay) (use R assms(1,2) in \<open>auto simp: NewTokenBucket_def\<close>)
  then show ?thesis
    using bulk_step [of ?L user ?b t0] bulk_new [OF R(2), of t0] assms(4) by (simp add: NewTokenBucket_def)
qed

theorem bulk_rate_bound_witness:
  "bulk_calls ''u'' ''bulk_user'' [0, 1, 500000000, 1000000000] (NewBulkSenderLimiter 2 []) * 1000000000
     \<le> 2 * 1000000000 + (1000000000 - 0) * 2"
  using bulk_rate_bound [of 0 "[1, 500000000, 1000000000]" 1000000000 "NewBulkSenderLimiter 2 []" 2 "[]" 2 "''u''"]
  by (simp add: NewBulkSenderLimiter_def del: bulk_calls.simps)

lemma bulk_calls_small_gaps:
  assumes "bl_buckets L user = Some b" and "0 \<le> tb_tokensLeft b" and "tb_refillRate b = R" and "tb_tokensLeft b \<le> tb_maxTokens b"
    and "successively (\<lambda>s t. s \<le> t \<and> (t - s) * R < 1000000000) (tb_lastRefresh b # ts)" and "0 \<le> R"
  shows "bulk_calls user (bl_role L) ts L \<le> tb_tokensLeft b"
  using assms
proof (induction ts arbitrary: L b)
  case Nil
  then show ?case by simp
next
  case (Cons t ts)
  have "tokensToAdd t b = 0"
    unfolding tokensToAdd_def using Cons.prems by (intro div_pos_pos_trivial) auto
  then have a: "bucket_Allow t b = (0 < tb_tokensLeft b, b\<lparr>tb_lastRefresh := t, tb_tokensLeft := max 0 (tb_tokensLeft b - 1)\<rparr>)"
    using Cons.prems(2,4) by (simp add: bucket_Allow_def Let_def min_def)
  let ?b = "b\<lparr>tb_lastRefresh := t, tb_tokensLeft := max 0 (tb_tokensLeft b - 1)\<rparr>"
  let ?L = "L\<lparr>bl_buckets := (bl_buckets L)(user \<mapsto> ?b)\<rparr>"
  have "bulk_calls user (bl_role ?L) ts ?L \<le> tb_tokensLeft ?b"
    by (rule Cons.IH) (use Cons.prems in auto)
  then show ?case using bulk_step [OF Cons.prems(1), of t] a Cons.prems(2) by auto
qed

text \<open>
  Each call adds whole tokens only, and forgets the time since the last call even when it adds none. A bulk sender whose
  calls are less than one token apart is let through for one second's worth of messages and never again, however long it
  goes on: it does not get the rate that is configured.
\<close>
theorem bulk_refill_is_lost:
  assumes "L = NewBulkSenderLimiter rate role" and "R = bl_rate L"
    and "successively (\<lambda>s t. s \<le> t \<and> (t - s) * R < 1000000000) (t0 # ts)"
  shows "bulk_calls user (bl_role L) (t0 # ts) L \<le> R"
proof -
  have R: "0 < R" "bl_buckets L user = None" using assms(1,2) by (simp_all add: NewBulkSenderLimiter_def)
  let ?b = "NewTokenBucket t0 R"
  let ?L = "L\<lparr>bl_buckets := (bl_buckets L)(user \<mapsto> ?b)\<rparr>"
  have "bulk_calls user (bl_role ?L) (t0 # ts) ?L \<le> tb_tokensLeft ?b"
    by (rule bulk_calls_small_gaps [where R = R]) (use R assms(3) in \<open>auto simp: NewTokenBucket_def\<close>)
  then show ?thesis
    using bulk_step [of ?L user ?b t0] bulk_new [OF R(2), of t0] assms(2) by (simp add: NewTokenBucket_def)
qed

theorem bulk_refill_is_lost_witness:
  "bulk_calls ''u'' ''bulk_user'' [0, 400000000, 800000000, 1200000000, 1600000000] (NewBulkSenderLimiter 2 []) \<le> 2"
  using bulk_refill_is_lost [of "NewBulkSenderLimiter 2 []" 2 "[]" 2 0 "[400000000, 800000000, 1200000000, 1600000000]" "''u''"]
  by (simp add: NewBulkSenderLimiter_def del: bulk_calls.simps)

end
