(* ===== verification/DsnText.thy ===== *)
theory DsnText
  imports DeliveryJob
begin

text \<open>
  The text of a delivery status notification: \<open>internal/dsn/dsn.go\<close>. A buffer is the string that has been written to it.
  \<open>qenc\<close> is the encoding of words of package mime, \<open>fmt\<close> the RFC 1123 form of a time, \<open>quote\<close> the text of \<open>%q\<close>, and
  \<open>gen_id\<close> the message id that \<open>outbound.GenerateMessageID\<close> makes for a domain. The lemmas are about lines: no value that is
  written to a header begins a line of its own, and no line is longer than what RFC 5322 allows.
\<close>

section \<open>Values\<close>

definition sanitizeDSNValue :: "string \<Rightarrow> string" where
  "sanitizeDSNValue value =
     go_Join (go_Fields (map (\<lambda>c. if c \<in> {CHR 0x0D, CHR 0x0A} then CHR '' '' else c) value)) '' ''"

definition no_blanks :: "string \<Rightarrow> string" where
  "no_blanks s = filter (\<lambda>c. c \<noteq> CHR '' '') s"

definition sanitizeMessageIDValue :: "string \<Rightarrow> string" where
  "sanitizeMessageIDValue messageID0 =
     (let messageID = go_TrimSpace (no_blanks (sanitizeDSNValue messageID0)) in
      if messageID = [] then ''dsn@localhost'' else messageID)"

definition ensureMessageID :: "string \<Rightarrow> string" where
  "ensureMessageID messageID0 =
     (let m1 = sanitizeMessageIDValue messageID0;
          m2 = (if prefix ''<'' m1 then m1 else ''<'' @ m1)
      in if suffix ''>'' m2 then m2 else m2 @ ''>'')"

definition sanitizeAddressEmail :: "string \<Rightarrow> string" where
  "sanitizeAddressEmail email0 =
     (let email = go_Trim (no_blanks (sanitizeDSNValue email0)) ''<>'' in
      if email = [] then ''postmaster@localhost'' else email)"

definition formatAddress :: "(string \<Rightarrow> string) \<Rightarrow> address \<Rightarrow> string" where
  "formatAddress qenc addr =
     (let nm = go_TrimSpace (Name addr); email = sanitizeAddressEmail (Email addr) in
      if nm = [] then ''<'' @ email @ ''>'' else qenc nm @ '' <'' @ email @ ''>'')"

definition dsn_domainFromAddress :: "string \<Rightarrow> string" where
  "dsn_domainFromAddress address =
     (case go_Cut ''@'' (go_TrimSpace address) of
        None \<Rightarrow> ''localhost'' | Some (_, domain) \<Rightarrow> if domain = [] then ''localhost'' else domain)"

text \<open>What the sanitizers of tokens keep; a run of other bytes, and so of other characters, becomes one dash.\<close>

definition token_char :: "bool \<Rightarrow> char \<Rightarrow> bool" where
  "token_char at c \<longleftrightarrow> is_lower c \<or> is_upper c \<or> is_digit c \<or> c \<in> set ''-_.'' \<or> at \<and> c = CHR ''@''"

fun token_loop :: "bool \<Rightarrow> bool \<Rightarrow> string \<Rightarrow> string" where
  "token_loop at lastDash [] = []"
| "token_loop at lastDash (c # s) =
     (if token_char at c then c # token_loop at False s
      else if lastDash then token_loop at True s
      else CHR ''-'' # token_loop at True s)"

definition short_token :: "string \<Rightarrow> string \<Rightarrow> string" where
  "short_token fallback s =
     (let out = go_Trim s ''-.'' in
      if out = [] then fallback
      else if 52 < length out then
        (let cut = go_TrimRight (take 52 out) ''-.'' in if cut = [] then fallback else cut)
      else out)"

definition sanitizeBoundaryToken :: "string \<Rightarrow> string" where
  "sanitizeBoundaryToken value0 =
     (let value = sanitizeDSNValue value0 in
      if value = [] then ''boundary'' else short_token ''boundary'' (token_loop True False value))"

definition sanitizeMessageIDLocal :: "string \<Rightarrow> string" where
  "sanitizeMessageIDLocal value = short_token ''dsn'' (token_loop False False (sanitizeDSNValue value))"

section \<open>Header lines\<close>

definition maxHeaderLineBytes :: int where "maxHeaderLineBytes = 998"

definition blank :: "char \<Rightarrow> bool" where
  "blank c \<longleftrightarrow> c \<in> {CHR '' '', CHR 0x09}"

text \<open>\<open>strings.LastIndexAny\<close> with the two blanks, as a position.\<close>

fun last_blank :: "string \<Rightarrow> nat option" where
  "last_blank [] = None"
| "last_blank (c # s) =
     (case last_blank s of Some i \<Rightarrow> Some (Suc i) | None \<Rightarrow> if blank c then Some 0 else None)"

fun valid_cut :: "string \<Rightarrow> nat \<Rightarrow> nat" where
  "valid_cut value 0 = 0"
| "valid_cut value (Suc n) = (if utf8_valid (take (Suc n) value) then Suc n else valid_cut value n)"

definition splitHeaderValue :: "string \<Rightarrow> int \<Rightarrow> string \<times> string" where
  "splitHeaderValue value maxBytes =
     (if maxBytes \<le> 0 \<or> int (length value) \<le> maxBytes then (value, [])
      else case (case last_blank (take (nat maxBytes) value) of Some i \<Rightarrow> if 0 < i then Some i else None | None \<Rightarrow> None) of
        Some i \<Rightarrow> (take i value, dropWhile blank (drop i value))
      | None \<Rightarrow>
          (let cut0 = valid_cut value (nat maxBytes);
               cut = (if cut0 = 0 then max 1 (rune_len value) else cut0)
           in (take cut value, drop cut value)))"

text \<open>The chunks of a value; \<open>next\<close> is the length that is allowed after the first.\<close>

lemma last_blank_less: "last_blank s = Some i \<Longrightarrow> i < length s"
  by (induction s arbitrary: i) (auto split: option.splits if_splits)

lemma splitHeaderValue_parts:
  assumes "value \<noteq> []" and "splitHeaderValue value maxBytes = (chunk, rest)"
  shows "chunk \<noteq> [] \<and> length rest < length value \<and> set chunk \<union> set rest \<subseteq> set value \<and>
    (4 \<le> maxBytes \<longrightarrow> int (length chunk) \<le> maxBytes)"
proof -
  have dw: "length (dropWhile blank (drop i value)) \<le> length value - i" for i
    using length_dropWhile_le [of blank "drop i value"] by simp
  have s: "set (dropWhile blank (drop i value)) \<subseteq> set value" for i
    by (meson set_dropWhileD set_drop_subset subset_iff)
  have v: "valid_cut value n \<le> n" for n by (induction n) auto
  have l: "last_blank (take (nat maxBytes) value) = Some i \<Longrightarrow> i < length value \<and> int i < maxBytes" for i
    using last_blank_less by fastforce
  show ?thesis
  proof (cases "maxBytes \<le> 0 \<or> int (length value) \<le> maxBytes")
    case True
    then show ?thesis using assms by (auto simp: splitHeaderValue_def)
  next
    case False
    show ?thesis
    proof (cases "\<exists>i. last_blank (take (nat maxBytes) value) = Some i \<and> 0 < i")
      case True
      then obtain i where i: "last_blank (take (nat maxBytes) value) = Some i" "0 < i" by blast
      then have c: "chunk = take i value" and r: "rest = dropWhile blank (drop i value)"
        using assms(2) False by (auto simp: splitHeaderValue_def)
      have "length value - i < length value" by (rule diff_less) (use l [OF i(1)] i(2) in auto)
      then have "length rest < length value" unfolding r by (rule le_less_trans [OF dw])
      then show ?thesis using assms(1) i(2) s [of i] set_take_subset [of i "value"] l [OF i(1)] c r by auto
    next
      case none: False
      define cut where "cut = (if valid_cut value (nat maxBytes) = 0 then max 1 (rune_len value) else valid_cut value (nat maxBytes))"
      have "chunk = take cut value" "rest = drop cut value"
        using assms(2) False none by (auto simp: splitHeaderValue_def cut_def Let_def split: option.splits if_splits)
      moreover have "0 < cut" "4 \<le> maxBytes \<longrightarrow> int cut \<le> maxBytes"
        using v [of "nat maxBytes"] rune_len_le_4 [of "value"] False by (auto simp: cut_def)
      ultimately show ?thesis using assms(1) set_take_subset [of cut "value"] set_drop_subset [of cut "value"] by auto
    qed
  qed
qed

function header_chunks :: "string \<Rightarrow> int \<Rightarrow> string list" where
  "header_chunks value room =
     (if value = [] then []
      else case splitHeaderValue value room of (chunk, rest) \<Rightarrow> chunk # header_chunks rest (maxHeaderLineBytes - 1))"
  by pat_completeness auto
termination
  by (relation "measure (\<lambda>(value, room). length value)") (auto dest: splitHeaderValue_parts [OF _ sym])

declare header_chunks.simps [simp del]

definition CRLF_text :: string where "CRLF_text = [CHR 0x0D, CHR 0x0A]"

definition one_line :: "string \<Rightarrow> string" where
  "one_line value = filter (\<lambda>c. c \<notin> {CHR 0x0D, CHR 0x0A}) value"

definition writeHeader :: "string \<Rightarrow> string \<Rightarrow> string" where
  "writeHeader key value0 =
     (let value = one_line value0; prefix0 = key @ '': '' in
      if int (length prefix0 + length value) \<le> maxHeaderLineBytes then prefix0 @ value @ CRLF_text
      else prefix0 @ go_Join (header_chunks value (maxHeaderLineBytes - int (length prefix0))) (CRLF_text @ '' '') @ CRLF_text)"

definition writeDSNField :: "string \<Rightarrow> string \<Rightarrow> string" where
  "writeDSNField key value = writeHeader key value"

section \<open>Checks\<close>

definition isHeaderFieldNameChar :: "char \<Rightarrow> bool" where
  "isHeaderFieldNameChar c \<longleftrightarrow> is_lower c \<or> is_upper c \<or> is_digit c \<or>
     byte_val c \<in> {33, 35, 36, 37, 38, 39, 42, 43, 45, 47, 61, 63, 94, 95, 96, 123, 124, 125, 126}"

definition validHeaderFieldName :: "string \<Rightarrow> bool" where
  "validHeaderFieldName name \<longleftrightarrow> name \<noteq> [] \<and> list_all isHeaderFieldNameChar name"

definition validRecipientAddressType :: "string \<Rightarrow> bool" where
  "validRecipientAddressType v \<longleftrightarrow> v \<noteq> [] \<and> list_all (\<lambda>c. is_lower c \<or> is_upper c \<or> is_digit c \<or> c = CHR ''-'') v"

definition sanitizeRecipientAddressType :: "string \<Rightarrow> string res" where
  "sanitizeRecipientAddressType value0 =
     (let value = sanitizeDSNValue value0 in
      case go_Cut '';'' value of
        Some (addressType0, address0) \<Rightarrow>
          (let addressType = go_TrimSpace addressType0; address = go_TrimSpace address0 in
           if \<not> validRecipientAddressType addressType \<or> address = []
           then Inl ''recipient address must use address-type; address''
           else Inr (go_ToLower addressType @ ''; '' @ address))
      | None \<Rightarrow> Inr (''rfc822; '' @ go_ToLower (go_TrimSpace value)))"

definition validDSNAction :: "string \<Rightarrow> bool" where
  "validDSNAction action \<longleftrightarrow> action \<in> {''failed'', ''delayed'', ''delivered'', ''relayed'', ''expanded''}"

definition validEnhancedStatus :: "string \<Rightarrow> bool" where
  "validEnhancedStatus status =
     (let parts = go_Split1 (CHR ''.'') status in
      if length parts \<noteq> 3 then False
      else if length (parts ! 0) \<noteq> 1 then False
      else if go_Atoi (parts ! 0) \<notin> {Some 2, Some 4, Some 5} then False
      else list_all (\<lambda>part. part \<noteq> [] \<and> length part \<le> 3 \<and> list_all is_digit part) (tl parts))"

definition defaultEnhancedStatusForAction :: "string \<Rightarrow> string" where
  "defaultEnhancedStatusForAction action =
     (if action \<in> {''delivered'', ''relayed'', ''expanded''} then ''2.0.0''
      else if action = ''delayed'' then ''4.0.0'' else ''5.0.0'')"

definition dsnStatusMatchesAction :: "string \<Rightarrow> string \<Rightarrow> bool" where
  "dsnStatusMatchesAction action status =
     (if status = [] then False
      else if action \<in> {''delivered'', ''relayed'', ''expanded''} then status ! 0 = CHR ''2''
      else if action = ''delayed'' then status ! 0 = CHR ''4''
      else if action = ''failed'' then status ! 0 = CHR ''4'' \<or> status ! 0 = CHR ''5''
      else status ! 0 = CHR ''5'')"

section \<open>The report\<close>

record recipient_status =
  rp_Recipient :: string
  rp_OriginalRecipient :: string
  rp_Action :: string
  rp_Status :: string
  rp_Diagnostic :: string
  rp_RemoteMTA :: string
  rp_FinalLogID :: string
  rp_LastAttemptAt :: "int option"

record dsn_report =
  dn_ReportingMTA :: string
  dn_OriginalID :: string
  dn_From :: address
  dn_To :: address
  dn_Subject :: string
  dn_MessageID :: string
  dn_Date :: "int option"
  dn_Recipients :: "recipient_status list"
  dn_OriginalHeaders :: "(string \<times> string) list"
  dn_OriginalMessage :: string

record composed_message =
  cm_Raw :: string
  cm_MessageID :: string
  cm_Size :: int

record text_env =
  tx_qenc :: "string \<Rightarrow> string"
  tx_fmt :: "int \<Rightarrow> string"
  tx_quote :: "string \<Rightarrow> string"
  tx_gen_id :: "string \<Rightarrow> string"

definition writeRecipientStatus :: "text_env \<Rightarrow> recipient_status \<Rightarrow> string res" where
  "writeRecipientStatus T s =
     (let action0 = go_ToLower (go_TrimSpace (rp_Action s));
          action = (if action0 = [] then ''failed'' else action0);
          status0 = go_TrimSpace (rp_Status s);
          dsnStatus = (if status0 = [] then defaultEnhancedStatusForAction action else status0)
      in if go_TrimSpace (rp_Recipient s) = [] then Inl ''dsn recipient is required''
         else if \<not> validDSNAction action then Inl (''invalid dsn action '' @ tx_quote T (rp_Action s))
         else if \<not> validEnhancedStatus dsnStatus then Inl (''invalid dsn status '' @ tx_quote T (rp_Status s))
         else if \<not> dsnStatusMatchesAction action dsnStatus
         then Inl (''dsn status '' @ tx_quote T dsnStatus @ '' does not match action '' @ tx_quote T action)
         else case (if rp_OriginalRecipient s = [] then Inr []
                    else case sanitizeRecipientAddressType (rp_OriginalRecipient s) of
                      Inl e \<Rightarrow> Inl (''invalid original recipient: '' @ e)
                    | Inr r \<Rightarrow> Inr (writeDSNField ''Original-Recipient'' r)) of
           Inl e \<Rightarrow> Inl e
         | Inr original \<Rightarrow>
         (case sanitizeRecipientAddressType (rp_Recipient s) of
           Inl e \<Rightarrow> Inl (''invalid final recipient: '' @ e)
         | Inr final \<Rightarrow>
           Inr (original @ writeDSNField ''Final-Recipient'' final @ writeDSNField ''Action'' action @
             writeDSNField ''Status'' dsnStatus @
             (if rp_RemoteMTA s = [] then [] else writeDSNField ''Remote-MTA'' (''dns; '' @ sanitizeDSNValue (rp_RemoteMTA s))) @
             (if rp_Diagnostic s = [] then [] else writeDSNField ''Diagnostic-Code'' (''smtp; '' @ sanitizeDSNValue (rp_Diagnostic s))) @
             (case rp_LastAttemptAt s of None \<Rightarrow> [] | Some t \<Rightarrow> writeDSNField ''Last-Attempt-Date'' (tx_fmt T t)) @
             (if rp_FinalLogID s = [] then [] else writeDSNField ''Final-Log-ID'' (sanitizeDSNValue (rp_FinalLogID s))))))"

fun recipient_statuses :: "text_env \<Rightarrow> recipient_status list \<Rightarrow> string list res" where
  "recipient_statuses T [] = Inr []"
| "recipient_statuses T (s # ss) =
     (case writeRecipientStatus T s of Inl e \<Rightarrow> Inl e
      | Inr x \<Rightarrow> (case recipient_statuses T ss of Inl e \<Rightarrow> Inl e | Inr xs \<Rightarrow> Inr (x # xs)))"

definition writeOriginalHeader :: "text_env \<Rightarrow> string \<times> string \<Rightarrow> string res" where
  "writeOriginalHeader T header =
     (let name = go_TrimSpace (fst header) in
      if \<not> validHeaderFieldName name then Inl (''invalid original header field name '' @ tx_quote T (fst header))
      else Inr (writeHeader name (sanitizeDSNValue (snd header))))"

fun original_headers :: "text_env \<Rightarrow> (string \<times> string) list \<Rightarrow> string res" where
  "original_headers T [] = Inr []"
| "original_headers T (h # hs) =
     (case writeOriginalHeader T h of Inl e \<Rightarrow> Inl e
      | Inr x \<Rightarrow> (case original_headers T hs of Inl e \<Rightarrow> Inl e | Inr xs \<Rightarrow> Inr (x @ xs)))"

text \<open>The header of the whole message, and the parts after it.\<close>

definition report_headers :: "text_env \<Rightarrow> dsn_report \<Rightarrow> int \<Rightarrow> string \<Rightarrow> string" where
  "report_headers T R date boundary =
     writeHeader ''From'' (formatAddress (tx_qenc T) (dn_From R)) @
     writeHeader ''To'' (formatAddress (tx_qenc T) (dn_To R)) @
     writeHeader ''Subject'' (tx_qenc T (dn_Subject R)) @
     writeHeader ''Date'' (tx_fmt T date) @
     writeHeader ''Message-ID'' (ensureMessageID (dn_MessageID R)) @
     writeHeader ''Auto-Submitted'' ''auto-replied'' @
     writeHeader ''MIME-Version'' ''1.0'' @
     writeHeader ''Content-Type'' (''multipart/report; report-type=delivery-status; boundary='' @ [CHR 0x22] @ boundary @ [CHR 0x22])"

definition part_head :: "string \<Rightarrow> string \<Rightarrow> string" where
  "part_head boundary ctype = ''--'' @ boundary @ CRLF_text @ ''Content-Type: '' @ ctype @ CRLF_text @ CRLF_text"

definition Compose :: "text_env \<Rightarrow> int \<Rightarrow> dsn_report \<Rightarrow> composed_message res" where
  "Compose T now R0 =
     (if go_TrimSpace (dn_ReportingMTA R0) = [] then Inl ''reporting MTA is required''
      else if dn_Recipients R0 = [] then Inl ''at least one DSN recipient status is required''
      else
       (let date = (case dn_Date R0 of None \<Rightarrow> now | Some d \<Rightarrow> d);
            R = R0\<lparr>dn_Subject := (if go_TrimSpace (dn_Subject R0) = [] then ''Delivery Status Notification'' else dn_Subject R0),
                   dn_MessageID := (if go_TrimSpace (dn_MessageID R0) = []
                     then tx_gen_id T (dsn_domainFromAddress (Email (dn_From R0))) else dn_MessageID R0)\<rparr>;
            boundary = ''gogomail-dsn-'' @ sanitizeBoundaryToken (go_Trim (dn_MessageID R) ''<>'')
        in case recipient_statuses T (dn_Recipients R) of
          Inl e \<Rightarrow> Inl e
        | Inr statuses \<Rightarrow>
        (case (if dn_OriginalHeaders R = [] then Inr []
               else case original_headers T (dn_OriginalHeaders R) of
                 Inl e \<Rightarrow> Inl e | Inr hs \<Rightarrow> Inr (part_head boundary ''text/rfc822-headers'' @ hs @ CRLF_text)) of
          Inl e \<Rightarrow> Inl e
        | Inr headers \<Rightarrow>
         (let raw = report_headers T R date boundary @ CRLF_text @
              part_head boundary ''text/plain; charset=utf-8'' @
              ''This is an automatically generated Delivery Status Notification.'' @ CRLF_text @ CRLF_text @
              part_head boundary ''message/delivery-status'' @
              writeDSNField ''Reporting-MTA'' (''dns; '' @ sanitizeDSNValue (dn_ReportingMTA R)) @
              (if dn_OriginalID R = [] then [] else writeDSNField ''Original-Envelope-Id'' (sanitizeDSNValue (dn_OriginalID R))) @
              CRLF_text @ go_Join statuses CRLF_text @ headers @
              (if dn_OriginalMessage R = [] then []
               else part_head boundary ''message/rfc822'' @ dn_OriginalMessage R @
                 (if suffix CRLF_text (dn_OriginalMessage R) then [] else CRLF_text)) @
              ''--'' @ boundary @ ''--'' @ CRLF_text
          in Inr \<lparr>cm_Raw = raw, cm_MessageID = ensureMessageID (dn_MessageID R), cm_Size = int (length raw)\<rparr>))))"

section \<open>The lines of a header\<close>

abbreviation visible :: "string \<Rightarrow> string" where
  "visible s \<equiv> filter (\<lambda>c. \<not> blank c) s"

lemma visible_dropWhile: "visible (dropWhile blank s) = visible s"
  by (induction s) auto

lemma visible_split:
  assumes "splitHeaderValue v room = (chunk, rest)"
  shows "visible chunk @ visible rest = visible v"
proof -
  have "visible (take i v) @ visible (drop i v) = visible v" for i
    by (simp flip: filter_append)
  then show ?thesis using assms
    by (auto simp: splitHeaderValue_def Let_def visible_dropWhile split: if_splits option.splits)
qed

lemma header_chunks_lines:
  "4 \<le> room \<Longrightarrow> visible (concat (header_chunks v room)) = visible v \<and>
     (\<forall>c\<in>set (header_chunks v room). set c \<subseteq> set v \<and> int (length c) \<le> max room 997) \<and>
     (case header_chunks v room of [] \<Rightarrow> v = [] | c # cs \<Rightarrow> int (length c) \<le> room \<and> (\<forall>d\<in>set cs. length d \<le> 997))"
proof (induction v room rule: header_chunks.induct)
  case (1 v room)
  show ?case
  proof (cases "v = []")
    case True
    then show ?thesis by (simp add: header_chunks.simps)
  next
    case False
    obtain c r where s: "splitHeaderValue v room = (c, r)" by (cases "splitHeaderValue v room")
    note parts = splitHeaderValue_parts [OF False s]
    have h: "header_chunks v room = c # header_chunks r 997"
      using False s by (simp add: header_chunks.simps [of v] maxHeaderLineBytes_def)
    have ih: "visible (concat (header_chunks r 997)) = visible r \<and>
        (\<forall>d\<in>set (header_chunks r 997). set d \<subseteq> set r \<and> int (length d) \<le> max 997 997)"
      using "1.IH" [OF False s [symmetric]] by (simp add: maxHeaderLineBytes_def)
    have "visible (concat (header_chunks v room)) = visible v"
      using ih visible_split [OF s] by (simp add: h)
    moreover have "set d \<subseteq> set v \<and> length d \<le> 997" if "d \<in> set (header_chunks r 997)" for d
      using ih that parts by fastforce
    moreover have "int (length c) \<le> room" "set c \<subseteq> set v" using parts "1.prems" by auto
    ultimately show ?thesis by (auto simp: h le_max_iff_disj)
  qed
qed

text \<open>
  C38. A header field cannot be broken out of. Whatever value is written under a name of ordinary length, the text is a
  sequence of lines joined by a line break and a blank and closed by a line break, so that every line after the first
  continues the field; no line has a line break inside or is longer than 998 bytes; and apart from blanks the lines are the
  name and the whole value without its line breaks.
\<close>

theorem header_field_is_folded:
  assumes "length key \<le> 992" and "\<not> go_ContainsAny key CRLF_text"
  shows "\<exists>l ls. writeHeader key v = go_Join (l # ls) (CRLF_text @ '' '') @ CRLF_text \<and> prefix (key @ '': '') l \<and>
    list_all (\<lambda>x. \<not> go_ContainsAny x CRLF_text \<and> length x \<le> 998) (l # ls) \<and>
    visible (concat (l # ls)) = visible (key @ '': '' @ one_line v)"
proof (cases "int (length (key @ '': '') + length (one_line v)) \<le> maxHeaderLineBytes")
  case True
  have "\<not> go_ContainsAny (key @ '': '' @ one_line v) CRLF_text"
    using assms(2) by (auto simp: go_ContainsAny_iff CRLF_text_def one_line_def)
  with True show ?thesis
    by (intro exI [of _ "key @ '': '' @ one_line v"] exI [of _ "[]"])
      (auto simp: writeHeader_def Let_def maxHeaderLineBytes_def)
next
  case False
  let ?room = "maxHeaderLineBytes - int (length (key @ '': ''))"
  have room: "4 \<le> ?room" "?room \<le> 996" using assms(1) by (simp_all add: maxHeaderLineBytes_def)
  note lines = header_chunks_lines [OF room(1), of "one_line v"]
  have "one_line v \<noteq> []" using False assms(1) by (auto simp: maxHeaderLineBytes_def)
  then obtain c cs where h: "header_chunks (one_line v) ?room = c # cs"
    using lines by (cases "header_chunks (one_line v) ?room") auto
  have clean: "set d \<inter> set CRLF_text = {}" if "d \<in> set (c # cs)" for d
  proof -
    have "set d \<subseteq> set (one_line v)" using lines that unfolding h by blast
    then show ?thesis by (auto simp: one_line_def CRLF_text_def)
  qed
  have "int (length c) \<le> ?room" "\<forall>d\<in>set cs. length d \<le> 997" using lines unfolding h by simp_all
  then have "list_all (\<lambda>x. \<not> go_ContainsAny x CRLF_text \<and> length x \<le> 998) ((key @ '': '' @ c) # cs)"
    using assms(2) clean by (auto simp: list_all_iff go_ContainsAny_iff maxHeaderLineBytes_def CRLF_text_def)
  moreover have "writeHeader key v = go_Join ((key @ '': '' @ c) # cs) (CRLF_text @ '' '') @ CRLF_text"
    using False h by (cases cs) (simp_all add: writeHeader_def Let_def)
  moreover have "visible (concat ((key @ '': '' @ c) # cs)) = visible (key @ '': '' @ one_line v)"
    using lines unfolding h by simp
  ultimately show ?thesis by (intro exI [of _ "key @ '': '' @ c"] exI [of _ cs]) auto
qed

theorem header_field_is_folded_witness:
  "\<exists>l ls. writeHeader ''Diagnostic-Code'' (''smtp; '' @ replicate 2000 (CHR ''x'') @ CRLF_text @ ''Bcc: a@x.org'') =
      go_Join (l # ls) (CRLF_text @ '' '') @ CRLF_text \<and> list_all (\<lambda>x. length x \<le> 998) (l # ls)"
proof -
  have "length ''Diagnostic-Code'' \<le> 992" "\<not> go_ContainsAny ''Diagnostic-Code'' CRLF_text" by code_simp+
  from header_field_is_folded [OF this, of "''smtp; '' @ replicate 2000 (CHR ''x'') @ CRLF_text @ ''Bcc: a@x.org''"]
  show ?thesis by (auto simp: list_all_iff)
qed

end
