(* ===== verification/BounceHandler.thy ===== *)
theory BounceHandler
  imports DsnText DeliveryRecorder
begin

text \<open>
  What becomes of a failure: \<open>internal/dsn/handler.go\<close>. The recorder of attempts (\<open>DeliveryRecorder\<close>) writes an event for a
  bounce and for an exhausted message; the handler reads it, composes a notification (\<open>DsnText\<close>), stores it, and queues
  it as a message to the sender. A payload is the JSON object that the recorder has written, or the error of the decoder;
  its keys are matched exactly. The store, the queue, the clock, the parsers of addresses and messages and the formats
  are the fields of the handler; \<open>bs_calls\<close> is the history of what it called.
\<close>

section \<open>Events\<close>

record bounce_event =
  be_Event :: string
  be_MessageID :: string
  be_RFCMessageID :: string
  be_CompanyID :: string
  be_DomainID :: string
  be_Sender :: string
  be_Recipient :: string
  be_RecipientDomain :: string
  be_EnhancedStatus :: string
  be_ErrorMessage :: string
  be_AttemptedAt :: "int option"
  be_StoragePath :: string
  be_Return :: string
  be_EnvelopeID :: string
  be_Notify :: "string list"
  be_OriginalRecipient :: string

text \<open>Fields of an object: absent ones are the zero value, ones of another type an error.\<close>

definition type_error :: string where "type_error = ''json: cannot unmarshal value''"

definition jtext :: "jobject \<Rightarrow> string \<Rightarrow> string res" where
  "jtext ob k = (case map_of ob k of None \<Rightarrow> Inr [] | Some (JText s) \<Rightarrow> Inr s | Some _ \<Rightarrow> Inl type_error)"

definition jtime :: "jobject \<Rightarrow> string \<Rightarrow> int option res" where
  "jtime ob k = (case map_of ob k of None \<Rightarrow> Inr None | Some (JTime t) \<Rightarrow> Inr (Some t) | Some _ \<Rightarrow> Inl type_error)"

definition jtexts :: "jobject \<Rightarrow> string \<Rightarrow> string list res" where
  "jtexts ob k = (case map_of ob k of None \<Rightarrow> Inr [] | Some (JTexts ss) \<Rightarrow> Inr ss | Some _ \<Rightarrow> Inl type_error)"

definition jmap :: "jobject \<Rightarrow> string \<Rightarrow> jobject res" where
  "jmap ob k = (case map_of ob k of None \<Rightarrow> Inr [] | Some (JMap m) \<Rightarrow> Inr m | Some _ \<Rightarrow> Inl type_error)"

definition jmaps :: "jobject \<Rightarrow> string \<Rightarrow> jobject list res" where
  "jmaps ob k = (case map_of ob k of None \<Rightarrow> Inr [] | Some (JMaps ms) \<Rightarrow> Inr ms | Some _ \<Rightarrow> Inl type_error)"

text \<open>A chain of steps that stops at the first error.\<close>

definition next_step :: "'a res \<Rightarrow> ('a \<Rightarrow> 'b res) \<Rightarrow> 'b res" where
  "next_step r f = (case r of Inl e \<Rightarrow> Inl e | Inr a \<Rightarrow> f a)"

lemma next_step_simps [simp]: "next_step (Inr a) f = f a" "next_step (Inl e) f = Inl e"
  by (simp_all add: next_step_def)

definition unmarshal_bounce :: "jobject \<Rightarrow> bounce_event res" where
  "unmarshal_bounce ob =
     next_step (jtext ob ''event'') (\<lambda>event. next_step (jtext ob ''message_id'') (\<lambda>mid.
     next_step (jtext ob ''rfc_message_id'') (\<lambda>rfc. next_step (jtext ob ''company_id'') (\<lambda>company.
     next_step (jtext ob ''domain_id'') (\<lambda>domain. next_step (jtext ob ''sender'') (\<lambda>sender.
     next_step (jtext ob ''recipient'') (\<lambda>recipient. next_step (jtext ob ''recipient_domain'') (\<lambda>rdomain.
     next_step (jtext ob ''enhanced_status'') (\<lambda>status. next_step (jtext ob ''error_message'') (\<lambda>message.
     next_step (jtime ob ''attempted_at'') (\<lambda>attempted. next_step (jtext ob ''storage_path'') (\<lambda>path.
     next_step (jmap ob ''dsn'') (\<lambda>dsn. next_step (jtext dsn ''return'') (\<lambda>ret.
     next_step (jtext dsn ''envelope_id'') (\<lambda>envid. next_step (jtexts dsn ''notify'') (\<lambda>notify.
     next_step (jtext dsn ''original_recipient'') (\<lambda>orcpt.
       Inr \<lparr>be_Event = event, be_MessageID = mid, be_RFCMessageID = rfc, be_CompanyID = company, be_DomainID = domain,
         be_Sender = sender, be_Recipient = recipient, be_RecipientDomain = rdomain, be_EnhancedStatus = status,
         be_ErrorMessage = message, be_AttemptedAt = attempted, be_StoragePath = path, be_Return = ret, be_EnvelopeID = envid,
         be_Notify = notify, be_OriginalRecipient = orcpt\<rparr>)))))))))))))))))"

section \<open>Checks\<close>

definition validBounceStoragePath :: "string \<Rightarrow> bool" where
  "validBounceStoragePath value0 =
     (let v = go_TrimSpace value0 in
      if v = [] \<or> 1024 < length v \<or> go_ContainsAny v [CHR 0x0D, CHR 0x0A, CHR 0x5C] then False
      else if prefix ''/'' v \<or> path_Clean v \<noteq> v \<or> prefix ''../'' v \<or> go_Contains v ''/../'' then False
      else if go_Contains v ''//'' \<or> \<not> suffix ''.eml'' (go_ToLower v) then False
      else list_all (\<lambda>segment. segment \<notin> {[], ''.'', ''..''}) (go_Split1 (CHR ''/'') v))"

text \<open>The loop over xtext is that of the delivery worker.\<close>

definition validBounceDSNXText :: "string \<Rightarrow> bool" where
  "validBounceDSNXText v = validQueuedDSNXText v"

definition validBounceDSNEnvelopeID :: "string \<Rightarrow> bool" where
  "validBounceDSNEnvelopeID value0 =
     (let v = go_TrimSpace value0 in if v = [] \<or> 100 < length v then False else validBounceDSNXText v)"

definition validBounceDSNOriginalRecipient :: "string \<Rightarrow> bool" where
  "validBounceDSNOriginalRecipient v =
     (case go_Cut '';'' (go_TrimSpace v) of None \<Rightarrow> False
      | Some (addrType, encodedAddress) \<Rightarrow>
          if addrType = [] \<or> encodedAddress = [] then False
          else if \<not> list_all (\<lambda>c. is_lower c \<or> is_upper c \<or> is_digit c \<or> c = CHR ''-'') addrType then False
          else validBounceDSNXText encodedAddress)"

definition failureEventStatusMatchesAction :: "string \<Rightarrow> string \<Rightarrow> bool" where
  "failureEventStatusMatchesAction event status =
     (if event = ''mail.delivery_exhausted'' then dsnStatusMatchesAction ''failed'' status else status ! 0 = CHR ''5'')"

fun bounce_notify_loop :: "(string \<Rightarrow> string) \<Rightarrow> string set \<Rightarrow> bool \<Rightarrow> string list \<Rightarrow> (string list \<times> bool) res" where
  "bounce_notify_loop quote seen hasNever [] = Inr ([], hasNever)"
| "bounce_notify_loop quote seen hasNever (v0 # vs) =
     (let v = go_ToUpper (go_TrimSpace v0) in
      if v = [] then bounce_notify_loop quote seen hasNever vs
      else if v \<notin> {''NEVER'', ''SUCCESS'', ''FAILURE'', ''DELAY''} then Inl (''bounce event has invalid dsn notify '' @ quote v)
      else let hasNever1 = (hasNever \<or> v = ''NEVER'') in
        if v \<in> seen then bounce_notify_loop quote seen hasNever1 vs
        else next_step (bounce_notify_loop quote (insert v seen) hasNever1 vs) (\<lambda>(ns, b). Inr (v # ns, b)))"

definition normalizeBounceNotify :: "(string \<Rightarrow> string) \<Rightarrow> string list \<Rightarrow> string list res" where
  "normalizeBounceNotify quote vs =
     next_step (bounce_notify_loop quote {} False vs) (\<lambda>(ns, hasNever).
       if hasNever \<and> 1 < length ns then Inl ''bounce event has invalid dsn notify: NEVER cannot be combined'' else Inr ns)"

definition no_error :: "bool \<Rightarrow> string \<Rightarrow> unit res" where
  "no_error ok e = (if ok then Inr () else Inl e)"

lemma no_error_simps [simp]: "no_error True e = Inr ()" "no_error False e = Inl e"
  by (simp_all add: no_error_def)

text \<open>The checks of \<open>normalizeBounceEvent\<close> before and after the addresses are normalised.\<close>

definition trim_event :: "bounce_event \<Rightarrow> bounce_event" where
  "trim_event ev = ev\<lparr>be_MessageID := go_TrimSpace (be_MessageID ev), be_Sender := go_TrimSpace (be_Sender ev),
     be_Recipient := go_TrimSpace (be_Recipient ev), be_RecipientDomain := go_TrimSpace (be_RecipientDomain ev),
     be_EnhancedStatus := go_TrimSpace (be_EnhancedStatus ev), be_StoragePath := go_TrimSpace (be_StoragePath ev)\<rparr>"

definition status_checks :: "(string \<Rightarrow> string) \<Rightarrow> bounce_event \<Rightarrow> unit res" where
  "status_checks quote ev =
     (if be_MessageID ev = [] then Inl ''bounce event is missing message_id''
      else if containsLineBreak (be_MessageID ev) \<or> containsLineBreak (be_RFCMessageID ev)
      then Inl ''bounce event has invalid message identity''
      else if containsLineBreak (be_RecipientDomain ev) \<or> containsLineBreak (be_EnhancedStatus ev) \<or>
        containsLineBreak (be_ErrorMessage ev)
      then Inl ''bounce event has invalid delivery status fields''
      else if be_EnhancedStatus ev \<noteq> [] \<and> (\<not> validEnhancedStatus (be_EnhancedStatus ev) \<or>
        \<not> failureEventStatusMatchesAction (be_Event ev) (be_EnhancedStatus ev))
      then Inl (''bounce event has invalid enhanced_status '' @ quote (be_EnhancedStatus ev))
      else if be_Recipient ev = [] then Inl ''bounce event is missing recipient'' else Inr ())"

definition dsn_checks :: "bounce_event \<Rightarrow> unit res" where
  "dsn_checks ev =
     (if containsLineBreak (be_StoragePath ev) \<or> containsLineBreak (be_EnvelopeID ev) \<or> containsLineBreak (be_OriginalRecipient ev)
      then Inl ''bounce event has invalid dsn metadata''
      else if be_StoragePath ev \<noteq> [] \<and> \<not> validBounceStoragePath (be_StoragePath ev)
      then Inl ''bounce event has invalid storage_path''
      else if be_Return ev \<noteq> [] \<and> be_Return ev \<noteq> ''HDRS'' \<and> be_Return ev \<noteq> ''FULL''
      then Inl ''bounce event has invalid dsn return''
      else if be_EnvelopeID ev \<noteq> [] \<and> \<not> validBounceDSNEnvelopeID (be_EnvelopeID ev)
      then Inl ''bounce event has invalid dsn envelope_id''
      else if be_OriginalRecipient ev \<noteq> [] \<and> \<not> validBounceDSNOriginalRecipient (be_OriginalRecipient ev)
      then Inl ''bounce event has invalid dsn original_recipient'' else Inr ())"

definition normalize_sender :: "addr_parser \<Rightarrow> string \<Rightarrow> string res" where
  "normalize_sender parse sender =
     (if sender = [] then Inr []
      else case NormalizeAddress parse sender of Inl e \<Rightarrow> Inl (''bounce event has invalid sender: '' @ e) | Inr s \<Rightarrow> Inr s)"

definition normalizeBounceEvent :: "(string \<Rightarrow> string) \<Rightarrow> addr_parser \<Rightarrow> bounce_event \<Rightarrow> bounce_event res" where
  "normalizeBounceEvent quote parse ev0 =
     (let ev = trim_event ev0 in
      next_step (status_checks quote ev) (\<lambda>_.
      next_step (normalize_sender parse (be_Sender ev)) (\<lambda>sender.
      (case NormalizeAddress parse (be_Recipient ev) of
         Inl e \<Rightarrow> Inl (''bounce event has invalid recipient: '' @ e)
       | Inr recipient \<Rightarrow>
           (let ev1 = ev\<lparr>be_Sender := sender, be_Recipient := recipient, be_EnvelopeID := go_TrimSpace (be_EnvelopeID ev),
                  be_Return := go_ToUpper (go_TrimSpace (be_Return ev)),
                  be_OriginalRecipient := go_TrimSpace (be_OriginalRecipient ev)\<rparr>
            in next_step (dsn_checks ev1) (\<lambda>_.
               next_step (normalizeBounceNotify quote (be_Notify ev1)) (\<lambda>notify.
               Inr (ev1\<lparr>be_Notify := notify\<rparr>))))))))"

section \<open>Decoding\<close>

definition decodeBounceEvent :: "(string \<Rightarrow> string) \<Rightarrow> addr_parser \<Rightarrow> jobject \<Rightarrow> bounce_event res" where
  "decodeBounceEvent quote parse ob =
     (case unmarshal_bounce ob of Inl e \<Rightarrow> Inl (''decode bounce event: '' @ e)
      | Inr ev \<Rightarrow>
          if be_Event ev \<noteq> ''mail.bounced'' then Inl (''unexpected bounce event '' @ quote (be_Event ev))
          else normalizeBounceEvent quote parse ev)"

text \<open>The event of one recipient of an exhausted message: \<open>base\<close> has what they share.\<close>

definition exhausted_recipient :: "bounce_event \<Rightarrow> jobject \<Rightarrow> bounce_event res" where
  "exhausted_recipient base ob =
     next_step (jtext ob ''recipient'') (\<lambda>recipient. next_step (jtext ob ''recipient_domain'') (\<lambda>rdomain.
     next_step (jtext ob ''enhanced_status'') (\<lambda>status. next_step (jtexts ob ''dsn_notify'') (\<lambda>notify.
     next_step (jtext ob ''original_recipient'') (\<lambda>orcpt.
       Inr (base\<lparr>be_Recipient := recipient, be_RecipientDomain := rdomain, be_EnhancedStatus := status, be_Notify := notify,
         be_OriginalRecipient := orcpt\<rparr>))))))"

fun all_steps :: "('a \<Rightarrow> 'b res) \<Rightarrow> 'a list \<Rightarrow> 'b list res" where
  "all_steps f [] = Inr []"
| "all_steps f (x # xs) = next_step (f x) (\<lambda>y. next_step (all_steps f xs) (\<lambda>ys. Inr (y # ys)))"

definition unmarshal_exhausted :: "jobject \<Rightarrow> (bounce_event \<times> bounce_event list) res" where
  "unmarshal_exhausted ob =
     next_step (jtext ob ''event'') (\<lambda>event. next_step (jtext ob ''message_id'') (\<lambda>mid.
     next_step (jtext ob ''rfc_message_id'') (\<lambda>rfc. next_step (jtext ob ''company_id'') (\<lambda>company.
     next_step (jtext ob ''domain_id'') (\<lambda>domain. next_step (jtext ob ''sender'') (\<lambda>sender.
     next_step (jtext ob ''error_message'') (\<lambda>message. next_step (jtext ob ''storage_path'') (\<lambda>path.
     next_step (jtext ob ''dsn_return'') (\<lambda>ret. next_step (jtext ob ''dsn_envelope_id'') (\<lambda>envid.
     next_step (jtime ob ''exhausted_at'') (\<lambda>attempted. next_step (jmaps ob ''recipient_details'') (\<lambda>details.
     (let base = \<lparr>be_Event = event, be_MessageID = mid, be_RFCMessageID = rfc, be_CompanyID = company, be_DomainID = domain,
        be_Sender = sender, be_Recipient = [], be_RecipientDomain = [], be_EnhancedStatus = [], be_ErrorMessage = message,
        be_AttemptedAt = attempted, be_StoragePath = path, be_Return = ret, be_EnvelopeID = envid, be_Notify = [],
        be_OriginalRecipient = []\<rparr>
      in next_step (all_steps (exhausted_recipient base) details) (\<lambda>evs. Inr (base, evs)))))))))))))))"

definition decodeExhaustedEvents :: "(string \<Rightarrow> string) \<Rightarrow> addr_parser \<Rightarrow> jobject \<Rightarrow> bounce_event list res" where
  "decodeExhaustedEvents quote parse ob =
     (case unmarshal_exhausted ob of Inl e \<Rightarrow> Inl (''decode delivery_exhausted event: '' @ e)
      | Inr (base, evs) \<Rightarrow>
          if be_Event base \<noteq> ''mail.delivery_exhausted''
          then Inl (''unexpected delivery_exhausted event '' @ quote (be_Event base))
          else all_steps (normalizeBounceEvent quote parse) evs)"

definition decodeFailureEvents :: "(string \<Rightarrow> string) \<Rightarrow> addr_parser \<Rightarrow> jobject res \<Rightarrow> bounce_event list res" where
  "decodeFailureEvents quote parse payload =
     (case next_step payload (\<lambda>ob. jtext ob ''event'') of Inl e \<Rightarrow> Inl (''decode delivery failure event: '' @ e)
      | Inr event0 \<Rightarrow>
          (let event = go_TrimSpace event0; ob = projr payload in
           if event = ''mail.bounced'' then next_step (decodeBounceEvent quote parse ob) (\<lambda>ev. Inr [ev])
           else if event = ''mail.delivery_exhausted'' then decodeExhaustedEvents quote parse ob
           else Inl (''unexpected delivery failure event '' @ quote event0)))"

fun notify_wants :: "bool \<Rightarrow> string list \<Rightarrow> bool" where
  "notify_wants wantFailure [] = wantFailure"
| "notify_wants wantFailure (v0 # vs) =
     (let v = go_ToUpper (go_TrimSpace v0) in
      if v = ''NEVER'' then False else notify_wants (wantFailure \<or> v = ''FAILURE'') vs)"

definition shouldGenerateFailureDSN :: "bounce_event \<Rightarrow> bool" where
  "shouldGenerateFailureDSN ev =
     (if go_TrimSpace (be_Sender ev) = [] then False
      else if be_Notify ev = [] then True else notify_wants False (be_Notify ev))"

section \<open>The handler\<close>

datatype bounce_call =
  BGet string
| BPut string string "string option" \<comment> \<open>path, content, error\<close>
| BEnqueue string string string string "string option" \<comment> \<open>topic, partition key, dedupe key, payload, error\<close>
| BDelete string

record 'w bounce_handler =
  bh_store :: bool
  bh_queue :: bool
  bh_put :: "string \<Rightarrow> string \<Rightarrow> 'w \<Rightarrow> string option \<times> 'w"
  bh_get :: "string \<Rightarrow> 'w \<Rightarrow> string res \<times> 'w"
  bh_delete :: "string \<Rightarrow> 'w \<Rightarrow> string option \<times> 'w"
  bh_Enqueue :: "string \<Rightarrow> string \<Rightarrow> string \<Rightarrow> 'w \<Rightarrow> string option \<times> 'w"
  bh_EnqueueOnce :: "(string \<Rightarrow> string \<Rightarrow> string \<Rightarrow> string \<Rightarrow> 'w \<Rightarrow> string option \<times> 'w) option"
  bh_reportingMTA :: string
  bh_postmaster :: address
  bh_farm :: farm
  bh_now :: "'w \<Rightarrow> int \<times> 'w"
  bh_parse :: addr_parser
  bh_text :: text_env
  bh_format :: "string \<Rightarrow> int \<Rightarrow> string"
  bh_read_message :: "string \<Rightarrow> (string \<times> string list) list option"
  bh_marshal :: "queued_message \<Rightarrow> string res"

text \<open>\<open>parse_name\<close> is \<open>net/mail.ParseAddress\<close>, with the display name.\<close>

definition parsePostmasterAddress :: "(string \<Rightarrow> address option) \<Rightarrow> string \<Rightarrow> address" where
  "parsePostmasterAddress parse_name v =
     (case parse_name (go_TrimSpace v) of
        None \<Rightarrow> \<lparr>Name = ''Mail Delivery Subsystem'', Email = go_TrimSpace v\<rparr>
      | Some a \<Rightarrow> (let nm = go_TrimSpace (Name a) in
          \<lparr>Name = (if nm = [] then ''Mail Delivery Subsystem'' else nm), Email = Email a\<rparr>))"

definition NewBounceHandler :: "(string \<Rightarrow> address option) \<Rightarrow> string \<Rightarrow> 'w bounce_handler \<Rightarrow> 'w bounce_handler" where
  "NewBounceHandler parse_name postmaster0 opts =
     (let mta0 = go_TrimSpace (bh_reportingMTA opts);
          mta = (if mta0 = [] then ''localhost'' else mta0);
          pm0 = go_TrimSpace postmaster0;
          pm = (if pm0 = [] then ''postmaster@'' @ mta else pm0)
      in opts\<lparr>bh_reportingMTA := mta, bh_postmaster := parsePostmasterAddress parse_name pm,
              bh_farm := NormalizeFarm (bh_farm opts)\<rparr>)"

record 'w bstate =
  bs_world :: 'w
  bs_calls :: "bounce_call list"

definition noted :: "bounce_call \<Rightarrow> 'w bstate \<Rightarrow> 'w bstate" where
  "noted c s = s\<lparr>bs_calls := bs_calls s @ [c]\<rparr>"

definition get_object :: "'w bounce_handler \<Rightarrow> string \<Rightarrow> 'w bstate \<Rightarrow> string res \<times> 'w bstate" where
  "get_object H path s = (case bh_get H path (bs_world s) of (r, w) \<Rightarrow> (r, noted (BGet path) (s\<lparr>bs_world := w\<rparr>)))"

definition put_object :: "'w bounce_handler \<Rightarrow> string \<Rightarrow> string \<Rightarrow> 'w bstate \<Rightarrow> string option \<times> 'w bstate" where
  "put_object H path raw s = (case bh_put H path raw (bs_world s) of (r, w) \<Rightarrow> (r, noted (BPut path raw r) (s\<lparr>bs_world := w\<rparr>)))"

definition enqueue_once :: "'w bounce_handler \<Rightarrow> string \<Rightarrow> string \<Rightarrow> string \<Rightarrow> string \<Rightarrow> 'w bstate \<Rightarrow> string option \<times> 'w bstate" where
  "enqueue_once H topic key dedupe payload s =
     (case bh_EnqueueOnce H of
        Some f \<Rightarrow> (case f topic key dedupe payload (bs_world s) of (r, w) \<Rightarrow>
          (r, noted (BEnqueue topic key dedupe payload r) (s\<lparr>bs_world := w\<rparr>)))
      | None \<Rightarrow> (case bh_Enqueue H topic key payload (bs_world s) of (r, w) \<Rightarrow>
          (r, noted (BEnqueue topic key [] payload r) (s\<lparr>bs_world := w\<rparr>))))"

definition deleteStoredMessageBestEffort :: "'w bounce_handler \<Rightarrow> string \<Rightarrow> 'w bstate \<Rightarrow> 'w bstate" where
  "deleteStoredMessageBestEffort H path s =
     (if \<not> bh_store H \<or> go_TrimSpace path = [] then s
      else case bh_delete H path (bs_world s) of (_, w) \<Rightarrow> noted (BDelete path) (s\<lparr>bs_world := w\<rparr>))"

text \<open>What of the original message goes back to the sender.\<close>

definition maxOriginalHeaderReadBytes :: nat where "maxOriginalHeaderReadBytes = 64 * 1024"
definition maxOriginalMessageReadBytes :: nat where "maxOriginalMessageReadBytes = 256 * 1024"

definition readOriginalMessage :: "'w bounce_handler \<Rightarrow> string \<Rightarrow> 'w bstate \<Rightarrow> string res \<times> 'w bstate" where
  "readOriginalMessage H path s =
     (if \<not> bh_store H then (Inl ''dsn storage is required'', s)
      else if \<not> validBounceStoragePath path then (Inl ''invalid storage_path'', s)
      else case get_object H path s of
        (Inl e, s1) \<Rightarrow> (Inl (''read original message: '' @ e), s1)
      | (Inr body, s1) \<Rightarrow>
          (let raw = take (maxOriginalMessageReadBytes + 1) body in
           if maxOriginalMessageReadBytes < length raw then (Inl ''original message exceeds 262144 bytes'', s1)
           else if bh_read_message H raw = None then (Inl ''parse original message'', s1)
           else (Inr raw, s1)))"

definition header_values :: "(string \<times> string list) list \<Rightarrow> string \<Rightarrow> (string \<times> string) list" where
  "header_values hdr name = map (Pair name) (case map_of hdr name of None \<Rightarrow> [] | Some vs \<Rightarrow> vs)"

definition readOriginalHeaders :: "'w bounce_handler \<Rightarrow> string \<Rightarrow> 'w bstate \<Rightarrow> (string \<times> string) list res \<times> 'w bstate" where
  "readOriginalHeaders H path s =
     (if \<not> bh_store H then (Inl ''dsn storage is required'', s)
      else if \<not> validBounceStoragePath path then (Inl ''invalid storage_path'', s)
      else case get_object H path s of
        (Inl e, s1) \<Rightarrow> (Inl (''read original message headers: '' @ e), s1)
      | (Inr body, s1) \<Rightarrow>
          (case bh_read_message H (take maxOriginalHeaderReadBytes body) of
             None \<Rightarrow> (Inl ''parse original message headers'', s1)
           | Some hdr \<Rightarrow>
               (Inr (concat (map (header_values hdr) (sort (filter validHeaderFieldName (map (go_TrimSpace \<circ> fst) hdr))))), s1)))"

definition originalHeadersForEvent :: "'w bounce_handler \<Rightarrow> bounce_event \<Rightarrow> 'w bstate \<Rightarrow> (string \<times> string) list \<times> 'w bstate" where
  "originalHeadersForEvent H ev s =
     (if be_Return ev \<noteq> ''HDRS'' \<or> go_TrimSpace (be_StoragePath ev) = [] then ([], s)
      else case readOriginalHeaders H (be_StoragePath ev) s of (Inl _, s1) \<Rightarrow> ([], s1) | (Inr hs, s1) \<Rightarrow> (hs, s1))"

definition returnedContentForEvent ::
    "'w bounce_handler \<Rightarrow> bounce_event \<Rightarrow> 'w bstate \<Rightarrow> ((string \<times> string) list \<times> string) \<times> 'w bstate" where
  "returnedContentForEvent H ev s =
     (if be_Return ev = ''HDRS'' then (case originalHeadersForEvent H ev s of (hs, s1) \<Rightarrow> ((hs, []), s1))
      else if be_Return ev = ''FULL'' then
        (if go_TrimSpace (be_StoragePath ev) = [] then (([], []), s)
         else case readOriginalMessage H (be_StoragePath ev) s of
           (Inl _, s1) \<Rightarrow> (([], []), s1) | (Inr raw, s1) \<Rightarrow> (([], raw), s1))
      else (([], []), s))"

text \<open>The names of a notification.\<close>

definition bounceDSNDedupeKey :: "bounce_event \<Rightarrow> string" where
  "bounceDSNDedupeKey ev = ''dsn:bounce:'' @ be_MessageID ev @ '':'' @ be_Recipient ev"

definition bounceDSNMessageID :: "bounce_event \<Rightarrow> string \<Rightarrow> string" where
  "bounceDSNMessageID ev reportingMTA0 =
     (let local = sanitizeMessageIDLocal (''dsn-'' @ be_MessageID ev @ ''-'' @ be_Recipient ev);
          mta0 = go_TrimSpace reportingMTA0; mta = (if mta0 = [] then ''localhost'' else mta0)
      in ''<'' @ local @ ''@'' @ mta @ ''>'')"

definition dsnStoragePath :: "(string \<Rightarrow> int \<Rightarrow> string) \<Rightarrow> int \<Rightarrow> string \<Rightarrow> string" where
  "dsnStoragePath fmt now messageID0 =
     (let messageID = go_Trim messageID0 ''<>'';
          name0 = filter (token_char True) messageID;
          name = (if name0 = [] then ''dsn'' else name0)
      in path_Clean (go_Join (filter (\<lambda>e. e \<noteq> []) [''dsn'', fmt ''2006'' now, fmt ''01'' now, name @ ''.eml'']) ''/''))"

definition failure_report ::
    "'w bounce_handler \<Rightarrow> bounce_event \<Rightarrow> int \<Rightarrow> (string \<times> string) list \<Rightarrow> string \<Rightarrow> dsn_report" where
  "failure_report H ev now headers original =
     \<lparr>dn_ReportingMTA = bh_reportingMTA H, dn_OriginalID = be_EnvelopeID ev, dn_From = bh_postmaster H,
      dn_To = \<lparr>Name = [], Email = be_Sender ev\<rparr>, dn_Subject = ''Delivery Status Notification (Failure)'',
      dn_MessageID = bounceDSNMessageID ev (bh_reportingMTA H), dn_Date = Some now,
      dn_Recipients = [\<lparr>rp_Recipient = be_Recipient ev, rp_OriginalRecipient = be_OriginalRecipient ev, rp_Action = ''failed'',
        rp_Status = be_EnhancedStatus ev, rp_Diagnostic = be_ErrorMessage ev, rp_RemoteMTA = be_RecipientDomain ev,
        rp_FinalLogID = be_MessageID ev, rp_LastAttemptAt = be_AttemptedAt ev\<rparr>],
      dn_OriginalHeaders = headers, dn_OriginalMessage = original\<rparr>"

definition queued_report :: "'w bounce_handler \<Rightarrow> bounce_event \<Rightarrow> string \<Rightarrow> composed_message \<Rightarrow> queued_message" where
  "queued_report H ev path composed =
     \<lparr>qm_Event = ''mail.queued'', qm_MessageID = be_MessageID ev, qm_RFCMessageID = cm_MessageID composed,
      qm_CompanyID = be_CompanyID ev, qm_DomainID = be_DomainID ev, qm_UserID = [], qm_Farm = bh_farm H,
      qm_From = \<lparr>Name = [], Email = []\<rparr>, qm_To = [\<lparr>Name = [], Email = be_Sender ev\<rparr>], qm_Cc = [], qm_Bcc = [],
      qm_DSN = \<lparr>dsn_Return = [], dsn_EnvelopeID = [], dsn_Recipients = []\<rparr>,
      qm_Subject = ''Delivery Status Notification (Failure)'', qm_StoragePath = path, qm_Size = cm_Size composed,
      qm_RetryAttempt = 0\<rparr>"

text \<open>From the composed message on.\<close>

definition queue_report :: "'w bounce_handler \<Rightarrow> bounce_event \<Rightarrow> int \<Rightarrow> composed_message \<Rightarrow> 'w bstate \<Rightarrow> string option \<times> 'w bstate" where
  "queue_report H ev now composed s =
     (let path = dsnStoragePath (bh_format H) now (be_MessageID ev @ ''-'' @ be_Recipient ev) in
      case put_object H path (cm_Raw composed) s of
        (Some e, s1) \<Rightarrow> (Some (''store dsn message: '' @ e), s1)
      | (None, s1) \<Rightarrow>
      (case bh_marshal H (queued_report H ev path composed) of
        Inl e \<Rightarrow> (Some (''marshal dsn queue payload: '' @ e), s1)
      | Inr payload \<Rightarrow>
      (case enqueue_once H (''mail.outbound.'' @ bh_farm H) (be_MessageID ev) (bounceDSNDedupeKey ev) payload s1 of
        (Some e, s2) \<Rightarrow> (Some e, deleteStoredMessageBestEffort H path s2)
      | (None, s2) \<Rightarrow> (None, s2))))"

definition handleFailureEvent :: "'w bounce_handler \<Rightarrow> bounce_event \<Rightarrow> 'w bstate \<Rightarrow> string option \<times> 'w bstate" where
  "handleFailureEvent H ev s =
     (if \<not> shouldGenerateFailureDSN ev then (None, s)
      else case bh_now H (bs_world s) of (now, w) \<Rightarrow>
        (case returnedContentForEvent H ev (s\<lparr>bs_world := w\<rparr>) of ((headers, original), s1) \<Rightarrow>
          (case Compose (bh_text H) now (failure_report H ev now headers original) of
             Inl e \<Rightarrow> (Some e, s1)
           | Inr composed \<Rightarrow> queue_report H ev now composed s1)))"

fun failure_events :: "'w bounce_handler \<Rightarrow> bounce_event list \<Rightarrow> 'w bstate \<Rightarrow> string option \<times> 'w bstate" where
  "failure_events H [] s = (None, s)"
| "failure_events H (ev # evs) s =
     (case handleFailureEvent H ev s of (Some e, s1) \<Rightarrow> (Some e, s1) | (None, s1) \<Rightarrow> failure_events H evs s1)"

definition bounce_HandleEvent :: "'w bounce_handler \<Rightarrow> jobject res \<Rightarrow> 'w bstate \<Rightarrow> string option \<times> 'w bstate" where
  "bounce_HandleEvent H payload s =
     (if \<not> bh_store H then (Some ''dsn storage is required'', s)
      else if \<not> bh_queue H then (Some ''dsn queue is required'', s)
      else case decodeFailureEvents (tx_quote (bh_text H)) (bh_parse H) payload of
        Inl e \<Rightarrow> (Some e, s)
      | Inr evs \<Rightarrow> failure_events H evs s)"

text \<open>The queue: the row is inserted unless its key is there; an empty key is no key.\<close>

record queue_row =
  qr_topic :: string
  qr_partition_key :: string
  qr_dedupe_key :: "string option"
  qr_payload :: string

definition pg_EnqueueOnce ::
    "bool \<Rightarrow> string option \<Rightarrow> string \<Rightarrow> string \<Rightarrow> string \<Rightarrow> string \<Rightarrow> queue_row list \<Rightarrow> string option \<times> queue_row list" where
  "pg_EnqueueOnce handle failure topic key dedupe payload rows =
     (if \<not> handle then (Some ''database handle is required'', rows)
      else case failure of Some e \<Rightarrow> (Some (''insert dsn outbox event: '' @ e), rows)
      | None \<Rightarrow> (let k = (if dedupe = [] then None else Some dedupe) in
          if k \<noteq> None \<and> k \<in> qr_dedupe_key ` set rows then (None, rows)
          else (None, rows @ [\<lparr>qr_topic = topic, qr_partition_key = key, qr_dedupe_key = k, qr_payload = payload\<rparr>])))"

definition pg_Enqueue ::
    "bool \<Rightarrow> string option \<Rightarrow> string \<Rightarrow> string \<Rightarrow> string \<Rightarrow> queue_row list \<Rightarrow> string option \<times> queue_row list" where
  "pg_Enqueue handle failure topic key payload rows = pg_EnqueueOnce handle failure topic key [] payload rows"

section \<open>What the handler does\<close>

lemma next_step_Inr: "next_step r f = Inr b \<longleftrightarrow> (\<exists>a. r = Inr a \<and> f a = Inr b)"
  by (cases r) auto

lemma jtext_Cons [simp]: "jtext ((k', v) # ob) k = (if k = k' then jtext [(k, v)] k else jtext ob k)"
  by (simp add: jtext_def)

lemma jtext_one [simp]: "jtext [(k, JText t)] k = Inr t"
  by (simp add: jtext_def)

text \<open>Reading the original message only reads.\<close>

definition is_read :: "bounce_call \<Rightarrow> bool" where
  "is_read c \<longleftrightarrow> (case c of BGet _ \<Rightarrow> True | _ \<Rightarrow> False)"

lemma returned_content_calls:
  "returnedContentForEvent H ev s = (x, s1) \<Longrightarrow> \<exists>gs. bs_calls s1 = bs_calls s @ gs \<and> (\<forall>c\<in>set gs. is_read c)"
  by (auto simp: returnedContentForEvent_def originalHeadersForEvent_def readOriginalHeaders_def readOriginalMessage_def
      get_object_def noted_def Let_def is_read_def split: if_splits prod.splits sum.splits option.splits)

text \<open>The calls for one event: reads, then nothing more or an object and a row, which is a message with an empty sender. The
  object is the composed message at the path of the time \<open>now\<close>; the key of the row is that of the event, where the queue takes
  keys.\<close>

definition queued_calls :: "'w bounce_handler \<Rightarrow> bounce_event \<Rightarrow> int \<Rightarrow> composed_message \<Rightarrow> bounce_call list \<Rightarrow> bool" where
  "queued_calls H ev now composed l \<longleftrightarrow>
     (\<exists>path payload. path = dsnStoragePath (bh_format H) now (be_MessageID ev @ ''-'' @ be_Recipient ev) \<and>
        filter (\<lambda>c. \<not> is_read c) l = [BPut path (cm_Raw composed) None,
          BEnqueue (''mail.outbound.'' @ bh_farm H) (be_MessageID ev)
            (if bh_EnqueueOnce H = None then [] else bounceDSNDedupeKey ev) payload None] \<and>
        bh_marshal H (queued_report H ev path composed) = Inr payload)"

definition report_calls :: "'w bounce_handler \<Rightarrow> bounce_event \<Rightarrow> bounce_call list \<Rightarrow> bool" where
  "report_calls H ev l \<longleftrightarrow>
     (\<exists>now headers original composed. Compose (bh_text H) now (failure_report H ev now headers original) = Inr composed \<and>
        queued_calls H ev now composed l)"

lemma queued_calls_reads:
  assumes "\<forall>c\<in>set gs. is_read c" and "queued_calls H ev now composed l"
  shows "queued_calls H ev now composed (gs @ l)"
proof -
  have "filter (\<lambda>c. \<not> is_read c) gs = []" using assms(1) by simp
  then have "filter (\<lambda>c. \<not> is_read c) (gs @ l) = filter (\<lambda>c. \<not> is_read c) l" by simp
  then show ?thesis using assms(2) by (simp only: queued_calls_def)
qed

definition bounce_safe :: "'w bounce_handler \<Rightarrow> bounce_call \<Rightarrow> bool" where
  "bounce_safe H c \<longleftrightarrow>
     (case c of BEnqueue topic key dedupe payload r \<Rightarrow>
        (\<exists>q. bh_marshal H q = Inr payload \<and> Email (qm_From q) = [] \<and> (\<exists>a. qm_To q = [a] \<and> Email a \<noteq> []))
      | _ \<Rightarrow> True)"

lemma queue_report_calls:
  assumes "queue_report H ev now composed s = (r, s1)" and "be_Sender ev \<noteq> []"
  shows "\<exists>l. bs_calls s1 = bs_calls s @ l \<and> list_all (bounce_safe H) l \<and> (r = None \<longrightarrow> queued_calls H ev now composed l)"
proof -
  let ?path = "dsnStoragePath (bh_format H) now (be_MessageID ev @ ''-'' @ be_Recipient ev)"
  obtain rp w1 where p: "bh_put H ?path (cm_Raw composed) (bs_world s) = (rp, w1)" by fastforce
  show ?thesis
  proof (cases "rp = None \<and> (\<exists>payload. bh_marshal H (queued_report H ev ?path composed) = Inr payload)")
    case False
    then have "bs_calls s1 = bs_calls s @ [BPut ?path (cm_Raw composed) rp] \<and> r \<noteq> None"
      using assms(1) p by (auto simp: queue_report_def Let_def put_object_def noted_def split: option.splits sum.splits)
    then show ?thesis by (auto simp: bounce_safe_def)
  next
    case True
    then obtain payload where q: "bh_marshal H (queued_report H ev ?path composed) = Inr payload" and rp: "rp = None" by blast
    let ?s1 = "noted (BPut ?path (cm_Raw composed) None) (s\<lparr>bs_world := w1\<rparr>)"
    obtain re s2 where e: "enqueue_once H (''mail.outbound.'' @ bh_farm H) (be_MessageID ev) (bounceDSNDedupeKey ev) payload ?s1 = (re, s2)"
      by fastforce
    define dedupe where "dedupe = (if bh_EnqueueOnce H = None then [] else bounceDSNDedupeKey ev)"
    have s2: "bs_calls s2 = bs_calls s @ [BPut ?path (cm_Raw composed) None,
        BEnqueue (''mail.outbound.'' @ bh_farm H) (be_MessageID ev) dedupe payload re]"
      using e by (auto simp: enqueue_once_def noted_def dedupe_def split: option.splits prod.splits)
    have safe: "bounce_safe H (BEnqueue t k d payload x)" for t k d x
      using q assms(2) by (auto simp: bounce_safe_def queued_report_def intro!: exI [of _ "queued_report H ev ?path composed"])
    have run: "(r, s1) = (case re of Some x \<Rightarrow> (Some x, deleteStoredMessageBestEffort H ?path s2) | None \<Rightarrow> (None, s2))"
      using assms(1) p rp q e by (cases re) (auto simp: queue_report_def Let_def put_object_def)
    show ?thesis
    proof (cases re)
      case None
      then show ?thesis using run s2 safe q
        by (auto simp: queued_calls_def dedupe_def is_read_def bounce_safe_def [of H "BPut _ _ _"])
    next
      case (Some x)
      then have "\<exists>l. bs_calls s1 = bs_calls s @ BPut ?path (cm_Raw composed) None #
          BEnqueue (''mail.outbound.'' @ bh_farm H) (be_MessageID ev) dedupe payload re # l \<and> (\<forall>c\<in>set l. \<exists>p. c = BDelete p)"
        using run s2 by (auto simp: deleteStoredMessageBestEffort_def noted_def split: if_splits prod.splits)
      then obtain l where l: "bs_calls s1 = bs_calls s @ BPut ?path (cm_Raw composed) None #
          BEnqueue (''mail.outbound.'' @ bh_farm H) (be_MessageID ev) dedupe payload re # l" "\<forall>c\<in>set l. \<exists>p. c = BDelete p" by blast
      have "list_all (bounce_safe H) l" using l(2) by (auto simp: list_all_iff bounce_safe_def)
      then show ?thesis using l(1) safe run Some by (auto simp: bounce_safe_def [of H "BPut _ _ _"])
    qed
  qed
qed

lemma handleFailureEvent_calls:
  assumes "handleFailureEvent H ev s = (r, s1)"
  shows "\<exists>l. bs_calls s1 = bs_calls s @ l \<and> list_all (bounce_safe H) l \<and>
    (r = None \<longrightarrow> (if shouldGenerateFailureDSN ev then report_calls H ev l else l = []))"
proof (cases "shouldGenerateFailureDSN ev")
  case False
  then show ?thesis using assms by (simp add: handleFailureEvent_def)
next
  case True
  then have sender: "be_Sender ev \<noteq> []" by (auto simp: shouldGenerateFailureDSN_def split: if_splits)
  obtain now w where n: "bh_now H (bs_world s) = (now, w)" by fastforce
  obtain headers original s2 where c: "returnedContentForEvent H ev (s\<lparr>bs_world := w\<rparr>) = ((headers, original), s2)"
    by (metis prod.exhaust)
  from returned_content_calls [OF c] obtain gs where
    gs: "bs_calls s2 = bs_calls s @ gs" "\<forall>c\<in>set gs. is_read c" by auto
  have safe: "list_all (bounce_safe H) gs" using gs(2) by (auto simp: list_all_iff bounce_safe_def is_read_def split: bounce_call.splits)
  show ?thesis
  proof (cases "Compose (bh_text H) now (failure_report H ev now headers original)")
    case (Inl e)
    then show ?thesis using assms True n c gs(1) safe by (auto simp: handleFailureEvent_def)
  next
    case (Inr composed)
    then have "queue_report H ev now composed s2 = (r, s1)" using assms True n c by (simp add: handleFailureEvent_def)
    from queue_report_calls [OF this sender] obtain l where
      l: "bs_calls s1 = bs_calls s2 @ l" "list_all (bounce_safe H) l" "r = None \<longrightarrow> queued_calls H ev now composed l" by blast
    have "report_calls H ev (gs @ l)" if "r = None"
      using queued_calls_reads [OF gs(2)] l(3) that Inr unfolding report_calls_def by blast
    then show ?thesis using l(1,2) gs(1) safe True by (intro exI [of _ "gs @ l"]) auto
  qed
qed

lemma failure_events_calls:
  "failure_events H evs s = (r, s1) \<Longrightarrow> \<exists>ls. bs_calls s1 = bs_calls s @ concat ls \<and> list_all (bounce_safe H) (concat ls) \<and>
     (r = None \<longrightarrow> list_all2 (\<lambda>ev l. if shouldGenerateFailureDSN ev then report_calls H ev l else l = []) evs ls)"
proof (induction evs arbitrary: s)
  case Nil
  then show ?case by (intro exI [of _ "[]"]) simp
next
  case (Cons ev evs)
  obtain r1 s2 where h: "handleFailureEvent H ev s = (r1, s2)" by fastforce
  from handleFailureEvent_calls [OF this] obtain l where l: "bs_calls s2 = bs_calls s @ l" "list_all (bounce_safe H) l"
    "r1 = None \<longrightarrow> (if shouldGenerateFailureDSN ev then report_calls H ev l else l = [])" by blast
  show ?case
  proof (cases r1)
    case (Some e)
    then show ?thesis using Cons.prems h l by (intro exI [of _ "[l]"]) auto
  next
    case None
    then obtain ls where "bs_calls s1 = bs_calls s2 @ concat ls" "list_all (bounce_safe H) (concat ls)"
      "r = None \<longrightarrow> list_all2 (\<lambda>ev l. if shouldGenerateFailureDSN ev then report_calls H ev l else l = []) evs ls"
      using Cons.IH [of s2] Cons.prems h by auto
    then show ?thesis using l None by (intro exI [of _ "l # ls"]) auto
  qed
qed

section \<open>Bounces of bounces\<close>

lemma unmarshal_bounce_sender:
  "unmarshal_bounce ob = Inr ev \<Longrightarrow> jtext ob ''sender'' = Inr (be_Sender ev)"
  unfolding unmarshal_bounce_def next_step_Inr by (elim exE conjE) auto

lemma all_steps_from: "all_steps f xs = Inr ys \<Longrightarrow> y \<in> set ys \<Longrightarrow> \<exists>x\<in>set xs. f x = Inr y"
  by (induction xs arbitrary: ys) (auto simp: next_step_Inr)

lemma exhausted_recipient_sender: "exhausted_recipient base ob = Inr ev \<Longrightarrow> be_Sender ev = be_Sender base"
  unfolding exhausted_recipient_def next_step_Inr by (elim exE conjE) auto

lemma unmarshal_exhausted_sender:
  assumes "unmarshal_exhausted ob = Inr (base, evs)" and "ev \<in> set evs"
  shows "jtext ob ''sender'' = Inr (be_Sender ev)"
proof -
  have "jtext ob ''sender'' = Inr (be_Sender base) \<and> (\<exists>ms. all_steps (exhausted_recipient base) ms = Inr evs)"
    using assms(1) unfolding unmarshal_exhausted_def next_step_Inr Let_def by (elim exE conjE) auto
  then obtain ms where b: "jtext ob ''sender'' = Inr (be_Sender base)" and m: "all_steps (exhausted_recipient base) ms = Inr evs"
    by (elim exE conjE)
  from all_steps_from [OF m assms(2)] obtain m where "exhausted_recipient base m = Inr ev" by (elim bexE)
  then show ?thesis using b exhausted_recipient_sender by simp
qed

lemma normalize_no_sender:
  assumes "normalizeBounceEvent quote parse ev = Inr ev'" and "go_TrimSpace (be_Sender ev) = []"
  shows "be_Sender ev' = []"
  using assms by (auto simp: normalizeBounceEvent_def Let_def next_step_Inr normalize_sender_def trim_event_def split: sum.splits)

lemma decoded_no_sender:
  assumes "decodeFailureEvents quote parse (Inr ob) = Inr evs" and "jtext ob ''sender'' = Inr sd" and "go_TrimSpace sd = []"
    and "ev \<in> set evs"
  shows "be_Sender ev = []"
proof -
  from assms(1,4) consider "decodeBounceEvent quote parse ob = Inr ev" | "decodeExhaustedEvents quote parse ob = Inr evs"
    by (auto simp: decodeFailureEvents_def Let_def next_step_Inr split: sum.splits if_splits)
  then show ?thesis
  proof cases
    case 1
    then obtain ev0 where "unmarshal_bounce ob = Inr ev0" "normalizeBounceEvent quote parse ev0 = Inr ev"
      by (auto simp: decodeBounceEvent_def split: sum.splits if_splits)
    then show ?thesis using unmarshal_bounce_sender [of ob ev0] normalize_no_sender assms(2,3) by auto
  next
    case 2
    then obtain base evs0 where u: "unmarshal_exhausted ob = Inr (base, evs0)"
      and n: "all_steps (normalizeBounceEvent quote parse) evs0 = Inr evs"
      by (auto simp: decodeExhaustedEvents_def split: sum.splits if_splits)
    from all_steps_from [OF n assms(4)] obtain ev0 where
      "ev0 \<in> set evs0" "normalizeBounceEvent quote parse ev0 = Inr ev" by blast
    then show ?thesis using unmarshal_exhausted_sender [OF u, of ev0] normalize_no_sender assms(2,3) by auto
  qed
qed

lemma no_sender_no_call:
  assumes "jtext ob ''sender'' = Inr sd" and "go_TrimSpace sd = []"
  shows "snd (bounce_HandleEvent H (Inr ob) s) = s"
proof (cases "decodeFailureEvents (tx_quote (bh_text H)) (bh_parse H) (Inr ob)")
  case (Inl e)
  then show ?thesis by (simp add: bounce_HandleEvent_def)
next
  case (Inr evs)
  have "failure_events H evs s = (None, s)" if "\<forall>ev\<in>set evs. be_Sender ev = []" for evs
    using that by (induction evs) (auto simp: handleFailureEvent_def shouldGenerateFailureDSN_def)
  then show ?thesis using decoded_no_sender [OF Inr assms] Inr by (simp add: bounce_HandleEvent_def)
qed

lemma payload_sender:
  "jtext (deliveryAttemptEventPayload a) ''sender'' = Inr (go_TrimSpace (at_Sender a))"
  "jtext (exhaustedEventPayload parse now q causeMsg) ''sender'' = Inr (go_TrimSpace (Email (qm_From q)))"
  by (simp_all add: deliveryAttemptEventPayload_def exhaustedEventPayload_def Let_def jtext_def)

text \<open>
  C21. Bounces do not bounce. Every message that the handler queues, whatever it is given, has an empty sender and one recipient,
  and for a message with an empty sender the events that the recorder writes about its failure, of every attempt and at
  exhaustion, make the handler read, store and queue nothing. So notifications cannot go round.
\<close>

theorem no_bounce_of_a_bounce:
  assumes "Email (qm_From q) = []"
  shows "snd (bounce_HandleEvent H (Inr (deliveryAttemptEventPayload (attemptForRecipient q rc st cause msg t dsn))) s) = s \<and>
    snd (bounce_HandleEvent H (Inr (exhaustedEventPayload parse now q causeMsg)) s) = s \<and>
    (\<exists>l. bs_calls (snd (bounce_HandleEvent H payload s)) = bs_calls s @ l \<and> list_all (bounce_safe H) l)"
proof (intro conjI)
  show "snd (bounce_HandleEvent H (Inr (deliveryAttemptEventPayload (attemptForRecipient q rc st cause msg t dsn))) s) = s"
    by (rule no_sender_no_call [OF payload_sender(1)]) (simp add: attemptForRecipient_def Let_def assms)
  show "snd (bounce_HandleEvent H (Inr (exhaustedEventPayload parse now q causeMsg)) s) = s"
    by (rule no_sender_no_call [OF payload_sender(2)]) (simp add: assms)
  obtain r s1 where "bounce_HandleEvent H payload s = (r, s1)" by fastforce
  then show "\<exists>l. bs_calls (snd (bounce_HandleEvent H payload s)) = bs_calls s @ l \<and> list_all (bounce_safe H) l"
    using failure_events_calls [of H] by (auto simp: bounce_HandleEvent_def split: if_splits sum.splits) blast
qed

section \<open>What is reported\<close>

lemma bounced_event_text: "go_TrimSpace ''mail.bounced'' = ''mail.bounced''"
  by code_simp

text \<open>The event of a bounce as the handler sees it.\<close>

definition attempt_event :: "attempt \<Rightarrow> bounce_event" where
  "attempt_event a =
     \<lparr>be_Event = ''mail.bounced'', be_MessageID = go_TrimSpace (at_MessageID a), be_RFCMessageID = go_TrimSpace (at_RFCMessageID a),
      be_CompanyID = go_TrimSpace (at_CompanyID a), be_DomainID = go_TrimSpace (at_DomainID a),
      be_Sender = go_TrimSpace (at_Sender a), be_Recipient = go_TrimSpace (at_Recipient a),
      be_RecipientDomain = go_TrimSpace (at_RecipientDomain a), be_EnhancedStatus = go_TrimSpace (at_EnhancedStatus a),
      be_ErrorMessage = go_TrimSpace (at_ErrorMessage a), be_AttemptedAt = Some (at_AttemptedAt a),
      be_StoragePath = go_TrimSpace (at_StoragePath a), be_Return = go_TrimSpace (at_DSNReturn a),
      be_EnvelopeID = go_TrimSpace (at_DSNEnvelopeID a), be_Notify = trimStringList (at_DSNNotify a),
      be_OriginalRecipient = go_TrimSpace (at_OriginalRecipient a)\<rparr>"

lemma unmarshal_attempt:
  assumes "at_Status a = AttemptBounced"
  shows "unmarshal_bounce (deliveryAttemptEventPayload a) = Inr (attempt_event a)"
  using assms by (simp add: unmarshal_bounce_def deliveryAttemptEventPayload_def attempt_event_def jtext_def jtime_def jmap_def
      jtexts_def trimStringList_def del: jtext_Cons)

lemma decode_attempt:
  assumes "at_Status a = AttemptBounced"
  shows "decodeFailureEvents quote parse (Inr (deliveryAttemptEventPayload a)) =
    next_step (normalizeBounceEvent quote parse (attempt_event a)) (\<lambda>ev. Inr [ev])"
proof -
  have "jtext (deliveryAttemptEventPayload a) ''event'' = Inr ''mail.bounced''"
    using assms by (simp add: deliveryAttemptEventPayload_def jtext_def)
  moreover have "be_Event (attempt_event a) = ''mail.bounced''" by (simp add: attempt_event_def)
  ultimately show ?thesis
    using unmarshal_attempt [OF assms] by (simp add: decodeFailureEvents_def decodeBounceEvent_def bounced_event_text)
qed

lemma trim_run_keeps:
  assumes "\<And>c d. p2 c d \<Longrightarrow> \<not> graphic c \<and> \<not> graphic d" and "\<And>c d e. p3 c d e \<Longrightarrow> \<not> graphic c \<and> \<not> graphic d \<and> \<not> graphic e"
  shows "graphic x \<Longrightarrow> x \<in> set s \<Longrightarrow> x \<in> set (trim_run p2 p3 s)"
  using assms by (induction p2 p3 s rule: trim_run.induct) (auto simp: graphic_not_space)

lemma go_TrimSpace_keeps:
  assumes "graphic x" and "x \<in> set s"
  shows "x \<in> set (go_TrimSpace s)"
proof -
  have "x \<in> set (trim_left_space s)" unfolding trim_left_space_def
    by (rule trim_run_keeps [OF _ _ assms]) (auto simp: space2_def space3_def graphic_def)
  then have "x \<in> set (rev (trim_left_space s))" by simp
  then have "x \<in> set (trim_run (\<lambda>d c. space2 c d) (\<lambda>e d c. space3 c d e) (rev (trim_left_space s)))"
    by (rule trim_run_keeps [OF _ _ assms(1), rotated 2]) (auto simp: space2_def space3_def graphic_def)
  then show ?thesis by (simp add: go_TrimSpace_def trim_right_space_def)
qed

lemma normalized_not_blank:
  assumes "NormalizeAddress parse x = Inr y"
  shows "go_TrimSpace y \<noteq> []"
proof -
  have "CHR ''@'' \<in> set y" using assms by (auto simp: NormalizeAddress_def split: option.splits if_splits)
  then have "CHR ''@'' \<in> set (go_TrimSpace y)" by (rule go_TrimSpace_keeps [rotated]) (simp add: graphic_def)
  then show ?thesis by auto
qed

text \<open>
  C20. A bounce that is acknowledged has been reported. The event of a bounced attempt whose message has a sender and whose
  recipient asked for no special notifications makes the handler either return an error, so that it is delivered again,
  or, besides reading the original, do exactly two things: store the notification that \<open>Compose\<close> makes of the event, and queue
  one message from the empty sender to the normalised sender of the original whose content is that object, under the key of
  the event where the queue takes keys.
\<close>

theorem acknowledged_bounce_is_reported:
  assumes "bounce_HandleEvent H (Inr (deliveryAttemptEventPayload a)) s = (None, s1)"
    and "at_Status a = AttemptBounced" and "go_TrimSpace (at_Sender a) \<noteq> []" and "trimStringList (at_DSNNotify a) = []"
  shows "\<exists>l ev. bs_calls s1 = bs_calls s @ l \<and> report_calls H ev l \<and> be_MessageID ev = go_TrimSpace (at_MessageID a) \<and>
    NormalizeAddress (bh_parse H) (go_TrimSpace (at_Sender a)) = Inr (be_Sender ev) \<and>
    NormalizeAddress (bh_parse H) (go_TrimSpace (at_Recipient a)) = Inr (be_Recipient ev)"
proof -
  from assms(1) decode_attempt [OF assms(2)] obtain ev where
    n: "normalizeBounceEvent (tx_quote (bh_text H)) (bh_parse H) (attempt_event a) = Inr ev"
    and h: "handleFailureEvent H ev s = (None, s1)"
    by (cases "normalizeBounceEvent (tx_quote (bh_text H)) (bh_parse H) (attempt_event a)")
      (auto simp: bounce_HandleEvent_def split: if_splits option.splits prod.splits)
  have ev: "be_MessageID ev = go_TrimSpace (at_MessageID a) \<and> be_Notify ev = [] \<and>
    NormalizeAddress (bh_parse H) (go_TrimSpace (at_Sender a)) = Inr (be_Sender ev) \<and>
    NormalizeAddress (bh_parse H) (go_TrimSpace (at_Recipient a)) = Inr (be_Recipient ev)"
    using n assms(3,4) by (auto simp: normalizeBounceEvent_def Let_def next_step_Inr attempt_event_def trim_event_def
        normalize_sender_def normalizeBounceNotify_def split: sum.splits)
  have "shouldGenerateFailureDSN ev"
  proof (rule ccontr)
    assume "\<not> shouldGenerateFailureDSN ev"
    then have "go_TrimSpace (be_Sender ev) = []" using ev by (auto simp: shouldGenerateFailureDSN_def split: if_splits)
    then show False using ev normalized_not_blank by blast
  qed
  then show ?thesis using handleFailureEvent_calls [OF h] ev by auto
qed

lemma broken_status: "containsLineBreak (be_ErrorMessage ev) \<Longrightarrow> \<exists>e. status_checks q ev = Inl e"
  by (simp add: status_checks_def)

text \<open>
  C23. A bounce whose reply has more than one line is never reported. The recorder writes the text of the error as it is,
  with the line breaks of a multi-line reply, and the handler refuses an event with a line break in it: it fails at
  every delivery, and stores and queues nothing.
\<close>

theorem multi_line_reply_is_not_reported:
  assumes "a \<in> set (attemptsForRecipients now job rs AttemptBounced (Some cause) t dsn)"
    and "containsLineBreak (go_TrimSpace (truncateUTF8Bytes (err_Error cause) 2000))"
  shows "\<exists>e. bounce_HandleEvent H (Inr (deliveryAttemptEventPayload a)) s = (Some e, s)"
proof -
  have a: "at_Status a = AttemptBounced" "at_ErrorMessage a = truncateUTF8Bytes (err_Error cause) 2000"
    using assms(1) by (auto simp: attemptsForRecipients_def attemptForRecipient_def Let_def)
  let ?q = "tx_quote (bh_text H)" and ?p = "bh_parse H"
  have "containsLineBreak (be_ErrorMessage (trim_event (attempt_event a)))"
    using assms(2) a(2) by (simp add: trim_event_def attempt_event_def)
  then obtain e where "status_checks ?q (trim_event (attempt_event a)) = Inl e" using broken_status by blast
  then have "normalizeBounceEvent ?q ?p (attempt_event a) = Inl e" by (simp add: normalizeBounceEvent_def)
  then have "decodeFailureEvents ?q ?p (Inr (deliveryAttemptEventPayload a)) = Inl e" using decode_attempt [OF a(1)] by simp
  then show ?thesis by (simp add: bounce_HandleEvent_def)
qed

lemma enqueued_call: "enqueue_once H t k d p s = (None, s1) \<Longrightarrow> \<exists>d'. BEnqueue t k d' p None \<in> set (bs_calls s1)"
  by (auto simp: enqueue_once_def noted_def split: option.splits prod.splits)

text \<open>
  A report that is queued twice can be lost. An event that is delivered again, for example because a later handler
  failed, is stored under the same path in the same month. If the queue fails at the second time the handler deletes the
  object, and the row that the first time has queued is left without its content.
\<close>

theorem failed_requeue_deletes_queued_report:
  assumes "queue_report H ev now composed s = (None, s1)" and "bh_store H"
    and "path = dsnStoragePath (bh_format H) now (be_MessageID ev @ ''-'' @ be_Recipient ev)" and "go_TrimSpace path \<noteq> []"
    and "bh_format H ''2006'' later = bh_format H ''2006'' now" and "bh_format H ''01'' later = bh_format H ''01'' now"
    and "fst (bh_put H path (cm_Raw composed') (bs_world s2)) = None" and "bh_marshal H (queued_report H ev path composed') = Inr payload'"
    and "H2 = H\<lparr>bh_EnqueueOnce := Some (\<lambda>topic key dedupe payload w. (Some e, w))\<rparr>"
  shows "\<exists>key dedupe payload q. BEnqueue (''mail.outbound.'' @ bh_farm H) key dedupe payload None \<in> set (bs_calls s1) \<and>
    bh_marshal H q = Inr payload \<and> qm_StoragePath q = path \<and>
    fst (queue_report H2 ev later composed' s2) = Some e \<and> BDelete path \<in> set (bs_calls (snd (queue_report H2 ev later composed' s2)))"
proof -
  have later: "dsnStoragePath (bh_format H) later m = dsnStoragePath (bh_format H) now m" for m
    by (simp only: dsnStoragePath_def assms(5,6))
  have q2: "queued_report H2 = queued_report H" by (intro ext) (simp add: queued_report_def assms(9))
  obtain w where w: "bh_put H path (cm_Raw composed') (bs_world s2) = (None, w)"
    using assms(7) by (cases "bh_put H path (cm_Raw composed') (bs_world s2)") auto
  have f2: "bh_format H2 = bh_format H" by (simp add: assms(9))
  have p2: "dsnStoragePath (bh_format H2) later (be_MessageID ev @ ''-'' @ be_Recipient ev) = path"
    by (simp only: f2 assms(3) later)
  define sA where "sA = noted (BPut path (cm_Raw composed') None) (s2\<lparr>bs_world := w\<rparr>)"
  have put: "put_object H2 path (cm_Raw composed') s2 = (None, sA)" by (simp add: put_object_def w assms(9) sA_def)
  obtain sB where enq: "enqueue_once H2 (''mail.outbound.'' @ bh_farm H2) (be_MessageID ev) (bounceDSNDedupeKey ev) payload' sA = (Some e, sB)"
    by (simp add: enqueue_once_def assms(9))
  have marshal: "bh_marshal H2 (queued_report H ev path composed') = Inr payload'" by (simp add: assms(8,9))
  have "queue_report H2 ev later composed' s2 = (Some e, deleteStoredMessageBestEffort H2 path sB)"
    unfolding queue_report_def Let_def p2 q2 put prod.case option.case marshal sum.case enq ..
  moreover have "BDelete path \<in> set (bs_calls (deleteStoredMessageBestEffort H2 path sB))"
    using assms(2,4) by (simp add: deleteStoredMessageBestEffort_def noted_def assms(9) split_beta)
  ultimately have second: "fst (queue_report H2 ev later composed' s2) = Some e \<and>
      BDelete path \<in> set (bs_calls (snd (queue_report H2 ev later composed' s2)))" by simp
  obtain w1 payload where p: "bh_marshal H (queued_report H ev path composed) = Inr payload"
    and r: "enqueue_once H (''mail.outbound.'' @ bh_farm H) (be_MessageID ev) (bounceDSNDedupeKey ev) payload w1 = (None, s1)"
    using assms(1) unfolding queue_report_def Let_def assms(3) [symmetric]
    by (auto split: prod.splits option.splits sum.splits)
  from enqueued_call [OF r] obtain dedupe where
    "BEnqueue (''mail.outbound.'' @ bh_farm H) (be_MessageID ev) dedupe payload None \<in> set (bs_calls s1)" by blast
  moreover have "qm_StoragePath (queued_report H ev path composed) = path" by (simp add: queued_report_def)
  ultimately show ?thesis using p second by blast
qed

section \<open>Examples\<close>

text \<open>A handler over a queue of rows, with a store that takes everything.\<close>

definition sample_bounce :: "queue_row list bounce_handler" where
  "sample_bounce = NewBounceHandler (\<lambda>_. None) ''postmaster@mx.org''
     \<lparr>bh_store = True, bh_queue = True, bh_put = (\<lambda>path raw w. (None, w)), bh_get = (\<lambda>path w. (Inl ''not found'', w)),
      bh_delete = (\<lambda>path w. (None, w)), bh_Enqueue = pg_Enqueue True None,
      bh_EnqueueOnce = Some (pg_EnqueueOnce True None), bh_reportingMTA = ''mx.org'',
      bh_postmaster = \<lparr>Name = [], Email = []\<rparr>, bh_farm = ''general'', bh_now = (\<lambda>w. (0, w)), bh_parse = identity_parser,
      bh_text = \<lparr>tx_qenc = (\<lambda>s. s), tx_fmt = (\<lambda>_. ''now''), tx_quote = (\<lambda>s. s), tx_gen_id = (\<lambda>d. d)\<rparr>,
      bh_format = (\<lambda>l _. if l = ''01'' then ''07'' else ''2024''), bh_read_message = (\<lambda>_. None),
      bh_marshal = (\<lambda>q. Inr (qm_StoragePath q))\<rparr>"

definition sample_bounced :: "derr option \<Rightarrow> attempt list" where
  "sample_bounced cause = attemptsForRecipients 0 (sample_message\<lparr>qm_StoragePath := ''m.eml''\<rparr>) [\<lparr>Name = [], Email = ''b@x.org''\<rparr>] AttemptBounced cause 1
     (dsnRecipientOptionsByAddress [])"

definition sample_bstate :: "queue_row list bstate" where
  "sample_bstate = \<lparr>bs_world = [], bs_calls = []\<rparr>"

definition multi_line :: derr where
  "multi_line = ErrTextproto 550 (''5.1.1 no such account'' @ [CHR 0x0A] @ ''5.1.1 see x.org/help'')"

theorem multi_line_reply_is_not_reported_witness:
  "list_all (\<lambda>a. \<exists>e. bounce_HandleEvent sample_bounce (Inr (deliveryAttemptEventPayload a)) sample_bstate = (Some e, sample_bstate))
     (sample_bounced (Some multi_line))"
proof -
  have "containsLineBreak (go_TrimSpace (truncateUTF8Bytes (err_Error multi_line) 2000))" by code_simp
  from multi_line_reply_is_not_reported [OF _ this] show ?thesis by (auto simp: list_all_iff sample_bounced_def)
qed

theorem no_bounce_of_a_bounce_witness:
  "snd (bounce_HandleEvent sample_bounce (Inr (deliveryAttemptEventPayload (attemptForRecipient
      (sample_message\<lparr>qm_From := \<lparr>Name = [], Email = []\<rparr>\<rparr>) \<lparr>Name = [], Email = ''b@x.org''\<rparr> AttemptBounced None [] 1 (\<lambda>_. None)))) sample_bstate)
    = sample_bstate"
  by (rule no_bounce_of_a_bounce [THEN conjunct1]) simp

theorem acknowledged_bounce_is_reported_witness:
  "\<exists>l. bs_calls (snd (bounce_HandleEvent sample_bounce (Inr (deliveryAttemptEventPayload (hd (sample_bounced None)))) sample_bstate)) = l \<and>
     list_ex (\<lambda>c. case c of BEnqueue topic key dedupe payload r \<Rightarrow> r = None | _ \<Rightarrow> False) l"
proof -
  let ?a = "hd (sample_bounced None)" and ?H = sample_bounce
  let ?run = "bounce_HandleEvent ?H (Inr (deliveryAttemptEventPayload ?a)) sample_bstate"
  have "fst ?run = None" by code_simp
  then have run: "?run = (None, snd ?run)" by (simp add: prod_eq_iff)
  have "at_Status ?a = AttemptBounced" "go_TrimSpace (at_Sender ?a) \<noteq> []" "trimStringList (at_DSNNotify ?a) = []" by code_simp+
  from acknowledged_bounce_is_reported [OF run this] obtain l ev where
    l: "bs_calls (snd ?run) = bs_calls sample_bstate @ l" and r: "report_calls ?H ev l" by blast
  from r obtain path dedupe payload raw where f: "filter (\<lambda>c. \<not> is_read c) l = [BPut path raw None,
      BEnqueue (''mail.outbound.'' @ bh_farm ?H) (be_MessageID ev) dedupe payload None]" unfolding report_calls_def queued_calls_def by blast
  then have "BEnqueue (''mail.outbound.'' @ bh_farm ?H) (be_MessageID ev) dedupe payload None \<in> set (filter (\<lambda>c. \<not> is_read c) l)" by simp
  then show ?thesis using l by (auto simp: list_ex_iff sample_bstate_def intro!: bexI)
qed

definition sample_report :: bounce_event where
  "sample_report = attempt_event (hd (sample_bounced None))"

definition sample_composed :: composed_message where
  "sample_composed = \<lparr>cm_Raw = ''report'', cm_MessageID = ''<dsn@mx.org>'', cm_Size = 6\<rparr>"

theorem failed_requeue_deletes_queued_report_witness:
  "\<exists>path. BDelete path \<in> set (bs_calls (snd (queue_report
       (sample_bounce\<lparr>bh_EnqueueOnce := Some (\<lambda>topic key dedupe payload w. (Some ''down'', w))\<rparr>) sample_report 5 sample_composed
       (snd (queue_report sample_bounce sample_report 0 sample_composed sample_bstate)))))"
proof -
  let ?s1 = "snd (queue_report sample_bounce sample_report 0 sample_composed sample_bstate)"
  let ?path = "dsnStoragePath (bh_format sample_bounce) 0 (be_MessageID sample_report @ ''-'' @ be_Recipient sample_report)"
  have "fst (queue_report sample_bounce sample_report 0 sample_composed sample_bstate) = None" by code_simp
  then have q: "queue_report sample_bounce sample_report 0 sample_composed sample_bstate = (None, ?s1)" by (simp add: prod_eq_iff)
  have "bh_store sample_bounce" "go_TrimSpace ?path \<noteq> []" "bh_format sample_bounce ''2006'' 5 = bh_format sample_bounce ''2006'' 0"
    "bh_format sample_bounce ''01'' 5 = bh_format sample_bounce ''01'' 0" by code_simp+
  moreover have "fst (bh_put sample_bounce ?path (cm_Raw sample_composed) (bs_world ?s1)) = None"
    "bh_marshal sample_bounce (queued_report sample_bounce sample_report ?path sample_composed) = Inr ?path"
    by (simp_all add: sample_bounce_def NewBounceHandler_def Let_def queued_report_def)
  ultimately show ?thesis
    using failed_requeue_deletes_queued_report [OF q _ refl _ _ _ _ _ refl] by blast
qed

section \<open>The message id of a notification\<close>

lemma trim_left_graphic: "list_all graphic s \<Longrightarrow> trim_left_space s = s"
  unfolding trim_left_space_def by (rule trim_run_graphic) (auto simp: graphic_not_space list_all_iff)

lemma field_word_graphic: "list_all graphic s \<Longrightarrow> field_word s = s"
proof (induction s)
  case (Cons c s)
  then show ?case using trim_left_graphic [of "c # s"] by simp
qed simp

lemma sanitizeDSNValue_graphic:
  assumes "list_all graphic s" and "s \<noteq> []"
  shows "sanitizeDSNValue s = s"
proof -
  have "map (\<lambda>c. if c \<in> {CHR 0x0D, CHR 0x0A} then CHR '' '' else c) s = s"
    using assms(1) by (induction s) (auto simp: graphic_def)
  moreover have "go_Fields s = [s]"
    using assms trim_left_graphic field_word_graphic
    by (simp add: go_Fields.simps [of s] go_Fields.simps [of "[]"] trim_left_space_def)
  ultimately show ?thesis by (simp only: sanitizeDSNValue_def go_Join.simps)
qed

lemma token_loop_append: "list_all (token_char k) p \<Longrightarrow> token_loop k b (p @ s) = p @ token_loop k (b \<and> p = []) s"
  by (induction p arbitrary: b) auto

lemma token_char_graphic: "token_char k c \<Longrightarrow> graphic c"
  by (auto simp: token_char_def graphic_def is_lower_def is_upper_def is_digit_def)

lemma TrimRight_append: "set z \<subseteq> set cs \<Longrightarrow> go_TrimRight (r @ z) cs = go_TrimRight r cs"
  by (simp add: go_TrimRight_def dropWhile_append subset_iff)

lemma TrimRight_split: "\<exists>z. s = go_TrimRight s cs @ z \<and> set z \<subseteq> set cs"
proof -
  let ?P = "\<lambda>c. c \<in> set cs"
  have "s = rev (dropWhile ?P (rev s)) @ rev (takeWhile ?P (rev s))"
    by (metis rev_append rev_rev_ident takeWhile_dropWhile_id)
  moreover have "set (rev (takeWhile ?P (rev s))) \<subseteq> set cs" by (auto dest: set_takeWhileD)
  ultimately show ?thesis unfolding go_TrimRight_def by blast
qed

lemma TrimRight_idem: "go_TrimRight (go_TrimRight s cs) cs = go_TrimRight s cs"
  by (simp add: go_TrimRight_def dropWhile_idem)

lemma short_token_cut:
  assumes "52 \<le> length p" and "hd p \<notin> set ''-.''"
  shows "short_token fallback (p @ t) = go_TrimRight (take 52 p) ''-.''"
proof -
  let ?R = "go_TrimRight (p @ t) ''-.''"
  obtain c q where p: "p = c # q" "c \<notin> set ''-.''" using assms by (cases p) auto
  have left: "go_TrimLeft (p @ t) ''-.'' = p @ t" using p by (auto simp: go_TrimLeft_def)
  have ne: "go_TrimRight (c # w) ''-.'' \<noteq> []" for w
    using p(2) by (auto simp: go_TrimRight_def dropWhile_eq_Nil_conv)
  obtain z where z: "p @ t = ?R @ z" "set z \<subseteq> set ''-.''" using TrimRight_split [of "p @ t" "''-.''"] by blast
  have cut: "take 52 (p @ t) = take 52 p" using assms(1) by simp
  define r where "r = ?R"
  have rz: "take 52 p = take 52 (r @ z)" unfolding cut [symmetric] r_def by (simp only: z(1) [symmetric])
  have "go_TrimRight (take 52 p) ''-.'' = r" if "length r \<le> 52"
  proof -
    have "take 52 p = r @ take (52 - length r) z" using rz that by simp
    moreover have "set (take (52 - length r) z) \<subseteq> set ''-.''" using z(2) set_take_subset by fast
    ultimately have "go_TrimRight (take 52 p) ''-.'' = go_TrimRight r ''-.''" by (simp only: TrimRight_append)
    then show ?thesis by (simp only: r_def TrimRight_idem)
  qed
  moreover have "take 52 r = take 52 p" if "52 < length r" using rz that by simp
  moreover have "go_TrimRight (take 52 p) ''-.'' \<noteq> []" using ne [of "take 51 q"] p(1) by simp
  moreover have "r \<noteq> []" using ne [of "q @ t"] p(1) by (simp add: r_def)
  moreover have "go_Trim (p @ t) ''-.'' = r" by (simp only: go_Trim_def left r_def)
  ultimately show ?thesis by (simp add: short_token_def Let_def)
qed

text \<open>
  C39. Two notifications share a message id. The id is cut off after 52 bytes, of which a message id of 36 bytes, as all
  stored messages have, leaves eleven for the recipient: the notifications for two recipients of one message whose addresses
  begin with the same eleven ordinary bytes have the same id. (The deduplicator of the inbound service takes the id and the
  mailbox for its key.)
\<close>

theorem reports_share_a_message_id:
  assumes "be_MessageID ev = mid" and "be_MessageID ev' = mid" and "length mid = 36" and "list_all (token_char False) mid"
    and "be_Recipient ev = u @ v" and "be_Recipient ev' = u @ v'" and "length u = 11" and "list_all (token_char False) u"
    and "list_all graphic v" and "list_all graphic v'"
  shows "bounceDSNMessageID ev mta = bounceDSNMessageID ev' mta"
proof -
  let ?p = "''dsn-'' @ mid @ ''-'' @ u"
  have p: "list_all (token_char False) ?p" using assms(4,8) by (simp add: token_char_def is_lower_def)
  have g: "list_all graphic (?p @ w)" if "list_all graphic w" for w
    using p that token_char_graphic by (fastforce simp: list_all_iff)
  have "sanitizeMessageIDLocal (?p @ w) = go_TrimRight (take 52 ?p) ''-.''" if w: "list_all graphic w" for w
  proof -
    have "sanitizeDSNValue (?p @ w) = ?p @ w" by (rule sanitizeDSNValue_graphic [OF g [OF w]]) simp
    then have "sanitizeMessageIDLocal (?p @ w) = short_token ''dsn'' (?p @ token_loop False (False \<and> ?p = []) w)"
      unfolding sanitizeMessageIDLocal_def by (simp only: token_loop_append [OF p])
    also have "\<dots> = go_TrimRight (take 52 ?p) ''-.''" by (rule short_token_cut) (use assms(3,7) in simp_all)
    finally show ?thesis .
  qed
  from this [OF assms(9)] this [OF assms(10)] show ?thesis
    by (simp add: bounceDSNMessageID_def assms(1,2,5,6))
qed

theorem reports_share_a_message_id_witness:
  "bounceDSNMessageID (sample_report\<lparr>be_MessageID := ''0b1e6f3c-93a2-4d5e-8f70-1a2b3c4d5e6f'', be_Recipient := ''newsletter1@a.org''\<rparr>) ''mx.org'' =
   bounceDSNMessageID (sample_report\<lparr>be_MessageID := ''0b1e6f3c-93a2-4d5e-8f70-1a2b3c4d5e6f'', be_Recipient := ''newsletter12@b.org''\<rparr>) ''mx.org''"
proof -
  let ?ev = "\<lambda>r. sample_report\<lparr>be_MessageID := ''0b1e6f3c-93a2-4d5e-8f70-1a2b3c4d5e6f'', be_Recipient := r\<rparr>"
  have "length ''0b1e6f3c-93a2-4d5e-8f70-1a2b3c4d5e6f'' = 36" "length ''newsletter1'' = 11"
    "list_all (token_char False) ''0b1e6f3c-93a2-4d5e-8f70-1a2b3c4d5e6f''" "list_all (token_char False) ''newsletter1''"
    "list_all graphic ''@a.org''" "list_all graphic ''2@b.org''" by code_simp+
  then show ?thesis
    using reports_share_a_message_id [of "?ev ''newsletter1@a.org''" "''0b1e6f3c-93a2-4d5e-8f70-1a2b3c4d5e6f''"
        "?ev ''newsletter12@b.org''" "''newsletter1''" "''@a.org''" "''2@b.org''" "''mx.org''"] by simp
qed

end
