(* ===== verification/Spec2Isabelle.thy ===== *)
theory Spec2Isabelle
  imports Pop3Server DeliveryWorker OutboxDrain MailArrival ServiceLimits BounceHandler
begin

text \<open>
  A development about gogomail, a mail server in Go. The parts modelled are the way of mail into the
  server (the SMTP receiver and the submission service, down to the database), the way of outbound mail
  from the outbox table to the SMTP transaction and back to the table, and the POP3 server. Every file
  named below is under \<open>src/internal\<close>. Definitions keep the names of the Go functions; where several
  types have a method of the same name, or a definition is one piece of a long function, the name says
  which (\<open>pool_Put\<close>, \<open>relay_ProcessOnce\<close>, \<open>throttle_gate\<close>).

  How the parts interact. The inbound receiver takes mail for local mailboxes: it resolves every recipient,
  spools the message, adds headers, checks for duplicates, writes one object per recipient to the store and
  hands it to a recorder, the mail database, which adds a row for the message to a folder of the user. The POP3 server
  lists these rows page by page. The submission service takes mail of users who have logged in; its recorder is the mail
  database, which charges the quota of the user, adds the message to the Sent folder and, in the same transaction,
  inserts a row in the table \<open>outbox\<close>. Relays claim rows, publish
  each to a Redis stream and mark it. The consumer of the delivery worker reads the stream and calls
  \<open>Handler.HandleEvent\<close> with each entry; the handler decodes the message, delivers to local mailboxes,
  passes three gates (back-off, rate limit, throttle) and gives the rest to the transport behind a
  circuit breaker. The transport plans batches, chooses routes and hosts, applies MTA-STS and DANE and
  runs the SMTP transaction, on a pooled connection if it has one. The handler records an attempt for
  every recipient, and schedules what failed for the moment as a new outbox row, until the retry policy
  is exhausted. The consumer acknowledges the entry, or leaves it pending and after too many deliveries
  copies it to the dead-letter stream. The event of a bounce, or of a message that is given up, goes to the bounce handler, which
  queues a notification to the sender.

  \<^bold>\<open>Theories.\<close>
  \<^item> \<open>GoBase\<close>: what the program uses of the Go library (package strings on byte strings, UTF-8, white
    space, base64, decimal numbers, 64-bit wrap-around), as definitions with their lemmas, and the shared
    hint collections. A Go string is the \<open>string\<close> of its bytes. A result \<open>(T, error)\<close> is \<open>'a res\<close>, with
    \<open>Inl\<close> the text of the error.
  \<^item> \<open>StateOps\<close>: operations on a state that return an error or a value, and their laws; the SMTP services and the
    mail database are written with them.
  \<^item> \<open>SmtpEnvelope\<close>: \<open>smtp/status.go\<close>, \<open>extensions.go\<close>, \<open>dsn_options.go\<close>, \<open>policy.go\<close>, the replies, the checks of the MAIL
    and RCPT options, and the limits. \<open>SmtpSpool\<close>: \<open>smtp/receiver_spool.go\<close>, \<open>spool_line.go\<close>, \<open>message_streaming.go\<close>,
    \<open>received.go\<close>, \<open>authentication_header.go\<close>, what the services do to the text of a message and where they store it.
  \<^item> \<open>SmtpService\<close>: what the two services share (\<open>smtp/hooks.go\<close>, storing and deleting). A service is its session, the world
    behind its interfaces, and the history \<open>rs_calls\<close> of what it called; \<open>no_orphans\<close> says that in such a history
    every stored object is recorded or deleted again.
  \<^item> \<open>SmtpReceiver\<close>: \<open>smtp/receiver.go\<close>, \<open>receiver_auth.go\<close>, the session of the inbound service as a step relation of its
    commands; \<open>SmtpSession\<close> its properties. \<open>SmtpSubmission\<close>: \<open>smtp/submission.go\<close>, in the same way.
  \<^item> \<open>MailQuota\<close>: \<open>maildb/quota.go\<close>, the ledgers of users, domains and companies as lists of rows.
  \<^item> \<open>SubmissionQueue\<close>: \<open>maildb/submission.go\<close>, \<open>outgoing.go\<close>, the transaction that records a submission, and the way of the
    event to the decoder of the delivery worker.
  \<^item> \<open>MessageRecord\<close>: \<open>maildb/repository.go\<close>, the look-up of a recipient and the transaction that records a received
    message. \<open>InboxListing\<close>: \<open>maildb/pagination.go\<close>, \<open>messages.go\<close>, \<open>admin_users.go\<close>, the cursors, the query and the folders
    behind the listing loop of \<open>Pop3Mailbox\<close>. Both work on the tables of \<open>SubmissionQueue\<close>.
  \<^item> \<open>ObjectStore\<close>: \<open>storage/path.go\<close>, \<open>local.go\<close>, \<open>prefix_delete.go\<close>, the store on the file system, which is a tree;
    \<open>objects\<close> is the map from paths to contents that it implements. The locale \<open>object_store\<close> states what deleting a
    prefix needs of a store, and is interpreted on the local one.
  \<^item> \<open>MailArrival\<close>: the receiver as \<open>app/run_smtp.go\<close> wires it to the local store and the mail database, and the way of a
    message from the client to the mailboxes.
  \<^item> \<open>ServiceLimits\<close>: \<open>dedup/redis.go\<close>, \<open>ratelimit/redis.go\<close>, \<open>fixed_window.go\<close>, \<open>backpressure/redis.go\<close>, \<open>auto.go\<close>,
    \<open>smtp/bulk_isolation.go\<close>, what stands behind the limits of the SMTP services.
  \<^item> \<open>Pop3Wire\<close>, \<open>Pop3Mailbox\<close>, \<open>Pop3Server\<close>: \<open>pop3d/pop3d.go\<close>, \<open>mailservice/pop3_adapter.go\<close> and the listing
    of \<open>maildb/pagination.go\<close>. A session is a record of its buffers and of the fields of the Go struct; each
    command handler maps the session and the shared server state (locks, failed logins) to new ones. A
    server is any number of sessions whose commands interleave. The locale \<open>maildrop\<close> states the contract
    of the \<open>Mailbox\<close> interface, \<open>keyed_maildrop\<close> extends it by the lock key; both are interpreted on the
    adapter.
  \<^item> \<open>DeliveryJob\<close>: \<open>delivery/handler.go\<close> from the payload to the job (identifiers, recipients, storage path,
    DSN options), \<open>delivery/errors.go\<close>, \<open>delivery/record.go\<close>. Errors are the datatype \<open>derr\<close>, on which
    \<open>errors.As\<close> and \<open>errors.Is\<close> are functions.
  \<^item> \<open>DeliveryLimits\<close>: \<open>delivery/throttle.go\<close>, \<open>rate_limiter.go\<close>, \<open>backoff.go\<close>, \<open>circuit_breaker.go\<close>, \<open>pool.go\<close>,
    \<open>counter.go\<close>. Times are \<open>int\<close> nanoseconds. The locale \<open>throttle_counter\<close> states what a lease
    counter promises, and proves the limit for every interleaving; it is interpreted on the in-process
    counter and on the Redis scripts.
  \<^item> \<open>DeliveryRetry\<close>: \<open>delivery/retry.go\<close>, with the byte-level patch of the JSON payload.
  \<^item> \<open>DeliveryRecorder\<close>: \<open>delivery/postgres.go\<close>, the attempt rows, events and suppressions of a transaction.
  \<^item> \<open>DsnText\<close>: \<open>dsn/dsn.go\<close>, the text of a delivery status notification. \<open>BounceHandler\<close>: \<open>dsn/handler.go\<close>, which reads the
    events that \<open>DeliveryRecorder\<close> writes and queues notifications; \<open>bs_calls\<close> is the history of what it called.
  \<^item> \<open>DeliveryHandler\<close>: \<open>delivery/handler.go\<close>, \<open>HandleEvent\<close> over the interfaces of \<open>Handler\<close>, each a
    function on a world; \<open>hs_calls\<close> is the history of what was called. The locale \<open>delivery_ports\<close> says what
    the handler may rely on, and proves that every recipient is settled.
  \<^item> \<open>MtaSts\<close>: \<open>mtasts/mtasts.go\<close>. \<open>DeliveryTransport\<close>: \<open>delivery/route.go\<close> and \<open>delivery/smtp_transport.go\<close>, down to
    SMTP commands and replies; \<open>ts_unsent\<close> is the history of the RCPT commands that were not sent.
  \<^item> \<open>DeliveryWorker\<close>: \<open>app/run_delivery.go\<close>, the handler on the models of all the above, and the
    interpretation of \<open>delivery_ports\<close> on them.
  \<^item> \<open>EventStream\<close>: \<open>eventstream/redis.go\<close> and \<open>router.go\<close>. \<open>Outbox\<close>: \<open>outbox/postgres.go\<close>, \<open>postgres_sharded.go\<close>,
    \<open>relay.go\<close>, \<open>redis.go\<close>; a table is the list of its rows, and a statement maps rows to rows.
    \<open>OutboxDrain\<close>: the polling loop of a relay, and that it empties the table.
  \<^item> This theory: the consumer process, and the property that spans consumer, handler and database.

  \<^bold>\<open>What the lemmas show.\<close> For a whole: acknowledged mail is settled (C1) and no recipient is lost by the worker, except in a batch whose RCPT
  commands could not all be sent,
  the sessions of the SMTP services are safe in every reachable state and a message they accept is stored, a recorded
  submission is decoded by the worker with all its recipients, the outbox loses no event, the rounds of a relay
  refine the step relation of its workers, recording a received message is one transaction, the pages of an inbox give every
  message once, the local store is a map whose writes are atomic, mail that the receiver accepts is in the mailboxes of
  its recipients, a relay empties the outbox in a
  bounded number of rounds, and an acknowledged bounce has been reported while bounces do not bounce. For the parts:
  invariants over all interleavings (maildrop locks, leases, circuits, outbox workers, balanced ledgers), bounds (rates,
  delays, truncation, line lengths), round trips (dot stuffing, SASL PLAIN, base64, publisher and
  consumer), the functional behaviour of each operation with its errors, and the end of retries. The
  properties of kind error describe inputs on which the code does not do what it seems to intend; they are
  listed in the manifest as findings.

  \<^bold>\<open>Termination and bounds.\<close> All loops of the model are recursion on the data, or on a measure that the code
  decreases (the rest of the input, the rounds left of a doubling). The loop over the pages of an inbox
  is a partial function, and returning is proved. The loops that never end in the program are
  cut by an argument: \<open>run_rounds n\<close> is the first \<open>n\<close> rounds of \<open>RedisConsumer.Run\<close>, \<open>worker_rounds n\<close> those of
  \<open>Relay.runWorker\<close> (as many as the rows have attempts left are enough), \<open>auto_run\<close> takes the times of the ticks, and the relays and
  the POP3 server are step relations, so that their properties hold in every reachable state. Durations and
  shifts are 64-bit where the code can wrap around; counters that cannot reach the bound are \<open>nat\<close> or
  \<open>int\<close>.

  \<^bold>\<open>Parameters.\<close> What is not in the repository is an argument of the definitions: \<open>net/mail\<close> address parsing, the JSON
  codec, the SMTP and TLS client, DNS and HTTPS answers, the clock, the outcome of each call of PostgreSQL and Redis; for the SMTP services also the store, the resolver, the authenticator, the
  recorder, the hooks, the parser of messages, and the failure of an operation on the spool file (\<open>rv_io\<close>, \<open>sv_io\<close>);
  for the mail database which of several rows a query with \<open>LIMIT 1\<close> yields (\<open>re_pick_folder\<close>, \<open>re_pick_message\<close>); for
  the local store which call of the system fails on which path (\<open>io\<close>).
  Named hypotheses state what is relied on: \<open>stable_ext\<close> (the extensions that a server announced are those of its reply
  to EHLO and do not change during a transaction), \<open>orderly\<close> (a statement returns the rows it
  updated, in some order), \<open>healthy\<close> (the database answers, and no row is held or put off), \<open>counter_laws\<close> and
  \<open>string_laws\<close> (what Redis documents of its commands). Each property with such a hypothesis has a witness.

  \<^bold>\<open>Not modelled.\<close> Of the modelled files: log lines, contexts and deadlines, the Redis variants of the rate limit
  and the back-off, DKIM signing, TLS reports, the Kafka publisher, the
  reader of the dead-letter stream, the Redis failures of the throttle counter, the statistics of bulk senders, the RFC report of submissions, latency traces and
  metrics. Of the program: the IMAP, LDAP,
  DAV and JMAP gateways, the HTTP API, the other SQL repositories, the start of the SMTP
  servers, the S3 store,
  authentication and administration: they are for the most part calls of libraries and SQL statements over a
  schema that is not a Go program.
\<close>

section \<open>The consumer of outbound mail\<close>

text \<open>The delivery worker as the handler of a stream consumer: the state of a process is that of the Redis
  server and that of the worker; a Redis command does not touch the latter.\<close>

definition on_redis :: "'q stream_client \<Rightarrow> ('q \<times> 'h) stream_client" where
  "on_redis R =
     \<lparr>sc_XGroupCreate = \<lambda>s g (q, h). map_prod id (\<lambda>q. (q, h)) (sc_XGroupCreate R s g q),
      sc_XAck = \<lambda>s g i (q, h). map_prod id (\<lambda>q. (q, h)) (sc_XAck R s g i q),
      sc_XAdd = \<lambda>s vs (q, h). map_prod id (\<lambda>q. (q, h)) (sc_XAdd R s vs q),
      sc_XPendingExt = \<lambda>s g i (q, h). map_prod id (\<lambda>q. (q, h)) (sc_XPendingExt R s g i q),
      sc_XAutoClaim = \<lambda>c i (q, h). map_prod id (\<lambda>q. (q, h)) (sc_XAutoClaim R c i q),
      sc_XReadGroup = \<lambda>c (q, h). map_prod id (\<lambda>q. (q, h)) (sc_XReadGroup R c q),
      sc_json_valid = sc_json_valid R,
      sc_timestamp = \<lambda>(q, h). sc_timestamp R q\<rparr>"

definition delivery_event_handler ::
    "'x worker_config \<Rightarrow> (string \<Rightarrow> queued_message res) \<Rightarrow> ('q \<times> 'x worker hstate) event_handler" where
  "delivery_event_handler C unmarshal m w =
     (case HandleEvent (worker_handler C) (wc_parse C) unmarshal (ms_Payload m) (snd w) of
        (r, h) \<Rightarrow> (map_option err_Error r, (fst w, h)))"

lemma on_redis_XAck_worker: "snd (snd (sc_XAck (on_redis R) s g i w)) = snd w"
  by (cases w) (simp add: on_redis_def)

lemma ack_message_worker: "ack_message D (on_redis R) i st = (r, st') \<Longrightarrow> snd (cst_world st') = snd (cst_world st)"
  by (auto simp: ack_message_def redis_call_def note_event_def on_redis_XAck_worker)

inductive_cases handled_traceE: "message_trace C (CHandled m (Some e) # l)"

lemma dead_letter_trace:
  assumes "message_trace C (CHandled m (Some e) # l)" and "acks_of l \<noteq> []"
  shows "\<exists>n. cs_maxDeliveries C \<le> n \<and> CDead m e n None \<in> set l"
  using assms by (auto elim: handled_traceE)

text \<open>
  C1. Outbound mail that is acknowledged is settled. If the consumer of the delivery worker acknowledges
  a stream entry that decodes to a queued message, then every recipient of the message that has a domain and
  is a normalised address is settled in the worker's database (delivered, bounced, given up, or scheduled for a
  retry), or the entry was delivered at least the configured number of times and has been copied to the
  dead-letter stream, or in this very run the RCPT command of a recipient of the message with the same domain was
  not sent (its write failed, or it contains a line break): then the transport reports only the first recipient of
  the batch. The history of unsent commands is empty before the run, and a server's extensions do not change by
  sending commands; nothing else is assumed of the network, the database, the gates or Redis.
\<close>

theorem acknowledged_mail_is_settled:
  assumes "processRedisMessage D (on_redis R) (delivery_event_handler C unmarshal) stream xm st = (Inr True, st')"
    and "decodeRedisMessage (sc_json_valid R) stream xm = Inr m"
    and "DecodeQueuedMessage (wc_parse C) (unmarshal (ms_Payload m)) = Inr q"
    and "stable_ext (wc_net C)" and "ts_unsent (wk_transport (hs_world (snd (cst_world st)))) = []"
    and "r \<in> set (qm_Recipients (wc_parse C) q)" and "NormalizeAddress (wc_parse C) (Email r) = Inr (Email r)"
    and "domain_of r \<noteq> []"
  shows "recipient_settled (wc_parse C) (qm_MessageID q) (hs_world (snd (cst_world st'))) (Email r) \<or>
    (\<exists>e n. cs_maxDeliveries D \<le> n \<and> CDead m e n None \<in> set (drop (length (cst_log st)) (cst_log st'))) \<or>
    (\<exists>r'\<in>set (qm_Recipients (wc_parse C) q). domain_of r' = domain_of r \<and>
       unsent_rcpt (ts_unsent (wk_transport (hs_world (snd (cst_world st'))))) r')"
proof -
  let ?H = "delivery_event_handler C unmarshal"
  obtain x h where x: "HandleEvent (worker_handler C) (wc_parse C) unmarshal (ms_Payload m) (snd (cst_world st)) = (x, h)"
    by (cases "HandleEvent (worker_handler C) (wc_parse C) unmarshal (ms_Payload m) (snd (cst_world st))")
  define st1 where "st1 = st\<lparr>cst_world := (fst (cst_world st), h)\<rparr>"
  have call: "redis_call (?H m) st = (map_option err_Error x, st1)"
    by (simp add: redis_call_def delivery_event_handler_def x st1_def)
  have valid: "sc_json_valid (on_redis R) = sc_json_valid R" by (simp add: on_redis_def)
  show ?thesis
  proof (cases x)
    case None
    obtain z st2 where z: "ack_message D (on_redis R) (xm_ID xm) (note_event (CHandled m None) st1) = (z, st2)"
      by (cases "ack_message D (on_redis R) (xm_ID xm) (note_event (CHandled m None) st1)")
    have "st' = st2" using assms(1,2) call None z
      by (auto simp: processRedisMessage_def valid split: option.splits)
    then have "snd (cst_world st') = h" using ack_message_worker [OF z] by (simp add: note_event_def st1_def)
    moreover have "recipient_settled (wc_parse C) (qm_MessageID q) (hs_world h) (Email r) \<or>
        unsent_in_domain (qm_Recipients (wc_parse C) q) (hs_world h) (domain_of r)"
      by (rule worker_settles_or_unsent [OF x [unfolded None] assms(3,4,6,7,8)])
    ultimately show ?thesis by (auto simp: unsent_in_domain_def list_ex_iff)
  next
    case (Some e)
    then have "deadLetterIfPoison D (on_redis R) m (err_Error e) (note_event (CHandled m (Some (err_Error e))) st1) = (Inr True, st')"
      using assms(1,2) call by (simp add: processRedisMessage_def valid)
    from deadLetterIfPoison_log [OF this] obtain l where l: "cst_log st' = cst_log st1 @ [CHandled m (Some (err_Error e))] @ l"
      "message_trace D (CHandled m (Some (err_Error e)) # l)" "acks_of l = [ms_ID m]" by auto
    have "cst_log st1 = cst_log st" by (simp add: st1_def)
    then show ?thesis using dead_letter_trace [OF l(2)] l by auto
  qed
qed

definition quiet_redis :: "unit stream_client" where
  "quiet_redis =
     \<lparr>sc_XGroupCreate = \<lambda>_ _ q. (None, q), sc_XAck = \<lambda>_ _ _ q. (None, q), sc_XAdd = \<lambda>_ _ q. (None, q),
      sc_XPendingExt = \<lambda>_ _ _ q. (Inr [], q), sc_XAutoClaim = \<lambda>_ _ q. (Inr ([], []), q),
      sc_XReadGroup = \<lambda>_ q. (Inl RedisNil, q), sc_json_valid = \<lambda>_. True, sc_timestamp = \<lambda>_. []\<rparr>"

definition sample_consumer :: consumer where
  "sample_consumer = \<lparr>cs_stream = ''mail.outbound.general'', cs_group = ''g'', cs_consumer = ''c'', cs_count = 1, cs_block = 1,
     cs_claimIdle = 0, cs_maxDeliveries = 10, cs_deadLetterStream = ''dead''\<rparr>"

definition sample_entry :: xmessage where
  "sample_entry = \<lparr>xm_ID = ''1-0'', xm_Values = [''outbox_id'' \<mapsto> VStr ''o1'', ''partition_key'' \<mapsto> VStr ''m1'', ''payload'' \<mapsto> VStr ''{}'']\<rparr>"

definition sample_message_in :: message where
  "sample_message_in = \<lparr>ms_ID = ''1-0'', ms_Stream = ''s'', ms_OutboxID = ''o1'', ms_PartitionKey = ''m1'', ms_Payload = ''{}''\<rparr>"

definition sample_cstate :: "(unit \<times> int list worker hstate) cstate" where
  "sample_cstate = \<lparr>cst_world = ((), sample_hstate [250, 451]), cst_claimStart = redisClaimStartID, cst_log = []\<rparr>"

lemma not_in_drop: "x \<notin> set l \<Longrightarrow> x \<notin> set (drop n l)"
  by (auto dest: in_set_dropD)

theorem acknowledged_mail_is_settled_witness:
  "\<exists>q st'. processRedisMessage sample_consumer (on_redis quiet_redis)
       (delivery_event_handler sample_config (\<lambda>_. Inr sample_queued)) ''s'' sample_entry sample_cstate = (Inr True, st') \<and>
     DecodeQueuedMessage identity_parser (Inr sample_queued) = Inr q \<and>
     recipient_settled identity_parser (qm_MessageID q) (hs_world (snd (cst_world st'))) ''b@x.org''"
proof -
  let ?run = "processRedisMessage sample_consumer (on_redis quiet_redis)
       (delivery_event_handler sample_config (\<lambda>_. Inr sample_queued)) ''s'' sample_entry sample_cstate"
  have d: "decodeRedisMessage (sc_json_valid quiet_redis) ''s'' sample_entry = Inr sample_message_in"
  proof -
    have "go_TrimSpace ''o1'' = ''o1''" "go_TrimSpace ''m1'' = ''m1''" "go_TrimSpace ''{}'' = ''{}''" by code_simp+
    then show ?thesis
      by (simp add: decodeRedisMessage_def stringValue_def check_value_def go_ContainsAny_def sample_entry_def
          sample_message_in_def quiet_redis_def maxRedisMetadataBytes_def maxRedisPayloadBytes_def)
  qed
  obtain h where h: "HandleEvent (worker_handler sample_config) identity_parser (\<lambda>_. Inr sample_queued) ''{}''
      (sample_hstate [250, 451]) = (None, h)"
    using sample_run by (cases "HandleEvent (worker_handler sample_config) identity_parser (\<lambda>_. Inr sample_queued) ''{}''
      (sample_hstate [250, 451])") simp
  have valid: "sc_json_valid (on_redis quiet_redis) = sc_json_valid quiet_redis" by (simp add: on_redis_def)
  have "fst (redis_call (delivery_event_handler sample_config (\<lambda>_. Inr sample_queued) sample_message_in) sample_cstate) = None"
    unfolding redis_call_def delivery_event_handler_def sample_config_ports
    by (simp add: sample_cstate_def sample_message_in_def h)
  then obtain st1 where c1: "redis_call (delivery_event_handler sample_config (\<lambda>_. Inr sample_queued) sample_message_in) sample_cstate = (None, st1)"
    by (metis prod.collapse)
  have "fst (ack_message sample_consumer (on_redis quiet_redis) i s) = None" for i and s :: "(unit \<times> int list worker hstate) cstate"
    by (cases "cst_world s") (simp add: ack_message_def redis_call_def on_redis_def quiet_redis_def)
  then obtain st2 where c2: "ack_message sample_consumer (on_redis quiet_redis) (xm_ID sample_entry)
      (note_event (CHandled sample_message_in None) st1) = (None, st2)" by (metis prod.collapse)
  have run: "?run = (Inr True, st2)"
    unfolding processRedisMessage_def valid d sum.case c1 prod.case option.case c2 by simp
  have st1: "snd (cst_world st1) = h" "cst_log st1 = []"
    using c1 by (auto simp: redis_call_def delivery_event_handler_def h sample_message_in_def sample_cstate_def)
  have "snd (cst_world st2) = h" using ack_message_worker [OF c2] st1(1) by (simp add: note_event_def)
  then have sent: "ts_unsent (wk_transport (hs_world (snd (cst_world st2)))) = []" using sample_sent(2) h by simp
  have start: "ts_unsent (wk_transport (hs_world (snd (cst_world sample_cstate)))) = []"
    using sample_sent(1) by (simp add: sample_cstate_def)
  have alive: "CDead sample_message_in e n None \<notin> set (cst_log st2)" for e n
    using c2 st1(2) by (auto simp: ack_message_def redis_call_def note_event_def split: prod.splits)
  obtain q where q: "DecodeQueuedMessage identity_parser (Inr sample_queued) = Inr q"
    and c: "\<lparr>Name = [], Email = ''b@x.org''\<rparr> \<in> set (qm_Recipients identity_parser q)" using sample_decoded by metis
  have m: "ms_Payload sample_message_in = ''{}''" by (simp add: sample_message_in_def)
  have "recipient_settled identity_parser (qm_MessageID q) (hs_world (snd (cst_world st2))) ''b@x.org''"
    using acknowledged_mail_is_settled [where C = sample_config and r = "\<lparr>Name = [], Email = ''b@x.org''\<rparr>", OF run d,
        unfolded m sample_config_ports, OF q scripted_net_laws start c] sample_normalised sent
      not_in_drop [OF alive] by auto
  with run q show ?thesis by blast
qed

end
